(* ===== verification/Prelude.thy ===== *)
theory Prelude
  imports Main "HOL-Library.Word" "HOL-Library.Multiset"
    "HOL-Library.List_Lexorder" "HOL-Library.Char_ord" "HOL-Library.Product_Lexorder"
begin

text \<open>
  What the components share. A Go string is a list of bytes (\<^typ>\<open>string\<close>), a Go map is a
  partial function, \<^verbatim>\<open>time.Time\<close> is an instant counted in nanoseconds from the zero time, a
  fallible call returns a sum with the error on the left, and a 64-bit signed integer is an
  \<^typ>\<open>int\<close> whose arithmetic wraps explicitly. The theory holds the models of the library calls
  the sources use (\<^verbatim>\<open>strings.HasPrefix\<close>, \<^verbatim>\<open>strings.TrimSpace\<close>, \<^verbatim>\<open>sort.Slice\<close>, reads of a
  missing map key), the generic facts on lists, maps and results, and the locales of the two
  contracts many components share: a step that keeps an invariant and a step that may refuse.
\<close>

named_theorems go_defs \<open>unfolding rules for the models of Go library calls\<close>
named_theorems inv_intros \<open>preservation of component invariants by operations\<close>

subsection \<open>Types\<close>

type_synonym gotime = int
type_synonym int64 = int
type_synonym uint64 = "64 word"
type_synonym ('e, 'a) result = "'e + 'a"

subsection \<open>Integers\<close>

definition int64_max :: int where
  "int64_max = 9223372036854775807"

definition int64_min :: int where
  "int64_min = - 9223372036854775808"

definition is_int64 :: "int \<Rightarrow> bool" where
  "is_int64 x \<longleftrightarrow> int64_min \<le> x \<and> x \<le> int64_max"

definition add64 :: "int \<Rightarrow> int \<Rightarrow> int" where
  "add64 a b = (a + b + 9223372036854775808) mod 18446744073709551616 - 9223372036854775808"

lemma add64_in_range: "is_int64 (add64 a b)"
proof -
  have "0 \<le> (a + b + 9223372036854775808) mod (18446744073709551616 :: int)"
    and "(a + b + 9223372036854775808) mod (18446744073709551616 :: int) < 18446744073709551616"
    by simp_all
  then show ?thesis by (simp add: is_int64_def add64_def int64_min_def int64_max_def)
qed

lemma add64_exact: "is_int64 (a + b) \<Longrightarrow> add64 a b = a + b"
  by (simp add: is_int64_def add64_def int64_min_def int64_max_def)

lemma add64_overflow: "add64 int64_max 1 = int64_min"
  by (simp add: add64_def int64_min_def int64_max_def)

subsection \<open>Strings\<close>

definition hasPrefix :: "string \<Rightarrow> string \<Rightarrow> bool" where
  "hasPrefix s p \<longleftrightarrow> take (length p) s = p"

definition hasSuffix :: "string \<Rightarrow> string \<Rightarrow> bool" where
  "hasSuffix s p \<longleftrightarrow> length p \<le> length s \<and> drop (length s - length p) s = p"

definition trimPrefix :: "string \<Rightarrow> string \<Rightarrow> string" where
  "trimPrefix s p = (if hasPrefix s p then drop (length p) s else s)"

lemmas [go_defs] = hasPrefix_def hasSuffix_def trimPrefix_def

lemma hasPrefix_append [simp]: "hasPrefix (p @ s) p"
  by (simp add: hasPrefix_def)

lemma hasPrefix_iff: "hasPrefix s p \<longleftrightarrow> (\<exists>r. s = p @ r)"
  by (metis append_take_drop_id hasPrefix_append hasPrefix_def)

lemma trimPrefix_append [simp]: "trimPrefix (p @ s) p = s"
  by (simp add: trimPrefix_def)

text \<open>
  \<^verbatim>\<open>strings.TrimSpace\<close> removes every leading and trailing Unicode white space. On bytes a white
  space is one of the UTF-8 encodings below; a byte sequence that is not one of them stops the
  trimming, also where it is not valid UTF-8.
\<close>

definition space_seqs :: "nat list list" where
  "space_seqs = map (\<lambda>b. [b]) [9, 10, 11, 12, 13, 32] @ [[194, 133], [194, 160], [225, 154, 128]]
     @ map (\<lambda>b. [226, 128, b]) [128, 129, 130, 131, 132, 133, 134, 135, 136, 137, 138, 168, 169, 175]
     @ [[226, 129, 159], [227, 128, 128]]"

definition byte_codes :: "string \<Rightarrow> nat list" where
  "byte_codes s = map of_char s"

fun strip_space :: "nat list list \<Rightarrow> nat list \<Rightarrow> nat option" where
  "strip_space [] s = None"
| "strip_space (q # qs) s =
     (if q \<noteq> [] \<and> take (length q) s = q then Some (length q) else strip_space qs s)"

lemma strip_space_bounds: "strip_space qs s = Some n \<Longrightarrow> 0 < n \<and> n \<le> length s"
proof (induction qs s rule: strip_space.induct)
  case (2 q qs s)
  then show ?case
    by (auto split: if_splits dest: arg_cong [where f = length])
qed simp

function trimLeftSpace :: "string \<Rightarrow> string" where
  "trimLeftSpace s =
     (case strip_space space_seqs (byte_codes s) of
        None \<Rightarrow> s | Some n \<Rightarrow> trimLeftSpace (drop n s))"
  by pat_completeness auto
termination
proof (relation "measure length")
  fix s n assume "strip_space space_seqs (byte_codes s) = Some n"
  then have "0 < n \<and> n \<le> length s"
    using strip_space_bounds [of space_seqs "byte_codes s" n] by (simp add: byte_codes_def)
  then show "(drop n s, s) \<in> measure length" by auto
qed simp

declare trimLeftSpace.simps [simp del]

function trimRightSpace :: "string \<Rightarrow> string" where
  "trimRightSpace s =
     (case strip_space (map rev space_seqs) (byte_codes (rev s)) of
        None \<Rightarrow> s | Some n \<Rightarrow> trimRightSpace (take (length s - n) s))"
  by pat_completeness auto
termination
proof (relation "measure length")
  fix s n assume "strip_space (map rev space_seqs) (byte_codes (rev s)) = Some n"
  then have "0 < n \<and> n \<le> length s"
    using strip_space_bounds [of "map rev space_seqs" "byte_codes (rev s)" n]
    by (simp add: byte_codes_def)
  then show "(take (length s - n) s, s) \<in> measure length" by auto
qed simp

declare trimRightSpace.simps [simp del]

definition trimSpace :: "string \<Rightarrow> string" where
  "trimSpace s = trimRightSpace (trimLeftSpace s)"

definition isLowerHex :: "char \<Rightarrow> bool" where
  "isLowerHex c \<longleftrightarrow> (CHR ''0'' \<le> c \<and> c \<le> CHR ''9'') \<or> (CHR ''a'' \<le> c \<and> c \<le> CHR ''f'')"

lemma trimLeftSpace_Nil [simp]: "trimLeftSpace [] = []"
  by (subst trimLeftSpace.simps) (simp add: byte_codes_def space_seqs_def)

lemma trimRightSpace_Nil [simp]: "trimRightSpace [] = []"
  by (subst trimRightSpace.simps) (simp add: byte_codes_def space_seqs_def)

lemma trimSpace_Nil [simp]: "trimSpace [] = []"
  by (simp add: trimSpace_def)

lemma trimLeftSpace_stops:
  "strip_space space_seqs (byte_codes (trimLeftSpace s)) = None"
proof (induction s rule: trimLeftSpace.induct)
  case (1 s)
  then show ?case
    by (cases "strip_space space_seqs (byte_codes s)") (simp_all add: trimLeftSpace.simps [of s])
qed

text \<open>Decimal printing, as \<^verbatim>\<open>fmt.Sprintf\<close> prints a value with the verb for integers.\<close>

fun digits :: "nat \<Rightarrow> string" where
  "digits n = (if n < 10 then [char_of (48 + n)] else digits (n div 10) @ [char_of (48 + n mod 10)])"

declare digits.simps [simp del]

definition itoa :: "int \<Rightarrow> string" where
  "itoa i = (if i < 0 then CHR ''-'' # digits (nat (- i)) else digits (nat i))"

text \<open>\<^verbatim>\<open>strings.Split\<close> and \<^verbatim>\<open>strings.Trim\<close> for a separator of one byte.\<close>

fun splitOn :: "char \<Rightarrow> string \<Rightarrow> string list" where
  "splitOn c [] = [[]]"
| "splitOn c (x # xs) = (if x = c then [] # splitOn c xs
     else (case splitOn c xs of [] \<Rightarrow> [[x]] | p # ps \<Rightarrow> (x # p) # ps))"

definition trimChar :: "char \<Rightarrow> string \<Rightarrow> string" where
  "trimChar c s = rev (dropWhile (\<lambda>x. x = c) (rev (dropWhile (\<lambda>x. x = c) s)))"

subsection \<open>Maps\<close>

text \<open>Reading a missing key of a Go map gives the zero value of its element type.\<close>

definition getz :: "'v \<Rightarrow> ('k \<rightharpoonup> 'v) \<Rightarrow> 'k \<Rightarrow> 'v" where
  "getz z m k = (case m k of None \<Rightarrow> z | Some v \<Rightarrow> v)"

lemma getz_None [simp]: "m k = None \<Longrightarrow> getz z m k = z"
  and getz_Some [simp]: "m k = Some v \<Longrightarrow> getz z m k = v"
  by (simp_all add: getz_def)

lemma getz_upd [simp]: "getz z (m(k \<mapsto> v)) j = (if j = k then v else getz z m j)"
  by (simp add: getz_def)

text \<open>
  A loop over a map visits its keys in an order the runtime chooses; the model takes the
  order as an argument, and a function is deterministic when no such order changes its result.
\<close>

definition enumerates :: "'k list \<Rightarrow> 'k set \<Rightarrow> bool" where
  "enumerates ks K \<longleftrightarrow> distinct ks \<and> set ks = K"

lemma enumerates_mset: "enumerates ks K \<Longrightarrow> enumerates ks' K \<Longrightarrow> mset ks = mset ks'"
  by (metis enumerates_def set_eq_iff_mset_eq_distinct)

subsection \<open>Sorting\<close>

text \<open>
  \<^verbatim>\<open>sort.Slice\<close> returns some permutation of its input that the comparison orders; it is not
  stable. The model computes the stable one. Where the keys are distinct there is only one
  such permutation (\<open>sorts_unique\<close>), so the choice does not show.
\<close>

definition sorts :: "('a \<Rightarrow> 'k::linorder) \<Rightarrow> 'a list \<Rightarrow> 'a list \<Rightarrow> bool" where
  "sorts key xs ys \<longleftrightarrow> mset ys = mset xs \<and> sorted (map key ys)"

definition go_sort :: "('a \<Rightarrow> 'k::linorder) \<Rightarrow> 'a list \<Rightarrow> 'a list" where
  "go_sort key xs = sort_key key xs"

lemma go_sort_sorts: "sorts key xs (go_sort key xs)"
  by (simp add: sorts_def go_sort_def)

lemma sorts_unique:
  assumes "sorts key xs ys" "sorts key xs zs" "distinct (map key xs)"
  shows "ys = zs"
proof -
  from assms have m: "mset (map key ys) = mset (map key zs)" and e: "mset ys = mset zs"
    by (simp_all add: sorts_def)
  from assms have d: "distinct (map key ys)"
    by (metis mset_eq_imp_distinct_iff mset_map sorts_def)
  have "map key ys = map key zs"
    using assms m by (metis properties_for_sort sorts_def)
  moreover have "inj_on key (set ys \<union> set zs)"
    using d e by (metis distinct_map mset_eq_setD sup.idem)
  ultimately show ?thesis by (metis map_inj_on)
qed

lemma go_sort_unique:
  "sorts key xs ys \<Longrightarrow> distinct (map key xs) \<Longrightarrow> ys = go_sort key xs"
  using sorts_unique go_sort_sorts by blast

lemma set_go_sort [simp]: "set (go_sort key xs) = set xs"
  and mset_go_sort [simp]: "mset (go_sort key xs) = mset xs"
  and sorted_go_sort [simp]: "sorted (map key (go_sort key xs))"
  and length_go_sort [simp]: "length (go_sort key xs) = length xs"
  by (simp_all add: go_sort_def)

lemma distinct_map_perm: "mset xs = mset ys \<Longrightarrow> distinct (map f xs) = distinct (map f ys)"
  by (rule mset_eq_imp_distinct_iff) simp

lemma distinct_map_go_sort [simp]: "distinct (map f (go_sort key xs)) = distinct (map f xs)"
  by (rule distinct_map_perm) simp

lemma go_sort_id: "sorted (map key xs) \<Longrightarrow> go_sort key xs = xs"
  by (simp add: go_sort_def sort_key_id_if_sorted)

lemma go_sort_perm:
  assumes "mset xs = mset ys" "distinct (map key xs)"
  shows "go_sort key xs = go_sort key ys"
proof -
  have "sorts key xs (go_sort key ys)" using assms(1) by (simp add: sorts_def)
  then show ?thesis using go_sort_unique assms(2) by metis
qed

lemma filter_go_sort: "filter P (go_sort key xs) = go_sort key (filter P xs)"
  by (simp add: go_sort_def filter_sort)

subsection \<open>Steps that keep an invariant\<close>

text \<open>
  Folding a log of events into a state: a step that keeps the invariant keeps it over every
  log, and where steps on different keys do not interfere, the part of the state at a key
  depends on that key's events only.
\<close>

locale fold_step =
  fixes step :: "'s \<Rightarrow> 'e \<Rightarrow> 's"
    and inv :: "'s \<Rightarrow> bool"
  assumes step_inv: "inv s \<Longrightarrow> inv (step s e)"
begin

lemma foldl_inv: "inv s \<Longrightarrow> inv (foldl step s es)"
  by (induction es arbitrary: s) (simp_all add: step_inv)

end

locale keyed_fold_step = fold_step +
  fixes key :: "'b \<Rightarrow> 'k"
    and view :: "'a \<Rightarrow> 'k \<Rightarrow> 'v"
  assumes step_view: "key e \<noteq> k \<Longrightarrow> view (step s e) k = view s k"
    and step_local: "view s k = view t k \<Longrightarrow> key e = k \<Longrightarrow> view (step s e) k = view (step t e) k"
begin

lemma foldl_view_cong:
  "view s k = view t k \<Longrightarrow>
   view (foldl step s es) k = view (foldl step t (filter (\<lambda>e. key e = k) es)) k"
proof (induction es arbitrary: s t)
  case (Cons e es)
  show ?case
  proof (cases "key e = k")
    case True
    with Cons.prems have "view (step s e) k = view (step t e) k" by (blast intro: step_local)
    from Cons.IH [OF this] show ?thesis using True by simp
  next
    case False
    then have "view (step s e) k = view t k" using Cons.prems by (simp add: step_view)
    from Cons.IH [OF this] show ?thesis using False by simp
  qed
qed simp

lemma foldl_view: "view (foldl step s es) k = view (foldl step s (filter (\<lambda>e. key e = k) es)) k"
  by (rule foldl_view_cong) simp

end

text \<open>Collecting results in order, up to the first error.\<close>

fun all_results :: "('e + 'a) list \<Rightarrow> 'e + 'a list" where
  "all_results [] = Inr []"
| "all_results (Inl e # rs) = Inl e"
| "all_results (Inr x # rs) = (case all_results rs of Inl e \<Rightarrow> Inl e | Inr xs \<Rightarrow> Inr (x # xs))"

lemma all_results_map_Inr [simp]: "all_results (map Inr xs) = Inr xs"
  by (induction xs) simp_all

lemma all_results_Inr_iff: "all_results rs = Inr xs \<longleftrightarrow> rs = map Inr xs"
proof
  show "all_results rs = Inr xs \<Longrightarrow> rs = map Inr xs"
    by (induction rs arbitrary: xs rule: all_results.induct) (auto split: sum.splits)
qed simp

text \<open>Going on with a result, or passing the error on: the chain of \<^verbatim>\<open>if err != nil { return err }\<close>.\<close>

fun rbind :: "'e + 'a \<Rightarrow> ('a \<Rightarrow> 'e + 'b) \<Rightarrow> 'e + 'b" where
  "rbind (Inl e) f = Inl e"
| "rbind (Inr x) f = f x"

lemma rbind_Inr_iff: "rbind r f = Inr y \<longleftrightarrow> (\<exists>x. r = Inr x \<and> f x = Inr y)"
  by (cases r) simp_all

lemma rbind_cong [fundef_cong]: "r = s \<Longrightarrow> (\<And>x. s = Inr x \<Longrightarrow> f x = g x) \<Longrightarrow> rbind r f = rbind s g"
  by (cases s) simp_all

text \<open>A step that may refuse: a run stops at the first refusal and reports it.\<close>

fun run_steps :: "('s \<Rightarrow> 'e \<Rightarrow> 'err + 's) \<Rightarrow> 's \<Rightarrow> 'e list \<Rightarrow> 'err + 's" where
  "run_steps f s [] = Inr s"
| "run_steps f s (e # es) = (case f s e of Inl x \<Rightarrow> Inl x | Inr t \<Rightarrow> run_steps f t es)"

lemma run_steps_append:
  "run_steps f s (es @ fs) =
     (case run_steps f s es of Inl x \<Rightarrow> Inl x | Inr t \<Rightarrow> run_steps f t fs)"
  by (induction es arbitrary: s) (simp_all split: sum.splits)

fun state_of :: "'err + 'r \<times> 's \<Rightarrow> 'err + 's" where
  "state_of (Inl e) = Inl e"
| "state_of (Inr (r, s)) = Inr s"

lemma state_of_Inr_iff: "state_of x = Inr s \<longleftrightarrow> (\<exists>r. x = Inr (r, s))"
  by (cases x rule: state_of.cases) simp_all

locale guarded_step =
  fixes step :: "'s \<Rightarrow> 'e \<Rightarrow> 'err + 's"
    and inv :: "'s \<Rightarrow> bool"
  assumes step_inv: "inv s \<Longrightarrow> step s e = Inr t \<Longrightarrow> inv t"
begin

lemma run_inv: "inv s \<Longrightarrow> run_steps step s es = Inr t \<Longrightarrow> inv t"
proof (induction es arbitrary: s)
  case (Cons e es)
  then obtain u where "step s e = Inr u" "run_steps step u es = Inr t"
    by (auto split: sum.splits)
  then show ?case using Cons step_inv by blast
qed simp

end

subsection \<open>Words\<close>

lemma word_less_succ: "w + 1 \<noteq> 0 \<Longrightarrow> w < w + (1 :: 'w :: len word)"
  using unatSuc [of w] by (simp add: add.commute word_less_nat_alt)

subsection \<open>Lists\<close>

lemma distinct_map_inj_eq:
  "distinct (map f xs) \<Longrightarrow> x \<in> set xs \<Longrightarrow> y \<in> set xs \<Longrightarrow> f x = f y \<Longrightarrow> x = y"
  by (auto simp: distinct_map inj_on_def)

lemma filter_le_partition:
  "sorted (map f xs) \<Longrightarrow> filter (\<lambda>x. f x \<le> (c :: 'k :: linorder)) xs @ filter (\<lambda>x. \<not> f x \<le> c) xs = xs"
proof (induction xs)
  case (Cons x xs)
  show ?case
  proof (cases "f x \<le> c")
    case False
    with Cons.prems have "\<forall>y \<in> set xs. \<not> f y \<le> c" by auto
    then show ?thesis using False by (simp add: filter_empty_conv filter_id_conv)
  qed (use Cons in simp)
qed simp

lemma find_append: "find P (xs @ ys) = (case find P xs of None \<Rightarrow> find P ys | Some x \<Rightarrow> Some x)"
  by (induction xs) simp_all

lemma mset_concat_map: "mset (concat (map f xs)) = \<Sum>\<^sub># (image_mset (\<lambda>x. mset (f x)) (mset xs))"
  by (induction xs) simp_all

lemma mset_concat_map_perm:
  "mset xs = mset ys \<Longrightarrow> mset (concat (map f xs)) = mset (concat (map f ys))"
  by (simp add: mset_concat_map)

lemma sorted_map_fst:
  fixes xs :: "('a :: linorder \<times> 'b :: linorder) list"
  shows "sorted xs \<Longrightarrow> sorted (map fst xs)"
  by (induction xs) (auto simp: less_eq_prod_def)

end
