(* ===== verification/Base_Model.thy ===== *)
theory Base_Model
  imports Prelude
begin

text \<open>
  The value types of Choir Base (\<^verbatim>\<open>internal/base/model/types.go\<close>): identifiers, items,
  versions, blobs, journal events and sync states, each with its \<^verbatim>\<open>Valid\<close> method. The
  identifier and enumeration types are Go string types, so they stay strings here and their
  constants are abbreviations; a value outside the constants is what \<^verbatim>\<open>Valid\<close> refuses.
\<close>

type_synonym ItemID = string
type_synonym BlobRef = string
type_synonym VersionID = string
type_synonym EventID = string
type_synonym ItemKind = string
type_synonym EventType = string
type_synonym SyncState = string

abbreviation KindFile :: ItemKind where "KindFile \<equiv> ''file''"
abbreviation KindFolder :: ItemKind where "KindFolder \<equiv> ''folder''"

abbreviation EventCreate :: EventType where "EventCreate \<equiv> ''create''"
abbreviation EventUpdate :: EventType where "EventUpdate \<equiv> ''update''"
abbreviation EventDelete :: EventType where "EventDelete \<equiv> ''delete''"
abbreviation EventMove :: EventType where "EventMove \<equiv> ''move''"
abbreviation EventBlobUpload :: EventType where "EventBlobUpload \<equiv> ''blob_upload''"

abbreviation StateSynced :: SyncState where "StateSynced \<equiv> ''synced''"
abbreviation StateLocalOnly :: SyncState where "StateLocalOnly \<equiv> ''local_only''"
abbreviation StateRemoteOnly :: SyncState where "StateRemoteOnly \<equiv> ''remote_only''"
abbreviation StateConflict :: SyncState where "StateConflict \<equiv> ''conflict''"
abbreviation StateStuck :: SyncState where "StateStuck \<equiv> ''stuck''"

subsection \<open>Identifiers\<close>

definition ItemID_Valid :: "ItemID \<Rightarrow> bool" where
  "ItemID_Valid i \<longleftrightarrow> hasPrefix i ''base_item_'' \<and> length i > length ''base_item_''"

definition BlobRef_Valid :: "BlobRef \<Rightarrow> bool" where
  "BlobRef_Valid b =
     (if b = '''' then True
      else if \<not> hasPrefix b ''sha256:'' then False
      else let hex = drop (length ''sha256:'') b in
        if length hex \<noteq> 64 then False else list_all isLowerHex hex)"

definition VersionID_Valid :: "VersionID \<Rightarrow> bool" where
  "VersionID_Valid v =
     (if v = '''' then True
      else hasPrefix v ''base_ver_'' \<and> length v > length ''base_ver_'')"

definition EventID_Valid :: "EventID \<Rightarrow> bool" where
  "EventID_Valid e \<longleftrightarrow> hasPrefix e ''base_evt_'' \<and> length e > length ''base_evt_''"

definition ItemKind_Valid :: "ItemKind \<Rightarrow> bool" where
  "ItemKind_Valid k \<longleftrightarrow> k = KindFile \<or> k = KindFolder"

definition EventType_Valid :: "EventType \<Rightarrow> bool" where
  "EventType_Valid t \<longleftrightarrow>
     t = EventCreate \<or> t = EventUpdate \<or> t = EventDelete \<or> t = EventMove \<or> t = EventBlobUpload"

definition SyncState_Valid :: "SyncState \<Rightarrow> bool" where
  "SyncState_Valid s \<longleftrightarrow>
     s = StateSynced \<or> s = StateLocalOnly \<or> s = StateRemoteOnly \<or> s = StateConflict \<or> s = StateStuck"

subsection \<open>Items, versions, blobs\<close>

record Item =
  i_ItemID :: ItemID
  i_OwnerID :: string
  i_ParentItemID :: ItemID
  i_Name :: string
  i_Kind :: ItemKind
  i_CurrentVersion :: VersionID
  i_DeletedAt :: "gotime option"
  i_CreatedAt :: gotime
  i_UpdatedAt :: gotime

record Version =
  v_VersionID :: VersionID
  v_ItemID :: ItemID
  v_BlobRef :: BlobRef
  v_MediaType :: string
  v_ContentHash :: string
  v_ManifestJSON :: string
  v_ProvenanceJSON :: string
  v_CreatedByDevice :: string
  v_CreatedBySubject :: string
  v_CreatedAt :: gotime

record Blob =
  b_BlobRef :: BlobRef
  b_SizeBytes :: int64
  b_SHA256 :: string
  b_CreatedAt :: gotime

record Event =
  e_EventID :: EventID
  e_OwnerID :: string
  e_ItemID :: ItemID
  e_DeviceID :: string
  e_SubjectID :: string
  e_EventType :: EventType
  e_Kind :: ItemKind
  e_BlobRef :: BlobRef
  e_ParentEventID :: EventID
  e_CursorSeq :: int64
  e_PayloadJSON :: string
  e_CreatedAt :: gotime

record SyncStatus =
  s_OwnerID :: string
  s_DeviceID :: string
  s_ItemID :: ItemID
  s_LocalVersionID :: VersionID
  s_RemoteVersionID :: VersionID
  s_SyncedVersionID :: VersionID
  s_State :: SyncState
  s_LastError :: string
  s_RepairHandle :: string
  s_UpdatedAt :: gotime

text \<open>The zero values a Go map read or a composite literal starts from.\<close>

definition zero_Item :: Item where
  "zero_Item = \<lparr>i_ItemID = '''', i_OwnerID = '''', i_ParentItemID = '''', i_Name = '''', i_Kind = '''',
     i_CurrentVersion = '''', i_DeletedAt = None, i_CreatedAt = 0, i_UpdatedAt = 0\<rparr>"

definition zero_Version :: Version where
  "zero_Version = \<lparr>v_VersionID = '''', v_ItemID = '''', v_BlobRef = '''', v_MediaType = '''',
     v_ContentHash = '''', v_ManifestJSON = '''', v_ProvenanceJSON = '''', v_CreatedByDevice = '''',
     v_CreatedBySubject = '''', v_CreatedAt = 0\<rparr>"

definition zero_Event :: Event where
  "zero_Event = \<lparr>e_EventID = '''', e_OwnerID = '''', e_ItemID = '''', e_DeviceID = '''', e_SubjectID = '''',
     e_EventType = '''', e_Kind = '''', e_BlobRef = '''', e_ParentEventID = '''', e_CursorSeq = 0,
     e_PayloadJSON = '''', e_CreatedAt = 0\<rparr>"

definition Item_Valid :: "Item \<Rightarrow> bool" where
  "Item_Valid i =
     (if \<not> ItemID_Valid (i_ItemID i) then False
      else if \<not> ItemKind_Valid (i_Kind i) then False
      else if \<not> VersionID_Valid (i_CurrentVersion i) then False
      else if i_Kind i = KindFolder \<and> i_CurrentVersion i = '''' \<and> i_DeletedAt i = None then False
      else True)"

definition Item_Location :: "Item \<Rightarrow> ItemID \<times> string" where
  "Item_Location i = (i_ParentItemID i, i_Name i)"

definition Version_Valid :: "Version \<Rightarrow> bool" where
  "Version_Valid v =
     (if \<not> VersionID_Valid (v_VersionID v) then False
      else if v_VersionID v = '''' then False
      else if \<not> ItemID_Valid (v_ItemID v) then False
      else if \<not> BlobRef_Valid (v_BlobRef v) then False
      else if v_BlobRef v = '''' \<and> v_ContentHash v \<noteq> '''' then False
      else True)"

definition Blob_Valid :: "Blob \<Rightarrow> bool" where
  "Blob_Valid b =
     (if b_BlobRef b = '''' \<or> \<not> BlobRef_Valid (b_BlobRef b) then False
      else if b_SizeBytes b < 0 then False
      else let hex = drop (length ''sha256:'') (b_BlobRef b) in
        if b_SHA256 b \<noteq> '''' \<and> b_SHA256 b \<noteq> hex then False else True)"

definition Event_Valid :: "Event \<Rightarrow> bool" where
  "Event_Valid e =
     (if \<not> EventID_Valid (e_EventID e) then False
      else if \<not> ItemID_Valid (e_ItemID e) then False
      else if \<not> EventType_Valid (e_EventType e) then False
      else if e_CursorSeq e < 0 then False
      else if e_OwnerID e = '''' then False
      else True)"

definition SyncStatus_Valid :: "SyncStatus \<Rightarrow> bool" where
  "SyncStatus_Valid s =
     (if \<not> ItemID_Valid (s_ItemID s) then False
      else if \<not> SyncState_Valid (s_State s) then False
      else if \<not> VersionID_Valid (s_LocalVersionID s) \<or> \<not> VersionID_Valid (s_RemoteVersionID s)
              \<or> \<not> VersionID_Valid (s_SyncedVersionID s) then False
      else True)"

subsection \<open>Facts\<close>

text \<open>The three identifier spaces are disjoint: their prefixes differ in the sixth byte.\<close>

lemma prefix_clash:
  assumes "hasPrefix s p" "hasPrefix s q" "length p = length q"
  shows "p = q"
  using assms by (metis hasPrefix_def)

lemma valid_ids_disjoint:
  "ItemID_Valid s \<Longrightarrow> \<not> EventID_Valid s"
  "EventID_Valid s \<Longrightarrow> \<not> VersionID_Valid s"
  by (auto simp: ItemID_Valid_def EventID_Valid_def VersionID_Valid_def hasPrefix_iff)

lemma BlobRef_Valid_iff:
  "BlobRef_Valid b \<longleftrightarrow>
     b = '''' \<or> (\<exists>hex. b = ''sha256:'' @ hex \<and> length hex = 64 \<and> list_all isLowerHex hex)"
  by (auto simp: BlobRef_Valid_def hasPrefix_iff Let_def)

lemma Blob_Valid_ref: "Blob_Valid b \<Longrightarrow> b_SHA256 b \<noteq> '''' \<Longrightarrow> b_BlobRef b = ''sha256:'' @ b_SHA256 b"
  by (auto simp: Blob_Valid_def BlobRef_Valid_iff Let_def split: if_splits)

lemma VersionID_Valid_Nil [simp]: "VersionID_Valid ''''"
  by (simp add: VersionID_Valid_def)

lemma ItemID_Valid_nonempty: "ItemID_Valid i \<Longrightarrow> i \<noteq> ''''"
  by (auto simp: ItemID_Valid_def)

lemma EventID_Valid_nonempty: "EventID_Valid e \<Longrightarrow> e \<noteq> ''''"
  by (auto simp: EventID_Valid_def)

end
