(* ===== verification/Base_Tree.thy ===== *)
theory Base_Tree
  imports Base_Model
begin

text \<open>
  Tree derivation (\<^verbatim>\<open>internal/base/tree/tree.go\<close>): a snapshot of the Base namespace is the
  fold of the journal's events in cursor order. \<^verbatim>\<open>json.Unmarshal\<close> into a payload is the argument
  \<open>unmarshal\<close>, so every fact below holds for every decoder. The lemmas show the snapshot's
  well-formedness, its independence of the order the events are passed in, its locality to one
  item, and the behaviour of every event type.
\<close>

record Tree =
  Items :: "ItemID \<rightharpoonup> Item"
  Versions :: "ItemID \<rightharpoonup> Version"

record Payload =
  p_Name :: string
  p_ParentItemID :: ItemID
  p_Kind :: ItemKind
  p_VersionID :: VersionID
  p_BlobRef :: BlobRef
  p_MediaType :: string
  p_ContentHash :: string

definition zero_Payload :: Payload where
  "zero_Payload = \<lparr>p_Name = '''', p_ParentItemID = '''', p_Kind = '''', p_VersionID = '''',
     p_BlobRef = '''', p_MediaType = '''', p_ContentHash = ''''\<rparr>"

definition NewTree :: Tree where
  "NewTree = \<lparr>Items = Map.empty, Versions = Map.empty\<rparr>"

definition ParsePayload :: "(string \<Rightarrow> Payload) \<Rightarrow> string \<Rightarrow> Payload" where
  "ParsePayload unmarshal s = (if s = '''' then zero_Payload else unmarshal s)"

definition versionFromPayload :: "Event \<Rightarrow> Payload \<Rightarrow> Version" where
  "versionFromPayload evt p = zero_Version\<lparr>
     v_VersionID := p_VersionID p,
     v_ItemID := e_ItemID evt,
     v_BlobRef := p_BlobRef p,
     v_MediaType := p_MediaType p,
     v_ContentHash := p_ContentHash p,
     v_CreatedByDevice := e_DeviceID evt,
     v_CreatedBySubject := e_SubjectID evt,
     v_CreatedAt := e_CreatedAt evt\<rparr>"

text \<open>Storing the item, and the version when the payload names one, closes three branches.\<close>

definition put_item :: "Tree \<Rightarrow> Event \<Rightarrow> Payload \<Rightarrow> Item \<Rightarrow> Tree" where
  "put_item t evt p item =
     \<lparr>Items = (Items t)(e_ItemID evt \<mapsto> item),
      Versions = (if p_VersionID p \<noteq> '''' then (Versions t)(e_ItemID evt \<mapsto> versionFromPayload evt p)
                  else Versions t)\<rparr>"

definition apply_create :: "Tree \<Rightarrow> Event \<Rightarrow> Payload \<Rightarrow> Tree" where
  "apply_create t evt p =
     (let item = \<lparr>i_ItemID = e_ItemID evt, i_OwnerID = e_OwnerID evt, i_ParentItemID = p_ParentItemID p,
            i_Name = p_Name p, i_Kind = p_Kind p, i_CurrentVersion = p_VersionID p, i_DeletedAt = None,
            i_CreatedAt = e_CreatedAt evt, i_UpdatedAt = e_CreatedAt evt\<rparr>;
          item' = (case Items t (e_ItemID evt) of
                     Some existing \<Rightarrow> if i_CreatedAt existing \<noteq> 0
                       then item\<lparr>i_CreatedAt := i_CreatedAt existing\<rparr> else item
                   | None \<Rightarrow> item)
      in put_item t evt p item')"

definition apply_update :: "Tree \<Rightarrow> Event \<Rightarrow> Payload \<Rightarrow> Tree" where
  "apply_update t evt p =
     (let item0 = (case Items t (e_ItemID evt) of
            Some it \<Rightarrow> it
          | None \<Rightarrow> zero_Item\<lparr>i_ItemID := e_ItemID evt, i_OwnerID := e_OwnerID evt,
                      i_Kind := p_Kind p, i_CreatedAt := e_CreatedAt evt\<rparr>);
          item1 = (if p_Name p \<noteq> '''' then item0\<lparr>i_Name := p_Name p\<rparr> else item0);
          item2 = (if p_ParentItemID p \<noteq> '''' then item1\<lparr>i_ParentItemID := p_ParentItemID p\<rparr> else item1);
          item3 = (if p_Kind p \<noteq> '''' then item2\<lparr>i_Kind := p_Kind p\<rparr> else item2)
      in put_item t evt p
           (item3\<lparr>i_CurrentVersion := p_VersionID p, i_DeletedAt := None, i_UpdatedAt := e_CreatedAt evt\<rparr>))"

definition apply_blob_upload :: "Tree \<Rightarrow> Event \<Rightarrow> Payload \<Rightarrow> Tree" where
  "apply_blob_upload t evt p =
     (let item = (case Items t (e_ItemID evt) of
            Some it \<Rightarrow> it
          | None \<Rightarrow> zero_Item\<lparr>i_ItemID := e_ItemID evt, i_OwnerID := e_OwnerID evt,
                      i_Kind := KindFile, i_CreatedAt := e_CreatedAt evt\<rparr>)
      in put_item t evt p
           (item\<lparr>i_CurrentVersion := p_VersionID p, i_DeletedAt := None, i_UpdatedAt := e_CreatedAt evt\<rparr>))"

definition apply_delete :: "Tree \<Rightarrow> Event \<Rightarrow> Payload \<Rightarrow> Tree" where
  "apply_delete t evt p =
     (let item = (case Items t (e_ItemID evt) of
            Some it \<Rightarrow> it
          | None \<Rightarrow> zero_Item\<lparr>i_ItemID := e_ItemID evt, i_OwnerID := e_OwnerID evt,
                      i_Kind := p_Kind p, i_CreatedAt := e_CreatedAt evt\<rparr>)
      in \<lparr>Items = (Items t)(e_ItemID evt \<mapsto>
             item\<lparr>i_DeletedAt := Some (e_CreatedAt evt), i_CurrentVersion := '''',
                  i_UpdatedAt := e_CreatedAt evt\<rparr>),
          Versions = (Versions t)(e_ItemID evt := None)\<rparr>)"

definition apply_move :: "Tree \<Rightarrow> Event \<Rightarrow> Payload \<Rightarrow> Tree" where
  "apply_move t evt p =
     (case Items t (e_ItemID evt) of
        None \<Rightarrow> t
      | Some item0 \<Rightarrow>
          (let item1 = (if p_ParentItemID p \<noteq> '''' then item0\<lparr>i_ParentItemID := p_ParentItemID p\<rparr> else item0);
               item2 = (if p_Name p \<noteq> '''' then item1\<lparr>i_Name := p_Name p\<rparr> else item1)
           in t\<lparr>Items := (Items t)(e_ItemID evt \<mapsto> item2\<lparr>i_UpdatedAt := e_CreatedAt evt\<rparr>)\<rparr>))"

definition applyEvent :: "(string \<Rightarrow> Payload) \<Rightarrow> Tree \<Rightarrow> Event \<Rightarrow> Tree" where
  "applyEvent unmarshal t evt =
     (let p = ParsePayload unmarshal (e_PayloadJSON evt) in
      if e_EventType evt = EventCreate then apply_create t evt p
      else if e_EventType evt = EventUpdate then apply_update t evt p
      else if e_EventType evt = EventBlobUpload then apply_blob_upload t evt p
      else if e_EventType evt = EventDelete then apply_delete t evt p
      else if e_EventType evt = EventMove then apply_move t evt p
      else t)"

fun maxCursor_from :: "int64 \<Rightarrow> Event list \<Rightarrow> int64" where
  "maxCursor_from m [] = m"
| "maxCursor_from m (e # es) = maxCursor_from (if e_CursorSeq e > m then e_CursorSeq e else m) es"

definition maxCursor :: "Event list \<Rightarrow> int64" where
  "maxCursor events = maxCursor_from 0 events"

definition DeriveUpTo :: "(string \<Rightarrow> Payload) \<Rightarrow> Event list \<Rightarrow> int64 \<Rightarrow> Tree" where
  "DeriveUpTo unmarshal events cursor =
     (let ordered = go_sort e_CursorSeq (filter (\<lambda>e. e_CursorSeq e \<le> cursor) events)
      in foldl (applyEvent unmarshal) NewTree ordered)"

definition Derive :: "(string \<Rightarrow> Payload) \<Rightarrow> Event list \<Rightarrow> Tree" where
  "Derive unmarshal events = DeriveUpTo unmarshal events (maxCursor events)"

definition item_live :: "Item \<Rightarrow> bool" where
  "item_live it \<longleftrightarrow> i_DeletedAt it = None \<and> i_CurrentVersion it \<noteq> ''''"

definition LiveItems :: "ItemID list \<Rightarrow> Tree \<Rightarrow> Item list" where
  "LiveItems ids t = filter item_live (List.map_filter (Items t) ids)"

definition Tree_IsDeleted :: "Tree \<Rightarrow> ItemID \<Rightarrow> bool" where
  "Tree_IsDeleted t i =
     (case Items t i of None \<Rightarrow> False
      | Some it \<Rightarrow> i_DeletedAt it \<noteq> None \<or> i_CurrentVersion it = '''')"

definition Tree_Has :: "Tree \<Rightarrow> ItemID \<Rightarrow> bool" where
  "Tree_Has t i \<longleftrightarrow> Items t i \<noteq> None"

lemmas tree_op_defs = apply_create_def apply_update_def apply_blob_upload_def apply_delete_def
  apply_move_def put_item_def

subsection \<open>The invariant of a snapshot\<close>

text \<open>
  Per item: the record carries its own key; a version is recorded only for a recorded item and
  carries that item's key; a current version is recorded, under the name the item gives it; a
  tombstone has neither a current version nor a recorded one.
\<close>

definition entry_ok :: "ItemID \<Rightarrow> Item option \<Rightarrow> Version option \<Rightarrow> bool" where
  "entry_ok k i v \<longleftrightarrow>
     (case i of
        None \<Rightarrow> v = None
      | Some it \<Rightarrow> i_ItemID it = k
          \<and> (case v of None \<Rightarrow> i_CurrentVersion it = ''''
             | Some ver \<Rightarrow> v_ItemID ver = k \<and> v_VersionID ver \<noteq> ''''
                 \<and> (i_CurrentVersion it \<noteq> '''' \<longrightarrow> v_VersionID ver = i_CurrentVersion it))
          \<and> (i_DeletedAt it \<noteq> None \<longrightarrow> i_CurrentVersion it = '''' \<and> v = None))"

definition tree_ok :: "Tree \<Rightarrow> bool" where
  "tree_ok t \<longleftrightarrow> (\<forall>k. entry_ok k (Items t k) (Versions t k))"

lemma tree_ok_NewTree [simp, intro]: "tree_ok NewTree"
  by (simp add: tree_ok_def entry_ok_def NewTree_def)

lemma tree_ok_upd:
  assumes "tree_ok t" "entry_ok k (Some it) v"
    and "Items t' = (Items t)(k \<mapsto> it)" "Versions t' = (Versions t)(k := v)"
  shows "tree_ok t'"
  using assms by (simp add: tree_ok_def)

lemma versionFromPayload_simps [simp]:
  "v_VersionID (versionFromPayload evt p) = p_VersionID p"
  "v_ItemID (versionFromPayload evt p) = e_ItemID evt"
  "v_BlobRef (versionFromPayload evt p) = p_BlobRef p"
  "v_ContentHash (versionFromPayload evt p) = p_ContentHash p"
  by (simp_all add: versionFromPayload_def)

lemma tree_ok_entry: "tree_ok t \<Longrightarrow> entry_ok k (Items t k) (Versions t k)"
  by (simp add: tree_ok_def)

lemma entry_ok_version:
  "entry_ok k i (Some ver) \<Longrightarrow> v_ItemID ver = k \<and> v_VersionID ver \<noteq> []"
  by (simp add: entry_ok_def split: option.splits)

lemma put_item_ok:
  assumes "tree_ok t" "i_ItemID it = e_ItemID evt" "i_CurrentVersion it = p_VersionID p"
    "i_DeletedAt it = None"
  shows "tree_ok (put_item t evt p it)"
proof (rule tree_ok_upd [OF assms(1)])
  let ?k = "e_ItemID evt"
  let ?v = "if p_VersionID p \<noteq> [] then Some (versionFromPayload evt p) else Versions t ?k"
  show "entry_ok ?k (Some it) ?v"
    using assms tree_ok_entry [OF assms(1), of ?k]
    by (cases "Versions t ?k") (auto simp: entry_ok_def split: option.splits)
  show "Items (put_item t evt p it) = (Items t)(?k \<mapsto> it)"
    "Versions (put_item t evt p it) = (Versions t)(?k := ?v)"
    by (simp_all add: put_item_def fun_eq_iff)
qed

lemma tree_ok_ItemID: "tree_ok t \<Longrightarrow> Items t k = Some it \<Longrightarrow> i_ItemID it = k"
  using tree_ok_entry [of t k] by (simp add: entry_ok_def)

lemma apply_create_ok: "tree_ok t \<Longrightarrow> tree_ok (apply_create t evt p)"
  by (auto simp: apply_create_def Let_def intro!: put_item_ok split: option.splits)

lemma apply_update_ok: "tree_ok t \<Longrightarrow> tree_ok (apply_update t evt p)"
  by (auto simp: apply_update_def Let_def intro!: put_item_ok dest: tree_ok_ItemID split: option.splits)

lemma apply_blob_upload_ok: "tree_ok t \<Longrightarrow> tree_ok (apply_blob_upload t evt p)"
  by (auto simp: apply_blob_upload_def Let_def intro!: put_item_ok dest: tree_ok_ItemID split: option.splits)

lemma apply_delete_ok: "tree_ok t \<Longrightarrow> tree_ok (apply_delete t evt p)"
  by (rule tree_ok_upd [where k = "e_ItemID evt" and v = None])
    (auto simp: apply_delete_def Let_def entry_ok_def dest: tree_ok_ItemID split: option.splits)

lemma apply_move_ok:
  assumes "tree_ok t"
  shows "tree_ok (apply_move t evt p)"
proof (cases "Items t (e_ItemID evt)")
  case (Some it)
  define it' where "it' = (if p_ParentItemID p \<noteq> [] then it\<lparr>i_ParentItemID := p_ParentItemID p\<rparr> else it)"
  define it'' where "it'' = (if p_Name p \<noteq> [] then it'\<lparr>i_Name := p_Name p\<rparr> else it')"
  have "entry_ok (e_ItemID evt) (Some it) (Versions t (e_ItemID evt))"
    using tree_ok_entry [OF assms, of "e_ItemID evt"] Some by simp
  then have "entry_ok (e_ItemID evt) (Some (it''\<lparr>i_UpdatedAt := e_CreatedAt evt\<rparr>)) (Versions t (e_ItemID evt))"
    by (simp add: entry_ok_def it''_def it'_def split: option.splits)
  from tree_ok_upd [OF assms this] show ?thesis
    by (simp add: apply_move_def Let_def Some it''_def it'_def fun_upd_idem)
qed (use assms in \<open>simp add: apply_move_def\<close>)

lemmas apply_ok = apply_create_ok apply_update_ok apply_blob_upload_ok apply_delete_ok apply_move_ok

lemma applyEvent_ok [inv_intros]: "tree_ok t \<Longrightarrow> tree_ok (applyEvent unmarshal t evt)"
  by (simp add: applyEvent_def Let_def apply_ok)

subsection \<open>Locality\<close>

definition tree_view :: "Tree \<Rightarrow> ItemID \<Rightarrow> Item option \<times> Version option" where
  "tree_view t k = (Items t k, Versions t k)"

lemma apply_view_other:
  assumes "e_ItemID evt \<noteq> k"
  shows "tree_view (applyEvent unmarshal t evt) k = tree_view t k"
  using assms by (auto simp: applyEvent_def tree_op_defs tree_view_def Let_def split: option.splits)

lemma apply_view_local:
  assumes "tree_view t k = tree_view u k" "e_ItemID evt = k"
  shows "tree_view (applyEvent unmarshal t evt) k = tree_view (applyEvent unmarshal u evt) k"
  using assms by (auto simp: applyEvent_def tree_op_defs tree_view_def Let_def split: option.splits)

interpretation derive: keyed_fold_step "applyEvent unmarshal" tree_ok e_ItemID tree_view
  by unfold_locales (erule applyEvent_ok, erule apply_view_other, erule (1) apply_view_local)

subsection \<open>Derivation\<close>

lemma maxCursor_from_ge: "m \<le> maxCursor_from m es \<and> (\<forall>e \<in> set es. e_CursorSeq e \<le> maxCursor_from m es)"
  by (induction m es rule: maxCursor_from.induct) (auto split: if_splits)

lemma maxCursor_ge: "e \<in> set es \<Longrightarrow> e_CursorSeq e \<le> maxCursor es"
  using maxCursor_from_ge by (simp add: maxCursor_def)

lemma Derive_eq: "Derive unmarshal es = foldl (applyEvent unmarshal) NewTree (go_sort e_CursorSeq es)"
proof -
  have "filter (\<lambda>e. e_CursorSeq e \<le> maxCursor es) es = es"
    using maxCursor_ge by (auto simp: filter_id_conv)
  then show ?thesis by (simp add: Derive_def DeriveUpTo_def)
qed

lemma DeriveUpTo_eq: "DeriveUpTo unmarshal es c = Derive unmarshal (filter (\<lambda>e. e_CursorSeq e \<le> c) es)"
  by (simp add: Derive_eq DeriveUpTo_def)

lemma Derive_ok: "tree_ok (Derive unmarshal es)"
  unfolding Derive_eq by (rule derive.foldl_inv) simp

lemma DeriveUpTo_ok: "tree_ok (DeriveUpTo unmarshal es c)"
  by (simp add: DeriveUpTo_eq Derive_ok)

lemma Derive_view:
  "tree_view (Derive unmarshal es) k = tree_view (Derive unmarshal (filter (\<lambda>e. e_ItemID e = k) es)) k"
  unfolding Derive_eq filter_go_sort [symmetric] by (rule derive.foldl_view)

lemma sorted_last_max:
  assumes "sorted (map key xs)" "distinct (map key xs)" "x \<in> set xs" "\<forall>y \<in> set xs. key y \<le> (key x :: 'k :: linorder)"
  shows "\<exists>ys. xs = ys @ [x]"
proof -
  from assms(3) obtain ys zs where xs: "xs = ys @ x # zs" by (meson split_list)
  have "zs = []"
  proof (rule ccontr)
    assume "zs \<noteq> []"
    then obtain z where z: "z \<in> set zs" by (cases zs) auto
    with assms(1) xs have "key x \<le> key z" by (simp add: sorted_append)
    moreover have "key z \<le> key x" using assms(4) xs z by simp
    ultimately show False using assms(2) xs z by auto
  qed
  then show ?thesis using xs by simp
qed

lemma apply_versioned:
  assumes "p_VersionID p \<noteq> []" and "p = ParsePayload unmarshal (e_PayloadJSON evt)"
    and "e_EventType evt \<in> {EventCreate, EventUpdate, EventBlobUpload}"
  shows "\<exists>it. tree_view (applyEvent unmarshal t evt) (e_ItemID evt) = (Some it, Some (versionFromPayload evt p))
           \<and> item_live it \<and> i_CurrentVersion it = p_VersionID p \<and> i_UpdatedAt it = e_CreatedAt evt"
  using assms by (auto simp: applyEvent_def tree_op_defs tree_view_def item_live_def Let_def split: option.splits)

lemma apply_deleted:
  assumes "e_EventType evt = EventDelete"
  shows "\<exists>it. tree_view (applyEvent unmarshal t evt) (e_ItemID evt) = (Some it, None)
           \<and> i_DeletedAt it = Some (e_CreatedAt evt) \<and> i_CurrentVersion it = []"
  using assms by (auto simp: applyEvent_def apply_delete_def tree_view_def Let_def split: option.splits)

lemma Derive_last:
  assumes "distinct (map e_CursorSeq es)" "evt \<in> set es"
    and "\<forall>e \<in> set es. e_ItemID e = e_ItemID evt \<longrightarrow> e_CursorSeq e \<le> e_CursorSeq evt"
  shows "\<exists>t. tree_view (Derive unmarshal es) (e_ItemID evt) = tree_view (applyEvent unmarshal t evt) (e_ItemID evt)"
proof -
  let ?es = "filter (\<lambda>e. e_ItemID e = e_ItemID evt) es"
  have "distinct (map e_CursorSeq ?es)" using assms(1) by (simp add: distinct_map_filter)
  then have "distinct (map e_CursorSeq (go_sort e_CursorSeq ?es))"
    by simp
  then obtain ys where "go_sort e_CursorSeq ?es = ys @ [evt]"
    using sorted_last_max [of e_CursorSeq "go_sort e_CursorSeq ?es" evt] assms by auto
  then show ?thesis
    using Derive_view [of unmarshal es "e_ItemID evt"] by (auto simp: Derive_eq)
qed

subsection \<open>Properties\<close>

text \<open>C35: every snapshot, at every cursor and for every list of events and every payload decoder,
  is well-formed: items carry their own key, a current version is recorded under its name, and a
  tombstone has no version.\<close>

theorem derive_wellformed: "tree_ok (DeriveUpTo unmarshal es c) \<and> tree_ok (Derive unmarshal es)"
  by (simp add: DeriveUpTo_ok Derive_ok)

text \<open>The snapshot depends on the set of events only, not on the order they are passed in:
  events with distinct cursor numbers give the same tree in every order, also for every other
  permutation \<^verbatim>\<open>sort.Slice\<close> may return.\<close>

theorem derive_order_independent:
  assumes "distinct (map e_CursorSeq es)" "mset es' = mset es"
  shows "Derive unmarshal es' = Derive unmarshal es
    \<and> (\<forall>ys. sorts e_CursorSeq es' ys \<longrightarrow> foldl (applyEvent unmarshal) NewTree ys = Derive unmarshal es)"
proof -
  have d: "distinct (map e_CursorSeq es')"
    using assms by (metis mset_eq_imp_distinct_iff mset_map)
  have "go_sort e_CursorSeq es' = go_sort e_CursorSeq es"
    using go_sort_perm [OF assms(2) d] .
  then show ?thesis using go_sort_unique [OF _ d] by (auto simp: Derive_eq)
qed

text \<open>An item's record and version depend on that item's events only: deriving from the whole
  journal or from the item's own events gives the same item at every cursor.\<close>

theorem derive_item_local:
  "Items (DeriveUpTo unmarshal es c) k = Items (DeriveUpTo unmarshal (filter (\<lambda>e. e_ItemID e = k) es) c) k
   \<and> Versions (DeriveUpTo unmarshal es c) k = Versions (DeriveUpTo unmarshal (filter (\<lambda>e. e_ItemID e = k) es) c) k"
proof -
  have "tree_view (DeriveUpTo unmarshal es c) k = tree_view (DeriveUpTo unmarshal (filter (\<lambda>e. e_ItemID e = k) es) c) k"
    using Derive_view [of unmarshal "filter (\<lambda>e. e_CursorSeq e \<le> c) es" k]
    by (simp add: DeriveUpTo_eq filter_filter conj_commute)
  then show ?thesis by (simp add: tree_view_def)
qed

text \<open>A snapshot at a cursor is a resume point: applying the later events to it, in cursor
  order, gives the tree of the whole journal.\<close>

theorem derive_resume:
  "Derive unmarshal es =
     foldl (applyEvent unmarshal) (DeriveUpTo unmarshal es c)
       (go_sort e_CursorSeq (filter (\<lambda>e. \<not> e_CursorSeq e \<le> c) es))"
proof -
  have "go_sort e_CursorSeq es = go_sort e_CursorSeq (filter (\<lambda>e. e_CursorSeq e \<le> c) es)
      @ go_sort e_CursorSeq (filter (\<lambda>e. \<not> e_CursorSeq e \<le> c) es)"
    using filter_le_partition [OF sorted_go_sort, of e_CursorSeq c es] by (simp add: filter_go_sort)
  then show ?thesis by (simp add: Derive_eq DeriveUpTo_def)
qed

text \<open>The latest event of an item decides: after a create, update or blob upload that names a
  version the item is live at that version, whose record the event describes; after a delete it is
  a tombstone that is still recorded.\<close>

theorem derive_last_writer_wins:
  assumes "distinct (map e_CursorSeq es)" "evt \<in> set es"
    and "\<forall>e \<in> set es. e_ItemID e = e_ItemID evt \<longrightarrow> e_CursorSeq e \<le> e_CursorSeq evt"
    and p: "p = ParsePayload unmarshal (e_PayloadJSON evt)"
  shows "(e_EventType evt \<in> {EventCreate, EventUpdate, EventBlobUpload} \<and> p_VersionID p \<noteq> [] \<longrightarrow>
           (\<exists>it. Items (Derive unmarshal es) (e_ItemID evt) = Some it \<and> item_live it
              \<and> i_CurrentVersion it = p_VersionID p)
           \<and> Versions (Derive unmarshal es) (e_ItemID evt) = Some (versionFromPayload evt p))
       \<and> (e_EventType evt = EventDelete \<longrightarrow>
           Tree_Has (Derive unmarshal es) (e_ItemID evt) \<and> Tree_IsDeleted (Derive unmarshal es) (e_ItemID evt)
           \<and> Versions (Derive unmarshal es) (e_ItemID evt) = None)"
proof -
  obtain t where t: "tree_view (Derive unmarshal es) (e_ItemID evt) = tree_view (applyEvent unmarshal t evt) (e_ItemID evt)"
    using Derive_last [OF assms(1-3)] by blast
  have "e_EventType evt \<in> {EventCreate, EventUpdate, EventBlobUpload} \<and> p_VersionID p \<noteq> [] \<longrightarrow>
      (\<exists>it. Items (Derive unmarshal es) (e_ItemID evt) = Some it \<and> item_live it
         \<and> i_CurrentVersion it = p_VersionID p)
      \<and> Versions (Derive unmarshal es) (e_ItemID evt) = Some (versionFromPayload evt p)"
    using apply_versioned [of p unmarshal evt t] t p by (auto simp: tree_view_def)
  moreover have "e_EventType evt = EventDelete \<longrightarrow>
      Tree_Has (Derive unmarshal es) (e_ItemID evt) \<and> Tree_IsDeleted (Derive unmarshal es) (e_ItemID evt)
      \<and> Versions (Derive unmarshal es) (e_ItemID evt) = None"
    using apply_deleted [of evt unmarshal t] t by (auto simp: tree_view_def Tree_Has_def Tree_IsDeleted_def)
  ultimately show ?thesis by blast
qed

text \<open>An update whose payload names no version clears the item's current version, so an update
  that only renames an item makes the tree report it deleted while its version record stays. The
  comment of \<^verbatim>\<open>ParsePayload\<close> says that derivation reads a missing field as no change.\<close>

theorem update_without_version_deletes:
  assumes "e_EventType evt = EventUpdate" "p_VersionID (ParsePayload unmarshal (e_PayloadJSON evt)) = []"
  shows "Tree_IsDeleted (applyEvent unmarshal t evt) (e_ItemID evt)
    \<and> Versions (applyEvent unmarshal t evt) = Versions t"
  using assms by (auto simp: applyEvent_def tree_op_defs Tree_IsDeleted_def Let_def)

subsection \<open>Witnesses\<close>

definition wit_event :: "EventType \<Rightarrow> ItemID \<Rightarrow> int64 \<Rightarrow> string \<Rightarrow> Event" where
  "wit_event ty it sq pl = zero_Event\<lparr>e_EventID := ''base_evt_1'', e_OwnerID := ''o'', e_ItemID := it,
     e_EventType := ty, e_CursorSeq := sq, e_PayloadJSON := pl, e_CreatedAt := 5\<rparr>"

definition wit_unmarshal :: "string \<Rightarrow> Payload" where
  "wit_unmarshal s = zero_Payload\<lparr>p_VersionID := s, p_Name := ''n''\<rparr>"

lemmas wit_tree_defs = wit_event_def wit_unmarshal_def zero_Event_def zero_Payload_def ParsePayload_def

theorem derive_order_independent_witness:
  "Derive wit_unmarshal [wit_event EventDelete ''i'' 2 [], wit_event EventCreate ''i'' 1 ''v1'']
   = Derive wit_unmarshal [wit_event EventCreate ''i'' 1 ''v1'', wit_event EventDelete ''i'' 2 []]"
  using derive_order_independent [of "[wit_event EventCreate ''i'' 1 ''v1'', wit_event EventDelete ''i'' 2 []]"
      "[wit_event EventDelete ''i'' 2 [], wit_event EventCreate ''i'' 1 ''v1'']" wit_unmarshal]
  by (simp add: wit_tree_defs)

theorem derive_last_writer_wins_witness:
  "(\<exists>it. Items (Derive wit_unmarshal [wit_event EventUpdate ''i'' 2 ''v2'', wit_event EventCreate ''i'' 1 ''v1'']) ''i'' = Some it
      \<and> item_live it \<and> i_CurrentVersion it = ''v2'')"
  using derive_last_writer_wins
    [of "[wit_event EventUpdate ''i'' 2 ''v2'', wit_event EventCreate ''i'' 1 ''v1'']" "wit_event EventUpdate ''i'' 2 ''v2''",
     OF _ _ _ refl, of wit_unmarshal]
  by (simp add: wit_tree_defs)

theorem update_without_version_deletes_witness:
  "Tree_IsDeleted (applyEvent wit_unmarshal
     (applyEvent wit_unmarshal NewTree (wit_event EventCreate ''i'' 1 ''v1'')) (wit_event EventUpdate ''i'' 2 [])) ''i''
   \<and> \<not> Tree_IsDeleted (applyEvent wit_unmarshal NewTree (wit_event EventCreate ''i'' 1 ''v1'')) ''i''"
  using update_without_version_deletes [of "wit_event EventUpdate ''i'' 2 []" wit_unmarshal
      "applyEvent wit_unmarshal NewTree (wit_event EventCreate ''i'' 1 ''v1'')"]
  by (simp add: wit_tree_defs applyEvent_def tree_op_defs Tree_IsDeleted_def NewTree_def)

end
