(* ===== verification/Base_Planner.thy ===== *)
theory Base_Planner
  imports Base_Tree
begin

text \<open>
  The three-tree reconciliation kernel (\<^verbatim>\<open>internal/base/planner/planner.go\<close>): the per-item
  decision, the path-collision pass, the sorted plan, and the event helper \<^verbatim>\<open>ApplyEvent\<close>. The
  planner's own tree type has the fields of \<^typ>\<open>Tree\<close>. Each loop over a map takes the order the
  runtime visits its keys in as an argument. The lemmas show that the plan never overwrites a
  side that changed, keeps both versions in every conflict, gives the same actions in every visiting
  order and mirrors when the sides are exchanged, and that the decision on one item is quiet exactly on
  agreement. The path-collision pass reports pairs of items at one place; it is exact and symmetric
  where each tree has one item per place, and not quiet on equal trees where one does not.
\<close>

type_synonym ActionType = string

abbreviation ActionDownload :: ActionType where "ActionDownload \<equiv> ''download''"
abbreviation ActionUpload :: ActionType where "ActionUpload \<equiv> ''upload''"
abbreviation ActionDeleteLocal :: ActionType where "ActionDeleteLocal \<equiv> ''delete_local''"
abbreviation ActionDeleteRemote :: ActionType where "ActionDeleteRemote \<equiv> ''delete_remote''"
abbreviation ActionUpdateLocal :: ActionType where "ActionUpdateLocal \<equiv> ''update_local''"
abbreviation ActionUpdateRemote :: ActionType where "ActionUpdateRemote \<equiv> ''update_remote''"
abbreviation ActionMoveLocal :: ActionType where "ActionMoveLocal \<equiv> ''move_local''"
abbreviation ActionMoveRemote :: ActionType where "ActionMoveRemote \<equiv> ''move_remote''"

record Action =
  a_Type :: ActionType
  a_ItemID :: ItemID
  a_Version :: Version
  a_LocalPath :: string

record Conflict =
  c_ItemID :: ItemID
  c_LocalVer :: Version
  c_RemoteVer :: Version
  c_SyncedVer :: Version
  c_Reason :: string

definition mk_action :: "ActionType \<Rightarrow> ItemID \<Rightarrow> Version \<Rightarrow> Action" where
  "mk_action ty i v = \<lparr>a_Type = ty, a_ItemID = i, a_Version = v, a_LocalPath = ''''\<rparr>"

definition mk_conflict :: "ItemID \<Rightarrow> Version \<Rightarrow> Version \<Rightarrow> Version \<Rightarrow> string \<Rightarrow> Conflict" where
  "mk_conflict i l r s reason =
     \<lparr>c_ItemID = i, c_LocalVer = l, c_RemoteVer = r, c_SyncedVer = s, c_Reason = reason\<rparr>"

subsection \<open>Helpers\<close>

definition isDeleted :: "Item \<Rightarrow> bool" where
  "isDeleted i \<longleftrightarrow> i_DeletedAt i \<noteq> None \<or> i_CurrentVersion i = ''''"

definition versionsEqual :: "Version \<Rightarrow> Version \<Rightarrow> bool" where
  "versionsEqual a b =
     (if v_VersionID a \<noteq> '''' \<and> v_VersionID b \<noteq> '''' then v_VersionID a = v_VersionID b
      else v_BlobRef a = v_BlobRef b \<and> v_ContentHash a = v_ContentHash b)"

definition versionContentChanged :: "Version \<Rightarrow> Version \<Rightarrow> bool" where
  "versionContentChanged a b \<longleftrightarrow> \<not> versionsEqual a b"

definition moved :: "Item \<Rightarrow> Item \<Rightarrow> bool" where
  "moved item sItem \<longleftrightarrow> i_ParentItemID item \<noteq> i_ParentItemID sItem \<or> i_Name item \<noteq> i_Name sItem"

definition locationsEqual :: "Item \<Rightarrow> Item \<Rightarrow> bool" where
  "locationsEqual a b \<longleftrightarrow> i_ParentItemID a = i_ParentItemID b \<and> i_Name a = i_Name b"

definition itemChanged :: "Item \<Rightarrow> Version \<Rightarrow> Item \<Rightarrow> Version \<Rightarrow> bool" where
  "itemChanged item ver sItem sVer \<longleftrightarrow> versionContentChanged ver sVer \<or> moved item sItem"

subsection \<open>One item\<close>

definition conflict_reason :: "Item \<Rightarrow> Item \<Rightarrow> Item \<Rightarrow> Version \<Rightarrow> Version \<Rightarrow> Version \<Rightarrow> string" where
  "conflict_reason rItem lItem sItem rVer lVer sVer =
     (let lMoved = moved lItem sItem; rMoved = moved rItem sItem;
          lContent = versionContentChanged lVer sVer; rContent = versionContentChanged rVer sVer
      in if (lMoved \<or> rMoved) \<and> (lContent \<or> rContent)
           then ''move/edit: one side moved, the other edited (or both)''
         else if lMoved \<and> rMoved \<and> \<not> locationsEqual lItem rItem
           then ''move/move: both sides moved to different locations''
         else ''both modified'')"

definition reconcileBothPresent ::
  "ItemID \<Rightarrow> Item \<Rightarrow> Item \<Rightarrow> Item \<Rightarrow> Version \<Rightarrow> Version \<Rightarrow> Version \<Rightarrow> Action list \<times> Conflict list" where
  "reconcileBothPresent i rItem lItem sItem rVer lVer sVer =
     (let localChanged = itemChanged lItem lVer sItem sVer;
          remoteChanged = itemChanged rItem rVer sItem sVer
      in if \<not> localChanged \<and> \<not> remoteChanged then ([], [])
         else if localChanged \<and> \<not> remoteChanged then
           (if moved lItem sItem \<and> \<not> versionContentChanged lVer sVer
              then ([mk_action ActionMoveRemote i lVer], [])
            else if versionContentChanged lVer sVer \<and> \<not> moved lItem sItem
              then ([mk_action ActionUpdateRemote i lVer], [])
            else if versionContentChanged lVer sVer \<and> moved lItem sItem
              then ([mk_action ActionUpdateRemote i lVer], [])
            else ([mk_action ActionMoveRemote i lVer], []))
         else if \<not> localChanged \<and> remoteChanged then
           (if moved rItem sItem \<and> \<not> versionContentChanged rVer sVer
              then ([mk_action ActionMoveLocal i rVer], [])
            else if versionContentChanged rVer sVer \<and> \<not> moved rItem sItem
              then ([mk_action ActionUpdateLocal i rVer], [])
            else if versionContentChanged rVer sVer \<and> moved rItem sItem
              then ([mk_action ActionUpdateLocal i rVer], [])
            else ([mk_action ActionMoveLocal i rVer], []))
         else if versionsEqual lVer rVer \<and> locationsEqual lItem rItem then ([], [])
         else ([], [mk_conflict i lVer rVer sVer
                      (conflict_reason rItem lItem sItem rVer lVer sVer)]))"

definition corrupt_reason :: "bool \<Rightarrow> bool \<Rightarrow> string" where
  "corrupt_reason lCorrupt rCorrupt =
     (if rCorrupt \<and> \<not> lCorrupt then ''corrupt remote item: version record missing''
      else if lCorrupt \<and> rCorrupt then ''corrupt items on both sides: version records missing''
      else ''corrupt local item: version record missing'')"

definition planItem :: "ItemID \<Rightarrow> Tree \<Rightarrow> Tree \<Rightarrow> Tree \<Rightarrow> Action list \<times> Conflict list" where
  "planItem i remote local synced =
     (let rItem = getz zero_Item (Items remote) i; rHas = (Items remote i \<noteq> None);
          lItem = getz zero_Item (Items local) i; lHas = (Items local i \<noteq> None);
          sItem = getz zero_Item (Items synced) i; sHas = (Items synced i \<noteq> None);
          rVer = getz zero_Version (Versions remote) i;
          lVer = getz zero_Version (Versions local) i;
          sVer = getz zero_Version (Versions synced) i;
          rPresent = (rHas \<and> \<not> isDeleted rItem);
          lPresent = (lHas \<and> \<not> isDeleted lItem);
          sPresent = (sHas \<and> \<not> isDeleted sItem);
          lCorrupt = (lPresent \<and> i_CurrentVersion lItem \<noteq> '''' \<and> v_VersionID lVer = '''');
          rCorrupt = (rPresent \<and> i_CurrentVersion rItem \<noteq> '''' \<and> v_VersionID rVer = '''')
      in if lCorrupt \<or> rCorrupt then
           ([], [mk_conflict i lVer rVer sVer (corrupt_reason lCorrupt rCorrupt)])
         else if sPresent then
           (if lPresent \<and> rPresent then reconcileBothPresent i rItem lItem sItem rVer lVer sVer
            else if lPresent \<and> \<not> rPresent then
              (if itemChanged lItem lVer sItem sVer
               then ([], [mk_conflict i lVer zero_Version sVer ''modify/delete: local modified, remote deleted''])
               else ([mk_action ActionDeleteLocal i lVer], []))
            else if \<not> lPresent \<and> rPresent then
              (if itemChanged rItem rVer sItem sVer
               then ([], [mk_conflict i zero_Version rVer sVer ''modify/delete: remote modified, local deleted''])
               else ([mk_action ActionDeleteRemote i rVer], []))
            else ([], []))
         else if lPresent \<and> rPresent then
           (if versionsEqual lVer rVer \<and> locationsEqual lItem rItem then ([], [])
            else ([], [mk_conflict i lVer rVer zero_Version
                   ''add/add: both sides created the same item with different content or location'']))
         else if lPresent \<and> \<not> rPresent then ([mk_action ActionUpload i lVer], [])
         else if \<not> lPresent \<and> rPresent then ([mk_action ActionDownload i rVer], [])
         else ([], []))"

subsection \<open>Path collisions\<close>

record collision =
  localID :: ItemID
  localVer :: Version
  remoteID :: ItemID
  remoteVer :: Version

type_synonym seen_map = "ItemID \<times> string \<rightharpoonup> collision"

definition see_local :: "Tree \<Rightarrow> seen_map \<Rightarrow> ItemID \<Rightarrow> seen_map" where
  "see_local local seen i =
     (case Items local i of
        None \<Rightarrow> seen
      | Some it \<Rightarrow>
          if isDeleted it then seen
          else let l = (i_ParentItemID it, i_Name it) in
            case seen l of
              None \<Rightarrow> seen(l \<mapsto> \<lparr>localID = i, localVer = getz zero_Version (Versions local) i,
                               remoteID = '''', remoteVer = zero_Version\<rparr>)
            | Some c \<Rightarrow> seen(l \<mapsto> c\<lparr>localID := i, localVer := getz zero_Version (Versions local) i\<rparr>))"

definition collision_reason :: "ItemID \<Rightarrow> ItemID \<Rightarrow> string" where
  "collision_reason l r =
     ''add/add path collision: local item '' @ l @ '' and remote item '' @ r @ '' occupy the same path''"

definition collision_at :: "Tree \<Rightarrow> seen_map \<Rightarrow> ItemID \<Rightarrow> Conflict list" where
  "collision_at remote seen i =
     (case Items remote i of
        None \<Rightarrow> []
      | Some it \<Rightarrow>
          if isDeleted it then []
          else case seen (i_ParentItemID it, i_Name it) of
              None \<Rightarrow> []
            | Some c \<Rightarrow>
                if localID c = '''' \<or> localID c = i then []
                else [mk_conflict i (localVer c) (getz zero_Version (Versions remote) i) zero_Version
                   (collision_reason (localID c) i)])"

definition pathCollisions :: "ItemID list \<Rightarrow> ItemID list \<Rightarrow> Tree \<Rightarrow> Tree \<Rightarrow> Conflict list" where
  "pathCollisions lids rids remote local =
     (let seen = foldl (see_local local) Map.empty lids
      in concat (map (collision_at remote seen) rids))"

subsection \<open>The plan\<close>

definition sortActions :: "Action list \<Rightarrow> Action list" where
  "sortActions = go_sort (\<lambda>a. (a_ItemID a, a_Type a))"

definition sortConflicts :: "Conflict list \<Rightarrow> Conflict list" where
  "sortConflicts = go_sort c_ItemID"

definition Plan ::
  "ItemID list \<Rightarrow> ItemID list \<Rightarrow> ItemID list \<Rightarrow> Tree \<Rightarrow> Tree \<Rightarrow> Tree \<Rightarrow> Action list \<times> Conflict list" where
  "Plan ids lids rids remote local synced =
     (let actions = concat (map (\<lambda>i. fst (planItem i remote local synced)) ids);
          conflicts = concat (map (\<lambda>i. snd (planItem i remote local synced)) ids)
            @ pathCollisions lids rids remote local
      in (sortActions actions, sortConflicts conflicts))"

definition all_ids :: "Tree \<Rightarrow> Tree \<Rightarrow> Tree \<Rightarrow> ItemID set" where
  "all_ids remote local synced = dom (Items remote) \<union> dom (Items local) \<union> dom (Items synced)"

subsection \<open>The event helper\<close>

definition hasAppliedEvent :: "Tree \<Rightarrow> Event \<Rightarrow> bool" where
  "hasAppliedEvent t evt =
     (case Items t (e_ItemID evt) of None \<Rightarrow> False | Some item \<Rightarrow> i_UpdatedAt item = e_CreatedAt evt)"

definition ApplyEvent :: "Tree \<Rightarrow> Event \<Rightarrow> Tree" where
  "ApplyEvent t evt =
     (let k = e_ItemID evt; item = getz zero_Item (Items t) k in
      if (case Items t k of None \<Rightarrow> False
          | Some existing \<Rightarrow> i_UpdatedAt existing = e_CreatedAt evt \<and> hasAppliedEvent t evt)
      then t
      else if e_EventType evt = EventDelete then
        \<lparr>Items = (Items t)(k \<mapsto> item\<lparr>i_DeletedAt := Some (e_CreatedAt evt), i_CurrentVersion := '''',
                     i_UpdatedAt := e_CreatedAt evt\<rparr>),
         Versions = (Versions t)(k := None)\<rparr>
      else if e_EventType evt = EventMove then
        t\<lparr>Items := (Items t)(k \<mapsto> item\<lparr>i_UpdatedAt := e_CreatedAt evt\<rparr>)\<rparr>
      else if e_EventType evt = EventCreate \<or> e_EventType evt = EventUpdate then
        (let item1 = item\<lparr>i_UpdatedAt := e_CreatedAt evt\<rparr>;
             item2 = (if i_CreatedAt item1 = 0 then item1\<lparr>i_CreatedAt := e_CreatedAt evt\<rparr> else item1)
         in t\<lparr>Items := (Items t)(k \<mapsto> item2)\<rparr>)
      else t)"

subsection \<open>The decision over a side's state\<close>

definition present :: "Tree \<Rightarrow> ItemID \<Rightarrow> bool" where
  "present t i \<longleftrightarrow> (case Items t i of None \<Rightarrow> False | Some it \<Rightarrow> \<not> isDeleted it)"

abbreviation item_of :: "Tree \<Rightarrow> ItemID \<Rightarrow> Item" where
  "item_of t i \<equiv> getz zero_Item (Items t) i"

abbreviation ver_of :: "Tree \<Rightarrow> ItemID \<Rightarrow> Version" where
  "ver_of t i \<equiv> getz zero_Version (Versions t) i"

definition corrupt :: "Tree \<Rightarrow> ItemID \<Rightarrow> bool" where
  "corrupt t i \<longleftrightarrow> present t i \<and> v_VersionID (ver_of t i) = []"

definition changed_since :: "Tree \<Rightarrow> Tree \<Rightarrow> ItemID \<Rightarrow> bool" where
  "changed_since t synced i \<longleftrightarrow> itemChanged (item_of t i) (ver_of t i) (item_of synced i) (ver_of synced i)"

lemma present_iff: "present t i \<longleftrightarrow> Items t i \<noteq> None \<and> \<not> isDeleted (item_of t i)"
  by (auto simp: present_def split: option.splits)

lemma corrupt_iff:
  "corrupt t i \<longleftrightarrow> (Items t i \<noteq> None \<and> \<not> isDeleted (item_of t i))
     \<and> i_CurrentVersion (item_of t i) \<noteq> [] \<and> v_VersionID (ver_of t i) = []"
  by (auto simp: corrupt_def present_iff isDeleted_def)

lemma planItem_cases:
  "planItem i r l s =
     (if corrupt l i \<or> corrupt r i then
        ([], [mk_conflict i (ver_of l i) (ver_of r i) (ver_of s i) (corrupt_reason (corrupt l i) (corrupt r i))])
      else if present s i then
        (if present l i \<and> present r i
           then reconcileBothPresent i (item_of r i) (item_of l i) (item_of s i) (ver_of r i) (ver_of l i) (ver_of s i)
         else if present l i \<and> \<not> present r i then
           (if changed_since l s i
            then ([], [mk_conflict i (ver_of l i) zero_Version (ver_of s i) ''modify/delete: local modified, remote deleted''])
            else ([mk_action ActionDeleteLocal i (ver_of l i)], []))
         else if \<not> present l i \<and> present r i then
           (if changed_since r s i
            then ([], [mk_conflict i zero_Version (ver_of r i) (ver_of s i) ''modify/delete: remote modified, local deleted''])
            else ([mk_action ActionDeleteRemote i (ver_of r i)], []))
         else ([], []))
      else if present l i \<and> present r i then
        (if versionsEqual (ver_of l i) (ver_of r i) \<and> locationsEqual (item_of l i) (item_of r i) then ([], [])
         else ([], [mk_conflict i (ver_of l i) (ver_of r i) zero_Version
                ''add/add: both sides created the same item with different content or location'']))
      else if present l i \<and> \<not> present r i then ([mk_action ActionUpload i (ver_of l i)], [])
      else if \<not> present l i \<and> present r i then ([mk_action ActionDownload i (ver_of r i)], [])
      else ([], []))"
  unfolding planItem_def Let_def corrupt_iff present_iff changed_since_def by (rule refl)

lemma reconcile_cases:
  "reconcileBothPresent i rI lI sI rV lV sV =
     (if \<not> itemChanged lI lV sI sV \<and> \<not> itemChanged rI rV sI sV then ([], [])
      else if \<not> itemChanged rI rV sI sV
        then ([mk_action (if versionContentChanged lV sV then ActionUpdateRemote else ActionMoveRemote) i lV], [])
      else if \<not> itemChanged lI lV sI sV
        then ([mk_action (if versionContentChanged rV sV then ActionUpdateLocal else ActionMoveLocal) i rV], [])
      else if versionsEqual lV rV \<and> locationsEqual lI rI then ([], [])
      else ([], [mk_conflict i lV rV sV (conflict_reason rI lI sI rV lV sV)]))"
  by (auto simp: reconcileBothPresent_def Let_def itemChanged_def)

lemmas plan_defs = planItem_cases reconcile_cases mk_action_def mk_conflict_def changed_since_def

lemma planItem_single: "length (fst (planItem i r l s)) + length (snd (planItem i r l s)) \<le> 1"
  by (simp add: planItem_cases reconcile_cases)

lemma planItem_ids:
  "a \<in> set (fst (planItem i r l s)) \<Longrightarrow> a_ItemID a = i"
  "c \<in> set (snd (planItem i r l s)) \<Longrightarrow> c_ItemID c = i"
  by (auto simp: plan_defs split: if_splits)

lemma planItem_absent: "i \<notin> all_ids r l s \<Longrightarrow> planItem i r l s = ([], [])"
  by (simp add: planItem_cases corrupt_def present_def all_ids_def domIff)

lemma versionsEqual_commute: "versionsEqual a b \<longleftrightarrow> versionsEqual b a"
  by (auto simp: versionsEqual_def)

lemma versionsEqual_refl [simp]: "versionsEqual a a"
  by (simp add: versionsEqual_def)

lemma versionsEqual_trans:
  "versionsEqual a b \<Longrightarrow> versionsEqual c b \<Longrightarrow> v_VersionID a \<noteq> [] \<Longrightarrow> v_VersionID b \<noteq> [] \<Longrightarrow>
   v_VersionID c \<noteq> [] \<Longrightarrow> versionsEqual a c"
  by (simp add: versionsEqual_def split: if_splits)

lemma locationsEqual_commute: "locationsEqual a b \<longleftrightarrow> locationsEqual b a"
  by (auto simp: locationsEqual_def)

lemma moved_iff: "moved a b \<longleftrightarrow> \<not> locationsEqual a b"
  by (simp add: moved_def locationsEqual_def)

lemma action_list_keys:
  "map a_ItemID (fst (planItem i r l s)) = (if fst (planItem i r l s) = [] then [] else [i])"
  by (auto simp: plan_defs)

lemma distinct_action_keys:
  "distinct ids \<Longrightarrow> distinct (map (\<lambda>a. (a_ItemID a, a_Type a)) (concat (map (\<lambda>i. fst (planItem i r l s)) ids)))"
proof (induction ids)
  case (Cons i ids)
  have "distinct (map (\<lambda>a. (a_ItemID a, a_Type a)) (fst (planItem i r l s)))"
    using planItem_single [of i r l s] by (cases "fst (planItem i r l s)") auto
  moreover have "(\<lambda>a. (a_ItemID a, a_Type a)) ` set (fst (planItem i r l s))
      \<inter> (\<lambda>a. (a_ItemID a, a_Type a)) ` set (concat (map (\<lambda>i. fst (planItem i r l s)) ids)) = {}"
    using Cons.prems by (force dest: planItem_ids(1))
  ultimately show ?case using Cons by simp
qed simp

subsection \<open>Collisions\<close>

text \<open>The map of seen locations holds, for each location, a present local item that sits there;
  it holds the only one where local locations are unique.\<close>

definition at_loc :: "Tree \<Rightarrow> ItemID \<Rightarrow> ItemID \<times> string \<Rightarrow> bool" where
  "at_loc t i loc \<longleftrightarrow> present t i \<and> Item_Location (item_of t i) = loc"

lemma see_local_eq:
  "see_local l seen i loc =
     (if at_loc l i loc then
        Some (case seen loc of
           None \<Rightarrow> \<lparr>localID = i, localVer = ver_of l i, remoteID = [], remoteVer = zero_Version\<rparr>
         | Some c \<Rightarrow> c\<lparr>localID := i, localVer := ver_of l i\<rparr>)
      else seen loc)"
  by (auto simp: see_local_def at_loc_def present_def Item_Location_def Let_def split: option.splits)

lemma seen_sound:
  assumes "foldl (see_local l) seen lids loc = Some c"
    and "\<And>c. seen loc = Some c \<Longrightarrow> at_loc l (localID c) loc \<and> localVer c = ver_of l (localID c)"
  shows "at_loc l (localID c) loc \<and> localVer c = ver_of l (localID c)"
  using assms
proof (induction lids arbitrary: seen)
  case (Cons i lids)
  show ?case
  proof (rule Cons.IH)
    show "foldl (see_local l) (see_local l seen i) lids loc = Some c" using Cons.prems(1) by simp
    fix d assume "see_local l seen i loc = Some d"
    then show "at_loc l (localID d) loc \<and> localVer d = ver_of l (localID d)"
      using Cons.prems(2) by (auto simp: see_local_eq split: if_splits option.splits)
  qed
qed simp

lemma seen_mono: "seen loc \<noteq> None \<Longrightarrow> foldl (see_local l) seen lids loc \<noteq> None"
  by (induction lids arbitrary: seen) (simp_all add: see_local_eq)

lemma seen_complete:
  "i \<in> set lids \<Longrightarrow> at_loc l i loc \<Longrightarrow> foldl (see_local l) seen lids loc \<noteq> None"
proof (induction lids arbitrary: seen)
  case (Cons j lids)
  show ?case
  proof (cases "j = i")
    case True
    then have "see_local l seen j loc \<noteq> None" using Cons.prems by (simp add: see_local_eq)
    then show ?thesis by (simp only: foldl_Cons seen_mono not_False_eq_True)
  next
    case False
    then show ?thesis using Cons.IH [of "see_local l seen j"] Cons.prems by simp
  qed
qed simp

lemma collision_at_iff:
  "cf \<in> set (collision_at r seen i) \<longleftrightarrow>
     present r i \<and> (\<exists>c. seen (Item_Location (item_of r i)) = Some c \<and> localID c \<noteq> [] \<and> localID c \<noteq> i
       \<and> cf = mk_conflict i (localVer c) (ver_of r i) zero_Version
           (collision_reason (localID c) i))"
proof (cases "Items r i")
  case (Some it)
  then show ?thesis
    by (cases "seen (i_ParentItemID it, i_Name it)")
      (simp_all add: collision_at_def present_def Item_Location_def)
qed (simp add: collision_at_def present_def)

lemma pathCollisions_iff:
  "cf \<in> set (pathCollisions lids rids r l) \<longleftrightarrow>
     (\<exists>i \<in> set rids. cf \<in> set (collision_at r (foldl (see_local l) Map.empty lids) i))"
  by (auto simp: pathCollisions_def Let_def)

subsection \<open>Properties\<close>

text \<open>Which side of the pair an action rewrites.\<close>

definition rewrites_local :: "Action \<Rightarrow> bool" where
  "rewrites_local a \<longleftrightarrow> a_Type a \<in> {ActionDownload, ActionDeleteLocal, ActionUpdateLocal, ActionMoveLocal}"

definition rewrites_remote :: "Action \<Rightarrow> bool" where
  "rewrites_remote a \<longleftrightarrow> a_Type a \<in> {ActionUpload, ActionDeleteRemote, ActionUpdateRemote, ActionMoveRemote}"

lemma rewrites_mk [simp]:
  "rewrites_local (mk_action ty i v) \<longleftrightarrow> ty \<in> {ActionDownload, ActionDeleteLocal, ActionUpdateLocal, ActionMoveLocal}"
  "rewrites_remote (mk_action ty i v) \<longleftrightarrow> ty \<in> {ActionUpload, ActionDeleteRemote, ActionUpdateRemote, ActionMoveRemote}"
  by (simp_all add: rewrites_local_def rewrites_remote_def mk_action_def)

lemma planItem_safe:
  assumes "a \<in> set (fst (planItem i r l s))"
  shows "(rewrites_local a \<longrightarrow> \<not> present l i \<or> present s i \<and> \<not> changed_since l s i)
       \<and> (rewrites_remote a \<longrightarrow> \<not> present r i \<or> present s i \<and> \<not> changed_since r s i)
       \<and> (rewrites_local a \<longleftrightarrow> \<not> rewrites_remote a)"
  using assms by (auto simp: planItem_cases reconcile_cases changed_since_def split: if_splits)

lemma set_Plan_actions: "set (fst (Plan ids lids rids r l s)) = (\<Union>i \<in> set ids. set (fst (planItem i r l s)))"
  by (simp add: Plan_def Let_def sortActions_def)

lemma set_Plan_conflicts:
  "set (snd (Plan ids lids rids r l s)) =
     (\<Union>i \<in> set ids. set (snd (planItem i r l s))) \<union> set (pathCollisions lids rids r l)"
  by (simp add: Plan_def Let_def sortConflicts_def)

text \<open>C1: the plan never overwrites a side that changed: every action rewrites exactly one side, and
  that side either does not have the item or has it exactly as the synced ancestor does.\<close>

theorem plan_never_overwrites_changes:
  assumes "a \<in> set (fst (Plan ids lids rids remote local synced))"
  shows "(rewrites_local a \<longleftrightarrow> \<not> rewrites_remote a)
    \<and> (rewrites_local a \<longrightarrow> \<not> present local (a_ItemID a)
         \<or> present synced (a_ItemID a) \<and> \<not> changed_since local synced (a_ItemID a))
    \<and> (rewrites_remote a \<longrightarrow> \<not> present remote (a_ItemID a)
         \<or> present synced (a_ItemID a) \<and> \<not> changed_since remote synced (a_ItemID a))"
  using assms planItem_safe planItem_ids(1) by (fastforce simp: set_Plan_actions)

text \<open>Both sides changed, to different content or places: the planner emits no action and one
  conflict that carries the local, the remote and the ancestor's version.\<close>

theorem plan_item_conflict_preserves_both:
  assumes "present remote i" "present local i" "\<not> corrupt remote i" "\<not> corrupt local i"
    and "present synced i \<longrightarrow> changed_since remote synced i \<and> changed_since local synced i"
    and "\<not> (versionsEqual (ver_of local i) (ver_of remote i) \<and> locationsEqual (item_of local i) (item_of remote i))"
  shows "\<exists>c. planItem i remote local synced = ([], [c]) \<and> c_ItemID c = i
    \<and> c_LocalVer c = ver_of local i \<and> c_RemoteVer c = ver_of remote i
    \<and> (present synced i \<longrightarrow> c_SyncedVer c = ver_of synced i)"
  using assms by (auto simp: planItem_cases reconcile_cases changed_since_def mk_conflict_def)

text \<open>The planner is quiet on an item exactly when the two sides agree on it: both lack it, or
  both have it at the same place with the same content (synced ancestor with its version record).\<close>

theorem plan_item_quiet_iff_converged:
  assumes "\<not> corrupt synced i" "\<not> corrupt remote i" "\<not> corrupt local i"
  shows "planItem i remote local synced = ([], []) \<longleftrightarrow>
    (present remote i \<longleftrightarrow> present local i)
    \<and> (present local i \<longrightarrow> versionsEqual (ver_of local i) (ver_of remote i)
         \<and> locationsEqual (item_of local i) (item_of remote i))"
proof -
  let ?eq = "versionsEqual (ver_of local i) (ver_of remote i) \<and> locationsEqual (item_of local i) (item_of remote i)"
  have tr: "?eq" if "present synced i" "present local i" "present remote i"
      "\<not> changed_since local synced i" "\<not> changed_since remote synced i"
    using that assms versionsEqual_trans [of "ver_of local i" "ver_of synced i" "ver_of remote i"]
    by (auto simp: changed_since_def itemChanged_def versionContentChanged_def moved_iff corrupt_def locationsEqual_def)
  have ch: "changed_since local synced i \<longleftrightarrow> changed_since remote synced i"
    if "?eq" "present synced i" "present local i" "present remote i"
    using that assms
    by (auto simp: changed_since_def itemChanged_def versionContentChanged_def moved_iff corrupt_def
        locationsEqual_def versionsEqual_def)
  show ?thesis
  proof (cases "present synced i \<and> present local i \<and> present remote i")
    case True
    then have "planItem i remote local synced = ([], []) \<longleftrightarrow>
        \<not> changed_since local synced i \<and> \<not> changed_since remote synced i
        \<or> changed_since local synced i \<and> changed_since remote synced i \<and> ?eq"
      using assms by (simp add: planItem_cases reconcile_cases changed_since_def)
    then show ?thesis using True tr ch by blast
  next
    case False
    then show ?thesis using assms by (auto simp: planItem_cases)
  qed
qed

text \<open>The same action or conflict with the two sides exchanged.\<close>

definition mirror_type :: "ActionType \<Rightarrow> ActionType" where
  "mirror_type ty =
     (if ty = ActionDownload then ActionUpload else if ty = ActionUpload then ActionDownload
      else if ty = ActionDeleteLocal then ActionDeleteRemote else if ty = ActionDeleteRemote then ActionDeleteLocal
      else if ty = ActionUpdateLocal then ActionUpdateRemote else if ty = ActionUpdateRemote then ActionUpdateLocal
      else if ty = ActionMoveLocal then ActionMoveRemote else if ty = ActionMoveRemote then ActionMoveLocal
      else ty)"

definition mirror_action :: "Action \<Rightarrow> Action" where
  "mirror_action a = a\<lparr>a_Type := mirror_type (a_Type a)\<rparr>"

lemma mirror_mk [simp]: "mirror_action (mk_action ty i v) = mk_action (mirror_type ty) i v"
  by (simp add: mirror_action_def mk_action_def)

definition mirror_reason :: "string \<Rightarrow> string" where
  "mirror_reason s =
     (if s = ''corrupt remote item: version record missing'' then ''corrupt local item: version record missing''
      else if s = ''corrupt local item: version record missing'' then ''corrupt remote item: version record missing''
      else if s = ''modify/delete: local modified, remote deleted'' then ''modify/delete: remote modified, local deleted''
      else if s = ''modify/delete: remote modified, local deleted'' then ''modify/delete: local modified, remote deleted''
      else s)"

definition mirror_conflict :: "Conflict \<Rightarrow> Conflict" where
  "mirror_conflict c = c\<lparr>c_LocalVer := c_RemoteVer c, c_RemoteVer := c_LocalVer c, c_Reason := mirror_reason (c_Reason c)\<rparr>"

lemma mirror_mk_conflict [simp]:
  "mirror_conflict (mk_conflict i l r s reason) = mk_conflict i r l s (mirror_reason reason)"
  by (simp add: mirror_conflict_def mk_conflict_def)

lemma conflict_reason_mirror:
  "conflict_reason lI rI sI lV rV sV = mirror_reason (conflict_reason rI lI sI rV lV sV)"
  by (auto simp: conflict_reason_def mirror_reason_def locationsEqual_def Let_def)

lemma corrupt_reason_mirror:
  "a \<or> b \<Longrightarrow> corrupt_reason b a = mirror_reason (corrupt_reason a b)"
  by (auto simp: corrupt_reason_def mirror_reason_def)

lemma reconcile_mirror:
  "reconcileBothPresent i lI rI sI lV rV sV =
     map_prod (map mirror_action) (map mirror_conflict) (reconcileBothPresent i rI lI sI rV lV sV)"
  by (simp add: reconcile_cases conflict_reason_mirror [of lI rI] mirror_type_def
      versionsEqual_commute [of rV lV] locationsEqual_commute [of rI lI])

text \<open>On one item, exchanging the two sides exchanges the roles in every action and every conflict and changes
  nothing else: neither side is preferred.\<close>

theorem plan_item_symmetric:
  "planItem i local remote synced =
     map_prod (map mirror_action) (map mirror_conflict) (planItem i remote local synced)"
proof (cases "corrupt local i \<or> corrupt remote i")
  case True
  then show ?thesis
    using corrupt_reason_mirror [of "corrupt local i" "corrupt remote i"] by (auto simp: planItem_cases)
next
  case False
  then show ?thesis
    by (cases "present synced i"; cases "present local i"; cases "present remote i")
      (simp_all add: planItem_cases reconcile_mirror [of i "item_of local i"] mirror_type_def
        mirror_reason_def versionsEqual_commute [of "ver_of remote i"] locationsEqual_commute [of "item_of remote i"])
qed

text \<open>The actions do not depend on the order in which the runtime visits the items: every two
  orders over all items of the three trees give the same list, sorted by item, with at most one
  action per item.\<close>

theorem plan_actions_deterministic:
  assumes "enumerates ids (all_ids remote local synced)" "enumerates ids' (all_ids remote local synced)"
  shows "fst (Plan ids lids rids remote local synced) = fst (Plan ids' lids' rids' remote local synced)
    \<and> distinct (map a_ItemID (fst (Plan ids lids rids remote local synced)))
    \<and> sorted (map a_ItemID (fst (Plan ids lids rids remote local synced)))"
proof -
  let ?as = "\<lambda>ids. concat (map (\<lambda>i. fst (planItem i remote local synced)) ids)"
  let ?key = "\<lambda>a. (a_ItemID a, a_Type a)"
  have "mset (?as ids) = mset (?as ids')"
    using enumerates_mset [OF assms] by (rule mset_concat_map_perm)
  then have eq: "sortActions (?as ids) = sortActions (?as ids')"
    using distinct_action_keys assms(1) by (simp add: sortActions_def enumerates_def go_sort_perm)
  have "distinct (map a_ItemID (?as ids))"
  proof -
    have "distinct (concat (map (\<lambda>i. map a_ItemID (fst (planItem i remote local synced))) js))" if "distinct js" for js
      using that by (induction js) (auto simp: action_list_keys)
    then show ?thesis using assms(1) by (simp add: enumerates_def map_concat comp_def)
  qed
  then have d: "distinct (map a_ItemID (sortActions (?as ids)))"
    by (simp add: sortActions_def)
  have "sorted (map fst (map ?key (sortActions (?as ids))))"
    by (rule sorted_map_fst) (simp add: sortActions_def)
  then show ?thesis using eq d by (simp add: Plan_def Let_def comp_def)
qed

text \<open>A reported path collision is real: the remote item and a different local item are both
  present at the same parent and name, and the conflict carries both versions.\<close>

theorem path_collision_sound:
  assumes "c \<in> set (pathCollisions lids rids remote local)"
  shows "\<exists>j. j \<noteq> c_ItemID c \<and> at_loc local j (Item_Location (item_of remote (c_ItemID c)))
    \<and> present remote (c_ItemID c)
    \<and> c_LocalVer c = ver_of local j \<and> c_RemoteVer c = ver_of remote (c_ItemID c)"
proof -
  let ?seen = "foldl (see_local local) Map.empty lids"
  obtain i d where i: "present remote i" "?seen (Item_Location (item_of remote i)) = Some d" "localID d \<noteq> i"
    and c: "c = mk_conflict i (localVer d) (ver_of remote i) zero_Version
      (collision_reason (localID d) i)"
    using assms by (auto simp: pathCollisions_iff collision_at_iff)
  have "at_loc local (localID d) (Item_Location (item_of remote i)) \<and> localVer d = ver_of local (localID d)"
    using seen_sound [OF i(2)] by simp
  then show ?thesis using i c by (auto simp: mk_conflict_def)
qed

text \<open>Where no two items of the local tree share a place, the collisions that are reported are exactly the pairs of a
  remote and a different local item at one place, whatever the visiting orders.\<close>

definition one_per_place :: "Tree \<Rightarrow> bool" where
  "one_per_place t \<longleftrightarrow> (\<forall>i j loc. at_loc t i loc \<and> at_loc t j loc \<longrightarrow> i = j)"

definition collides :: "Tree \<Rightarrow> Tree \<Rightarrow> ItemID \<Rightarrow> ItemID \<Rightarrow> bool" where
  "collides remote local i j \<longleftrightarrow> present remote i \<and> at_loc local j (Item_Location (item_of remote i)) \<and> j \<noteq> i"

definition path_conflict :: "Tree \<Rightarrow> Tree \<Rightarrow> ItemID \<Rightarrow> ItemID \<Rightarrow> Conflict" where
  "path_conflict remote local i j = mk_conflict i (ver_of local j) (ver_of remote i) zero_Version (collision_reason j i)"

lemma collides_commute: "collides local remote j i \<longleftrightarrow> collides remote local i j"
  by (auto simp: collides_def at_loc_def)

lemma present_dom: "present t i \<Longrightarrow> i \<in> dom (Items t)"
  by (auto simp: present_def split: option.splits)

lemma pathCollisions_pairs:
  assumes "enumerates lids (dom (Items local))" "enumerates rids (dom (Items remote))" "one_per_place local" "[] \<notin> dom (Items local)"
  shows "set (pathCollisions lids rids remote local) = {path_conflict remote local i j | i j. collides remote local i j}"
proof -
  let ?seen = "foldl (see_local local) Map.empty lids"
  have at: "at_loc local (localID d) loc \<and> localVer d = ver_of local (localID d)" if "?seen loc = Some d" for d loc
    using seen_sound [OF that] by simp
  have "\<exists>j. cf = path_conflict remote local i j \<and> collides remote local i j"
    if m: "cf \<in> set (collision_at remote ?seen i)" for cf i
  proof -
    obtain d where d: "present remote i" "?seen (Item_Location (item_of remote i)) = Some d" "localID d \<noteq> i"
      and cf: "cf = mk_conflict i (localVer d) (ver_of remote i) zero_Version (collision_reason (localID d) i)"
      using m by (auto simp: collision_at_iff)
    show ?thesis using d cf at [OF d(2)]
      by (intro exI [of _ "localID d"]) (simp add: collides_def path_conflict_def)
  qed
  moreover have "path_conflict remote local i j \<in> set (collision_at remote ?seen i) \<and> i \<in> set rids" if c: "collides remote local i j" for i j
  proof -
    have j: "j \<in> dom (Items local)" "at_loc local j (Item_Location (item_of remote i))" "present remote i" "j \<noteq> i"
      using c present_dom by (auto simp: collides_def at_loc_def)
    then obtain d where d: "?seen (Item_Location (item_of remote i)) = Some d"
      using seen_complete [OF _ j(2), of lids Map.empty] assms(1) unfolding enumerates_def by blast
    have "localID d = j" using at [OF d] j(2) assms(3) unfolding one_per_place_def by blast
    then show ?thesis using d at [OF d] j assms(2,4) present_dom [OF j(3)] by (auto simp: collision_at_iff path_conflict_def enumerates_def)
  qed
  ultimately show ?thesis by (fastforce simp: pathCollisions_iff)
qed

lemma sorted_map_pair:
  "sorted (map f xs) \<Longrightarrow> distinct (map f xs) \<Longrightarrow> sorted (map (\<lambda>x. (f x, g x)) xs)"
  by (induction xs) (force simp: less_eq_prod_def)+

lemma sortActions_mirror:
  assumes "distinct (map a_ItemID xs)"
  shows "sortActions (map mirror_action xs) = map mirror_action (sortActions xs)"
proof -
  let ?key = "\<lambda>a. (a_ItemID a, a_Type a)" and ?ys = "map mirror_action (sortActions xs)"
  have ids: "map a_ItemID ?ys = map a_ItemID (sortActions xs)" "map a_ItemID (map mirror_action xs) = map a_ItemID xs"
    by (simp_all add: mirror_action_def comp_def)
  have d: "distinct (map a_ItemID ?ys)" unfolding ids using assms by (simp add: sortActions_def)
  have "sorted (map fst (map ?key (sortActions xs)))" by (rule sorted_map_fst) (simp add: sortActions_def)
  then have "sorted (map a_ItemID ?ys)" unfolding ids by (simp add: comp_def)
  then have "sorted (map ?key ?ys)" using d by (rule sorted_map_pair)
  then have "sorts ?key (map mirror_action xs) ?ys" by (simp add: sorts_def sortActions_def)
  moreover have "distinct (map ?key (map mirror_action xs))"
    using assms unfolding ids(2) [symmetric] by (auto simp: distinct_map inj_on_def)
  ultimately show ?thesis using go_sort_unique by (metis sortActions_def)
qed

lemma distinct_action_items:
  "distinct ids \<Longrightarrow> distinct (map a_ItemID (concat (map (\<lambda>i. fst (planItem i r l s)) ids)))"
  by (induction ids) (auto simp: action_list_keys map_concat dest: planItem_ids(1))

text \<open>C36: exchanging the two sides mirrors the plan. The actions are the same, in the same order, with the roles exchanged; the
  conflicts of the items are mirrored; and where neither tree has two items at one place, the two plans report the same
  pairs of colliding items, each under its own remote item with the versions exchanged.\<close>

theorem plan_symmetric:
  assumes "enumerates ids (all_ids remote local synced)" "enumerates lids (dom (Items local))" "enumerates rids (dom (Items remote))"
    "one_per_place local" "one_per_place remote" "[] \<notin> dom (Items local) \<union> dom (Items remote)"
  shows "fst (Plan ids rids lids local remote synced) = map mirror_action (fst (Plan ids lids rids remote local synced))
    \<and> set (snd (Plan ids lids rids remote local synced)) = (\<Union>i \<in> set ids. set (snd (planItem i remote local synced)))
        \<union> {path_conflict remote local i j | i j. collides remote local i j}
    \<and> set (snd (Plan ids rids lids local remote synced)) = (\<Union>i \<in> set ids. mirror_conflict ` set (snd (planItem i remote local synced)))
        \<union> {path_conflict local remote j i | i j. collides remote local i j}"
proof -
  let ?as = "concat (map (\<lambda>i. fst (planItem i remote local synced)) ids)"
  have "concat (map (\<lambda>i. fst (planItem i local remote synced)) ids) = map mirror_action ?as"
    by (simp add: plan_item_symmetric [of _ local remote] map_concat comp_def)
  moreover have "distinct (map a_ItemID ?as)" using assms(1) distinct_action_items by (simp add: enumerates_def)
  ultimately have "fst (Plan ids rids lids local remote synced) = map mirror_action (fst (Plan ids lids rids remote local synced))"
    by (simp add: Plan_def Let_def sortActions_mirror)
  moreover have "set (pathCollisions lids rids remote local) = {path_conflict remote local i j | i j. collides remote local i j}"
    using assms by (intro pathCollisions_pairs) simp_all
  moreover have "set (pathCollisions rids lids local remote) = {path_conflict local remote j i | i j. collides remote local i j}"
    using assms collides_commute pathCollisions_pairs [of rids remote lids local] by auto
  ultimately show ?thesis by (simp add: set_Plan_conflicts plan_item_symmetric [of _ local remote])
qed

text \<open>No collision is missed where the local tree has one item per place: a local and a remote
  item with different identifiers at the same place always give a conflict, whatever the visiting
  orders.\<close>

theorem path_collision_complete:
  assumes "enumerates lids (dom (Items local))" "enumerates rids (dom (Items remote))"
    and unique: "\<forall>j k. at_loc local j (Item_Location (item_of remote i)) \<and>
      at_loc local k (Item_Location (item_of remote i)) \<longrightarrow> j = k"
    and "present remote i" "at_loc local j (Item_Location (item_of remote i))" "j \<noteq> i" "j \<noteq> []"
  shows "\<exists>c \<in> set (pathCollisions lids rids remote local).
    c_ItemID c = i \<and> c_LocalVer c = ver_of local j \<and> c_RemoteVer c = ver_of remote i"
proof -
  let ?seen = "foldl (see_local local) Map.empty lids" and ?loc = "Item_Location (item_of remote i)"
  have mem: "i \<in> set rids" "j \<in> set lids"
    using assms by (auto simp: enumerates_def at_loc_def present_def dom_def split: option.splits)
  obtain d where d: "?seen ?loc = Some d" using seen_complete [OF mem(2) assms(5)] by blast
  then have "at_loc local (localID d) ?loc \<and> localVer d = ver_of local (localID d)"
    using seen_sound [OF d] by simp
  then have id: "localID d = j" "localVer d = ver_of local j" using unique assms(5) by blast+
  let ?c = "mk_conflict i (localVer d) (ver_of remote i) zero_Version
      (collision_reason (localID d) i)"
  have "?c \<in> set (collision_at remote ?seen i)"
    using d assms id by (simp add: collision_at_iff)
  then have "?c \<in> set (pathCollisions lids rids remote local)"
    using mem by (auto simp: pathCollisions_iff)
  then show ?thesis using id by (intro bexI [of _ ?c]) (simp_all add: mk_conflict_def)
qed

lemma one_per_place_quiet:
  assumes "one_per_place t"
  shows "pathCollisions lids rids t t = []"
proof -
  have False if "c \<in> set (pathCollisions lids rids t t)" for c
    using path_collision_sound [OF that] assms unfolding one_per_place_def at_loc_def by blast
  then show ?thesis by (cases "pathCollisions lids rids t t") auto
qed

text \<open>A tree against itself: the collision pass is quiet exactly where no two items share a place. Two items at one place are
  reported although both sides hold both of them.\<close>

lemma pathCollisions_same:
  assumes "enumerates lids (dom (Items t))" "enumerates rids (dom (Items t))" "[] \<notin> dom (Items t)"
  shows "pathCollisions lids rids t t = [] \<longleftrightarrow> one_per_place t"
proof
  assume none: "pathCollisions lids rids t t = []"
  have own: "seen = Some d \<longrightarrow> localID d = i" if "present t i" "seen = foldl (see_local t) Map.empty lids (Item_Location (item_of t i))" for i d seen
  proof
    assume "seen = Some d"
    then have d: "foldl (see_local t) Map.empty lids (Item_Location (item_of t i)) = Some d" using that(2) by simp
    then have "present t (localID d)" using seen_sound [OF d] by (simp add: at_loc_def)
    then have "localID d \<noteq> []" using present_dom assms(3) by metis
    then have "path_conflict t t i (localID d) \<in> set (pathCollisions lids rids t t)" if "localID d \<noteq> i"
      using that d \<open>present t i\<close> present_dom [OF \<open>present t i\<close>] seen_sound [OF d] assms(2) unfolding pathCollisions_iff collision_at_iff
      by (intro bexI [of _ i]) (auto simp: path_conflict_def enumerates_def)
    then show "localID d = i" using none by auto
  qed
  show "one_per_place t"
    unfolding one_per_place_def
  proof (intro allI impI)
    fix i j loc
    assume a: "at_loc t i loc \<and> at_loc t j loc"
    then have l: "present t i" "present t j" "Item_Location (item_of t i) = loc" "Item_Location (item_of t j) = loc" by (simp_all add: at_loc_def)
    obtain d where "foldl (see_local t) Map.empty lids loc = Some d"
      using seen_complete [of i lids t loc Map.empty] a present_dom [OF l(1)] assms(1) unfolding enumerates_def by blast
    then show "i = j" using own [OF l(1) refl] own [OF l(2) refl] l by auto
  qed
qed (rule one_per_place_quiet)

text \<open>The event helper is idempotent: applying an event a second time changes nothing.\<close>

theorem apply_event_idempotent: "ApplyEvent (ApplyEvent t evt) evt = ApplyEvent t evt"
  by (auto simp: ApplyEvent_def hasAppliedEvent_def Let_def split: option.splits)

text \<open>The helper recognises a duplicate by its time stamp alone: any other event on the same item
  with the time stamp of the last one is dropped, a delete included, although its identifier
  differs.\<close>

theorem apply_event_drops_equal_timestamps:
  assumes "e_EventType a \<in> {EventCreate, EventUpdate, EventMove, EventDelete}"
    and "e_ItemID b = e_ItemID a" "e_CreatedAt b = e_CreatedAt a"
  shows "ApplyEvent (ApplyEvent t a) b = ApplyEvent t a"
  using assms by (auto simp: ApplyEvent_def hasAppliedEvent_def Let_def split: option.splits)

subsection \<open>Witnesses\<close>

definition wit_ver :: "string \<Rightarrow> Version" where
  "wit_ver v = zero_Version\<lparr>v_VersionID := v\<rparr>"

definition wit_item :: "string \<Rightarrow> string \<Rightarrow> Item" where
  "wit_item n v = zero_Item\<lparr>i_Name := n, i_CurrentVersion := v\<rparr>"

definition wit_tree :: "(ItemID \<times> string \<times> string) list \<Rightarrow> Tree" where
  "wit_tree xs = \<lparr>Items = map_of (map (\<lambda>(i, n, v). (i, wit_item n v)) xs),
                  Versions = map_of (map (\<lambda>(i, n, v). (i, wit_ver v)) xs)\<rparr>"

lemmas wit_plan_defs = wit_tree_def wit_ver_def wit_item_def zero_Item_def zero_Version_def present_def
  corrupt_def changed_since_def itemChanged_def versionContentChanged_def versionsEqual_def moved_def
  locationsEqual_def isDeleted_def getz_def

theorem plan_never_overwrites_changes_witness:
  "mk_action ActionUpdateLocal ''a'' (wit_ver ''v2'')
     \<in> set (fst (Plan [''a''] [''a''] [''a''] (wit_tree [(''a'', ''n'', ''v2'')]) (wit_tree [(''a'', ''n'', ''v1'')])
         (wit_tree [(''a'', ''n'', ''v1'')])))
   \<and> \<not> changed_since (wit_tree [(''a'', ''n'', ''v1'')]) (wit_tree [(''a'', ''n'', ''v1'')]) ''a''"
proof -
  let ?r = "wit_tree [(''a'', ''n'', ''v2'')]" and ?l = "wit_tree [(''a'', ''n'', ''v1'')]"
  have m: "mk_action ActionUpdateLocal ''a'' (wit_ver ''v2'') \<in> set (fst (Plan [''a''] [''a''] [''a''] ?r ?l ?l))"
    by (simp add: set_Plan_actions planItem_cases reconcile_cases wit_plan_defs)
  moreover have "present ?l ''a''" by (simp add: wit_plan_defs)
  ultimately show ?thesis
    using plan_never_overwrites_changes [OF m] by (simp add: mk_action_def rewrites_local_def)
qed

theorem plan_item_conflict_preserves_both_witness:
  "\<exists>c. planItem ''a'' (wit_tree [(''a'', ''n'', ''v2'')]) (wit_tree [(''a'', ''n'', ''v3'')]) (wit_tree [(''a'', ''n'', ''v1'')])
       = ([], [c]) \<and> c_LocalVer c = wit_ver ''v3'' \<and> c_RemoteVer c = wit_ver ''v2''"
  using plan_item_conflict_preserves_both [of "wit_tree [(''a'', ''n'', ''v2'')]" "''a''"
      "wit_tree [(''a'', ''n'', ''v3'')]" "wit_tree [(''a'', ''n'', ''v1'')]"]
  by (auto simp: wit_plan_defs)

theorem plan_item_quiet_iff_converged_witness:
  "planItem ''a'' (wit_tree [(''a'', ''n'', ''v2'')]) (wit_tree [(''a'', ''n'', ''v2'')]) (wit_tree [(''a'', ''n'', ''v1'')])
     = ([], [])"
  using plan_item_quiet_iff_converged [of "wit_tree [(''a'', ''n'', ''v1'')]" "''a''"
      "wit_tree [(''a'', ''n'', ''v2'')]" "wit_tree [(''a'', ''n'', ''v2'')]"]
  by (simp add: wit_plan_defs)

theorem plan_actions_deterministic_witness:
  "fst (Plan [''a'', ''b''] [] [] (wit_tree [(''a'', ''n'', ''v2'')]) (wit_tree [(''b'', ''m'', ''v1'')]) (wit_tree []))
   = fst (Plan [''b'', ''a''] [] [] (wit_tree [(''a'', ''n'', ''v2'')]) (wit_tree [(''b'', ''m'', ''v1'')]) (wit_tree []))"
proof -
  have "all_ids (wit_tree [(''a'', ''n'', ''v2'')]) (wit_tree [(''b'', ''m'', ''v1'')]) (wit_tree []) = {''a'', ''b''}"
    by (auto simp: all_ids_def wit_tree_def split: if_splits)
  then have e: "enumerates [''a'', ''b''] (all_ids (wit_tree [(''a'', ''n'', ''v2'')]) (wit_tree [(''b'', ''m'', ''v1'')]) (wit_tree []))"
    "enumerates [''b'', ''a''] (all_ids (wit_tree [(''a'', ''n'', ''v2'')]) (wit_tree [(''b'', ''m'', ''v1'')]) (wit_tree []))"
    by (auto simp: enumerates_def)
  show ?thesis by (rule plan_actions_deterministic [OF e, THEN conjunct1])
qed

theorem path_collision_sound_witness:
  "at_loc (wit_tree [(''b'', ''n'', ''v1'')]) ''b'' (Item_Location (item_of (wit_tree [(''a'', ''n'', ''v2'')]) ''a''))"
proof -
  let ?c = "mk_conflict ''a'' (wit_ver ''v1'') (wit_ver ''v2'') zero_Version (collision_reason ''b'' ''a'')"
  have "?c \<in> set (pathCollisions [''b''] [''a''] (wit_tree [(''a'', ''n'', ''v2'')]) (wit_tree [(''b'', ''n'', ''v1'')]))"
    by (simp add: pathCollisions_def see_local_def collision_at_def wit_plan_defs)
  from path_collision_sound [OF this] show ?thesis
    by (auto simp: mk_conflict_def at_loc_def wit_plan_defs split: if_splits)
qed

theorem plan_symmetric_witness:
  "\<exists>c. snd (Plan [''a'', ''b''] [''b''] [''a''] (wit_tree [(''a'', ''n'', ''v2'')]) (wit_tree [(''b'', ''n'', ''v1'')]) (wit_tree [])) = [c]
     \<and> path_conflict (wit_tree [(''b'', ''n'', ''v1'')]) (wit_tree [(''a'', ''n'', ''v2'')]) ''b'' ''a''
       \<in> set (snd (Plan [''a'', ''b''] [''a''] [''b''] (wit_tree [(''b'', ''n'', ''v1'')]) (wit_tree [(''a'', ''n'', ''v2'')]) (wit_tree [])))"
proof -
  let ?r = "wit_tree [(''a'', ''n'', ''v2'')]" and ?l = "wit_tree [(''b'', ''n'', ''v1'')]"
  have d: "dom (Items ?r) = {''a''}" "dom (Items ?l) = {''b''}" "all_ids ?r ?l (wit_tree []) = {''a'', ''b''}"
    by (auto simp: all_ids_def wit_tree_def split: if_splits)
  have o: "one_per_place ?r" "one_per_place ?l" by (auto simp: one_per_place_def at_loc_def present_def wit_tree_def split: if_splits)
  have c: "collides ?r ?l ''a'' ''b''" by (simp add: collides_def at_loc_def Item_Location_def wit_plan_defs)
  have s: "set (snd (Plan [''a'', ''b''] [''a''] [''b''] ?l ?r (wit_tree []))) = (\<Union>i \<in> set [''a'', ''b'']. mirror_conflict ` set (snd (planItem i ?r ?l (wit_tree []))))
      \<union> {path_conflict ?l ?r j i | i j. collides ?r ?l i j}"
    using plan_symmetric [of "[''a'', ''b'']" ?r ?l "wit_tree []" "[''b'']" "[''a'']"] d o by (simp add: enumerates_def)
  have "path_conflict ?l ?r ''b'' ''a'' \<in> set (snd (Plan [''a'', ''b''] [''a''] [''b''] ?l ?r (wit_tree [])))" unfolding s using c by blast
  moreover have "\<exists>c. snd (Plan [''a'', ''b''] [''b''] [''a''] ?r ?l (wit_tree [])) = [c]"
    by (simp add: Plan_def planItem_cases pathCollisions_def see_local_def collision_at_def sortConflicts_def go_sort_def wit_plan_defs)
  ultimately show ?thesis by blast
qed

theorem path_collision_complete_witness:
  "\<exists>c \<in> set (pathCollisions [''b''] [''a''] (wit_tree [(''a'', ''n'', ''v2'')]) (wit_tree [(''b'', ''n'', ''v1'')])).
     c_ItemID c = ''a'' \<and> c_LocalVer c = wit_ver ''v1''"
proof -
  have "\<exists>c \<in> set (pathCollisions [''b''] [''a''] (wit_tree [(''a'', ''n'', ''v2'')]) (wit_tree [(''b'', ''n'', ''v1'')])).
     c_ItemID c = ''a'' \<and> c_LocalVer c = ver_of (wit_tree [(''b'', ''n'', ''v1'')]) ''b''
     \<and> c_RemoteVer c = ver_of (wit_tree [(''a'', ''n'', ''v2'')]) ''a''"
    by (rule path_collision_complete)
      (auto simp: enumerates_def at_loc_def Item_Location_def wit_plan_defs split: if_splits)
  then show ?thesis by (auto simp: wit_plan_defs)
qed

theorem apply_event_drops_equal_timestamps_witness:
  "ApplyEvent (ApplyEvent NewTree (wit_event EventCreate ''i'' 1 ''v'')) (wit_event EventDelete ''i'' 2 [])
   = ApplyEvent NewTree (wit_event EventCreate ''i'' 1 ''v'')"
  using apply_event_drops_equal_timestamps [of "wit_event EventCreate ''i'' 1 ''v''" "wit_event EventDelete ''i'' 2 []" NewTree]
  by (simp add: wit_event_def)

end
