(* ===== verification/Base_Journal.thy ===== *)
theory Base_Journal
  imports Base_Tree
begin

text \<open>
  The append-only journal (\<^verbatim>\<open>internal/base/journal/journal.go\<close> and \<^verbatim>\<open>sqlite.go\<close>): the hash
  chain, the in-memory journal, the SQLite journal over a table with the schema's keys, and chain
  verification. SHA-256 in hexadecimal and \<^verbatim>\<open>json.Marshal\<close> of an event are the arguments \<open>sha\<close>
  and \<open>marshal\<close>; \<open>flt\<close> names the SQL statements of a call that the database fails to execute. The
  column \<^verbatim>\<open>created_at\<close> is assumed to give the written instant back: the text form drops the zone and
  holds years up to 9999. An iteration over rows that ends early without a reported error is not
  represented. A mutex makes each method one atomic step. The locale \<open>event_journal\<close> states what the \<^verbatim>\<open>Journal\<close>
  interface promises its readers; both implementations are interpretations of it.
\<close>

datatype journal_error =
    InvalidEventID EventID | InvalidItemID ItemID | InvalidEventType EventType | NoOwnerID
  | SeqNotGreater int64 int64 | ParentMismatch EventID EventID ItemID
  | NegativeCursor int64 | CursorExceedsHead int64 int64
  | ChainSeq int64 int64 | ChainParent EventID EventID EventID ItemID
  | ChainParentMissing EventID | ChainHash EventID string string | ChainUnreadable
  | ReadHeadFailed | ReadLastFailed | ReadParentHashFailed | InsertFailed | CursorWriteFailed

record Entry =
  en_Event :: Event
  en_Hash :: string

abbreviation en_seq :: "Entry \<Rightarrow> int64" where "en_seq e \<equiv> e_CursorSeq (en_Event e)"
abbreviation en_item :: "Entry \<Rightarrow> ItemID" where "en_item e \<equiv> e_ItemID (en_Event e)"
abbreviation en_id :: "Entry \<Rightarrow> EventID" where "en_id e \<equiv> e_EventID (en_Event e)"

type_synonym hash_fun = "string \<Rightarrow> string"
type_synonym event_codec = "Event \<Rightarrow> string"

subsection \<open>The hash chain\<close>

definition computeHash :: "hash_fun \<Rightarrow> event_codec \<Rightarrow> Event \<Rightarrow> string \<Rightarrow> string" where
  "computeHash sha marshal evt parentHash = sha (parentHash @ marshal evt)"

definition validateEvent :: "Event \<Rightarrow> journal_error option" where
  "validateEvent evt =
     (if \<not> EventID_Valid (e_EventID evt) then Some (InvalidEventID (e_EventID evt))
      else if \<not> ItemID_Valid (e_ItemID evt) then Some (InvalidItemID (e_ItemID evt))
      else if \<not> EventType_Valid (e_EventType evt) then Some (InvalidEventType (e_EventType evt))
      else if e_OwnerID evt = '''' then Some NoOwnerID
      else None)"

record vstate =
  byID :: "EventID \<rightharpoonup> Entry"
  vLastByItem :: "ItemID \<rightharpoonup> EventID"
  vLastSeq :: int64

definition verify_step :: "hash_fun \<Rightarrow> event_codec \<Rightarrow> vstate \<Rightarrow> Entry \<Rightarrow> journal_error + vstate" where
  "verify_step sha marshal st e =
     (let evt = en_Event e; expectedParent = getz '''' (vLastByItem st) (e_ItemID evt) in
      if e_CursorSeq evt \<le> vLastSeq st then Inl (ChainSeq (e_CursorSeq evt) (vLastSeq st))
      else if e_ParentEventID evt \<noteq> expectedParent
        then Inl (ChainParent (e_EventID evt) (e_ParentEventID evt) expectedParent (e_ItemID evt))
      else if expectedParent \<noteq> '''' \<and> byID st expectedParent = None
        then Inl (ChainParentMissing expectedParent)
      else let parentHash = (if expectedParent \<noteq> ''''
                 then (case byID st expectedParent of None \<Rightarrow> '''' | Some parent \<Rightarrow> en_Hash parent) else '''');
               want = computeHash sha marshal evt parentHash in
        if en_Hash e \<noteq> want then Inl (ChainHash (e_EventID evt) (en_Hash e) want)
        else Inr \<lparr>byID = (byID st)(e_EventID evt \<mapsto> e),
                  vLastByItem = (vLastByItem st)(e_ItemID evt \<mapsto> e_EventID evt),
                  vLastSeq = e_CursorSeq evt\<rparr>)"

definition verify_start :: vstate where
  "verify_start = \<lparr>byID = Map.empty, vLastByItem = Map.empty, vLastSeq = -1\<rparr>"

definition verifyChain :: "hash_fun \<Rightarrow> event_codec \<Rightarrow> Entry list \<Rightarrow> journal_error option" where
  "verifyChain sha marshal entries =
     (case run_steps (verify_step sha marshal) verify_start entries of Inl e \<Rightarrow> Some e | Inr _ \<Rightarrow> None)"

definition Events :: "Entry list \<Rightarrow> Event list" where
  "Events entries = map en_Event entries"

subsection \<open>The in-memory journal\<close>

record MemJournal =
  mj_entries :: "Entry list"
  mj_lastByItem :: "ItemID \<rightharpoonup> EventID"
  mj_lastSeq :: int64
  mj_cursors :: "string \<rightharpoonup> int64"

definition NewMemJournal :: MemJournal where
  "NewMemJournal = \<lparr>mj_entries = [], mj_lastByItem = Map.empty, mj_lastSeq = 0, mj_cursors = Map.empty\<rparr>"

definition last_for_item :: "Entry list \<Rightarrow> ItemID \<Rightarrow> Entry option" where
  "last_for_item entries item = find (\<lambda>e. en_item e = item) (rev entries)"

definition MemJournal_Append ::
  "hash_fun \<Rightarrow> event_codec \<Rightarrow> MemJournal \<Rightarrow> Event \<Rightarrow> journal_error + Entry \<times> MemJournal" where
  "MemJournal_Append sha marshal j evt =
     (case validateEvent evt of Some err \<Rightarrow> Inl err | None \<Rightarrow>
      let evt1 = (if e_CursorSeq evt = 0 then evt\<lparr>e_CursorSeq := add64 (mj_lastSeq j) 1\<rparr> else evt) in
      if e_CursorSeq evt1 \<le> mj_lastSeq j then Inl (SeqNotGreater (e_CursorSeq evt1) (mj_lastSeq j))
      else let expectedParent = getz '''' (mj_lastByItem j) (e_ItemID evt1) in
        if e_ParentEventID evt1 \<noteq> '''' \<and> expectedParent \<noteq> '''' \<and> e_ParentEventID evt1 \<noteq> expectedParent
          then Inl (ParentMismatch (e_ParentEventID evt1) expectedParent (e_ItemID evt1))
        else let evt2 = (if e_ParentEventID evt1 = '''' then evt1\<lparr>e_ParentEventID := expectedParent\<rparr> else evt1);
                 parentHash = (if expectedParent \<noteq> ''''
                   then (case last_for_item (mj_entries j) (e_ItemID evt2) of None \<Rightarrow> '''' | Some e \<Rightarrow> en_Hash e)
                   else '''');
                 entry = \<lparr>en_Event = evt2, en_Hash = computeHash sha marshal evt2 parentHash\<rparr>
          in Inr (entry, j\<lparr>mj_entries := mj_entries j @ [entry],
                           mj_lastByItem := (mj_lastByItem j)(e_ItemID evt2 \<mapsto> e_EventID evt2),
                           mj_lastSeq := e_CursorSeq evt2\<rparr>))"

definition MemJournal_Entries :: "MemJournal \<Rightarrow> Entry list" where
  "MemJournal_Entries j = go_sort en_seq (mj_entries j)"

definition MemJournal_EntriesUpTo :: "MemJournal \<Rightarrow> int64 \<Rightarrow> Entry list" where
  "MemJournal_EntriesUpTo j maxSeq = go_sort en_seq (filter (\<lambda>e. en_seq e \<le> maxSeq) (mj_entries j))"

definition MemJournal_Cursor :: "MemJournal \<Rightarrow> string \<Rightarrow> int64" where
  "MemJournal_Cursor j deviceID = getz 0 (mj_cursors j) deviceID"

definition MemJournal_SetCursor :: "MemJournal \<Rightarrow> string \<Rightarrow> int64 \<Rightarrow> journal_error + MemJournal" where
  "MemJournal_SetCursor j deviceID sq =
     (if sq < 0 then Inl (NegativeCursor sq)
      else if sq > mj_lastSeq j then Inl (CursorExceedsHead sq (mj_lastSeq j))
      else Inr (j\<lparr>mj_cursors := (mj_cursors j)(deviceID \<mapsto> sq)\<rparr>))"

definition MemJournal_VerifyChain :: "hash_fun \<Rightarrow> event_codec \<Rightarrow> MemJournal \<Rightarrow> journal_error option" where
  "MemJournal_VerifyChain sha marshal j = verifyChain sha marshal (mj_entries j)"

subsection \<open>The SQLite journal\<close>

text \<open>The table \<^verbatim>\<open>journal_events\<close> is the list of its rows, oldest insertion first; \<^verbatim>\<open>event_id\<close> is its
  primary key and \<^verbatim>\<open>cursor_seq\<close> is unique. A stored time stamp reads back as the same instant.\<close>

record SQLiteJournal =
  journal_events :: "Entry list"
  device_cursors :: "string \<rightharpoonup> int64"

datatype sql_stmt = SelectHead | SelectLastByItem | SelectParentHash | InsertEvent
  | SelectAll | SelectUpTo | SelectCursor | UpsertCursor

type_synonym fault = "sql_stmt \<Rightarrow> bool"

definition sql_head :: "Entry list \<Rightarrow> int64" where
  "sql_head rows = (case rows of [] \<Rightarrow> 0 | r # rs \<Rightarrow> foldl max (en_seq r) (map en_seq rs))"

definition sql_last_by_item :: "Entry list \<Rightarrow> ItemID \<Rightarrow> EventID option" where
  "sql_last_by_item rows item =
     (case rev (go_sort en_seq (filter (\<lambda>e. en_item e = item) rows)) of [] \<Rightarrow> None | r # _ \<Rightarrow> Some (en_id r))"

definition sql_hash_of :: "Entry list \<Rightarrow> EventID \<Rightarrow> string option" where
  "sql_hash_of rows i = map_option en_Hash (find (\<lambda>e. en_id e = i) rows)"

definition sql_insert_ok :: "Entry list \<Rightarrow> Entry \<Rightarrow> bool" where
  "sql_insert_ok rows e \<longleftrightarrow> (\<forall>r \<in> set rows. en_id r \<noteq> en_id e \<and> en_seq r \<noteq> en_seq e)"

definition SQLiteJournal_Append ::
  "fault \<Rightarrow> hash_fun \<Rightarrow> event_codec \<Rightarrow> SQLiteJournal \<Rightarrow> Event \<Rightarrow> journal_error + Entry \<times> SQLiteJournal" where
  "SQLiteJournal_Append flt sha marshal j evt =
     (case validateEvent evt of Some err \<Rightarrow> Inl err | None \<Rightarrow>
      if flt SelectHead then Inl ReadHeadFailed
      else let head = sql_head (journal_events j);
               evt1 = (if e_CursorSeq evt = 0 then evt\<lparr>e_CursorSeq := add64 head 1\<rparr> else evt) in
      if e_CursorSeq evt1 \<le> head then Inl (SeqNotGreater (e_CursorSeq evt1) head)
      else if flt SelectLastByItem then Inl ReadLastFailed
      else let expectedParent = (case sql_last_by_item (journal_events j) (e_ItemID evt1) of
                 None \<Rightarrow> '''' | Some p \<Rightarrow> p) in
      if e_ParentEventID evt1 \<noteq> '''' \<and> expectedParent \<noteq> '''' \<and> e_ParentEventID evt1 \<noteq> expectedParent
        then Inl (ParentMismatch (e_ParentEventID evt1) expectedParent (e_ItemID evt1))
      else let evt2 = (if e_ParentEventID evt1 = '''' then evt1\<lparr>e_ParentEventID := expectedParent\<rparr> else evt1);
               ph = (if expectedParent \<noteq> ''''
                 then (if flt SelectParentHash then None else sql_hash_of (journal_events j) expectedParent)
                 else Some '''') in
        (case ph of None \<Rightarrow> Inl ReadParentHashFailed | Some parentHash \<Rightarrow>
         let entry = \<lparr>en_Event = evt2, en_Hash = computeHash sha marshal evt2 parentHash\<rparr> in
         if flt InsertEvent \<or> \<not> sql_insert_ok (journal_events j) entry then Inl InsertFailed
         else Inr (entry, j\<lparr>journal_events := journal_events j @ [entry]\<rparr>)))"

text \<open>\<^verbatim>\<open>scanEntries\<close> starts from a nil slice, so an empty table reads as nil, as a failed query does.\<close>

definition scanEntries :: "Entry list \<Rightarrow> Entry list option" where
  "scanEntries rows = (if rows = [] then None else Some (go_sort en_seq rows))"

definition SQLiteJournal_Entries :: "fault \<Rightarrow> SQLiteJournal \<Rightarrow> Entry list option" where
  "SQLiteJournal_Entries flt j =
     (if flt SelectAll then None else scanEntries (go_sort en_seq (journal_events j)))"

definition SQLiteJournal_EntriesUpTo :: "fault \<Rightarrow> SQLiteJournal \<Rightarrow> int64 \<Rightarrow> Entry list option" where
  "SQLiteJournal_EntriesUpTo flt j maxSeq =
     (if flt SelectUpTo then None
      else scanEntries (go_sort en_seq (filter (\<lambda>e. en_seq e \<le> maxSeq) (journal_events j))))"

definition SQLiteJournal_Cursor :: "fault \<Rightarrow> SQLiteJournal \<Rightarrow> string \<Rightarrow> int64" where
  "SQLiteJournal_Cursor flt j deviceID =
     (if flt SelectCursor then 0 else (case device_cursors j deviceID of None \<Rightarrow> 0 | Some sq \<Rightarrow> sq))"

definition SQLiteJournal_SetCursor ::
  "fault \<Rightarrow> SQLiteJournal \<Rightarrow> string \<Rightarrow> int64 \<Rightarrow> journal_error + SQLiteJournal" where
  "SQLiteJournal_SetCursor flt j deviceID sq =
     (if sq < 0 then Inl (NegativeCursor sq)
      else if flt SelectHead then Inl ReadHeadFailed
      else if sq > sql_head (journal_events j) then Inl (CursorExceedsHead sq (sql_head (journal_events j)))
      else if flt UpsertCursor then Inl CursorWriteFailed
      else Inr (j\<lparr>device_cursors := (device_cursors j)(deviceID \<mapsto> sq)\<rparr>))"

definition SQLiteJournal_VerifyChain ::
  "fault \<Rightarrow> hash_fun \<Rightarrow> event_codec \<Rightarrow> SQLiteJournal \<Rightarrow> journal_error option" where
  "SQLiteJournal_VerifyChain flt sha marshal j =
     (case SQLiteJournal_Entries flt j of
        None \<Rightarrow> Some ChainUnreadable
      | Some entries \<Rightarrow> verifyChain sha marshal entries)"

definition NewSQLiteJournal :: SQLiteJournal where
  "NewSQLiteJournal = \<lparr>journal_events = [], device_cursors = Map.empty\<rparr>"

subsection \<open>Rows in cursor order\<close>

definition head_of :: "Entry list \<Rightarrow> int64" where
  "head_of es = (if es = [] then 0 else en_seq (last es))"

definition rows_ok :: "Entry list \<Rightarrow> bool" where
  "rows_ok es \<longleftrightarrow> sorted_wrt (<) (map en_seq es) \<and> (\<forall>e \<in> set es. 0 < en_seq e \<and> validateEvent (en_Event e) = None)"

lemma rows_ok_Nil [simp]: "rows_ok []"
  by (simp add: rows_ok_def)

lemma rows_ok_sorted: "rows_ok es \<Longrightarrow> sorted (map en_seq es)"
  by (simp add: rows_ok_def strict_sorted_imp_sorted)

lemma rows_ok_distinct: "rows_ok es \<Longrightarrow> distinct (map en_seq es)"
  by (simp add: rows_ok_def strict_sorted_iff)

lemma rows_ok_head_nonneg: "rows_ok es \<Longrightarrow> 0 \<le> head_of es"
  by (cases es rule: rev_cases) (auto simp: head_of_def rows_ok_def)

lemma rows_ok_le_head: "rows_ok es \<Longrightarrow> e \<in> set es \<Longrightarrow> en_seq e \<le> head_of es"
  by (cases es rule: rev_cases) (auto simp: head_of_def rows_ok_def sorted_wrt_append)

lemma head_of_snoc [simp]: "head_of (es @ [e]) = en_seq e"
  by (simp add: head_of_def)

lemma rows_ok_snoc:
  "rows_ok es \<Longrightarrow> head_of es < en_seq e \<Longrightarrow> validateEvent (en_Event e) = None \<Longrightarrow> rows_ok (es @ [e])"
  using rows_ok_le_head [of es] rows_ok_head_nonneg [of es]
  by (force simp: rows_ok_def sorted_wrt_append)

lemma go_sort_rows: "rows_ok es \<Longrightarrow> go_sort en_seq es = es"
  by (simp add: go_sort_id rows_ok_sorted)

lemma sql_head_eq: "rows_ok es \<Longrightarrow> sql_head es = head_of es"
proof (induction es rule: rev_induct)
  case (snoc e es)
  then have "rows_ok es" by (auto simp: rows_ok_def sorted_wrt_append)
  with snoc.IH have "sql_head es = head_of es" by simp
  moreover have "es \<noteq> [] \<Longrightarrow> en_seq (last es) < en_seq e" "0 < en_seq e"
    using snoc.prems by (auto simp: rows_ok_def sorted_wrt_append)
  moreover have "es \<noteq> [] \<Longrightarrow> sql_head (es @ [e]) = max (sql_head es) (en_seq e)"
    by (cases es) (simp_all add: sql_head_def)
  ultimately show ?case by (cases "es = []") (simp_all add: sql_head_def head_of_def)
qed (simp add: sql_head_def head_of_def)

lemma last_for_item_snoc [simp]:
  "last_for_item (es @ [e]) k = (if en_item e = k then Some e else last_for_item es k)"
  by (simp add: last_for_item_def)

lemma last_for_item_Nil [simp]: "last_for_item [] k = None"
  by (simp add: last_for_item_def)

lemma last_for_item_set: "last_for_item es k = Some e \<Longrightarrow> e \<in> set es \<and> en_item e = k"
  by (induction es rule: rev_induct) (auto split: if_splits)

lemma sql_last_eq:
  assumes "rows_ok es"
  shows "sql_last_by_item es k = map_option en_id (last_for_item es k)"
proof -
  have "sorted (map en_seq (filter (\<lambda>e. en_item e = k) es))"
    using rows_ok_sorted [OF assms] by (rule sorted_filter)
  then have "go_sort en_seq (filter (\<lambda>e. en_item e = k) es) = filter (\<lambda>e. en_item e = k) es"
    by (rule go_sort_id)
  moreover have "(case rev (filter (\<lambda>e. en_item e = k) es) of [] \<Rightarrow> None | r # _ \<Rightarrow> Some (en_id r))
      = map_option en_id (last_for_item es k)"
    by (induction es rule: rev_induct) simp_all
  ultimately show ?thesis by (simp add: sql_last_by_item_def)
qed

lemma sql_hash_eq: "distinct (map en_id es) \<Longrightarrow> e \<in> set es \<Longrightarrow> sql_hash_of es (en_id e) = Some (en_Hash e)"
  by (induction es) (auto simp: sql_hash_of_def)

lemma validate_nonempty: "validateEvent evt = None \<Longrightarrow> e_EventID evt \<noteq> [] \<and> e_ItemID evt \<noteq> []"
  by (auto simp: validateEvent_def EventID_Valid_def ItemID_Valid_def split: if_splits)

lemma validate_upd [simp]:
  "validateEvent (evt\<lparr>e_CursorSeq := s\<rparr>) = validateEvent evt"
  "validateEvent (evt\<lparr>e_ParentEventID := p\<rparr>) = validateEvent evt"
  by (simp_all add: validateEvent_def)

text \<open>What an append stores, as a function of the stored rows: the same for both journals.\<close>

definition assign_seq :: "int64 \<Rightarrow> Event \<Rightarrow> Event" where
  "assign_seq head evt = (if e_CursorSeq evt = 0 then evt\<lparr>e_CursorSeq := add64 head 1\<rparr> else evt)"

definition parent_of :: "Entry list \<Rightarrow> ItemID \<Rightarrow> EventID" where
  "parent_of es k = (case last_for_item es k of None \<Rightarrow> [] | Some e \<Rightarrow> en_id e)"

definition parent_hash :: "Entry list \<Rightarrow> ItemID \<Rightarrow> string" where
  "parent_hash es k = (case last_for_item es k of None \<Rightarrow> [] | Some e \<Rightarrow> en_Hash e)"

definition stored_entry :: "hash_fun \<Rightarrow> event_codec \<Rightarrow> Entry list \<Rightarrow> Event \<Rightarrow> Entry" where
  "stored_entry sha marshal es evt =
     (let evt1 = assign_seq (head_of es) evt;
          evt2 = (if e_ParentEventID evt1 = [] then evt1\<lparr>e_ParentEventID := parent_of es (e_ItemID evt)\<rparr> else evt1)
      in \<lparr>en_Event = evt2, en_Hash = computeHash sha marshal evt2 (parent_hash es (e_ItemID evt))\<rparr>)"

definition append_refusal :: "Entry list \<Rightarrow> Event \<Rightarrow> journal_error option" where
  "append_refusal es evt =
     (let evt1 = assign_seq (head_of es) evt; p = parent_of es (e_ItemID evt) in
      case validateEvent evt of Some err \<Rightarrow> Some err
      | None \<Rightarrow> if e_CursorSeq evt1 \<le> head_of es then Some (SeqNotGreater (e_CursorSeq evt1) (head_of es))
          else if e_ParentEventID evt \<noteq> [] \<and> p \<noteq> [] \<and> e_ParentEventID evt \<noteq> p
            then Some (ParentMismatch (e_ParentEventID evt) p (e_ItemID evt))
          else None)"

lemma assign_seq_simps [simp]:
  "e_ItemID (assign_seq h evt) = e_ItemID evt" "e_EventID (assign_seq h evt) = e_EventID evt"
  "e_ParentEventID (assign_seq h evt) = e_ParentEventID evt" "validateEvent (assign_seq h evt) = validateEvent evt"
  by (simp_all add: assign_seq_def)

lemma stored_entry_simps [simp]:
  "en_id (stored_entry sha marshal es evt) = e_EventID evt"
  "en_item (stored_entry sha marshal es evt) = e_ItemID evt"
  "en_seq (stored_entry sha marshal es evt) = e_CursorSeq (assign_seq (head_of es) evt)"
  "validateEvent (en_Event (stored_entry sha marshal es evt)) = validateEvent evt"
  by (simp_all add: stored_entry_def Let_def)

lemma append_refusal_None:
  "append_refusal es evt = None \<Longrightarrow> validateEvent evt = None \<and> head_of es < e_CursorSeq (assign_seq (head_of es) evt)
     \<and> (e_ParentEventID evt = [] \<or> parent_of es (e_ItemID evt) = [] \<or> e_ParentEventID evt = parent_of es (e_ItemID evt))"
  by (auto simp: append_refusal_def Let_def split: option.splits if_splits)

subsection \<open>Invariants and the two appends\<close>

definition mem_inv :: "MemJournal \<Rightarrow> bool" where
  "mem_inv j \<longleftrightarrow> rows_ok (mj_entries j) \<and> mj_lastSeq j = head_of (mj_entries j)
     \<and> mj_lastByItem j = (\<lambda>k. map_option en_id (last_for_item (mj_entries j) k))
     \<and> (\<forall>d s. mj_cursors j d = Some s \<longrightarrow> 0 \<le> s \<and> s \<le> mj_lastSeq j)"

definition sq_inv :: "SQLiteJournal \<Rightarrow> bool" where
  "sq_inv j \<longleftrightarrow> rows_ok (journal_events j) \<and> distinct (map en_id (journal_events j))
     \<and> (\<forall>d s. device_cursors j d = Some s \<longrightarrow> 0 \<le> s \<and> s \<le> head_of (journal_events j))"

lemma getz_last: "getz [] (\<lambda>k. map_option en_id (last_for_item es k)) k = parent_of es k"
  by (simp add: getz_def parent_of_def split: option.splits)

lemma parent_nonempty:
  "rows_ok es \<Longrightarrow> parent_of es k = [] \<longleftrightarrow> last_for_item es k = None"
  by (auto simp: parent_of_def rows_ok_def split: option.splits dest!: last_for_item_set validate_nonempty)

lemma Mem_Append_eq:
  assumes "mem_inv j"
  shows "MemJournal_Append sha marshal j evt =
     (case append_refusal (mj_entries j) evt of Some err \<Rightarrow> Inl err
      | None \<Rightarrow> let entry = stored_entry sha marshal (mj_entries j) evt in
          Inr (entry, j\<lparr>mj_entries := mj_entries j @ [entry],
             mj_lastByItem := (mj_lastByItem j)(e_ItemID evt \<mapsto> e_EventID evt),
             mj_lastSeq := en_seq entry\<rparr>))"
proof -
  have ls: "mj_lastSeq j = head_of (mj_entries j)"
    and lb: "getz [] (mj_lastByItem j) k = parent_of (mj_entries j) k" for k
    using assms getz_last by (simp_all add: mem_inv_def)
  have pn: "parent_of (mj_entries j) k = [] \<longleftrightarrow> last_for_item (mj_entries j) k = None" for k
    using assms parent_nonempty by (simp add: mem_inv_def)
  show ?thesis
    unfolding MemJournal_Append_def Let_def ls lb assign_seq_def [symmetric]
    by (auto simp: append_refusal_def stored_entry_def parent_hash_def pn Let_def split: option.splits)
qed

lemma insert_ok_iff:
  assumes "rows_ok es" "append_refusal es evt = None"
  shows "sql_insert_ok es (stored_entry sha marshal es evt) \<longleftrightarrow> e_EventID evt \<notin> en_id ` set es"
  using rows_ok_le_head [OF assms(1)] append_refusal_None [OF assms(2)]
  by (force simp: sql_insert_ok_def)

lemma sql_hash_parent:
  assumes "rows_ok es" "distinct (map en_id es)" "parent_of es k \<noteq> []"
  shows "sql_hash_of es (parent_of es k) = Some (parent_hash es k)"
proof -
  obtain e where "last_for_item es k = Some e" using assms parent_nonempty by blast
  then show ?thesis
    using last_for_item_set [of es k e] sql_hash_eq [OF assms(2), of e] by (simp add: parent_of_def parent_hash_def)
qed

lemma parent_hash_Nil: "rows_ok es \<Longrightarrow> parent_of es k = [] \<Longrightarrow> parent_hash es k = []"
  by (simp add: parent_nonempty parent_hash_def)

lemma SQ_Append_eq:
  fixes j :: SQLiteJournal and evt :: Event and sha :: hash_fun and marshal :: event_codec
  assumes "sq_inv j"
  defines "rows \<equiv> journal_events j" and "entry \<equiv> stored_entry sha marshal (journal_events j) evt"
  shows "SQLiteJournal_Append flt sha marshal j evt =
     (case validateEvent evt of Some err \<Rightarrow> Inl err | None \<Rightarrow>
      if flt SelectHead then Inl ReadHeadFailed
      else if e_CursorSeq (assign_seq (head_of rows) evt) \<le> head_of rows
        then Inl (SeqNotGreater (e_CursorSeq (assign_seq (head_of rows) evt)) (head_of rows))
      else if flt SelectLastByItem then Inl ReadLastFailed
      else (case append_refusal rows evt of Some err \<Rightarrow> Inl err | None \<Rightarrow>
        if parent_of rows (e_ItemID evt) \<noteq> [] \<and> flt SelectParentHash then Inl ReadParentHashFailed
        else if flt InsertEvent \<or> e_EventID evt \<in> en_id ` set rows then Inl InsertFailed
        else Inr (entry, j\<lparr>journal_events := rows @ [entry]\<rparr>)))"
proof -
  have ok: "rows_ok rows" and di: "distinct (map en_id rows)" using assms(1) by (simp_all add: sq_inv_def rows_def)
  have h: "sql_head rows = head_of rows" by (rule sql_head_eq [OF ok])
  have p: "(case sql_last_by_item rows k of None \<Rightarrow> [] | Some p \<Rightarrow> p) = parent_of rows k" for k
    by (simp add: sql_last_eq [OF ok] parent_of_def split: option.splits)
  have hp: "parent_of rows k \<noteq> [] \<Longrightarrow> sql_hash_of rows (parent_of rows k) = Some (parent_hash rows k)" for k
    by (rule sql_hash_parent [OF ok di])
  have hn: "parent_of rows k = [] \<Longrightarrow> parent_hash rows k = []" for k by (rule parent_hash_Nil [OF ok])
  have ins: "append_refusal rows evt = None \<Longrightarrow> sql_insert_ok rows entry \<longleftrightarrow> e_EventID evt \<notin> en_id ` set rows"
    using insert_ok_iff [OF ok] by (simp add: entry_def rows_def)
  show ?thesis
  proof (cases "append_refusal rows evt")
    case None
    then show ?thesis
      using append_refusal_None [OF None] ins [OF None, unfolded entry_def stored_entry_def Let_def]
      unfolding SQLiteJournal_Append_def Let_def rows_def [symmetric] h p assign_seq_def [symmetric]
        entry_def stored_entry_def
      by (auto simp: hp hn)
  next
    case (Some err)
    then show ?thesis
      unfolding SQLiteJournal_Append_def Let_def rows_def [symmetric] h p assign_seq_def [symmetric]
      by (auto simp: append_refusal_def Let_def split: option.splits if_splits)
  qed
qed

lemma SQ_Append_Inr:
  assumes "sq_inv j" "SQLiteJournal_Append flt sha marshal j evt = Inr (en, j')"
  shows "append_refusal (journal_events j) evt = None \<and> e_EventID evt \<notin> en_id ` set (journal_events j)
    \<and> en = stored_entry sha marshal (journal_events j) evt
    \<and> j' = j\<lparr>journal_events := journal_events j @ [en]\<rparr>"
  using assms(2) unfolding SQ_Append_eq [OF assms(1)] by (auto split: option.splits if_splits)

lemma Mem_Append_Inr:
  assumes "mem_inv j" "MemJournal_Append sha marshal j evt = Inr (en, j')"
  shows "append_refusal (mj_entries j) evt = None \<and> en = stored_entry sha marshal (mj_entries j) evt
    \<and> j' = j\<lparr>mj_entries := mj_entries j @ [en],
             mj_lastByItem := (mj_lastByItem j)(e_ItemID evt \<mapsto> e_EventID evt), mj_lastSeq := en_seq en\<rparr>"
  using assms(2) unfolding Mem_Append_eq [OF assms(1)] by (auto simp: Let_def split: option.splits)

lemma stored_rows_ok:
  "rows_ok es \<Longrightarrow> append_refusal es evt = None \<Longrightarrow> rows_ok (es @ [stored_entry sha marshal es evt])"
  using append_refusal_None [of es evt] by (intro rows_ok_snoc) simp_all

lemma Mem_Append_inv [inv_intros]:
  assumes "mem_inv j" "MemJournal_Append sha marshal j evt = Inr (en, j')"
  shows "mem_inv j'"
  using Mem_Append_Inr [OF assms] assms(1) stored_rows_ok [of "mj_entries j" evt sha marshal]
    append_refusal_None [of "mj_entries j" evt]
  by (force simp: mem_inv_def)

lemma SQ_Append_inv [inv_intros]:
  assumes "sq_inv j" "SQLiteJournal_Append flt sha marshal j evt = Inr (en, j')"
  shows "sq_inv j'"
  using SQ_Append_Inr [OF assms] assms(1) stored_rows_ok [of "journal_events j" evt sha marshal]
    append_refusal_None [of "journal_events j" evt]
  by (force simp: sq_inv_def)

lemma mem_inv_New [simp]: "mem_inv NewMemJournal"
  by (simp add: mem_inv_def NewMemJournal_def head_of_def)

lemma sq_inv_New [simp]: "sq_inv NewSQLiteJournal"
  by (simp add: sq_inv_def NewSQLiteJournal_def)

subsection \<open>The interface\<close>

text \<open>
  What a reader of a journal relies on: a successful append adds one entry behind the head and
  leaves the earlier entries and the cursors alone; a cursor write moves one cursor to a position
  the journal has reached.
\<close>

locale event_journal =
  fixes append_ev :: "'j \<Rightarrow> Event \<Rightarrow> journal_error + Entry \<times> 'j"
    and rows :: "'j \<Rightarrow> Entry list"
    and read_entries :: "'j \<Rightarrow> Entry list"
    and cursor :: "'j \<Rightarrow> string \<Rightarrow> int64"
    and set_cursor :: "'j \<Rightarrow> string \<Rightarrow> int64 \<Rightarrow> journal_error + 'j"
    and jinv :: "'j \<Rightarrow> bool"
  assumes append_inv: "jinv j \<Longrightarrow> append_ev j evt = Inr (en, j') \<Longrightarrow> jinv j'"
    and append_rows: "jinv j \<Longrightarrow> append_ev j evt = Inr (en, j') \<Longrightarrow> rows j' = rows j @ [en]"
    and append_cursor: "jinv j \<Longrightarrow> append_ev j evt = Inr (en, j') \<Longrightarrow> cursor j' = cursor j"
    and set_inv: "jinv j \<Longrightarrow> set_cursor j d s = Inr j' \<Longrightarrow> jinv j'"
    and set_rows: "jinv j \<Longrightarrow> set_cursor j d s = Inr j' \<Longrightarrow> rows j' = rows j"
    and set_cursor_val: "jinv j \<Longrightarrow> set_cursor j d s = Inr j' \<Longrightarrow> cursor j' = (cursor j)(d := s)"
    and cursor_bound: "jinv j \<Longrightarrow> 0 \<le> cursor j d \<and> cursor j d \<le> head_of (rows j)"
    and jinv_rows: "jinv j \<Longrightarrow> rows_ok (rows j)"
    and read_rows: "jinv j \<Longrightarrow> read_entries j = rows j"
begin

lemma run_extends:
  "jinv j \<Longrightarrow> run_steps (\<lambda>j evt. state_of (append_ev j evt)) j evts = Inr j' \<Longrightarrow>
   jinv j' \<and> (\<exists>new. rows j' = rows j @ new \<and> length new = length evts)"
proof (induction evts arbitrary: j)
  case (Cons evt evts)
  then obtain en k where k: "append_ev j evt = Inr (en, k)"
      "run_steps (\<lambda>j evt. state_of (append_ev j evt)) k evts = Inr j'"
    by (cases "append_ev j evt") auto
  then have "jinv k" "rows k = rows j @ [en]" using Cons.prems append_inv append_rows by blast+
  with Cons.IH [OF _ k(2)] show ?case by (metis append.assoc append_Cons append_Nil length_Cons)
qed simp

text \<open>A snapshot at the old head is the same before and after any number of appends.\<close>

lemma snapshot_stable:
  assumes "jinv j" "run_steps (\<lambda>j evt. state_of (append_ev j evt)) j evts = Inr j'"
  shows "DeriveUpTo unmarshal (Events (read_entries j')) (head_of (rows j)) = Derive unmarshal (Events (read_entries j))"
proof -
  obtain new where n: "jinv j'" "rows j' = rows j @ new" using run_extends [OF assms] by blast
  have "filter (\<lambda>e. en_seq e \<le> head_of (rows j)) (rows j) = rows j"
    using rows_ok_le_head [OF jinv_rows [OF assms(1)]] by (simp add: filter_id_conv)
  moreover have "filter (\<lambda>e. en_seq e \<le> head_of (rows j)) new = []"
  proof -
    have "\<forall>x \<in> set (rows j). \<forall>y \<in> set new. en_seq x < en_seq y" "\<forall>y \<in> set new. 0 < en_seq y"
      using jinv_rows [OF n(1)] n(2) by (simp_all add: rows_ok_def sorted_wrt_append)
    then show ?thesis by (auto simp: filter_empty_conv head_of_def not_le)
  qed
  ultimately have "filter (\<lambda>e. e_CursorSeq e \<le> head_of (rows j)) (Events (rows j')) = Events (rows j)"
    using n(2) by (simp add: Events_def filter_map comp_def)
  then show ?thesis using assms(1) n(1) by (simp add: DeriveUpTo_eq read_rows)
qed

lemma cursor_within: "jinv j \<Longrightarrow> set_cursor j d s = Inr j' \<Longrightarrow> 0 \<le> s \<and> s \<le> head_of (rows j)"
  using cursor_bound [of j' d] set_inv set_rows set_cursor_val by fastforce

end

interpretation mem: event_journal "MemJournal_Append sha marshal" mj_entries MemJournal_Entries
  MemJournal_Cursor MemJournal_SetCursor mem_inv
proof unfold_locales
  fix j evt en j' assume a: "mem_inv j" "MemJournal_Append sha marshal j evt = Inr (en, j')"
  show "mem_inv j'" by (rule Mem_Append_inv [OF a])
  show "mj_entries j' = mj_entries j @ [en]" "MemJournal_Cursor j' = MemJournal_Cursor j"
    using Mem_Append_Inr [OF a] by (auto simp: MemJournal_Cursor_def fun_eq_iff)
next
  fix j d s j' assume a: "mem_inv j" "MemJournal_SetCursor j d s = Inr j'"
  then show "mem_inv j'" "mj_entries j' = mj_entries j" "MemJournal_Cursor j' = (MemJournal_Cursor j)(d := s)"
    by (auto simp: MemJournal_SetCursor_def mem_inv_def MemJournal_Cursor_def fun_eq_iff split: if_splits)
next
  fix j d assume "mem_inv j"
  then show "0 \<le> MemJournal_Cursor j d \<and> MemJournal_Cursor j d \<le> head_of (mj_entries j)"
    "rows_ok (mj_entries j)" "MemJournal_Entries j = mj_entries j"
    using rows_ok_head_nonneg [of "mj_entries j"]
    by (auto simp: mem_inv_def MemJournal_Cursor_def MemJournal_Entries_def getz_def go_sort_rows split: option.splits)
qed

definition sq_read :: "SQLiteJournal \<Rightarrow> Entry list" where
  "sq_read j = (case SQLiteJournal_Entries (\<lambda>_. False) j of None \<Rightarrow> [] | Some es \<Rightarrow> es)"

interpretation sq: event_journal "SQLiteJournal_Append flt sha marshal" journal_events sq_read
  "SQLiteJournal_Cursor (\<lambda>_. False)" "SQLiteJournal_SetCursor flt" sq_inv
proof unfold_locales
  fix j evt en j' assume a: "sq_inv j" "SQLiteJournal_Append flt sha marshal j evt = Inr (en, j')"
  show "sq_inv j'" by (rule SQ_Append_inv [OF a])
  show "journal_events j' = journal_events j @ [en]"
    "SQLiteJournal_Cursor (\<lambda>_. False) j' = SQLiteJournal_Cursor (\<lambda>_. False) j"
    using SQ_Append_Inr [OF a] by (auto simp: SQLiteJournal_Cursor_def fun_eq_iff)
next
  fix j d s j' assume a: "sq_inv j" "SQLiteJournal_SetCursor flt j d s = Inr j'"
  then show "sq_inv j'" "journal_events j' = journal_events j"
    "SQLiteJournal_Cursor (\<lambda>_. False) j' = (SQLiteJournal_Cursor (\<lambda>_. False) j)(d := s)"
    by (auto simp: SQLiteJournal_SetCursor_def sq_inv_def SQLiteJournal_Cursor_def fun_eq_iff sql_head_eq split: if_splits)
next
  fix j d assume "sq_inv j"
  then show "0 \<le> SQLiteJournal_Cursor (\<lambda>_. False) j d \<and> SQLiteJournal_Cursor (\<lambda>_. False) j d \<le> head_of (journal_events j)"
    "rows_ok (journal_events j)" "sq_read j = journal_events j"
    using rows_ok_head_nonneg [of "journal_events j"]
    by (auto simp: sq_inv_def SQLiteJournal_Cursor_def sq_read_def SQLiteJournal_Entries_def scanEntries_def
        go_sort_rows split: option.splits)
qed

subsection \<open>Verification of the chain\<close>

lemma verifyChain_None_iff:
  "verifyChain sha marshal es = None \<longleftrightarrow> (\<exists>st. run_steps (verify_step sha marshal) verify_start es = Inr st)"
  by (auto simp: verifyChain_def split: sum.splits)

lemma verify_step_Inr:
  "verify_step sha marshal st e = Inr st' \<Longrightarrow>
     st' = \<lparr>byID = (byID st)(en_id e \<mapsto> e), vLastByItem = (vLastByItem st)(en_item e \<mapsto> en_id e), vLastSeq = en_seq e\<rparr>"
  by (auto simp: verify_step_def Let_def split: if_splits)

lemma verify_run_state:
  "run_steps (verify_step sha marshal) verify_start es = Inr st \<Longrightarrow>
     byID st = (\<lambda>i. find (\<lambda>e. en_id e = i) (rev es))
     \<and> vLastByItem st = (\<lambda>k. map_option en_id (last_for_item es k))
     \<and> vLastSeq st = (if es = [] then -1 else en_seq (last es))"
proof (induction es arbitrary: st rule: rev_induct)
  case (snoc e es)
  then obtain u where u: "run_steps (verify_step sha marshal) verify_start es = Inr u" "verify_step sha marshal u e = Inr st"
    by (auto simp: run_steps_append split: sum.splits)
  from verify_step_Inr [OF u(2)] snoc.IH [OF u(1)] show ?case by (auto simp: fun_eq_iff)
qed (simp add: verify_start_def)

lemma find_rev_distinct:
  "distinct (map en_id es) \<Longrightarrow> x \<in> set es \<Longrightarrow> find (\<lambda>e. en_id e = en_id x) (rev es) = Some x"
  by (induction es rule: rev_induct) (auto simp: image_iff)

text \<open>Where the event identifiers are distinct and not empty, the chain verifies exactly when every
  entry sits behind its predecessor, names its item's last event and carries the hash of that
  event's hash and its own content.\<close>

lemma verify_snoc:
  assumes "distinct (map en_id es)" "\<forall>e \<in> set es. en_id e \<noteq> []"
  shows "verifyChain sha marshal (es @ [e]) = None \<longleftrightarrow>
     verifyChain sha marshal es = None \<and> (if es = [] then -1 else en_seq (last es)) < en_seq e
     \<and> e_ParentEventID (en_Event e) = parent_of es (en_item e)
     \<and> en_Hash e = computeHash sha marshal (en_Event e) (parent_hash es (en_item e))"
proof (cases "run_steps (verify_step sha marshal) verify_start es")
  case (Inr st)
  note st = verify_run_state [OF Inr]
  have p: "getz [] (vLastByItem st) (en_item e) = parent_of es (en_item e)"
    using st getz_last by simp
  show ?thesis
  proof (cases "last_for_item es (en_item e)")
    case None
    then have "parent_of es (en_item e) = []" "parent_hash es (en_item e) = []"
      by (simp_all add: parent_of_def parent_hash_def)
    then show ?thesis
      using st p Inr by (auto simp: verifyChain_None_iff run_steps_append verify_step_def Let_def)
  next
    case (Some x)
    then have x: "x \<in> set es" "parent_of es (en_item e) = en_id x" "parent_hash es (en_item e) = en_Hash x" "en_id x \<noteq> []"
      using last_for_item_set [OF Some] assms(2) by (auto simp: parent_of_def parent_hash_def)
    then have "byID st (en_id x) = Some x" using st find_rev_distinct [OF assms(1) x(1)] by simp
    then show ?thesis
      using st p x Inr by (auto simp: verifyChain_None_iff run_steps_append verify_step_def Let_def)
  qed
qed (simp add: verifyChain_def run_steps_append)

lemma stored_verifies:
  assumes "rows_ok es" "distinct (map en_id es)" "verifyChain sha marshal es = None"
    and "append_refusal es evt = None" "e_ParentEventID evt = [] \<or> parent_of es (e_ItemID evt) \<noteq> []"
  shows "verifyChain sha marshal (es @ [stored_entry sha marshal es evt]) = None"
proof -
  have ne: "\<forall>e \<in> set es. en_id e \<noteq> []" using assms(1) by (auto simp: rows_ok_def dest: validate_nonempty)
  have "(if es = [] then -1 else en_seq (last es)) < e_CursorSeq (assign_seq (head_of es) evt)"
    using append_refusal_None [OF assms(4)] by (auto simp: head_of_def split: if_splits)
  moreover have "e_ParentEventID (en_Event (stored_entry sha marshal es evt)) = parent_of es (e_ItemID evt)"
    using append_refusal_None [OF assms(4)] assms(5) by (auto simp: stored_entry_def Let_def)
  moreover have "en_Hash (stored_entry sha marshal es evt)
      = computeHash sha marshal (en_Event (stored_entry sha marshal es evt)) (parent_hash es (e_ItemID evt))"
    by (simp add: stored_entry_def Let_def)
  ultimately show ?thesis using verify_snoc [OF assms(2) ne] assms(3) by simp
qed

fun linked :: "hash_fun \<Rightarrow> event_codec \<Rightarrow> string \<Rightarrow> Entry list \<Rightarrow> bool" where
  "linked sha marshal h [] = True"
| "linked sha marshal h (e # es) = (en_Hash e = computeHash sha marshal (en_Event e) h \<and> linked sha marshal (en_Hash e) es)"

lemma linked_snoc:
  "linked sha marshal h (es @ [e]) \<longleftrightarrow>
     linked sha marshal h es \<and> en_Hash e = computeHash sha marshal (en_Event e) (if es = [] then h else en_Hash (last es))"
  by (induction es arbitrary: h) auto

abbreviation item_rows :: "ItemID \<Rightarrow> Entry list \<Rightarrow> Entry list" where
  "item_rows k es \<equiv> filter (\<lambda>e. en_item e = k) es"

lemma last_for_item_last: "last_for_item es k = (if item_rows k es = [] then None else Some (last (item_rows k es)))"
  by (induction es rule: rev_induct) auto

lemma verified_linked:
  assumes "distinct (map en_id es)" "\<forall>e \<in> set es. en_id e \<noteq> []" "verifyChain sha marshal es = None"
  shows "linked sha marshal [] (item_rows k es)"
  using assms
proof (induction es rule: rev_induct)
  case (snoc e es)
  then have "verifyChain sha marshal es = None"
    "en_Hash e = computeHash sha marshal (en_Event e) (parent_hash es (en_item e))"
    using verify_snoc [of es sha marshal e] by auto
  then show ?case
    using snoc by (auto simp: linked_snoc parent_hash_def last_for_item_last)
qed simp

definition preimages :: "event_codec \<Rightarrow> Entry list \<Rightarrow> string set" where
  "preimages marshal es = {h @ marshal (en_Event e) | h e. e \<in> set es \<and> h \<in> insert [] (en_Hash ` set es)}"

lemma preimages_mem:
  "e \<in> set es \<Longrightarrow> h = [] \<or> h \<in> en_Hash ` set es \<Longrightarrow> h @ marshal (en_Event e) \<in> preimages marshal es"
  "e \<in> set es \<Longrightarrow> marshal (en_Event e) \<in> preimages marshal es"
  unfolding preimages_def by (blast, force)

lemma split_at_brace:
  assumes "a @ CHR ''{'' # x = b @ CHR ''{'' # y" "CHR ''{'' \<notin> set a" "CHR ''{'' \<notin> set b"
  shows "a = b \<and> x = y"
proof -
  have "takeWhile (\<lambda>c. c \<noteq> CHR ''{'') (a @ CHR ''{'' # x) = a"
    "takeWhile (\<lambda>c. c \<noteq> CHR ''{'') (b @ CHR ''{'' # y) = b"
    using assms(2,3) by (auto simp: takeWhile_append)
  then show ?thesis using assms(1) by auto
qed

text \<open>What the chain relies on: a digest is a non-empty string without braces (it is hexadecimal), an
  encoded event starts with a brace (it is a JSON object), the encoding distinguishes the events at
  hand, and the digest has no collision among the strings the two tapes hash.\<close>

definition digest_text :: "hash_fun \<Rightarrow> bool" where
  "digest_text sha \<longleftrightarrow> (\<forall>s. sha s \<noteq> [] \<and> CHR ''{'' \<notin> set (sha s))"

definition json_object :: "event_codec \<Rightarrow> Entry list \<Rightarrow> bool" where
  "json_object marshal es \<longleftrightarrow> (\<forall>e \<in> set es. \<exists>r. marshal (en_Event e) = CHR ''{'' # r)"

definition collision_free :: "hash_fun \<Rightarrow> event_codec \<Rightarrow> Entry list \<Rightarrow> bool" where
  "collision_free sha marshal es \<longleftrightarrow>
     inj_on sha (preimages marshal es) \<and> inj_on marshal (en_Event ` set es)"

lemma linked_hash_text:
  "digest_text sha \<Longrightarrow> linked sha marshal h es \<Longrightarrow> e \<in> set es \<Longrightarrow> en_Hash e \<noteq> [] \<and> CHR ''{'' \<notin> set (en_Hash e)"
  by (induction es arbitrary: h) (auto simp: computeHash_def digest_text_def dest: sym)

lemma linked_last_eq:
  assumes "digest_text sha" "json_object marshal es" "collision_free sha marshal es"
    and "linked sha marshal [] (xs @ [x])" "linked sha marshal [] (ys @ [y])"
    and "set (xs @ [x]) \<subseteq> set es" "set (ys @ [y]) \<subseteq> set es" "en_Hash x = en_Hash y"
  shows "x = y \<and> (if xs = [] then [] else en_Hash (last xs)) = (if ys = [] then [] else en_Hash (last ys))"
proof -
  let ?hx = "if xs = [] then [] else en_Hash (last xs)" and ?hy = "if ys = [] then [] else en_Hash (last ys)"
  have hx: "en_Hash x = sha (?hx @ marshal (en_Event x))" "en_Hash y = sha (?hy @ marshal (en_Event y))"
    using assms(4,5) by (simp_all add: linked_snoc computeHash_def)
  have "?hx @ marshal (en_Event x) \<in> preimages marshal es" "?hy @ marshal (en_Event y) \<in> preimages marshal es"
    using assms(6,7) by (auto simp: preimages_mem subset_iff)
  then have eq: "?hx @ marshal (en_Event x) = ?hy @ marshal (en_Event y)"
    using assms(3,8) hx unfolding collision_free_def inj_on_def by metis
  obtain r s where rs: "marshal (en_Event x) = CHR ''{'' # r" "marshal (en_Event y) = CHR ''{'' # s"
    using assms(2,6,7) unfolding json_object_def by (meson in_set_conv_decomp subset_iff)
  have nb: "CHR ''{'' \<notin> set ?hx" "CHR ''{'' \<notin> set ?hy"
    using linked_hash_text [OF assms(1,4)] linked_hash_text [OF assms(1,5)] by auto
  have "?hx = ?hy" "r = s" using split_at_brace [OF eq [unfolded rs] nb] by simp_all
  moreover have "en_Event x = en_Event y"
    using assms(3,6,7) rs \<open>r = s\<close> by (simp add: collision_free_def inj_on_def)
  ultimately show ?thesis using assms(8) by (simp add: Entry.equality)
qed

lemma linked_inj:
  assumes "digest_text sha" "json_object marshal es" "collision_free sha marshal es"
  shows "linked sha marshal [] xs \<Longrightarrow> linked sha marshal [] ys \<Longrightarrow> set xs \<subseteq> set es \<Longrightarrow> set ys \<subseteq> set es \<Longrightarrow>
    (if xs = [] then [] else en_Hash (last xs)) = (if ys = [] then [] else en_Hash (last ys)) \<Longrightarrow> xs = ys"
proof (induction xs arbitrary: ys rule: rev_induct)
  case Nil
  then show ?case
    using linked_hash_text [OF assms(1) Nil(2), of "last ys"] by (auto split: if_splits)
next
  case (snoc x xs)
  have "ys \<noteq> []" using snoc.prems linked_hash_text [OF assms(1) snoc.prems(1), of x] by auto
  then obtain zs y where ys: "ys = zs @ [y]" by (cases ys rule: rev_cases) auto
  have h: "en_Hash x = en_Hash y" using snoc.prems(5) ys by simp
  have l: "linked sha marshal [] (zs @ [y])" "set (zs @ [y]) \<subseteq> set es" using snoc.prems(2,4) ys by blast+
  have e: "x = y" "(if xs = [] then [] else en_Hash (last xs)) = (if zs = [] then [] else en_Hash (last zs))"
    using linked_last_eq [OF assms snoc.prems(1) l(1) snoc.prems(3) l(2) h] by blast+
  have "linked sha marshal [] xs" "linked sha marshal [] zs" "set xs \<subseteq> set es" "set zs \<subseteq> set es"
    using snoc.prems(1,3) l by (simp_all add: linked_snoc)
  then show ?case using snoc.IH [OF _ _ _ _ e(2)] e(1) ys by blast
qed

subsection \<open>Properties\<close>

text \<open>Both journals are append-only and their snapshots are immutable: after any successful
  sequence of appends the entries are the old entries followed by the new ones, and the tree
  derived at the old head is the tree that was derived before.\<close>

theorem journal_snapshots_immutable:
  assumes "mem_inv m" "run_steps (\<lambda>j evt. state_of (MemJournal_Append sha marshal j evt)) m evts = Inr m'"
    and "sq_inv j" "run_steps (\<lambda>j evt. state_of (SQLiteJournal_Append flt sha marshal j evt)) j evts = Inr j'"
  shows "(\<exists>new. mj_entries m' = mj_entries m @ new) \<and> (\<exists>new. journal_events j' = journal_events j @ new)
    \<and> DeriveUpTo unmarshal (Events (MemJournal_Entries m')) (head_of (mj_entries m)) = Derive unmarshal (Events (MemJournal_Entries m))
    \<and> DeriveUpTo unmarshal (Events (sq_read j')) (head_of (journal_events j)) = Derive unmarshal (Events (sq_read j))"
  using mem.run_extends [OF assms(1,2)] mem.snapshot_stable [OF assms(1,2)]
    sq.run_extends [OF assms(3,4)] sq.snapshot_stable [OF assms(3,4)] by blast

text \<open>C2: the SQLite journal implements the in-memory one. From journals with the same entries, a
  SQLite append stores exactly the entry the in-memory append stores and leads to journals with the
  same entries again; it refuses only what the in-memory journal refuses, with the same error, or an
  event identifier already in the table.\<close>

theorem sqlite_append_refines_memory:
  assumes "mem_inv m" "sq_inv j" "mj_entries m = journal_events j"
  shows "case SQLiteJournal_Append (\<lambda>_. False) sha marshal j evt of
      Inr (en, j') \<Rightarrow> \<exists>m'. MemJournal_Append sha marshal m evt = Inr (en, m') \<and> mj_entries m' = journal_events j'
        \<and> mem_inv m' \<and> sq_inv j'
    | Inl err \<Rightarrow> MemJournal_Append sha marshal m evt = Inl err
        \<or> err = InsertFailed \<and> e_EventID evt \<in> en_id ` set (journal_events j)"
proof (cases "SQLiteJournal_Append (\<lambda>_. False) sha marshal j evt")
  case (Inr r)
  obtain en j' where r: "r = (en, j')" by (cases r)
  have s: "append_refusal (journal_events j) evt = None" "en = stored_entry sha marshal (journal_events j) evt"
      "j' = j\<lparr>journal_events := journal_events j @ [en]\<rparr>"
    using SQ_Append_Inr [OF assms(2)] Inr r by blast+
  have "sq_inv j'" using SQ_Append_inv [OF assms(2)] Inr r by blast
  moreover obtain m' where m: "MemJournal_Append sha marshal m evt = Inr (en, m')" "mj_entries m' = journal_events j'"
    using s assms(3) by (simp add: Mem_Append_eq [OF assms(1)] Let_def)
  moreover have "mem_inv m'" using Mem_Append_inv [OF assms(1) m(1)] .
  ultimately show ?thesis using Inr r by auto
next
  case (Inl err)
  then show ?thesis
    using assms(3) unfolding SQ_Append_eq [OF assms(2)] Mem_Append_eq [OF assms(1)]
    by (auto simp: append_refusal_def Let_def split: option.splits if_splits)
qed

text \<open>An append keeps the chain verifiable: where a SQLite journal verifies, it verifies after
  every successful append whose event names no parent or whose item already has one.\<close>

theorem append_keeps_chain_valid:
  assumes "sq_inv j" "verifyChain sha marshal (journal_events j) = None"
    and "SQLiteJournal_Append flt sha marshal j evt = Inr (en, j')"
    and "e_ParentEventID evt = [] \<or> last_for_item (journal_events j) (e_ItemID evt) \<noteq> None"
  shows "SQLiteJournal_VerifyChain (\<lambda>_. False) sha marshal j' = None"
proof -
  note s = SQ_Append_Inr [OF assms(1,3)] and inv = SQ_Append_inv [OF assms(1,3)]
  have ok: "rows_ok (journal_events j)" "distinct (map en_id (journal_events j))"
    using assms(1) by (simp_all add: sq_inv_def)
  have "verifyChain sha marshal (journal_events j') = None"
    using stored_verifies [OF ok assms(2)] s assms(4) parent_nonempty [OF ok(1)] by auto
  moreover have "SQLiteJournal_Entries (\<lambda>_. False) j' = Some (journal_events j')"
    using s inv by (simp add: SQLiteJournal_Entries_def scanEntries_def go_sort_rows sq_inv_def)
  ultimately show ?thesis by (simp add: SQLiteJournal_VerifyChain_def)
qed

text \<open>C37: the tape is tamper-evident: two tapes that both verify and give an item the same latest hash
  hold the same entries for that item, in the same order, unless the digest collides on the strings
  they hash.\<close>

theorem journal_tamper_evident:
  assumes "verifyChain sha marshal es = None" "verifyChain sha marshal es' = None"
    and "distinct (map en_id es)" "distinct (map en_id es')" "\<forall>e \<in> set (es @ es'). en_id e \<noteq> []"
    and "last_for_item es k = Some x" "last_for_item es' k = Some x'" "en_Hash x = en_Hash x'"
    and "digest_text sha" "json_object marshal (es @ es')" "collision_free sha marshal (es @ es')"
  shows "item_rows k es = item_rows k es'"
proof (rule linked_inj [OF assms(9-11)])
  show "linked sha marshal [] (item_rows k es)" "linked sha marshal [] (item_rows k es')"
    using verified_linked assms(1-5) by simp_all
  show "(if item_rows k es = [] then [] else en_Hash (last (item_rows k es)))
      = (if item_rows k es' = [] then [] else en_Hash (last (item_rows k es')))"
    using assms(6-8) by (auto simp: last_for_item_last split: if_splits)
qed auto

text \<open>\<^verbatim>\<open>Append\<close> and \<^verbatim>\<open>VerifyChain\<close> disagree on a first event that names a parent: the append
  accepts it, although no predecessor is known, and from then on the journal never verifies.\<close>

theorem first_event_with_parent_breaks_chain:
  assumes "mem_inv j" "append_refusal (mj_entries j) evt = None" "e_ParentEventID evt \<noteq> []"
    and "mj_lastByItem j (e_ItemID evt) = None"
  shows "\<exists>en j'. MemJournal_Append sha marshal j evt = Inr (en, j') \<and>
    (distinct (map en_id (mj_entries j)) \<longrightarrow> MemJournal_VerifyChain sha marshal j' \<noteq> None)"
proof -
  let ?en = "stored_entry sha marshal (mj_entries j) evt"
  have ne: "\<forall>e \<in> set (mj_entries j). en_id e \<noteq> []"
    using assms(1) by (auto simp: mem_inv_def rows_ok_def dest: validate_nonempty)
  have p: "parent_of (mj_entries j) (e_ItemID evt) = []" using assms(1,4) by (simp add: mem_inv_def parent_of_def)
  then have "e_ParentEventID (en_Event ?en) \<noteq> parent_of (mj_entries j) (e_ItemID evt)"
    using assms(3) by (simp add: stored_entry_def Let_def)
  then have "distinct (map en_id (mj_entries j)) \<Longrightarrow> verifyChain sha marshal (mj_entries j @ [?en]) \<noteq> None"
    using verify_snoc [OF _ ne, of sha marshal ?en] by simp
  then show ?thesis
    using assms(2) by (simp add: Mem_Append_eq [OF assms(1)] Let_def MemJournal_VerifyChain_def)
qed

text \<open>The empty SQLite journal fails its own verification, because the reader returns a nil slice
  for an empty table and \<^verbatim>\<open>VerifyChain\<close> reads nil as a failed query; the empty in-memory journal
  verifies.\<close>

theorem empty_sqlite_journal_fails_verification:
  "SQLiteJournal_VerifyChain (\<lambda>_. False) sha marshal NewSQLiteJournal = Some ChainUnreadable
   \<and> MemJournal_VerifyChain sha marshal NewMemJournal = None"
  by (simp add: SQLiteJournal_VerifyChain_def SQLiteJournal_Entries_def scanEntries_def NewSQLiteJournal_def
      MemJournal_VerifyChain_def NewMemJournal_def verifyChain_def go_sort_def)

text \<open>The sequence number never wraps: at the largest 64-bit head the next number would wrap to the
  smallest one, and the journal refuses every append instead.\<close>

theorem append_refused_at_max_seq:
  assumes "mem_inv j" "mj_lastSeq j = int64_max" "is_int64 (e_CursorSeq evt)"
  shows "\<exists>err. MemJournal_Append sha marshal j evt = Inl err"
proof -
  have "e_CursorSeq (assign_seq (head_of (mj_entries j)) evt) \<le> head_of (mj_entries j)"
    using assms add64_overflow by (auto simp: assign_seq_def mem_inv_def is_int64_def int64_min_def int64_max_def)
  then show ?thesis
    using assms(1) by (auto simp: Mem_Append_eq append_refusal_def Let_def split: option.splits)
qed

subsection \<open>Witnesses\<close>

definition wit_jevent :: "string \<Rightarrow> string \<Rightarrow> string \<Rightarrow> int64 \<Rightarrow> Event" where
  "wit_jevent i k p sq = zero_Event\<lparr>e_EventID := ''base_evt_'' @ i, e_ItemID := ''base_item_'' @ k, e_OwnerID := ''o'',
     e_EventType := EventCreate, e_ParentEventID := p, e_CursorSeq := sq\<rparr>"

definition wit_sha :: hash_fun where
  "wit_sha s = CHR ''d'' # List.map (\<lambda>c. if c = CHR ''{'' then CHR ''x'' else c) s"

definition wit_marshal :: event_codec where
  "wit_marshal e = CHR ''{'' # e_EventID e"

definition wit_entry :: "string \<Rightarrow> string \<Rightarrow> int64 \<Rightarrow> Entry" where
  "wit_entry i k sq = \<lparr>en_Event = wit_jevent i k [] sq, en_Hash = wit_sha (wit_marshal (wit_jevent i k [] sq))\<rparr>"

lemmas wit_journal_defs = wit_jevent_def wit_entry_def wit_marshal_def wit_sha_def zero_Event_def validateEvent_def
  EventID_Valid_def ItemID_Valid_def EventType_Valid_def hasPrefix_def

lemma wit_mem_append:
  "MemJournal_Append wit_sha wit_marshal NewMemJournal (wit_jevent ''a'' ''k'' [] 0)
   = Inr (wit_entry ''a'' ''k'' 1, \<lparr>mj_entries = [wit_entry ''a'' ''k'' 1], mj_lastByItem = [''base_item_k'' \<mapsto> ''base_evt_a''],
       mj_lastSeq = 1, mj_cursors = Map.empty\<rparr>)"
  by (simp add: MemJournal_Append_def NewMemJournal_def wit_journal_defs computeHash_def getz_def add64_def Let_def)

lemma wit_sq_append:
  "SQLiteJournal_Append (\<lambda>_. False) wit_sha wit_marshal NewSQLiteJournal (wit_jevent ''a'' ''k'' [] 0)
   = Inr (wit_entry ''a'' ''k'' 1, \<lparr>journal_events = [wit_entry ''a'' ''k'' 1], device_cursors = Map.empty\<rparr>)"
  by (simp add: SQLiteJournal_Append_def NewSQLiteJournal_def wit_journal_defs computeHash_def add64_def Let_def
      sql_head_def sql_last_by_item_def sql_insert_ok_def go_sort_def)

theorem journal_snapshots_immutable_witness:
  "\<exists>m' j'. run_steps (\<lambda>j evt. state_of (MemJournal_Append wit_sha wit_marshal j evt)) NewMemJournal [wit_jevent ''a'' ''k'' [] 0] = Inr m'
    \<and> run_steps (\<lambda>j evt. state_of (SQLiteJournal_Append (\<lambda>_. False) wit_sha wit_marshal j evt)) NewSQLiteJournal
        [wit_jevent ''a'' ''k'' [] 0] = Inr j'
    \<and> (\<exists>new. journal_events j' = journal_events NewSQLiteJournal @ new)
    \<and> DeriveUpTo wit_unmarshal (Events (sq_read j')) 0 = Derive wit_unmarshal (Events (sq_read NewSQLiteJournal))"
proof -
  obtain m' where m: "run_steps (\<lambda>j evt. state_of (MemJournal_Append wit_sha wit_marshal j evt)) NewMemJournal
      [wit_jevent ''a'' ''k'' [] 0] = Inr m'"
    by (simp add: wit_mem_append)
  obtain j' where j: "run_steps (\<lambda>j evt. state_of (SQLiteJournal_Append (\<lambda>_. False) wit_sha wit_marshal j evt))
      NewSQLiteJournal [wit_jevent ''a'' ''k'' [] 0] = Inr j'"
    by (simp add: wit_sq_append)
  show ?thesis
    using journal_snapshots_immutable [OF mem_inv_New m sq_inv_New j, of wit_unmarshal] m j
    by (auto simp: NewSQLiteJournal_def head_of_def)
qed

theorem sqlite_append_refines_memory_witness:
  "\<exists>m'. MemJournal_Append wit_sha wit_marshal NewMemJournal (wit_jevent ''a'' ''k'' [] 0) = Inr (wit_entry ''a'' ''k'' 1, m')
    \<and> mj_entries m' = [wit_entry ''a'' ''k'' 1]"
proof -
  have "mj_entries NewMemJournal = journal_events NewSQLiteJournal" by (simp add: NewMemJournal_def NewSQLiteJournal_def)
  then show ?thesis
    using sqlite_append_refines_memory [OF mem_inv_New sq_inv_New, of wit_sha wit_marshal "wit_jevent ''a'' ''k'' [] 0"]
    by (auto simp: wit_sq_append)
qed

theorem append_keeps_chain_valid_witness:
  "SQLiteJournal_VerifyChain (\<lambda>_. False) wit_sha wit_marshal
     \<lparr>journal_events = [wit_entry ''a'' ''k'' 1], device_cursors = Map.empty\<rparr> = None"
  by (rule append_keeps_chain_valid [OF sq_inv_New _ wit_sq_append])
    (simp_all add: NewSQLiteJournal_def verifyChain_def wit_jevent_def zero_Event_def)

lemma wit_digest_text: "digest_text wit_sha"
  by (auto simp: digest_text_def wit_sha_def)

lemma wit_collision_free:
  "collision_free wit_sha wit_marshal ([wit_entry ''b'' ''j'' 1, wit_entry ''a'' ''k'' 2] @ [wit_entry ''a'' ''k'' 2])"
proof -
  let ?S = "{''{base_evt_b'', ''{base_evt_a'', ''dxbase_evt_b{base_evt_b'', ''dxbase_evt_b{base_evt_a'',
    ''dxbase_evt_a{base_evt_b'', ''dxbase_evt_a{base_evt_a''}"
  have p: "preimages wit_marshal ([wit_entry ''b'' ''j'' 1, wit_entry ''a'' ''k'' 2] @ [wit_entry ''a'' ''k'' 2]) \<subseteq> ?S"
    by (auto simp: preimages_def wit_journal_defs)
  have i: "inj_on wit_sha ?S" by (simp add: inj_on_def wit_sha_def)
  have m: "inj_on wit_marshal {wit_jevent ''b'' ''j'' [] 1, wit_jevent ''a'' ''k'' [] 2}"
    by (simp add: inj_on_def wit_marshal_def wit_jevent_def zero_Event_def)
  show ?thesis unfolding collision_free_def using inj_on_subset [OF i p] m by (simp add: wit_entry_def)
qed

theorem journal_tamper_evident_witness:
  "item_rows ''base_item_k'' [wit_entry ''b'' ''j'' 1, wit_entry ''a'' ''k'' 2] = item_rows ''base_item_k'' [wit_entry ''a'' ''k'' 2]"
  by (rule journal_tamper_evident [OF _ _ _ _ _ _ _ _ wit_digest_text _ wit_collision_free,
        of _ "wit_entry ''a'' ''k'' 2" "wit_entry ''a'' ''k'' 2"])
    (simp_all add: wit_journal_defs verifyChain_def verify_step_def verify_start_def computeHash_def getz_def Let_def
      last_for_item_def json_object_def)

theorem first_event_with_parent_breaks_chain_witness:
  "\<exists>en j'. MemJournal_Append wit_sha wit_marshal NewMemJournal (wit_jevent ''a'' ''k'' ''base_evt_z'' 0) = Inr (en, j')
    \<and> MemJournal_VerifyChain wit_sha wit_marshal j' \<noteq> None"
  using first_event_with_parent_breaks_chain [OF mem_inv_New, of "wit_jevent ''a'' ''k'' ''base_evt_z'' 0" wit_sha wit_marshal]
  by (simp add: NewMemJournal_def wit_journal_defs append_refusal_def assign_seq_def add64_def head_of_def parent_of_def
      last_for_item_def Let_def)

theorem append_refused_at_max_seq_witness:
  "\<exists>err. MemJournal_Append wit_sha wit_marshal
     \<lparr>mj_entries = [wit_entry ''a'' ''k'' int64_max], mj_lastByItem = (\<lambda>i. map_option en_id (last_for_item [wit_entry ''a'' ''k'' int64_max] i)),
      mj_lastSeq = int64_max, mj_cursors = Map.empty\<rparr> (wit_jevent ''b'' ''k'' [] 0) = Inl err"
  by (rule append_refused_at_max_seq)
    (simp_all add: mem_inv_def rows_ok_def wit_journal_defs int64_max_def int64_min_def is_int64_def head_of_def)

end
