(* ===== verification/Solitaire.thy ===== *)
theory Solitaire
  imports Prelude
begin

text \<open>
  The solitaire game (\<^verbatim>\<open>internal/solitaire\<close>): cards, the deal, the moves with every guard of
  \<^verbatim>\<open>ApplyMove\<close>, the two tables of the store and the HTTP handlers over them. The clock, the fresh
  identifiers, the operating system's random bytes and the random index generator are arguments.
  A pile is a list with its top card last; each pile has a backing array of its own, so slices are
  values here. \<^verbatim>\<open>ApplyMove\<close> changes the game in place also where it fails, so its model returns the
  outcome together with the game it leaves.
\<close>

subsection \<open>Cards\<close>

type_synonym Suit = string

abbreviation SuitSpades :: string where "SuitSpades \<equiv> ''spades''"
abbreviation SuitHearts :: string where "SuitHearts \<equiv> ''hearts''"
abbreviation SuitDiamonds :: string where "SuitDiamonds \<equiv> ''diamonds''"
abbreviation SuitClubs :: string where "SuitClubs \<equiv> ''clubs''"

datatype Color = ColorBlack | ColorRed

definition Suit_Color :: "Suit \<Rightarrow> Color" where
  "Suit_Color s = (if s = SuitHearts \<or> s = SuitDiamonds then ColorRed else ColorBlack)"

record Card =
  Suit :: Suit
  Rank :: int
  FaceUp :: bool

definition Card_String :: "Card \<Rightarrow> string" where
  "Card_String c =
     (let r = (if Rank c = 1 then ''A'' else if Rank c = 11 then ''J'' else if Rank c = 12 then ''Q''
               else if Rank c = 13 then ''K'' else itoa (Rank c))
      in r @ '':'' @ Suit c)"

definition NewStandardDeck :: "Card list" where
  "NewStandardDeck = concat (map (\<lambda>s. map (\<lambda>r. \<lparr>Suit = s, Rank = r, FaceUp = False\<rparr>) [1..13])
     [SuitSpades, SuitHearts, SuitDiamonds, SuitClubs])"

text \<open>\<^verbatim>\<open>Rand.Shuffle\<close> walks from the last index down and swaps with the index the generator draws;
  \<open>pcg s t i\<close> is the draw of the generator seeded with \<open>s\<close> and \<open>t\<close> for position \<open>i\<close>, which the
  library documents to be at most \<open>i\<close>.\<close>

type_synonym generator = "uint64 \<Rightarrow> uint64 \<Rightarrow> nat \<Rightarrow> nat"

definition draws_in_range :: "generator \<Rightarrow> bool" where
  "draws_in_range pcg \<longleftrightarrow> (\<forall>s t i. pcg s t i \<le> i)"

definition swap_at :: "nat \<Rightarrow> nat \<Rightarrow> 'a list \<Rightarrow> 'a list" where
  "swap_at i j xs = xs[i := xs ! j, j := xs ! i]"

fun shuffle_from :: "(nat \<Rightarrow> nat) \<Rightarrow> nat \<Rightarrow> 'a list \<Rightarrow> 'a list" where
  "shuffle_from draw 0 xs = xs"
| "shuffle_from draw (Suc i) xs = shuffle_from draw i (swap_at (Suc i) (draw (Suc i)) xs)"

definition ShuffleDeck :: "generator \<Rightarrow> uint64 \<Rightarrow> Card list \<Rightarrow> uint64 \<Rightarrow> Card list \<times> uint64" where
  "ShuffleDeck pcg crand deck seed0 =
     (let seed = (if seed0 = 0 then (if crand = 0 then 1 else crand) else seed0);
          draw = pcg seed (Bit_Operations.xor seed 0x5555555555555555)
      in (shuffle_from draw (length deck - 1) deck, seed))"

subsection \<open>Games\<close>

type_synonym GameStatus = string
type_synonym MoveType = string

abbreviation StatusInProgress :: string where "StatusInProgress \<equiv> ''in_progress''"
abbreviation StatusWon :: string where "StatusWon \<equiv> ''won''"
abbreviation StatusAbandoned :: string where "StatusAbandoned \<equiv> ''abandoned''"

abbreviation MoveDrawStock :: string where "MoveDrawStock \<equiv> ''draw_stock''"
abbreviation MoveRecycleWaste :: string where "MoveRecycleWaste \<equiv> ''recycle_waste''"
abbreviation MoveWasteToTableau :: string where "MoveWasteToTableau \<equiv> ''waste_to_tableau''"
abbreviation MoveWasteToFound :: string where "MoveWasteToFound \<equiv> ''waste_to_foundation''"
abbreviation MoveTableauToFound :: string where "MoveTableauToFound \<equiv> ''tableau_to_foundation''"
abbreviation MoveTableauToTable :: string where "MoveTableauToTable \<equiv> ''tableau_to_tableau''"
abbreviation MoveFoundToTableau :: string where "MoveFoundToTableau \<equiv> ''foundation_to_tableau''"

record GameState =
  GameID :: string
  OwnerID :: string
  ComputerID :: string
  Status :: GameStatus
  DeckSeed :: uint64
  Tableau :: "Card list list"
  Foundations :: "Card list list"
  Stock :: "Card list"
  Waste :: "Card list"
  Score :: int64
  MovesCount :: int64
  g_CreatedAt :: gotime
  g_UpdatedAt :: gotime

record MoveRequest =
  Type :: MoveType
  FromPile :: int
  ToPile :: int
  CardCount :: int

record MoveRecord =
  MoveID :: string
  m_GameID :: string
  m_OwnerID :: string
  m_ComputerID :: string
  MoveSeq :: int64
  m_MoveType :: MoveType
  m_FromPile :: string
  m_ToPile :: string
  m_Cards :: "Card list"
  m_CreatedAt :: gotime

datatype move_error =
    NotInProgress | StockEmpty | StockNotEmpty | WasteEmpty
  | InvalidColumn | InvalidFoundation | InvalidSource | InvalidTarget
  | CountExceeds | BottomFaceDown
  | CannotToTableau Card int | CannotToFoundation Card int | Unsupported MoveType

definition flip_up :: "Card \<Rightarrow> Card" where "flip_up c = c\<lparr>FaceUp := True\<rparr>"
definition flip_down :: "Card \<Rightarrow> Card" where "flip_down c = c\<lparr>FaceUp := False\<rparr>"

text \<open>Dealing column \<open>col\<close> takes the next \<open>col + 1\<close> cards and turns the last one up.\<close>

fun deal :: "nat \<Rightarrow> nat \<Rightarrow> Card list \<Rightarrow> Card list list \<times> Card list" where
  "deal 0 col deck = ([], deck)"
| "deal (Suc n) col deck =
     (let column = take col deck @ map flip_up (take 1 (drop col deck));
          (cols, rest) = deal n (Suc col) (drop (Suc col) deck)
      in (column # cols, rest))"

definition NewGame :: "generator \<Rightarrow> uint64 \<Rightarrow> gotime \<Rightarrow> string \<Rightarrow> string \<Rightarrow> string \<Rightarrow> uint64 \<Rightarrow> GameState" where
  "NewGame pcg crand now uuid ownerID computerID seed =
     (let (deck, effectiveSeed) = ShuffleDeck pcg crand NewStandardDeck seed;
          (cols, rest) = deal 7 0 deck
      in \<lparr>GameID = ''game-'' @ uuid, OwnerID = ownerID, ComputerID = computerID, Status = StatusInProgress,
          DeckSeed = effectiveSeed, Tableau = cols, Foundations = [[], [], [], []],
          Stock = map flip_down rest, Waste = [], Score = 0, MovesCount = 0,
          g_CreatedAt = now, g_UpdatedAt = now\<rparr>)"

subsection \<open>Moves\<close>

definition CanMoveToTableau :: "Card \<Rightarrow> Card list \<Rightarrow> bool" where
  "CanMoveToTableau cd targetColumn =
     (if targetColumn = [] then Rank cd = 13
      else let top = last targetColumn in
        if \<not> FaceUp top then False
        else Rank top = Rank cd + 1 \<and> Suit_Color (Suit top) \<noteq> Suit_Color (Suit cd))"

definition CanMoveToFoundation :: "Card \<Rightarrow> Card list \<Rightarrow> bool" where
  "CanMoveToFoundation cd foundation =
     (if foundation = [] then Rank cd = 1 else Rank cd = Rank (last foundation) + 1)"

type_synonym moved = "GameState \<times> string \<times> string \<times> Card list"

definition draw_stock :: "GameState \<Rightarrow> move_error + moved" where
  "draw_stock g =
     (if Stock g = [] then Inl StockEmpty
      else let cd = flip_up (last (Stock g)) in
        Inr (g\<lparr>Stock := butlast (Stock g), Waste := Waste g @ [cd]\<rparr>, ''stock'', ''waste'', [cd]))"

definition recycle_waste :: "GameState \<Rightarrow> move_error + moved" where
  "recycle_waste g =
     (if Stock g \<noteq> [] then Inl StockNotEmpty
      else if Waste g = [] then Inl WasteEmpty
      else Inr (g\<lparr>Stock := Stock g @ map flip_down (rev (Waste g)), Waste := []\<rparr>, ''waste'', ''stock'', []))"

definition tableau_name :: "int \<Rightarrow> string" where "tableau_name i = ''tableau_'' @ itoa i"
definition foundation_name :: "int \<Rightarrow> string" where "foundation_name i = ''foundation_'' @ itoa i"

definition waste_to_tableau :: "GameState \<Rightarrow> int \<Rightarrow> move_error + moved" where
  "waste_to_tableau g to =
     (if Waste g = [] then Inl WasteEmpty
      else if to < 0 \<or> to > 6 then Inl InvalidColumn
      else let cd = last (Waste g); t = nat to in
        if \<not> CanMoveToTableau cd (Tableau g ! t) then Inl (CannotToTableau cd to)
        else Inr (g\<lparr>Waste := butlast (Waste g), Tableau := (Tableau g)[t := Tableau g ! t @ [cd]],
                    Score := add64 (Score g) 5\<rparr>, ''waste'', tableau_name to, [cd]))"

definition waste_to_foundation :: "GameState \<Rightarrow> int \<Rightarrow> move_error + moved" where
  "waste_to_foundation g to =
     (if Waste g = [] then Inl WasteEmpty
      else if to < 0 \<or> to > 3 then Inl InvalidFoundation
      else let cd = last (Waste g); t = nat to in
        if \<not> CanMoveToFoundation cd (Foundations g ! t) then Inl (CannotToFoundation cd to)
        else Inr (g\<lparr>Waste := butlast (Waste g), Foundations := (Foundations g)[t := Foundations g ! t @ [cd]],
                    Score := add64 (Score g) 10\<rparr>, ''waste'', foundation_name to, [cd]))"

text \<open>The new top card of the column that lost cards is turned up, for five points.\<close>

definition flip_top :: "GameState \<Rightarrow> nat \<Rightarrow> GameState" where
  "flip_top g f =
     (let col = Tableau g ! f in
      if col \<noteq> [] \<and> \<not> FaceUp (last col)
      then g\<lparr>Tableau := (Tableau g)[f := butlast col @ [flip_up (last col)]], Score := add64 (Score g) 5\<rparr>
      else g)"

definition tableau_to_foundation :: "GameState \<Rightarrow> int \<Rightarrow> int \<Rightarrow> move_error + moved" where
  "tableau_to_foundation g from to =
     (if from < 0 \<or> from > 6 \<or> Tableau g ! nat from = [] then Inl InvalidSource
      else if to < 0 \<or> to > 3 then Inl InvalidFoundation
      else let f = nat from; t = nat to; col = Tableau g ! f; cd = last col in
        if \<not> CanMoveToFoundation cd (Foundations g ! t) then Inl (CannotToFoundation cd to)
        else let g1 = g\<lparr>Tableau := (Tableau g)[f := butlast col],
                        Foundations := (Foundations g)[t := Foundations g ! t @ [cd]]\<rparr>;
                 g2 = flip_top g1 f
          in Inr (g2\<lparr>Score := add64 (Score g2) 10\<rparr>, tableau_name from, foundation_name to, [cd]))"

definition tableau_to_tableau :: "GameState \<Rightarrow> int \<Rightarrow> int \<Rightarrow> int \<Rightarrow> move_error + moved" where
  "tableau_to_tableau g from to cnt =
     (if from < 0 \<or> from > 6 \<or> Tableau g ! nat from = [] then Inl InvalidSource
      else if to < 0 \<or> to > 6 \<or> from = to then Inl InvalidTarget
      else let f = nat from; t = nat to; src = Tableau g ! f in
        if cnt > int (length src) then Inl CountExceeds
        else let splitIdx = length src - nat cnt; movingCards = drop splitIdx src in
          if \<not> FaceUp (hd movingCards) then Inl BottomFaceDown
          else if \<not> CanMoveToTableau (hd movingCards) (Tableau g ! t)
            then Inl (CannotToTableau (hd movingCards) to)
          else let g1 = g\<lparr>Tableau := (Tableau g)[f := take splitIdx src, t := Tableau g ! t @ movingCards]\<rparr>
            in Inr (flip_top g1 f, tableau_name from, tableau_name to, movingCards))"

definition apply_move_type :: "GameState \<Rightarrow> MoveRequest \<Rightarrow> move_error + moved" where
  "apply_move_type g req =
     (if Type req = MoveDrawStock then draw_stock g
      else if Type req = MoveRecycleWaste then recycle_waste g
      else if Type req = MoveWasteToTableau then waste_to_tableau g (ToPile req)
      else if Type req = MoveWasteToFound then waste_to_foundation g (ToPile req)
      else if Type req = MoveTableauToFound then tableau_to_foundation g (FromPile req) (ToPile req)
      else if Type req = MoveTableauToTable then tableau_to_tableau g (FromPile req) (ToPile req) (CardCount req)
      else Inl (Unsupported (Type req)))"

definition check_won :: "GameState \<Rightarrow> GameState" where
  "check_won g = (if \<forall>f \<in> set (Foundations g). length f = 13 then g\<lparr>Status := StatusWon\<rparr> else g)"

definition ApplyMove ::
  "gotime \<Rightarrow> string \<Rightarrow> GameState \<Rightarrow> MoveRequest \<Rightarrow> (move_error + MoveRecord) \<times> GameState" where
  "ApplyMove now uuid g req0 =
     (if Status g \<noteq> StatusInProgress then (Inl NotInProgress, g)
      else let req = (if CardCount req0 \<le> 0 then req0\<lparr>CardCount := 1\<rparr> else req0);
               g0 = g\<lparr>MovesCount := add64 (MovesCount g) 1\<rparr> in
        (case apply_move_type g0 req of
           Inl err \<Rightarrow> (Inl err, g0)
         | Inr (g1, from, to, cards) \<Rightarrow>
             (Inr \<lparr>MoveID = ''move-'' @ uuid, m_GameID = GameID g, m_OwnerID = OwnerID g,
                   m_ComputerID = ComputerID g, MoveSeq = MovesCount g0, m_MoveType = Type req,
                   m_FromPile = from, m_ToPile = to, m_Cards = cards, m_CreatedAt = now\<rparr>,
              (check_won g1)\<lparr>g_UpdatedAt := now\<rparr>)))"

subsection \<open>The store\<close>

text \<open>\<^verbatim>\<open>solitaire_games\<close> is keyed by the game identifier and \<^verbatim>\<open>solitaire_moves\<close> by the move identifier; the
  JSON columns, the seed stored as a signed number and the time stamps read back as they were written,
  so a row is the value it encodes. \<open>flt\<close> names the statements the database refuses: the first form of the
  upsert keeps the owner, the seed and the creation time of an existing row, the fallback replaces the row.\<close>

record Store =
  solitaire_games :: "string \<rightharpoonup> GameState"
  solitaire_moves :: "MoveRecord list"

datatype sol_stmt = UpsertGame | ReplaceGame | SelectGame | InsertMove | SelectMoves

type_synonym sol_fault = "sol_stmt \<Rightarrow> bool"

datatype store_error = GameNil | SQLError | NoRows

definition SaveGame :: "sol_fault \<Rightarrow> Store \<Rightarrow> GameState option \<Rightarrow> store_error + Store" where
  "SaveGame flt s gp =
     (case gp of None \<Rightarrow> Inl GameNil
      | Some g \<Rightarrow>
        if \<not> flt UpsertGame then
          Inr (s\<lparr>solitaire_games := (solitaire_games s)(GameID g \<mapsto>
             (case solitaire_games s (GameID g) of None \<Rightarrow> g
              | Some old \<Rightarrow> g\<lparr>OwnerID := OwnerID old, ComputerID := ComputerID old, DeckSeed := DeckSeed old,
                                g_CreatedAt := g_CreatedAt old\<rparr>))\<rparr>)
        else if \<not> flt ReplaceGame then Inr (s\<lparr>solitaire_games := (solitaire_games s)(GameID g \<mapsto> g)\<rparr>)
        else Inl SQLError)"

definition GetGame :: "sol_fault \<Rightarrow> Store \<Rightarrow> string \<Rightarrow> string \<Rightarrow> string \<Rightarrow> store_error + GameState" where
  "GetGame flt s ownerID computerID gameID =
     (if flt SelectGame then Inl SQLError
      else case solitaire_games s gameID of None \<Rightarrow> Inl NoRows
      | Some g \<Rightarrow> if OwnerID g = ownerID \<and> ComputerID g = computerID then Inr g else Inl NoRows)"

definition SaveMove :: "sol_fault \<Rightarrow> Store \<Rightarrow> MoveRecord \<Rightarrow> store_error + Store" where
  "SaveMove flt s m =
     (if flt InsertMove \<or> MoveID m \<in> MoveID ` set (solitaire_moves s) then Inl SQLError
      else Inr (s\<lparr>solitaire_moves := solitaire_moves s @ [m]\<rparr>))"

definition ListMoves :: "sol_fault \<Rightarrow> Store \<Rightarrow> string \<Rightarrow> string \<Rightarrow> string \<Rightarrow> store_error + MoveRecord list" where
  "ListMoves flt s ownerID computerID gameID =
     (if flt SelectMoves then Inl SQLError
      else Inr (go_sort MoveSeq (filter (\<lambda>m. m_GameID m = gameID \<and> m_OwnerID m = ownerID \<and> m_ComputerID m = computerID)
        (solitaire_moves s))))"

subsection \<open>The HTTP handlers\<close>

text \<open>The decoded bodies, the clock, the fresh identifiers and the random sources of one request are its
  environment. A handler's store may be nil.\<close>

record Env =
  env_pcg :: generator
  env_crand :: uint64
  env_now :: gotime
  env_uuid :: string
  env_seed :: uint64
  env_move :: "MoveRequest option"

record Request =
  Method :: string
  Path :: string
  X_User :: string
  X_Computer :: string

datatype reply = ErrorText string | MoveRefused move_error | StoreFailed store_error
  | GameReply GameState | MoveReply GameState MoveRecord | HistoryReply "MoveRecord list"

type_synonym response = "nat \<times> reply"

abbreviation MethodGet :: string where "MethodGet \<equiv> ''GET''"
abbreviation MethodPost :: string where "MethodPost \<equiv> ''POST''"

definition createGame :: "sol_fault \<Rightarrow> Env \<Rightarrow> Store option \<Rightarrow> string \<Rightarrow> string \<Rightarrow> response \<times> Store option" where
  "createGame flt env st ownerID computerID =
     (let game = NewGame (env_pcg env) (env_crand env) (env_now env) (env_uuid env) ownerID computerID (env_seed env) in
      case st of None \<Rightarrow> ((201, GameReply game), st)
      | Some s \<Rightarrow> (case SaveGame flt s (Some game) of
            Inl err \<Rightarrow> ((500, StoreFailed err), st)
          | Inr s' \<Rightarrow> ((201, GameReply game), Some s')))"

definition getGame :: "sol_fault \<Rightarrow> Store option \<Rightarrow> string \<Rightarrow> string \<Rightarrow> string \<Rightarrow> response" where
  "getGame flt st ownerID computerID gameID =
     (case st of None \<Rightarrow> (503, ErrorText ''store unavailable'')
      | Some s \<Rightarrow> (case GetGame flt s ownerID computerID gameID of
            Inl _ \<Rightarrow> (404, ErrorText ''game not found'')
          | Inr game \<Rightarrow> (200, GameReply game)))"

definition applyMove :: "sol_fault \<Rightarrow> Env \<Rightarrow> Store option \<Rightarrow> string \<Rightarrow> string \<Rightarrow> string \<Rightarrow> response \<times> Store option" where
  "applyMove flt env st ownerID computerID gameID =
     (case st of None \<Rightarrow> ((503, ErrorText ''store unavailable''), st)
      | Some s \<Rightarrow> (case GetGame flt s ownerID computerID gameID of
          Inl _ \<Rightarrow> ((404, ErrorText ''game not found''), st)
        | Inr g \<Rightarrow> (case env_move env of
            None \<Rightarrow> ((400, ErrorText ''invalid move request''), st)
          | Some req \<Rightarrow> (case ApplyMove (env_now env) (env_uuid env) g req of
              (Inl err, _) \<Rightarrow> ((400, MoveRefused err), st)
            | (Inr rec, game) \<Rightarrow> (case SaveGame flt s (Some game) of
                Inl err \<Rightarrow> ((500, StoreFailed err), st)
              | Inr s1 \<Rightarrow> (case SaveMove flt s1 rec of
                  Inl err \<Rightarrow> ((500, StoreFailed err), Some s1)
                | Inr s2 \<Rightarrow> ((200, MoveReply game rec), Some s2)))))))"

definition getHistory :: "sol_fault \<Rightarrow> Store option \<Rightarrow> string \<Rightarrow> string \<Rightarrow> string \<Rightarrow> response" where
  "getHistory flt st ownerID computerID gameID =
     (case st of None \<Rightarrow> (503, ErrorText ''store unavailable'')
      | Some s \<Rightarrow> (case ListMoves flt s ownerID computerID gameID of
            Inl err \<Rightarrow> (500, StoreFailed err)
          | Inr moves \<Rightarrow> (200, HistoryReply moves)))"

definition HandleSolitaireRouter :: "sol_fault \<Rightarrow> Env \<Rightarrow> Store option \<Rightarrow> Request \<Rightarrow> response \<times> Store option" where
  "HandleSolitaireRouter flt env st r =
     (let ownerID = trimSpace (X_User r); computerID = trimSpace (X_Computer r);
          parts = splitOn (CHR ''/'') (trimChar (CHR ''/'') (trimPrefix (Path r) ''/api/solitaire''));
          refuse = ((405, ErrorText ''method not allowed''), st) in
      if ownerID = [] then ((401, ErrorText ''authentication required''), st)
      else case parts of
        [a] \<Rightarrow> if a = ''games'' then (if Method r = MethodPost then createGame flt env st ownerID computerID else refuse)
               else ((404, ErrorText ''not found''), st)
      | [a, gameID] \<Rightarrow> if a = ''games'' then (if Method r = MethodGet then (getGame flt st ownerID computerID gameID, st) else refuse)
               else ((404, ErrorText ''not found''), st)
      | [a, gameID, sub] \<Rightarrow> if a = ''games'' then
                 (if sub = ''moves'' \<and> Method r = MethodPost then applyMove flt env st ownerID computerID gameID
                  else if sub = ''history'' \<and> Method r = MethodGet then (getHistory flt st ownerID computerID gameID, st)
                  else refuse)
               else ((404, ErrorText ''not found''), st)
      | _ \<Rightarrow> ((404, ErrorText ''not found''), st))"

subsection \<open>The game invariant\<close>

definition face :: "Card \<Rightarrow> Suit \<times> int" where
  "face c = (Suit c, Rank c)"

definition descends :: "Card \<Rightarrow> Card \<Rightarrow> bool" where
  "descends c d \<longleftrightarrow> Rank c = Rank d + 1 \<and> Suit_Color (Suit c) \<noteq> Suit_Color (Suit d)"

text \<open>A column is some face-down cards below a face-up run of descending ranks and alternating colours;
  between taking cards off and turning the new top card the run may be missing.\<close>

definition column_part :: "Card list \<Rightarrow> bool" where
  "column_part col \<longleftrightarrow> (let ups = dropWhile (\<lambda>c. \<not> FaceUp c) col in (\<forall>c \<in> set ups. FaceUp c) \<and> successively descends ups)"

definition column_ok :: "Card list \<Rightarrow> bool" where
  "column_ok col \<longleftrightarrow> column_part col \<and> (col \<noteq> [] \<longrightarrow> FaceUp (last col))"

definition foundation_ok :: "Card list \<Rightarrow> bool" where
  "foundation_ok f \<longleftrightarrow> map Rank f = [1..int (length f)]"

definition all_cards :: "GameState \<Rightarrow> Card list" where
  "all_cards g = concat (Tableau g) @ concat (Foundations g) @ Stock g @ Waste g"

definition face_down_count :: "GameState \<Rightarrow> nat" where
  "face_down_count g = length (filter (\<lambda>c. \<not> FaceUp c) (concat (Tableau g)))"

definition score_low :: "GameState \<Rightarrow> int" where
  "score_low g = 10 * int (length (concat (Foundations g))) + 5 * (21 - int (face_down_count g))"

definition score_high :: "GameState \<Rightarrow> int" where
  "score_high g = score_low g + 5 * (24 - int (length (Stock g)) - int (length (Waste g)))"

definition piles_ok :: "GameState \<Rightarrow> bool" where
  "piles_ok g \<longleftrightarrow> length (Tableau g) = 7 \<and> length (Foundations g) = 4
     \<and> list_all column_part (Tableau g) \<and> list_all foundation_ok (Foundations g)
     \<and> list_all (\<lambda>c. \<not> FaceUp c) (Stock g) \<and> list_all FaceUp (Waste g)
     \<and> mset (map face (all_cards g)) = mset (map face NewStandardDeck)
     \<and> face_down_count g \<le> 21 \<and> score_low g \<le> Score g \<and> Score g \<le> score_high g"

definition game_ok :: "GameState \<Rightarrow> bool" where
  "game_ok g \<longleftrightarrow> piles_ok g \<and> list_all column_ok (Tableau g)
     \<and> (Status g = StatusWon \<longleftrightarrow> (\<forall>f \<in> set (Foundations g). length f = 13))"

lemma face_flip [simp]: "face (flip_up c) = face c" "face (flip_down c) = face c"
  and FaceUp_flip [simp]: "FaceUp (flip_up c)" "\<not> FaceUp (flip_down c)"
  by (simp_all add: face_def flip_up_def flip_down_def)

lemma descends_flip [simp]: "descends (flip_up c) d = descends c d" "descends c (flip_up d) = descends c d"
  by (simp_all add: descends_def flip_up_def)

lemma length_deck: "length NewStandardDeck = 52"
  by (simp add: NewStandardDeck_def upto.simps)

lemma mset_concat_upd:
  "i < length xs \<Longrightarrow> mset (concat (xs[i := y])) + mset (xs ! i) = mset (concat xs) + mset y"
  by (induction xs arbitrary: i) (auto split: nat.splits)

lemma column_partI:
  "list_all (\<lambda>c. \<not> FaceUp c) ds \<Longrightarrow> list_all FaceUp us \<Longrightarrow> successively descends us \<Longrightarrow> column_part (ds @ us)"
proof -
  assume a: "list_all (\<lambda>c. \<not> FaceUp c) ds" "list_all FaceUp us" "successively descends us"
  have "dropWhile (\<lambda>c. \<not> FaceUp c) (ds @ us) = us"
    using a by (cases us) (auto simp: list_all_iff dropWhile_append)
  then show ?thesis using a by (simp add: column_part_def list_all_iff)
qed

lemma column_partE:
  assumes "column_part col"
  obtains ds us where "col = ds @ us" "list_all (\<lambda>c. \<not> FaceUp c) ds" "list_all FaceUp us" "successively descends us"
proof
  show "col = takeWhile (\<lambda>c. \<not> FaceUp c) col @ dropWhile (\<lambda>c. \<not> FaceUp c) col" by simp
  show "list_all (\<lambda>c. \<not> FaceUp c) (takeWhile (\<lambda>c. \<not> FaceUp c) col)" by (meson list_all_iff set_takeWhileD)
  show "list_all FaceUp (dropWhile (\<lambda>c. \<not> FaceUp c) col)" "successively descends (dropWhile (\<lambda>c. \<not> FaceUp c) col)"
    using assms unfolding column_part_def Let_def list_all_iff by blast+
qed

lemma column_part_take: "column_part col \<Longrightarrow> column_part (take n col)"
proof -
  assume "column_part col"
  then obtain ds us where c: "col = ds @ us" "list_all (\<lambda>c. \<not> FaceUp c) ds" "list_all FaceUp us" "successively descends us"
    by (rule column_partE)
  have "successively descends (take (n - length ds) us)"
    using c(4) append_take_drop_id [of "n - length ds" us] by (metis successively_append_iff)
  then have "column_part (take n ds @ take (n - length ds) us)"
    using c by (intro column_partI) (auto simp: list_all_iff dest: in_set_takeD)
  then show ?thesis using c(1) by simp
qed

text \<open>Cards taken from the bottom of a face-up card upward form a run: the code only looks at the lowest.\<close>

lemma moving_run:
  assumes "column_part col" "n < length col" "FaceUp (col ! n)"
  shows "list_all FaceUp (drop n col) \<and> successively descends (drop n col)"
proof -
  obtain ds us where c: "col = ds @ us" "list_all (\<lambda>c. \<not> FaceUp c) ds" "list_all FaceUp us" "successively descends us"
    using assms(1) by (rule column_partE)
  have n: "length ds \<le> n"
    using assms(3) c(1,2) by (metis linorder_not_less list_all_length nth_append)
  have "successively descends (drop (n - length ds) us)"
    using c(4) append_take_drop_id [of "n - length ds" us] by (metis successively_append_iff)
  then show ?thesis using c n by (auto simp: list_all_iff dest: in_set_dropD)
qed

lemma column_part_append_run:
  assumes "column_ok col" "list_all FaceUp run" "successively descends run" "run \<noteq> []" "CanMoveToTableau (hd run) col"
  shows "column_ok (col @ run)"
proof -
  obtain ds us where c: "col = ds @ us" "list_all (\<lambda>c. \<not> FaceUp c) ds" "list_all FaceUp us" "successively descends us"
    using assms(1) unfolding column_ok_def by (blast elim: column_partE)
  have "successively descends (us @ run)"
  proof (cases "us = []")
    case False
    then show ?thesis
      using assms(3,4,5) c by (simp add: successively_append_iff CanMoveToTableau_def descends_def Let_def split: if_splits)
  qed (simp add: assms(3))
  moreover have "FaceUp (last run)" using assms(2,4) by (simp add: list_all_iff)
  ultimately show ?thesis
    unfolding column_ok_def using c assms(2,4) column_partI [of ds "us @ run"] by simp
qed

lemma column_flip_ok:
  assumes "column_part col" "col \<noteq> []" "\<not> FaceUp (last col)"
  shows "column_ok (butlast col @ [flip_up (last col)])"
proof -
  obtain ds us where c: "col = ds @ us" "list_all (\<lambda>c. \<not> FaceUp c) ds" "list_all FaceUp us"
    using assms(1) by (rule column_partE)
  have "us = []" using c assms(3) by (metis last_appendR last_in_set list_all_iff)
  then have "list_all (\<lambda>c. \<not> FaceUp c) (butlast col)" using c by (auto simp: list_all_iff dest: in_set_butlastD)
  then show ?thesis
    unfolding column_ok_def using column_partI [of "butlast col" "[flip_up (last col)]"] by simp
qed

lemma foundation_ok_snoc:
  "foundation_ok f \<Longrightarrow> CanMoveToFoundation c f \<Longrightarrow> foundation_ok (f @ [c])"
proof -
  assume f: "foundation_ok f" and c: "CanMoveToFoundation c f"
  have "f \<noteq> [] \<Longrightarrow> Rank (last f) = int (length f)"
    using f by (cases f rule: rev_cases) (simp_all add: foundation_ok_def upto_rec2)
  then have "Rank c = int (length f) + 1" using c by (auto simp: CanMoveToFoundation_def split: if_splits)
  then show ?thesis using f upto_rec2 [of 1 "1 + int (length f)"] by (simp add: foundation_ok_def add.commute)
qed

lemma piles_ok_count:
  assumes "piles_ok g"
  shows "length (concat (Tableau g)) + length (concat (Foundations g)) + length (Stock g) + length (Waste g) = 52"
proof -
  have "mset (map face (all_cards g)) = mset (map face NewStandardDeck)" using assms by (simp add: piles_ok_def)
  then have "length (map face (all_cards g)) = length (map face NewStandardDeck)" by (rule mset_eq_length)
  then show ?thesis by (simp add: all_cards_def length_deck)
qed

lemma score_range:
  assumes "piles_ok g"
  shows "0 \<le> score_low g" "score_high g \<le> 745" "0 \<le> Score g" "Score g \<le> 745"
proof -
  have "length (concat (Foundations g)) \<le> 52" using piles_ok_count [OF assms] by simp
  then show h: "score_high g \<le> 745" by (simp add: score_high_def score_low_def)
  show l: "0 \<le> score_low g" using assms by (simp add: piles_ok_def score_low_def)
  show "0 \<le> Score g" "Score g \<le> 745" using h l assms by (simp_all add: piles_ok_def)
qed

lemma score_exact:
  assumes "piles_ok g" "0 \<le> k" "k \<le> 15"
  shows "add64 (Score g) k = Score g + k"
  using score_range [OF assms(1)] assms(2,3)
  by (intro add64_exact) (simp add: is_int64_def int64_min_def int64_max_def)

lemmas game_defs = piles_ok_def all_cards_def face_down_count_def score_low_def score_high_def

subsection \<open>Every move keeps the invariant\<close>

lemma draw_stock_ok:
  assumes "piles_ok g" "draw_stock g = Inr (g', a, b, cs)"
  shows "piles_ok g' \<and> Tableau g' = Tableau g"
proof -
  have "Stock g \<noteq> []" and g': "g' = g\<lparr>Stock := butlast (Stock g), Waste := Waste g @ [flip_up (last (Stock g))]\<rparr>"
    using assms(2) by (auto simp: draw_stock_def Let_def split: if_splits)
  then obtain ys c where "Stock g = ys @ [c]" by (cases "Stock g" rule: rev_cases) auto
  then show ?thesis using assms(1) g' by (simp add: game_defs)
qed

lemma recycle_waste_ok:
  assumes "piles_ok g" "recycle_waste g = Inr (g', a, b, cs)"
  shows "piles_ok g' \<and> Tableau g' = Tableau g"
proof -
  have g': "Stock g = []" "g' = g\<lparr>Stock := Stock g @ map flip_down (rev (Waste g)), Waste := []\<rparr>"
    using assms(2) by (auto simp: recycle_waste_def split: if_splits)
  have "list_all (\<lambda>c. \<not> FaceUp c) (map flip_down (rev (Waste g)))" by (simp add: list_all_iff)
  then show ?thesis using assms(1) g' by (simp add: game_defs comp_def)
qed

lemma list_all_upd: "list_all P xs \<Longrightarrow> P y \<Longrightarrow> list_all P (xs[i := y])"
  by (auto simp: list_all_iff dest: set_update_subset_insert [THEN subsetD])

lemma list_all_at: "list_all P xs \<Longrightarrow> i < length xs \<Longrightarrow> P (xs ! i)"
  by (simp add: list_all_length)

lemma concat_upd_snoc:
  assumes "i < length xs"
  shows "mset (concat (xs[i := xs ! i @ ys])) = mset (concat xs) + mset ys"
  using mset_concat_upd [OF assms, of "xs ! i @ ys"] by simp

lemma length_concat_mset: "length (concat xs) = size (mset (concat xs))"
  and filter_concat_mset: "length (filter P (concat xs)) = size (filter_mset P (mset (concat xs)))"
  by (simp_all only: size_mset mset_filter [symmetric])

lemma waste_to_tableau_ok:
  assumes ok: "piles_ok g" "list_all column_ok (Tableau g)" and m: "waste_to_tableau g t = Inr (g', a, b, cs)"
  shows "piles_ok g' \<and> list_all column_ok (Tableau g')"
proof -
  have t: "0 \<le> t" "t \<le> 6" "Waste g \<noteq> []" "CanMoveToTableau (last (Waste g)) (Tableau g ! nat t)"
    and g': "g' = g\<lparr>Waste := butlast (Waste g), Tableau := (Tableau g)[nat t := Tableau g ! nat t @ [last (Waste g)]],
        Score := add64 (Score g) 5\<rparr>"
    using m by (auto simp: waste_to_tableau_def Let_def split: if_splits)
  obtain ys c where w: "Waste g = ys @ [c]" using t(3) by (cases "Waste g" rule: rev_cases) auto
  have i: "nat t < length (Tableau g)" and c: "FaceUp c" using t ok(1) w by (auto simp: piles_ok_def)
  have col: "column_ok (Tableau g ! nat t @ [c])"
    using column_part_append_run [of "Tableau g ! nat t" "[c]"] list_all_at [OF ok(2) i] c t(4) w by simp
  have T: "mset (concat (Tableau g')) = mset (concat (Tableau g)) + {#c#}"
    using concat_upd_snoc [OF i, of "[c]"] g' w by simp
  have "length (filter (\<lambda>c. \<not> FaceUp c) (concat (Tableau g'))) = length (filter (\<lambda>c. \<not> FaceUp c) (concat (Tableau g)))"
    unfolding filter_concat_mset T using c by simp
  moreover have "list_all column_ok (Tableau g')" using g' w col ok(2) by (simp add: list_all_upd)
  moreover from this have "list_all column_part (Tableau g')" by (auto simp: list_all_iff column_ok_def)
  moreover have "Score g' = Score g + 5" using score_exact [OF ok(1), of 5] g' by simp
  ultimately show ?thesis
    using ok(1) g' w T by (simp add: game_defs ac_simps)
qed

lemma waste_to_foundation_ok:
  assumes ok: "piles_ok g" and m: "waste_to_foundation g t = Inr (g', a, b, cs)"
  shows "piles_ok g' \<and> Tableau g' = Tableau g"
proof -
  have t: "0 \<le> t" "t \<le> 3" "Waste g \<noteq> []" "CanMoveToFoundation (last (Waste g)) (Foundations g ! nat t)"
    and g': "g' = g\<lparr>Waste := butlast (Waste g), Foundations := (Foundations g)[nat t := Foundations g ! nat t @ [last (Waste g)]],
        Score := add64 (Score g) 10\<rparr>"
    using m by (auto simp: waste_to_foundation_def Let_def split: if_splits)
  obtain ys c where w: "Waste g = ys @ [c]" using t(3) by (cases "Waste g" rule: rev_cases) auto
  have i: "nat t < length (Foundations g)" and f: "list_all foundation_ok (Foundations g)"
    using t ok by (auto simp: piles_ok_def)
  have "list_all foundation_ok (Foundations g')"
    using list_all_upd [OF f foundation_ok_snoc] list_all_at [OF f i] t(4) g' by simp
  moreover have T: "mset (concat (Foundations g')) = mset (concat (Foundations g)) + {#c#}"
    using concat_upd_snoc [OF i, of "[c]"] g' w by simp
  moreover have "length (concat (Foundations g')) = length (concat (Foundations g)) + 1"
    unfolding length_concat_mset T by simp
  moreover have "Score g' = Score g + 10" using score_exact [OF ok, of 10] g' by simp
  ultimately show ?thesis using ok g' w by (simp add: game_defs ac_simps)
qed

text \<open>Taking cards off a column and turning its new top card.\<close>

definition others_ok :: "nat \<Rightarrow> GameState \<Rightarrow> bool" where
  "others_ok f g \<longleftrightarrow> (\<forall>i < length (Tableau g). i \<noteq> f \<longrightarrow> column_ok (Tableau g ! i))"

lemma flip_top_ok:
  assumes ok: "piles_ok g" "others_ok f g" and f: "f < 7"
  shows "piles_ok (flip_top g f) \<and> list_all column_ok (Tableau (flip_top g f))"
proof (cases "Tableau g ! f \<noteq> [] \<and> \<not> FaceUp (last (Tableau g ! f))")
  case True
  let ?col = "Tableau g ! f"
  have i: "f < length (Tableau g)" using ok(1) f by (simp add: piles_ok_def)
  obtain ys c where col: "?col = ys @ [c]" using True by (cases ?col rule: rev_cases) auto
  define g' where "g' = flip_top g f"
  have g': "g' = g\<lparr>Tableau := (Tableau g)[f := ys @ [flip_up c]], Score := Score g + 5\<rparr>"
    using True col score_exact [OF ok(1), of 5] by (simp add: g'_def flip_top_def Let_def)
  have T: "mset (concat (Tableau g')) + {#c#} = mset (concat (Tableau g)) + {#flip_up c#}"
    using mset_concat_upd [OF i, of "ys @ [flip_up c]"] col g' by simp
  have "size (filter_mset (\<lambda>c. \<not> FaceUp c) (mset (concat (Tableau g')) + {#c#}))
      = size (filter_mset (\<lambda>c. \<not> FaceUp c) (mset (concat (Tableau g)) + {#flip_up c#}))" by (simp only: T)
  then have D: "length (filter (\<lambda>c. \<not> FaceUp c) (concat (Tableau g'))) + 1 = length (filter (\<lambda>c. \<not> FaceUp c) (concat (Tableau g)))"
    unfolding filter_concat_mset using True col by simp
  have "image_mset face (mset (concat (Tableau g')) + {#c#}) = image_mset face (mset (concat (Tableau g)) + {#flip_up c#})"
    by (simp only: T)
  then have F: "image_mset face (mset (concat (Tableau g'))) = image_mset face (mset (concat (Tableau g)))" by simp
  have "column_ok (ys @ [flip_up c])"
    using column_flip_ok [of ?col] list_all_at [of column_part, OF _ i] ok(1) True col by (simp add: piles_ok_def)
  then have C: "list_all column_ok (Tableau g')"
    using ok(2) g' i by (auto simp: others_ok_def list_all_length nth_list_update)
  then have "list_all column_part (Tableau g')" by (auto simp: list_all_iff column_ok_def)
  then have "piles_ok g'" using ok(1) g' D F by (simp add: game_defs)
  then show ?thesis using C by (simp add: g'_def)
next
  case False
  have "column_ok (Tableau g ! f)"
    using False ok(1) f by (auto simp: piles_ok_def column_ok_def list_all_length)
  then have "list_all column_ok (Tableau g)"
    using ok by (auto simp: others_ok_def list_all_length)
  moreover have "flip_top g f = g" using False by (auto simp: flip_top_def Let_def)
  ultimately show ?thesis using ok(1) by simp
qed

lemma add64_add64: "add64 (add64 a b) c = add64 a (b + c)"
  by (simp add: add64_def mod_simps algebra_simps)

lemma flip_top_add_score:
  "(flip_top g f)\<lparr>Score := add64 (Score (flip_top g f)) k\<rparr> = flip_top (g\<lparr>Score := add64 (Score g) k\<rparr>) f"
  by (simp add: flip_top_def Let_def add64_add64 add.commute)

lemma tableau_to_foundation_ok:
  assumes ok: "piles_ok g" "list_all column_ok (Tableau g)" and m: "tableau_to_foundation g f t = Inr (g', a, b, cs)"
  shows "piles_ok g' \<and> list_all column_ok (Tableau g')"
proof -
  let ?col = "Tableau g ! nat f"
  have t: "0 \<le> f" "f \<le> 6" "0 \<le> t" "t \<le> 3" "?col \<noteq> []" "CanMoveToFoundation (last ?col) (Foundations g ! nat t)"
    using m by (auto simp: tableau_to_foundation_def Let_def split: if_splits)
  obtain ys c where col: "?col = ys @ [c]" using t(5) by (cases ?col rule: rev_cases) auto
  define h where "h = g\<lparr>Tableau := (Tableau g)[nat f := ys], Foundations := (Foundations g)[nat t := Foundations g ! nat t @ [c]],
    Score := add64 (Score g) 10\<rparr>"
  have g': "g' = flip_top h (nat f)"
    using m t col unfolding tableau_to_foundation_def Let_def flip_top_add_score h_def by auto
  have i: "nat f < length (Tableau g)" "nat t < length (Foundations g)" and fo: "list_all foundation_ok (Foundations g)"
    and cp: "column_part ?col" using ok t by (auto simp: piles_ok_def list_all_length)
  have up: "FaceUp c" using list_all_at [OF ok(2) i(1)] col by (simp add: column_ok_def)
  have "column_part (take (length ys) ?col)" by (rule column_part_take [OF cp])
  then have "list_all column_part (Tableau h)"
    using ok(1) col by (simp add: h_def piles_ok_def list_all_upd)
  moreover have "list_all foundation_ok (Foundations h)"
    using list_all_upd [OF fo foundation_ok_snoc] list_all_at [OF fo i(2)] t(6) col by (simp add: h_def)
  moreover have T: "mset (concat (Tableau h)) + {#c#} = mset (concat (Tableau g))"
    using mset_concat_upd [OF i(1), of ys] col by (simp add: h_def)
  moreover have F: "mset (concat (Foundations h)) = mset (concat (Foundations g)) + {#c#}"
    using concat_upd_snoc [OF i(2), of "[c]"] by (simp add: h_def)
  moreover have "length (concat (Foundations h)) = length (concat (Foundations g)) + 1"
    unfolding length_concat_mset F by simp
  moreover have "length (filter (\<lambda>c. \<not> FaceUp c) (concat (Tableau h))) = length (filter (\<lambda>c. \<not> FaceUp c) (concat (Tableau g)))"
    unfolding filter_concat_mset T [symmetric] using up by simp
  moreover have "Score h = Score g + 10" using score_exact [OF ok(1), of 10] by (simp add: h_def)
  moreover have "length (Tableau h) = 7" "length (Foundations h) = 4" "Stock h = Stock g" "Waste h = Waste g"
    using ok(1) by (simp_all add: h_def piles_ok_def)
  ultimately have "piles_ok h" using ok(1) by (simp add: game_defs ac_simps flip: T)
  moreover have "others_ok (nat f) h" using ok(2) by (simp add: others_ok_def h_def list_all_length)
  ultimately show ?thesis using flip_top_ok [of h "nat f"] t g' by simp
qed

lemma tableau_to_tableau_ok:
  assumes ok: "piles_ok g" "list_all column_ok (Tableau g)" and m: "tableau_to_tableau g f t n = Inr (g', a, b, cs)" and n: "0 < n"
  shows "piles_ok g' \<and> list_all column_ok (Tableau g') \<and> list_all FaceUp cs \<and> successively descends cs \<and> int (length cs) = n"
proof -
  let ?src = "Tableau g ! nat f" and ?k = "length (Tableau g ! nat f) - nat n"
  have t: "0 \<le> f" "f \<le> 6" "0 \<le> t" "t \<le> 6" "f \<noteq> t" "?src \<noteq> []" "n \<le> int (length ?src)"
    "FaceUp (hd (drop ?k ?src))" "CanMoveToTableau (hd (drop ?k ?src)) (Tableau g ! nat t)" "cs = drop ?k ?src"
    using m by (auto simp: tableau_to_tableau_def Let_def split: if_splits)
  define h where "h = g\<lparr>Tableau := (Tableau g)[nat f := take ?k ?src, nat t := Tableau g ! nat t @ cs]\<rparr>"
  have g': "g' = flip_top h (nat f)" using m t by (simp add: tableau_to_tableau_def Let_def h_def)
  have i: "nat f < length (Tableau g)" "nat t < length (Tableau g)" "nat f \<noteq> nat t" and cp: "column_part ?src"
    using ok t by (auto simp: piles_ok_def list_all_length)
  have k: "?k < length ?src" using t n by simp
  have run: "list_all FaceUp cs" "successively descends cs" "cs \<noteq> []" "int (length cs) = n"
    using moving_run [OF cp k] t(8) k t(10,7) n by (simp_all add: hd_drop_conv_nth)
  have col: "column_ok (Tableau g ! nat t @ cs)"
    by (rule column_part_append_run [OF list_all_at [OF ok(2) i(2)] run(1-3)]) (use t(9,10) in simp)
  have l: "mset (concat ((Tableau g)[nat f := take ?k ?src])) + mset ?src = mset (concat (Tableau g)) + mset (take ?k ?src)"
    by (rule mset_concat_upd [OF i(1)])
  have s: "mset ?src = mset (take ?k ?src) + mset cs" unfolding t(10) mset_append [symmetric] by simp
  have "mset (concat (Tableau h)) = mset (concat ((Tableau g)[nat f := take ?k ?src])) + mset cs"
    using concat_upd_snoc [of "nat t" "(Tableau g)[nat f := take ?k ?src]" cs] i by (simp add: h_def)
  then have T: "mset (concat (Tableau h)) = mset (concat (Tableau g))" using l s by (simp add: ac_simps)
  have "length (filter (\<lambda>c. \<not> FaceUp c) (concat (Tableau h))) = length (filter (\<lambda>c. \<not> FaceUp c) (concat (Tableau g)))"
    unfolding filter_concat_mset T by simp
  moreover have "list_all column_part (Tableau h)"
    using ok(1) col column_part_take [OF cp, of ?k] by (simp add: h_def piles_ok_def list_all_upd column_ok_def)
  ultimately have "piles_ok h" using ok(1) T by (simp add: game_defs h_def)
  moreover have "others_ok (nat f) h"
    using ok(2) col i by (auto simp: others_ok_def h_def list_all_length nth_list_update)
  ultimately show ?thesis using flip_top_ok [of h "nat f"] t(1,2) g' run by simp
qed

lemma piles_frame [simp]:
  "piles_ok (g\<lparr>MovesCount := n\<rparr>) = piles_ok g" "piles_ok (g\<lparr>Status := s\<rparr>) = piles_ok g"
  "piles_ok (g\<lparr>g_UpdatedAt := u\<rparr>) = piles_ok g"
  by (simp_all add: game_defs)

lemma apply_move_type_ok:
  assumes "piles_ok g" "list_all column_ok (Tableau g)" "0 < CardCount req" "apply_move_type g req = Inr (g', a, b, cs)"
  shows "piles_ok g' \<and> list_all column_ok (Tableau g')"
  using assms(4) draw_stock_ok [OF assms(1)] recycle_waste_ok [OF assms(1)] waste_to_foundation_ok [OF assms(1)]
    waste_to_tableau_ok [OF assms(1,2)] tableau_to_foundation_ok [OF assms(1,2)] tableau_to_tableau_ok [OF assms(1,2)] assms(2,3)
  by (auto simp: apply_move_type_def split: if_splits)

lemma apply_move_type_frame:
  assumes "apply_move_type g req = Inr (g', a, b, cs)"
  shows "MovesCount g' = MovesCount g \<and> Status g' = Status g \<and> GameID g' = GameID g \<and> OwnerID g' = OwnerID g
    \<and> ComputerID g' = ComputerID g \<and> DeckSeed g' = DeckSeed g \<and> g_CreatedAt g' = g_CreatedAt g"
  using assms
  by (auto simp: apply_move_type_def draw_stock_def recycle_waste_def waste_to_tableau_def waste_to_foundation_def
      tableau_to_foundation_def tableau_to_tableau_def flip_top_def Let_def split: if_splits)

lemma ApplyMove_cases:
  obtains (refused) "Status g \<noteq> StatusInProgress" "ApplyMove now i g req = (Inl NotInProgress, g)"
  | (rejected) e where "Status g = StatusInProgress" "ApplyMove now i g req = (Inl e, g\<lparr>MovesCount := add64 (MovesCount g) 1\<rparr>)"
  | (moved) req' g1 a b cs r where "Status g = StatusInProgress" "0 < CardCount req'"
      "apply_move_type (g\<lparr>MovesCount := add64 (MovesCount g) 1\<rparr>) req' = Inr (g1, a, b, cs)"
      "ApplyMove now i g req = (Inr r, (check_won g1)\<lparr>g_UpdatedAt := now\<rparr>)"
      "r = \<lparr>MoveID = ''move-'' @ i, m_GameID = GameID g, m_OwnerID = OwnerID g, m_ComputerID = ComputerID g,
            MoveSeq = add64 (MovesCount g) 1, m_MoveType = Type req, m_FromPile = a, m_ToPile = b, m_Cards = cs, m_CreatedAt = now\<rparr>"
proof -
  let ?g0 = "g\<lparr>MovesCount := add64 (MovesCount g) 1\<rparr>"
  let ?req = "if CardCount req \<le> 0 then req\<lparr>CardCount := 1\<rparr> else req"
  show ?thesis
  proof (cases "Status g = StatusInProgress")
    case True
    show ?thesis
    proof (cases "apply_move_type ?g0 ?req")
      case (Inl e)
      then show ?thesis using True by (intro rejected) (auto simp: ApplyMove_def Let_def)
    next
      case (Inr x)
      obtain g1 a b cs where x: "x = (g1, a, b, cs)" by (cases x)
      show ?thesis
        by (rule moved [OF True, of ?req g1 a b cs]) (use True Inr x in \<open>auto simp: ApplyMove_def Let_def\<close>)
    qed
  qed (use refused in \<open>simp add: ApplyMove_def\<close>)
qed

lemma ApplyMove_ok [inv_intros]:
  assumes "game_ok g"
  shows "game_ok (snd (ApplyMove now i g req))"
proof (cases rule: ApplyMove_cases [of g now i req])
  case (moved req' g1 a b cs r)
  have "piles_ok g1 \<and> list_all column_ok (Tableau g1)" "Status g1 = Status g"
    using apply_move_type_ok [OF _ _ moved(2,3)] apply_move_type_frame [OF moved(3)] assms by (simp_all add: game_ok_def)
  then show ?thesis using moved(1,4) by (simp add: game_ok_def check_won_def)
qed (use assms in \<open>simp_all add: game_ok_def\<close>)

subsection \<open>The deal\<close>

fun deal_size :: "nat \<Rightarrow> nat \<Rightarrow> nat" where
  "deal_size 0 col = 0"
| "deal_size (Suc n) col = Suc col + deal_size n (Suc col)"

lemma take1_drop: "n < length xs \<Longrightarrow> take 1 (drop n xs) = [xs ! n]"
  by (simp add: take_Suc_conv_app_nth flip: Cons_nth_drop_Suc)

lemma dealt_column:
  assumes "list_all (\<lambda>c. \<not> FaceUp c) deck" "col < length deck"
  shows "column_ok (take col deck @ map flip_up (take 1 (drop col deck)))"
proof -
  have "list_all (\<lambda>c. \<not> FaceUp c) (take col deck)" using assms(1) by (auto simp: list_all_iff dest: in_set_takeD)
  then show ?thesis
    using column_partI [of "take col deck" "[flip_up (deck ! col)]"] assms(2)
    unfolding take1_drop [OF assms(2)] by (simp add: column_ok_def)
qed

lemma deal_ok:
  "list_all (\<lambda>c. \<not> FaceUp c) deck \<Longrightarrow> deal_size n col \<le> length deck \<Longrightarrow> deal n col deck = (cols, rest) \<Longrightarrow>
   list_all column_ok cols \<and> length cols = n \<and> length (concat cols) = deal_size n col
   \<and> length (filter (\<lambda>c. \<not> FaceUp c) (concat cols)) + n = deal_size n col
   \<and> mset (map face (concat cols)) + mset (map face rest) = mset (map face deck)"
proof (induction n arbitrary: col deck cols)
  case (Suc n)
  let ?rest = "drop (Suc col) deck"
  obtain cols' where d: "deal n (Suc col) ?rest = (cols', rest)"
    and cols: "cols = (take col deck @ map flip_up (take 1 (drop col deck))) # cols'"
    using Suc.prems(3) by (auto split: prod.splits)
  have len: "col < length deck" "deal_size n (Suc col) \<le> length ?rest" using Suc.prems(2) by auto
  have down: "list_all (\<lambda>c. \<not> FaceUp c) ?rest" "list_all (\<lambda>c. \<not> FaceUp c) (take col deck)"
    using Suc.prems(1) by (auto simp: list_all_iff dest: in_set_dropD in_set_takeD)
  note IH = Suc.IH [OF down(1) len(2) d]
  have f: "filter (\<lambda>c. \<not> FaceUp c) (take col deck) = take col deck" using down(2) by (simp add: list_all_iff)
  have "mset (map face deck) = mset (map face (take col deck)) + {#face (deck ! col)#} + mset (map face ?rest)"
    using arg_cong [OF id_take_nth_drop [OF len(1)], of "\<lambda>xs. mset (map face xs)"] by simp
  then show ?case
    using IH dealt_column [OF Suc.prems(1) len(1)] len f unfolding cols take1_drop [OF len(1)] by (simp add: ac_simps)
qed simp

lemma mset_swap_at: "i < length xs \<Longrightarrow> j < length xs \<Longrightarrow> mset (swap_at i j xs) = mset xs"
  unfolding swap_at_def by (rule mset_swap)

lemma mset_shuffle:
  "(\<And>i. draw i \<le> i) \<Longrightarrow> n < length xs \<or> n = 0 \<Longrightarrow> mset (shuffle_from draw n xs) = mset xs"
proof (induction n arbitrary: xs)
  case (Suc n)
  have l: "Suc n < length xs" using Suc.prems(2) by simp
  have "draw (Suc n) < length xs" using Suc.prems(1) [of "Suc n"] l by linarith
  then have m: "mset (swap_at (Suc n) (draw (Suc n)) xs) = mset xs" by (rule mset_swap_at [OF l])
  have "length (swap_at (Suc n) (draw (Suc n)) xs) = length xs" by (simp add: swap_at_def)
  then show ?case using Suc.IH [OF Suc.prems(1), of "swap_at (Suc n) (draw (Suc n)) xs"] l m by simp
qed simp

lemma mset_ShuffleDeck:
  assumes "draws_in_range pcg"
  shows "mset (fst (ShuffleDeck pcg crand deck seed)) = mset deck"
  unfolding ShuffleDeck_def Let_def fst_conv
  by (rule mset_shuffle) (use assms in \<open>auto simp: draws_in_range_def\<close>)

lemma NewGame_ok:
  assumes "draws_in_range pcg"
  shows "game_ok (NewGame pcg crand now i owner computer seed)"
proof -
  let ?deck = "fst (ShuffleDeck pcg crand NewStandardDeck seed)"
  obtain cols rest where d: "deal 7 0 ?deck = (cols, rest)" by fastforce
  have m: "mset ?deck = mset NewStandardDeck" by (rule mset_ShuffleDeck [OF assms])
  have len: "length ?deck = 52" using mset_eq_length [OF m] length_deck by simp
  have "list_all (\<lambda>c. \<not> FaceUp c) NewStandardDeck" by (auto simp: NewStandardDeck_def list_all_iff)
  then have "list_all (\<lambda>c. \<not> FaceUp c) ?deck" using mset_eq_setD [OF m] by (simp add: list_all_iff)
  then have "list_all column_ok cols \<and> length cols = 7 \<and> length (concat cols) = deal_size 7 0
      \<and> length (filter (\<lambda>c. \<not> FaceUp c) (concat cols)) + 7 = deal_size 7 0
      \<and> mset (map face (concat cols)) + mset (map face rest) = mset (map face ?deck)"
    by (rule deal_ok [OF _ _ d]) (simp add: len eval_nat_numeral)
  then have D: "list_all column_ok cols" "length cols = 7" "length (concat cols) = 28"
      "length (filter (\<lambda>c. \<not> FaceUp c) (concat cols)) = 21"
      "mset (map face (concat cols)) + mset (map face rest) = mset (map face ?deck)"
    by (simp_all add: eval_nat_numeral)
  have "mset (map face ?deck) = mset (map face NewStandardDeck)" using m by simp
  moreover have r: "length rest = 24"
    using D(3) arg_cong [OF D(5), of size] len by simp
  moreover have "list_all column_part cols" using D(1) by (auto simp: list_all_iff column_ok_def)
  ultimately show ?thesis
    using D d
    by (simp add: NewGame_def case_prod_beta game_ok_def game_defs foundation_ok_def list_all_iff comp_def)
qed

subsection \<open>Playing a game\<close>

text \<open>A session sends moves one after the other; a rejected one leaves the game as \<open>ApplyMove\<close> leaves it.\<close>

definition play :: "GameState \<Rightarrow> (gotime \<times> string \<times> MoveRequest) list \<Rightarrow> GameState" where
  "play = foldl (\<lambda>g (now, i, req). snd (ApplyMove now i g req))"

interpretation game: fold_step "\<lambda>g (now, i, req). snd (ApplyMove now i g req)" game_ok
  by unfold_locales (auto intro: ApplyMove_ok)

lemma play_ok: "game_ok g \<Longrightarrow> game_ok (play g ms)"
  unfolding play_def by (rule game.foldl_inv)

lemma won_piles:
  assumes "game_ok g" "Status g = StatusWon"
  shows "Stock g = [] \<and> Waste g = [] \<and> concat (Tableau g) = []"
proof -
  have f: "\<forall>f \<in> set (Foundations g). length f = 13" "length (Foundations g) = 4" and p: "piles_ok g"
    using assms by (auto simp: game_ok_def piles_ok_def)
  then have "map length (Foundations g) = replicate 4 13" by (intro nth_equalityI) auto
  then have "length (concat (Foundations g)) = 52" by (simp add: length_concat eval_nat_numeral)
  then show ?thesis using piles_ok_count [OF p] by simp
qed

subsection \<open>Properties of the game\<close>

text \<open>C34: playing any sequence of moves on a dealt game, accepted or rejected, keeps the 52 cards of the
  deck: no card is lost, duplicated or created, whatever piles and counts the requests name.\<close>

theorem cards_conserved:
  assumes "draws_in_range pcg"
  shows "mset (map face (all_cards (play (NewGame pcg crand now i owner computer seed) ms))) = mset (map face NewStandardDeck)"
  using play_ok [OF NewGame_ok [OF assms]] unfolding game_ok_def piles_ok_def by blast

text \<open>In every reachable game each column shows a face-up run of descending ranks and alternating colours
  over face-down cards, each foundation counts up from the ace, the stock is face down and the waste face up.\<close>

theorem layout_invariant:
  assumes "draws_in_range pcg" "g = play (NewGame pcg crand now i owner computer seed) ms"
  shows "list_all column_ok (Tableau g) \<and> list_all foundation_ok (Foundations g)
    \<and> list_all (\<lambda>c. \<not> FaceUp c) (Stock g) \<and> list_all FaceUp (Waste g)"
  using play_ok [OF NewGame_ok [OF assms(1)]] unfolding assms(2) game_ok_def piles_ok_def by blast

text \<open>A stack moved between columns is always a legal run, although \<^verbatim>\<open>ApplyMove\<close> only looks at its lowest
  card: the cards it records are all face up, descend by one and alternate in colour.\<close>

theorem moved_stack_is_run:
  assumes "game_ok g" "0 < n" "tableau_to_tableau g from to n = Inr (g', a, b, cs)"
  shows "list_all FaceUp cs \<and> successively descends cs \<and> int (length cs) = n"
  using tableau_to_tableau_ok [OF _ _ assms(3,2)] assms(1) unfolding game_ok_def by blast

text \<open>A reachable game is won exactly when every foundation holds thirteen cards, and then no card is left
  in the tableau, the stock or the waste.\<close>

theorem won_iff_all_on_foundations:
  assumes "draws_in_range pcg" "g = play (NewGame pcg crand now i owner computer seed) ms"
  shows "(Status g = StatusWon) = (\<forall>f \<in> set (Foundations g). length f = 13)
    \<and> (Status g = StatusWon \<longrightarrow> Stock g = [] \<and> Waste g = [] \<and> concat (Tableau g) = [])"
proof -
  have ok: "game_ok g" using play_ok [OF NewGame_ok [OF assms(1)]] assms(2) by simp
  then show ?thesis using won_piles [OF ok] unfolding game_ok_def by blast
qed

text \<open>The score of a reachable game stays between 0 and 745, so adding to it never wraps.\<close>

theorem score_bounded:
  assumes "draws_in_range pcg"
  shows "0 \<le> Score (play (NewGame pcg crand now i owner computer seed) ms)
    \<and> Score (play (NewGame pcg crand now i owner computer seed) ms) \<le> 745"
  using score_range(3,4) play_ok [OF NewGame_ok [OF assms]] unfolding game_ok_def by blast

text \<open>A rejected move changes nothing but the move counter, which it increments although no move was made.\<close>

theorem rejected_move_only_counts:
  assumes "ApplyMove now i g req = (Inl err, g')"
  shows "g' = (if Status g = StatusInProgress then g\<lparr>MovesCount := add64 (MovesCount g) 1\<rparr> else g)"
  using assms by (cases rule: ApplyMove_cases [of g now i req]) auto

text \<open>A foundation accepts a card of another suit: for every pile of fewer than thirteen cards built up from
  the ace and every suit, the card of that suit with the next rank may be placed.\<close>

theorem foundation_ignores_suit:
  assumes "foundation_ok f"
  shows "CanMoveToFoundation \<lparr>Suit = s, Rank = int (length f) + 1, FaceUp = u\<rparr> f"
  using assms by (cases f rule: rev_cases) (simp_all add: CanMoveToFoundation_def foundation_ok_def upto_rec2)

subsection \<open>The store behind the handlers\<close>

definition game_moves :: "Store \<Rightarrow> string \<Rightarrow> MoveRecord list" where
  "game_moves s k = filter (\<lambda>m. m_GameID m = k) (solitaire_moves s)"

definition game_row_ok :: "Store \<Rightarrow> string \<Rightarrow> GameState \<Rightarrow> bool" where
  "game_row_ok s k g \<longleftrightarrow> GameID g = k \<and> game_ok g \<and> MovesCount g = int (length (game_moves s k))
     \<and> map MoveSeq (game_moves s k) = [1..int (length (game_moves s k))]
     \<and> list_all (\<lambda>m. m_OwnerID m = OwnerID g \<and> m_ComputerID m = ComputerID g) (game_moves s k)"

definition store_ok :: "Store \<Rightarrow> bool" where
  "store_ok s \<longleftrightarrow> (\<forall>k g. solitaire_games s k = Some g \<longrightarrow> game_row_ok s k g)
     \<and> (\<forall>m \<in> set (solitaire_moves s). solitaire_games s (m_GameID m) \<noteq> None)"

definition fresh_ids :: "Env \<Rightarrow> Store \<Rightarrow> bool" where
  "fresh_ids env s \<longleftrightarrow> solitaire_games s (''game-'' @ env_uuid env) = None
     \<and> (\<forall>m \<in> set (solitaire_moves s). MoveID m \<noteq> ''move-'' @ env_uuid env)"

lemma GetGame_Inr:
  "GetGame flt s owner computer k = Inr g \<longleftrightarrow>
     \<not> flt SelectGame \<and> solitaire_games s k = Some g \<and> OwnerID g = owner \<and> ComputerID g = computer"
  by (auto simp: GetGame_def split: option.splits)

lemma ApplyMove_frame:
  assumes "ApplyMove now i g req = (Inr r, g')"
  shows "GameID g' = GameID g \<and> OwnerID g' = OwnerID g \<and> ComputerID g' = ComputerID g \<and> DeckSeed g' = DeckSeed g
    \<and> g_CreatedAt g' = g_CreatedAt g \<and> MovesCount g' = add64 (MovesCount g) 1 \<and> MoveSeq r = add64 (MovesCount g) 1
    \<and> MoveID r = ''move-'' @ i \<and> m_GameID r = GameID g \<and> m_OwnerID r = OwnerID g \<and> m_ComputerID r = ComputerID g"
proof (cases rule: ApplyMove_cases [of g now i req])
  case (moved req' g1 a b cs r')
  then show ?thesis using assms apply_move_type_frame [OF moved(3)] by (simp add: check_won_def)
qed (use assms in simp_all)

lemma NewGame_fields [simp]:
  "GameID (NewGame pcg crand now i owner computer seed) = ''game-'' @ i"
  "OwnerID (NewGame pcg crand now i owner computer seed) = owner"
  "ComputerID (NewGame pcg crand now i owner computer seed) = computer"
  "MovesCount (NewGame pcg crand now i owner computer seed) = 0"
  by (simp_all add: NewGame_def case_prod_beta Let_def)

text \<open>Saving a game that keeps its identifier, owner, computer, seed and creation time writes that game.\<close>

lemma SaveGame_same:
  assumes "solitaire_games s k = Some old" "GameID g = k" "OwnerID g = OwnerID old" "ComputerID g = ComputerID old"
    "DeckSeed g = DeckSeed old" "g_CreatedAt g = g_CreatedAt old" "SaveGame flt s (Some g) = Inr s'"
  shows "s' = s\<lparr>solitaire_games := (solitaire_games s)(k \<mapsto> g)\<rparr>"
proof -
  have "g\<lparr>OwnerID := OwnerID old, ComputerID := ComputerID old, DeckSeed := DeckSeed old, g_CreatedAt := g_CreatedAt old\<rparr> = g"
    using assms(3-6) by (cases g) simp
  then show ?thesis using assms(1,2,7) by (auto simp: SaveGame_def split: if_splits)
qed

definition keyed :: "Store \<Rightarrow> bool" where
  "keyed s \<longleftrightarrow> (\<forall>k g. solitaire_games s k = Some g \<longrightarrow> GameID g = k)"

text \<open>Whose data an answer shows.\<close>

fun reply_owned :: "string \<Rightarrow> reply \<Rightarrow> bool" where
  "reply_owned owner (GameReply g) = (OwnerID g = owner)"
| "reply_owned owner (MoveReply g m) = (OwnerID g = owner \<and> m_OwnerID m = owner)"
| "reply_owned owner (HistoryReply ms) = list_all (\<lambda>m. m_OwnerID m = owner) ms"
| "reply_owned owner _ = True"

text \<open>A move request either leaves the store alone and answers without a game, or writes the moved game of its
  own owner and then the move.\<close>

lemma applyMove_cases [consumes 1, case_names unchanged saved]:
  assumes "keyed s"
  obtains "snd (applyMove flt env (Some s) owner computer k) = Some s"
      "reply_owned owner (snd (fst (applyMove flt env (Some s) owner computer k)))"
  | g req r g' s1 where "solitaire_games s k = Some g" "OwnerID g = owner" "ComputerID g = computer"
      "ApplyMove (env_now env) (env_uuid env) g req = (Inr r, g')"
      "s1 = s\<lparr>solitaire_games := (solitaire_games s)(k \<mapsto> g')\<rparr>"
      "applyMove flt env (Some s) owner computer k = (case SaveMove flt s1 r of
         Inl e \<Rightarrow> ((500, StoreFailed e), Some s1) | Inr s2 \<Rightarrow> ((200, MoveReply g' r), Some s2))"
proof (cases "GetGame flt s owner computer k")
  case (Inl e)
  show ?thesis by (rule that(1)) (simp_all add: applyMove_def Inl)
next
  case (Inr g)
  then have g: "solitaire_games s k = Some g" "OwnerID g = owner" "ComputerID g = computer" by (simp_all add: GetGame_Inr)
  show ?thesis
  proof (cases "env_move env")
    case None
    show ?thesis by (rule that(1)) (simp_all add: applyMove_def Inr None)
  next
    case (Some req)
    show ?thesis
    proof (cases "ApplyMove (env_now env) (env_uuid env) g req")
      case (Pair x g')
      show ?thesis
      proof (cases x)
        case (Inl e)
        show ?thesis by (rule that(1)) (simp_all add: applyMove_def \<open>GetGame _ _ _ _ _ = _\<close> Some Pair Inl)
      next
        case r: (Inr r)
        show ?thesis
        proof (cases "SaveGame flt s (Some g')")
          case (Inl e)
          show ?thesis by (rule that(1)) (simp_all add: applyMove_def \<open>GetGame _ _ _ _ _ = _\<close> Some Pair r Inl)
        next
          case s1: (Inr s1)
          have a: "ApplyMove (env_now env) (env_uuid env) g req = (Inr r, g')" using Pair r by simp
          note f = ApplyMove_frame [OF a]
          have "s1 = s\<lparr>solitaire_games := (solitaire_games s)(k \<mapsto> g')\<rparr>"
            by (rule SaveGame_same [OF g(1) _ _ _ _ _ s1]) (use f assms g(1) in \<open>simp_all add: keyed_def\<close>)
          then show ?thesis
            by (rule that(2) [OF g a]) (simp add: applyMove_def Inr Some Pair r s1 split: sum.split)
        qed
      qed
    qed
  qed
qed

definition isolates :: "string \<Rightarrow> Store \<Rightarrow> response \<times> Store option \<Rightarrow> bool" where
  "isolates owner s out \<longleftrightarrow> reply_owned owner (snd (fst out)) \<and>
     (case snd out of None \<Rightarrow> False | Some s' \<Rightarrow>
        (\<forall>k g. solitaire_games s k = Some g \<and> OwnerID g \<noteq> owner \<longrightarrow> solitaire_games s' k = Some g)
        \<and> filter (\<lambda>m. m_OwnerID m \<noteq> owner) (solitaire_moves s') = filter (\<lambda>m. m_OwnerID m \<noteq> owner) (solitaire_moves s))"

lemma isolates_same: "snd out = Some s \<Longrightarrow> reply_owned owner (snd (fst out)) \<Longrightarrow> isolates owner s out"
  by (simp add: isolates_def)

lemma isolates_createGame:
  assumes "fresh_ids env s"
  shows "isolates owner s (createGame flt env (Some s) owner computer)"
  using assms
  by (auto simp: isolates_def createGame_def SaveGame_def fresh_ids_def Let_def split: sum.split if_splits)

lemma isolates_getGame: "isolates owner s (getGame flt (Some s) owner computer k, Some s)"
  by (rule isolates_same) (auto simp: getGame_def GetGame_Inr split: sum.split)

lemma isolates_getHistory: "isolates owner s (getHistory flt (Some s) owner computer k, Some s)"
  by (rule isolates_same) (auto simp: getHistory_def ListMoves_def list_all_iff)

lemma isolates_applyMove:
  assumes "keyed s"
  shows "isolates owner s (applyMove flt env (Some s) owner computer k)"
  using assms
proof (cases rule: applyMove_cases [of s flt env owner computer k])
  case unchanged
  then show ?thesis by (intro isolates_same)
next
  case (saved g req r g' s1)
  then show ?thesis
    using ApplyMove_frame [OF saved(4)] by (auto simp: isolates_def SaveMove_def split: sum.splits if_splits)
qed

text \<open>Requests are isolated by owner: whatever the path, the method and the database failures, a request
  changes no game and no move of another owner and its answer shows no other owner's data.\<close>

theorem solitaire_owner_isolation:
  assumes "keyed s" "fresh_ids env s"
  shows "isolates (trimSpace (X_User r)) s (HandleSolitaireRouter flt env (Some s) r)"
  unfolding HandleSolitaireRouter_def Let_def
  using isolates_createGame [OF assms(2)] isolates_getGame isolates_getHistory isolates_applyMove [OF assms(1)]
  by (auto split: list.split intro: isolates_same)

lemma game_row_ok_other:
  assumes "game_row_ok s k g" "solitaire_moves s' = solitaire_moves s @ ms" "\<forall>m \<in> set ms. m_GameID m \<noteq> k"
  shows "game_row_ok s' k g"
proof -
  have "game_moves s' k = game_moves s k" using assms(2,3) by (simp add: game_moves_def)
  then show ?thesis using assms(1) by (simp add: game_row_ok_def)
qed

lemma store_ok_insert:
  assumes "store_ok s" "solitaire_games s (GameID g) = None" "game_ok g" "MovesCount g = 0"
  shows "store_ok (s\<lparr>solitaire_games := (solitaire_games s)(GameID g \<mapsto> g)\<rparr>)"
proof -
  have "game_moves s (GameID g) = []" using assms(1,2) by (auto simp: store_ok_def game_moves_def filter_empty_conv)
  then have "game_row_ok (s\<lparr>solitaire_games := (solitaire_games s)(GameID g \<mapsto> g)\<rparr>) (GameID g) g"
    using assms(3,4) by (simp add: game_row_ok_def game_moves_def)
  moreover have "game_row_ok (s\<lparr>solitaire_games := (solitaire_games s)(GameID g \<mapsto> g)\<rparr>) k h"
    if "solitaire_games s k = Some h" for k h
    using game_row_ok_other [of s k h _ "[]"] assms(1) that by (simp add: store_ok_def)
  ultimately show ?thesis using assms(1) by (auto simp: store_ok_def)
qed

lemma store_ok_move:
  assumes ok: "store_ok s" "solitaire_games s k = Some g" and a: "ApplyMove now i g req = (Inr r, g')"
    and len: "int (length (solitaire_moves s)) < int64_max"
  shows "store_ok \<lparr>solitaire_games = (solitaire_games s)(k \<mapsto> g'), solitaire_moves = solitaire_moves s @ [r]\<rparr>" (is "store_ok ?s")
proof -
  note f = ApplyMove_frame [OF a]
  have row: "GameID g = k" "game_ok g" "MovesCount g = int (length (game_moves s k))"
      "map MoveSeq (game_moves s k) = [1..int (length (game_moves s k))]"
      "list_all (\<lambda>m. m_OwnerID m = OwnerID g \<and> m_ComputerID m = ComputerID g) (game_moves s k)"
    using ok by (auto simp: store_ok_def game_row_ok_def)
  have "length (game_moves s k) \<le> length (solitaire_moves s)" unfolding game_moves_def by (rule length_filter_le)
  then have n: "add64 (MovesCount g) 1 = int (length (game_moves s k)) + 1"
    unfolding row(3) using len by (intro add64_exact) (simp add: is_int64_def int64_min_def int64_max_def)
  have m: "game_moves ?s k = game_moves s k @ [r]" using f row(1) by (simp add: game_moves_def)
  have "game_ok g'" using ApplyMove_ok [OF row(2), of now i req] a by simp
  then have "game_row_ok ?s k g'"
    unfolding game_row_ok_def m using f n row upto_rec2 [of 1 "1 + int (length (game_moves s k))"] by (simp add: add.commute)
  moreover have "game_row_ok ?s j h" if "solitaire_games s j = Some h" "j \<noteq> k" for j h
    using game_row_ok_other [of s j h ?s "[r]"] that ok f row(1) by (simp add: store_ok_def)
  ultimately show ?thesis using ok(1) f row(1) by (auto simp: store_ok_def)
qed

lemma store_ok_createGame:
  assumes "store_ok s" "fresh_ids env s" "draws_in_range (env_pcg env)"
  shows "\<exists>s'. snd (createGame flt env (Some s) owner computer) = Some s' \<and> store_ok s'"
  using assms store_ok_insert [OF assms(1), of "NewGame (env_pcg env) (env_crand env) (env_now env) (env_uuid env) owner computer (env_seed env)"]
    NewGame_ok [OF assms(3)]
  by (auto simp: createGame_def SaveGame_def fresh_ids_def Let_def split: sum.splits if_splits)

lemma store_ok_applyMove:
  assumes "store_ok s" "fresh_ids env s" "\<not> flt InsertMove" "int (length (solitaire_moves s)) < int64_max"
  shows "\<exists>s'. snd (applyMove flt env (Some s) owner computer k) = Some s' \<and> store_ok s'"
proof -
  have "keyed s" using assms(1) by (auto simp: keyed_def store_ok_def game_row_ok_def)
  then show ?thesis
  proof (cases rule: applyMove_cases [of s flt env owner computer k])
    case unchanged
    then show ?thesis using assms(1) by simp
  next
    case (saved g req r g' s1)
    have "MoveID r \<notin> MoveID ` set (solitaire_moves s)"
      using ApplyMove_frame [OF saved(4)] assms(2) by (auto simp: fresh_ids_def)
    then have "SaveMove flt s1 r = Inr \<lparr>solitaire_games = (solitaire_games s)(k \<mapsto> g'), solitaire_moves = solitaire_moves s @ [r]\<rparr>"
      using assms(3) saved(5) by (simp add: SaveMove_def)
    then show ?thesis using store_ok_move [OF assms(1) saved(1,4) assms(4)] saved(6) by simp
  qed
qed

text \<open>The history of every stored game is gapless: a request, unless the database refuses to insert its move,
  keeps every stored game a legal game whose recorded moves are numbered from one to its move count.\<close>

theorem solitaire_history_gapless:
  assumes "store_ok s" "fresh_ids env s" "draws_in_range (env_pcg env)" "\<not> flt InsertMove"
    and "int (length (solitaire_moves s)) < int64_max"
  shows "\<exists>s'. snd (HandleSolitaireRouter flt env (Some s) r) = Some s' \<and> store_ok s'"
  unfolding HandleSolitaireRouter_def Let_def
  using store_ok_createGame [OF assms(1-3)] store_ok_applyMove [where flt = flt, OF assms(1,2,4,5)] assms(1)
  by (auto split: list.split)

subsection \<open>Witnesses\<close>

definition wit_pcg :: generator where
  "wit_pcg s t i = i"

lemma wit_pcg_in_range: "draws_in_range wit_pcg"
  by (simp add: draws_in_range_def wit_pcg_def)

lemma shuffle_id: "shuffle_from (\<lambda>i. i) n xs = xs"
  by (induction n arbitrary: xs) (simp_all add: swap_at_def)

lemma wit_shuffle: "fst (ShuffleDeck wit_pcg 0 deck 1) = deck"
  by (simp add: ShuffleDeck_def Let_def wit_pcg_def [abs_def] shuffle_id)

definition wit_game :: GameState where
  "wit_game = NewGame wit_pcg 0 0 ''a'' ''o'' ''c'' 1"

lemma wit_deal: "deal 7 0 NewStandardDeck = (
   [[\<lparr>Suit = SuitSpades, Rank = 1, FaceUp = True\<rparr>],
    map (\<lambda>r. \<lparr>Suit = SuitSpades, Rank = r, FaceUp = r = 3\<rparr>) [2, 3],
    map (\<lambda>r. \<lparr>Suit = SuitSpades, Rank = r, FaceUp = r = 6\<rparr>) [4, 5, 6],
    map (\<lambda>r. \<lparr>Suit = SuitSpades, Rank = r, FaceUp = r = 10\<rparr>) [7, 8, 9, 10],
    map (\<lambda>r. \<lparr>Suit = SuitSpades, Rank = r, FaceUp = False\<rparr>) [11, 12, 13]
      @ map (\<lambda>r. \<lparr>Suit = SuitHearts, Rank = r, FaceUp = r = 2\<rparr>) [1, 2],
    map (\<lambda>r. \<lparr>Suit = SuitHearts, Rank = r, FaceUp = r = 8\<rparr>) [3, 4, 5, 6, 7, 8],
    map (\<lambda>r. \<lparr>Suit = SuitHearts, Rank = r, FaceUp = False\<rparr>) [9, 10, 11, 12, 13]
      @ map (\<lambda>r. \<lparr>Suit = SuitDiamonds, Rank = r, FaceUp = r = 2\<rparr>) [1, 2]],
   map (\<lambda>r. \<lparr>Suit = SuitDiamonds, Rank = r, FaceUp = False\<rparr>) [3..13] @ map (\<lambda>r. \<lparr>Suit = SuitClubs, Rank = r, FaceUp = False\<rparr>) [1..13])"
  by (simp add: NewStandardDeck_def eval_nat_numeral upto.simps flip_up_def)

lemma wit_game_ok: "game_ok wit_game"
  unfolding wit_game_def by (rule NewGame_ok [OF wit_pcg_in_range])

lemma wit_tableau: "Tableau wit_game = fst (deal 7 0 NewStandardDeck)"
  by (simp add: wit_game_def NewGame_def case_prod_beta wit_shuffle)

lemma wit_move:
  "\<exists>g'. tableau_to_tableau wit_game 0 4 1
     = Inr (g', tableau_name 0, tableau_name 4, [\<lparr>Suit = SuitSpades, Rank = 1, FaceUp = True\<rparr>])"
  unfolding tableau_to_tableau_def Let_def wit_tableau wit_deal by (simp add: CanMoveToTableau_def Suit_Color_def)

theorem cards_conserved_witness:
  "mset (map face (all_cards (play wit_game [(1, ''m'', \<lparr>Type = MoveTableauToTable, FromPile = 0, ToPile = 4, CardCount = 0\<rparr>)])))
   = mset (map face NewStandardDeck)"
  unfolding wit_game_def by (rule cards_conserved [OF wit_pcg_in_range])

theorem layout_invariant_witness:
  "list_all column_ok (Tableau (play wit_game [])) \<and> list_all (\<lambda>c. \<not> FaceUp c) (Stock (play wit_game []))"
  using layout_invariant [OF wit_pcg_in_range, of "play wit_game []" 0 0 "''a''" "''o''" "''c''" 1 "[]"]
  by (simp add: wit_game_def)

theorem moved_stack_is_run_witness:
  "successively descends [\<lparr>Suit = SuitSpades, Rank = 1, FaceUp = True\<rparr>] \<and> int (length [\<lparr>Suit = SuitSpades, Rank = 1, FaceUp = True\<rparr>]) = 1"
  using wit_move moved_stack_is_run [OF wit_game_ok, of 1 0 4] by fastforce

theorem won_iff_all_on_foundations_witness:
  "(Status (play wit_game []) = StatusWon) = (\<forall>f \<in> set (Foundations (play wit_game [])). length f = 13)"
  using won_iff_all_on_foundations [OF wit_pcg_in_range, of "play wit_game []" 0 0 "''a''" "''o''" "''c''" 1 "[]"]
  by (simp add: wit_game_def)

theorem score_bounded_witness:
  "Score (play wit_game [(1, ''m'', \<lparr>Type = MoveDrawStock, FromPile = 0, ToPile = 0, CardCount = 0\<rparr>)]) \<le> 745"
  unfolding wit_game_def using score_bounded [OF wit_pcg_in_range] by blast

theorem rejected_move_only_counts_witness:
  "snd (ApplyMove 1 ''m'' wit_game \<lparr>Type = MoveFoundToTableau, FromPile = 0, ToPile = 0, CardCount = 0\<rparr>)
   = wit_game\<lparr>MovesCount := 1\<rparr>"
proof -
  let ?req = "\<lparr>Type = MoveFoundToTableau, FromPile = 0, ToPile = 0, CardCount = 0\<rparr>"
  have s: "Status wit_game = StatusInProgress" "MovesCount wit_game = 0"
    by (simp_all add: wit_game_def NewGame_def case_prod_beta Let_def)
  then have "ApplyMove 1 ''m'' wit_game ?req = (Inl (Unsupported MoveFoundToTableau), snd (ApplyMove 1 ''m'' wit_game ?req))"
    by (simp add: ApplyMove_def apply_move_type_def Let_def)
  from rejected_move_only_counts [OF this] show ?thesis using s by (simp add: add64_def)
qed

theorem foundation_ignores_suit_witness:
  "CanMoveToFoundation \<lparr>Suit = SuitHearts, Rank = 2, FaceUp = True\<rparr> [\<lparr>Suit = SuitSpades, Rank = 1, FaceUp = True\<rparr>]"
  using foundation_ignores_suit [of "[\<lparr>Suit = SuitSpades, Rank = 1, FaceUp = True\<rparr>]" SuitHearts True]
  by (simp add: foundation_ok_def)

definition wit_env :: Env where
  "wit_env = \<lparr>env_pcg = wit_pcg, env_crand = 0, env_now = 0, env_uuid = ''u'', env_seed = 1,
     env_move = Some \<lparr>Type = MoveTableauToTable, FromPile = 0, ToPile = 4, CardCount = 1\<rparr>\<rparr>"

definition wit_store :: Store where
  "wit_store = \<lparr>solitaire_games = [''game-a'' \<mapsto> wit_game], solitaire_moves = []\<rparr>"

lemma wit_store_ok: "store_ok wit_store" "fresh_ids wit_env wit_store" "keyed wit_store"
  using wit_game_ok
  by (auto simp: store_ok_def wit_store_def fresh_ids_def wit_env_def keyed_def game_row_ok_def game_moves_def wit_game_def)

definition wit_request :: Request where
  "wit_request = \<lparr>Method = MethodPost, Path = ''/api/solitaire/games/game-a/moves'', X_User = ''o'', X_Computer = ''c''\<rparr>"

theorem solitaire_owner_isolation_witness:
  "isolates (trimSpace (X_User wit_request)) wit_store (HandleSolitaireRouter (\<lambda>_. False) wit_env (Some wit_store) wit_request)"
  by (rule solitaire_owner_isolation [OF wit_store_ok(3,2)])

theorem solitaire_history_gapless_witness:
  "\<exists>s'. snd (HandleSolitaireRouter (\<lambda>_. False) wit_env (Some wit_store) wit_request) = Some s' \<and> store_ok s'"
  by (rule solitaire_history_gapless [OF wit_store_ok(1,2)])
    (simp_all add: wit_env_def wit_pcg_in_range wit_store_def int64_max_def)

end
