(* ===== verification/Canonical_JSON.thy ===== *)
theory Canonical_JSON
  imports Prelude
begin

text \<open>
  Canonical JSON (\<^verbatim>\<open>internal/computerevent/canonical.go\<close>), the preimage of every digest and signature of
  the event protocol. A value is the tree that \<^verbatim>\<open>json.Marshal\<close> and a decoder with \<^verbatim>\<open>UseNumber\<close> produce;
  the entries of an object come in the order in which the runtime iterates over the map. Bytes of a
  multi-byte character are at least 128, so escaping a valid string byte by byte writes what escaping it
  character by character writes. The main results: the printed bytes do not depend on the order of
  iteration, and two values have the same bytes only if they are equal.
\<close>

unbundle bit_operations_syntax

subsection \<open>Text encodings\<close>

text \<open>\<^verbatim>\<open>utf8.DecodeRune\<close>: the first character of a byte sequence and the bytes after it, or nothing where the
  bytes are not valid there.\<close>

definition cont :: "nat \<Rightarrow> bool" where
  "cont b \<longleftrightarrow> 128 \<le> b \<and> b < 192"

fun decode_rune :: "nat list \<Rightarrow> (nat \<times> nat list) option" where
  "decode_rune [] = None"
| "decode_rune (a # bs) =
     (if a < 128 then Some (a, bs)
      else if 194 \<le> a \<and> a < 224 then
        (case bs of b # r \<Rightarrow> if cont b then Some ((a - 192) * 64 + (b - 128), r) else None | [] \<Rightarrow> None)
      else if 224 \<le> a \<and> a < 240 then
        (case bs of b # c # r \<Rightarrow>
           if cont b \<and> cont c \<and> (a = 224 \<longrightarrow> 160 \<le> b) \<and> (a = 237 \<longrightarrow> b < 160)
           then Some ((a - 224) * 4096 + (b - 128) * 64 + (c - 128), r) else None
         | _ \<Rightarrow> None)
      else if 240 \<le> a \<and> a < 245 then
        (case bs of b # c # d # r \<Rightarrow>
           if cont b \<and> cont c \<and> cont d \<and> (a = 240 \<longrightarrow> 144 \<le> b) \<and> (a = 244 \<longrightarrow> b < 144)
           then Some ((a - 240) * 262144 + (b - 128) * 4096 + (c - 128) * 64 + (d - 128), r) else None
         | _ \<Rightarrow> None)
      else None)"

lemma decode_rune_shorter: "decode_rune bs = Some (r, rest) \<Longrightarrow> length rest < length bs"
  by (cases bs) (auto split: if_splits list.splits)

text \<open>\<^verbatim>\<open>[]rune(s)\<close> and \<^verbatim>\<open>utf8.ValidString\<close>: an invalid byte reads as the replacement character.\<close>

function runes :: "nat list \<Rightarrow> nat list" where
  "runes [] = []"
| "runes (b # bs) = (case decode_rune (b # bs) of None \<Rightarrow> 0xFFFD # runes bs | Some (r, rest) \<Rightarrow> r # runes rest)"
  by pat_completeness auto
termination
  by (relation "measure length") (auto dest: decode_rune_shorter simp del: decode_rune.simps)

function valid_utf8 :: "nat list \<Rightarrow> bool" where
  "valid_utf8 [] = True"
| "valid_utf8 (b # bs) = (case decode_rune (b # bs) of None \<Rightarrow> False | Some (r, rest) \<Rightarrow> valid_utf8 rest)"
  by pat_completeness auto
termination
  by (relation "measure length") (auto dest: decode_rune_shorter simp del: decode_rune.simps)

definition ValidString :: "string \<Rightarrow> bool" where
  "ValidString s = valid_utf8 (byte_codes s)"

definition utf16_units :: "nat \<Rightarrow> nat list" where
  "utf16_units r =
     (if r < 0xD800 \<or> 0xE000 \<le> r \<and> r < 0x10000 then [r]
      else if 0x10000 \<le> r \<and> r < 0x110000 then [0xD800 + (r - 0x10000) div 1024, 0xDC00 + (r - 0x10000) mod 1024]
      else [0xFFFD])"

definition utf16_encode :: "string \<Rightarrow> nat list" where
  "utf16_encode s = concat (map utf16_units (runes (byte_codes s)))"

fun units_less :: "nat list \<Rightarrow> nat list \<Rightarrow> bool" where
  "units_less (l # ls) (r # rs) = (if l \<noteq> r then l < r else units_less ls rs)"
| "units_less ls rs = (length ls < length rs)"

definition utf16Less :: "string \<Rightarrow> string \<Rightarrow> bool" where
  "utf16Less a b = units_less (utf16_encode a) (utf16_encode b)"

lemma utf16Less_less: "utf16Less a b \<longleftrightarrow> utf16_encode a < utf16_encode b"
proof -
  have "units_less ls rs \<longleftrightarrow> ls < rs" for ls rs
  proof (induction ls arbitrary: rs)
    case Nil
    then show ?case by (cases rs) simp_all
  next
    case (Cons l ls)
    then show ?case by (cases rs) auto
  qed
  then show ?thesis by (simp add: utf16Less_def)
qed

subsection \<open>Values and their canonical form\<close>

datatype json = JNull | JBool bool | JString string | JNumber string
  | JArray "json list" | JObject "(string \<times> json) list"

datatype canon_error = CanonInvalidUTF8 | CanonNonIntegral string

definition isCanonicalInteger :: "string \<Rightarrow> bool" where
  "isCanonicalInteger value =
     (if value = ''0'' then True
      else if value = [] then False
      else if hd value = CHR ''-'' \<and> (length value = 1 \<or> value ! 1 = CHR ''0'') then False
      else if hd value \<noteq> CHR ''-'' \<and> hd value = CHR ''0'' then False
      else let start = (if hd value = CHR ''-'' then 1 else 0) in
        list_all (\<lambda>c. CHR ''0'' \<le> c \<and> c \<le> CHR ''9'') (drop start value))"

definition hexdigit :: "nat \<Rightarrow> char" where
  "hexdigit n = (if n < 10 then char_of (48 + n) else char_of (87 + n))"

definition escape :: "char \<Rightarrow> string" where
  "escape c =
     (if c = CHR 0x22 \<or> c = CHR 0x5C then [CHR 0x5C, c]
      else if c = CHR 0x08 then [CHR 0x5C, CHR ''b'']
      else if c = CHR 0x09 then [CHR 0x5C, CHR ''t'']
      else if c = CHR 0x0A then [CHR 0x5C, CHR ''n'']
      else if c = CHR 0x0C then [CHR 0x5C, CHR ''f'']
      else if c = CHR 0x0D then [CHR 0x5C, CHR ''r'']
      else if of_char c < (32 :: nat)
        then [CHR 0x5C, CHR ''u'', CHR ''0'', CHR ''0'', hexdigit (of_char c div 16), hexdigit (of_char c mod 16)]
      else [c])"

definition appendCanonicalString :: "string \<Rightarrow> canon_error + string" where
  "appendCanonicalString s =
     (if \<not> ValidString s then Inl CanonInvalidUTF8
      else Inr (CHR 0x22 # concat (map escape s) @ [CHR 0x22]))"

fun commas :: "string list \<Rightarrow> string" where
  "commas [] = []"
| "commas [x] = x"
| "commas (x # y # ys) = x @ '','' @ commas (y # ys)"

definition member_text :: "string \<Rightarrow> canon_error + string \<Rightarrow> canon_error + string" where
  "member_text k v =
     (case appendCanonicalString k of Inl e \<Rightarrow> Inl e
      | Inr s \<Rightarrow> (case v of Inl e \<Rightarrow> Inl e | Inr t \<Rightarrow> Inr (s @ '':'' @ t)))"

lemma map_member_cong [fundef_cong]:
  "xs = ys \<Longrightarrow> (\<And>k v. (k, v) \<in> set ys \<Longrightarrow> f k v = g k v) \<Longrightarrow> map (\<lambda>(k, v). f k v) xs = map (\<lambda>(k, v). g k v) ys"
  by auto

function appendCanonical :: "json \<Rightarrow> canon_error + string" where
  "appendCanonical JNull = Inr ''null''"
| "appendCanonical (JBool b) = Inr (if b then ''true'' else ''false'')"
| "appendCanonical (JString s) = appendCanonicalString s"
| "appendCanonical (JNumber n) = (if isCanonicalInteger n then Inr n else Inl (CanonNonIntegral n))"
| "appendCanonical (JArray items) =
     (case all_results (map appendCanonical items) of Inl e \<Rightarrow> Inl e
      | Inr ts \<Rightarrow> Inr (''['' @ commas ts @ '']''))"
| "appendCanonical (JObject kvs) =
     (case all_results (map (\<lambda>(k, v). member_text k (appendCanonical v)) (go_sort (utf16_encode \<circ> fst) kvs)) of
        Inl e \<Rightarrow> Inl e
      | Inr ts \<Rightarrow> Inr (''{'' @ commas ts @ ''}''))"
  by pat_completeness auto
termination
proof (relation "measure size")
  fix kvs :: "(string \<times> json) list" and k :: string and v :: json
  assume "(k, v) \<in> set (go_sort (utf16_encode \<circ> fst) kvs)"
  then have "(k, v) \<in> set kvs" by simp
  then have "size_prod (\<lambda>_. 0) size (k, v) \<le> size_list (size_prod (\<lambda>_. 0) size) kvs"
    by (rule size_list_estimation') simp
  then show "(v, JObject kvs) \<in> measure size" by simp
qed (auto intro!: le_imp_less_Suc size_list_estimation')

subsection \<open>The key order is total on valid strings\<close>

definition encode_rune :: "nat \<Rightarrow> nat list" where
  "encode_rune r =
     (if r < 128 then [r]
      else if r < 2048 then [192 + r div 64, 128 + r mod 64]
      else if r < 65536 then [224 + r div 4096, 128 + r div 64 mod 64, 128 + r mod 64]
      else [240 + r div 262144, 128 + r div 4096 mod 64, 128 + r div 64 mod 64, 128 + r mod 64])"

definition scalar :: "nat \<Rightarrow> bool" where
  "scalar r \<longleftrightarrow> r < 0xD800 \<or> 0xE000 \<le> r \<and> r < 0x110000"

lemma digits64:
  assumes "b < (64 :: nat)"
  shows "(a * 64 + b) div 64 = a" "(a * 64 + b) mod 64 = b"
  using assms by simp_all

lemma three_byte_range:
  fixes a b c :: nat
  assumes "a < 16" "b < 64" "c < 64" "a = 0 \<longrightarrow> 32 \<le> b" "a = 13 \<longrightarrow> b < 32"
  shows "2048 \<le> (a * 64 + b) * 64 + c \<and> (a * 64 + b) * 64 + c < 65536 \<and> scalar ((a * 64 + b) * 64 + c)"
proof -
  consider "a = 0" | "0 < a" "a \<le> 12" | "a = 13" | "14 \<le> a" by linarith
  then show ?thesis by cases (use assms in \<open>auto simp: scalar_def\<close>)
qed

lemma four_byte_range:
  fixes a b c d :: nat
  assumes "a < 5" "b < 64" "c < 64" "d < 64" "a = 0 \<longrightarrow> 16 \<le> b" "a = 4 \<longrightarrow> b < 16"
  shows "65536 \<le> ((a * 64 + b) * 64 + c) * 64 + d \<and> ((a * 64 + b) * 64 + c) * 64 + d < 1114112"
proof -
  consider "a = 0" | "0 < a" "a \<le> 3" | "a = 4" using assms(1) by linarith
  then show ?thesis by cases (use assms in auto)
qed

lemma decode_encode:
  assumes "decode_rune bs = Some (r, rest)"
  shows "bs = encode_rune r @ rest \<and> scalar r"
proof -
  obtain a bs' where bs: "bs = a # bs'" using assms by (cases bs) auto
  consider "a < 128" | "194 \<le> a" "a < 224" | "224 \<le> a" "a < 240" | "240 \<le> a" "a < 245"
    using assms bs by (auto split: if_splits)
  then show ?thesis
  proof cases
    case 1
    then show ?thesis using assms bs by (simp add: encode_rune_def scalar_def)
  next
    case 2
    then obtain b where b: "bs' = b # rest" "cont b" "r = (a - 192) * 64 + (b - 128)"
      using assms bs by (auto split: if_splits list.splits)
    have l: "b - 128 < 64" using b(2) unfolding cont_def by linarith
    have "r div 64 = a - 192" "r mod 64 = b - 128" by (simp_all only: b(3) digits64 [OF l])
    moreover have "128 \<le> r" "r < 2048" using 2 b by (auto simp: cont_def)
    ultimately show ?thesis using 2 b(1,2) bs by (simp add: encode_rune_def scalar_def cont_def)
  next
    case 3
    then obtain b c where b: "bs' = b # c # rest" "cont b" "cont c" "a = 224 \<longrightarrow> 160 \<le> b" "a = 237 \<longrightarrow> b < 160"
        "r = ((a - 224) * 64 + (b - 128)) * 64 + (c - 128)"
      using assms bs by (auto split: if_splits list.splits simp: algebra_simps)
    have l: "b - 128 < 64" "c - 128 < 64" using b(2,3) unfolding cont_def by linarith+
    have q: "r div 64 = (a - 224) * 64 + (b - 128)" "r mod 64 = c - 128" by (simp_all only: b(6) digits64 [OF l(2)])
    have "r div 64 mod 64 = b - 128" "r div 64 div 64 = a - 224" by (simp_all only: q digits64 [OF l(1)])
    moreover have "r div 4096 = r div 64 div 64" by (simp add: div_mult2_eq [symmetric])
    moreover have h: "a - 224 < 16" "a - 224 = 0 \<longrightarrow> 32 \<le> b - 128" using 3 b(4) by presburger+
    moreover have "a - 224 = 13 \<longrightarrow> b - 128 < 32" using b(2,5) unfolding cont_def by presburger
    from three_byte_range [OF h(1) l h(2) this] have "2048 \<le> r \<and> r < 65536 \<and> scalar r" unfolding b(6) .
    ultimately show ?thesis using 3(1) b(1-3) bs q(2) by (simp add: encode_rune_def cont_def)
  next
    case 4
    then obtain b c d where b: "bs' = b # c # d # rest" "cont b" "cont c" "cont d" "a = 240 \<longrightarrow> 144 \<le> b" "a = 244 \<longrightarrow> b < 144"
        "r = (((a - 240) * 64 + (b - 128)) * 64 + (c - 128)) * 64 + (d - 128)"
      using assms bs by (auto split: if_splits list.splits simp: algebra_simps)
    have l: "b - 128 < 64" "c - 128 < 64" "d - 128 < 64" using b(2-4) unfolding cont_def by linarith+
    have q: "r div 64 = ((a - 240) * 64 + (b - 128)) * 64 + (c - 128)" "r mod 64 = d - 128"
      by (simp_all only: b(7) digits64 [OF l(3)])
    have q': "r div 64 div 64 = (a - 240) * 64 + (b - 128)" "r div 64 mod 64 = c - 128"
      by (simp_all only: q digits64 [OF l(2)])
    have "r div 64 div 64 div 64 = a - 240" "r div 64 div 64 mod 64 = b - 128" by (simp_all only: q' digits64 [OF l(1)])
    moreover have "r div 4096 = r div 64 div 64" "r div 262144 = r div 64 div 64 div 64" by (simp_all add: div_mult2_eq [symmetric])
    moreover have h: "a - 240 < 5" "a - 240 = 0 \<longrightarrow> 16 \<le> b - 128" using 4 b(5) by presburger+
    moreover have "a - 240 = 4 \<longrightarrow> b - 128 < 16" using b(2,6) unfolding cont_def by presburger
    from four_byte_range [OF h(1) l h(2) this] have "65536 \<le> r \<and> r < 1114112" unfolding b(7) .
    ultimately show ?thesis using 4(1) b(1-4) bs q(2) q'(2) by (simp add: encode_rune_def cont_def scalar_def)
  qed
qed

lemma valid_utf8_encode: "valid_utf8 bs \<Longrightarrow> bs = concat (map encode_rune (runes bs)) \<and> list_all scalar (runes bs)"
proof (induction bs rule: runes.induct)
  case (2 b bs)
  then obtain r rest where d: "decode_rune (b # bs) = Some (r, rest)" "valid_utf8 rest"
    by (auto simp del: decode_rune.simps split: option.splits)
  have r: "runes (b # bs) = r # runes rest" using d(1) by (simp del: decode_rune.simps)
  have IH: "rest = concat (map encode_rune (runes rest)) \<and> list_all scalar (runes rest)"
    using 2(2) [OF d(1) refl d(2)] .
  have "b # bs = encode_rune r @ rest" "scalar r" using decode_encode [OF d(1)] by simp_all
  then show ?case unfolding r using IH by simp
qed simp

lemma utf16_units_inj:
  assumes "scalar r" "scalar s" "utf16_units r @ xs = utf16_units s @ ys"
  shows "r = s \<and> xs = ys"
proof -
  have hi: "0xD800 + k div 1024 < 0xDC00" if "k < 0x100000" for k :: nat using that by auto
  show ?thesis
  proof (cases "r < 0x10000"; cases "s < 0x10000")
    assume rs: "\<not> r < 0x10000" "\<not> s < 0x10000"
    then have e: "(r - 0x10000) div 1024 = (s - 0x10000) div 1024" "(r - 0x10000) mod 1024 = (s - 0x10000) mod 1024" "xs = ys"
      using assms by (auto simp: utf16_units_def scalar_def)
    then have "r - 0x10000 = s - 0x10000" by (metis div_mult_mod_eq)
    then show ?thesis using rs e(3) by simp
  qed (use assms in \<open>auto simp: utf16_units_def scalar_def dest: hi\<close>)
qed

lemma utf16_units_concat_inj:
  "list_all scalar rs \<Longrightarrow> list_all scalar ss \<Longrightarrow> concat (map utf16_units rs) = concat (map utf16_units ss) \<Longrightarrow> rs = ss"
proof (induction rs arbitrary: ss)
  case Nil
  then show ?case by (cases ss) (auto simp: utf16_units_def split: if_splits)
next
  case (Cons r rs)
  then obtain s ss' where ss: "ss = s # ss'" by (cases ss) (auto simp: utf16_units_def split: if_splits)
  have "r = s \<and> concat (map utf16_units rs) = concat (map utf16_units ss')"
    using Cons.prems ss by (intro utf16_units_inj) simp_all
  then show ?case using Cons.IH [of ss'] Cons.prems ss by simp
qed

lemma byte_codes_inj: "byte_codes s = byte_codes t \<Longrightarrow> s = t"
  unfolding byte_codes_def by (metis inj_of_char map_injective)

lemma utf16_encode_inj:
  assumes "ValidString s" "ValidString t" "utf16_encode s = utf16_encode t"
  shows "s = t"
proof -
  note v = valid_utf8_encode [OF assms(1) [unfolded ValidString_def]] valid_utf8_encode [OF assms(2) [unfolded ValidString_def]]
  note b = v [THEN conjunct1]
  have "runes (byte_codes s) = runes (byte_codes t)"
    by (rule utf16_units_concat_inj [OF v [THEN conjunct2] assms(3) [unfolded utf16_encode_def]])
  then have e: "concat (map encode_rune (runes (byte_codes s))) = concat (map encode_rune (runes (byte_codes t)))" by simp
  show ?thesis by (rule byte_codes_inj, rule trans [OF trans [OF b(1) e] b(2) [symmetric]])
qed

subsection \<open>Printing is injective\<close>

definition quote :: "string \<Rightarrow> string" where
  "quote s = CHR 0x22 # concat (map escape s) @ [CHR 0x22]"

text \<open>Printing without sorting, and the value with the members of every object sorted.\<close>

fun render :: "json \<Rightarrow> string" where
  "render JNull = ''null''"
| "render (JBool b) = (if b then ''true'' else ''false'')"
| "render (JString s) = quote s"
| "render (JNumber n) = n"
| "render (JArray items) = ''['' @ commas (map render items) @ '']''"
| "render (JObject kvs) = ''{'' @ commas (map (\<lambda>(k, v). quote k @ '':'' @ render v) kvs) @ ''}''"

fun norm :: "json \<Rightarrow> json" where
  "norm (JArray items) = JArray (map norm items)"
| "norm (JObject kvs) = JObject (go_sort (utf16_encode \<circ> fst) (map (\<lambda>(k, v). (k, norm v)) kvs))"
| "norm j = j"

fun printable :: "json \<Rightarrow> bool" where
  "printable (JString s) = ValidString s"
| "printable (JNumber n) = isCanonicalInteger n"
| "printable (JArray items) = list_all printable items"
| "printable (JObject kvs) = list_all (\<lambda>(k, v). ValidString k \<and> printable v) kvs"
| "printable _ = True"

lemma go_sort_map: "go_sort f (map g xs) = map g (go_sort (f \<circ> g) xs)"
proof -
  have "sort_key f (map g xs) = map g (sort_key (\<lambda>x. f (g x)) xs)"
  proof (induction xs)
    case (Cons x xs)
    have "insort_key f (g x) (map g ys) = map g (insort_key (\<lambda>x. f (g x)) x ys)" for ys
      by (induction ys) simp_all
    then show ?case using Cons by simp
  qed simp
  then show ?thesis by (simp add: go_sort_def comp_def)
qed

lemma appendCanonicalString_Inr: "appendCanonicalString s = Inr t \<longleftrightarrow> ValidString s \<and> t = quote s"
  by (auto simp: appendCanonicalString_def quote_def)

lemma member_text_Inr: "member_text k v = Inr t \<longleftrightarrow> ValidString k \<and> (\<exists>u. v = Inr u \<and> t = quote k @ '':'' @ u)"
  by (auto simp: member_text_def appendCanonicalString_Inr split: sum.splits) (auto simp: appendCanonicalString_def)

lemma case_result_Inr: "(case r of Inl e \<Rightarrow> Inl e | Inr x \<Rightarrow> Inr (g x)) = Inr t \<longleftrightarrow> (\<exists>x. r = Inr x \<and> t = g x)"
  by (cases r) auto

lemma map_results_Inr:
  assumes "\<And>x t. x \<in> set xs \<Longrightarrow> f x = Inr t \<longleftrightarrow> P x \<and> t = g x"
  shows "map f xs = map Inr ts \<longleftrightarrow> list_all P xs \<and> ts = map g xs"
  using assms
proof (induction xs arbitrary: ts)
  case (Cons x xs)
  then show ?case by (cases ts) auto
qed auto

lemma appendCanonical_Inr: "appendCanonical j = Inr t \<longleftrightarrow> printable j \<and> t = render (norm j)"
proof (induction j arbitrary: t rule: appendCanonical.induct)
  case (3 s)
  then show ?case by (simp add: appendCanonicalString_Inr)
next
  case (5 items)
  have "all_results (map appendCanonical items) = Inr ts \<longleftrightarrow> list_all printable items \<and> ts = map (\<lambda>j. render (norm j)) items" for ts
    unfolding all_results_Inr_iff using 5 by (intro map_results_Inr) blast
  then show ?case by (simp add: comp_def case_result_Inr)
next
  case (6 kvs)
  let ?s = "go_sort (utf16_encode \<circ> fst) kvs"
  have e: "(case x of (k, v) \<Rightarrow> member_text k (appendCanonical v)) = Inr t \<longleftrightarrow>
      (case x of (k, v) \<Rightarrow> ValidString k \<and> printable v) \<and> t = (case x of (k, v) \<Rightarrow> quote k @ '':'' @ render (norm v))"
    if "x \<in> set ?s" for x t
  proof -
    obtain k v where x: "x = (k, v)" by (cases x)
    show ?thesis using 6 [OF that [unfolded x]] unfolding x by (auto simp: member_text_Inr)
  qed
  have "all_results (map (\<lambda>(k, v). member_text k (appendCanonical v)) ?s) = Inr ts \<longleftrightarrow>
      list_all (\<lambda>(k, v). ValidString k \<and> printable v) ?s \<and> ts = map (\<lambda>(k, v). quote k @ '':'' @ render (norm v)) ?s" for ts
    unfolding all_results_Inr_iff by (rule map_results_Inr) (rule e)
  moreover have "list_all P ?s = list_all P kvs" for P by (simp add: list_all_iff)
  moreover have "utf16_encode \<circ> fst \<circ> (\<lambda>(k, v). (k, norm v)) = utf16_encode \<circ> fst" by (auto simp: fun_eq_iff)
  ultimately show ?case by (simp add: go_sort_map comp_def case_prod_unfold case_result_Inr)
qed auto

lemma appendCanonical_ok: "printable j \<Longrightarrow> appendCanonical j = Inr (render (norm j))"
  by (simp add: appendCanonical_Inr)

fun hexval :: "char \<Rightarrow> nat" where
  "hexval c = (if of_char c < (58 :: nat) then of_char c - 48 else of_char c - 87)"

lemma hexval_hexdigit: "n < 16 \<Longrightarrow> hexval (hexdigit n) = n"
  by (simp add: hexdigit_def)

text \<open>Reading one escaped character back.\<close>

fun unescape :: "string \<Rightarrow> char \<times> string" where
  "unescape (c # d # cs) =
     (if c \<noteq> CHR 0x5C then (c, d # cs)
      else if d = CHR ''b'' then (CHR 0x08, cs)
      else if d = CHR ''t'' then (CHR 0x09, cs)
      else if d = CHR ''n'' then (CHR 0x0A, cs)
      else if d = CHR ''f'' then (CHR 0x0C, cs)
      else if d = CHR ''r'' then (CHR 0x0D, cs)
      else if d = CHR ''u'' then (char_of (16 * hexval (cs ! 2) + hexval (cs ! 3)), drop 4 cs)
      else (d, cs))"
| "unescape cs = (hd cs, tl cs)"

lemma unescape_escape: "unescape (escape c @ x # xs) = (c, x # xs)"
proof -
  have "char_of (16 * hexval (hexdigit (of_char c div 16)) + hexval (hexdigit (of_char c mod 16))) = c"
    if "of_char c < (32 :: nat)"
  proof -
    have "of_char c div 16 < (16 :: nat)" "of_char c mod 16 < (16 :: nat)" using that by simp_all
    then have "16 * hexval (hexdigit (of_char c div 16)) + hexval (hexdigit (of_char c mod 16)) = of_char c"
      by (simp only: hexval_hexdigit) simp
    then show ?thesis by (simp del: hexval.simps)
  qed
  then show ?thesis by (auto simp: escape_def simp del: hexval.simps)
qed

lemma escape_inj:
  assumes "escape c @ x # xs = escape d @ y # ys"
  shows "c = d \<and> x # xs = y # ys"
  using arg_cong [OF assms, of unescape] unfolding unescape_escape by simp

lemma escape_first: "\<exists>h t. escape c = h # t \<and> h \<noteq> CHR 0x22"
  by (auto simp: escape_def)

lemma quoted_inj:
  "concat (map escape s) @ CHR 0x22 # x = concat (map escape t) @ CHR 0x22 # y \<Longrightarrow> s = t \<and> x = y"
proof (induction s arbitrary: t)
  case Nil
  show ?case
  proof (cases t)
    case (Cons d t')
    then show ?thesis using Nil escape_first [of d] by auto
  qed (use Nil in simp)
next
  case (Cons c s)
  obtain d t' where t: "t = d # t'" using Cons.prems escape_first [of c] by (cases t) auto
  have ne: "\<exists>h r. ws @ CHR 0x22 # v = h # r" for ws v by (cases ws) auto
  obtain h r h' r' where hr: "concat (map escape s) @ CHR 0x22 # x = h # r" "concat (map escape t') @ CHR 0x22 # y = h' # r'"
    using ne by blast
  have "c = d \<and> h # r = h' # r'"
    by (rule escape_inj) (use Cons.prems t hr in simp)
  then show ?case using Cons.IH [of t'] t hr by simp
qed

lemma quote_inj: "quote s @ x = quote t @ y \<Longrightarrow> s = t \<and> x = y"
  using quoted_inj [of s x t y] by (simp add: quote_def)

definition numchar :: "char \<Rightarrow> bool" where
  "numchar c \<longleftrightarrow> c = CHR ''-'' \<or> CHR ''0'' \<le> c \<and> c \<le> CHR ''9''"

definition delimited :: "string \<Rightarrow> bool" where
  "delimited x \<longleftrightarrow> (\<forall>c cs. x = c # cs \<longrightarrow> \<not> numchar c)"

lemma integer_chars: "isCanonicalInteger n \<Longrightarrow> n \<noteq> [] \<and> list_all numchar n"
  by (cases n) (auto simp: isCanonicalInteger_def numchar_def list_all_iff Let_def split: if_splits)

lemma takeWhile_delimited: "list_all P n \<Longrightarrow> (\<And>c cs. x = c # cs \<Longrightarrow> \<not> P c) \<Longrightarrow> takeWhile P (n @ x) = n"
  by (induction n) (auto simp: takeWhile_eq_Nil_iff neq_Nil_conv)

lemma number_inj:
  assumes "list_all numchar n" "list_all numchar m" "delimited x" "delimited y" "n @ x = m @ y"
  shows "n = m \<and> x = y"
proof -
  have "takeWhile numchar (n @ x) = n" "takeWhile numchar (m @ y) = m"
    using assms(1-4) by (auto simp: delimited_def intro!: takeWhile_delimited)
  then show ?thesis using assms(5) by simp
qed

text \<open>The texts of the elements of a list, separated by commas and closed by a bracket, determine the list.\<close>

lemma commas_Cons: "commas (x # xs) = x @ (if xs = [] then [] else CHR '','' # commas xs)"
  by (cases xs) simp_all

lemma commas_inj:
  assumes inj: "\<And>a b x y. a \<in> set as \<Longrightarrow> b \<in> set bs \<Longrightarrow> delimited x \<Longrightarrow> delimited y \<Longrightarrow> f a @ x = f b @ y \<Longrightarrow> a = b \<and> x = y"
    and ne: "\<And>a. a \<in> set as \<union> set bs \<Longrightarrow> \<exists>h t. f a = h # t \<and> h \<noteq> z"
    and z: "\<not> numchar z" "z \<noteq> CHR '',''"
    and eq: "commas (map f as) @ z # x = commas (map f bs) @ z # y"
  shows "as = bs \<and> x = y"
  using inj ne eq
proof (induction as arbitrary: bs)
  case Nil
  show ?case
  proof (cases bs)
    case (Cons b bs')
    then show ?thesis using Nil(2) [of b] Nil(3) by (auto simp: commas_Cons)
  qed (use Nil in simp)
next
  case (Cons a as)
  obtain b bs' where bs: "bs = b # bs'"
    using Cons.prems(2) [of a] Cons.prems(3) by (cases bs) (auto simp: commas_Cons)
  let ?rest = "\<lambda>cs v. (if cs = [] then [] else CHR '','' # commas (map f cs)) @ z # v"
  have d: "delimited (?rest cs v)" for cs v using z by (auto simp: delimited_def numchar_def)
  have "f a @ ?rest as x = f b @ ?rest bs' y" using Cons.prems(3) bs by (simp add: commas_Cons)
  then have e: "a = b" "?rest as x = ?rest bs' y" using Cons.prems(1) [of a b, OF _ _ d d] bs by auto
  then have "as = [] \<longleftrightarrow> bs' = []" "commas (map f as) @ z # x = commas (map f bs') @ z # y"
    using z(2) by (auto split: if_splits)
  moreover from this have "as = bs' \<and> x = y"
    using Cons.prems(1,2) bs by (intro Cons.IH) auto
  ultimately show ?case using e(1) bs by simp
qed

lemma render_first: "printable j \<Longrightarrow> \<exists>h t. render j = h # t \<and> h \<notin> {CHR '']'', CHR ''}'', CHR '',''}"
proof (cases j)
  case (JNumber n)
  assume "printable j"
  then have "n \<noteq> []" "list_all numchar n" using JNumber integer_chars by auto
  then show ?thesis using JNumber by (cases n) (auto simp: numchar_def)
qed (auto simp: quote_def)

text \<open>What the first character says about a value.\<close>

fun kind_char :: "json \<Rightarrow> char" where
  "kind_char JNull = CHR ''n''"
| "kind_char (JBool b) = (if b then CHR ''t'' else CHR ''f'')"
| "kind_char (JString s) = CHR 0x22"
| "kind_char (JNumber n) = CHR ''0''"
| "kind_char (JArray js) = CHR ''[''"
| "kind_char (JObject kvs) = CHR ''{''"

definition char_class :: "char \<Rightarrow> char" where
  "char_class c = (if numchar c then CHR ''0'' else c)"

lemma render_kind: "printable j \<Longrightarrow> \<exists>h t. render j = h # t \<and> char_class h = kind_char j"
proof (cases j)
  case (JNumber n)
  assume "printable j"
  then have "n \<noteq> []" "list_all numchar n" using JNumber integer_chars by auto
  then show ?thesis using JNumber by (cases n) (auto simp: char_class_def)
qed (auto simp: quote_def char_class_def numchar_def)

lemma render_same_kind:
  assumes "printable a" "printable b" "render a @ x = render b @ y"
  shows "kind_char a = kind_char b"
  using render_kind [OF assms(1)] render_kind [OF assms(2)] assms(3) by auto

lemma render_inj:
  "printable a \<Longrightarrow> printable b \<Longrightarrow> delimited x \<Longrightarrow> delimited y \<Longrightarrow> render a @ x = render b @ y \<Longrightarrow> a = b \<and> x = y"
proof (induction a arbitrary: b x y rule: render.induct)
  case 1
  then show ?case using render_same_kind [OF 1(1,2,5)] by (cases b) (auto split: if_splits)
next
  case (2 v)
  then show ?case using render_same_kind [OF 2(1,2,5)] by (cases b) (auto split: if_splits)
next
  case (3 s)
  then obtain t where b: "b = JString t" using render_same_kind [OF 3(1,2,5)] by (cases b) (auto split: if_splits)
  then show ?case using quote_inj [of s x t y] 3(5) by simp
next
  case (4 n)
  then obtain m where b: "b = JNumber m" using render_same_kind [OF 4(1,2,5)] by (cases b) (auto split: if_splits)
  then show ?case using number_inj [of n m x y] 4 integer_chars by simp
next
  case (5 as)
  then obtain bs where b: "b = JArray bs" using render_same_kind [OF 5(2,3,6)] by (cases b) (auto split: if_splits)
  have p: "\<And>a. a \<in> set as \<union> set bs \<Longrightarrow> printable a" using 5(2,3) b by (auto simp: list_all_iff)
  have "as = bs \<and> x = y"
  proof (rule commas_inj [of as bs render "CHR '']''" x y])
    show "\<exists>h t. render a = h # t \<and> h \<noteq> CHR '']''" if "a \<in> set as \<union> set bs" for a using render_first [OF p [OF that]] by auto
    show "commas (map render as) @ CHR '']'' # x = commas (map render bs) @ CHR '']'' # y" using 5(6) b by simp
    show "a = c \<and> u = v" if "a \<in> set as" "c \<in> set bs" "delimited u" "delimited v" "render a @ u = render c @ v" for a c u v
      by (rule 5(1) [OF that(1) p p that(3-5)]) (use that in auto)
  qed (simp_all add: numchar_def)
  then show ?case using b by simp
next
  case (6 as)
  then obtain bs where b: "b = JObject bs" using render_same_kind [OF 6(2,3,6)] by (cases b) (auto split: if_splits)
  let ?f = "\<lambda>(k, v). quote k @ '':'' @ render v"
  have p: "printable v" if "(k, v) \<in> set as \<union> set bs" for k v using 6(2,3) b that by (auto simp: list_all_iff)
  have "as = bs \<and> x = y"
  proof (rule commas_inj [of as bs ?f "CHR ''}''" x y])
    show "\<exists>h t. ?f a = h # t \<and> h \<noteq> CHR ''}''" for a by (auto simp: quote_def split: prod.split)
    show "commas (map ?f as) @ CHR ''}'' # x = commas (map ?f bs) @ CHR ''}'' # y" using 6(6) b by simp
    show "a = c \<and> u = v" if m: "a \<in> set as" "c \<in> set bs" and d: "delimited u" "delimited v" and e: "?f a @ u = ?f c @ v" for a c u v
    proof -
      obtain k l j i where ac: "a = (k, j)" "c = (l, i)" by (cases a; cases c)
      have "k = l \<and> CHR '':'' # render j @ u = CHR '':'' # render i @ v"
        using e ac by (intro quote_inj) simp
      moreover from this have r: "render j @ u = render i @ v" by simp
      have "printable j" "printable i" using p [of k j] p [of l i] m unfolding ac by blast+
      then have "j = i \<and> u = v" using 6(1) [OF m(1) [unfolded ac] _ _ d r] by simp
      ultimately show ?thesis using ac by simp
    qed
  qed (simp_all add: numchar_def)
  then show ?case using b by simp
qed

subsection \<open>Equal values, equal bytes\<close>

text \<open>Equality of the Go values: maps have the same keys with equal values, whatever the order.\<close>

function same_value :: "json \<Rightarrow> json \<Rightarrow> bool" where
  "same_value (JArray as) (JArray bs) = (length as = length bs \<and> list_all (\<lambda>(a, b). same_value a b) (zip as bs))"
| "same_value (JObject as) (JObject bs) = (length as = length bs \<and>
     list_all (\<lambda>(k, v). case map_of bs k of None \<Rightarrow> False | Some w \<Rightarrow> same_value v w) as)"
| "same_value JNull b = (b = JNull)"
| "same_value (JBool v) b = (b = JBool v)"
| "same_value (JString s) b = (b = JString s)"
| "same_value (JNumber n) b = (b = JNumber n)"
| "same_value (JArray as) JNull = False"
| "same_value (JArray as) (JBool v) = False"
| "same_value (JArray as) (JString s) = False"
| "same_value (JArray as) (JNumber n) = False"
| "same_value (JArray as) (JObject bs) = False"
| "same_value (JObject as) JNull = False"
| "same_value (JObject as) (JBool v) = False"
| "same_value (JObject as) (JString s) = False"
| "same_value (JObject as) (JNumber n) = False"
| "same_value (JObject as) (JArray bs) = False"
  by pat_completeness auto
termination
proof (relation "measure (size \<circ> fst)")
  fix as bs :: "json list" and x and a b :: json
  assume "x \<in> set (zip as bs)" "(a, b) = x"
  then have "a \<in> set as" by (auto dest: set_zip_leftD)
  then show "((a, b), JArray as, JArray bs) \<in> measure (size \<circ> fst)"
    using size_list_estimation' [of a as "size a" size] by simp
next
  fix as bs :: "(string \<times> json) list" and x and k :: string and v w :: json
  assume "x \<in> set as" "(k, v) = x"
  then have "(k, v) \<in> set as" by simp
  then have "size_prod (\<lambda>_. 0) size (k, v) \<le> size_list (size_prod (\<lambda>_. 0) size) as"
    by (rule size_list_estimation') simp
  then show "((v, w), JObject as, JObject bs) \<in> measure (size \<circ> fst)" by simp
qed simp

text \<open>A Go map holds a key once.\<close>

fun map_keys_ok :: "json \<Rightarrow> bool" where
  "map_keys_ok (JArray items) = list_all map_keys_ok items"
| "map_keys_ok (JObject kvs) = (distinct (map fst kvs) \<and> list_all (\<lambda>(k, v). map_keys_ok v) kvs)"
| "map_keys_ok _ = True"

lemma sorted_members_eq_iff:
  assumes "distinct (map fst as)" "distinct (map fst bs)" "\<forall>k \<in> set (map fst as) \<union> set (map fst bs). ValidString k"
  shows "go_sort (utf16_encode \<circ> fst) as = go_sort (utf16_encode \<circ> fst) bs \<longleftrightarrow> length as = length bs \<and> set as \<subseteq> set bs"
proof
  assume "go_sort (utf16_encode \<circ> fst) as = go_sort (utf16_encode \<circ> fst) bs"
  from arg_cong [OF this, of mset] have m: "mset as = mset bs" by simp
  show "length as = length bs \<and> set as \<subseteq> set bs" using mset_eq_length [OF m] mset_eq_setD [OF m] by simp
next
  assume l: "length as = length bs \<and> set as \<subseteq> set bs"
  have d: "distinct as" "distinct bs" using assms(1,2) by (simp_all add: distinct_map)
  then have "set as = set bs" using l by (simp add: card_subset_eq distinct_card)
  then have m: "mset as = mset bs" using d by (simp add: set_eq_iff_mset_eq_distinct)
  have "inj_on utf16_encode (set (map fst as))"
  proof (rule inj_onI)
    fix x y assume "x \<in> set (map fst as)" "y \<in> set (map fst as)" "utf16_encode x = utf16_encode y"
    then show "x = y" using assms(3) by (intro utf16_encode_inj) blast+
  qed
  then have "distinct (map (utf16_encode \<circ> fst) as)" using assms(1) by (simp add: distinct_map comp_inj_on)
  then show "go_sort (utf16_encode \<circ> fst) as = go_sort (utf16_encode \<circ> fst) bs" by (rule go_sort_perm [OF m])
qed

lemma norm_eq_iff:
  "map_keys_ok a \<Longrightarrow> map_keys_ok b \<Longrightarrow> printable a \<Longrightarrow> printable b \<Longrightarrow> norm a = norm b \<longleftrightarrow> same_value a b"
proof (induction a b rule: same_value.induct)
  case (1 as bs)
  have "norm a = norm b \<longleftrightarrow> same_value a b" if m: "(a, b) \<in> set (zip as bs)" for a b
    using 1(1) [OF m refl] 1(2-) set_zip_leftD [OF m] set_zip_rightD [OF m] by (simp add: list_all_iff)
  then have "norm (as ! i) = norm (bs ! i) \<longleftrightarrow> same_value (as ! i) (bs ! i)" if "i < length as" "length as = length bs" for i
    using that in_set_zip [of "(as ! i, bs ! i)" as bs] by auto
  then show ?case by (auto simp: list_eq_iff_nth_eq list_all_length)
next
  case (2 as bs)
  let ?g = "\<lambda>(k, v). (k, norm v)"
  have IH: "norm v = norm w \<longleftrightarrow> same_value v w" if m: "(k, v) \<in> set as" "map_of bs k = Some w" for k v w
  proof (rule 2(1) [OF m(1) refl m(2)])
    have w: "(k, w) \<in> set bs" using m(2) by (rule map_of_SomeD)
    show "map_keys_ok v" "printable v" using 2(2,4) m(1) by (auto simp: list_all_iff)
    show "map_keys_ok w" "printable w" using 2(3,5) w by (auto simp: list_all_iff)
  qed
  have db: "distinct (map fst bs)" using 2(3) by simp
  have keys: "map fst (map ?g xs) = map fst xs" for xs :: "(string \<times> json) list" by (simp add: case_prod_unfold comp_def)
  have sorted: "norm (JObject as) = norm (JObject bs) \<longleftrightarrow> length (map ?g as) = length (map ?g bs) \<and> set (map ?g as) \<subseteq> set (map ?g bs)"
    unfolding norm.simps json.inject
    by (rule sorted_members_eq_iff, unfold keys) (use 2(2-5) in \<open>auto simp: list_all_iff\<close>)
  have mem: "(k, norm v) \<in> set (map ?g bs) \<longleftrightarrow> (case map_of bs k of None \<Rightarrow> False | Some w \<Rightarrow> same_value v w)"
    if m: "(k, v) \<in> set as" for k v
  proof (cases "map_of bs k")
    case None
    have "(k, w) \<notin> set bs" for w using None weak_map_of_SomeI [of k w bs] by auto
    then show ?thesis using None by auto
  next
    case (Some w)
    have "(k, norm v) \<in> set (map ?g bs) \<longleftrightarrow> norm v = norm w"
      using Some db by (auto simp: image_iff split: prod.splits dest: map_of_SomeD) (metis Some_eq_map_of_iff option.inject)
    then show ?thesis using IH [OF m Some] Some by simp
  qed
  have "set (map ?g as) \<subseteq> set (map ?g bs) \<longleftrightarrow> list_all (\<lambda>(k, v). (k, norm v) \<in> set (map ?g bs)) as"
    by (auto simp: list_all_iff)
  also have "\<dots> \<longleftrightarrow> list_all (\<lambda>(k, v). case map_of bs k of None \<Rightarrow> False | Some w \<Rightarrow> same_value v w) as"
  proof (rule list.pred_cong [OF refl])
    fix x assume x: "x \<in> set as"
    obtain k v where kv: "x = (k, v)" by (cases x)
    show "(case x of (k, v) \<Rightarrow> (k, norm v) \<in> set (map ?g bs))
        \<longleftrightarrow> (case x of (k, v) \<Rightarrow> case map_of bs k of None \<Rightarrow> False | Some w \<Rightarrow> same_value v w)"
      using mem [OF x [unfolded kv]] unfolding kv prod.case .
  qed
  finally show ?case using sorted by (simp only: same_value.simps length_map)
next
  case (3 b)
  then show ?case by (cases b) auto
next
  case (4 v b)
  then show ?case by (cases b) auto
next
  case (5 s b)
  then show ?case by (cases b) auto
next
  case (6 n b)
  then show ?case by (cases b) auto
qed auto

lemma printable_norm: "printable j \<Longrightarrow> printable (norm j)"
  by (induction j rule: norm.induct) (auto simp: list_all_iff)

lemma canonical_bytes_eq:
  assumes "map_keys_ok a" "map_keys_ok b" "appendCanonical a = Inr s" "appendCanonical b = Inr t"
  shows "s = t \<longleftrightarrow> same_value a b"
proof -
  have p: "printable a" "printable b" "s = render (norm a)" "t = render (norm b)"
    using assms(3,4) by (simp_all add: appendCanonical_Inr)
  have "printable (norm a)" "printable (norm b)" using p(1,2) by (simp_all add: printable_norm)
  then have "s = t \<longleftrightarrow> norm a = norm b"
    using render_inj [of "norm a" "norm b" "[]" "[]"] p by (auto simp: delimited_def)
  then show ?thesis using norm_eq_iff [OF assms(1,2) p(1,2)] by simp
qed

text \<open>C33: canonical JSON is a canonical form: for two values whose maps hold each key once and that both print,
  the printed bytes are equal exactly when the values are, whatever order the runtime iterates over the maps.\<close>

theorem canonical_json_unique:
  assumes "map_keys_ok a" "map_keys_ok b" "appendCanonical a = Inr s" "appendCanonical b = Inr t"
  shows "s = t \<longleftrightarrow> same_value a b"
  by (rule canonical_bytes_eq [OF assms])

theorem canonical_json_unique_witness:
  "appendCanonical (JObject [(''b'', JNumber ''1''), (''a'', JString [CHR 0x0A])])
   = appendCanonical (JObject [(''a'', JString [CHR 0x0A]), (''b'', JNumber ''1'')])"
proof -
  let ?a = "JObject [(''b'', JNumber ''1''), (''a'', JString [CHR 0x0A])]"
    and ?b = "JObject [(''a'', JString [CHR 0x0A]), (''b'', JNumber ''1'')]"
  have p: "printable ?a" "printable ?b" "map_keys_ok ?a" "map_keys_ok ?b" "same_value ?a ?b"
    by (simp_all add: ValidString_def byte_codes_def isCanonicalInteger_def)
  have e: "appendCanonical ?a = Inr (render (norm ?a))" "appendCanonical ?b = Inr (render (norm ?b))"
    by (simp_all only: appendCanonical_Inr p simp_thms)
  have "render (norm ?a) = render (norm ?b)" using canonical_json_unique [OF p(3,4) e] p(5) by (rule iffD2)
  then show ?thesis by (simp only: e)
qed

end
