(* ===== verification/Computer_Event.thy ===== *)
theory Computer_Event
  imports Canonical_JSON
begin

text \<open>
  Semantic events and their reducer (\<^verbatim>\<open>internal/computerevent\<close>: \<^verbatim>\<open>event.go\<close>, \<^verbatim>\<open>artifact_ref.go\<close>,
  \<^verbatim>\<open>request.go\<close>, \<^verbatim>\<open>reducer.go\<close>): validation, the digest of an event, artifact references, the request
  commitment and the deterministic head reducer. SHA-256 in hexadecimal is the argument \<open>sha\<close>, and
  \<open>uuid7\<close> says which strings the UUID package parses as version 7. A nil slice of strings and an empty
  one print alike, so both are the empty list.
\<close>

type_synonym hashing = "string \<Rightarrow> string"

subsection \<open>Hexadecimal digests\<close>

definition isSHA256 :: "string \<Rightarrow> bool" where
  "isSHA256 value \<longleftrightarrow> length value = 64 \<and> list_all isLowerHex value"

abbreviation ZeroHead :: string where
  "ZeroHead \<equiv> replicate 64 (CHR ''0'')"

fun hex_encode :: "nat list \<Rightarrow> string" where
  "hex_encode [] = []"
| "hex_encode (b # bs) = hexdigit (b div 16) # hexdigit (b mod 16) # hex_encode bs"

fun hex_decode :: "string \<Rightarrow> nat list option" where
  "hex_decode [] = Some []"
| "hex_decode (c # d # cs) =
     (if isLowerHex c \<and> isLowerHex d then map_option ((#) (16 * hexval c + hexval d)) (hex_decode cs) else None)"
| "hex_decode [c] = None"

subsection \<open>Artifact references\<close>

abbreviation artifactRefPrefix :: string where
  "artifactRefPrefix \<equiv> ''artifact:sha256:''"

type_synonym SHA256Digest = "nat list"

text \<open>\<^verbatim>\<open>strings.ToLower(value) = value\<close> and \<^verbatim>\<open>hex.DecodeString\<close> together accept the lower-case hexadecimal digits
  only: lowering an ASCII string changes exactly its upper-case letters.\<close>

definition ParseSHA256Digest :: "string \<Rightarrow> SHA256Digest option" where
  "ParseSHA256Digest value =
     (if length value \<noteq> 64 then None
      else case hex_decode value of None \<Rightarrow> None
      | Some decoded \<Rightarrow> if length decoded \<noteq> 32 then None else Some decoded)"

datatype ArtifactRef = ArtifactRef (digest: SHA256Digest)

definition SHA256Digest_String :: "SHA256Digest \<Rightarrow> string" where
  "SHA256Digest_String d = hex_encode d"

definition ArtifactRefFromDigest :: "string \<Rightarrow> ArtifactRef option" where
  "ArtifactRefFromDigest value = map_option ArtifactRef (ParseSHA256Digest value)"

definition ParseArtifactRef :: "string \<Rightarrow> ArtifactRef option" where
  "ParseArtifactRef value =
     (if \<not> hasPrefix value artifactRefPrefix then None
      else ArtifactRefFromDigest (trimPrefix value artifactRefPrefix))"

definition NormalizeArtifactRef :: "string \<Rightarrow> ArtifactRef option" where
  "NormalizeArtifactRef value =
     (if hasPrefix value artifactRefPrefix then ParseArtifactRef value else ArtifactRefFromDigest value)"

definition ArtifactRef_String :: "ArtifactRef \<Rightarrow> string" where
  "ArtifactRef_String r = artifactRefPrefix @ SHA256Digest_String (digest r)"

subsection \<open>Events\<close>

type_synonym EventKind = string

abbreviation EventGenesisImported :: string where "EventGenesisImported \<equiv> ''genesis_imported''"
abbreviation EventTrajectoryStarted :: string where "EventTrajectoryStarted \<equiv> ''trajectory_started''"
abbreviation EventModelResolved :: string where "EventModelResolved \<equiv> ''model_resolved''"
abbreviation EventMessageRecorded :: string where "EventMessageRecorded \<equiv> ''message_recorded''"
abbreviation EventToolInvoked :: string where "EventToolInvoked \<equiv> ''tool_invoked''"
abbreviation EventToolReturned :: string where "EventToolReturned \<equiv> ''tool_returned''"
abbreviation EventArtifactProduced :: string where "EventArtifactProduced \<equiv> ''artifact_produced''"
abbreviation EventEffectProposed :: string where "EventEffectProposed \<equiv> ''effect_proposed''"
abbreviation EventVerificationRecorded :: string where "EventVerificationRecorded \<equiv> ''verification_recorded''"
abbreviation EventEffectAccepted :: string where "EventEffectAccepted \<equiv> ''effect_accepted''"
abbreviation EventEffectRejected :: string where "EventEffectRejected \<equiv> ''effect_rejected''"
abbreviation EventMaterializationStarted :: string where "EventMaterializationStarted \<equiv> ''materialization_started''"
abbreviation EventMaterializationApplied :: string where "EventMaterializationApplied \<equiv> ''materialization_applied''"
abbreviation EventMaterializationFailed :: string where "EventMaterializationFailed \<equiv> ''materialization_failed''"
abbreviation EventRollbackRequested :: string where "EventRollbackRequested \<equiv> ''rollback_requested''"
abbreviation EventRollbackApplied :: string where "EventRollbackApplied \<equiv> ''rollback_applied''"
abbreviation EventResearcherUpdate :: string where "EventResearcherUpdate \<equiv> ''researcher_update''"
abbreviation EventCheckpointPublished :: string where "EventCheckpointPublished \<equiv> ''checkpoint_published''"
abbreviation EventRouteProjectionUpdated :: string where "EventRouteProjectionUpdated \<equiv> ''route_projection_updated''"
abbreviation EventLifecycleObserved :: string where "EventLifecycleObserved \<equiv> ''lifecycle_observed''"
abbreviation EventKeyRotated :: string where "EventKeyRotated \<equiv> ''key_rotated''"
abbreviation EventKeyRevoked :: string where "EventKeyRevoked \<equiv> ''key_revoked''"
abbreviation EventRecoveryRecorded :: string where "EventRecoveryRecorded \<equiv> ''recovery_recorded''"
abbreviation EventRestoreRequested :: string where "EventRestoreRequested \<equiv> ''restore_requested''"
abbreviation EventProjectionBatchRecorded :: string where "EventProjectionBatchRecorded \<equiv> ''projection_batch_recorded''"
abbreviation EventFileRootCommitted :: string where "EventFileRootCommitted \<equiv> ''file_root_committed''"

definition validEventKinds :: "EventKind list" where
  "validEventKinds = [
     EventGenesisImported, EventTrajectoryStarted, EventModelResolved,
     EventMessageRecorded, EventToolInvoked, EventToolReturned,
     EventArtifactProduced, EventEffectProposed, EventVerificationRecorded,
     EventEffectAccepted, EventEffectRejected, EventMaterializationStarted,
     EventMaterializationApplied, EventMaterializationFailed, EventRollbackRequested,
     EventRollbackApplied, EventResearcherUpdate, EventCheckpointPublished,
     EventRouteProjectionUpdated, EventLifecycleObserved, EventKeyRotated,
     EventKeyRevoked, EventRecoveryRecorded, EventRestoreRequested,
     EventProjectionBatchRecorded, EventFileRootCommitted]"

record Event =
  SchemaVersion :: int
  EventID :: string
  ev_ComputerID :: string
  ev_Sequence :: uint64
  PreviousHead :: string
  ev_Kind :: EventKind
  OccurredAt :: string
  IdempotencyKey :: string
  RequestCommitment :: string
  TrajectoryID :: string
  ParentEventID :: string
  CapsuleID :: string
  ActorProfile :: string
  AuthorityRef :: string
  ModelPolicyRefs :: "string list"
  InputArtifactRefs :: "string list"
  OutputArtifactRefs :: "string list"
  PayloadCommitment :: string
  PrivacyClass :: string
  ProposedEffectRef :: string
  DecisionRef :: string
  VerifierRefs :: "string list"
  ev_ReducerVersion :: int
  ExpectedDesiredEventHead :: string
  ExpectedEffectiveEventHead :: string
  ExpectedPendingTransitionRef :: string
  ExpectedDesiredStateCommitment :: string
  ExpectedEffectiveStateCommitment :: string
  RequireExpectedHead :: bool
  ResultingEffectiveCommitment :: string

record TransitionInput =
  TargetStateCommitment :: string
  RestoredPriorEffective :: bool

text \<open>A time stamp that parses as RFC 3339, is in UTC and prints back as itself: a calendar date and time of day,
  a fraction of at most nine digits without a trailing zero, and the zone letter.\<close>

definition digit :: "char \<Rightarrow> bool" where
  "digit c \<longleftrightarrow> CHR ''0'' \<le> c \<and> c \<le> CHR ''9''"

definition number_of :: "string \<Rightarrow> nat" where
  "number_of s = foldl (\<lambda>n c. 10 * n + (of_char c - 48)) 0 s"

definition days_in :: "nat \<Rightarrow> nat \<Rightarrow> nat" where
  "days_in y m =
     (if m = 2 then (if y mod 4 = 0 \<and> (y mod 100 \<noteq> 0 \<or> y mod 400 = 0) then 29 else 28)
      else if m \<in> {4, 6, 9, 11} then 30 else 31)"

definition canonicalUTC :: "string \<Rightarrow> bool" where
  "canonicalUTC s =
     (let n = (\<lambda>i k. number_of (take k (drop i s))); y = n 0 4; mo = n 5 2; d = n 8 2;
          frac = take (length s - 20) (drop 19 s) in
      20 \<le> length s \<and> last s = CHR ''Z''
      \<and> list_all (\<lambda>i. digit (s ! i)) [0, 1, 2, 3, 5, 6, 8, 9, 11, 12, 14, 15, 17, 18]
      \<and> s ! 4 = CHR ''-'' \<and> s ! 7 = CHR ''-'' \<and> s ! 10 = CHR ''T'' \<and> s ! 13 = CHR '':'' \<and> s ! 16 = CHR '':''
      \<and> 1 \<le> mo \<and> mo \<le> 12 \<and> 1 \<le> d \<and> d \<le> days_in y mo \<and> n 11 2 < 24 \<and> n 14 2 < 60 \<and> n 17 2 < 60
      \<and> (frac = [] \<or> hd frac = CHR ''.'' \<and> 2 \<le> length frac \<and> length frac \<le> 10
          \<and> list_all digit (tl frac) \<and> last frac \<noteq> CHR ''0''))"

datatype event_error =
    UnsupportedSchema int | BadEventID | NoComputerID | ZeroSequence | BadPreviousHead | UnknownKind EventKind
  | BadOccurredAt | NoIdempotency | NoAuthority | UnsupportedReducer int | BadCommitment | BadArtifactRef
  | BadPendingRef | BadResulting

definition Event_Validate :: "(string \<Rightarrow> bool) \<Rightarrow> Event \<Rightarrow> event_error option" where
  "Event_Validate uuid7 e =
     (if SchemaVersion e \<noteq> 1 then Some (UnsupportedSchema (SchemaVersion e))
      else if \<not> uuid7 (EventID e) then Some BadEventID
      else if trimSpace (ev_ComputerID e) = [] then Some NoComputerID
      else if ev_Sequence e = 0 then Some ZeroSequence
      else if \<not> isSHA256 (PreviousHead e) then Some BadPreviousHead
      else if ev_Kind e \<notin> set validEventKinds then Some (UnknownKind (ev_Kind e))
      else if \<not> canonicalUTC (OccurredAt e) then Some BadOccurredAt
      else if trimSpace (IdempotencyKey e) = [] \<or> \<not> isSHA256 (RequestCommitment e) then Some NoIdempotency
      else if trimSpace (ActorProfile e) = [] \<or> trimSpace (AuthorityRef e) = [] \<or> trimSpace (PrivacyClass e) = []
        then Some NoAuthority
      else if ev_ReducerVersion e \<noteq> 1 then Some (UnsupportedReducer (ev_ReducerVersion e))
      else if \<not> list_all isSHA256 [PayloadCommitment e, ExpectedDesiredEventHead e, ExpectedEffectiveEventHead e,
            ExpectedDesiredStateCommitment e, ExpectedEffectiveStateCommitment e] then Some BadCommitment
      else if \<not> list_all (\<lambda>r. ParseArtifactRef r \<noteq> None) (InputArtifactRefs e @ OutputArtifactRefs e) then Some BadArtifactRef
      else if ExpectedPendingTransitionRef e \<noteq> [] \<and> \<not> isSHA256 (ExpectedPendingTransitionRef e) then Some BadPendingRef
      else if ResultingEffectiveCommitment e \<noteq> [] \<and> \<not> isSHA256 (ResultingEffectiveCommitment e) then Some BadResulting
      else None)"

subsection \<open>Digests and commitments\<close>

text \<open>\<^verbatim>\<open>json.Marshal\<close> replaces every invalid byte of a string by the replacement character, so the tree that
  \<^verbatim>\<open>CanonicalJSON\<close> prints holds the coerced string.\<close>

definition coerceUTF8 :: "string \<Rightarrow> string" where
  "coerceUTF8 s = map char_of (concat (map encode_rune (runes (byte_codes s))))"

definition JStr :: "string \<Rightarrow> json" where "JStr s = JString (coerceUTF8 s)"
definition JStrs :: "string list \<Rightarrow> json" where "JStrs ss = JArray (map JStr ss)"
definition JInt :: "int \<Rightarrow> json" where "JInt i = JNumber (itoa i)"
definition JUint :: "uint64 \<Rightarrow> json" where "JUint w = JNumber (digits (unat w))"

text \<open>A Go struct marshals to an object with one member per tagged field.\<close>

type_synonym 'a fields = "(string \<times> ('a \<Rightarrow> json)) list"

definition struct_json :: "'a fields \<Rightarrow> 'a \<Rightarrow> json" where
  "struct_json fs x = JObject (map (\<lambda>(k, f). (k, f x)) fs)"

definition event_fields :: "Event fields" where
  "event_fields = [
     (''schema_version'', JInt \<circ> SchemaVersion), (''event_id'', JStr \<circ> EventID), (''computer_id'', JStr \<circ> ev_ComputerID),
     (''sequence'', JUint \<circ> ev_Sequence), (''previous_head'', JStr \<circ> PreviousHead), (''event_kind'', JStr \<circ> ev_Kind),
     (''occurred_at'', JStr \<circ> OccurredAt), (''idempotency_key'', JStr \<circ> IdempotencyKey),
     (''request_commitment'', JStr \<circ> RequestCommitment), (''trajectory_id'', JStr \<circ> TrajectoryID),
     (''parent_event_id'', JStr \<circ> ParentEventID), (''capsule_id'', JStr \<circ> CapsuleID),
     (''actor_profile'', JStr \<circ> ActorProfile), (''authority_ref'', JStr \<circ> AuthorityRef),
     (''model_policy_refs'', JStrs \<circ> ModelPolicyRefs), (''input_artifact_refs'', JStrs \<circ> InputArtifactRefs),
     (''output_artifact_refs'', JStrs \<circ> OutputArtifactRefs), (''payload_commitment'', JStr \<circ> PayloadCommitment),
     (''privacy_class'', JStr \<circ> PrivacyClass), (''proposed_effect_ref'', JStr \<circ> ProposedEffectRef),
     (''decision_ref'', JStr \<circ> DecisionRef), (''verifier_refs'', JStrs \<circ> VerifierRefs),
     (''reducer_version'', JInt \<circ> ev_ReducerVersion),
     (''expected_desired_event_head'', JStr \<circ> ExpectedDesiredEventHead),
     (''expected_effective_event_head'', JStr \<circ> ExpectedEffectiveEventHead),
     (''expected_pending_transition_ref'', JStr \<circ> ExpectedPendingTransitionRef),
     (''expected_desired_state_commitment'', JStr \<circ> ExpectedDesiredStateCommitment),
     (''expected_effective_state_commitment'', JStr \<circ> ExpectedEffectiveStateCommitment),
     (''resulting_effective_state_commitment'', JStr \<circ> ResultingEffectiveCommitment)]"

datatype reduce_error = InvalidEvent event_error | Unprintable canon_error
  | ProjectionMismatch | PendingTransition | InvalidTransition

definition Event_CanonicalBytes :: "(string \<Rightarrow> bool) \<Rightarrow> Event \<Rightarrow> reduce_error + string" where
  "Event_CanonicalBytes uuid7 e =
     (case Event_Validate uuid7 e of Some err \<Rightarrow> Inl (InvalidEvent err)
      | None \<Rightarrow> (case appendCanonical (struct_json event_fields e) of Inl c \<Rightarrow> Inl (Unprintable c) | Inr b \<Rightarrow> Inr b))"

definition Event_Digest :: "(string \<Rightarrow> bool) \<Rightarrow> hashing \<Rightarrow> Event \<Rightarrow> reduce_error + string" where
  "Event_Digest uuid7 sha e =
     (case Event_CanonicalBytes uuid7 e of Inl err \<Rightarrow> Inl err | Inr body \<Rightarrow> Inr (sha body))"

definition input_fields :: "TransitionInput fields" where
  "input_fields = [(''target_state_commitment'', JStr \<circ> TargetStateCommitment),
     (''restored_prior_effective'', JBool \<circ> RestoredPriorEffective)]"

text \<open>The intent leaves the sequence number, the previous head and the request commitment out.\<close>

definition intent_fields :: "(Event \<times> TransitionInput) fields" where
  "intent_fields =
     map (\<lambda>(k, f). (k, f \<circ> fst)) (filter (\<lambda>(k, f). k \<notin> {''sequence'', ''previous_head'', ''request_commitment''}) event_fields)
     @ [(''transition_input'', struct_json input_fields \<circ> snd)]"

definition requestIntent :: "Event \<Rightarrow> TransitionInput \<Rightarrow> json" where
  "requestIntent e i = struct_json intent_fields (e, i)"

definition ComputePinIntentCommitment :: "hashing \<Rightarrow> Event \<Rightarrow> TransitionInput \<Rightarrow> canon_error + string" where
  "ComputePinIntentCommitment sha e i =
     (case appendCanonical (requestIntent e i) of Inl c \<Rightarrow> Inl c | Inr b \<Rightarrow> Inr (sha b))"

definition request_json :: "Event \<Rightarrow> TransitionInput \<Rightarrow> string \<Rightarrow> string list \<Rightarrow> json" where
  "request_json e i pin receipts = JObject [(''event_intent'', requestIntent e i),
     (''pin_intent_commitment'', JStr pin), (''payload_pin_receipt_digests'', JStrs receipts)]"

definition ComputeRequestCommitment ::
  "hashing \<Rightarrow> Event \<Rightarrow> TransitionInput \<Rightarrow> string \<Rightarrow> string list \<Rightarrow> canon_error + string" where
  "ComputeRequestCommitment sha e i pin receipts =
     (case appendCanonical (request_json e i pin receipts) of Inl c \<Rightarrow> Inl c | Inr b \<Rightarrow> Inr (sha b))"

subsection \<open>The reducer\<close>

record Head =
  h_ComputerID :: string
  h_Sequence :: uint64
  CanonicalEventHead :: string
  DesiredEventHead :: string
  EffectiveEventHead :: string
  PendingTransitionRef :: string
  DesiredStateCommitment :: string
  EffectiveStateCommitment :: string
  h_ReducerVersion :: int
  CredentialRevocationEpoch :: uint64

record EffectiveStateRefs =
  sr_ReducerVersion :: int
  CodeRef :: string
  ArtifactProgramRef :: string
  EmbeddedDoltRefs :: "string list"

definition StateCommitment :: "hashing \<Rightarrow> EffectiveStateRefs \<Rightarrow> canon_error option + string" where
  "StateCommitment sha refs =
     (if sr_ReducerVersion refs \<noteq> 1 \<or> CodeRef refs = [] \<or> ArtifactProgramRef refs = [] then Inl None
      else case appendCanonical (struct_json
          [(''reducer_version'', JInt \<circ> sr_ReducerVersion), (''code_ref'', JStr \<circ> CodeRef),
           (''artifact_program_ref'', JStr \<circ> ArtifactProgramRef), (''embedded_dolt_refs'', JStrs \<circ> EmbeddedDoltRefs)] refs) of
        Inl c \<Rightarrow> Inl (Some c) | Inr b \<Rightarrow> Inr (sha b))"

definition isCausalEvent :: "EventKind \<Rightarrow> bool" where
  "isCausalEvent kind \<longleftrightarrow> kind \<in> set [EventTrajectoryStarted, EventModelResolved, EventMessageRecorded,
     EventToolInvoked, EventToolReturned, EventArtifactProduced,
     EventEffectProposed, EventVerificationRecorded, EventEffectRejected,
     EventCheckpointPublished, EventRouteProjectionUpdated,
     EventLifecycleObserved, EventKeyRotated, EventKeyRevoked,
     EventRecoveryRecorded, EventRestoreRequested, EventProjectionBatchRecorded]"

definition reduceGenesis :: "Event \<Rightarrow> string \<Rightarrow> TransitionInput \<Rightarrow> reduce_error + Head" where
  "reduceGenesis e dg inp =
     (if ev_Kind e \<noteq> EventGenesisImported \<or> ev_Sequence e \<noteq> 1 \<or> PreviousHead e \<noteq> ZeroHead
        \<or> ExpectedDesiredEventHead e \<noteq> ZeroHead \<or> ExpectedEffectiveEventHead e \<noteq> ZeroHead
        \<or> ExpectedPendingTransitionRef e \<noteq> [] \<or> \<not> isSHA256 (TargetStateCommitment inp)
        \<or> ResultingEffectiveCommitment e \<noteq> TargetStateCommitment inp
      then Inl InvalidTransition
      else Inr \<lparr>h_ComputerID = ev_ComputerID e, h_Sequence = 1, CanonicalEventHead = dg, DesiredEventHead = dg,
        EffectiveEventHead = dg, PendingTransitionRef = [], DesiredStateCommitment = TargetStateCommitment inp,
        EffectiveStateCommitment = TargetStateCommitment inp, h_ReducerVersion = ev_ReducerVersion e,
        CredentialRevocationEpoch = 0\<rparr>)"

text \<open>One case of the reducer's switch per event kind, on the current head and the head \<open>next\<close> with the new sequence
  number and canonical head.\<close>

definition reduce_kind :: "Head \<Rightarrow> Head \<Rightarrow> Event \<Rightarrow> string \<Rightarrow> TransitionInput \<Rightarrow> reduce_error + Head" where
  "reduce_kind cur nxt e dg inp =
     (if ev_Kind e = EventEffectAccepted then
        (if PendingTransitionRef cur \<noteq> [] then Inl PendingTransition
         else if \<not> isSHA256 (TargetStateCommitment inp) \<or> ProposedEffectRef e = [] \<or> DecisionRef e = [] \<or> VerifierRefs e = []
           then Inl InvalidTransition
         else Inr (nxt\<lparr>DesiredEventHead := dg, DesiredStateCommitment := TargetStateCommitment inp, PendingTransitionRef := dg\<rparr>))
      else if ev_Kind e = EventMaterializationStarted then
        (if PendingTransitionRef cur = [] \<or> DecisionRef e \<noteq> PendingTransitionRef cur then Inl InvalidTransition else Inr nxt)
      else if ev_Kind e = EventMaterializationApplied \<or> ev_Kind e = EventRollbackApplied then
        (if PendingTransitionRef cur = [] \<or> DecisionRef e \<noteq> PendingTransitionRef cur
            \<or> ResultingEffectiveCommitment e \<noteq> DesiredStateCommitment cur then Inl InvalidTransition
         else Inr (nxt\<lparr>EffectiveEventHead := dg, EffectiveStateCommitment := DesiredStateCommitment cur, PendingTransitionRef := []\<rparr>))
      else if ev_Kind e = EventMaterializationFailed then
        (if PendingTransitionRef cur = [] \<or> DecisionRef e \<noteq> PendingTransitionRef cur \<or> \<not> RestoredPriorEffective inp
         then Inl InvalidTransition
         else Inr (nxt\<lparr>DesiredEventHead := EffectiveEventHead cur, DesiredStateCommitment := EffectiveStateCommitment cur,
                       PendingTransitionRef := []\<rparr>))
      else if ev_Kind e = EventRollbackRequested then
        (if PendingTransitionRef cur \<noteq> [] then Inl PendingTransition
         else if \<not> isSHA256 (TargetStateCommitment inp) \<or> DecisionRef e = [] then Inl InvalidTransition
         else Inr (nxt\<lparr>DesiredEventHead := dg, DesiredStateCommitment := TargetStateCommitment inp, PendingTransitionRef := dg\<rparr>))
      else if ev_Kind e = EventResearcherUpdate then
        (if PendingTransitionRef cur \<noteq> [] then Inl PendingTransition
         else if \<not> isSHA256 (TargetStateCommitment inp) \<or> ResultingEffectiveCommitment e \<noteq> TargetStateCommitment inp
           then Inl InvalidTransition
         else Inr (nxt\<lparr>DesiredEventHead := dg, EffectiveEventHead := dg, DesiredStateCommitment := TargetStateCommitment inp,
                       EffectiveStateCommitment := TargetStateCommitment inp\<rparr>))
      else if ev_Kind e = EventKeyRevoked then
        Inr (nxt\<lparr>CredentialRevocationEpoch := CredentialRevocationEpoch nxt + 1\<rparr>)
      else if ev_Kind e = EventGenesisImported then Inl InvalidTransition
      else if \<not> isCausalEvent (ev_Kind e) then Inl InvalidTransition
      else Inr nxt)"

definition Reduce :: "(string \<Rightarrow> bool) \<Rightarrow> hashing \<Rightarrow> Head option \<Rightarrow> Event \<Rightarrow> TransitionInput \<Rightarrow> reduce_error + Head" where
  "Reduce uuid7 sha current e inp =
     (case Event_Validate uuid7 e of Some err \<Rightarrow> Inl (InvalidEvent err)
      | None \<Rightarrow> (case Event_Digest uuid7 sha e of Inl err \<Rightarrow> Inl err
      | Inr dg \<Rightarrow> (case current of None \<Rightarrow> reduceGenesis e dg inp
      | Some cur \<Rightarrow>
          if h_ComputerID cur \<noteq> ev_ComputerID e \<or> ev_Sequence e \<noteq> h_Sequence cur + 1 \<or> PreviousHead e \<noteq> CanonicalEventHead cur
          then Inl ProjectionMismatch
          else if h_ReducerVersion cur \<noteq> ev_ReducerVersion e \<or> ExpectedDesiredEventHead e \<noteq> DesiredEventHead cur
            \<or> ExpectedEffectiveEventHead e \<noteq> EffectiveEventHead cur \<or> ExpectedPendingTransitionRef e \<noteq> PendingTransitionRef cur
            \<or> ExpectedDesiredStateCommitment e \<noteq> DesiredStateCommitment cur
            \<or> ExpectedEffectiveStateCommitment e \<noteq> EffectiveStateCommitment cur
          then Inl ProjectionMismatch
          else reduce_kind cur (cur\<lparr>h_Sequence := ev_Sequence e, CanonicalEventHead := dg\<rparr>) e dg inp)))"

subsection \<open>Artifact references read back\<close>

lemma hexdigit_hexval: "isLowerHex c \<Longrightarrow> hexdigit (hexval c) = c \<and> hexval c < 16"
proof -
  assume "isLowerHex c"
  then have "(48 :: nat) \<le> of_char c \<and> of_char c \<le> (57 :: nat) \<or> (97 :: nat) \<le> of_char c \<and> of_char c \<le> (102 :: nat)"
    by (auto simp: isLowerHex_def less_eq_char_def)
  then show ?thesis
  proof
    assume "(48 :: nat) \<le> of_char c \<and> of_char c \<le> (57 :: nat)"
    then show ?thesis by (auto simp: hexdigit_def)
  next
    assume "(97 :: nat) \<le> of_char c \<and> of_char c \<le> (102 :: nat)"
    then show ?thesis by (auto simp: hexdigit_def)
  qed
qed

lemma isLowerHex_hexdigit: "n < 16 \<Longrightarrow> isLowerHex (hexdigit n)"
  by (auto simp: hexdigit_def isLowerHex_def less_eq_char_def)

lemma hex_decode_encode: "list_all (\<lambda>b. b < 256) bs \<Longrightarrow> hex_decode (hex_encode bs) = Some bs"
proof (induction bs)
  case (Cons b bs)
  have "b div 16 < 16" "b mod 16 < 16" using Cons.prems by (simp_all add: less_mult_imp_div_less)
  then show ?case using Cons by (simp add: isLowerHex_hexdigit hexval_hexdigit del: hexval.simps)
qed simp

lemma hex_encode_decode: "hex_decode s = Some bs \<Longrightarrow> s = hex_encode bs \<and> list_all (\<lambda>b. b < 256) bs"
proof (induction s arbitrary: bs rule: hex_decode.induct)
  case (2 c d cs)
  then obtain bs' where b: "isLowerHex c" "isLowerHex d" "hex_decode cs = Some bs'" "bs = (16 * hexval c + hexval d) # bs'"
    by (auto split: if_splits simp del: hexval.simps)
  note h = hexdigit_hexval [OF b(1)] hexdigit_hexval [OF b(2)]
  have "(16 * hexval c + hexval d) div 16 = hexval c" "(16 * hexval c + hexval d) mod 16 = hexval d"
    "16 * hexval c + hexval d < 256" using h by simp_all
  then show ?case using 2(1) [OF conjI [OF b(1,2)] b(3)] h b(4) by (simp del: hexval.simps)
qed simp_all

lemma length_hex_encode [simp]: "length (hex_encode bs) = 2 * length bs"
  by (induction bs) simp_all

definition digest_bytes_ok :: "SHA256Digest \<Rightarrow> bool" where
  "digest_bytes_ok d \<longleftrightarrow> length d = 32 \<and> list_all (\<lambda>b. b < 256) d"

lemma ParseSHA256Digest_iff: "ParseSHA256Digest s = Some d \<longleftrightarrow> s = hex_encode d \<and> digest_bytes_ok d"
proof
  assume p: "ParseSHA256Digest s = Some d"
  then have "hex_decode s = Some d" "length d = 32"
    by (auto simp: ParseSHA256Digest_def split: if_splits option.splits)
  then show "s = hex_encode d \<and> digest_bytes_ok d" using hex_encode_decode by (simp add: digest_bytes_ok_def)
next
  assume "s = hex_encode d \<and> digest_bytes_ok d"
  then show "ParseSHA256Digest s = Some d" by (simp add: ParseSHA256Digest_def digest_bytes_ok_def hex_decode_encode)
qed

lemma trimPrefix_iff: "hasPrefix s p \<and> trimPrefix s p = t \<longleftrightarrow> s = p @ t"
  by (auto simp: hasPrefix_def trimPrefix_def) (metis append_take_drop_id)

text \<open>Artifact references have exactly one text: a string parses to a reference if and only if it is the text that
  the reference prints, with a digest of 32 bytes; no other spelling is accepted.\<close>

theorem artifact_ref_roundtrip:
  "ParseArtifactRef s = Some r \<longleftrightarrow> s = ArtifactRef_String r \<and> digest_bytes_ok (digest r)"
proof
  assume p: "ParseArtifactRef s = Some r"
  then have pre: "hasPrefix s artifactRefPrefix" and d: "ArtifactRefFromDigest (trimPrefix s artifactRefPrefix) = Some r"
    unfolding ParseArtifactRef_def by (auto split: if_splits)
  have "ParseSHA256Digest (trimPrefix s artifactRefPrefix) = Some (digest r)"
    using d by (auto simp: ArtifactRefFromDigest_def)
  then have "trimPrefix s artifactRefPrefix = hex_encode (digest r)" "digest_bytes_ok (digest r)"
    unfolding ParseSHA256Digest_iff by simp_all
  then show "s = ArtifactRef_String r \<and> digest_bytes_ok (digest r)"
    using trimPrefix_iff [of s artifactRefPrefix "hex_encode (digest r)"] pre
    unfolding ArtifactRef_String_def SHA256Digest_String_def by blast
next
  assume s: "s = ArtifactRef_String r \<and> digest_bytes_ok (digest r)"
  then have t: "hasPrefix s artifactRefPrefix \<and> trimPrefix s artifactRefPrefix = hex_encode (digest r)"
    unfolding trimPrefix_iff ArtifactRef_String_def SHA256Digest_String_def by blast
  have "ParseSHA256Digest (hex_encode (digest r)) = Some (digest r)" using s unfolding ParseSHA256Digest_iff by blast
  then show "ParseArtifactRef s = Some r"
    unfolding ParseArtifactRef_def ArtifactRefFromDigest_def conjunct2 [OF t] using t by simp
qed

subsection \<open>What a digest determines\<close>

lemma number_of_snoc: "number_of (s @ [c]) = 10 * number_of s + (of_char c - 48)"
  by (simp add: number_of_def)

lemma number_of_digits: "number_of (digits n) = n"
proof (induction n rule: digits.induct)
  case (1 n)
  show ?case
  proof (cases "n < 10")
    case True
    then show ?thesis by (simp add: digits.simps [of n] number_of_def)
  next
    case False
    have "48 + n mod 10 < 256" by linarith
    then have "of_char (char_of (48 + n mod 10) :: char) = (48 + n mod 10 :: nat)" by simp
    then show ?thesis using False 1 by (simp add: digits.simps [of n] number_of_snoc del: of_char_of)
  qed
qed

lemma digits_inj: "digits m = digits n \<Longrightarrow> m = n"
  by (metis number_of_digits)

lemma digits_no_sign: "CHR ''-'' \<notin> set (digits n)"
proof (induction n rule: digits.induct)
  case (1 n)
  have d: "char_of (48 + k) \<noteq> CHR ''-''" if "k < 10" for k :: nat
  proof
    assume "char_of (48 + k) = CHR ''-''"
    then have "of_char (char_of (48 + k) :: char) = (of_char (CHR ''-'') :: nat)" by simp
    then show False using that by simp
  qed
  show ?case using 1 d [of n] d [of "n mod 10"] by (subst digits.simps) (cases "n < 10", auto)
qed

lemma digit_char: "(k :: nat) < 10 \<Longrightarrow> CHR ''0'' \<le> char_of (48 + k) \<and> char_of (48 + k) \<le> CHR ''9''"
  by (simp add: less_eq_char_def)

lemma digits_chars: "digits n \<noteq> [] \<and> list_all (\<lambda>c. CHR ''0'' \<le> c \<and> c \<le> CHR ''9'') (digits n)"
proof (induction n rule: digits.induct)
  case (1 n)
  show ?case using 1 digit_char [of n] digit_char [of "n mod 10"] by (subst (1 2) digits.simps) (cases "n < 10", auto)
qed

lemma digits_first: "0 < n \<Longrightarrow> hd (digits n) \<noteq> CHR ''0''"
proof (induction n rule: digits.induct)
  case (1 n)
  show ?case
  proof (cases "n < 10")
    case True
    have "char_of (48 + n) \<noteq> CHR ''0''"
    proof
      assume "char_of (48 + n) = CHR ''0''"
      then have "of_char (char_of (48 + n) :: char) = (of_char (CHR ''0'') :: nat)" by simp
      then show False using True 1(2) by simp
    qed
    then show ?thesis using True by (simp add: digits.simps [of n])
  next
    case False
    then show ?thesis using 1(1) digits_chars [of "n div 10"] by (simp add: digits.simps [of n] hd_append)
  qed
qed

lemma digits_no_minus: "hd (digits n) \<noteq> CHR ''-''"
  using digits_chars [of n] by (cases "digits n") (auto simp: less_eq_char_def)

lemma integer_digits: "isCanonicalInteger (digits n)"
proof (cases "n = 0")
  case True
  moreover have "digits 0 = ''0''" by code_simp
  ultimately show ?thesis by (simp add: isCanonicalInteger_def)
next
  case False
  then show ?thesis
    using digits_chars [of n] digits_first [of n] digits_no_minus [of n] by (simp add: isCanonicalInteger_def Let_def)
qed

lemma integer_itoa: "isCanonicalInteger (itoa i)"
proof (cases "i < 0")
  case True
  have d: "digits (nat (- i)) \<noteq> []" "hd (digits (nat (- i))) \<noteq> CHR ''0''" using digits_chars digits_first True by auto
  then show ?thesis
    using True digits_chars [of "nat (- i)"] by (cases "digits (nat (- i))") (simp_all add: isCanonicalInteger_def itoa_def Let_def)
qed (simp add: itoa_def integer_digits)
lemma itoa_inj: "itoa i = itoa j \<Longrightarrow> i = j"
  using digits_no_sign [of "nat i"] digits_no_sign [of "nat j"]
  by (auto simp: itoa_def split: if_splits dest: digits_inj)
    (metis digits_no_sign list.set_intros(1))+

lemma coerce_valid: "ValidString s \<Longrightarrow> coerceUTF8 s = s"
proof -
  assume "ValidString s"
  then have "concat (map encode_rune (runes (byte_codes s))) = byte_codes s"
    using conjunct1 [OF valid_utf8_encode] unfolding ValidString_def by (metis (full_types))
  then show ?thesis by (simp add: coerceUTF8_def byte_codes_def comp_def)
qed

lemma same_JStr [simp]: "same_value (JStr a) (JStr b) \<longleftrightarrow> coerceUTF8 a = coerceUTF8 b"
  and same_JInt [simp]: "same_value (JInt i) (JInt j) \<longleftrightarrow> i = j"
  and same_JUint [simp]: "same_value (JUint v) (JUint w) \<longleftrightarrow> v = w"
  by (auto simp: JStr_def JInt_def JUint_def dest: itoa_inj digits_inj intro: word_unat_eq_iff [THEN iffD2] sym)

lemma same_JStrs [simp]: "same_value (JStrs as) (JStrs bs) \<longleftrightarrow> map coerceUTF8 as = map coerceUTF8 bs"
  by (auto simp: JStrs_def list_eq_iff_nth_eq list_all_length)

lemma map_of_struct: "map_of (map (\<lambda>(k, f). (k, f x)) fs) k = map_option (\<lambda>f. f x) (map_of fs k)"
  by (induction fs) auto

lemma same_struct:
  assumes "distinct (map fst fs)"
  shows "same_value (struct_json fs a) (struct_json fs b) \<longleftrightarrow> list_all (\<lambda>(k, f). same_value (f a) (f b)) fs"
proof -
  have "(case map_of (map (\<lambda>(k, f). (k, f b)) fs) k of None \<Rightarrow> False | Some w \<Rightarrow> same_value (f a) w) \<longleftrightarrow> same_value (f a) (f b)"
    if "(k, f) \<in> set fs" for k f
    using map_of_is_SomeI [OF assms that] unfolding map_of_struct by simp
  then show ?thesis by (auto simp: struct_json_def list_all_iff)
qed

lemma keys_ok_struct:
  "map_keys_ok (struct_json fs x) \<longleftrightarrow> distinct (map fst fs) \<and> list_all (\<lambda>(k, f). map_keys_ok (f x)) fs"
proof -
  have "map fst (map (\<lambda>(k, f). (k, f x)) fs) = map fst fs" by (simp add: case_prod_unfold comp_def)
  then show ?thesis by (simp add: struct_json_def list_all_iff case_prod_unfold del: map_map)
qed

lemma keys_ok_leaf [simp]: "map_keys_ok (JStr s)" "map_keys_ok (JInt i)" "map_keys_ok (JUint w)" "map_keys_ok (JStrs ss)"
  by (simp_all add: JStr_def JInt_def JUint_def JStrs_def list_all_iff)

lemma event_keys_distinct: "distinct (map fst event_fields)"
  by (simp add: event_fields_def)

definition event_text_ok :: "Event \<Rightarrow> bool" where
  "event_text_ok e \<longleftrightarrow> list_all ValidString
     ([EventID e, ev_ComputerID e, PreviousHead e, ev_Kind e, OccurredAt e, IdempotencyKey e, RequestCommitment e,
       TrajectoryID e, ParentEventID e, CapsuleID e, ActorProfile e, AuthorityRef e, PayloadCommitment e, PrivacyClass e,
       ProposedEffectRef e, DecisionRef e, ExpectedDesiredEventHead e, ExpectedEffectiveEventHead e,
       ExpectedPendingTransitionRef e, ExpectedDesiredStateCommitment e, ExpectedEffectiveStateCommitment e,
       ResultingEffectiveCommitment e]
      @ ModelPolicyRefs e @ InputArtifactRefs e @ OutputArtifactRefs e @ VerifierRefs e)"

lemma printable_leaf [simp]: "printable (JInt i)" "printable (JUint w)"
    "ValidString s \<Longrightarrow> printable (JStr s)" "list_all ValidString ss \<Longrightarrow> printable (JStrs ss)"
  by (simp_all add: JStr_def JInt_def JUint_def JStrs_def integer_itoa integer_digits coerce_valid list_all_iff)

lemma printable_struct: "printable (struct_json fs x) \<longleftrightarrow> list_all (\<lambda>(k, f). ValidString k \<and> printable (f x)) fs"
  by (simp add: struct_json_def list_all_iff case_prod_unfold)

lemma event_keys_valid: "list_all (\<lambda>(k, f). ValidString k) event_fields"
  by (simp add: event_fields_def ValidString_def byte_codes_def)

lemma event_printable: "event_text_ok e \<Longrightarrow> printable (struct_json event_fields e)"
proof -
  assume e: "event_text_ok e"
  have "list_all (\<lambda>(k, f). printable (f e)) event_fields"
    using e by (simp add: event_fields_def event_text_ok_def)
  then show ?thesis using event_keys_valid by (auto simp: printable_struct list_all_iff)
qed

text \<open>The caller's \<^verbatim>\<open>RequireExpectedHead\<close> flag is not part of the event.\<close>

abbreviation published :: "Event \<Rightarrow> Event" where
  "published e \<equiv> e\<lparr>RequireExpectedHead := False\<rparr>"

lemma map_coerce_valid: "list_all ValidString ss \<Longrightarrow> map coerceUTF8 ss = ss"
  by (induction ss) (simp_all add: coerce_valid)

lemma same_event:
  assumes "event_text_ok a" "event_text_ok b" "same_value (struct_json event_fields a) (struct_json event_fields b)"
  shows "published a = published b"
proof -
  have "list_all (\<lambda>(k, f). same_value (f a) (f b)) event_fields"
    using assms(3) same_struct [OF event_keys_distinct] by simp
  then show ?thesis
    using assms(1,2) unfolding event_fields_def event_text_ok_def
    by (cases a; cases b) (simp add: coerce_valid map_coerce_valid)
qed

subsection \<open>Replaying a tape\<close>

type_synonym tape = "(Event \<times> TransitionInput) list"

definition reduce_step :: "(string \<Rightarrow> bool) \<Rightarrow> hashing \<Rightarrow> Head option \<Rightarrow> Event \<times> TransitionInput \<Rightarrow> reduce_error + Head option" where
  "reduce_step uuid7 sha h ei = (case Reduce uuid7 sha h (fst ei) (snd ei) of Inl err \<Rightarrow> Inl err | Inr h' \<Rightarrow> Inr (Some h'))"

definition replay :: "(string \<Rightarrow> bool) \<Rightarrow> hashing \<Rightarrow> tape \<Rightarrow> reduce_error + Head option" where
  "replay uuid7 sha t = run_steps (reduce_step uuid7 sha) None t"

definition bytes_of :: "Event \<Rightarrow> string" where
  "bytes_of e = render (norm (struct_json event_fields e))"

lemmas reduce_defs = Reduce_def reduceGenesis_def reduce_kind_def

lemma Digest_Inr:
  "Event_Digest uuid7 sha e = Inr dg \<longleftrightarrow>
     Event_Validate uuid7 e = None \<and> printable (struct_json event_fields e) \<and> dg = sha (bytes_of e)"
proof (cases "appendCanonical (struct_json event_fields e)")
  case (Inl c)
  then have "\<not> printable (struct_json event_fields e)"
    using appendCanonical_Inr [of "struct_json event_fields e" "bytes_of e"] by (simp add: bytes_of_def)
  then show ?thesis using Inl by (simp add: Event_Digest_def Event_CanonicalBytes_def split: option.splits)
next
  case (Inr b)
  then have "printable (struct_json event_fields e)" "b = bytes_of e" by (simp_all add: appendCanonical_Inr bytes_of_def)
  then show ?thesis using Inr by (auto simp: Event_Digest_def Event_CanonicalBytes_def split: option.splits)
qed

lemma reduce_kind_Inr:
  assumes "reduce_kind cur nxt e dg inp = Inr h"
  shows "CanonicalEventHead h = CanonicalEventHead nxt \<and> h_Sequence h = h_Sequence nxt \<and> h_ComputerID h = h_ComputerID nxt
    \<and> h_ReducerVersion h = h_ReducerVersion nxt \<and> ev_Kind e \<noteq> EventGenesisImported"
  using assms by (auto simp: reduce_kind_def split: if_splits)

lemma Reduce_None:
  assumes "Reduce uuid7 sha None e inp = Inr h"
  shows "Event_Digest uuid7 sha e = Inr (sha (bytes_of e)) \<and> reduceGenesis e (sha (bytes_of e)) inp = Inr h"
  using assms by (auto simp: Reduce_def Digest_Inr split: option.splits sum.splits)

lemma Reduce_Some:
  assumes "Reduce uuid7 sha (Some cur) e inp = Inr h"
  shows "Event_Digest uuid7 sha e = Inr (sha (bytes_of e)) \<and> h_ComputerID cur = ev_ComputerID e
    \<and> ev_Sequence e = h_Sequence cur + 1 \<and> PreviousHead e = CanonicalEventHead cur \<and> h_ReducerVersion cur = ev_ReducerVersion e
    \<and> reduce_kind cur (cur\<lparr>h_Sequence := ev_Sequence e, CanonicalEventHead := sha (bytes_of e)\<rparr>) e (sha (bytes_of e)) inp = Inr h"
  using assms by (auto simp: Reduce_def Digest_Inr split: option.splits sum.splits if_splits)

lemma Validate_None:
  "Event_Validate uuid7 e = None \<Longrightarrow> ev_Sequence e \<noteq> 0 \<and> ev_ReducerVersion e = 1 \<and> ev_Kind e \<in> set validEventKinds
     \<and> isSHA256 (PreviousHead e)"
  by (auto simp: Event_Validate_def split: if_splits)

lemma replay_snoc:
  assumes "replay uuid7 sha (t @ [x]) = Inr (Some h)"
  obtains g where "replay uuid7 sha t = Inr g" "Reduce uuid7 sha g (fst x) (snd x) = Inr h"
  using assms by (auto simp: replay_def run_steps_append reduce_step_def split: sum.splits)

lemma replay_Nil: "replay uuid7 sha [] = Inr None"
  by (simp add: replay_def)

lemma replay_None_iff: "replay uuid7 sha t = Inr None \<longleftrightarrow> t = []"
  by (cases t rule: rev_cases) (auto simp: replay_def run_steps_append reduce_step_def split: sum.splits)

subsection \<open>The head invariant\<close>

definition hashes :: "hashing \<Rightarrow> bool" where
  "hashes sha \<longleftrightarrow> (\<forall>b. isSHA256 (sha b))"

definition head_ok :: "Head \<Rightarrow> bool" where
  "head_ok h \<longleftrightarrow> list_all isSHA256 [CanonicalEventHead h, DesiredEventHead h, EffectiveEventHead h,
        DesiredStateCommitment h, EffectiveStateCommitment h]
     \<and> h_ReducerVersion h = 1 \<and> h_Sequence h \<noteq> 0
     \<and> (if PendingTransitionRef h = [] then DesiredStateCommitment h = EffectiveStateCommitment h
        else PendingTransitionRef h = DesiredEventHead h)"

lemma Reduce_head_ok [inv_intros]:
  assumes sha: "hashes sha" and cur: "\<And>c. cur = Some c \<Longrightarrow> head_ok c" and r: "Reduce uuid7 sha cur e inp = Inr h"
  shows "head_ok h"
proof (cases cur)
  case None
  then show ?thesis
    using Reduce_None [of uuid7 sha e inp h] r sha
    by (auto simp: reduceGenesis_def head_ok_def hashes_def Digest_Inr dest: Validate_None split: if_splits)
next
  case (Some c)
  note s = Reduce_Some [OF r [unfolded Some]]
  have v: "ev_Sequence e \<noteq> 0" using s by (auto simp: Digest_Inr dest: Validate_None)
  have n: "isSHA256 (sha (bytes_of e))" using sha by (simp add: hashes_def)
  then have n': "sha (bytes_of e) \<noteq> []" by (auto simp: isSHA256_def)
  have k: "reduce_kind c (c\<lparr>h_Sequence := ev_Sequence e, CanonicalEventHead := sha (bytes_of e)\<rparr>) e (sha (bytes_of e)) inp = Inr h"
    using s by blast
  show ?thesis
    using k cur [OF Some] n n' v unfolding reduce_kind_def head_ok_def by (auto split: if_splits)
qed

interpretation reduce: guarded_step "reduce_step uuid7 sha" "\<lambda>h. hashes sha \<longrightarrow> (\<forall>c. h = Some c \<longrightarrow> head_ok c)" for uuid7 sha
  by unfold_locales (auto simp: reduce_step_def split: sum.splits intro: Reduce_head_ok)

lemma replay_head_ok: "hashes sha \<Longrightarrow> replay uuid7 sha t = Inr (Some h) \<Longrightarrow> head_ok h"
  using reduce.run_inv [of sha None uuid7 t "Some h"] unfolding replay_def by simp

text \<open>Each accepted event raises the sequence number by one and never wraps it: sequence number zero is refused.\<close>

lemma replay_sequence: "replay uuid7 sha t = Inr (Some h) \<Longrightarrow> unat (h_Sequence h) = length t"
proof (induction t arbitrary: h rule: rev_induct)
  case (snoc x t)
  obtain g where g: "replay uuid7 sha t = Inr g" "Reduce uuid7 sha g (fst x) (snd x) = Inr h"
    using replay_snoc [OF snoc.prems] .
  show ?case
  proof (cases g)
    case None
    then have "t = []" "h_Sequence h = 1"
      using g replay_None_iff Reduce_None [of uuid7 sha "fst x" "snd x" h] by (auto simp: reduceGenesis_def split: if_splits)
    then show ?thesis by simp
  next
    case (Some c)
    note s = Reduce_Some [OF g(2) [unfolded Some]]
    then have h: "h_Sequence h = h_Sequence c + 1" using reduce_kind_Inr by fastforce
    moreover have "h_Sequence c + 1 \<noteq> 0" using s by (auto simp: Digest_Inr dest: Validate_None)
    ultimately have "unat (h_Sequence h) = unat (h_Sequence c) + 1"
      using unatSuc [of "h_Sequence c"] by (simp add: add.commute)
    then show ?thesis using snoc.IH [OF g(1) [unfolded Some]] by simp
  qed
qed (simp add: replay_Nil)

text \<open>C3: the reducer keeps its two-phase protocol: in every head a tape replays to, the sequence number is the length of
  the tape; without a pending transition the desired and the effective state agree, and a pending transition is the
  desired event head; all heads and commitments are SHA-256 digests.\<close>

theorem replayed_head_invariant:
  assumes "hashes sha" "replay uuid7 sha t = Inr (Some h)"
  shows "head_ok h \<and> unat (h_Sequence h) = length t"
  using replay_head_ok [OF assms] replay_sequence [OF assms(2)] by simp

text \<open>C4: effective state moves only through a bound transition, to the commitment the event names. An accepted event that changes the
  effective commitment or the effective event head makes itself the effective event head and the commitment it carries the
  effective one; it either applies the pending transition it names, and then that commitment is the desired one, or is a
  Researcher update with nothing pending, and then it is the target of its input, a SHA-256 digest.\<close>

theorem effective_state_moves_only_when_bound:
  assumes "Reduce uuid7 sha (Some c) e inp = Inr h"
    "EffectiveStateCommitment h \<noteq> EffectiveStateCommitment c \<or> EffectiveEventHead h \<noteq> EffectiveEventHead c"
  shows "EffectiveStateCommitment h = ResultingEffectiveCommitment e \<and> Event_Digest uuid7 sha e = Inr (EffectiveEventHead h)
    \<and> (ev_Kind e \<in> {EventMaterializationApplied, EventRollbackApplied} \<and> PendingTransitionRef c \<noteq> []
        \<and> DecisionRef e = PendingTransitionRef c \<and> EffectiveStateCommitment h = DesiredStateCommitment c \<and> PendingTransitionRef h = []
      \<or> ev_Kind e = EventResearcherUpdate \<and> PendingTransitionRef c = [] \<and> EffectiveStateCommitment h = TargetStateCommitment inp
        \<and> isSHA256 (TargetStateCommitment inp))"
  using Reduce_Some [OF assms(1)] assms(2) unfolding reduce_kind_def by (auto simp: Digest_Inr split: if_splits)

text \<open>No two transitions overlap: while a transition is pending, an event is refused when it accepts an effect, requests a
  rollback or records a Researcher update.\<close>

theorem pending_transition_excludes_others:
  assumes "PendingTransitionRef c \<noteq> []" "ev_Kind e \<in> {EventEffectAccepted, EventRollbackRequested, EventResearcherUpdate}"
  shows "\<exists>err. Reduce uuid7 sha (Some c) e inp = Inl err"
proof (cases "Reduce uuid7 sha (Some c) e inp")
  case (Inr h)
  then show ?thesis using Reduce_Some [OF Inr] assms unfolding reduce_kind_def by (auto split: if_splits)
qed simp

text \<open>The kind \<^verbatim>\<open>file_root_committed\<close> is a valid event kind that no head accepts: the reducer has no case for it.\<close>

theorem file_root_committed_never_reduces:
  assumes "ev_Kind e = EventFileRootCommitted"
  shows "ev_Kind e \<in> set validEventKinds \<and> (\<exists>err. Reduce uuid7 sha cur e inp = Inl err)"
proof (cases "Reduce uuid7 sha cur e inp")
  case (Inr h)
  then show ?thesis
    using Reduce_None [of uuid7 sha e inp h] Reduce_Some [of uuid7 sha _ e inp h] assms
    by (cases cur) (auto simp: reduceGenesis_def reduce_kind_def isCausalEvent_def validEventKinds_def split: if_splits)
qed (simp add: assms validEventKinds_def)

text \<open>The tape behind a head.\<close>

definition no_collision :: "hashing \<Rightarrow> tape \<Rightarrow> bool" where
  "no_collision sha t \<longleftrightarrow> inj_on sha (bytes_of ` fst ` set t)"

definition tape_text_ok :: "tape \<Rightarrow> bool" where
  "tape_text_ok t \<longleftrightarrow> (\<forall>e \<in> fst ` set t. event_text_ok e)"

lemma event_keys_ok: "map_keys_ok (struct_json event_fields e)"
  unfolding keys_ok_struct using event_keys_distinct by (simp add: event_fields_def)

lemma bytes_of_inj:
  assumes "Event_Digest uuid7 sha a = Inr x" "Event_Digest uuid7 sha b = Inr y" "bytes_of a = bytes_of b"
    and "event_text_ok a" "event_text_ok b"
  shows "published a = published b"
proof -
  have p: "appendCanonical (struct_json event_fields a) = Inr (bytes_of a)" "appendCanonical (struct_json event_fields b) = Inr (bytes_of b)"
    using assms(1,2) by (simp_all add: Digest_Inr appendCanonical_Inr bytes_of_def)
  have "same_value (struct_json event_fields a) (struct_json event_fields b)"
    using canonical_bytes_eq [OF event_keys_ok event_keys_ok p] assms(3) by simp
  then show ?thesis by (rule same_event [OF assms(4,5)])
qed

lemma replay_last:
  assumes "replay uuid7 sha (t @ [x]) = Inr (Some h)"
  shows "\<exists>g. replay uuid7 sha t = Inr g \<and> Event_Digest uuid7 sha (fst x) = Inr (sha (bytes_of (fst x)))
    \<and> CanonicalEventHead h = sha (bytes_of (fst x))
    \<and> (case g of None \<Rightarrow> t = [] \<and> ev_Kind (fst x) = EventGenesisImported
       | Some c \<Rightarrow> ev_Kind (fst x) \<noteq> EventGenesisImported \<and> PreviousHead (fst x) = CanonicalEventHead c)"
proof -
  obtain g where g: "replay uuid7 sha t = Inr g" "Reduce uuid7 sha g (fst x) (snd x) = Inr h"
    using replay_snoc [OF assms] .
  show ?thesis
  proof (cases g)
    case None
    then show ?thesis
      using g replay_None_iff Reduce_None [of uuid7 sha "fst x" "snd x" h]
      by (intro exI [of _ None]) (auto simp: replay_Nil reduceGenesis_def split: if_splits)
  next
    case (Some c)
    note s = Reduce_Some [OF g(2) [unfolded Some]]
    have "CanonicalEventHead h = sha (bytes_of (fst x)) \<and> ev_Kind (fst x) \<noteq> EventGenesisImported"
      using reduce_kind_Inr [of c _ "fst x" "sha (bytes_of (fst x))" "snd x" h] s by fastforce
    then show ?thesis using g(1) Some s by auto
  qed
qed

lemma replay_chain_inj:
  assumes "no_collision sha u" "tape_text_ok u"
  shows "replay uuid7 sha t = Inr (Some h) \<Longrightarrow> replay uuid7 sha t' = Inr (Some h') \<Longrightarrow> set t \<subseteq> set u \<Longrightarrow> set t' \<subseteq> set u \<Longrightarrow>
    CanonicalEventHead h = CanonicalEventHead h' \<Longrightarrow> map (published \<circ> fst) t = map (published \<circ> fst) t'"
proof (induction t arbitrary: t' h h' rule: rev_induct)
  case Nil
  then show ?case by (simp add: replay_Nil)
next
  case (snoc x t)
  obtain y s where t': "t' = s @ [y]" using snoc.prems(2) by (cases t' rule: rev_cases) (auto simp: replay_Nil)
  obtain g where g: "replay uuid7 sha t = Inr g" "Event_Digest uuid7 sha (fst x) = Inr (sha (bytes_of (fst x)))"
      "CanonicalEventHead h = sha (bytes_of (fst x))"
      "case g of None \<Rightarrow> t = [] \<and> ev_Kind (fst x) = EventGenesisImported
       | Some c \<Rightarrow> ev_Kind (fst x) \<noteq> EventGenesisImported \<and> PreviousHead (fst x) = CanonicalEventHead c"
    using replay_last [OF snoc.prems(1)] by blast
  obtain g' where g': "replay uuid7 sha s = Inr g'" "Event_Digest uuid7 sha (fst y) = Inr (sha (bytes_of (fst y)))"
      "CanonicalEventHead h' = sha (bytes_of (fst y))"
      "case g' of None \<Rightarrow> s = [] \<and> ev_Kind (fst y) = EventGenesisImported
       | Some c \<Rightarrow> ev_Kind (fst y) \<noteq> EventGenesisImported \<and> PreviousHead (fst y) = CanonicalEventHead c"
    using replay_last [OF snoc.prems(2) [unfolded t']] by blast
  have m: "x \<in> set u" "y \<in> set u" "set t \<subseteq> set u" "set s \<subseteq> set u" using snoc.prems(3,4) t' by auto
  have "bytes_of (fst x) = bytes_of (fst y)"
    by (rule inj_onD [OF assms(1) [unfolded no_collision_def]]) (use m(1,2) g(3) g'(3) snoc.prems(5) in auto)
  then have p: "published (fst x) = published (fst y)"
    by (rule bytes_of_inj [OF g(2) g'(2)]) (use m(1,2) assms(2) in \<open>auto simp: tape_text_ok_def\<close>)
  then have k: "ev_Kind (fst x) = ev_Kind (fst y)" "PreviousHead (fst x) = PreviousHead (fst y)"
    by (cases "fst x"; cases "fst y"; simp)+
  have "map (published \<circ> fst) t = map (published \<circ> fst) s"
  proof (cases g)
    case None
    then have "g' = None" using g(4) g'(4) k(1) by (cases g') auto
    then show ?thesis using None g(4) g'(4) by simp
  next
    case (Some c)
    then obtain c' where c': "g' = Some c'" using g(4) g'(4) k(1) by (cases g') auto
    have "CanonicalEventHead c = CanonicalEventHead c'" using Some c' g(4) g'(4) k(2) by simp
    then show ?thesis using snoc.IH [OF g(1) [unfolded Some] g'(1) [unfolded c'] m(3,4)] by blast
  qed
  then show ?case using p t' by (simp add: comp_def)
qed

text \<open>C5: a canonical event head determines the whole tape behind it: two tapes that replay to heads with the same canonical
  event head hold the same events in the same order, unless the hash collides on their canonical bytes.\<close>

theorem canonical_head_binds_tape:
  assumes "replay uuid7 sha t = Inr (Some h)" "replay uuid7 sha t' = Inr (Some h')"
    and "CanonicalEventHead h = CanonicalEventHead h'" "no_collision sha (t @ t')" "tape_text_ok (t @ t')"
  shows "map (published \<circ> fst) t = map (published \<circ> fst) t'"
  by (rule replay_chain_inj [OF assms(4,5,1,2)]) (use assms(3) in auto)

subsection \<open>What a request commitment determines\<close>

text \<open>The event without its position on the tape.\<close>

definition intent_of :: "Event \<Rightarrow> Event" where
  "intent_of e = e\<lparr>ev_Sequence := 0, PreviousHead := [], RequestCommitment := [], RequireExpectedHead := False\<rparr>"

definition intent_text_ok :: "Event \<Rightarrow> TransitionInput \<Rightarrow> string list \<Rightarrow> bool" where
  "intent_text_ok e i rs \<longleftrightarrow> event_text_ok e \<and> ValidString (TargetStateCommitment i) \<and> list_all ValidString rs"

lemma intent_keys_distinct: "distinct (map fst intent_fields)"
  by (simp add: intent_fields_def event_fields_def)

lemma input_keys_distinct: "distinct (map fst input_fields)"
  by (simp add: input_fields_def)

lemma same_intent:
  assumes "event_text_ok a" "event_text_ok b" "ValidString (TargetStateCommitment i)" "ValidString (TargetStateCommitment j)"
    and "same_value (requestIntent a i) (requestIntent b j)"
  shows "intent_of a = intent_of b \<and> i = j"
proof -
  have l: "list_all (\<lambda>(k, f). same_value (f (a, i)) (f (b, j))) intent_fields"
    using assms(5) same_struct [OF intent_keys_distinct, of "(a, i)" "(b, j)"] by (simp add: requestIntent_def)
  have "same_value (struct_json input_fields i) (struct_json input_fields j)"
    using l by (simp add: intent_fields_def)
  then have "list_all (\<lambda>(k, f). same_value (f i) (f j)) input_fields" unfolding same_struct [OF input_keys_distinct] .
  then have "i = j" using assms(3,4) by (cases i; cases j) (simp add: input_fields_def coerce_valid)
  moreover have "intent_of a = intent_of b"
    using l assms(1,2) unfolding intent_fields_def event_fields_def event_text_ok_def
    by (cases a; cases b) (simp add: intent_of_def coerce_valid map_coerce_valid)
  ultimately show ?thesis by simp
qed

lemma request_keys_ok: "map_keys_ok (request_json e i pin rs)"
proof -
  have ki: "map_keys_ok (struct_json input_fields i)"
    unfolding keys_ok_struct using input_keys_distinct by (simp add: input_fields_def)
  have "map_keys_ok (requestIntent e i)"
    unfolding requestIntent_def keys_ok_struct [of intent_fields] using intent_keys_distinct ki
    by (simp add: intent_fields_def event_fields_def)
  then show ?thesis by (simp add: request_json_def)
qed

text \<open>A request commitment binds the immutable intent: two requests with the same commitment carry the same event up to
  its sequence number and previous head, the same transition input and the same payload pin receipts in the same
  order, unless the hash collides on their canonical bytes.\<close>

theorem request_commitment_binds_intent:
  assumes "ComputeRequestCommitment sha a i p rs = Inr c" "ComputeRequestCommitment sha b j q ss = Inr c"
    and "inj_on sha {render (norm (request_json a i p rs)), render (norm (request_json b j q ss))}"
    and "intent_text_ok a i rs" "intent_text_ok b j ss"
  shows "intent_of a = intent_of b \<and> i = j \<and> rs = ss"
proof -
  have r: "appendCanonical (request_json a i p rs) = Inr (render (norm (request_json a i p rs)))"
    "appendCanonical (request_json b j q ss) = Inr (render (norm (request_json b j q ss)))"
    "c = sha (render (norm (request_json a i p rs)))" "c = sha (render (norm (request_json b j q ss)))"
    using assms(1,2) by (auto simp: ComputeRequestCommitment_def appendCanonical_Inr split: sum.splits)
  have "render (norm (request_json a i p rs)) = render (norm (request_json b j q ss))"
    by (rule inj_onD [OF assms(3)]) (use r(3,4) in simp_all)
  then have "same_value (request_json a i p rs) (request_json b j q ss)"
    using canonical_bytes_eq [OF request_keys_ok request_keys_ok r(1,2)] by simp
  then have "same_value (requestIntent a i) (requestIntent b j)" "map coerceUTF8 rs = map coerceUTF8 ss"
    by (simp_all add: request_json_def)
  then show ?thesis using same_intent [of a b i j] assms(4,5) map_coerce_valid by (simp add: intent_text_ok_def)
qed

subsection \<open>Witnesses\<close>

definition wit_uuid7 :: "string \<Rightarrow> bool" where
  "wit_uuid7 s \<longleftrightarrow> s = ''u''"

definition wit_sha256 :: hashing where
  "wit_sha256 b = replicate 64 (CHR ''a'')"

definition wit_genesis :: Event where
  "wit_genesis = \<lparr>SchemaVersion = 1, EventID = ''u'', ev_ComputerID = ''c'', ev_Sequence = 1, PreviousHead = ZeroHead,
     ev_Kind = EventGenesisImported, OccurredAt = ''2026-01-02T03:04:05.25Z'', IdempotencyKey = ''k'',
     RequestCommitment = ZeroHead, TrajectoryID = [], ParentEventID = [], CapsuleID = [], ActorProfile = ''a'',
     AuthorityRef = ''r'', ModelPolicyRefs = [], InputArtifactRefs = [], OutputArtifactRefs = [],
     PayloadCommitment = ZeroHead, PrivacyClass = ''p'', ProposedEffectRef = [], DecisionRef = [], VerifierRefs = [],
     ev_ReducerVersion = 1, ExpectedDesiredEventHead = ZeroHead, ExpectedEffectiveEventHead = ZeroHead,
     ExpectedPendingTransitionRef = [], ExpectedDesiredStateCommitment = ZeroHead,
     ExpectedEffectiveStateCommitment = ZeroHead, RequireExpectedHead = False, ResultingEffectiveCommitment = ZeroHead\<rparr>"

definition wit_input :: TransitionInput where
  "wit_input = \<lparr>TargetStateCommitment = ZeroHead, RestoredPriorEffective = False\<rparr>"

definition wit_head :: Head where
  "wit_head = \<lparr>h_ComputerID = ''c'', h_Sequence = 1, CanonicalEventHead = replicate 64 (CHR ''a''),
     DesiredEventHead = replicate 64 (CHR ''a''), EffectiveEventHead = replicate 64 (CHR ''a''), PendingTransitionRef = [],
     DesiredStateCommitment = ZeroHead, EffectiveStateCommitment = ZeroHead, h_ReducerVersion = 1, CredentialRevocationEpoch = 0\<rparr>"

lemma wit_hashes: "hashes wit_sha256"
  by (simp add: hashes_def wit_sha256_def isSHA256_def list_all_iff isLowerHex_def less_eq_char_def)

lemma wit_valid: "Event_Validate wit_uuid7 wit_genesis = None"
  by code_simp

lemma wit_text: "event_text_ok wit_genesis"
  by code_simp

lemma wit_printable: "printable (struct_json event_fields wit_genesis)"
  by (rule event_printable [OF wit_text])

lemma wit_replay: "replay wit_uuid7 wit_sha256 [(wit_genesis, wit_input)] = Inr (Some wit_head)"
proof -
  have d: "Event_Digest wit_uuid7 wit_sha256 wit_genesis = Inr (replicate 64 (CHR ''a''))"
    unfolding Digest_Inr using wit_valid wit_printable by (simp add: wit_sha256_def)
  have "isSHA256 ZeroHead" by (simp add: isSHA256_def list_all_iff isLowerHex_def less_eq_char_def)
  then have "Reduce wit_uuid7 wit_sha256 None wit_genesis wit_input = Inr wit_head"
    unfolding Reduce_def wit_valid option.case d sum.case
    by (simp add: reduceGenesis_def wit_genesis_def wit_input_def wit_head_def)
  then show ?thesis by (simp add: replay_def reduce_step_def)
qed

theorem replayed_head_invariant_witness: "head_ok wit_head \<and> unat (h_Sequence wit_head) = 1"
  using replayed_head_invariant [OF wit_hashes wit_replay] by simp

definition wit_update :: Event where
  "wit_update = wit_genesis\<lparr>ev_Sequence := 2, PreviousHead := replicate 64 (CHR ''a''), ev_Kind := EventResearcherUpdate,
     ExpectedDesiredEventHead := replicate 64 (CHR ''a''), ExpectedEffectiveEventHead := replicate 64 (CHR ''a''),
     ResultingEffectiveCommitment := replicate 64 (CHR ''b'')\<rparr>"

lemma wit_update_valid: "Event_Validate wit_uuid7 wit_update = None"
  by code_simp

lemma wit_update_text: "event_text_ok wit_update"
  by code_simp

lemma wit_update_printable: "printable (struct_json event_fields wit_update)"
  by (rule event_printable [OF wit_update_text])

theorem effective_state_moves_only_when_bound_witness:
  "\<exists>h. Reduce wit_uuid7 wit_sha256 (Some wit_head) wit_update \<lparr>TargetStateCommitment = replicate 64 (CHR ''b''), RestoredPriorEffective = False\<rparr> = Inr h
    \<and> EffectiveStateCommitment h \<noteq> EffectiveStateCommitment wit_head \<and> EffectiveStateCommitment h = replicate 64 (CHR ''b'')
    \<and> EffectiveStateCommitment h = ResultingEffectiveCommitment wit_update"
proof -
  let ?i = "\<lparr>TargetStateCommitment = replicate 64 (CHR ''b''), RestoredPriorEffective = False\<rparr>"
  have d: "Event_Digest wit_uuid7 wit_sha256 wit_update = Inr (replicate 64 (CHR ''a''))"
    unfolding Digest_Inr using wit_update_valid wit_update_printable by (simp add: wit_sha256_def)
  have "isSHA256 (replicate 64 (CHR ''b''))" by (simp add: isSHA256_def list_all_iff isLowerHex_def less_eq_char_def)
  then obtain h where h: "Reduce wit_uuid7 wit_sha256 (Some wit_head) wit_update ?i = Inr h"
      "EffectiveStateCommitment h = replicate 64 (CHR ''b'')"
    unfolding Reduce_def wit_update_valid option.case d sum.case
    by (simp add: reduce_kind_def wit_update_def wit_genesis_def wit_head_def)
  have n: "EffectiveStateCommitment h \<noteq> EffectiveStateCommitment wit_head"
    unfolding h(2) by (simp add: wit_head_def replicate_eq_replicate)
  have k: "ev_Kind wit_update = EventResearcherUpdate" by (simp add: wit_update_def)
  have "EffectiveStateCommitment h = ResultingEffectiveCommitment wit_update"
    using effective_state_moves_only_when_bound [OF h(1) disjI1 [OF n]] by blast
  then show ?thesis using h n by (intro exI [of _ h]) simp
qed

theorem pending_transition_excludes_others_witness:
  "\<exists>err. Reduce wit_uuid7 wit_sha256 (Some (wit_head\<lparr>PendingTransitionRef := ZeroHead\<rparr>)) (wit_update\<lparr>ExpectedPendingTransitionRef := ZeroHead\<rparr>)
     wit_input = Inl err"
  by (rule pending_transition_excludes_others) (simp_all add: wit_update_def)

theorem file_root_committed_never_reduces_witness:
  "\<exists>err. Reduce wit_uuid7 wit_sha256 (Some wit_head) (wit_update\<lparr>ev_Kind := EventFileRootCommitted\<rparr>) wit_input = Inl err"
  using file_root_committed_never_reduces [of "wit_update\<lparr>ev_Kind := EventFileRootCommitted\<rparr>"] by simp

definition wit_strict :: Event where
  "wit_strict = wit_genesis\<lparr>RequireExpectedHead := True\<rparr>"

lemma wit_strict_bytes: "struct_json event_fields wit_strict = struct_json event_fields wit_genesis"
  by (simp add: struct_json_def event_fields_def wit_strict_def)

lemma wit_strict_replay: "replay wit_uuid7 wit_sha256 [(wit_strict, wit_input)] = Inr (Some wit_head)"
proof -
  have "Event_Validate wit_uuid7 wit_strict = Event_Validate wit_uuid7 wit_genesis"
    by (simp add: Event_Validate_def wit_strict_def)
  then have v: "Event_Validate wit_uuid7 wit_strict = None" using wit_valid by simp
  have d: "Event_Digest wit_uuid7 wit_sha256 wit_strict = Inr (replicate 64 (CHR ''a''))"
    unfolding Digest_Inr wit_strict_bytes using v wit_printable by (simp add: wit_sha256_def)
  have "isSHA256 ZeroHead" by (simp add: isSHA256_def list_all_iff isLowerHex_def less_eq_char_def)
  then have "Reduce wit_uuid7 wit_sha256 None wit_strict wit_input = Inr wit_head"
    unfolding Reduce_def v option.case d sum.case
    by (simp add: reduceGenesis_def wit_strict_def wit_genesis_def wit_input_def wit_head_def)
  then show ?thesis by (simp add: replay_def reduce_step_def)
qed

theorem canonical_head_binds_tape_witness:
  "map (published \<circ> fst) [(wit_genesis, wit_input)] = map (published \<circ> fst) [(wit_strict, wit_input)]"
proof (rule canonical_head_binds_tape [OF wit_replay wit_strict_replay refl])
  show "no_collision wit_sha256 ([(wit_genesis, wit_input)] @ [(wit_strict, wit_input)])"
    by (simp add: no_collision_def bytes_of_def wit_strict_bytes)
  show "tape_text_ok ([(wit_genesis, wit_input)] @ [(wit_strict, wit_input)])"
    using wit_text by (simp add: tape_text_ok_def wit_strict_def event_text_ok_def)
qed

lemma wit_request: "ComputeRequestCommitment wit_sha256 wit_genesis wit_input ''p'' [''r''] = Inr (replicate 64 (CHR ''a''))"
proof -
  have "printable (request_json wit_genesis wit_input ''p'' [''r''])" by code_simp
  then have "appendCanonical (request_json wit_genesis wit_input ''p'' [''r'']) = Inr (render (norm (request_json wit_genesis wit_input ''p'' [''r''])))"
    unfolding appendCanonical_Inr by simp
  then show ?thesis unfolding ComputeRequestCommitment_def by (simp add: wit_sha256_def)
qed

definition wit_rebased :: Event where
  "wit_rebased = wit_genesis\<lparr>ev_Sequence := 7, PreviousHead := replicate 64 (CHR ''b'')\<rparr>"

lemma wit_rebased_json: "request_json wit_rebased wit_input ''p'' [''r''] = request_json wit_genesis wit_input ''p'' [''r'']"
  by (simp add: request_json_def requestIntent_def struct_json_def intent_fields_def event_fields_def wit_rebased_def)

theorem request_commitment_binds_intent_witness:
  "intent_of wit_rebased = intent_of wit_genesis \<and> wit_input = wit_input \<and> [''r''] = [''r'']"
proof (rule request_commitment_binds_intent)
  show "ComputeRequestCommitment wit_sha256 wit_rebased wit_input ''p'' [''r''] = Inr (replicate 64 (CHR ''a''))"
    using wit_request by (simp add: ComputeRequestCommitment_def wit_rebased_json)
  show "ComputeRequestCommitment wit_sha256 wit_genesis wit_input ''p'' [''r''] = Inr (replicate 64 (CHR ''a''))"
    by (rule wit_request)
  show "inj_on wit_sha256 {render (norm (request_json wit_rebased wit_input ''p'' [''r''])), render (norm (request_json wit_genesis wit_input ''p'' [''r'']))}"
    unfolding wit_rebased_json by simp
  have v: "ValidString ZeroHead" "ValidString ''r''" "ValidString (replicate 64 (CHR ''b''))" by code_simp+
  then show "intent_text_ok wit_rebased wit_input [''r'']" "intent_text_ok wit_genesis wit_input [''r'']"
    using wit_text by (simp_all add: intent_text_ok_def wit_input_def wit_rebased_def event_text_ok_def)
qed

end
