(* ===== verification/Event_Receipt.thy ===== *)
theory Event_Receipt
  imports Computer_Event
begin

text \<open>
  Signed receipts (\<^verbatim>\<open>internal/computerevent\<close>: \<^verbatim>\<open>receipt.go\<close>, \<^verbatim>\<open>event_receipt.go\<close>): how a receipt is
  assembled, canonicalised, signed and verified, and how an event head receipt is matched against the
  request it answers. Ed25519 over base64 text is the triple \<open>cr_sign\<close>, \<open>cr_decodes\<close>, \<open>cr_verify\<close> of an
  argument record; the key directory is the argument \<open>resolver\<close>.
\<close>

subsection \<open>Receipts\<close>

text \<open>A value of type \<^verbatim>\<open>any\<close> in the field map: the Go types the code distinguishes, everything else as its JSON tree.\<close>

datatype dyn = DStr string | DUint uint64 | DInt int | DOther json

fun dyn_json :: "dyn \<Rightarrow> json" where
  "dyn_json (DStr s) = JStr s"
| "dyn_json (DUint w) = JUint w"
| "dyn_json (DInt i) = JInt i"
| "dyn_json (DOther j) = j"

record SignerRef =
  SignerDomain :: string
  KeyID :: string

record Signature =
  sig_Signer :: SignerRef
  sig_Text :: string

record Receipt =
  ReceiptVersion :: int
  ReceiptKind :: string
  ReceiptID :: string
  Issuer :: string
  IssuedAt :: string
  RequiredSigners :: "SignerRef list"
  CanonicalPayloadSHA256 :: string
  SignatureSet :: "Signature list"
  KindFields :: "(string \<times> dyn) list"

record SigningKey =
  sk_Ref :: SignerRef
  PrivateKey :: string

record Crypto =
  cr_sha :: hashing
  cr_sign :: "string \<Rightarrow> string \<Rightarrow> string"
  cr_decodes :: "string \<Rightarrow> bool"
  cr_verify :: "string \<Rightarrow> string \<Rightarrow> string \<Rightarrow> bool"

datatype receipt_error = InvalidSigningKey nat | ReservedField string | ReceiptCanon canon_error
  | FieldCountMismatch | MissingField string | NoResolver | InvalidCommon | BadReceiptID | BadIssuedAt
  | SignatureCount | PayloadDigestMismatch | BadSequence | SignerMismatch nat | DuplicateSigner | UnresolvedSigner
  | InvalidEncoding | InvalidSignature | WrongKindOrIssuer | FieldMismatch string

definition signer_json :: "SignerRef \<Rightarrow> json" where
  "signer_json = struct_json [(''signer_domain'', JStr \<circ> SignerDomain), (''key_id'', JStr \<circ> KeyID)]"

definition signature_json :: "Signature \<Rightarrow> json" where
  "signature_json = struct_json [(''signer_domain'', JStr \<circ> SignerDomain \<circ> sig_Signer), (''key_id'', JStr \<circ> KeyID \<circ> sig_Signer),
     (''signature'', JStr \<circ> sig_Text)]"

definition reserved_fields :: "string list" where
  "reserved_fields = [''receipt_version'', ''receipt_kind'', ''receipt_id'', ''issuer'', ''issued_at'',
     ''required_signers'', ''canonical_payload_sha256'', ''signature_set'']"

definition Receipt_values :: "bool \<Rightarrow> Receipt \<Rightarrow> receipt_error + json" where
  "Receipt_values includeAttestations r =
     (case find (\<lambda>k. k \<in> fst ` set (KindFields r)) reserved_fields of
        Some k \<Rightarrow> Inl (ReservedField k)
      | None \<Rightarrow> Inr (JObject (map (\<lambda>(k, v). (k, dyn_json v)) (KindFields r) @
          [(''receipt_version'', JInt (ReceiptVersion r)), (''receipt_kind'', JStr (ReceiptKind r)),
           (''receipt_id'', JStr (ReceiptID r)), (''issuer'', JStr (Issuer r)), (''issued_at'', JStr (IssuedAt r)),
           (''required_signers'', JArray (map signer_json (RequiredSigners r)))] @
          (if includeAttestations then
            [(''canonical_payload_sha256'', JStr (CanonicalPayloadSHA256 r)),
             (''signature_set'', JArray (map signature_json (SignatureSet r)))] else []))))"

definition canonical_values :: "bool \<Rightarrow> Receipt \<Rightarrow> receipt_error + string" where
  "canonical_values att r = (case Receipt_values att r of Inl e \<Rightarrow> Inl e
     | Inr j \<Rightarrow> (case appendCanonical j of Inl c \<Rightarrow> Inl (ReceiptCanon c) | Inr b \<Rightarrow> Inr b))"

abbreviation canonicalPayload :: "Receipt \<Rightarrow> receipt_error + string" where
  "canonicalPayload \<equiv> canonical_values False"

definition Receipt_CanonicalBytes :: "Receipt \<Rightarrow> receipt_error + string" where
  "Receipt_CanonicalBytes r = canonical_values True r"

definition receiptSignaturePreimage :: "string \<Rightarrow> string" where
  "receiptSignaturePreimage hexDigest = ''choir-receipt-v1'' @ [CHR 0x00] @
     (case hex_decode hexDigest of None \<Rightarrow> [] | Some bs \<Rightarrow> map char_of bs)"

text \<open>The issuing time is given as the text that formatting it in UTC produces, the identifier as the fresh UUID's text.\<close>

definition NewSignedReceipt ::
  "Crypto \<Rightarrow> string \<Rightarrow> string \<Rightarrow> string \<Rightarrow> (string \<times> dyn) list \<Rightarrow> SigningKey list \<Rightarrow> string \<Rightarrow> receipt_error + Receipt" where
  "NewSignedReceipt cr uuid kind issuer kf keys issuedAt =
     (case find (\<lambda>i. length (PrivateKey (keys ! i)) \<noteq> 64 \<or> SignerDomain (sk_Ref (keys ! i)) = [] \<or> KeyID (sk_Ref (keys ! i)) = [])
        [0..<length keys] of
        Some i \<Rightarrow> Inl (InvalidSigningKey i)
      | None \<Rightarrow>
        let r = \<lparr>ReceiptVersion = 1, ReceiptKind = kind, ReceiptID = uuid, Issuer = issuer, IssuedAt = issuedAt,
                 RequiredSigners = map sk_Ref keys, CanonicalPayloadSHA256 = [], SignatureSet = [], KindFields = kf\<rparr> in
        (case canonicalPayload r of Inl e \<Rightarrow> Inl e
         | Inr payload \<Rightarrow>
           let hexd = cr_sha cr payload; preimage = receiptSignaturePreimage hexd in
           Inr (r\<lparr>CanonicalPayloadSHA256 := hexd,
                  SignatureSet := map (\<lambda>k. \<lparr>sig_Signer = sk_Ref k, sig_Text = cr_sign cr (PrivateKey k) preimage\<rparr>) keys\<rparr>)))"

definition RequireKindFields :: "Receipt \<Rightarrow> string list \<Rightarrow> receipt_error option" where
  "RequireKindFields r names =
     (if length (KindFields r) \<noteq> length names then Some FieldCountMismatch
      else map_option MissingField (find (\<lambda>n. map_of (KindFields r) n = None) names))"

definition parseInt64 :: "string \<Rightarrow> int option" where
  "parseInt64 t =
     (if t = ''-0'' then Some 0
      else if \<not> isCanonicalInteger t then None
      else let v = (if hd t = CHR ''-'' then - int (number_of (tl t)) else int (number_of t)) in
        if is_int64 v then Some v else None)"

fun receiptSequence :: "dyn option \<Rightarrow> receipt_error + uint64" where
  "receiptSequence None = Inr 0"
| "receiptSequence (Some (DUint w)) = Inr w"
| "receiptSequence (Some (DInt i)) = (if i < 0 then Inl BadSequence else Inr (word_of_int i))"
| "receiptSequence (Some (DOther JNull)) = Inr 0"
| "receiptSequence (Some (DOther (JNumber t))) =
     (case parseInt64 t of None \<Rightarrow> Inl BadSequence | Some v \<Rightarrow> if v < 0 then Inl BadSequence else Inr (word_of_int v))"
| "receiptSequence (Some (DStr s)) = Inl BadSequence"
| "receiptSequence (Some (DOther j)) = Inl BadSequence"

type_synonym key_resolver = "string \<Rightarrow> string \<Rightarrow> string \<Rightarrow> uint64 \<Rightarrow> string \<Rightarrow> string option"

text \<open>The loop over the required signers, with the set of signers already seen.\<close>

fun verify_signers :: "Crypto \<Rightarrow> (SignerRef \<Rightarrow> string option) \<Rightarrow> string \<Rightarrow> nat \<Rightarrow> SignerRef list \<Rightarrow> Signature list \<Rightarrow> SignerRef list
    \<Rightarrow> receipt_error option" where
  "verify_signers cr resolve preimage i seen [] [] = None"
| "verify_signers cr resolve preimage i seen (a # actual) (q # required) =
     (if SignerDomain q = [] \<or> KeyID q = [] \<or> sig_Signer a \<noteq> q then Some (SignerMismatch i)
      else if q \<in> set seen then Some DuplicateSigner
      else if \<not> cr_decodes cr (sig_Text a) then Some InvalidEncoding
      else case resolve q of None \<Rightarrow> Some UnresolvedSigner
      | Some pub \<Rightarrow> if \<not> cr_verify cr pub preimage (sig_Text a) then Some InvalidSignature
          else verify_signers cr resolve preimage (Suc i) (q # seen) actual required)"
| "verify_signers cr resolve preimage i seen _ _ = Some SignatureCount"

definition Receipt_Verify :: "(string \<Rightarrow> bool) \<Rightarrow> Crypto \<Rightarrow> key_resolver option \<Rightarrow> Receipt \<Rightarrow> receipt_error option" where
  "Receipt_Verify uuid7 cr resolver r =
     (case resolver of None \<Rightarrow> Some NoResolver
      | Some resolve \<Rightarrow>
        if ReceiptVersion r \<noteq> 1 \<or> ReceiptKind r = [] \<or> Issuer r = [] then Some InvalidCommon
        else if \<not> uuid7 (ReceiptID r) then Some BadReceiptID
        else if \<not> canonicalUTC (IssuedAt r) then Some BadIssuedAt
        else if RequiredSigners r = [] \<or> length (RequiredSigners r) \<noteq> length (SignatureSet r) then Some SignatureCount
        else (case canonicalPayload r of Inl e \<Rightarrow> Some e
          | Inr payload \<Rightarrow>
            if cr_sha cr payload \<noteq> CanonicalPayloadSHA256 r then Some PayloadDigestMismatch
            else let computerID = (case map_of (KindFields r) ''computer_id'' of Some (DStr s) \<Rightarrow> s | _ \<Rightarrow> []) in
              (case receiptSequence (map_of (KindFields r) ''sequence'') of Inl e \<Rightarrow> Some e
               | Inr sq \<Rightarrow> verify_signers cr (\<lambda>q. resolve (SignerDomain q) computerID (KeyID q) sq (IssuedAt r))
                   (receiptSignaturePreimage (cr_sha cr payload)) 0 [] (SignatureSet r) (RequiredSigners r))))"

subsection \<open>Event head receipts\<close>

record CASRequest =
  rq_Event :: Event
  EventDigest :: string
  EventArtifactDigest :: string
  EventPinReceiptDigest :: string
  PayloadPinReceiptDigests :: "string list"
  PinIntentCommitment :: string
  rq_Input :: TransitionInput
  rq_Next :: Head

text \<open>The fields an event head receipt carries and the verifier expects (\<^verbatim>\<open>eventHeadReceiptFields\<close> of the issuer and the
  \<^verbatim>\<open>expected\<close> map of the verifier are the same list).\<close>

definition head_receipt_fields :: "CASRequest \<Rightarrow> (string \<times> dyn) list" where
  "head_receipt_fields q = [
     (''computer_id'', DStr (ev_ComputerID (rq_Event q))),
     (''previous_head'', DStr (PreviousHead (rq_Event q))),
     (''event_digest'', DStr (EventDigest q)),
     (''sequence'', DUint (ev_Sequence (rq_Event q))),
     (''event_kind'', DOther (JStr (ev_Kind (rq_Event q)))),
     (''request_commitment'', DStr (RequestCommitment (rq_Event q))),
     (''pin_receipt_digests'', DOther (JStrs (EventPinReceiptDigest q # PayloadPinReceiptDigests q))),
     (''desired_event_head'', DStr (DesiredEventHead (rq_Next q))),
     (''effective_event_head'', DStr (EffectiveEventHead (rq_Next q))),
     (''pending_transition_ref'', DStr (PendingTransitionRef (rq_Next q))),
     (''desired_state_commitment'', DStr (DesiredStateCommitment (rq_Next q))),
     (''effective_state_commitment'', DStr (EffectiveStateCommitment (rq_Next q)))]"

definition head_receipt_names :: "string list" where
  "head_receipt_names = [''computer_id'', ''previous_head'', ''event_digest'', ''sequence'', ''event_kind'',
     ''request_commitment'', ''pin_receipt_digests'', ''desired_event_head'', ''effective_event_head'',
     ''pending_transition_ref'', ''desired_state_commitment'', ''effective_state_commitment'']"

text \<open>The loop that compares the canonical bytes of every expected field with those of the receipt's field.\<close>

fun compare_fields :: "(string \<times> dyn) list \<Rightarrow> (string \<times> dyn) list \<Rightarrow> receipt_error option" where
  "compare_fields actual [] = None"
| "compare_fields actual ((k, v) # expected) =
     (case map_of actual k of None \<Rightarrow> Some (MissingField k)
      | Some w \<Rightarrow> (case appendCanonical (dyn_json v) of Inl c \<Rightarrow> Some (ReceiptCanon c)
        | Inr x \<Rightarrow> (case appendCanonical (dyn_json w) of Inl c \<Rightarrow> Some (ReceiptCanon c)
          | Inr y \<Rightarrow> if x \<noteq> y then Some (FieldMismatch k) else compare_fields actual expected)))"

definition VerifyEventHeadReceipt ::
  "(string \<Rightarrow> bool) \<Rightarrow> Crypto \<Rightarrow> key_resolver option \<Rightarrow> Receipt \<Rightarrow> CASRequest \<Rightarrow> receipt_error option" where
  "VerifyEventHeadReceipt uuid7 cr keys r q =
     (if keys = None then Some NoResolver
      else if ReceiptKind r \<noteq> ''EventHeadReceipt'' \<or> Issuer r \<noteq> ''corpusd'' then Some WrongKindOrIssuer
      else case Receipt_Verify uuid7 cr keys r of Some e \<Rightarrow> Some e
      | None \<Rightarrow> (case RequireKindFields r head_receipt_names of Some e \<Rightarrow> Some e
        | None \<Rightarrow> compare_fields (KindFields r) (head_receipt_fields q)))"

subsection \<open>A signed receipt verifies\<close>

text \<open>What is relied on of the signature scheme: a signature made with a private key decodes and verifies under its public key.\<close>

definition scheme_ok :: "Crypto \<Rightarrow> (string \<Rightarrow> string) \<Rightarrow> bool" where
  "scheme_ok cr pub \<longleftrightarrow> (\<forall>k m. cr_decodes cr (cr_sign cr k m) \<and> cr_verify cr (pub k) m (cr_sign cr k m))"

lemma verify_signed:
  assumes "scheme_ok cr pub"
  shows "distinct (map sk_Ref keys) \<Longrightarrow> set (map sk_Ref keys) \<inter> set seen = {} \<Longrightarrow>
    \<forall>k \<in> set keys. SignerDomain (sk_Ref k) \<noteq> [] \<and> KeyID (sk_Ref k) \<noteq> [] \<and> resolve (sk_Ref k) = Some (pub (PrivateKey k)) \<Longrightarrow>
    verify_signers cr resolve m i seen (map (\<lambda>k. \<lparr>sig_Signer = sk_Ref k, sig_Text = cr_sign cr (PrivateKey k) m\<rparr>) keys) (map sk_Ref keys) = None"
proof (induction keys arbitrary: i seen)
  case (Cons k keys)
  have "verify_signers cr resolve m (Suc i) (sk_Ref k # seen)
      (map (\<lambda>k. \<lparr>sig_Signer = sk_Ref k, sig_Text = cr_sign cr (PrivateKey k) m\<rparr>) keys) (map sk_Ref keys) = None"
    by (rule Cons.IH) (use Cons.prems in auto)
  then show ?case using Cons.prems assms by (auto simp: scheme_ok_def)
qed simp

lemma NewSignedReceipt_Inr:
  assumes "NewSignedReceipt cr uuid kind issuer kf keys at = Inr r"
  shows "\<exists>payload. canonicalPayload r = Inr payload \<and> CanonicalPayloadSHA256 r = cr_sha cr payload
    \<and> ReceiptVersion r = 1 \<and> ReceiptKind r = kind \<and> ReceiptID r = uuid \<and> Issuer r = issuer \<and> IssuedAt r = at \<and> KindFields r = kf
    \<and> RequiredSigners r = map sk_Ref keys
    \<and> SignatureSet r = map (\<lambda>k. \<lparr>sig_Signer = sk_Ref k, sig_Text = cr_sign cr (PrivateKey k) (receiptSignaturePreimage (cr_sha cr payload))\<rparr>) keys
    \<and> (\<forall>k \<in> set keys. SignerDomain (sk_Ref k) \<noteq> [] \<and> KeyID (sk_Ref k) \<noteq> [])"
proof -
  have k: "\<forall>k \<in> set keys. SignerDomain (sk_Ref k) \<noteq> [] \<and> KeyID (sk_Ref k) \<noteq> []"
    using assms by (auto simp: NewSignedReceipt_def find_None_iff in_set_conv_nth split: option.splits)
  define r0 where "r0 = \<lparr>ReceiptVersion = 1, ReceiptKind = kind, ReceiptID = uuid, Issuer = issuer, IssuedAt = at,
    RequiredSigners = map sk_Ref keys, CanonicalPayloadSHA256 = [], SignatureSet = [], KindFields = kf\<rparr>"
  obtain payload where p: "canonicalPayload r0 = Inr payload" and r: "r = r0\<lparr>CanonicalPayloadSHA256 := cr_sha cr payload,
      SignatureSet := map (\<lambda>k. \<lparr>sig_Signer = sk_Ref k, sig_Text = cr_sign cr (PrivateKey k) (receiptSignaturePreimage (cr_sha cr payload))\<rparr>) keys\<rparr>"
    using assms unfolding NewSignedReceipt_def Let_def r0_def [symmetric] by (auto split: option.splits sum.splits)
  have "canonicalPayload (r0\<lparr>CanonicalPayloadSHA256 := x, SignatureSet := y\<rparr>) = canonicalPayload r0" for x y
    by (simp add: canonical_values_def Receipt_values_def cong: option.case_cong)
  then have "canonicalPayload r = Inr payload" unfolding r p .
  then show ?thesis using k unfolding r by (intro exI [of _ payload]) (simp add: r0_def)
qed

lemma signed_receipt_verify_ok:
  assumes "NewSignedReceipt cr uuid kind issuer kf keys at = Inr r" "scheme_ok cr pub"
    and "uuid7 uuid" "canonicalUTC at" "kind \<noteq> []" "issuer \<noteq> []" "keys \<noteq> []" "distinct (map sk_Ref keys)"
    and "receiptSequence (map_of kf ''sequence'') = Inr sq" "map_of kf ''computer_id'' = Some (DStr c)"
    and "\<forall>k \<in> set keys. resolve (SignerDomain (sk_Ref k)) c (KeyID (sk_Ref k)) sq at = Some (pub (PrivateKey k))"
  shows "Receipt_Verify uuid7 cr (Some resolve) r = None"
proof -
  obtain payload where r: "canonicalPayload r = Inr payload" "CanonicalPayloadSHA256 r = cr_sha cr payload"
      "ReceiptVersion r = 1" "ReceiptKind r = kind" "ReceiptID r = uuid" "Issuer r = issuer" "IssuedAt r = at" "KindFields r = kf"
      "RequiredSigners r = map sk_Ref keys"
      "SignatureSet r = map (\<lambda>k. \<lparr>sig_Signer = sk_Ref k, sig_Text = cr_sign cr (PrivateKey k) (receiptSignaturePreimage (cr_sha cr payload))\<rparr>) keys"
      "\<forall>k \<in> set keys. SignerDomain (sk_Ref k) \<noteq> [] \<and> KeyID (sk_Ref k) \<noteq> []"
    using NewSignedReceipt_Inr [OF assms(1)] by blast
  show ?thesis
    using r assms(3-10) by (simp add: Receipt_Verify_def) (rule verify_signed [OF assms(2)], use r(11) assms(8,11) in auto)
qed

text \<open>A receipt that the issuer signs verifies: where every signing key is resolvable to its public key, distinct and the
  common fields are well-formed, verification of a freshly signed receipt succeeds.\<close>

theorem signed_receipt_verifies:
  assumes "NewSignedReceipt cr uuid kind issuer kf keys at = Inr r" "scheme_ok cr pub"
    and "uuid7 uuid" "canonicalUTC at" "kind \<noteq> []" "issuer \<noteq> []" "keys \<noteq> []" "distinct (map sk_Ref keys)"
    and "receiptSequence (map_of kf ''sequence'') = Inr sq" "map_of kf ''computer_id'' = Some (DStr c)"
    and "\<forall>k \<in> set keys. resolve (SignerDomain (sk_Ref k)) c (KeyID (sk_Ref k)) sq at = Some (pub (PrivateKey k))"
  shows "Receipt_Verify uuid7 cr (Some resolve) r = None"
  using signed_receipt_verify_ok [where ?uuid7.0 = uuid7 and resolve = resolve, OF assms] .

subsection \<open>What a verified head receipt says\<close>

definition receipt_view :: "CASRequest \<Rightarrow> string list \<times> uint64 \<times> string list" where
  "receipt_view q = ([ev_ComputerID (rq_Event q), PreviousHead (rq_Event q), EventDigest q, ev_Kind (rq_Event q),
      RequestCommitment (rq_Event q), DesiredEventHead (rq_Next q), EffectiveEventHead (rq_Next q),
      PendingTransitionRef (rq_Next q), DesiredStateCommitment (rq_Next q), EffectiveStateCommitment (rq_Next q)],
    ev_Sequence (rq_Event q), EventPinReceiptDigest q # PayloadPinReceiptDigests q)"

definition view_text_ok :: "CASRequest \<Rightarrow> bool" where
  "view_text_ok q \<longleftrightarrow> list_all ValidString (fst (receipt_view q)) \<and> list_all ValidString (snd (snd (receipt_view q)))"

lemma compare_fields_None:
  "compare_fields actual expected = None \<Longrightarrow> (k, v) \<in> set expected \<Longrightarrow>
     \<exists>w x. map_of actual k = Some w \<and> appendCanonical (dyn_json v) = Inr x \<and> appendCanonical (dyn_json w) = Inr x"
  by (induction actual expected rule: compare_fields.induct) (auto split: option.splits sum.splits if_splits)

lemma compare_fields_same:
  assumes "compare_fields actual as = None" "compare_fields actual bs = None" "(k, v) \<in> set as" "(k, w) \<in> set bs"
  shows "\<exists>x. appendCanonical (dyn_json v) = Inr x \<and> appendCanonical (dyn_json w) = Inr x"
  using compare_fields_None [OF assms(1,3)] compare_fields_None [OF assms(2,4)] by auto

lemma printed_JStr: "appendCanonical (JStr s) = Inr x \<Longrightarrow> appendCanonical (JStr t) = Inr x \<Longrightarrow> coerceUTF8 s = coerceUTF8 t"
  and printed_JUint: "appendCanonical (JUint v) = Inr x \<Longrightarrow> appendCanonical (JUint w) = Inr x \<Longrightarrow> v = w"
  and printed_JStrs: "appendCanonical (JStrs ss) = Inr x \<Longrightarrow> appendCanonical (JStrs ts) = Inr x \<Longrightarrow> map coerceUTF8 ss = map coerceUTF8 ts"
  using canonical_bytes_eq [of "JStr s" "JStr t" x x] canonical_bytes_eq [of "JUint v" "JUint w" x x]
    canonical_bytes_eq [of "JStrs ss" "JStrs ts" x x] by simp_all

text \<open>A head receipt answers one request: if the same receipt verifies against two requests, these agree on the computer,
  the position, the event digest and kind, the request commitment, the pins and every head and commitment of the next head.\<close>

theorem head_receipt_binds_request:
  assumes "VerifyEventHeadReceipt uuid7 cr keys r p = None" "VerifyEventHeadReceipt uuid7 cr keys r q = None"
    and "view_text_ok p" "view_text_ok q"
  shows "receipt_view p = receipt_view q"
proof -
  have c: "compare_fields (KindFields r) (head_receipt_fields p) = None" "compare_fields (KindFields r) (head_receipt_fields q) = None"
    using assms(1,2) by (auto simp: VerifyEventHeadReceipt_def split: if_splits option.splits)
  note same = compare_fields_same [OF c]
  have s: "coerceUTF8 a = coerceUTF8 b"
    if "(k, DStr a) \<in> set (head_receipt_fields p)" "(k, DStr b) \<in> set (head_receipt_fields q)" for k a b
    using same [OF that] printed_JStr by auto
  have "coerceUTF8 (ev_Kind (rq_Event p)) = coerceUTF8 (ev_Kind (rq_Event q))"
    using same [of "''event_kind''" "DOther (JStr (ev_Kind (rq_Event p)))" "DOther (JStr (ev_Kind (rq_Event q)))"] printed_JStr
    by (auto simp: head_receipt_fields_def)
  moreover have "ev_Sequence (rq_Event p) = ev_Sequence (rq_Event q)"
    using same [of "''sequence''" "DUint (ev_Sequence (rq_Event p))" "DUint (ev_Sequence (rq_Event q))"] printed_JUint
    by (auto simp: head_receipt_fields_def)
  moreover have "map coerceUTF8 (EventPinReceiptDigest p # PayloadPinReceiptDigests p)
      = map coerceUTF8 (EventPinReceiptDigest q # PayloadPinReceiptDigests q)"
  proof -
    have "\<exists>x. appendCanonical (JStrs (EventPinReceiptDigest p # PayloadPinReceiptDigests p)) = Inr x
        \<and> appendCanonical (JStrs (EventPinReceiptDigest q # PayloadPinReceiptDigests q)) = Inr x"
      using same [of "''pin_receipt_digests''" "DOther (JStrs (EventPinReceiptDigest p # PayloadPinReceiptDigests p))"
        "DOther (JStrs (EventPinReceiptDigest q # PayloadPinReceiptDigests q))"] by (simp add: head_receipt_fields_def)
    then show ?thesis by (blast intro: printed_JStrs)
  qed
  moreover have "coerceUTF8 (ev_ComputerID (rq_Event p)) = coerceUTF8 (ev_ComputerID (rq_Event q))"
    by (rule s [of "''computer_id''"]) (simp_all add: head_receipt_fields_def)
  moreover have "coerceUTF8 (PreviousHead (rq_Event p)) = coerceUTF8 (PreviousHead (rq_Event q))"
    by (rule s [of "''previous_head''"]) (simp_all add: head_receipt_fields_def)
  moreover have "coerceUTF8 (EventDigest p) = coerceUTF8 (EventDigest q)"
    by (rule s [of "''event_digest''"]) (simp_all add: head_receipt_fields_def)
  moreover have "coerceUTF8 (RequestCommitment (rq_Event p)) = coerceUTF8 (RequestCommitment (rq_Event q))"
    by (rule s [of "''request_commitment''"]) (simp_all add: head_receipt_fields_def)
  moreover have "coerceUTF8 (DesiredEventHead (rq_Next p)) = coerceUTF8 (DesiredEventHead (rq_Next q))"
    by (rule s [of "''desired_event_head''"]) (simp_all add: head_receipt_fields_def)
  moreover have "coerceUTF8 (EffectiveEventHead (rq_Next p)) = coerceUTF8 (EffectiveEventHead (rq_Next q))"
    by (rule s [of "''effective_event_head''"]) (simp_all add: head_receipt_fields_def)
  moreover have "coerceUTF8 (PendingTransitionRef (rq_Next p)) = coerceUTF8 (PendingTransitionRef (rq_Next q))"
    by (rule s [of "''pending_transition_ref''"]) (simp_all add: head_receipt_fields_def)
  moreover have "coerceUTF8 (DesiredStateCommitment (rq_Next p)) = coerceUTF8 (DesiredStateCommitment (rq_Next q))"
    by (rule s [of "''desired_state_commitment''"]) (simp_all add: head_receipt_fields_def)
  moreover have "coerceUTF8 (EffectiveStateCommitment (rq_Next p)) = coerceUTF8 (EffectiveStateCommitment (rq_Next q))"
    by (rule s [of "''effective_state_commitment''"]) (simp_all add: head_receipt_fields_def)
  ultimately show ?thesis
    using assms(3,4) by (simp add: receipt_view_def view_text_ok_def coerce_valid map_coerce_valid)
qed

lemma compare_fields_ok:
  "(\<And>k v. (k, v) \<in> set expected \<Longrightarrow> map_of actual k = Some v \<and> printable (dyn_json v)) \<Longrightarrow> compare_fields actual expected = None"
proof (induction actual expected rule: compare_fields.induct)
  case (2 actual k v expected)
  have kv: "map_of actual k = Some v" "printable (dyn_json v)" using 2(2) [of k v] by simp_all
  have c: "appendCanonical (dyn_json v) = Inr (render (norm (dyn_json v)))" using kv(2) by (simp add: appendCanonical_Inr)
  have "compare_fields actual expected = None" by (rule 2(1) [OF kv(1) c c]) (use 2(2) in auto)
  then show ?case using kv c by simp
qed simp

lemma issued_receipt_verifies:
  assumes n: "NewSignedReceipt cr uuid ''EventHeadReceipt'' ''corpusd'' (head_receipt_fields q) [key] at = Inr r"
    and cr: "scheme_ok cr pub" "uuid7 uuid" "canonicalUTC at" and t: "view_text_ok q"
    and res: "resolve (SignerDomain (sk_Ref key)) (ev_ComputerID (rq_Event q)) (KeyID (sk_Ref key)) (ev_Sequence (rq_Event q)) at
      = Some (pub (PrivateKey key))"
  shows "VerifyEventHeadReceipt uuid7 cr (Some resolve) r q = None"
proof -
  have f: "KindFields r = head_receipt_fields q" "ReceiptKind r = ''EventHeadReceipt''" "Issuer r = ''corpusd''"
    using NewSignedReceipt_Inr [OF n] by blast+
  have v: "Receipt_Verify uuid7 cr (Some resolve) r = None"
    by (rule signed_receipt_verify_ok [where ?uuid7.0 = uuid7, OF n cr, where sq = "ev_Sequence (rq_Event q)" and c = "ev_ComputerID (rq_Event q)"])
      (use res in \<open>simp_all add: head_receipt_fields_def\<close>)
  have d: "distinct (map fst (head_receipt_fields q))" by (simp add: head_receipt_fields_def)
  have names: "head_receipt_names = map fst (head_receipt_fields q)" by (simp add: head_receipt_fields_def head_receipt_names_def)
  have "RequireKindFields r head_receipt_names = None"
    unfolding RequireKindFields_def f names by (auto simp: find_None_iff map_of_eq_None_iff)
  moreover have "compare_fields (KindFields r) (head_receipt_fields q) = None"
  proof (rule compare_fields_ok)
    fix k v assume kv: "(k, v) \<in> set (head_receipt_fields q)"
    have "printable (dyn_json v)"
      using kv t by (auto simp: head_receipt_fields_def view_text_ok_def receipt_view_def)
    then show "map_of (KindFields r) k = Some v \<and> printable (dyn_json v)" using map_of_is_SomeI [OF d kv] f(1) by simp
  qed
  ultimately show ?thesis using f v by (simp add: VerifyEventHeadReceipt_def)
qed

text \<open>Issuing a head receipt cannot fail on valid text.\<close>

definition key_ok :: "SigningKey \<Rightarrow> bool" where
  "key_ok k \<longleftrightarrow> length (PrivateKey k) = 64 \<and> SignerDomain (sk_Ref k) \<noteq> [] \<and> KeyID (sk_Ref k) \<noteq> []
     \<and> ValidString (SignerDomain (sk_Ref k)) \<and> ValidString (KeyID (sk_Ref k))"

lemma ascii_names: "list_all ValidString (reserved_fields @ head_receipt_names
    @ [''signer_domain'', ''key_id'', ''signature'', ''EventHeadReceipt'', ''corpusd''])"
  by (simp add: reserved_fields_def head_receipt_names_def ValidString_def byte_codes_def)

lemma issue_succeeds:
  assumes "view_text_ok q" "key_ok key" "ValidString uuid" "ValidString at"
  shows "\<exists>r. NewSignedReceipt cr uuid ''EventHeadReceipt'' ''corpusd'' (head_receipt_fields q) [key] at = Inr r"
proof -
  let ?r = "\<lparr>ReceiptVersion = 1, ReceiptKind = ''EventHeadReceipt'', ReceiptID = uuid, Issuer = ''corpusd'', IssuedAt = at,
    RequiredSigners = [sk_Ref key], CanonicalPayloadSHA256 = [], SignatureSet = [], KindFields = head_receipt_fields q\<rparr>"
  have n: "find (\<lambda>k. k \<in> fst ` set (head_receipt_fields q)) reserved_fields = None"
    by (simp add: find_None_iff reserved_fields_def head_receipt_fields_def)
  have "list_all (\<lambda>(k, v). ValidString k \<and> printable v) (map (\<lambda>(k, v). (k, dyn_json v)) (head_receipt_fields q))"
    using assms(1) ascii_names
    by (simp add: head_receipt_fields_def head_receipt_names_def view_text_ok_def receipt_view_def)
  moreover have "printable (signer_json (sk_Ref key))"
    using assms(2) ascii_names by (simp add: signer_json_def printable_struct key_ok_def)
  moreover have "list_all ValidString reserved_fields" "ValidString ''EventHeadReceipt''" "ValidString ''corpusd''"
    using ascii_names by simp_all
  ultimately have "printable (JObject (map (\<lambda>(k, v). (k, dyn_json v)) (head_receipt_fields q) @
      [(''receipt_version'', JInt 1), (''receipt_kind'', JStr ''EventHeadReceipt''), (''receipt_id'', JStr uuid),
       (''issuer'', JStr ''corpusd''), (''issued_at'', JStr at), (''required_signers'', JArray [signer_json (sk_Ref key)])]))"
    using assms(3,4) by (simp add: reserved_fields_def)
  from appendCanonical_ok [OF this] have "\<exists>b. canonicalPayload ?r = Inr b"
    by (simp add: canonical_values_def Receipt_values_def n del: appendCanonical.simps)
  then show ?thesis using assms(2) by (auto simp: NewSignedReceipt_def Let_def key_ok_def)
qed

subsection \<open>Witnesses\<close>

definition wit_crypto :: Crypto where
  "wit_crypto = \<lparr>cr_sha = wit_sha256, cr_sign = (\<lambda>k m. k @ m), cr_decodes = (\<lambda>_. True), cr_verify = (\<lambda>p m s. s = p @ m)\<rparr>"

definition wit_key :: SigningKey where
  "wit_key = \<lparr>sk_Ref = \<lparr>SignerDomain = ''platform-control'', KeyID = ''k''\<rparr>, PrivateKey = replicate 64 (CHR ''p'')\<rparr>"

definition wit_cas_request :: CASRequest where
  "wit_cas_request = \<lparr>rq_Event = wit_genesis, EventDigest = replicate 64 (CHR ''a''), EventArtifactDigest = replicate 64 (CHR ''a''),
     EventPinReceiptDigest = ''e'', PayloadPinReceiptDigests = [], PinIntentCommitment = ''p'', rq_Input = wit_input, rq_Next = wit_head\<rparr>"

abbreviation wit_time :: string where
  "wit_time \<equiv> ''2026-01-02T03:04:05.25Z''"

lemma wit_scheme: "scheme_ok wit_crypto id"
  by (simp add: scheme_ok_def wit_crypto_def)

lemma wit_issue_args: "view_text_ok wit_cas_request" "key_ok wit_key" "ValidString ''u''" "ValidString wit_time" "canonicalUTC wit_time"
  by code_simp+

theorem signed_receipt_verifies_witness:
  "\<exists>r. NewSignedReceipt wit_crypto ''u'' ''EventHeadReceipt'' ''corpusd'' (head_receipt_fields wit_cas_request) [wit_key] wit_time = Inr r
    \<and> Receipt_Verify wit_uuid7 wit_crypto (Some (\<lambda>_ _ _ _ _. Some (PrivateKey wit_key))) r = None"
proof -
  obtain r where r: "NewSignedReceipt wit_crypto ''u'' ''EventHeadReceipt'' ''corpusd'' (head_receipt_fields wit_cas_request) [wit_key] wit_time = Inr r"
    using issue_succeeds [OF wit_issue_args(1-4)] by blast
  have "Receipt_Verify wit_uuid7 wit_crypto (Some (\<lambda>_ _ _ _ _. Some (PrivateKey wit_key))) r = None"
    by (rule signed_receipt_verifies [where c = "''c''" and sq = 1, OF r wit_scheme _ wit_issue_args(5)])
      (simp_all add: wit_uuid7_def head_receipt_fields_def wit_cas_request_def wit_genesis_def)
  then show ?thesis using r by blast
qed

theorem head_receipt_binds_request_witness:
  "receipt_view wit_cas_request = receipt_view (wit_cas_request\<lparr>PinIntentCommitment := []\<rparr>)"
proof -
  obtain r where r: "NewSignedReceipt wit_crypto ''u'' ''EventHeadReceipt'' ''corpusd'' (head_receipt_fields wit_cas_request) [wit_key] wit_time = Inr r"
    using issue_succeeds [OF wit_issue_args(1-4)] by blast
  have v: "VerifyEventHeadReceipt wit_uuid7 wit_crypto (Some (\<lambda>_ _ _ _ _. Some (PrivateKey wit_key))) r wit_cas_request = None"
    by (rule issued_receipt_verifies [OF r wit_scheme _ wit_issue_args(5,1)]) (simp_all add: wit_uuid7_def)
  have "head_receipt_fields (wit_cas_request\<lparr>PinIntentCommitment := []\<rparr>) = head_receipt_fields wit_cas_request"
    by (simp add: head_receipt_fields_def)
  with v have w: "VerifyEventHeadReceipt wit_uuid7 wit_crypto (Some (\<lambda>_ _ _ _ _. Some (PrivateKey wit_key))) r
      (wit_cas_request\<lparr>PinIntentCommitment := []\<rparr>) = None"
    unfolding VerifyEventHeadReceipt_def by (simp only:)
  show ?thesis
    by (rule head_receipt_binds_request [OF v w wit_issue_args(1)])
      (use wit_issue_args(1) in \<open>simp add: view_text_ok_def receipt_view_def\<close>)
qed

end
