(* ===== verification/Receipt_Storage.thy ===== *)
theory Receipt_Storage
  imports Event_Receipt
begin

text \<open>
  Receipts at rest (\<^verbatim>\<open>Receipt.UnmarshalJSON\<close> of \<^verbatim>\<open>src/internal/computerevent/receipt.go\<close>). A receipt is stored as a
  JSON document and decoded when it is read back. The stored document is its tree; a document column holds
  one member per name. Decoding turns a number of the kind fields into a \<^verbatim>\<open>json.Number\<close>, which the
  model writes \<^term>\<open>DOther (JNumber t)\<close>, and a string into a Go string. Struct members are matched up to
  ASCII case, as \<^verbatim>\<open>encoding/json\<close> does.
\<close>

section \<open>Decoding a stored receipt\<close>

datatype decode_error = NotAnObject | MissingMember string | BadMember string

fun as_string :: "json \<Rightarrow> string option" where
  "as_string (JString s) = Some s"
| "as_string JNull = Some []"
| "as_string _ = None"

fun as_int :: "json \<Rightarrow> int option" where
  "as_int (JNumber t) = parseInt64 t"
| "as_int JNull = Some 0"
| "as_int _ = None"

fun as_list :: "(json \<Rightarrow> 'a option) \<Rightarrow> json \<Rightarrow> 'a list option" where
  "as_list f (JArray js) = those (map f js)"
| "as_list f JNull = Some []"
| "as_list f _ = None"

definition ascii_lower :: "char \<Rightarrow> char" where
  "ascii_lower c = (if CHR ''A'' \<le> c \<and> c \<le> CHR ''Z'' then char_of ((of_char c :: nat) + 32) else c)"

definition struct_member :: "string \<Rightarrow> (string \<times> json) list \<Rightarrow> string option" where
  "struct_member name ms =
     (case map_of (rev (map (\<lambda>(k, v). (map ascii_lower k, v)) ms)) name of None \<Rightarrow> Some [] | Some v \<Rightarrow> as_string v)"

definition as_signer :: "json \<Rightarrow> SignerRef option" where
  "as_signer j =
     (case j of
        JObject ms \<Rightarrow> (case (struct_member ''signer_domain'' ms, struct_member ''key_id'' ms) of
            (Some d, Some k) \<Rightarrow> Some \<lparr>SignerDomain = d, KeyID = k\<rparr> | _ \<Rightarrow> None)
      | JNull \<Rightarrow> Some \<lparr>SignerDomain = [], KeyID = []\<rparr>
      | _ \<Rightarrow> None)"

definition as_signature :: "json \<Rightarrow> Signature option" where
  "as_signature j =
     (case j of
        JObject ms \<Rightarrow> (case (as_signer j, struct_member ''signature'' ms) of
            (Some r, Some t) \<Rightarrow> Some \<lparr>sig_Signer = r, sig_Text = t\<rparr> | _ \<Rightarrow> None)
      | JNull \<Rightarrow> Some \<lparr>sig_Signer = \<lparr>SignerDomain = [], KeyID = []\<rparr>, sig_Text = []\<rparr>
      | _ \<Rightarrow> None)"

definition decode_member :: "(json \<Rightarrow> 'a option) \<Rightarrow> (string \<times> json) list \<Rightarrow> string \<Rightarrow> decode_error + 'a" where
  "decode_member dec ms name =
     (case map_of (rev ms) name of None \<Rightarrow> Inl (MissingMember name)
      | Some v \<Rightarrow> (case dec v of None \<Rightarrow> Inl (BadMember name) | Some x \<Rightarrow> Inr x))"

fun stored_field :: "json \<Rightarrow> dyn" where
  "stored_field (JString s) = DStr s"
| "stored_field j = DOther j"

definition kind_members :: "(string \<times> json) list \<Rightarrow> (string \<times> dyn) list" where
  "kind_members ms = map (\<lambda>(k, v). (k, stored_field v)) (filter (\<lambda>(k, v). k \<notin> set reserved_fields) ms)"

definition decode_members :: "(string \<times> json) list \<Rightarrow> decode_error + Receipt" where
  "decode_members ms =
     rbind (decode_member as_int ms ''receipt_version'') (\<lambda>version.
     rbind (decode_member as_string ms ''receipt_kind'') (\<lambda>kind.
     rbind (decode_member as_string ms ''receipt_id'') (\<lambda>uuid.
     rbind (decode_member as_string ms ''issuer'') (\<lambda>issuer.
     rbind (decode_member as_string ms ''issued_at'') (\<lambda>issuedAt.
     rbind (decode_member (as_list as_signer) ms ''required_signers'') (\<lambda>signers.
     rbind (decode_member as_string ms ''canonical_payload_sha256'') (\<lambda>payload.
     rbind (decode_member (as_list as_signature) ms ''signature_set'') (\<lambda>sigs.
     Inr \<lparr>ReceiptVersion = version, ReceiptKind = kind, ReceiptID = uuid, Issuer = issuer, IssuedAt = issuedAt,
          RequiredSigners = signers, CanonicalPayloadSHA256 = payload, SignatureSet = sigs,
          KindFields = kind_members ms\<rparr>))))))))"

definition Receipt_UnmarshalJSON :: "json \<Rightarrow> decode_error + Receipt" where
  "Receipt_UnmarshalJSON j =
     (case j of JObject ms \<Rightarrow> decode_members ms | JNull \<Rightarrow> decode_members [] | _ \<Rightarrow> Inl NotAnObject)"

section \<open>A stored receipt reads back\<close>

definition signer_text_ok :: "SignerRef \<Rightarrow> bool" where
  "signer_text_ok r \<longleftrightarrow> ValidString (SignerDomain r) \<and> ValidString (KeyID r)"

definition receipt_text_ok :: "Receipt \<Rightarrow> bool" where
  "receipt_text_ok r \<longleftrightarrow> list_all ValidString [ReceiptKind r, ReceiptID r, Issuer r, IssuedAt r, CanonicalPayloadSHA256 r]
     \<and> list_all signer_text_ok (RequiredSigners r)
     \<and> list_all (\<lambda>s. signer_text_ok (sig_Signer s) \<and> ValidString (sig_Text s)) (SignatureSet r)
     \<and> ReceiptVersion r = 1"

lemma as_string_JStr [simp]: "ValidString s \<Longrightarrow> as_string (JStr s) = Some s"
  by (simp add: JStr_def coerce_valid)

lemma as_signer_json [simp]: "signer_text_ok r \<Longrightarrow> as_signer (signer_json r) = Some r"
  by (simp add: as_signer_def signer_json_def struct_json_def struct_member_def ascii_lower_def less_eq_char_def signer_text_ok_def)

lemma as_signature_json [simp]:
  "signer_text_ok (sig_Signer s) \<Longrightarrow> ValidString (sig_Text s) \<Longrightarrow> as_signature (signature_json s) = Some s"
  by (simp add: as_signature_def as_signer_def signature_json_def struct_json_def struct_member_def ascii_lower_def
      less_eq_char_def signer_text_ok_def)

lemma those_map: "list_all (\<lambda>x. f (g x) = Some x) xs \<Longrightarrow> those (map f (map g xs)) = Some xs"
  by (induction xs) simp_all

lemma as_int_1 [simp]: "as_int (JInt 1) = Some 1"
  by code_simp

definition stored_form :: "Receipt \<Rightarrow> Receipt" where
  "stored_form r = r\<lparr>KindFields := map (\<lambda>(k, v). (k, stored_field (dyn_json v))) (KindFields r)\<rparr>"

lemma decode_stored:
  assumes "Receipt_values True r = Inr j" "receipt_text_ok r"
  shows "Receipt_UnmarshalJSON j = Inr (stored_form r)"
proof -
  let ?kf = "map (\<lambda>(k, v). (k, dyn_json v)) (KindFields r)"
  let ?ms = "?kf @ [(''receipt_version'', JInt (ReceiptVersion r)), (''receipt_kind'', JStr (ReceiptKind r)),
           (''receipt_id'', JStr (ReceiptID r)), (''issuer'', JStr (Issuer r)), (''issued_at'', JStr (IssuedAt r)),
           (''required_signers'', JArray (map signer_json (RequiredSigners r))),
           (''canonical_payload_sha256'', JStr (CanonicalPayloadSHA256 r)),
           (''signature_set'', JArray (map signature_json (SignatureSet r)))]"
  have none: "\<forall>k \<in> set reserved_fields. k \<notin> fst ` set (KindFields r)" and j: "j = JObject ?ms"
    using assms(1) by (auto simp: Receipt_values_def find_None_iff split: option.splits)
  have kf: "filter (\<lambda>(k, v). k \<notin> set reserved_fields) ?kf = ?kf"
    using none by (force simp: filter_id_conv)
  have km: "kind_members ?ms = KindFields (stored_form r)"
    unfolding kind_members_def filter_append kf by (simp add: reserved_fields_def stored_form_def comp_def case_prod_unfold)
  have "those (map as_signer (map signer_json (RequiredSigners r))) = Some (RequiredSigners r)"
    "those (map as_signature (map signature_json (SignatureSet r))) = Some (SignatureSet r)"
    using assms(2) by (intro those_map; simp add: receipt_text_ok_def list_all_iff)+
  then have "decode_members ?ms = Inr (stored_form r)"
    using assms(2) unfolding decode_members_def km
    by (simp add: decode_member_def receipt_text_ok_def stored_form_def)
  then show ?thesis unfolding j Receipt_UnmarshalJSON_def by simp
qed
lemma parseInt64_digits: "parseInt64 (digits n) = (if int n \<le> int64_max then Some (int n) else None)"
proof -
  have "digits n \<noteq> ''-0''" using digits_no_minus [of n] by auto
  then show ?thesis
    using digits_no_minus [of n] integer_digits [of n]
    by (simp add: parseInt64_def number_of_digits Let_def is_int64_def int64_min_def)
qed

lemma stored_sequence:
  "receiptSequence (Some (stored_field (JUint w))) = (if int (unat w) \<le> int64_max then Inr w else Inl BadSequence)"
  by (simp add: JUint_def parseInt64_digits)

text \<open>A field that survives storage prints as before.\<close>

definition keeps_text :: "dyn \<Rightarrow> bool" where
  "keeps_text v \<longleftrightarrow> dyn_json (stored_field (dyn_json v)) = dyn_json v"

lemma keeps_text_simps [simp]:
  "ValidString s \<Longrightarrow> keeps_text (DStr s)" "keeps_text (DUint w)" "ValidString s \<Longrightarrow> keeps_text (DOther (JStr s))"
  "keeps_text (DOther (JStrs ss))"
  by (simp_all add: keeps_text_def JStr_def JUint_def JStrs_def coerce_valid)

lemma head_fields_keep: "view_text_ok q \<Longrightarrow> list_all (\<lambda>(k, v). keeps_text v) (head_receipt_fields q)"
  by (simp add: head_receipt_fields_def view_text_ok_def receipt_view_def)

lemma stored_fields_json:
  "list_all (\<lambda>(k, v). keeps_text v) kf \<Longrightarrow>
   map (\<lambda>(k, v). (k, dyn_json v)) (map (\<lambda>(k, v). (k, stored_field (dyn_json v))) kf) = map (\<lambda>(k, v). (k, dyn_json v)) kf"
  by (induction kf) (auto simp: keeps_text_def)

lemma fst_stored [simp]: "fst ` set (map (\<lambda>(k, v). (k, stored_field (dyn_json v))) kf) = fst ` set kf"
  by force

lemma stored_form_simps [simp]:
  "KindFields (stored_form r) = map (\<lambda>(k, v). (k, stored_field (dyn_json v))) (KindFields r)"
  "ReceiptVersion (stored_form r) = ReceiptVersion r" "ReceiptKind (stored_form r) = ReceiptKind r"
  "Issuer (stored_form r) = Issuer r" "ReceiptID (stored_form r) = ReceiptID r" "IssuedAt (stored_form r) = IssuedAt r"
  "RequiredSigners (stored_form r) = RequiredSigners r" "SignatureSet (stored_form r) = SignatureSet r"
  "CanonicalPayloadSHA256 (stored_form r) = CanonicalPayloadSHA256 r"
  by (simp_all add: stored_form_def)

lemma values_stored:
  "list_all (\<lambda>(k, v). keeps_text v) (KindFields r) \<Longrightarrow> canonical_values att (stored_form r) = canonical_values att r"
  unfolding canonical_values_def Receipt_values_def stored_form_simps fst_stored by (simp only: stored_fields_json)

lemma map_of_stored: "map_of (map (\<lambda>(k, v). (k, stored_field (dyn_json v))) kf) n = map_option (\<lambda>v. stored_field (dyn_json v)) (map_of kf n)"
  by (induction kf) auto

text \<open>Verification of the stored form and of the issued form differ in the sequence number only, which the stored form reads
  as a signed number.\<close>

lemma Verify_stored:
  assumes "list_all (\<lambda>(k, v). keeps_text v) (KindFields r)"
    and "map_of (KindFields r) ''sequence'' = Some (DUint w)" "map_of (KindFields r) ''computer_id'' = Some (DStr c)" "ValidString c"
  shows "int (unat w) \<le> int64_max \<Longrightarrow> Receipt_Verify uuid7 cr keys (stored_form r) = Receipt_Verify uuid7 cr keys r"
    and "\<not> int (unat w) \<le> int64_max \<Longrightarrow> Receipt_Verify uuid7 cr keys (stored_form r) \<noteq> None"
proof -
  have c: "map_of (KindFields (stored_form r)) ''computer_id'' = Some (DStr c)"
    and s: "map_of (KindFields (stored_form r)) ''sequence'' = Some (stored_field (JUint w))"
    using assms by (simp_all add: map_of_stored JStr_def coerce_valid)
  show "Receipt_Verify uuid7 cr keys (stored_form r) = Receipt_Verify uuid7 cr keys r" if "int (unat w) \<le> int64_max"
    using that assms(2,3) unfolding Receipt_Verify_def stored_form_simps(2-) c s values_stored [OF assms(1)] Let_def stored_sequence
    by (simp cong: option.case_cong sum.case_cong if_cong)
  show "Receipt_Verify uuid7 cr keys (stored_form r) \<noteq> None" if "\<not> int (unat w) \<le> int64_max"
    using that unfolding Receipt_Verify_def stored_form_simps(2-) c s Let_def stored_sequence by (simp split: option.splits sum.splits)
qed

lemma compare_fields_stored:
  "list_all (\<lambda>(k, v). keeps_text v) kf \<Longrightarrow>
   compare_fields (map (\<lambda>(k, v). (k, stored_field (dyn_json v))) kf) expected = compare_fields kf expected"
proof (induction kf expected rule: compare_fields.induct)
  case (2 kf k v expected)
  have "keeps_text w" if "map_of kf k = Some w" for w
    using 2(2) map_of_SomeD [OF that] by (auto simp: list_all_iff)
  then show ?case using 2 by (auto simp: map_of_stored keeps_text_def split: option.splits sum.splits)
qed simp

lemma RequireKindFields_stored: "RequireKindFields (stored_form r) names = RequireKindFields r names"
  unfolding RequireKindFields_def by (simp add: map_of_stored)

lemma head_receipt_stored:
  assumes "KindFields r = head_receipt_fields q" "view_text_ok q" "int (unat (ev_Sequence (rq_Event q))) \<le> int64_max"
  shows "VerifyEventHeadReceipt uuid7 cr keys (stored_form r) q = VerifyEventHeadReceipt uuid7 cr keys r q"
proof -
  note keep = head_fields_keep [OF assms(2), folded assms(1)]
  have s: "map_of (KindFields r) ''sequence'' = Some (DUint (ev_Sequence (rq_Event q)))"
    "map_of (KindFields r) ''computer_id'' = Some (DStr (ev_ComputerID (rq_Event q)))" "ValidString (ev_ComputerID (rq_Event q))"
    using assms(1,2) by (simp_all add: head_receipt_fields_def view_text_ok_def receipt_view_def)
  have "compare_fields (KindFields (stored_form r)) (head_receipt_fields q) = compare_fields (KindFields r) (head_receipt_fields q)"
    unfolding stored_form_simps(1) by (rule compare_fields_stored [OF keep])
  then show ?thesis
    unfolding VerifyEventHeadReceipt_def Verify_stored(1) [OF keep s assms(3)] RequireKindFields_stored stored_form_simps(3,4)
    by (simp only:)
qed
lemma head_receipt_stored_large:
  assumes "KindFields r = head_receipt_fields q" "view_text_ok q" "\<not> int (unat (ev_Sequence (rq_Event q))) \<le> int64_max"
  shows "VerifyEventHeadReceipt uuid7 cr keys (stored_form r) q \<noteq> None"
proof -
  note keep = head_fields_keep [OF assms(2), folded assms(1)]
  have s: "map_of (KindFields r) ''sequence'' = Some (DUint (ev_Sequence (rq_Event q)))"
    "map_of (KindFields r) ''computer_id'' = Some (DStr (ev_ComputerID (rq_Event q)))" "ValidString (ev_ComputerID (rq_Event q))"
    using assms(1,2) by (simp_all add: head_receipt_fields_def view_text_ok_def receipt_view_def)
  then show ?thesis
    using Verify_stored(2) [OF keep s assms(3), of uuid7 cr keys] by (auto simp: VerifyEventHeadReceipt_def split: option.splits)
qed

text \<open>What is relied on of the text of digests and signatures: digests are 64 lower-case hexadecimal digits, signatures
  (base64) are valid text.\<close>

definition crypto_text_ok :: "Crypto \<Rightarrow> bool" where
  "crypto_text_ok cr \<longleftrightarrow> hashes (cr_sha cr) \<and> (\<forall>k m. ValidString (cr_sign cr k m))"

lemma valid_ascii: "list_all (\<lambda>c. (of_char c :: nat) < 128) s \<Longrightarrow> ValidString s"
proof (induction s)
  case (Cons c s)
  then show ?case by (simp add: ValidString_def byte_codes_def)
qed (simp add: ValidString_def byte_codes_def)

lemma isLowerHex_ascii: "isLowerHex c \<Longrightarrow> (of_char c :: nat) < 128"
  by (auto simp: isLowerHex_def less_eq_char_def)

lemma isSHA256_valid [simp]: "isSHA256 s \<Longrightarrow> ValidString s"
  by (rule valid_ascii) (auto simp: isSHA256_def list_all_iff isLowerHex_ascii)

lemma issued_text_ok:
  assumes "NewSignedReceipt cr uuid ''EventHeadReceipt'' ''corpusd'' kf [key] at = Inr r"
    and "crypto_text_ok cr" "key_ok key" "ValidString uuid" "ValidString at"
  shows "receipt_text_ok r"
  using NewSignedReceipt_Inr [OF assms(1)] assms(2-) ascii_names
  by (auto simp: receipt_text_ok_def crypto_text_ok_def hashes_def key_ok_def signer_text_ok_def)

lemma issued_values:
  assumes "NewSignedReceipt cr uuid ''EventHeadReceipt'' ''corpusd'' (head_receipt_fields q) [key] at = Inr r"
  shows "\<exists>j. Receipt_values True r = Inr j"
proof -
  have "find (\<lambda>k. k \<in> fst ` set (head_receipt_fields q)) reserved_fields = None"
    by (simp add: find_None_iff reserved_fields_def head_receipt_fields_def)
  then show ?thesis using NewSignedReceipt_Inr [OF assms] by (auto simp: Receipt_values_def)
qed

section \<open>Properties\<close>

text \<open>C32: a head receipt survives storage up to the signed range: the document the platform stores for a receipt it issued
  decodes again, and the decoded receipt verifies for its request exactly when the sequence number is below
  \<open>2 ^ 63\<close>, because the decoded number is read as a signed one.\<close>

theorem stored_head_receipt_verifies:
  assumes "NewSignedReceipt cr uuid ''EventHeadReceipt'' ''corpusd'' (head_receipt_fields q) [key] at = Inr r"
    and "scheme_ok cr pub" "uuid7 uuid" "canonicalUTC at" "view_text_ok q" "crypto_text_ok cr" "key_ok key"
    and "ValidString uuid" "ValidString at"
    and "resolve (SignerDomain (sk_Ref key)) (ev_ComputerID (rq_Event q)) (KeyID (sk_Ref key)) (ev_Sequence (rq_Event q)) at
      = Some (pub (PrivateKey key))"
  shows "\<exists>j r'. Receipt_values True r = Inr j \<and> Receipt_UnmarshalJSON j = Inr r'
    \<and> (VerifyEventHeadReceipt uuid7 cr (Some resolve) r' q = None \<longleftrightarrow> int (unat (ev_Sequence (rq_Event q))) \<le> int64_max)"
proof -
  obtain j where j: "Receipt_values True r = Inr j" using issued_values [OF assms(1)] by blast
  have d: "Receipt_UnmarshalJSON j = Inr (stored_form r)"
    by (rule decode_stored [OF j issued_text_ok [OF assms(1,6-9)]])
  have kf: "KindFields r = head_receipt_fields q" using NewSignedReceipt_Inr [OF assms(1)] by blast
  have v: "VerifyEventHeadReceipt uuid7 cr (Some resolve) r q = None"
    by (rule issued_receipt_verifies [where ?uuid7.0 = uuid7 and resolve = resolve, OF assms(1-5,10)])
  show ?thesis
    using j d v head_receipt_stored [OF kf assms(5), of uuid7 cr "Some resolve"]
      head_receipt_stored_large [OF kf assms(5), of uuid7 cr "Some resolve"] by metis
qed

definition wit_scheme_text :: Crypto where
  "wit_scheme_text = wit_crypto\<lparr>cr_sign := (\<lambda>_ _. ''s''), cr_verify := (\<lambda>_ _ s. s = ''s'')\<rparr>"

lemma wit_scheme_text_ok: "scheme_ok wit_scheme_text id" "crypto_text_ok wit_scheme_text"
  using wit_hashes by (simp_all add: scheme_ok_def crypto_text_ok_def wit_scheme_text_def wit_crypto_def ValidString_def byte_codes_def)

theorem stored_head_receipt_verifies_witness:
  "\<exists>r j r'. NewSignedReceipt wit_scheme_text ''u'' ''EventHeadReceipt'' ''corpusd'' (head_receipt_fields wit_cas_request) [wit_key] wit_time = Inr r
    \<and> Receipt_values True r = Inr j \<and> Receipt_UnmarshalJSON j = Inr r'
    \<and> VerifyEventHeadReceipt wit_uuid7 wit_scheme_text (Some (\<lambda>_ _ _ _ _. Some (PrivateKey wit_key))) r' wit_cas_request = None"
proof -
  obtain r where r: "NewSignedReceipt wit_scheme_text ''u'' ''EventHeadReceipt'' ''corpusd'' (head_receipt_fields wit_cas_request) [wit_key] wit_time = Inr r"
    using issue_succeeds [OF wit_issue_args(1-4)] by blast
  have u: "wit_uuid7 ''u''" by (simp add: wit_uuid7_def)
  show ?thesis
    using stored_head_receipt_verifies [where ?uuid7.0 = wit_uuid7 and resolve = "\<lambda>_ _ _ _ _. Some (PrivateKey wit_key)",
        OF r wit_scheme_text_ok(1) u wit_issue_args(5,1) wit_scheme_text_ok(2) wit_issue_args(2,3,4)] r
    by (auto simp: wit_cas_request_def wit_genesis_def int64_max_def)
qed

end
