(* ===== verification/Event_CAS.thy ===== *)
theory Event_CAS
  imports Receipt_Storage
begin

text \<open>
  The platform's event authority (\<^verbatim>\<open>src/internal/platform/computer_events.go\<close>): per computer one head row and one
  append row per accepted event. The tables are the state; a statement that fails is named by a fault
  oracle, so every error return of the code is a branch. The transaction is serializable and writers of a
  computer hold its lock, so a call is one step. A commit can fail with or without effect (\<open>CommitTxLost\<close>). Time stamps of
  the rows are left out; the time and the fresh identifier of a receipt are inputs. The pin validator is an interface and
  enters as a predicate of the request: pins that were valid stay so. Other services record lifecycle operations between the
  calls; what they make of that table is part of a call.
\<close>

section \<open>Tables\<close>

record AppendRow =
  ar_computer :: string
  ar_key :: string
  ar_commitment :: string
  ar_sequence :: uint64
  ar_previous :: string
  ar_kind :: EventKind
  ar_digest :: string
  ar_artifact :: string
  ar_pin :: string
  ar_pins :: "string list"
  ar_receipt_id :: string
  ar_receipt :: json
  ar_receipt_digest :: string
  ar_desired :: string
  ar_effective :: string
  ar_desired_state :: string
  ar_effective_state :: string
  ar_pending :: string

record LifecycleRow =
  lc_computer :: string
  lc_digest :: string
  lc_action :: string
  lc_joined :: "string option"

record EventTables =
  event_heads :: "string \<rightharpoonup> Head"
  append_rows :: "AppendRow list"
  lifecycle_rows :: "LifecycleRow list"

datatype cas_stmt = SelectReceipt | BeginTx | SelectReceiptTx | SelectHead | WriteHead | InsertReceipt
  | JoinLifecycle | CommitTx | CommitTxLost | CommitDolt

type_synonym cas_fault = "cas_stmt \<Rightarrow> bool"

datatype cas_error = IncompleteRequest | PinIntentMismatch | RequestMismatch | PinsInvalid | CASConflict | StoredReceiptBroken
  | ReadFailed | BeginFailed | ReduceFailed reduce_error | GuestMismatch | DigestMismatch | SigningFailed receipt_error
  | HeadWriteFailed | ReceiptInsertFailed | JoinFailed | JoinUnavailable | CommitFailed | DoltCommitFailed

record CASEnv =
  ce_uuid7 :: "string \<Rightarrow> bool"
  ce_crypto :: Crypto
  ce_key :: SigningKey
  ce_issuer :: string
  ce_pins :: "CASRequest \<Rightarrow> bool"

abbreviation ce_sha :: "CASEnv \<Rightarrow> hashing" where
  "ce_sha env \<equiv> cr_sha (ce_crypto env)"

section \<open>Operations\<close>

definition NewComputerEventCAS :: "string \<Rightarrow> SigningKey \<Rightarrow> bool" where
  "NewComputerEventCAS issuer key \<longleftrightarrow> issuer = ''corpusd'' \<and> length (PrivateKey key) = 64
     \<and> SignerDomain (sk_Ref key) = ''platform-control'' \<and> KeyID (sk_Ref key) \<noteq> []"

definition readComputerEventHead :: "bool \<Rightarrow> EventTables \<Rightarrow> string \<Rightarrow> cas_error + Head option" where
  "readComputerEventHead failed t c = (if failed then Inl ReadFailed else Inr (event_heads t c))"

definition existingComputerEventReceipt ::
  "bool \<Rightarrow> EventTables \<Rightarrow> string \<Rightarrow> string \<Rightarrow> string \<Rightarrow> (cas_error + Receipt) option" where
  "existingComputerEventReceipt failed t c key commitment =
     (if failed then Some (Inl ReadFailed)
      else case find (\<lambda>r. ar_computer r = c \<and> ar_key r = key) (append_rows t) of None \<Rightarrow> None
      | Some r \<Rightarrow> Some (if ar_commitment r \<noteq> commitment then Inl CASConflict
          else case Receipt_UnmarshalJSON (ar_receipt r) of Inl _ \<Rightarrow> Inl StoredReceiptBroken | Inr rc \<Rightarrow> Inr rc))"

text \<open>The column checks of the head table, and the write of the new head: an insert for the first event, otherwise an update
  guarded by the head that was read.\<close>

definition head_row_ok :: "Head \<Rightarrow> bool" where
  "head_row_ok h \<longleftrightarrow> h_Sequence h > 0 \<and> list_all (\<lambda>s. length s = 64) [CanonicalEventHead h, DesiredEventHead h,
     EffectiveEventHead h, DesiredStateCommitment h, EffectiveStateCommitment h]"

definition write_head :: "bool \<Rightarrow> EventTables \<Rightarrow> Head option \<Rightarrow> Head \<Rightarrow> cas_error + EventTables" where
  "write_head failed t current nxt =
     (case current of
        None \<Rightarrow> (if failed \<or> event_heads t (h_ComputerID nxt) \<noteq> None \<or> \<not> head_row_ok nxt then Inl HeadWriteFailed
          else Inr (t\<lparr>event_heads := (event_heads t)(h_ComputerID nxt \<mapsto> nxt)\<rparr>))
      | Some cur \<Rightarrow> (if failed then Inl HeadWriteFailed
          else case event_heads t (h_ComputerID nxt) of None \<Rightarrow> Inl CASConflict
          | Some row \<Rightarrow> if h_Sequence row \<noteq> h_Sequence cur \<or> CanonicalEventHead row \<noteq> CanonicalEventHead cur then Inl CASConflict
              else if \<not> head_row_ok nxt then Inl HeadWriteFailed
              else Inr (t\<lparr>event_heads := (event_heads t)(h_ComputerID nxt \<mapsto> nxt)\<rparr>)))"

definition append_row :: "hashing \<Rightarrow> CASRequest \<Rightarrow> Receipt \<Rightarrow> json \<Rightarrow> string \<Rightarrow> AppendRow" where
  "append_row sha q r j body = \<lparr>ar_computer = ev_ComputerID (rq_Event q), ar_key = IdempotencyKey (rq_Event q),
     ar_commitment = RequestCommitment (rq_Event q), ar_sequence = ev_Sequence (rq_Event q), ar_previous = PreviousHead (rq_Event q),
     ar_kind = ev_Kind (rq_Event q), ar_digest = EventDigest q, ar_artifact = EventArtifactDigest q, ar_pin = EventPinReceiptDigest q,
     ar_pins = PayloadPinReceiptDigests q, ar_receipt_id = ReceiptID r, ar_receipt = j, ar_receipt_digest = sha body,
     ar_desired = DesiredEventHead (rq_Next q), ar_effective = EffectiveEventHead (rq_Next q),
     ar_desired_state = DesiredStateCommitment (rq_Next q), ar_effective_state = EffectiveStateCommitment (rq_Next q),
     ar_pending = PendingTransitionRef (rq_Next q)\<rparr>"

definition insert_append :: "bool \<Rightarrow> EventTables \<Rightarrow> AppendRow \<Rightarrow> cas_error + EventTables" where
  "insert_append failed t row =
     (if failed \<or> (\<exists>r \<in> set (append_rows t). ar_computer r = ar_computer row
         \<and> (ar_key r = ar_key row \<or> ar_sequence r = ar_sequence row \<or> ar_digest r = ar_digest row))
      then Inl ReceiptInsertFailed
      else Inr (t\<lparr>append_rows := append_rows t @ [row]\<rparr>))"

definition joins :: "Event \<Rightarrow> LifecycleRow \<Rightarrow> bool" where
  "joins e r \<longleftrightarrow> lc_computer r = ev_ComputerID e \<and> lc_digest r = ProposedEffectRef e \<and> lc_joined r = None
     \<and> lc_action r \<in> (if ev_Kind e = EventKeyRevoked then {''credential_envelope_consumed''}
         else {''start'', ''stop'', ''restart'', ''refresh''})"

definition join_lifecycle :: "bool \<Rightarrow> EventTables \<Rightarrow> CASRequest \<Rightarrow> cas_error + EventTables" where
  "join_lifecycle failed t q =
     (let e = rq_Event q in
      if ev_Kind e = EventLifecycleObserved \<or> ev_Kind e = EventKeyRevoked then
        (if failed then Inl JoinFailed
         else if length (filter (joins e) (lifecycle_rows t)) \<noteq> 1 then Inl JoinUnavailable
         else Inr (t\<lparr>lifecycle_rows := map (\<lambda>r. if joins e r then r\<lparr>lc_joined := Some (EventDigest q)\<rparr> else r) (lifecycle_rows t)\<rparr>))
      else Inr t)"

text \<open>The request checks before the lock is taken.\<close>

definition admit_request :: "CASEnv \<Rightarrow> CASRequest \<Rightarrow> cas_error option" where
  "admit_request env q =
     (if ev_ComputerID (rq_Event q) = [] \<or> EventDigest q = [] \<or> EventArtifactDigest q \<noteq> EventDigest q \<or> EventPinReceiptDigest q = []
      then Some IncompleteRequest
      else case ComputePinIntentCommitment (ce_sha env) (rq_Event q) (rq_Input q) of Inl _ \<Rightarrow> Some PinIntentMismatch
      | Inr pin \<Rightarrow> if PinIntentCommitment q \<noteq> pin then Some PinIntentMismatch
        else case ComputeRequestCommitment (ce_sha env) (rq_Event q) (rq_Input q) pin (PayloadPinReceiptDigests q) of
          Inl _ \<Rightarrow> Some RequestMismatch
        | Inr commitment \<Rightarrow> if RequestCommitment (rq_Event q) \<noteq> commitment then Some RequestMismatch else None)"

text \<open>The transaction: it reads the head, reduces, compares with what the guest computed, issues the receipt and writes the
  three tables. Its result is the receipt and the tables to commit.\<close>

definition cas_transaction ::
  "CASEnv \<Rightarrow> cas_fault \<Rightarrow> string \<Rightarrow> string \<Rightarrow> EventTables \<Rightarrow> CASRequest \<Rightarrow> cas_error + Receipt \<times> EventTables" where
  "cas_transaction env flt uuid now t q =
     rbind (readComputerEventHead (flt SelectHead) t (ev_ComputerID (rq_Event q))) (\<lambda>current.
     (case Reduce (ce_uuid7 env) (ce_sha env) current (rq_Event q) (rq_Input q) of Inl e \<Rightarrow> Inl (ReduceFailed e)
      | Inr nxt \<Rightarrow>
        if nxt \<noteq> rq_Next q then Inl GuestMismatch
        else if Event_Digest (ce_uuid7 env) (ce_sha env) (rq_Event q) \<noteq> Inr (EventDigest q) then Inl DigestMismatch
        else case NewSignedReceipt (ce_crypto env) uuid ''EventHeadReceipt'' (ce_issuer env) (head_receipt_fields q) [ce_key env] now of
          Inl e \<Rightarrow> Inl (SigningFailed e)
        | Inr receipt \<Rightarrow> (case Receipt_values True receipt of Inl e \<Rightarrow> Inl (SigningFailed e)
          | Inr doc \<Rightarrow> (case Receipt_CanonicalBytes receipt of Inl e \<Rightarrow> Inl (SigningFailed e)
            | Inr body \<Rightarrow>
              rbind (write_head (flt WriteHead) t current nxt) (\<lambda>t1.
              rbind (insert_append (flt InsertReceipt) t1 (append_row (ce_sha env) q receipt doc body)) (\<lambda>t2.
              rbind (join_lifecycle (flt JoinLifecycle) t2 q) (\<lambda>t3. Inr (receipt, t3))))))))"

definition CompareAndSwap ::
  "CASEnv \<Rightarrow> cas_fault \<Rightarrow> string \<Rightarrow> string \<Rightarrow> EventTables \<Rightarrow> CASRequest \<Rightarrow> (cas_error + Receipt) \<times> EventTables" where
  "CompareAndSwap env flt uuid now t q =
     (let e = rq_Event q; existing = (\<lambda>failed. existingComputerEventReceipt failed t (ev_ComputerID e) (IdempotencyKey e) (RequestCommitment e)) in
      case admit_request env q of Some err \<Rightarrow> (Inl err, t)
      | None \<Rightarrow>
        if \<not> ce_pins env q then (Inl PinsInvalid, t)
        else case existing (flt SelectReceipt) of Some res \<Rightarrow> (res, t)
        | None \<Rightarrow>
          if flt BeginTx then (Inl BeginFailed, t)
          else case existing (flt SelectReceiptTx) of Some res \<Rightarrow> (res, t)
          | None \<Rightarrow> (case cas_transaction env flt uuid now t q of Inl err \<Rightarrow> (Inl err, t)
            | Inr (receipt, t') \<Rightarrow>
              if flt CommitTx then (Inl CommitFailed, t)
              else if flt CommitTxLost then (Inl CommitFailed, t')
              else if flt CommitDolt then (Inl DoltCommitFailed, t')
              else (Inr receipt, t')))"

text \<open>Which of the 64 locks a computer uses (FNV-1a over the bytes, in 64-bit arithmetic).\<close>

definition computerEventLockIndex :: "string \<Rightarrow> nat" where
  "computerEventLockIndex c =
     unat (foldl (\<lambda>(h :: uint64) b. (xor h (of_nat (of_char b))) * 1099511628211) 1469598103934665603 c) mod 64"
section \<open>The recorded history\<close>

lemma Reduce_ids:
  assumes "Reduce uuid7 sha cur e inp = Inr h"
  shows "h_ComputerID h = ev_ComputerID e \<and> h_Sequence h = ev_Sequence e \<and> CanonicalEventHead h = sha (bytes_of e)
    \<and> h_ReducerVersion h = ev_ReducerVersion e \<and> Event_Digest uuid7 sha e = Inr (sha (bytes_of e))"
proof (cases cur)
  case None
  then show ?thesis using Reduce_None [of uuid7 sha e inp h] assms by (auto simp: reduceGenesis_def split: if_splits)
next
  case (Some c)
  note s = Reduce_Some [OF assms [unfolded Some]]
  then show ?thesis using reduce_kind_Inr [of c _ e "sha (bytes_of e)" inp h] by fastforce
qed

text \<open>One link of a computer's history: the request's event reduces the head, to the head the request names.\<close>

definition link :: "CASEnv \<Rightarrow> Head option \<Rightarrow> CASRequest \<Rightarrow> unit + Head option" where
  "link env h q = (if Reduce (ce_uuid7 env) (ce_sha env) h (rq_Event q) (rq_Input q) = Inr (rq_Next q) then Inr (Some (rq_Next q)) else Inl ())"

definition chain :: "CASEnv \<Rightarrow> CASRequest list \<Rightarrow> unit + Head option" where
  "chain env qs = run_steps (link env) None qs"

definition tape_of :: "CASRequest list \<Rightarrow> tape" where
  "tape_of qs = map (\<lambda>q. (rq_Event q, rq_Input q)) qs"

lemma chain_Nil [simp]: "chain env [] = Inr None"
  by (simp add: chain_def)

lemma chain_snoc:
  "chain env (qs @ [q]) = Inr h \<longleftrightarrow> (\<exists>g. chain env qs = Inr g \<and> h = Some (rq_Next q)
     \<and> Reduce (ce_uuid7 env) (ce_sha env) g (rq_Event q) (rq_Input q) = Inr (rq_Next q))"
  by (auto simp: chain_def run_steps_append link_def split: sum.splits if_splits)

lemma chain_replay: "chain env qs = Inr h \<Longrightarrow> replay (ce_uuid7 env) (ce_sha env) (tape_of qs) = Inr h"
proof (induction qs arbitrary: h rule: rev_induct)
  case (snoc q qs)
  then obtain g where "chain env qs = Inr g" "h = Some (rq_Next q)"
      "Reduce (ce_uuid7 env) (ce_sha env) g (rq_Event q) (rq_Input q) = Inr (rq_Next q)"
    by (auto simp: chain_snoc)
  with snoc.IH [of g] show ?case by (simp add: tape_of_def replay_def run_steps_append reduce_step_def)
qed (simp add: tape_of_def replay_Nil)

definition issued_for :: "CASEnv \<Rightarrow> CASRequest \<Rightarrow> Receipt \<Rightarrow> bool" where
  "issued_for env q r \<longleftrightarrow> (\<exists>uuid now. NewSignedReceipt (ce_crypto env) uuid ''EventHeadReceipt'' (ce_issuer env)
     (head_receipt_fields q) [ce_key env] now = Inr r)"

definition row_for :: "CASEnv \<Rightarrow> AppendRow \<Rightarrow> CASRequest \<Rightarrow> bool" where
  "row_for env row q \<longleftrightarrow> (\<exists>r doc body. issued_for env q r \<and> Receipt_values True r = Inr doc \<and> Receipt_CanonicalBytes r = Inr body
     \<and> row = append_row (ce_sha env) q r doc body \<and> EventDigest q = ce_sha env (bytes_of (rq_Event q))
     \<and> admit_request env q = None)"

abbreviation rows_of :: "EventTables \<Rightarrow> string \<Rightarrow> AppendRow list" where
  "rows_of t c \<equiv> filter (\<lambda>r. ar_computer r = c) (append_rows t)"

definition history :: "CASEnv \<Rightarrow> EventTables \<Rightarrow> string \<Rightarrow> CASRequest list \<Rightarrow> bool" where
  "history env t c qs \<longleftrightarrow> chain env qs = Inr (event_heads t c) \<and> list_all2 (row_for env) (rows_of t c) qs
     \<and> distinct (map ar_key (rows_of t c)) \<and> distinct (map ar_digest (rows_of t c))"

definition cas_inv :: "CASEnv \<Rightarrow> EventTables \<Rightarrow> bool" where
  "cas_inv env t \<longleftrightarrow> (\<forall>c. \<exists>qs. history env t c qs)"

definition NoEvents :: EventTables where
  "NoEvents = \<lparr>event_heads = Map.empty, append_rows = [], lifecycle_rows = []\<rparr>"

lemma cas_inv_NoEvents [simp, intro]: "cas_inv env NoEvents"
  by (auto simp: cas_inv_def history_def NoEvents_def intro!: exI [of _ "[]"])

lemma append_row_simps [simp]:
  "ar_computer (append_row sha q r j b) = ev_ComputerID (rq_Event q)" "ar_key (append_row sha q r j b) = IdempotencyKey (rq_Event q)"
  "ar_commitment (append_row sha q r j b) = RequestCommitment (rq_Event q)" "ar_sequence (append_row sha q r j b) = ev_Sequence (rq_Event q)"
  "ar_receipt (append_row sha q r j b) = j" "ar_digest (append_row sha q r j b) = EventDigest q"
  "ar_kind (append_row sha q r j b) = ev_Kind (rq_Event q)"
  by (simp_all add: append_row_def)

text \<open>What a transaction that succeeds does.\<close>

lemma cas_transaction_Inr:
  assumes "cas_transaction env flt uuid now t q = Inr (r, t')"
  shows "\<exists>doc body. Reduce (ce_uuid7 env) (ce_sha env) (event_heads t (ev_ComputerID (rq_Event q))) (rq_Event q) (rq_Input q) = Inr (rq_Next q)
    \<and> Event_Digest (ce_uuid7 env) (ce_sha env) (rq_Event q) = Inr (EventDigest q)
    \<and> issued_for env q r \<and> Receipt_values True r = Inr doc \<and> Receipt_CanonicalBytes r = Inr body
    \<and> event_heads t' = (event_heads t)(ev_ComputerID (rq_Event q) \<mapsto> rq_Next q)
    \<and> append_rows t' = append_rows t @ [append_row (ce_sha env) q r doc body]
    \<and> (\<forall>x \<in> set (append_rows t). ar_computer x = ev_ComputerID (rq_Event q) \<longrightarrow> ar_key x \<noteq> IdempotencyKey (rq_Event q) \<and> ar_digest x \<noteq> EventDigest q)"
proof -
  let ?c = "ev_ComputerID (rq_Event q)"
  obtain doc body t1 t2 where red: "Reduce (ce_uuid7 env) (ce_sha env) (event_heads t ?c) (rq_Event q) (rq_Input q) = Inr (rq_Next q)"
    and dg: "Event_Digest (ce_uuid7 env) (ce_sha env) (rq_Event q) = Inr (EventDigest q)"
    and iss: "NewSignedReceipt (ce_crypto env) uuid ''EventHeadReceipt'' (ce_issuer env) (head_receipt_fields q) [ce_key env] now = Inr r"
    and doc: "Receipt_values True r = Inr doc" "Receipt_CanonicalBytes r = Inr body"
    and w: "write_head (flt WriteHead) t (event_heads t ?c) (rq_Next q) = Inr t1"
    and i: "insert_append (flt InsertReceipt) t1 (append_row (ce_sha env) q r doc body) = Inr t2"
    and j: "join_lifecycle (flt JoinLifecycle) t2 q = Inr t'"
    using assms unfolding cas_transaction_def readComputerEventHead_def
    by (auto simp: rbind_Inr_iff split: if_splits sum.splits)
  have id: "h_ComputerID (rq_Next q) = ?c" using Reduce_ids [OF red] by simp
  have t1: "t1 = t\<lparr>event_heads := (event_heads t)(?c \<mapsto> rq_Next q)\<rparr>"
    using w id by (auto simp: write_head_def split: option.splits if_splits)
  have t2: "t2 = t1\<lparr>append_rows := append_rows t1 @ [append_row (ce_sha env) q r doc body]\<rparr>"
      "\<forall>x \<in> set (append_rows t1). ar_computer x = ?c \<longrightarrow> ar_key x \<noteq> IdempotencyKey (rq_Event q) \<and> ar_digest x \<noteq> EventDigest q"
    using i by (auto simp: insert_append_def split: if_splits)
  have "event_heads t' = event_heads t2" "append_rows t' = append_rows t2"
    using j by (auto simp: join_lifecycle_def Let_def split: if_splits)
  then show ?thesis using red dg iss doc t1 t2 unfolding issued_for_def by auto
qed

lemma cas_transaction_history:
  assumes "cas_transaction env flt uuid now t q = Inr (r, t')" "admit_request env q = None" "history env t c qs"
  shows "history env t' c (if c = ev_ComputerID (rq_Event q) then qs @ [q] else qs)"
proof -
  let ?c = "ev_ComputerID (rq_Event q)"
  obtain doc body where s: "Reduce (ce_uuid7 env) (ce_sha env) (event_heads t ?c) (rq_Event q) (rq_Input q) = Inr (rq_Next q)"
    "issued_for env q r" "Receipt_values True r = Inr doc" "Receipt_CanonicalBytes r = Inr body"
    "event_heads t' = (event_heads t)(?c \<mapsto> rq_Next q)"
    "append_rows t' = append_rows t @ [append_row (ce_sha env) q r doc body]"
    "\<forall>x \<in> set (append_rows t). ar_computer x = ?c \<longrightarrow> ar_key x \<noteq> IdempotencyKey (rq_Event q) \<and> ar_digest x \<noteq> EventDigest q"
    "Event_Digest (ce_uuid7 env) (ce_sha env) (rq_Event q) = Inr (EventDigest q)"
    using cas_transaction_Inr [OF assms(1)] by blast
  have "row_for env (append_row (ce_sha env) q r doc body) q"
    using s assms(2) Reduce_ids [OF s(1)] unfolding row_for_def by auto
  then show ?thesis
    using s assms(3) by (auto simp: history_def chain_snoc intro!: list_all2_appendI)
qed

lemma CompareAndSwap_cases:
  obtains (unchanged) "snd (CompareAndSwap env flt uuid now t q) = t"
  | (stored) r t' where "cas_transaction env flt uuid now t q = Inr (r, t')" "admit_request env q = None"
      "existingComputerEventReceipt (flt SelectReceipt) t (ev_ComputerID (rq_Event q)) (IdempotencyKey (rq_Event q)) (RequestCommitment (rq_Event q)) = None"
      "CompareAndSwap env flt uuid now t q = (if flt CommitTxLost then Inl CommitFailed else if flt CommitDolt then Inl DoltCommitFailed else Inr r, t')"
proof (cases "snd (CompareAndSwap env flt uuid now t q) = t")
  case False
  then show thesis
    using stored by (auto simp: CompareAndSwap_def Let_def split: option.splits if_splits sum.splits prod.splits)
qed (use unchanged in blast)

lemma cas_inv_swap [inv_intros]: "cas_inv env t \<Longrightarrow> cas_inv env (snd (CompareAndSwap env flt uuid now t q))"
proof (cases rule: CompareAndSwap_cases [of env flt uuid now t q])
  case (stored r t')
  assume "cas_inv env t"
  then show ?thesis using cas_transaction_history [OF stored(1,2)] stored(4) unfolding cas_inv_def by (metis snd_conv)
qed simp
section \<open>The interface the appender relies on\<close>

text \<open>
  Heads that only move forward: what a reader of a head may rely on later, whoever keeps the heads.
\<close>

locale forward_heads =
  fixes head :: "'p \<Rightarrow> string \<Rightarrow> Head option"
    and step :: "'p \<Rightarrow> 'op \<Rightarrow> 'p"
    and good :: "'p \<Rightarrow> bool"
  assumes step_good: "good p \<Longrightarrow> good (step p x)"
    and step_forward: "good p \<Longrightarrow> head p c = Some h \<Longrightarrow> \<exists>h'. head (step p x) c = Some h' \<and> (h' = h \<or> h_Sequence h < h_Sequence h')"
begin

lemma steps_good: "good p \<Longrightarrow> good (foldl step p xs)"
  by (induction xs arbitrary: p) (simp_all add: step_good)

lemma heads_forward:
  "good p \<Longrightarrow> head p c = Some h \<Longrightarrow> \<exists>h'. head (foldl step p xs) c = Some h' \<and> (h' = h \<or> h_Sequence h < h_Sequence h')"
proof (induction xs arbitrary: p h)
  case (Cons x xs)
  obtain h1 where h1: "head (step p x) c = Some h1" "h1 = h \<or> h_Sequence h < h_Sequence h1"
    using step_forward [OF Cons.prems] by blast
  obtain h' where "head (foldl step (step p x) xs) c = Some h'" "h' = h1 \<or> h_Sequence h1 < h_Sequence h'"
    using Cons.IH [OF step_good [OF Cons.prems(1)] h1(1)] by blast
  then show ?case using h1(2) by auto
qed simp

end

text \<open>
  What a holder of the head authority may rely on: a swap keeps the authority's invariant, moves no other
  computer's head, and moves the head of the request's computer only to the head the request names, which
  the reducer gives on the current head. Such an authority keeps forward heads.
\<close>

locale head_cas =
  fixes head :: "'p \<Rightarrow> string \<Rightarrow> Head option"
    and swap :: "'p \<Rightarrow> 'call \<Rightarrow> 'p"
    and request :: "'call \<Rightarrow> CASRequest"
    and good :: "'p \<Rightarrow> bool"
    and red :: "Head option \<Rightarrow> Event \<Rightarrow> TransitionInput \<Rightarrow> reduce_error + Head"
  assumes swap_good: "good p \<Longrightarrow> good (swap p x)"
    and swap_head: "good p \<Longrightarrow> head (swap p x) = head p
      \<or> red (head p (ev_ComputerID (rq_Event (request x)))) (rq_Event (request x)) (rq_Input (request x)) = Inr (rq_Next (request x))
        \<and> head (swap p x) = (head p)(ev_ComputerID (rq_Event (request x)) \<mapsto> rq_Next (request x))"
    and red_next: "red (Some h) e i = Inr h' \<Longrightarrow> h_Sequence h < h_Sequence h'"
begin

lemma swap_forward: "good p \<Longrightarrow> head p c = Some h \<Longrightarrow> \<exists>h'. head (swap p x) c = Some h' \<and> (h' = h \<or> h_Sequence h < h_Sequence h')"
  using swap_head [of p x] red_next by fastforce

end

sublocale head_cas \<subseteq> forward_heads head swap good
  by unfold_locales (fact swap_good, fact swap_forward)

record CASCall =
  call_fault :: cas_fault
  call_uuid :: string
  call_now :: string
  call_request :: CASRequest
  call_lifecycle :: "LifecycleRow list \<Rightarrow> LifecycleRow list"

definition with_lifecycle :: "CASCall \<Rightarrow> EventTables \<Rightarrow> EventTables" where
  "with_lifecycle x t = t\<lparr>lifecycle_rows := call_lifecycle x (lifecycle_rows t)\<rparr>"

definition cas_call :: "CASEnv \<Rightarrow> EventTables \<Rightarrow> CASCall \<Rightarrow> EventTables" where
  "cas_call env t x = snd (CompareAndSwap env (call_fault x) (call_uuid x) (call_now x) (with_lifecycle x t) (call_request x))"

lemma with_lifecycle_simps [simp]:
  "event_heads (with_lifecycle x t) = event_heads t" "append_rows (with_lifecycle x t) = append_rows t"
  "cas_inv env (with_lifecycle x t) = cas_inv env t"
  by (simp_all add: with_lifecycle_def cas_inv_def history_def)

lemma Reduce_increases: "Reduce uuid7 sha (Some h) e i = Inr h' \<Longrightarrow> h_Sequence h < h_Sequence h'"
proof -
  assume r: "Reduce uuid7 sha (Some h) e i = Inr h'"
  have "h_Sequence h' = h_Sequence h + 1" using Reduce_ids [OF r] Reduce_Some [OF r] by simp
  moreover have "h_Sequence h' \<noteq> 0" using Reduce_ids [OF r] by (auto simp: Digest_Inr dest: Validate_None)
  ultimately show ?thesis using word_less_succ [of "h_Sequence h"] by simp
qed

interpretation cas: head_cas event_heads "cas_call env" call_request "cas_inv env" "Reduce (ce_uuid7 env) (ce_sha env)" for env
proof unfold_locales
  fix t x assume inv: "cas_inv env t"
  have "cas_inv env (with_lifecycle x t)" using inv by simp
  then show "cas_inv env (cas_call env t x)" unfolding cas_call_def by (rule cas_inv_swap)
  show "event_heads (cas_call env t x) = event_heads t
      \<or> Reduce (ce_uuid7 env) (ce_sha env) (event_heads t (ev_ComputerID (rq_Event (call_request x)))) (rq_Event (call_request x))
          (rq_Input (call_request x)) = Inr (rq_Next (call_request x))
        \<and> event_heads (cas_call env t x) = (event_heads t)(ev_ComputerID (rq_Event (call_request x)) \<mapsto> rq_Next (call_request x))"
  proof (cases rule: CompareAndSwap_cases [of env "call_fault x" "call_uuid x" "call_now x" "with_lifecycle x t" "call_request x"])
    case (stored r t')
    then show ?thesis using cas_transaction_Inr [OF stored(1)] by (auto simp: cas_call_def)
  qed (simp add: cas_call_def)
qed (rule Reduce_increases)

section \<open>Properties\<close>

text \<open>C6: the platform's head of every computer is the reduction of exactly the events its append rows record, in the order
  of the rows: after any sequence of swap calls, with any faults and whatever lifecycle operations were recorded in between, there is a list of accepted requests, one per row of the
  computer, that links from nothing to the head, and its events replay to that head. Keys are never reused.\<close>

theorem cas_history_replays:
  "\<exists>qs. chain env qs = Inr (event_heads (foldl (cas_call env) NoEvents calls) c)
    \<and> replay (ce_uuid7 env) (ce_sha env) (tape_of qs) = Inr (event_heads (foldl (cas_call env) NoEvents calls) c)
    \<and> list_all2 (row_for env) (rows_of (foldl (cas_call env) NoEvents calls) c) qs
    \<and> distinct (map (IdempotencyKey \<circ> rq_Event) qs)"
proof -
  obtain qs where h: "history env (foldl (cas_call env) NoEvents calls) c qs"
    using cas.steps_good [OF cas_inv_NoEvents, of env calls] unfolding cas_inv_def by blast
  have keys: "list_all2 (row_for env) rows qs \<Longrightarrow> map ar_key rows = map (IdempotencyKey \<circ> rq_Event) qs" for rows
    by (induction rows qs rule: list_all2_induct) (auto simp: row_for_def)
  show ?thesis using h chain_replay keys unfolding history_def by metis
qed

text \<open>C7: a head never moves back and no update is lost: once a computer has a head, every later sequence of swap calls leaves
  that head or one with a greater sequence number, and a request made for another head is not recorded: it changes nothing,
  and succeeds only if its idempotency key was recorded before with the same commitment.\<close>

theorem cas_no_lost_update:
  assumes "cas_inv env t" "event_heads t (ev_ComputerID (rq_Event q)) = Some h"
    and "PreviousHead (rq_Event q) \<noteq> CanonicalEventHead h \<or> ev_Sequence (rq_Event q) \<noteq> h_Sequence h + 1"
  shows "(\<exists>h'. event_heads (foldl (cas_call env) t calls) (ev_ComputerID (rq_Event q)) = Some h' \<and> (h' = h \<or> h_Sequence h < h_Sequence h'))
    \<and> snd (CompareAndSwap env flt uuid now t q) = t
    \<and> (\<forall>r. fst (CompareAndSwap env flt uuid now t q) = Inr r \<longrightarrow>
        (\<exists>x \<in> set (rows_of t (ev_ComputerID (rq_Event q))). ar_key x = IdempotencyKey (rq_Event q)
           \<and> ar_commitment x = RequestCommitment (rq_Event q)))"
proof -
  have no: "cas_transaction env flt uuid now t q \<noteq> Inr (r, t')" for r t'
    using cas_transaction_Inr [of env flt uuid now t q r t'] Reduce_Some [of "ce_uuid7 env" "ce_sha env" h "rq_Event q" "rq_Input q" "rq_Next q"]
      assms(2,3) by auto
  have "\<exists>x \<in> set (rows_of t (ev_ComputerID (rq_Event q))). ar_key x = IdempotencyKey (rq_Event q) \<and> ar_commitment x = RequestCommitment (rq_Event q)"
    if "fst (CompareAndSwap env flt uuid now t q) = Inr r" for r
    using that no
    by (auto simp: CompareAndSwap_def existingComputerEventReceipt_def Let_def find_Some_iff
        split: option.splits if_splits sum.splits prod.splits) (metis nth_mem)+
  moreover have "snd (CompareAndSwap env flt uuid now t q) = t"
    using no by (cases rule: CompareAndSwap_cases [of env flt uuid now t q]) auto
  ultimately show ?thesis using cas.heads_forward [OF assms(1,2), of calls] by blast
qed

definition receipt_binds :: "Receipt \<Rightarrow> string \<Rightarrow> bool" where
  "receipt_binds r dg \<longleftrightarrow> ReceiptKind r = ''EventHeadReceipt'' \<and> map_of (KindFields r) ''event_digest'' = Some (DStr dg)
     \<and> (\<exists>doc body. Receipt_values True r = Inr doc \<and> Receipt_CanonicalBytes r = Inr body)"

lemma issued_fields: "issued_for env q r \<Longrightarrow> KindFields r = head_receipt_fields q \<and> ReceiptKind r = ''EventHeadReceipt''"
  unfolding issued_for_def using NewSignedReceipt_Inr by blast

lemma issued_binds:
  "issued_for env q r \<Longrightarrow> Receipt_values True r = Inr doc \<Longrightarrow> Receipt_CanonicalBytes r = Inr body \<Longrightarrow> receipt_binds r (EventDigest q)"
  using issued_fields [of env q r] by (simp add: receipt_binds_def head_receipt_fields_def)

lemma stored_binds:
  assumes "issued_for env q r" "Receipt_CanonicalBytes r = Inr body" "view_text_ok q"
  shows "receipt_binds (stored_form r) (EventDigest q) \<and> Receipt_CanonicalBytes (stored_form r) = Inr body"
proof -
  have keep: "list_all (\<lambda>(k, v). keeps_text v) (KindFields r)" using head_fields_keep [OF assms(3)] issued_fields [OF assms(1)] by simp
  then have b: "Receipt_CanonicalBytes (stored_form r) = Inr body"
    using values_stored [of r True] assms(2) by (simp add: Receipt_CanonicalBytes_def)
  have "ValidString (EventDigest q)" using assms(3) by (simp add: view_text_ok_def receipt_view_def)
  then have "map_of (KindFields (stored_form r)) ''event_digest'' = Some (DStr (EventDigest q))"
    using issued_fields [OF assms(1)] by (simp add: map_of_stored head_receipt_fields_def JStr_def coerce_valid)
  then show ?thesis using b issued_fields [OF assms(1)]
    by (auto simp: receipt_binds_def Receipt_CanonicalBytes_def canonical_values_def split: sum.splits)
qed

text \<open>A request that names the same receipt fields and key as one that was recorded gets the recorded receipt.\<close>

lemma swap_retry:
  assumes took: "CompareAndSwap env flt uuid now t q = (res, t')" "t' \<noteq> t"
    and new: "NewComputerEventCAS (ce_issuer env) (ce_key env)" "ValidString (KeyID (sk_Ref (ce_key env)))"
    and cr: "scheme_ok (ce_crypto env) pub" "crypto_text_ok (ce_crypto env)"
    and tx: "ce_uuid7 env uuid" "canonicalUTC now" "ValidString uuid" "ValidString now" "view_text_ok q"
    and key: "resolve (SignerDomain (sk_Ref (ce_key env))) (ev_ComputerID (rq_Event q)) (KeyID (sk_Ref (ce_key env)))
        (ev_Sequence (rq_Event q)) now = Some (pub (PrivateKey (ce_key env)))"
    and sq: "int (unat (ev_Sequence (rq_Event q))) \<le> int64_max" and retry: "\<not> flt' SelectReceipt"
    and same: "head_receipt_fields q' = head_receipt_fields q" "IdempotencyKey (rq_Event q') = IdempotencyKey (rq_Event q)"
      "admit_request env q' = None" "ce_pins env q'"
  shows "\<exists>r. issued_for env q r \<and> CompareAndSwap env flt' uuid' now' t' q' = (Inr (stored_form r), t')
    \<and> VerifyEventHeadReceipt (ce_uuid7 env) (ce_crypto env) (Some resolve) (stored_form r) q' = None
    \<and> receipt_binds (stored_form r) (EventDigest q)"
proof -
  obtain r where s: "cas_transaction env flt uuid now t q = Inr (r, t')"
      "existingComputerEventReceipt (flt SelectReceipt) t (ev_ComputerID (rq_Event q)) (IdempotencyKey (rq_Event q)) (RequestCommitment (rq_Event q)) = None"
    using took by (cases rule: CompareAndSwap_cases [of env flt uuid now t q]) auto
  obtain doc body where d: "Receipt_values True r = Inr doc" "Receipt_CanonicalBytes r = Inr body" "issued_for env q r"
      "append_rows t' = append_rows t @ [append_row (ce_sha env) q r doc body]"
    using cas_transaction_Inr [OF s(1)] by blast
  have iss: "NewSignedReceipt (ce_crypto env) uuid ''EventHeadReceipt'' ''corpusd'' (head_receipt_fields q) [ce_key env] now = Inr r"
    using s(1) new(1) unfolding cas_transaction_def readComputerEventHead_def NewComputerEventCAS_def
    by (auto simp: rbind_Inr_iff split: if_splits sum.splits)
  have k: "key_ok (ce_key env)" using new ascii_names
    by (auto simp: key_ok_def NewComputerEventCAS_def ValidString_def byte_codes_def)
  have dec: "Receipt_UnmarshalJSON doc = Inr (stored_form r)"
    by (rule decode_stored [OF d(1) issued_text_ok [OF iss cr(2) k tx(3,4)]])
  have kf: "KindFields r = head_receipt_fields q" using NewSignedReceipt_Inr [OF iss] by blast
  have "VerifyEventHeadReceipt (ce_uuid7 env) (ce_crypto env) (Some resolve) (stored_form r) q = None"
    using head_receipt_stored [OF kf tx(5) sq, of "ce_uuid7 env" "ce_crypto env" "Some resolve"]
      issued_receipt_verifies [where ?uuid7.0 = "ce_uuid7 env" and resolve = resolve, OF iss cr(1) tx(1,2,5) key] by simp
  then have v: "VerifyEventHeadReceipt (ce_uuid7 env) (ce_crypto env) (Some resolve) (stored_form r) q' = None"
    unfolding VerifyEventHeadReceipt_def same(1) .
  have ids: "ev_ComputerID (rq_Event q') = ev_ComputerID (rq_Event q)" "RequestCommitment (rq_Event q') = RequestCommitment (rq_Event q)"
    using same(1) by (simp_all add: head_receipt_fields_def)
  have "find (\<lambda>x. ar_computer x = ev_ComputerID (rq_Event q) \<and> ar_key x = IdempotencyKey (rq_Event q)) (append_rows t) = None"
    using s(2) by (auto simp: existingComputerEventReceipt_def split: if_splits option.splits)
  then have f: "find (\<lambda>x. ar_computer x = ev_ComputerID (rq_Event q) \<and> ar_key x = IdempotencyKey (rq_Event q)) (append_rows t')
      = Some (append_row (ce_sha env) q r doc body)"
    unfolding d(4) by (simp add: find_append)
  have "CompareAndSwap env flt' uuid' now' t' q' = (Inr (stored_form r), t')"
    using retry dec same(3,4) f by (simp add: CompareAndSwap_def existingComputerEventReceipt_def Let_def ids same(2))
  then show ?thesis using v d(3) stored_binds [OF d(3,2) tx(5)] by blast
qed

text \<open>C8: a swap that took effect can be retried: whatever the caller saw (also an error after the commit), the same request
  sent again changes nothing and returns the recorded receipt, and that receipt verifies for the request while sequence
  numbers are below \<open>2 ^ 63\<close>.\<close>

theorem cas_retry_returns_receipt:
  assumes "CompareAndSwap env flt uuid now t q = (res, t')" "t' \<noteq> t"
    and "NewComputerEventCAS (ce_issuer env) (ce_key env)" "ValidString (KeyID (sk_Ref (ce_key env)))"
    and "scheme_ok (ce_crypto env) pub" "crypto_text_ok (ce_crypto env)"
    and "ce_uuid7 env uuid" "canonicalUTC now" "ValidString uuid" "ValidString now" "view_text_ok q"
    and "resolve (SignerDomain (sk_Ref (ce_key env))) (ev_ComputerID (rq_Event q)) (KeyID (sk_Ref (ce_key env)))
        (ev_Sequence (rq_Event q)) now = Some (pub (PrivateKey (ce_key env)))"
    and "int (unat (ev_Sequence (rq_Event q))) \<le> int64_max" "\<not> flt' SelectReceipt"
  shows "\<exists>r'. CompareAndSwap env flt' uuid' now' t' q = (Inr r', t')
    \<and> VerifyEventHeadReceipt (ce_uuid7 env) (ce_crypto env) (Some resolve) r' q = None"
proof -
  have "ce_pins env q" "admit_request env q = None"
    using assms(1,2) by (auto simp: CompareAndSwap_def Let_def split: option.splits if_splits)
  then show ?thesis
    using swap_retry [where resolve = resolve and q' = q and flt' = flt' and pub = pub, OF assms(1-14) refl refl] by blast
qed

section \<open>Commitments of valid text exist\<close>

lemma printable_intent: "intent_text_ok e i rs \<Longrightarrow> printable (requestIntent e i)"
proof -
  assume t: "intent_text_ok e i rs"
  have k: "ValidString ''transition_input''" "ValidString ''target_state_commitment''" "ValidString ''restored_prior_effective''"
    by (simp_all add: ValidString_def byte_codes_def)
  have "list_all (\<lambda>(k, f). ValidString k \<and> printable (f e)) event_fields"
    using event_printable [of e] t by (simp add: intent_text_ok_def printable_struct)
  then have "list_all (\<lambda>(k, f). ValidString k \<and> printable (f (e, i)))
      (map (\<lambda>(k, f). (k, f \<circ> fst)) (filter (\<lambda>(k, f). k \<notin> {''sequence'', ''previous_head'', ''request_commitment''}) event_fields))"
    by (auto simp: list_all_iff)
  moreover have "printable (struct_json input_fields i)"
    using t k by (simp add: printable_struct input_fields_def intent_text_ok_def)
  ultimately show ?thesis using k by (simp add: requestIntent_def printable_struct intent_fields_def)
qed

lemma printable_request: "intent_text_ok e i rs \<Longrightarrow> ValidString pin \<Longrightarrow> printable (request_json e i pin rs)"
  using printable_intent [of e i rs] by (simp add: request_json_def intent_text_ok_def ValidString_def byte_codes_def)

lemma commitments_exist:
  assumes "intent_text_ok e i rs"
  shows "\<exists>b. ComputePinIntentCommitment sha e i = Inr (sha b)"
    and "ValidString pin \<Longrightarrow> \<exists>b. ComputeRequestCommitment sha e i pin rs = Inr (sha b)"
  using appendCanonical_ok [OF printable_intent [OF assms]] appendCanonical_ok [OF printable_request [OF assms, of pin]]
  by (auto simp: ComputePinIntentCommitment_def ComputeRequestCommitment_def simp del: appendCanonical.simps)

lemma issued_bytes:
  assumes "NewSignedReceipt cr uuid ''EventHeadReceipt'' ''corpusd'' (head_receipt_fields q) [key] at = Inr r"
    and "view_text_ok q" "crypto_text_ok cr" "key_ok key" "ValidString uuid" "ValidString at"
  shows "\<exists>body. Receipt_CanonicalBytes r = Inr body"
proof -
  have t: "receipt_text_ok r" by (rule issued_text_ok [OF assms(1,3-)])
  have f: "KindFields r = head_receipt_fields q" "ReceiptVersion r = 1" using NewSignedReceipt_Inr [OF assms(1)] by blast+
  have n: "find (\<lambda>k. k \<in> fst ` set (head_receipt_fields q)) reserved_fields = None"
    by (simp add: find_None_iff reserved_fields_def head_receipt_fields_def)
  have s: "printable (signer_json x)" if "signer_text_ok x" for x
    using that ascii_names by (simp add: signer_json_def printable_struct signer_text_ok_def)
  have g: "printable (signature_json x)" if "signer_text_ok (sig_Signer x)" "ValidString (sig_Text x)" for x
    using that ascii_names by (simp add: signature_json_def printable_struct signer_text_ok_def)
  have h: "list_all (\<lambda>(k, v). ValidString k \<and> printable v) (map (\<lambda>(k, v). (k, dyn_json v)) (head_receipt_fields q))"
    using assms(2) ascii_names by (simp add: head_receipt_fields_def head_receipt_names_def view_text_ok_def receipt_view_def)
  have names: "list_all ValidString reserved_fields" using ascii_names by simp
  have "printable j" if "Receipt_values True r = Inr j" for j
    using that t h names s g unfolding Receipt_values_def f n
    by (auto simp: receipt_text_ok_def reserved_fields_def list_all_iff)
  moreover obtain j where j: "Receipt_values True r = Inr j" using issued_values [OF assms(1)] by blast
  ultimately show ?thesis using appendCanonical_ok [of j]
    by (auto simp: Receipt_CanonicalBytes_def canonical_values_def simp del: appendCanonical.simps)
qed

section \<open>Witnesses\<close>

abbreviation wit_digest :: string where
  "wit_digest \<equiv> replicate 64 (CHR ''a'')"

definition wit_env :: CASEnv where
  "wit_env = \<lparr>ce_uuid7 = wit_uuid7, ce_crypto = wit_scheme_text, ce_key = wit_key, ce_issuer = ''corpusd'', ce_pins = (\<lambda>_. True)\<rparr>"

definition wit_swap :: CASRequest where
  "wit_swap = wit_cas_request\<lparr>rq_Event := wit_genesis\<lparr>RequestCommitment := wit_digest\<rparr>, PinIntentCommitment := wit_digest, EventPinReceiptDigest := wit_digest\<rparr>"

lemma wit_env_sha: "cr_sha wit_scheme_text = wit_sha256" "ce_crypto wit_env = wit_scheme_text" "ce_key wit_env = wit_key"
    "ce_issuer wit_env = ''corpusd''" "ce_uuid7 wit_env = wit_uuid7" "ce_pins wit_env q"
  by (simp_all add: wit_env_def wit_scheme_text_def wit_crypto_def)

lemma wit_digest_valid: "ValidString wit_digest" "ValidString ZeroHead" "isSHA256 wit_digest" "isSHA256 ZeroHead"
  by code_simp+

lemma wit_swap_fields: "ev_ComputerID (rq_Event wit_swap) = ''c''" "EventDigest wit_swap = wit_digest" "EventArtifactDigest wit_swap = wit_digest"
    "EventPinReceiptDigest wit_swap = wit_digest" "PinIntentCommitment wit_swap = wit_digest" "RequestCommitment (rq_Event wit_swap) = wit_digest"
    "rq_Next wit_swap = wit_head" "ev_Sequence (rq_Event wit_swap) = 1" "ev_Kind (rq_Event wit_swap) = EventGenesisImported"
    "PreviousHead (rq_Event wit_swap) = ZeroHead" "PayloadPinReceiptDigests wit_swap = []"
  by (simp_all add: wit_swap_def wit_cas_request_def wit_genesis_def)

lemma wit_swap_text: "intent_text_ok (rq_Event wit_swap) (rq_Input wit_swap) (PayloadPinReceiptDigests wit_swap)"
  using wit_text wit_digest_valid
  by (simp add: intent_text_ok_def wit_swap_def wit_cas_request_def wit_input_def event_text_ok_def)

lemma wit_swap_admitted: "admit_request wit_env wit_swap = None"
proof -
  have "ComputePinIntentCommitment wit_sha256 (rq_Event wit_swap) (rq_Input wit_swap) = Inr wit_digest"
      "ComputeRequestCommitment wit_sha256 (rq_Event wit_swap) (rq_Input wit_swap) wit_digest (PayloadPinReceiptDigests wit_swap) = Inr wit_digest"
    using commitments_exist(1) [OF wit_swap_text, of wit_sha256]
      commitments_exist(2) [OF wit_swap_text wit_digest_valid(1), of wit_sha256] by (simp_all add: wit_sha256_def)
  then show ?thesis unfolding admit_request_def wit_env_sha wit_swap_fields by simp
qed

lemma wit_swap_valid: "Event_Validate wit_uuid7 (rq_Event wit_swap) = None"
  by code_simp

lemma wit_swap_digest: "Event_Digest wit_uuid7 wit_sha256 (rq_Event wit_swap) = Inr wit_digest"
  unfolding Digest_Inr using wit_swap_valid wit_swap_text event_printable by (simp add: wit_sha256_def intent_text_ok_def)

lemma wit_swap_reduces: "Reduce wit_uuid7 wit_sha256 None (rq_Event wit_swap) (rq_Input wit_swap) = Inr (rq_Next wit_swap)"
  unfolding Reduce_def wit_swap_valid option.case wit_swap_digest sum.case using wit_digest_valid
  by (simp add: reduceGenesis_def wit_swap_def wit_cas_request_def wit_genesis_def wit_input_def wit_head_def)

lemma wit_swap_view: "view_text_ok wit_swap"
  by code_simp

text \<open>The first event of a computer is recorded.\<close>

lemma wit_swapped:
  "\<exists>r t. CompareAndSwap wit_env (\<lambda>_. False) ''u'' wit_time NoEvents wit_swap = (Inr r, t) \<and> event_heads t = [''c'' \<mapsto> wit_head]"
proof -
  obtain r where r: "NewSignedReceipt wit_scheme_text ''u'' ''EventHeadReceipt'' ''corpusd'' (head_receipt_fields wit_swap) [wit_key] wit_time = Inr r"
    using issue_succeeds [OF wit_swap_view wit_issue_args(2-4)] by blast
  obtain doc body where b: "Receipt_values True r = Inr doc" "Receipt_CanonicalBytes r = Inr body"
    using issued_values [OF r] issued_bytes [OF r wit_swap_view wit_scheme_text_ok(2) wit_issue_args(2-4)] by blast
  have "head_row_ok wit_head" by (simp add: head_row_ok_def wit_head_def)
  then have "\<exists>t. cas_transaction wit_env (\<lambda>_. False) ''u'' wit_time NoEvents wit_swap = Inr (r, t) \<and> event_heads t = [''c'' \<mapsto> wit_head]"
    using r b wit_swap_reduces wit_swap_digest
    unfolding cas_transaction_def readComputerEventHead_def wit_env_sha wit_swap_fields(1,2,7)
    by (simp add: NoEvents_def write_head_def insert_append_def join_lifecycle_def Let_def wit_swap_fields wit_head_def)
  then show ?thesis
    by (auto simp: CompareAndSwap_def wit_swap_admitted wit_env_sha existingComputerEventReceipt_def NoEvents_def Let_def)
qed

theorem cas_no_lost_update_witness:
  "\<exists>t r. CompareAndSwap wit_env (\<lambda>_. False) ''u'' wit_time NoEvents wit_swap = (Inr r, t)
    \<and> snd (CompareAndSwap wit_env (\<lambda>_. False) ''v'' wit_time t (wit_swap\<lparr>rq_Event := (rq_Event wit_swap)\<lparr>IdempotencyKey := ''other''\<rparr>\<rparr>)) = t"
proof -
  obtain r t where t: "CompareAndSwap wit_env (\<lambda>_. False) ''u'' wit_time NoEvents wit_swap = (Inr r, t)"
      "event_heads t = [''c'' \<mapsto> wit_head]"
    using wit_swapped by blast
  have inv: "cas_inv wit_env t" using cas_inv_swap [OF cas_inv_NoEvents, of wit_env "\<lambda>_. False" "''u''" wit_time wit_swap] t(1) by simp
  let ?q = "wit_swap\<lparr>rq_Event := (rq_Event wit_swap)\<lparr>IdempotencyKey := ''other''\<rparr>\<rparr>"
  have "snd (CompareAndSwap wit_env (\<lambda>_. False) ''v'' wit_time t ?q) = t"
    using cas_no_lost_update [OF inv, of ?q wit_head "[]" "\<lambda>_. False" "''v''" wit_time] t(2)
    by (simp add: wit_swap_fields wit_head_def)
  then show ?thesis using t(1) by blast
qed

theorem cas_retry_returns_receipt_witness:
  "\<exists>t r r'. CompareAndSwap wit_env (\<lambda>s. s = CommitDolt) ''u'' wit_time NoEvents wit_swap = (Inl DoltCommitFailed, t)
    \<and> CompareAndSwap wit_env (\<lambda>_. False) ''v'' wit_time t wit_swap = (Inr r', t)"
proof -
  obtain r t where t: "CompareAndSwap wit_env (\<lambda>_. False) ''u'' wit_time NoEvents wit_swap = (Inr r, t)"
      "event_heads t = [''c'' \<mapsto> wit_head]"
    using wit_swapped by blast
  have "cas_transaction wit_env (\<lambda>s. s = CommitDolt) ''u'' wit_time NoEvents wit_swap
      = cas_transaction wit_env (\<lambda>_. False) ''u'' wit_time NoEvents wit_swap"
    by (simp add: cas_transaction_def cong: sum.case_cong if_cong)
  then have t1: "CompareAndSwap wit_env (\<lambda>s. s = CommitDolt) ''u'' wit_time NoEvents wit_swap = (Inl DoltCommitFailed, t)"
    using t(1) by (auto simp: CompareAndSwap_def wit_swap_admitted wit_env_sha existingComputerEventReceipt_def NoEvents_def Let_def
        split: sum.splits)
  have ne: "t \<noteq> NoEvents" using fun_cong [OF t(2), of "''c''"] by (auto simp: NoEvents_def)
  have "\<exists>r'. CompareAndSwap wit_env (\<lambda>_. False) ''v'' wit_time t wit_swap = (Inr r', t)
      \<and> VerifyEventHeadReceipt wit_uuid7 wit_scheme_text (Some (\<lambda>_ _ _ _ _. Some (PrivateKey wit_key))) r' wit_swap = None"
    using cas_retry_returns_receipt [OF t1 ne, of id "\<lambda>_ _ _ _ _. Some (PrivateKey wit_key)" "\<lambda>_. False" "''v''" wit_time]
      wit_scheme_text_ok wit_issue_args(2-5) wit_swap_view unfolding wit_env_sha wit_swap_fields
    by (simp add: NewComputerEventCAS_def key_ok_def wit_key_def wit_uuid7_def int64_max_def)
  then show ?thesis using t1 by blast
qed

end
