(* ===== verification/Event_Projection.thy ===== *)
theory Event_Projection
  imports Event_CAS
begin

text \<open>
  The embedded projection of a computer's events (\<^verbatim>\<open>src/internal/store/computer_events.go\<close>) and projection batches
  (\<^verbatim>\<open>src/internal/computerevent/projection_batch.go\<close>). The index table holds one row per prepared or finalized
  event, the head table one row per computer. Failing statements are named by a fault oracle. The tables
  that a batch writes are a type variable and the writer of one batch is a function argument, so the
  results hold for every projector; the stored event text is decoded by the argument \<open>decode\<close>.
\<close>

section \<open>Projection batches\<close>

abbreviation ProjectionOpDesktopState :: string where "ProjectionOpDesktopState \<equiv> ''desktop_state_recorded''"
abbreviation ProjectionOpObject :: string where "ProjectionOpObject \<equiv> ''object_recorded''"
abbreviation ProjectionOpObjectEdge :: string where "ProjectionOpObjectEdge \<equiv> ''object_edge_recorded''"
abbreviation ProjectionOpRunMemoryEntry :: string where "ProjectionOpRunMemoryEntry \<equiv> ''run_memory_entry_recorded''"
abbreviation ProjectionOpSelfDevelopmentStartIntent :: string where "ProjectionOpSelfDevelopmentStartIntent \<equiv> ''self_development_start_intent_recorded''"
abbreviation ProjectionOpSelfDevelopmentOperation :: string where "ProjectionOpSelfDevelopmentOperation \<equiv> ''self_development_operation_recorded''"
abbreviation ProjectionOpTextureAgentMutation :: string where "ProjectionOpTextureAgentMutation \<equiv> ''texture_agent_mutation_recorded''"
abbreviation ProjectionOpTextureDocumentAlias :: string where "ProjectionOpTextureDocumentAlias \<equiv> ''texture_document_alias_recorded''"
abbreviation ProjectionOpTextureDocumentAliasDelete :: string where "ProjectionOpTextureDocumentAliasDelete \<equiv> ''texture_document_alias_delete_recorded''"

definition projectionOpKinds :: "string list" where
  "projectionOpKinds = [ProjectionOpDesktopState, ProjectionOpObject, ProjectionOpObjectEdge, ProjectionOpRunMemoryEntry,
     ProjectionOpSelfDevelopmentStartIntent, ProjectionOpSelfDevelopmentOperation, ProjectionOpTextureAgentMutation,
     ProjectionOpTextureDocumentAlias, ProjectionOpTextureDocumentAliasDelete]"

definition isProjectionV2OnlyKind :: "string \<Rightarrow> bool" where
  "isProjectionV2OnlyKind kind \<longleftrightarrow> kind \<in> {ProjectionOpRunMemoryEntry, ProjectionOpSelfDevelopmentStartIntent,
     ProjectionOpSelfDevelopmentOperation, ProjectionOpTextureAgentMutation, ProjectionOpTextureDocumentAlias,
     ProjectionOpTextureDocumentAliasDelete}"

record ProjectionOp =
  op_Kind :: string
  op_CanonicalID :: string
  op_Table :: string
  op_Body :: "json option"

record ProjectionBatch =
  pb_Version :: int
  pb_ProjectorVersion :: int
  pb_ComputerID :: string
  pb_EventID :: string
  pb_EventDigest :: string
  pb_Ops :: "ProjectionOp list"

datatype batch_error = UnsupportedBatchVersion | BatchIdentityRequired | BatchEventDigest | EmptyBatch | MissingOpKind nat
  | UnknownOpKind nat string | OpRequiresV2 nat string | PresenceTable string | PresenceField string

definition rejectProjectionPresence :: "json option \<Rightarrow> batch_error option" where
  "rejectProjectionPresence body =
     (case body of
        Some (JObject ms) \<Rightarrow> map_option PresenceField
          (find (\<lambda>k. k \<in> fst ` set ms) [''last_input_at'', ''driver_until'', ''visibility_state'', ''is_driver''])
      | _ \<Rightarrow> None)"

fun validate_ops :: "int \<Rightarrow> nat \<Rightarrow> ProjectionOp list \<Rightarrow> batch_error option" where
  "validate_ops v i [] = None"
| "validate_ops v i (p # ops) =
     (let kind = trimSpace (op_Kind p); table = trimSpace (op_Table p) in
      if kind = [] then Some (MissingOpKind i)
      else if kind \<notin> set projectionOpKinds then Some (UnknownOpKind i kind)
      else if v = 1 \<and> isProjectionV2OnlyKind kind then Some (OpRequiresV2 i kind)
      else if table = ''desktop_sessions'' \<or> table = ''desktop_session_presence'' then Some (PresenceTable table)
      else case rejectProjectionPresence (op_Body p) of Some e \<Rightarrow> Some e | None \<Rightarrow> validate_ops v (Suc i) ops)"

definition ProjectionBatch_Validate :: "ProjectionBatch \<Rightarrow> batch_error option" where
  "ProjectionBatch_Validate b =
     (if \<not> (pb_Version b = 1 \<and> pb_ProjectorVersion b = 1 \<or> pb_Version b = 2 \<and> pb_ProjectorVersion b = 2)
      then Some UnsupportedBatchVersion
      else if trimSpace (pb_ComputerID b) = [] \<or> trimSpace (pb_EventID b) = [] then Some BatchIdentityRequired
      else if trimSpace (pb_EventDigest b) \<noteq> [] \<and> \<not> isSHA256 (trimSpace (pb_EventDigest b)) then Some BatchEventDigest
      else if pb_Ops b = [] then Some EmptyBatch
      else validate_ops (pb_Version b) 0 (pb_Ops b))"

section \<open>The store\<close>

abbreviation StatusPrepared :: string where "StatusPrepared \<equiv> ''prepared''"
abbreviation StatusFinalized :: string where "StatusFinalized \<equiv> ''finalized''"

record IndexRow =
  ix_digest :: string
  ix_computer :: string
  ix_sequence :: uint64
  ix_previous :: string
  ix_kind :: EventKind
  ix_event :: string
  ix_artifact :: string
  ix_pin :: string
  ix_pins :: "string list"
  ix_commitment :: string
  ix_key :: string
  ix_status :: string
  ix_desired :: string
  ix_effective :: string
  ix_pending :: string
  ix_desired_state :: string
  ix_effective_state :: string
  ix_reducer :: int
  ix_epoch :: uint64
  ix_target :: string
  ix_restored :: bool
  ix_receipt :: "json option"
  ix_receipt_digest :: string

record 'b Projection =
  pj_heads :: "string \<rightharpoonup> Head"
  pj_index :: "IndexRow list"
  pj_tables :: 'b
  pj_since :: uint64
  pj_every :: uint64
  pj_dirty :: bool

datatype pj_stmt = PjHead | PjLookup | PjInsert | PjBegin | PjLoad | PjReadHead | PjWriteHead | PjMark | PjCommit | PjCommitLost | PjDelete
  | PjCheckpoint | PjList

type_synonym pj_fault = "pj_stmt \<Rightarrow> bool"

datatype pj_error = PjReadFailed | PjDigestMismatch | PjIdempotencyChanged | PjBadStatus string | PjInsertFailed
  | PjReceiptUnbound | PjReceiptBytes receipt_error | PjBeginFailed | PjLoadFailed | PjCannotFinalize string
  | PjBatchRequired | PjBatchForbidden | PjBatchInvalid batch_error | PjBatchIdentity | PjProjectionMismatch | PjHeadWriteFailed
  | PjMarkFailed | PjFinalizeLost | PjProjectFailed | PjCommitFailed | PjCheckpointFailed | PjDiscardFailed | PjEventUnreadable
  | PjNotFinalized string | PjReceiptUnavailable

definition Store_Head :: "pj_fault \<Rightarrow> 'b Projection \<Rightarrow> string \<Rightarrow> pj_error + Head option" where
  "Store_Head flt p c = (if flt PjHead then Inl PjReadFailed else Inr (pj_heads p c))"

definition index_row :: "string \<Rightarrow> CASRequest \<Rightarrow> IndexRow" where
  "index_row body q = (let e = rq_Event q; n = rq_Next q in
     \<lparr>ix_digest = EventDigest q, ix_computer = ev_ComputerID e, ix_sequence = ev_Sequence e, ix_previous = PreviousHead e,
      ix_kind = ev_Kind e, ix_event = body, ix_artifact = EventArtifactDigest q, ix_pin = EventPinReceiptDigest q,
      ix_pins = PayloadPinReceiptDigests q, ix_commitment = RequestCommitment e, ix_key = IdempotencyKey e, ix_status = StatusPrepared,
      ix_desired = DesiredEventHead n, ix_effective = EffectiveEventHead n, ix_pending = PendingTransitionRef n,
      ix_desired_state = DesiredStateCommitment n, ix_effective_state = EffectiveStateCommitment n, ix_reducer = h_ReducerVersion n,
      ix_epoch = CredentialRevocationEpoch n, ix_target = TargetStateCommitment (rq_Input q),
      ix_restored = RestoredPriorEffective (rq_Input q), ix_receipt = None, ix_receipt_digest = []\<rparr>)"

definition index_clash :: "IndexRow \<Rightarrow> IndexRow \<Rightarrow> bool" where
  "index_clash row r \<longleftrightarrow> ix_digest r = ix_digest row
     \<or> ix_computer r = ix_computer row \<and> (ix_sequence r = ix_sequence row \<or> ix_key r = ix_key row)"

definition Prepare ::
  "(string \<Rightarrow> bool) \<Rightarrow> hashing \<Rightarrow> pj_fault \<Rightarrow> 'b Projection \<Rightarrow> CASRequest \<Rightarrow> pj_error + 'b Projection" where
  "Prepare uuid7 sha flt p q =
     (let e = rq_Event q in
      case Event_CanonicalBytes uuid7 e of Inl _ \<Rightarrow> Inl PjDigestMismatch
      | Inr body \<Rightarrow>
        if sha body \<noteq> EventDigest q \<or> EventArtifactDigest q \<noteq> EventDigest q then Inl PjDigestMismatch
        else if flt PjLookup then Inl PjReadFailed
        else case find (\<lambda>r. ix_computer r = ev_ComputerID e \<and> ix_key r = IdempotencyKey e) (pj_index p) of
          Some r \<Rightarrow> if ix_digest r \<noteq> EventDigest q \<or> ix_commitment r \<noteq> RequestCommitment e then Inl PjIdempotencyChanged
            else if ix_status r = StatusPrepared \<or> ix_status r = StatusFinalized then Inr p
            else Inl (PjBadStatus (ix_status r))
        | None \<Rightarrow> if flt PjInsert \<or> list_ex (index_clash (index_row body q)) (pj_index p) then Inl PjInsertFailed
            else Inr (p\<lparr>pj_index := pj_index p @ [index_row body q], pj_dirty := True\<rparr>))"

definition commitDoltCheckpoint :: "pj_fault \<Rightarrow> 'b Projection \<Rightarrow> pj_error option \<times> 'b Projection" where
  "commitDoltCheckpoint flt p =
     (if \<not> pj_dirty p then (None, p)
      else if flt PjCheckpoint then (Some PjCheckpointFailed, p)
      else (None, p\<lparr>pj_dirty := False\<rparr>))"

definition row_head :: "string \<Rightarrow> IndexRow \<Rightarrow> Head" where
  "row_head c r = \<lparr>h_ComputerID = c, h_Sequence = ix_sequence r, CanonicalEventHead = ix_digest r, DesiredEventHead = ix_desired r,
     EffectiveEventHead = ix_effective r, PendingTransitionRef = ix_pending r, DesiredStateCommitment = ix_desired_state r,
     EffectiveStateCommitment = ix_effective_state r, h_ReducerVersion = ix_reducer r, CredentialRevocationEpoch = ix_epoch r\<rparr>"

text \<open>The batch a row needs: present exactly for a projection batch event, valid, and of this event.\<close>

definition check_batch :: "string \<Rightarrow> string \<Rightarrow> EventKind \<Rightarrow> ProjectionBatch option \<Rightarrow> pj_error option" where
  "check_batch c dg kind batch =
     (case batch of
        None \<Rightarrow> if kind = EventProjectionBatchRecorded then Some PjBatchRequired else None
      | Some b \<Rightarrow> if kind \<noteq> EventProjectionBatchRecorded then Some PjBatchForbidden
          else case ProjectionBatch_Validate b of Some e \<Rightarrow> Some (PjBatchInvalid e)
          | None \<Rightarrow> if pb_ComputerID b \<noteq> c \<or> pb_EventDigest b \<noteq> dg then Some PjBatchIdentity else None)"

text \<open>The transaction of finalizing: the head row moves by one link, the index row is marked, the batch is projected.\<close>

definition finalize_transaction ::
  "hashing \<Rightarrow> pj_fault \<Rightarrow> (bool \<Rightarrow> 'b \<Rightarrow> ProjectionBatch \<Rightarrow> 'b option) \<Rightarrow> 'b Projection \<Rightarrow> string \<Rightarrow> string \<Rightarrow> json \<Rightarrow> string
    \<Rightarrow> ProjectionBatch option \<Rightarrow> bool \<Rightarrow> IndexRow \<Rightarrow> pj_error + 'b Projection" where
  "finalize_transaction sha flt project p c dg doc receiptDigest batch legacy r =
     (if flt PjReadHead then Inl PjReadFailed
      else if (case pj_heads p c of None \<Rightarrow> ix_sequence r \<noteq> 1 \<or> ix_previous r \<noteq> ZeroHead
               | Some h \<Rightarrow> h_Sequence h + 1 \<noteq> ix_sequence r \<or> CanonicalEventHead h \<noteq> ix_previous r) then Inl PjProjectionMismatch
      else if flt PjWriteHead then Inl PjHeadWriteFailed
      else if flt PjMark then Inl PjMarkFailed
      else let marks = (\<lambda>x. ix_computer x = c \<and> ix_digest x = dg \<and> ix_status x = StatusPrepared) in
        if length (filter marks (pj_index p)) \<noteq> 1 then Inl PjFinalizeLost
        else case (case batch of None \<Rightarrow> Some (pj_tables p) | Some b \<Rightarrow> project legacy (pj_tables p) b) of
          None \<Rightarrow> Inl PjProjectFailed
        | Some tables \<Rightarrow> if flt PjCommit then Inl PjCommitFailed
            else Inr (p\<lparr>pj_heads := (pj_heads p)(c \<mapsto> row_head c r),
                        pj_index := map (\<lambda>x. if marks x then x\<lparr>ix_status := StatusFinalized, ix_receipt := Some doc, ix_receipt_digest := receiptDigest\<rparr> else x) (pj_index p),
                        pj_tables := tables\<rparr>))"

text \<open>From the commit on: it can be reported as failed although it took effect. After the commit of a live finalize, every so
  many events a checkpoint is due; its failure is reported although the event is finalized.\<close>

definition after_finalize :: "pj_fault \<Rightarrow> bool \<Rightarrow> 'b Projection \<Rightarrow> pj_error option \<times> 'b Projection" where
  "after_finalize flt legacy p =
     (if flt PjCommitLost then (Some PjCommitFailed, p)
      else if legacy then (None, p\<lparr>pj_dirty := True\<rparr>)
      else let every = (if pj_every p = 0 then 100 else pj_every p); n = pj_since p + 1 in
        if n < every then (None, p\<lparr>pj_dirty := True, pj_since := n\<rparr>)
        else commitDoltCheckpoint flt (p\<lparr>pj_dirty := True, pj_since := 0\<rparr>))"

definition finalizeBatch ::
  "hashing \<Rightarrow> pj_fault \<Rightarrow> (bool \<Rightarrow> 'b \<Rightarrow> ProjectionBatch \<Rightarrow> 'b option) \<Rightarrow> 'b Projection \<Rightarrow> string \<Rightarrow> string \<Rightarrow> Receipt
    \<Rightarrow> ProjectionBatch option \<Rightarrow> bool \<Rightarrow> pj_error option \<times> 'b Projection" where
  "finalizeBatch sha flt project p c dg receipt batch legacy =
     (let receiptEventDigest = (case map_of (KindFields receipt) ''event_digest'' of Some (DStr s) \<Rightarrow> s | _ \<Rightarrow> []) in
      if ReceiptKind receipt \<noteq> ''EventHeadReceipt'' \<or> receiptEventDigest \<noteq> dg then (Some PjReceiptUnbound, p)
      else case Receipt_values True receipt of Inl e \<Rightarrow> (Some (PjReceiptBytes e), p)
      | Inr doc \<Rightarrow> (case Receipt_CanonicalBytes receipt of Inl e \<Rightarrow> (Some (PjReceiptBytes e), p)
        | Inr body \<Rightarrow>
          if flt PjBegin then (Some PjBeginFailed, p)
          else if flt PjLoad then (Some PjLoadFailed, p)
          else case find (\<lambda>r. ix_computer r = c \<and> ix_digest r = dg) (pj_index p) of None \<Rightarrow> (Some PjLoadFailed, p)
          | Some r \<Rightarrow>
            if ix_status r = StatusFinalized then (None, p)
            else if ix_status r \<noteq> StatusPrepared then (Some (PjCannotFinalize (ix_status r)), p)
            else case check_batch c dg (ix_kind r) batch of Some e \<Rightarrow> (Some e, p)
            | None \<Rightarrow> (case finalize_transaction sha flt project p c dg doc (sha body) batch legacy r of
                Inl e \<Rightarrow> (Some e, p)
              | Inr p' \<Rightarrow> after_finalize flt legacy p')))"

definition FinalizeBatch where
  "FinalizeBatch sha flt project p c dg receipt batch = finalizeBatch sha flt project p c dg receipt batch False"

definition FinalizeReplayBatch where
  "FinalizeReplayBatch sha flt project p c dg receipt batch = finalizeBatch sha flt project p c dg receipt batch True"

definition CommitReplay :: "pj_fault \<Rightarrow> 'b Projection \<Rightarrow> pj_error option \<times> 'b Projection" where
  "CommitReplay flt p = commitDoltCheckpoint flt p"

definition DiscardPrepared :: "pj_fault \<Rightarrow> 'b Projection \<Rightarrow> string \<Rightarrow> string \<Rightarrow> pj_error option \<times> 'b Projection" where
  "DiscardPrepared flt p c dg =
     (if flt PjDelete then (Some PjDiscardFailed, p)
      else commitDoltCheckpoint flt
        (p\<lparr>pj_index := filter (\<lambda>r. \<not> (ix_computer r = c \<and> ix_digest r = dg \<and> ix_status r = StatusPrepared)) (pj_index p), pj_dirty := True\<rparr>))"

definition request_of_row :: "hashing \<Rightarrow> (string \<Rightarrow> Event option) \<Rightarrow> IndexRow \<Rightarrow> pj_error + CASRequest" where
  "request_of_row sha decode r =
     (case decode (ix_event r) of None \<Rightarrow> Inl PjEventUnreadable
      | Some e \<Rightarrow> (let inp = \<lparr>TargetStateCommitment = ix_target r, RestoredPriorEffective = ix_restored r\<rparr> in
        case ComputePinIntentCommitment sha e inp of Inl _ \<Rightarrow> Inl PjEventUnreadable
        | Inr pin \<Rightarrow> Inr \<lparr>rq_Event = e, EventDigest = ix_digest r, EventArtifactDigest = ix_artifact r, EventPinReceiptDigest = ix_pin r,
            PayloadPinReceiptDigests = ix_pins r, PinIntentCommitment = pin, rq_Input = inp,
            rq_Next = (row_head (ev_ComputerID e) r)\<lparr>h_Sequence := ev_Sequence e\<rparr>\<rparr>))"

definition Prepared :: "hashing \<Rightarrow> (string \<Rightarrow> Event option) \<Rightarrow> pj_fault \<Rightarrow> 'b Projection \<Rightarrow> string \<Rightarrow> pj_error + CASRequest list" where
  "Prepared sha decode flt p c =
     (if flt PjList then Inl PjReadFailed
      else all_results (map (request_of_row sha decode)
        (go_sort ix_sequence (filter (\<lambda>r. ix_computer r = c \<and> ix_status r = StatusPrepared) (pj_index p)))))"

definition EventByIdempotency :: "(string \<Rightarrow> Event option) \<Rightarrow> pj_fault \<Rightarrow> 'b Projection \<Rightarrow> string \<Rightarrow> string \<Rightarrow> pj_error + Event option" where
  "EventByIdempotency decode flt p c key =
     (if flt PjLookup then Inl PjReadFailed
      else case find (\<lambda>r. ix_computer r = c \<and> ix_key r = key) (pj_index p) of None \<Rightarrow> Inr None
      | Some r \<Rightarrow> if ix_status r \<noteq> StatusFinalized then Inl (PjNotFinalized (ix_status r))
          else case decode (ix_event r) of None \<Rightarrow> Inl PjEventUnreadable | Some e \<Rightarrow> Inr (Some e))"

definition EventByDigest :: "(string \<Rightarrow> Event option) \<Rightarrow> pj_fault \<Rightarrow> 'b Projection \<Rightarrow> string \<Rightarrow> string \<Rightarrow> pj_error + Event option" where
  "EventByDigest decode flt p c dg =
     (if flt PjLookup then Inl PjReadFailed
      else case find (\<lambda>r. ix_computer r = trimSpace c \<and> ix_digest r = trimSpace dg \<and> ix_status r = StatusFinalized) (pj_index p) of
        None \<Rightarrow> Inr None
      | Some r \<Rightarrow> (case decode (ix_event r) of None \<Rightarrow> Inl PjEventUnreadable | Some e \<Rightarrow> Inr (Some e)))"

definition EventReceiptByIdempotency :: "pj_fault \<Rightarrow> 'b Projection \<Rightarrow> string \<Rightarrow> string \<Rightarrow> pj_error + Receipt option" where
  "EventReceiptByIdempotency flt p c key =
     (if flt PjLookup then Inl PjReceiptUnavailable
      else case find (\<lambda>r. ix_computer r = c \<and> ix_key r = key) (pj_index p) of None \<Rightarrow> Inr None
      | Some r \<Rightarrow> (case ix_receipt r of None \<Rightarrow> Inl PjReceiptUnavailable
        | Some doc \<Rightarrow> if ix_status r \<noteq> StatusFinalized then Inl PjReceiptUnavailable
            else case Receipt_UnmarshalJSON doc of Inl _ \<Rightarrow> Inl PjReceiptUnavailable | Inr rc \<Rightarrow> Inr (Some rc)))"

definition DryRunProjectionBatch ::
  "pj_fault \<Rightarrow> (bool \<Rightarrow> 'b \<Rightarrow> ProjectionBatch \<Rightarrow> 'b option) \<Rightarrow> 'b Projection \<Rightarrow> ProjectionBatch \<Rightarrow> pj_error option" where
  "DryRunProjectionBatch flt project p b =
     (if flt PjBegin then Some PjBeginFailed
      else case project False (pj_tables p) b of None \<Rightarrow> Some PjProjectFailed | Some _ \<Rightarrow> None)"

section \<open>The invariant of the store\<close>

text \<open>The unique keys of the index, and: a finalized row is at or before the computer's head.\<close>

definition index_ok :: "IndexRow list \<Rightarrow> bool" where
  "index_ok ix \<longleftrightarrow> distinct (map ix_digest ix) \<and> distinct (map (\<lambda>r. (ix_computer r, ix_sequence r)) ix)
     \<and> distinct (map (\<lambda>r. (ix_computer r, ix_key r)) ix)"

definition row_settled :: "'b Projection \<Rightarrow> IndexRow \<Rightarrow> bool" where
  "row_settled p r \<longleftrightarrow> ix_status r = StatusFinalized \<and> (\<exists>h. pj_heads p (ix_computer r) = Some h \<and> ix_sequence r \<le> h_Sequence h)"

definition proj_inv :: "'b Projection \<Rightarrow> bool" where
  "proj_inv p \<longleftrightarrow> index_ok (pj_index p)
     \<and> (\<forall>r \<in> set (pj_index p). ix_sequence r \<noteq> 0 \<and> (ix_status r = StatusPrepared \<or> row_settled p r))"

lemma index_ok_snoc: "index_ok ix \<Longrightarrow> \<not> list_ex (index_clash row) ix \<Longrightarrow> index_ok (ix @ [row])"
  by (auto simp: index_ok_def index_clash_def list_ex_iff)

lemma index_ok_map:
  "(\<And>r. ix_digest (f r) = ix_digest r \<and> ix_computer (f r) = ix_computer r \<and> ix_sequence (f r) = ix_sequence r \<and> ix_key (f r) = ix_key r)
   \<Longrightarrow> index_ok (map f ix) = index_ok ix"
  by (simp add: index_ok_def comp_def)

lemma index_ok_filter: "index_ok ix \<Longrightarrow> index_ok (filter P ix)"
  by (simp add: index_ok_def distinct_map_filter)

lemma commitDoltCheckpoint_simps [simp]:
  "pj_heads (snd (commitDoltCheckpoint flt p)) = pj_heads p" "pj_index (snd (commitDoltCheckpoint flt p)) = pj_index p"
  "pj_tables (snd (commitDoltCheckpoint flt p)) = pj_tables p"
  by (simp_all add: commitDoltCheckpoint_def)

lemma after_finalize_simps [simp]:
  "pj_heads (snd (after_finalize flt legacy p)) = pj_heads p" "pj_index (snd (after_finalize flt legacy p)) = pj_index p"
  "pj_tables (snd (after_finalize flt legacy p)) = pj_tables p"
  by (simp_all add: after_finalize_def Let_def)

lemma Prepare_Inr:
  assumes "Prepare uuid7 sha flt p q = Inr p'"
  shows "Event_Digest uuid7 sha (rq_Event q) = Inr (EventDigest q) \<and> EventArtifactDigest q = EventDigest q
    \<and> pj_heads p' = pj_heads p \<and> pj_tables p' = pj_tables p
    \<and> (p' = p \<and> (\<exists>r \<in> set (pj_index p). ix_computer r = ev_ComputerID (rq_Event q) \<and> ix_digest r = EventDigest q
          \<and> ix_key r = IdempotencyKey (rq_Event q) \<and> ix_commitment r = RequestCommitment (rq_Event q))
       \<or> pj_index p' = pj_index p @ [index_row (bytes_of (rq_Event q)) q]
          \<and> \<not> list_ex (index_clash (index_row (bytes_of (rq_Event q)) q)) (pj_index p))"
proof -
  obtain body where b: "Event_CanonicalBytes uuid7 (rq_Event q) = Inr body" "sha body = EventDigest q" "EventArtifactDigest q = EventDigest q"
    using assms by (auto simp: Prepare_def Let_def split: sum.splits if_splits)
  then have d: "Event_Digest uuid7 sha (rq_Event q) = Inr (EventDigest q)" by (simp add: Event_Digest_def)
  have body: "body = bytes_of (rq_Event q)"
    using b(1) by (auto simp: Event_CanonicalBytes_def appendCanonical_Inr bytes_of_def split: option.splits sum.splits)
  show ?thesis
    using assms d b unfolding body
    by (auto simp: Prepare_def Let_def find_Some_iff split: sum.splits if_splits option.splits)
qed

lemma Prepare_inv [inv_intros]: "proj_inv p \<Longrightarrow> Prepare uuid7 sha flt p q = Inr p' \<Longrightarrow> proj_inv p'"
proof -
  assume inv: "proj_inv p" and pr: "Prepare uuid7 sha flt p q = Inr p'"
  note s = Prepare_Inr [OF pr]
  have "ev_Sequence (rq_Event q) \<noteq> 0" using s by (auto simp: Digest_Inr dest: Validate_None)
  then show ?thesis
    using inv s index_ok_snoc [of "pj_index p" "index_row (bytes_of (rq_Event q)) q"]
    by (auto simp: proj_inv_def row_settled_def index_row_def Let_def)
qed

lemma Discard_simps:
  "pj_heads (snd (DiscardPrepared flt p c dg)) = pj_heads p" "pj_tables (snd (DiscardPrepared flt p c dg)) = pj_tables p"
  "pj_index (snd (DiscardPrepared flt p c dg)) = (if flt PjDelete then pj_index p
     else filter (\<lambda>r. \<not> (ix_computer r = c \<and> ix_digest r = dg \<and> ix_status r = StatusPrepared)) (pj_index p))"
  by (simp_all add: DiscardPrepared_def)

lemma Discard_inv [inv_intros]: "proj_inv p \<Longrightarrow> proj_inv (snd (DiscardPrepared flt p c dg))"
  by (auto simp: proj_inv_def row_settled_def Discard_simps index_ok_filter)

text \<open>What a finalize that changes something does.\<close>

lemma finalize_transaction_Inr:
  assumes "finalize_transaction sha flt project p c dg doc rd batch legacy r = Inr p'"
  shows "pj_heads p' = (pj_heads p)(c \<mapsto> row_head c r)
    \<and> (case pj_heads p c of None \<Rightarrow> ix_sequence r = 1 \<and> ix_previous r = ZeroHead
       | Some h \<Rightarrow> ix_sequence r = h_Sequence h + 1 \<and> ix_previous r = CanonicalEventHead h)
    \<and> pj_index p' = map (\<lambda>x. if ix_computer x = c \<and> ix_digest x = dg \<and> ix_status x = StatusPrepared
         then x\<lparr>ix_status := StatusFinalized, ix_receipt := Some doc, ix_receipt_digest := rd\<rparr> else x) (pj_index p)
    \<and> Some (pj_tables p') = (case batch of None \<Rightarrow> Some (pj_tables p) | Some b \<Rightarrow> project legacy (pj_tables p) b)"
  using assms unfolding finalize_transaction_def Let_def by (auto split: if_splits option.splits)

lemma finalizeBatch_cases:
  obtains (unchanged) "snd (finalizeBatch sha flt project p c dg receipt batch legacy) = p"
  | (moved) r p' doc rd where "find (\<lambda>r. ix_computer r = c \<and> ix_digest r = dg) (pj_index p) = Some r" "ix_status r = StatusPrepared"
      "check_batch c dg (ix_kind r) batch = None"
      "finalize_transaction sha flt project p c dg doc rd batch legacy r = Inr p'"
      "finalizeBatch sha flt project p c dg receipt batch legacy = after_finalize flt legacy p'"
proof (cases "snd (finalizeBatch sha flt project p c dg receipt batch legacy) = p")
  case False
  then show thesis
    using moved by (auto simp: finalizeBatch_def Let_def split: option.splits if_splits sum.splits)
qed (use unchanged in blast)

lemma finalizeBatch_inv [inv_intros]:
  assumes inv: "proj_inv p"
  shows "proj_inv (snd (finalizeBatch sha flt project p c dg receipt batch legacy))"
proof (cases rule: finalizeBatch_cases [of sha flt project p c dg receipt batch legacy])
  case (moved r p' doc rd)
  note s = finalize_transaction_Inr [OF moved(4)]
  have r: "r \<in> set (pj_index p)" "ix_computer r = c" "ix_digest r = dg"
    using moved(1) by (auto simp: find_Some_iff)
  have nz: "ix_sequence r \<noteq> 0" using inv r(1) by (auto simp: proj_inv_def)
  have mono: "h_Sequence h < ix_sequence r" if "pj_heads p c = Some h" for h
    using s that nz word_less_succ [of "h_Sequence h"] by simp
  have uniq: "x = r" if "x \<in> set (pj_index p)" "ix_digest x = dg" for x
    using inv r that distinct_map_inj_eq [of ix_digest "pj_index p" x r] by (auto simp: proj_inv_def index_ok_def)
  have "row_settled p' x" if "row_settled p x" for x
    using that s mono by (auto simp: row_settled_def row_head_def dest!: order.strict_implies_order intro: order_trans)
  moreover have "row_settled p' (r\<lparr>ix_status := StatusFinalized, ix_receipt := Some doc, ix_receipt_digest := rd\<rparr>)"
    using s r(2) by (simp add: row_settled_def row_head_def)
  ultimately have "proj_inv p'"
    using inv s uniq unfolding proj_inv_def by (auto simp: index_ok_map)
  moreover have "proj_inv (snd (after_finalize flt legacy p')) = proj_inv p'" by (simp add: proj_inv_def row_settled_def)
  ultimately show ?thesis using moved(5) by simp
qed (use inv in simp)

section \<open>Any sequence of operations\<close>

datatype store_op = OpPrepare CASRequest pj_fault | OpFinalize string string Receipt "ProjectionBatch option" bool pj_fault
  | OpDiscard string string pj_fault

fun store_step :: "(string \<Rightarrow> bool) \<Rightarrow> hashing \<Rightarrow> (bool \<Rightarrow> 'b \<Rightarrow> ProjectionBatch \<Rightarrow> 'b option) \<Rightarrow> 'b Projection \<Rightarrow> store_op \<Rightarrow> 'b Projection" where
  "store_step uuid7 sha project p (OpPrepare q flt) = (case Prepare uuid7 sha flt p q of Inl _ \<Rightarrow> p | Inr p' \<Rightarrow> p')"
| "store_step uuid7 sha project p (OpFinalize c dg receipt batch legacy flt) = snd (finalizeBatch sha flt project p c dg receipt batch legacy)"
| "store_step uuid7 sha project p (OpDiscard c dg flt) = snd (DiscardPrepared flt p c dg)"

lemma finalizeBatch_forward:
  assumes "proj_inv p" "pj_heads p d = Some h"
  shows "\<exists>h'. pj_heads (snd (finalizeBatch sha flt project p c dg receipt batch legacy)) d = Some h' \<and> (h' = h \<or> h_Sequence h < h_Sequence h')"
proof (cases rule: finalizeBatch_cases [of sha flt project p c dg receipt batch legacy])
  case (moved r p' doc rd)
  note s = finalize_transaction_Inr [OF moved(4)]
  have "ix_sequence r \<noteq> 0" using assms(1) moved(1) by (auto simp: proj_inv_def find_Some_iff)
  then have "h_Sequence h < ix_sequence r" if "d = c"
    using s that assms(2) word_less_succ [of "h_Sequence h"] by simp
  then show ?thesis using s moved(5) assms(2) by (auto simp: row_head_def)
qed (use assms(2) in simp)

interpretation store: forward_heads pj_heads "store_step uuid7 sha project" proj_inv for uuid7 sha project
proof unfold_locales
  fix p :: "'a Projection" and x assume inv: "proj_inv p"
  show "proj_inv (store_step uuid7 sha project p x)"
    using inv by (cases x) (auto split: sum.splits intro: inv_intros)
  fix c h assume h: "pj_heads p c = Some h"
  show "\<exists>h'. pj_heads (store_step uuid7 sha project p x) c = Some h' \<and> (h' = h \<or> h_Sequence h < h_Sequence h')"
    using h finalizeBatch_forward [OF inv h] by (cases x) (auto split: sum.splits simp: Discard_simps dest: Prepare_Inr)
qed

section \<open>Properties\<close>

text \<open>The embedded projection keeps its invariant under every sequence of prepare, finalize and discard calls, with any
  faults, receipts and batches: digests, positions and keys stay unique, a row is prepared or it is finalized at or before
  its computer's head, and a head, once there, only moves to greater sequence numbers.\<close>

theorem projection_heads_move_forward:
  assumes "proj_inv p" "pj_heads p c = Some h"
  shows "proj_inv (foldl (store_step uuid7 sha project) p ops)
    \<and> (\<exists>h'. pj_heads (foldl (store_step uuid7 sha project) p ops) c = Some h' \<and> (h' = h \<or> h_Sequence h < h_Sequence h'))"
  using store.steps_good [OF assms(1)] store.heads_forward [OF assms] by blast

lemma row_head_index:
  assumes "h_ComputerID (rq_Next q) = ev_ComputerID (rq_Event q)" "h_Sequence (rq_Next q) = ev_Sequence (rq_Event q)"
    "CanonicalEventHead (rq_Next q) = EventDigest q"
  shows "row_head (ev_ComputerID (rq_Event q)) (index_row body q) = rq_Next q"
  using assms by (cases "rq_Next q") (simp add: row_head_def index_row_def Let_def)

lemma request_of_index_row:
  assumes "decode body = Some (published (rq_Event q))" "ComputePinIntentCommitment sha (rq_Event q) (rq_Input q) = Inr (PinIntentCommitment q)"
    and "h_ComputerID (rq_Next q) = ev_ComputerID (rq_Event q)" "h_Sequence (rq_Next q) = ev_Sequence (rq_Event q)"
    "CanonicalEventHead (rq_Next q) = EventDigest q"
  shows "request_of_row sha decode (index_row body q) = Inr (q\<lparr>rq_Event := published (rq_Event q)\<rparr>)"
proof -
  have i: "requestIntent (published (rq_Event q)) (rq_Input q) = requestIntent (rq_Event q) (rq_Input q)"
    by (simp add: requestIntent_def struct_json_def intent_fields_def event_fields_def)
  have n: "(row_head (ev_ComputerID (rq_Event q)) (index_row body q))\<lparr>h_Sequence := ev_Sequence (rq_Event q)\<rparr> = rq_Next q"
    unfolding row_head_index [OF assms(3-5)] using assms(4) by (cases "rq_Next q") simp
  have inp: "\<lparr>TargetStateCommitment = ix_target (index_row body q), RestoredPriorEffective = ix_restored (index_row body q)\<rparr> = rq_Input q"
    by (cases "rq_Input q") (simp add: index_row_def Let_def)
  have pin: "ComputePinIntentCommitment sha (published (rq_Event q)) (rq_Input q) = Inr (PinIntentCommitment q)"
    using assms(2) unfolding ComputePinIntentCommitment_def i .
  have ev: "ix_event (index_row body q) = body" by (simp add: index_row_def Let_def)
  show ?thesis
    unfolding request_of_row_def ev assms(1) option.case Let_def inp pin sum.case
    using n by (cases q) (simp add: index_row_def Let_def)
qed

lemma prepared_listing:
  assumes "Prepare uuid7 sha flt p q = Inr p'" "\<forall>r \<in> set (pj_index p). ix_computer r = ev_ComputerID (rq_Event q) \<longrightarrow> ix_status r \<noteq> StatusPrepared"
    and "\<forall>r \<in> set (pj_index p). ix_computer r = ev_ComputerID (rq_Event q) \<longrightarrow> ix_digest r \<noteq> EventDigest q"
    and "Reduce uuid7 sha g (rq_Event q) (rq_Input q) = Inr (rq_Next q)"
    and "ComputePinIntentCommitment sha (rq_Event q) (rq_Input q) = Inr (PinIntentCommitment q)"
    and "decode (bytes_of (rq_Event q)) = Some (published (rq_Event q))" "\<not> flt' PjList"
  shows "Prepared sha decode flt' p' (ev_ComputerID (rq_Event q)) = Inr [q\<lparr>rq_Event := published (rq_Event q)\<rparr>]"
proof -
  note s = Prepare_Inr [OF assms(1)] and ids = Reduce_ids [OF assms(4)]
  have ix: "pj_index p' = pj_index p @ [index_row (bytes_of (rq_Event q)) q]" using s assms(3) by auto
  have "filter (\<lambda>r. ix_computer r = ev_ComputerID (rq_Event q) \<and> ix_status r = StatusPrepared) (pj_index p') = [index_row (bytes_of (rq_Event q)) q]"
    using assms(2) unfolding ix by (auto simp: index_row_def Let_def filter_empty_conv)
  moreover have "request_of_row sha decode (index_row (bytes_of (rq_Event q)) q) = Inr (q\<lparr>rq_Event := published (rq_Event q)\<rparr>)"
    by (rule request_of_index_row [where decode = decode, OF assms(6,5)]) (use ids s in auto)
  ultimately show ?thesis using assms(7) by (simp add: Prepared_def go_sort_def)
qed

text \<open>A prepared request survives a restart: after preparing a request whose next head the reducer gives, in a store with no
  other prepared row of the computer, listing the prepared requests gives exactly that request back (less the caller's
  local flag), with the input, the next head and the pin intent it was prepared with.\<close>

theorem prepared_request_survives_restart:
  assumes "Prepare uuid7 sha flt p q = Inr p'" "\<forall>r \<in> set (pj_index p). ix_computer r = ev_ComputerID (rq_Event q) \<longrightarrow> ix_status r \<noteq> StatusPrepared"
    and "\<forall>r \<in> set (pj_index p). ix_computer r = ev_ComputerID (rq_Event q) \<longrightarrow> ix_digest r \<noteq> EventDigest q"
    and "Reduce uuid7 sha g (rq_Event q) (rq_Input q) = Inr (rq_Next q)"
    and "ComputePinIntentCommitment sha (rq_Event q) (rq_Input q) = Inr (PinIntentCommitment q)"
    and "decode (bytes_of (rq_Event q)) = Some (published (rq_Event q))" "\<not> flt' PjList"
  shows "Prepared sha decode flt' p' (ev_ComputerID (rq_Event q)) = Inr [q\<lparr>rq_Event := published (rq_Event q)\<rparr>]"
  using assms by (rule prepared_listing [where decode = decode])

section \<open>Witnesses\<close>

definition EmptyStore :: "(string \<rightharpoonup> Head) \<Rightarrow> unit Projection" where
  "EmptyStore heads = \<lparr>pj_heads = heads, pj_index = [], pj_tables = (), pj_since = 0, pj_every = 0, pj_dirty = False\<rparr>"

lemma EmptyStore_inv [simp]: "proj_inv (EmptyStore heads)"
  by (simp add: proj_inv_def EmptyStore_def index_ok_def)

lemma wit_swap_bytes: "Event_CanonicalBytes wit_uuid7 (rq_Event wit_swap) = Inr (bytes_of (rq_Event wit_swap))"
proof -
  have "appendCanonical (struct_json event_fields (rq_Event wit_swap)) = Inr (bytes_of (rq_Event wit_swap))"
    using wit_swap_text by (simp add: appendCanonical_Inr bytes_of_def event_printable intent_text_ok_def)
  then show ?thesis unfolding Event_CanonicalBytes_def wit_swap_valid by simp
qed

lemma wit_swap_prepared:
  "Prepare wit_uuid7 wit_sha256 (\<lambda>_. False) (EmptyStore heads) wit_swap
   = Inr ((EmptyStore heads)\<lparr>pj_index := [index_row (bytes_of (rq_Event wit_swap)) wit_swap], pj_dirty := True\<rparr>)"
  unfolding Prepare_def wit_swap_bytes Let_def sum.case wit_swap_fields by (simp add: EmptyStore_def wit_sha256_def)

theorem projection_heads_move_forward_witness:
  "\<exists>h'. pj_heads (foldl (store_step wit_uuid7 wit_sha256 (\<lambda>_ t _. Some t)) (EmptyStore [''c'' \<mapsto> wit_head])
      [OpPrepare wit_swap (\<lambda>_. False), OpDiscard ''c'' wit_digest (\<lambda>_. False)]) ''c'' = Some h' \<and> (h' = wit_head \<or> h_Sequence wit_head < h_Sequence h')"
proof -
  have h: "pj_heads (EmptyStore [''c'' \<mapsto> wit_head]) ''c'' = Some wit_head" by (simp add: EmptyStore_def)
  show ?thesis using projection_heads_move_forward [OF EmptyStore_inv h] by blast
qed

theorem prepared_request_survives_restart_witness:
  "\<exists>p'. Prepare wit_uuid7 wit_sha256 (\<lambda>_. False) (EmptyStore Map.empty) wit_swap = Inr p'
    \<and> Prepared wit_sha256 (\<lambda>_. Some (rq_Event wit_swap)) (\<lambda>_. False) p' ''c'' = Inr [wit_swap]"
proof -
  have pub: "published (rq_Event wit_swap) = rq_Event wit_swap" by (simp add: wit_swap_def wit_genesis_def)
  have pin: "ComputePinIntentCommitment wit_sha256 (rq_Event wit_swap) (rq_Input wit_swap) = Inr (PinIntentCommitment wit_swap)"
    using commitments_exist(1) [OF wit_swap_text, of wit_sha256] by (auto simp: wit_sha256_def wit_swap_fields)
  have "Prepared wit_sha256 (\<lambda>_. Some (rq_Event wit_swap)) (\<lambda>_. False)
      ((EmptyStore Map.empty)\<lparr>pj_index := [index_row (bytes_of (rq_Event wit_swap)) wit_swap], pj_dirty := True\<rparr>) ''c''
      = Inr [wit_swap\<lparr>rq_Event := published (rq_Event wit_swap)\<rparr>]"
    using prepared_request_survives_restart [OF wit_swap_prepared _ _ wit_swap_reduces pin, of Map.empty "\<lambda>_. Some (rq_Event wit_swap)" "\<lambda>_. False"]
      pub by (simp add: EmptyStore_def wit_swap_fields)
  moreover have "wit_swap\<lparr>rq_Event := published (rq_Event wit_swap)\<rparr> = wit_swap" unfolding pub by simp
  ultimately show ?thesis using wit_swap_prepared by simp
qed

end
