(* ===== verification/Event_Replay.thy ===== *)
theory Event_Replay
  imports Event_CAS
begin

text \<open>
  Reading the durable chain back (\<^verbatim>\<open>src/internal/platform/event_replay.go\<close>). The append rows hold digests and heads; the
  event itself is read from the artifact file its digest names, and the input of its transition is
  inferred from its kind and the head that resulted. Event bytes are decoded with \<^verbatim>\<open>encoding/json\<close>, which
  enters as the function \<open>decode\<close>; what is relied on is that it reads canonical event bytes back.
\<close>

section \<open>Replay pages\<close>

record DurableEvent =
  de_Request :: CASRequest
  de_Receipt :: Receipt

datatype replay_error = ReplayArguments | ReplayQuery | ReplayArtifact uint64 | ReplayRead uint64 | ReplayDigest uint64
  | ReplayDecode uint64 | ReplayIndex uint64 | ReplayReceipt uint64 | ReplayReceiptDigest uint64 | ReplayIntent uint64

definition EventReplayMaxPageSize :: int where
  "EventReplayMaxPageSize = 2048"

definition replayTransitionInput :: "EventKind \<Rightarrow> Head \<Rightarrow> TransitionInput" where
  "replayTransitionInput kind nxt =
     (if kind \<in> {EventGenesisImported, EventEffectAccepted, EventRollbackRequested, EventResearcherUpdate}
      then \<lparr>TargetStateCommitment = DesiredStateCommitment nxt, RestoredPriorEffective = False\<rparr>
      else if kind = EventMaterializationFailed then \<lparr>TargetStateCommitment = [], RestoredPriorEffective = True\<rparr>
      else \<lparr>TargetStateCommitment = [], RestoredPriorEffective = False\<rparr>)"

text \<open>One row of the page, with the credential epoch before it; the result carries the epoch after it.\<close>

definition durable_event ::
  "hashing \<Rightarrow> (string \<Rightarrow> Event option) \<Rightarrow> (string \<Rightarrow> string option) \<Rightarrow> string \<Rightarrow> uint64 \<Rightarrow> AppendRow \<Rightarrow> replay_error + DurableEvent \<times> uint64" where
  "durable_event sha decode file c epoch row =
     (let sq = ar_sequence row in
      if ar_artifact row \<noteq> ar_digest row then Inl (ReplayArtifact sq)
      else case file (ar_artifact row) of None \<Rightarrow> Inl (ReplayRead sq)
      | Some body \<Rightarrow> if sha body \<noteq> ar_digest row then Inl (ReplayDigest sq)
        else case decode body of None \<Rightarrow> Inl (ReplayDecode sq)
        | Some e \<Rightarrow> if ev_Sequence e \<noteq> sq \<or> ev_ComputerID e \<noteq> c then Inl (ReplayIndex sq)
          else case Receipt_UnmarshalJSON (ar_receipt row) of Inl _ \<Rightarrow> Inl (ReplayReceipt sq)
          | Inr receipt \<Rightarrow> (case Receipt_CanonicalBytes receipt of Inl _ \<Rightarrow> Inl (ReplayReceiptDigest sq)
            | Inr rb \<Rightarrow> if sha rb \<noteq> ar_receipt_digest row then Inl (ReplayReceiptDigest sq)
              else let epoch' = (if ev_Kind e = EventKeyRevoked then epoch + 1 else epoch);
                       nxt = \<lparr>h_ComputerID = c, h_Sequence = sq, CanonicalEventHead = ar_digest row, DesiredEventHead = ar_desired row,
                              EffectiveEventHead = ar_effective row, PendingTransitionRef = ar_pending row,
                              DesiredStateCommitment = ar_desired_state row, EffectiveStateCommitment = ar_effective_state row,
                              h_ReducerVersion = ev_ReducerVersion e, CredentialRevocationEpoch = epoch'\<rparr>;
                       inp = replayTransitionInput (ev_Kind e) nxt in
                (case ComputePinIntentCommitment sha e inp of Inl _ \<Rightarrow> Inl (ReplayIntent sq)
                 | Inr pin \<Rightarrow> Inr (\<lparr>de_Request = \<lparr>rq_Event = e, EventDigest = ar_digest row, EventArtifactDigest = ar_artifact row,
                     EventPinReceiptDigest = ar_pin row, PayloadPinReceiptDigests = ar_pins row, PinIntentCommitment = pin,
                     rq_Input = inp, rq_Next = nxt\<rparr>, de_Receipt = receipt\<rparr>, epoch'))))"

fun durable_events ::
  "hashing \<Rightarrow> (string \<Rightarrow> Event option) \<Rightarrow> (string \<Rightarrow> string option) \<Rightarrow> string \<Rightarrow> uint64 \<Rightarrow> AppendRow list \<Rightarrow> replay_error + DurableEvent list" where
  "durable_events sha decode file c epoch [] = Inr []"
| "durable_events sha decode file c epoch (row # rows) =
     rbind (durable_event sha decode file c epoch row) (\<lambda>(d, epoch').
     rbind (durable_events sha decode file c epoch' rows) (\<lambda>ds. Inr (d # ds)))"

definition EventsPage ::
  "hashing \<Rightarrow> (string \<Rightarrow> Event option) \<Rightarrow> (string \<Rightarrow> string option) \<Rightarrow> bool \<Rightarrow> EventTables \<Rightarrow> string \<Rightarrow> uint64 \<Rightarrow> int
    \<Rightarrow> replay_error + DurableEvent list" where
  "EventsPage sha decode file failed t c afterSequence pageSize =
     (if c = [] \<or> pageSize \<le> 0 \<or> pageSize > EventReplayMaxPageSize then Inl ReplayArguments
      else if failed then Inl ReplayQuery
      else let epoch = (if afterSequence > 0
             then of_nat (length (filter (\<lambda>r. ar_sequence r \<le> afterSequence \<and> ar_kind r = EventKeyRevoked) (rows_of t c))) else 0) in
        durable_events sha decode file c epoch
          (take (nat pageSize) (go_sort ar_sequence (filter (\<lambda>r. ar_sequence r > afterSequence) (rows_of t c)))))"

section \<open>The inferred input gives the same transition\<close>

lemma replay_input_same:
  assumes "Reduce uuid7 sha cur e i = Inr n"
  shows "Reduce uuid7 sha cur (published e) (replayTransitionInput (ev_Kind e) n) = Inr n"
proof -
  have v: "Event_Validate uuid7 (published e) = Event_Validate uuid7 e" by (simp add: Event_Validate_def)
  have b: "struct_json event_fields (published e) = struct_json event_fields e" by (simp add: struct_json_def event_fields_def)
  have d: "Event_Digest uuid7 sha (published e) = Event_Digest uuid7 sha e"
    unfolding Event_Digest_def Event_CanonicalBytes_def v b by (rule refl)
  show ?thesis
  proof (cases cur)
    case None
    then show ?thesis
      using assms unfolding Reduce_def v d by (auto simp: reduceGenesis_def replayTransitionInput_def split: option.splits sum.splits if_splits)
  next
    case (Some c)
    note s = Reduce_Some [OF assms [unfolded Some]]
    let ?dg = "sha (bytes_of e)" and ?nx = "c\<lparr>h_Sequence := ev_Sequence e, CanonicalEventHead := sha (bytes_of e)\<rparr>"
    have k: "reduce_kind c ?nx e ?dg i = Inr n" using s by blast
    have "reduce_kind c ?nx (published e) ?dg (replayTransitionInput (ev_Kind e) n) = Inr n"
    proof -
      consider (target) "ev_Kind e = EventEffectAccepted \<or> ev_Kind e = EventRollbackRequested \<or> ev_Kind e = EventResearcherUpdate"
        | (failed) "ev_Kind e = EventMaterializationFailed"
        | (other) "ev_Kind e \<noteq> EventEffectAccepted" "ev_Kind e \<noteq> EventRollbackRequested" "ev_Kind e \<noteq> EventResearcherUpdate"
            "ev_Kind e \<noteq> EventMaterializationFailed" by blast
      then show ?thesis
      proof cases
        case target
        then show ?thesis
          using k by (elim disjE) (simp_all add: reduce_kind_def replayTransitionInput_def split: if_splits, auto)
      next
        case failed
        then show ?thesis using k by (simp add: reduce_kind_def replayTransitionInput_def split: if_splits)
      next
        case other
        then have "reduce_kind c ?nx (published e) ?dg (replayTransitionInput (ev_Kind e) n) = reduce_kind c ?nx e ?dg i"
          by (simp add: reduce_kind_def cong: if_cong)
        then show ?thesis using k by simp
      qed
    qed
    then show ?thesis using assms s unfolding Some Reduce_def v d by (auto split: option.splits sum.splits if_splits)
  qed
qed

section \<open>A page holds the recorded requests\<close>

definition replayed :: "hashing \<Rightarrow> CASRequest \<Rightarrow> CASRequest" where
  "replayed sha q =
     (let e = published (rq_Event q); inp = replayTransitionInput (ev_Kind e) (rq_Next q) in
      q\<lparr>rq_Event := e, rq_Input := inp, PinIntentCommitment := (case ComputePinIntentCommitment sha e inp of Inl _ \<Rightarrow> [] | Inr pin \<Rightarrow> pin)\<rparr>)"

text \<open>What a reader needs of a recorded request: its event file is there and decodes, and its texts are valid.\<close>

definition row_readable ::
  "CASEnv \<Rightarrow> (string \<Rightarrow> Event option) \<Rightarrow> (string \<Rightarrow> string option) \<Rightarrow> AppendRow \<Rightarrow> CASRequest \<Rightarrow> bool" where
  "row_readable env decode file row q \<longleftrightarrow>
     (\<exists>r doc body. issued_for env q r \<and> receipt_text_ok r \<and> Receipt_values True r = Inr doc \<and> Receipt_CanonicalBytes r = Inr body
        \<and> row = append_row (ce_sha env) q r doc body)
     \<and> EventDigest q = ce_sha env (bytes_of (rq_Event q)) \<and> admit_request env q = None
     \<and> file (EventDigest q) = Some (bytes_of (rq_Event q)) \<and> decode (bytes_of (rq_Event q)) = Some (published (rq_Event q))
     \<and> event_text_ok (rq_Event q) \<and> view_text_ok q"

definition epoch_of :: "Head option \<Rightarrow> uint64" where
  "epoch_of g = (case g of None \<Rightarrow> 0 | Some h \<Rightarrow> CredentialRevocationEpoch h)"

lemma Reduce_epoch:
  assumes "Reduce uuid7 sha g e i = Inr n"
  shows "CredentialRevocationEpoch n = (if ev_Kind e = EventKeyRevoked then epoch_of g + 1 else epoch_of g)"
proof (cases g)
  case None
  then show ?thesis
    using Reduce_None [of uuid7 sha e i n] assms by (auto simp: reduceGenesis_def epoch_of_def split: if_splits)
next
  case (Some c)
  note s = Reduce_Some [OF assms [unfolded Some]]
  have "reduce_kind c (c\<lparr>h_Sequence := ev_Sequence e, CanonicalEventHead := sha (bytes_of e)\<rparr>) e (sha (bytes_of e)) i = Inr n"
    using s by blast
  then show ?thesis unfolding Some reduce_kind_def epoch_of_def by (auto split: if_splits)
qed

lemma replayed_simps [simp]:
  "rq_Event (replayed sha q) = published (rq_Event q)" "rq_Next (replayed sha q) = rq_Next q" "EventDigest (replayed sha q) = EventDigest q"
  "rq_Input (replayed sha q) = replayTransitionInput (ev_Kind (rq_Event q)) (rq_Next q)"
  "head_receipt_fields (replayed sha q) = head_receipt_fields q" "EventArtifactDigest (replayed sha q) = EventArtifactDigest q"
  by (simp_all add: replayed_def Let_def head_receipt_fields_def)

lemma durable_event_row:
  assumes row: "row_readable env decode file row q"
    and red: "Reduce (ce_uuid7 env) (ce_sha env) g (rq_Event q) (rq_Input q) = Inr (rq_Next q)"
    and c: "c = ev_ComputerID (rq_Event q)"
  shows "\<exists>r. issued_for env q r \<and> durable_event (ce_sha env) decode file c (epoch_of g) row
    = Inr (\<lparr>de_Request = replayed (ce_sha env) q, de_Receipt = stored_form r\<rparr>, CredentialRevocationEpoch (rq_Next q))"
proof -
  let ?e = "rq_Event q" and ?n = "rq_Next q"
  obtain r doc body where r: "issued_for env q r" "Receipt_values True r = Inr doc" "Receipt_CanonicalBytes r = Inr body"
      "row = append_row (ce_sha env) q r doc body" "EventDigest q = ce_sha env (bytes_of ?e)" "admit_request env q = None"
    and t: "file (EventDigest q) = Some (bytes_of ?e)" "decode (bytes_of ?e) = Some (published ?e)" "event_text_ok ?e" "view_text_ok q"
      "receipt_text_ok r"
    using row unfolding row_readable_def by blast
  have art: "EventArtifactDigest q = EventDigest q" using r(6) by (auto simp: admit_request_def split: if_splits)
  have dec: "Receipt_UnmarshalJSON doc = Inr (stored_form r)" by (rule decode_stored [OF r(2) t(5)])
  have cb: "Receipt_CanonicalBytes (stored_form r) = Inr body"
    using stored_binds [OF r(1,3) t(4)] by blast
  note ids = Reduce_ids [OF red] and ep = Reduce_epoch [OF red]
  have "ValidString (TargetStateCommitment (replayTransitionInput (ev_Kind ?e) ?n))"
    using t(4) by (simp add: replayTransitionInput_def view_text_ok_def receipt_view_def ValidString_def byte_codes_def)
  then have "intent_text_ok (published ?e) (replayTransitionInput (ev_Kind ?e) ?n) []"
    using t(3) by (simp add: intent_text_ok_def event_text_ok_def)
  then obtain b where pin: "ComputePinIntentCommitment (ce_sha env) (published ?e) (replayTransitionInput (ev_Kind ?e) ?n) = Inr (ce_sha env b)"
    using commitments_exist(1) by blast
  have f: "ar_artifact row = ar_digest row" "ar_digest row = EventDigest q" "ar_receipt row = doc" "ar_receipt_digest row = ce_sha env body"
      "ar_sequence row = ev_Sequence ?e" "ar_pin row = EventPinReceiptDigest q" "ar_pins row = PayloadPinReceiptDigests q"
    using r(4) art by (simp_all add: append_row_def)
  have nxt: "\<lparr>h_ComputerID = c, h_Sequence = ev_Sequence ?e, CanonicalEventHead = EventDigest q, DesiredEventHead = ar_desired row,
      EffectiveEventHead = ar_effective row, PendingTransitionRef = ar_pending row,
      DesiredStateCommitment = ar_desired_state row, EffectiveStateCommitment = ar_effective_state row,
      h_ReducerVersion = ev_ReducerVersion ?e, CredentialRevocationEpoch = CredentialRevocationEpoch ?n\<rparr> = ?n"
    using ids r(4,5) c by (cases ?n) (simp add: append_row_def)
  have five: "ce_sha env (bytes_of ?e) = EventDigest q" and ep': "(if ev_Kind ?e = EventKeyRevoked then epoch_of g + 1 else epoch_of g) = CredentialRevocationEpoch ?n"
    using r(5) ep by simp_all
  have "durable_event (ce_sha env) decode file c (epoch_of g) row
      = Inr (\<lparr>de_Request = \<lparr>rq_Event = published ?e, EventDigest = EventDigest q, EventArtifactDigest = EventDigest q,
          EventPinReceiptDigest = EventPinReceiptDigest q, PayloadPinReceiptDigests = PayloadPinReceiptDigests q,
          PinIntentCommitment = ce_sha env b, rq_Input = replayTransitionInput (ev_Kind ?e) ?n, rq_Next = ?n\<rparr>,
        de_Receipt = stored_form r\<rparr>, CredentialRevocationEpoch ?n)"
    by (simp add: durable_event_def Let_def f t(1,2) five dec cb c [symmetric] ep' nxt pin del: if_split)
  moreover have "replayed (ce_sha env) q = \<lparr>rq_Event = published ?e, EventDigest = EventDigest q, EventArtifactDigest = EventDigest q,
          EventPinReceiptDigest = EventPinReceiptDigest q, PayloadPinReceiptDigests = PayloadPinReceiptDigests q,
          PinIntentCommitment = ce_sha env b, rq_Input = replayTransitionInput (ev_Kind ?e) ?n, rq_Next = ?n\<rparr>"
    using pin art by (cases q) (simp add: replayed_def Let_def)
  ultimately show ?thesis using r(1) by auto
qed

definition record_for :: "CASEnv \<Rightarrow> DurableEvent \<Rightarrow> CASRequest \<Rightarrow> bool" where
  "record_for env d q \<longleftrightarrow> de_Request d = replayed (ce_sha env) q \<and> (\<exists>r. issued_for env q r \<and> de_Receipt d = stored_form r)"

lemma durable_events_chain:
  assumes "run_steps (link env) g qs = Inr h" "list_all2 (row_readable env decode file) rows qs"
    and "\<forall>q \<in> set qs. ev_ComputerID (rq_Event q) = c"
  shows "\<exists>ds. durable_events (ce_sha env) decode file c (epoch_of g) rows = Inr ds \<and> list_all2 (record_for env) ds qs"
  using assms(2,1,3)
proof (induction rows qs arbitrary: g rule: list_all2_induct)
  case (Cons row rows q qs)
  have red: "Reduce (ce_uuid7 env) (ce_sha env) g (rq_Event q) (rq_Input q) = Inr (rq_Next q)"
    and rest: "run_steps (link env) (Some (rq_Next q)) qs = Inr h"
    using Cons.prems(1) by (auto simp: link_def [of env g q] split: if_splits)
  obtain r where r: "issued_for env q r" "durable_event (ce_sha env) decode file c (epoch_of g) row
      = Inr (\<lparr>de_Request = replayed (ce_sha env) q, de_Receipt = stored_form r\<rparr>, CredentialRevocationEpoch (rq_Next q))"
    using durable_event_row [OF Cons.hyps(1) red, of c] Cons.prems(2) by auto
  obtain ds where ds: "durable_events (ce_sha env) decode file c (CredentialRevocationEpoch (rq_Next q)) rows = Inr ds"
      "list_all2 (record_for env) ds qs"
    using Cons.IH [OF rest] Cons.prems(2) by (auto simp: epoch_of_def)
  have "record_for env \<lparr>de_Request = replayed (ce_sha env) q, de_Receipt = stored_form r\<rparr> q" using r(1) by (auto simp: record_for_def)
  then show ?case using r ds by auto
qed simp

lemma chain_positions: "chain env qs = Inr h \<Longrightarrow> map (\<lambda>q. unat (ev_Sequence (rq_Event q))) qs = [1..<Suc (length qs)]"
proof (induction qs arbitrary: h rule: rev_induct)
  case (snoc q qs)
  then obtain g where g: "chain env qs = Inr g" "Reduce (ce_uuid7 env) (ce_sha env) g (rq_Event q) (rq_Input q) = Inr (rq_Next q)"
      "h = Some (rq_Next q)"
    by (auto simp: chain_snoc)
  have "unat (h_Sequence (rq_Next q)) = Suc (length qs)"
    using replay_sequence [OF chain_replay [OF snoc.prems [unfolded g(3)]]] by (simp add: tape_of_def)
  then show ?case using snoc.IH [OF g(1)] Reduce_ids [OF g(2)] by simp
qed simp

lemma chain_epoch:
  "chain env qs = Inr h \<Longrightarrow> epoch_of h = of_nat (length (filter (\<lambda>q. ev_Kind (rq_Event q) = EventKeyRevoked) qs))"
proof (induction qs arbitrary: h rule: rev_induct)
  case (snoc q qs)
  then obtain g where g: "chain env qs = Inr g" "Reduce (ce_uuid7 env) (ce_sha env) g (rq_Event q) (rq_Input q) = Inr (rq_Next q)"
      "h = Some (rq_Next q)"
    by (auto simp: chain_snoc)
  have "epoch_of h = (if ev_Kind (rq_Event q) = EventKeyRevoked then epoch_of g + 1 else epoch_of g)"
    unfolding g(3) using Reduce_epoch [OF g(2)] by (simp add: epoch_of_def [of "Some _"])
  then show ?case using snoc.IH [OF g(1)] by (simp add: add.commute)
qed (simp add: epoch_of_def)

text \<open>Rows numbered one after the other split at a number.\<close>

lemma split_numbered:
  fixes f :: "'a \<Rightarrow> 'w :: len word"
  assumes "map (\<lambda>x. unat (f x)) xs = [Suc m..<Suc (m + length xs)]"
  shows "filter (\<lambda>x. f x \<le> a) xs = take (unat a - m) xs \<and> filter (\<lambda>x. a < f x) xs = drop (unat a - m) xs"
  using assms
proof (induction xs arbitrary: m)
  case (Cons x xs)
  have x: "unat (f x) = Suc m" and xs: "map (\<lambda>x. unat (f x)) xs = [Suc (Suc m)..<Suc (Suc m + length xs)]"
    using Cons.prems upt_conv_Cons [of "Suc m" "Suc (m + length (x # xs))"] by (simp_all del: upt_Suc)
  show ?case
  proof (cases "f x \<le> a")
    case True
    then have "unat a - m = Suc (unat a - Suc m)" using x by (simp add: word_le_nat_alt)
    then show ?thesis using True Cons.IH [OF xs] by (simp add: leD)
  next
    case False
    then have "unat a - m = 0" "unat a - Suc m = 0" using x by (simp_all add: word_le_nat_alt)
    then show ?thesis using False Cons.IH [OF xs] by (simp add: not_le)
  qed
qed simp

lemma numbered_sorted:
  fixes f :: "'a \<Rightarrow> 'w :: len word"
  assumes "map (\<lambda>x. unat (f x)) xs = [Suc m..<Suc (m + length xs)]"
  shows "sorted (map f xs)"
proof -
  have "sorted (map (\<lambda>x. unat (f x)) xs)" unfolding assms by (rule sorted_upt)
  then show ?thesis by (simp add: sorted_map word_le_nat_alt)
qed

lemma rows_positions:
  assumes "history env t c qs"
  shows "map (\<lambda>r. unat (ar_sequence r)) (rows_of t c) = [1..<Suc (length (rows_of t c))]"
    and "\<forall>q \<in> set qs. ev_ComputerID (rq_Event q) = c" and "length qs = length (rows_of t c)"
    and "length (filter (\<lambda>r. ar_kind r = EventKeyRevoked) (take k (rows_of t c))) = length (filter (\<lambda>q. ev_Kind (rq_Event q) = EventKeyRevoked) (take k qs))"
proof -
  have l: "list_all2 (row_for env) (rows_of t c) qs" and ch: "chain env qs = Inr (event_heads t c)"
    using assms by (simp_all add: history_def)
  then show len: "length qs = length (rows_of t c)" by (simp add: list_all2_lengthD)
  have s: "list_all2 (row_for env) rows qs' \<Longrightarrow> map ar_sequence rows = map (\<lambda>q. ev_Sequence (rq_Event q)) qs'
      \<and> map ar_kind rows = map (\<lambda>q. ev_Kind (rq_Event q)) qs' \<and> map ar_computer rows = map (\<lambda>q. ev_ComputerID (rq_Event q)) qs'" for rows qs'
    by (induction rows qs' rule: list_all2_induct) (auto simp: row_for_def)
  have "map (\<lambda>r. unat (ar_sequence r)) (rows_of t c) = map unat (map ar_sequence (rows_of t c))" by (simp add: comp_def)
  also have "\<dots> = [1..<Suc (length (rows_of t c))]" using s [OF l] chain_positions [OF ch] len by (simp add: comp_def)
  finally show "map (\<lambda>r. unat (ar_sequence r)) (rows_of t c) = [1..<Suc (length (rows_of t c))]" .
  have "set (map ar_computer (rows_of t c)) \<subseteq> {c}" by auto
  then have "set (map (\<lambda>q. ev_ComputerID (rq_Event q)) qs) \<subseteq> {c}" using s [OF l] by metis
  then show "\<forall>q \<in> set qs. ev_ComputerID (rq_Event q) = c" by auto
  have "map ar_kind (take k (rows_of t c)) = map (\<lambda>q. ev_Kind (rq_Event q)) (take k qs)"
    unfolding take_map [symmetric] using s [OF l] by simp
  then have "length (filter (\<lambda>x. x = EventKeyRevoked) (map ar_kind (take k (rows_of t c))))
      = length (filter (\<lambda>x. x = EventKeyRevoked) (map (\<lambda>q. ev_Kind (rq_Event q)) (take k qs)))" by simp
  then show "length (filter (\<lambda>r. ar_kind r = EventKeyRevoked) (take k (rows_of t c))) = length (filter (\<lambda>q. ev_Kind (rq_Event q) = EventKeyRevoked) (take k qs))"
    by (simp add: filter_map comp_def)
qed

lemma chain_take: "chain env qs = Inr h \<Longrightarrow> \<exists>g. chain env (take k qs) = Inr g \<and> run_steps (link env) g (drop k qs) = Inr h"
  using run_steps_append [of "link env" None "take k qs" "drop k qs"] by (auto simp: chain_def split: sum.splits)

lemma run_steps_take: "run_steps f s es = Inr t \<Longrightarrow> \<exists>u. run_steps f s (take n es) = Inr u"
  using run_steps_append [of f s "take n es" "drop n es"] by (auto split: sum.splits)

lemma chain_replayed: "chain env qs = Inr h \<Longrightarrow> chain env (map (replayed (ce_sha env)) qs) = Inr h"
proof (induction qs arbitrary: h rule: rev_induct)
  case (snoc q qs)
  then show ?case by (auto simp: chain_snoc intro!: replay_input_same)
qed simp

section \<open>Properties\<close>

lemma durable_event_receipt: "durable_event sha decode file c ep row = Inr (d, ep') \<Longrightarrow> Receipt_UnmarshalJSON (ar_receipt row) = Inr (de_Receipt d)"
  by (auto simp: durable_event_def Let_def split: if_splits option.splits sum.splits)

lemma durable_receipts:
  "durable_events sha decode file c ep rows = Inr ds \<Longrightarrow>
   list_all2 (\<lambda>d row. Receipt_UnmarshalJSON (ar_receipt row) = Inr (de_Receipt d)) ds rows"
proof (induction rows arbitrary: ep ds)
  case (Cons row rows)
  then obtain d ep' ds' where "durable_event sha decode file c ep row = Inr (d, ep')" "durable_events sha decode file c ep' rows = Inr ds'" "ds = d # ds'"
    by (auto simp: rbind_Inr_iff)
  then show ?case using Cons.IH durable_event_receipt by simp
qed simp

lemma page_replays:
  assumes "history env t c qs" "list_all2 (row_readable env decode file) (rows_of t c) qs"
    and "c \<noteq> []" "0 < n" "n \<le> EventReplayMaxPageSize"
  shows "\<exists>ds. EventsPage (ce_sha env) decode file False t c a n = Inr ds
      \<and> list_all2 (record_for env) ds (take (nat n) (drop (unat a) qs))
      \<and> list_all2 (\<lambda>d row. Receipt_UnmarshalJSON (ar_receipt row) = Inr (de_Receipt d)) ds (take (nat n) (drop (unat a) (rows_of t c)))"
proof -
  have ch: "chain env qs = Inr (event_heads t c)" using assms(1) by (simp add: history_def)
  obtain g where g: "chain env (take (unat a) qs) = Inr g" "run_steps (link env) g (drop (unat a) qs) = Inr (event_heads t c)"
    using chain_take [OF ch] by blast
  obtain h where h: "run_steps (link env) g (take (nat n) (drop (unat a) qs)) = Inr h" using run_steps_take [OF g(2)] by blast
  note pos = rows_positions [OF assms(1)]
  have num: "map (\<lambda>r. unat (ar_sequence r)) (rows_of t c) = [Suc 0..<Suc (0 + length (rows_of t c))]" using pos(1) by simp
  have sp: "filter (\<lambda>r. ar_sequence r \<le> a) (rows_of t c) = take (unat a) (rows_of t c)"
      "filter (\<lambda>r. a < ar_sequence r) (rows_of t c) = drop (unat a) (rows_of t c)"
    using split_numbered [OF num, of a] by simp_all
  have srt: "go_sort ar_sequence (drop (unat a) (rows_of t c)) = drop (unat a) (rows_of t c)"
    using numbered_sorted [OF num] by (simp add: go_sort_id drop_map [symmetric] sorted_wrt_drop)
  have "filter (\<lambda>r. ar_sequence r \<le> a \<and> ar_kind r = EventKeyRevoked) (rows_of t c)
      = filter (\<lambda>r. ar_kind r = EventKeyRevoked) (take (unat a) (rows_of t c))"
    unfolding sp(1) [symmetric] filter_filter by (rule filter_cong) auto
  then have ep: "(if a > 0 then of_nat (length (filter (\<lambda>r. ar_sequence r \<le> a \<and> ar_kind r = EventKeyRevoked) (rows_of t c))) else 0)
      = epoch_of g"
    using chain_epoch [OF g(1)] pos(4) [of "unat a"] by (cases "a = 0") (simp_all add: word_gt_0)
  have "list_all2 (row_readable env decode file) (take (nat n) (drop (unat a) (rows_of t c))) (take (nat n) (drop (unat a) qs))"
    using assms(2) by (simp add: list_all2_takeI list_all2_dropI)
  moreover have "\<forall>q \<in> set (take (nat n) (drop (unat a) qs)). ev_ComputerID (rq_Event q) = c"
    using pos(2) by (meson in_set_dropD in_set_takeD)
  ultimately obtain ds where "durable_events (ce_sha env) decode file c (epoch_of g) (take (nat n) (drop (unat a) (rows_of t c))) = Inr ds"
      "list_all2 (record_for env) ds (take (nat n) (drop (unat a) qs))"
    using durable_events_chain [OF h] by blast
  then show ?thesis
    using assms(3-5) ep sp(2) srt durable_receipts unfolding EventsPage_def Let_def by (simp only: ep) simp
qed

text \<open>C31: a replay page is the recorded history: for a computer whose recorded events are readable, the page after a sequence
  number holds, in order and without gaps, the next recorded requests up to the page size, with the heads the platform
  computed when it accepted them; and the requests as replayed, with inferred inputs and recounted credential epochs, link
  from nothing to the platform's head.\<close>

theorem events_page_replays_history:
  assumes "history env t c qs" "list_all2 (row_readable env decode file) (rows_of t c) qs"
    and "c \<noteq> []" "0 < n" "n \<le> EventReplayMaxPageSize"
  shows "\<exists>ds. EventsPage (ce_sha env) decode file False t c a n = Inr ds
      \<and> list_all2 (record_for env) ds (take (nat n) (drop (unat a) qs))
    \<and> chain env (map (replayed (ce_sha env)) qs) = Inr (event_heads t c)"
proof -
  have "chain env qs = Inr (event_heads t c)" using assms(1) by (simp add: history_def)
  then show ?thesis using page_replays [OF assms, of a] chain_replayed by blast
qed

section \<open>Witnesses\<close>

lemma wit_swap_row:
  obtains r doc body t where "CompareAndSwap wit_env (\<lambda>_. False) ''u'' wit_time NoEvents wit_swap = (Inr r, t)"
    "append_rows t = [append_row wit_sha256 wit_swap r doc body]" "event_heads t = [''c'' \<mapsto> wit_head]"
    "issued_for wit_env wit_swap r" "receipt_text_ok r" "Receipt_values True r = Inr doc" "Receipt_CanonicalBytes r = Inr body"
    "NewSignedReceipt wit_scheme_text ''u'' ''EventHeadReceipt'' ''corpusd'' (head_receipt_fields wit_swap) [wit_key] wit_time = Inr r"
proof -
  obtain r t where t: "CompareAndSwap wit_env (\<lambda>_. False) ''u'' wit_time NoEvents wit_swap = (Inr r, t)" "event_heads t = [''c'' \<mapsto> wit_head]"
    using wit_swapped by blast
  have ne: "snd (CompareAndSwap wit_env (\<lambda>_. False) ''u'' wit_time NoEvents wit_swap) \<noteq> NoEvents"
    using t(1) fun_cong [OF t(2), of "''c''"] by (auto simp: NoEvents_def)
  have tr: "cas_transaction wit_env (\<lambda>_. False) ''u'' wit_time NoEvents wit_swap = Inr (r, t)"
    using ne t(1) by (cases rule: CompareAndSwap_cases [of wit_env "\<lambda>_. False" "''u''" wit_time NoEvents wit_swap]) auto
  have iss: "NewSignedReceipt wit_scheme_text ''u'' ''EventHeadReceipt'' ''corpusd'' (head_receipt_fields wit_swap) [wit_key] wit_time = Inr r"
    using tr unfolding cas_transaction_def readComputerEventHead_def wit_env_sha
    by (auto simp: rbind_Inr_iff split: if_splits sum.splits)
  have "receipt_text_ok r" by (rule issued_text_ok [OF iss wit_scheme_text_ok(2) wit_issue_args(2-4)])
  then show thesis
    using cas_transaction_Inr [OF tr] that t iss by (auto simp: wit_env_sha NoEvents_def)
qed

lemma wit_chain:
  obtains r doc body t where "CompareAndSwap wit_env (\<lambda>_. False) ''u'' wit_time NoEvents wit_swap = (Inr r, t)"
    "history wit_env t ''c'' [wit_swap]" "rows_of t ''c'' = [append_row wit_sha256 wit_swap r doc body]"
    "row_readable wit_env (\<lambda>_. Some (rq_Event wit_swap)) (\<lambda>_. Some (bytes_of (rq_Event wit_swap))) (append_row wit_sha256 wit_swap r doc body) wit_swap"
    "Receipt_UnmarshalJSON doc = Inr (stored_form r)"
    "NewSignedReceipt wit_scheme_text ''u'' ''EventHeadReceipt'' ''corpusd'' (head_receipt_fields wit_swap) [wit_key] wit_time = Inr r"
proof -
  obtain r doc body t where t: "CompareAndSwap wit_env (\<lambda>_. False) ''u'' wit_time NoEvents wit_swap = (Inr r, t)"
    "append_rows t = [append_row wit_sha256 wit_swap r doc body]" "event_heads t = [''c'' \<mapsto> wit_head]"
    "issued_for wit_env wit_swap r" "receipt_text_ok r" "Receipt_values True r = Inr doc" "Receipt_CanonicalBytes r = Inr body"
    "NewSignedReceipt wit_scheme_text ''u'' ''EventHeadReceipt'' ''corpusd'' (head_receipt_fields wit_swap) [wit_key] wit_time = Inr r"
    using wit_swap_row .
  let ?dec = "\<lambda>_. Some (rq_Event wit_swap)" and ?file = "\<lambda>_. Some (bytes_of (rq_Event wit_swap))"
  have rows: "rows_of t ''c'' = [append_row wit_sha256 wit_swap r doc body]" using t(2) by (simp add: wit_swap_fields)
  have pub: "published (rq_Event wit_swap) = rq_Event wit_swap" by (simp add: wit_swap_def wit_genesis_def)
  have rd: "row_readable wit_env ?dec ?file (append_row wit_sha256 wit_swap r doc body) wit_swap"
    using t(4-7) wit_swap_admitted wit_swap_text wit_swap_view pub
    by (auto simp: row_readable_def wit_env_sha wit_swap_fields intent_text_ok_def) (simp add: wit_sha256_def)
  have "chain wit_env ([] @ [wit_swap]) = Inr (Some wit_head)"
    unfolding chain_snoc using wit_swap_reduces by (simp add: wit_env_sha wit_swap_fields)
  moreover have "row_for wit_env (append_row wit_sha256 wit_swap r doc body) wit_swap"
    using rd t(4,6,7) unfolding row_readable_def row_for_def by (auto simp: wit_env_sha)
  ultimately have h: "history wit_env t ''c'' [wit_swap]" using t(3) rows by (simp add: history_def)
  show thesis by (rule that [OF t(1) h rows rd decode_stored [OF t(6,5)] t(8)])
qed

theorem events_page_replays_history_witness:
  "\<exists>t r ds. CompareAndSwap wit_env (\<lambda>_. False) ''u'' wit_time NoEvents wit_swap = (Inr r, t)
    \<and> EventsPage wit_sha256 (\<lambda>_. Some (rq_Event wit_swap)) (\<lambda>_. Some (bytes_of (rq_Event wit_swap))) False t ''c'' 0 5 = Inr ds
    \<and> map (rq_Next \<circ> de_Request) ds = [wit_head]"
proof -
  let ?dec = "\<lambda>_. Some (rq_Event wit_swap)" and ?file = "\<lambda>_. Some (bytes_of (rq_Event wit_swap))"
  obtain r doc body t where t: "CompareAndSwap wit_env (\<lambda>_. False) ''u'' wit_time NoEvents wit_swap = (Inr r, t)"
      "history wit_env t ''c'' [wit_swap]" "rows_of t ''c'' = [append_row wit_sha256 wit_swap r doc body]"
      "row_readable wit_env ?dec ?file (append_row wit_sha256 wit_swap r doc body) wit_swap"
    using wit_chain .
  obtain ds where ds: "EventsPage wit_sha256 ?dec ?file False t ''c'' 0 5 = Inr ds" "list_all2 (record_for wit_env) ds [wit_swap]"
    using events_page_replays_history [OF t(2), of ?dec ?file 5 0] t(3,4) by (auto simp: EventReplayMaxPageSize_def wit_env_sha)
  have "map (rq_Next \<circ> de_Request) ds = [wit_head]"
    using ds(2) by (auto simp: record_for_def wit_swap_fields list_all2_Cons2)
  then show ?thesis using t(1) ds(1) by (intro exI conjI)
qed

end
