(* ===== verification/Event_Appender.thy ===== *)
theory Event_Appender
  imports Event_Projection Event_Replay
begin

text \<open>
  The guest's event appender (\<^verbatim>\<open>src/internal/computerevent/appender.go\<close>) and the payload resolver
  (\<^verbatim>\<open>src/internal/computerevent/payload_resolver.go\<close>). An append reads both heads, reduces, pins the event, prepares
  the embedded row, swaps the platform head and finalizes the row; recovery finishes or discards prepared
  rows; reconstruction replays the durable chain. The world is the platform's tables and the embedded store;
  the appender's mutex makes a call one step. Every remote call may fail, and the answer of a swap may be lost
  after it took effect. The pinner, the artifact reader, the cipher and the JSON decoders are arguments. So is \<open>ap_project\<close>, which stands
  for the table writers of a projection batch (\<^verbatim>\<open>src/internal/store/project.go\<close>): any function of the replay mode, the
  tables and the batch, which may refuse depending on the tables.
\<close>

section \<open>Environment and faults\<close>

record 'b World =
  w_platform :: EventTables
  w_store :: "'b Projection"

record 'b AppendEnv =
  ap_cas :: CASEnv
  ap_keys :: key_resolver
  ap_pin :: "string \<Rightarrow> string \<Rightarrow> string \<Rightarrow> (string \<times> Receipt) option"
  ap_pin_payload :: "(string \<Rightarrow> string \<Rightarrow> string \<Rightarrow> string \<Rightarrow> string \<Rightarrow> (string \<times> Receipt) option) option"
  ap_seal :: "(string \<Rightarrow> string \<Rightarrow> string \<Rightarrow> string \<Rightarrow> string option) option"
  ap_pin_private :: "string \<Rightarrow> string \<Rightarrow> string \<Rightarrow> string \<Rightarrow> (string \<times> Receipt) option"
  ap_decode :: "string \<Rightarrow> Event option"
  ap_project :: "bool \<Rightarrow> 'b \<Rightarrow> ProjectionBatch \<Rightarrow> 'b option"
  ap_reader :: "(string \<Rightarrow> string \<Rightarrow> string option) option"
  ap_cipher :: "(string \<Rightarrow> string \<Rightarrow> string \<Rightarrow> (string \<times> string) option) option"
  ap_batch :: "string \<Rightarrow> ProjectionBatch option"

abbreviation ap_sha :: "'b AppendEnv \<Rightarrow> hashing" where
  "ap_sha env \<equiv> ce_sha (ap_cas env)"

abbreviation ap_uuid7 :: "'b AppendEnv \<Rightarrow> string \<Rightarrow> bool" where
  "ap_uuid7 env \<equiv> ce_uuid7 (ap_cas env)"

record Appender =
  ap_computer :: string
  ap_live :: "string \<rightharpoonup> string"
  ap_replay :: bool
  ap_every :: int

record AppendFaults =
  f_head :: bool
  f_store :: pj_fault
  f_swap :: cas_fault
  f_lost :: bool
  f_uuid :: string
  f_now :: string
  f_discard :: pj_fault
  f_finalize :: pj_fault
  f_due :: bool
  f_commit :: pj_fault
  f_expired :: bool
  f_flush :: pj_fault

section \<open>Payload resolution\<close>

record PayloadRef =
  pr_ArtifactDigest :: string
  pr_MediaType :: string
  pr_PrivacyClass :: string
  pr_Role :: string
  pr_SchemaVersion :: int

datatype resolve_error = ResolveIdentity | ResolverRequired | IncompleteRef | FetchFailed | PayloadDigestMismatch
  | CipherRequired | DecryptFailed | EnvelopePrivacy | BatchUndecodable | BatchRejected batch_error | BatchIdentity | BatchEventMismatch

definition trim_ref :: "PayloadRef \<Rightarrow> PayloadRef" where
  "trim_ref r = r\<lparr>pr_ArtifactDigest := trimSpace (pr_ArtifactDigest r), pr_MediaType := trimSpace (pr_MediaType r),
     pr_PrivacyClass := trimSpace (pr_PrivacyClass r), pr_Role := trimSpace (pr_Role r)\<rparr>"

definition resolve_one ::
  "hashing \<Rightarrow> (string \<Rightarrow> string \<Rightarrow> string option) \<Rightarrow> (string \<Rightarrow> string \<Rightarrow> string \<Rightarrow> (string \<times> string) option) option
    \<Rightarrow> string \<Rightarrow> string \<Rightarrow> PayloadRef \<Rightarrow> resolve_error + string" where
  "resolve_one sha reader cipher c e r0 =
     (let r = trim_ref r0 in
      if \<not> isSHA256 (pr_ArtifactDigest r) \<or> pr_MediaType r = [] \<or> pr_PrivacyClass r = [] \<or> pr_Role r = [] \<or> pr_SchemaVersion r < 1
      then Inl IncompleteRef
      else case reader c (pr_ArtifactDigest r) of None \<Rightarrow> Inl FetchFailed
      | Some raw \<Rightarrow> if sha raw \<noteq> pr_ArtifactDigest r then Inl PayloadDigestMismatch
        else if pr_PrivacyClass r = ''private'' then
          (case cipher of None \<Rightarrow> Inl CipherRequired
           | Some decrypt \<Rightarrow> (case decrypt raw c e of None \<Rightarrow> Inl DecryptFailed
             | Some (plaintext, privacy) \<Rightarrow> if privacy \<noteq> ''private'' then Inl EnvelopePrivacy else Inr plaintext))
        else Inr raw)"

definition ResolvePayloads ::
  "hashing \<Rightarrow> (string \<Rightarrow> string \<Rightarrow> string option) option \<Rightarrow> (string \<Rightarrow> string \<Rightarrow> string \<Rightarrow> (string \<times> string) option) option
    \<Rightarrow> string \<Rightarrow> string \<Rightarrow> PayloadRef list \<Rightarrow> resolve_error + string list" where
  "ResolvePayloads sha reader cipher c e refs =
     (let c' = trimSpace c; e' = trimSpace e in
      if c' = [] \<or> e' = [] then Inl ResolveIdentity
      else if refs = [] then Inr []
      else case reader of None \<Rightarrow> Inl ResolverRequired
      | Some rd \<Rightarrow> all_results (map (resolve_one sha rd cipher c' e') refs))"

abbreviation ProjectionBatchMediaType :: string where "ProjectionBatchMediaType \<equiv> ''application/vnd.choir.projection-batch+json''"

definition DecodeProjectionBatch :: "(string \<Rightarrow> ProjectionBatch option) \<Rightarrow> string \<Rightarrow> resolve_error + ProjectionBatch" where
  "DecodeProjectionBatch decode plaintext =
     (case decode plaintext of None \<Rightarrow> Inl BatchUndecodable
      | Some b \<Rightarrow> (case ProjectionBatch_Validate b of Some e \<Rightarrow> Inl (BatchRejected e) | None \<Rightarrow> Inr b))"

definition resolveProjectionBatch :: "'b AppendEnv \<Rightarrow> Appender \<Rightarrow> Event \<Rightarrow> string \<Rightarrow> resolve_error + ProjectionBatch option" where
  "resolveProjectionBatch env a e dg =
     (if ev_Kind e \<noteq> EventProjectionBatchRecorded then Inr None
      else let privacy = trimSpace (PrivacyClass e);
               ref = \<lparr>pr_ArtifactDigest = PayloadCommitment e, pr_MediaType = ProjectionBatchMediaType,
                 pr_PrivacyClass = (if privacy = [] \<or> privacy = ''owner'' then ''public'' else privacy),
                 pr_Role = ''projection_batch'', pr_SchemaVersion = 1\<rparr> in
        rbind (case ap_live a (PayloadCommitment e) of Some plaintext \<Rightarrow> Inr plaintext
          | None \<Rightarrow> if ap_reader env = None then Inl ResolverRequired
              else (case ResolvePayloads (ap_sha env) (ap_reader env) (ap_cipher env) (ev_ComputerID e) (EventID e) [ref] of
                Inl err \<Rightarrow> Inl err | Inr ps \<Rightarrow> Inr (hd ps)))
          (\<lambda>plaintext. rbind (DecodeProjectionBatch (ap_batch env) plaintext) (\<lambda>b.
            if pb_ComputerID b \<noteq> ev_ComputerID e \<or> pb_EventID b \<noteq> EventID e then Inl BatchIdentity
            else if pb_EventDigest b = [] then Inr (Some (b\<lparr>pb_EventDigest := dg\<rparr>))
            else if pb_EventDigest b \<noteq> dg then Inl BatchEventMismatch
            else Inr (Some b))))"

datatype projection_failure = ResolveFailure resolve_error | StoreFailure pj_error

datatype failure_class = SQLBeforeResolve | Poison

definition ClassifyProjectionFailure :: "projection_failure \<Rightarrow> failure_class" where
  "ClassifyProjectionFailure err =
     (case err of
        ResolveFailure e \<Rightarrow> if e \<in> {ResolverRequired, PayloadDigestMismatch, CipherRequired, EnvelopePrivacy} then SQLBeforeResolve else Poison
      | StoreFailure _ \<Rightarrow> Poison)"

definition finalizeProjection ::
  "'b AppendEnv \<Rightarrow> pj_fault \<Rightarrow> Appender \<Rightarrow> 'b Projection \<Rightarrow> Event \<Rightarrow> string \<Rightarrow> Receipt \<Rightarrow> projection_failure option \<times> 'b Projection" where
  "finalizeProjection env flt a p e dg receipt =
     (case resolveProjectionBatch env a e dg of Inl err \<Rightarrow> (Some (ResolveFailure err), p)
      | Inr batch \<Rightarrow> map_prod (map_option StoreFailure) id
          (finalizeBatch (ap_sha env) flt (ap_project env) p (ap_computer a) dg receipt batch (ap_replay a)))"

section \<open>Appending\<close>

datatype app_error = HeadUnavailable | ExpectedChanged nat | PinIntentFailed | RequestCommitmentFailed | WrongComputer
  | CommitmentMismatch | EmbeddedUnavailable | NeedsProjectionRepair | ReduceRejected reduce_error | PinFailed | PinnedDigestMismatch
  | PinReceiptUnprintable | PrepareFailed pj_error | SwapFailed cas_error | SwapLost | ReceiptRejected receipt_error
  | FinalizeFailed failure_class | PreparedUnlistable pj_error | DiscardFailed pj_error | RecoverSwapFailed | ReplayFetch replay_error
  | ReplayReduce reduce_error | ReplayMismatch | ReplayFinalize projection_failure | CheckpointFailed pj_error | QuantumExpired
  | TargetRequired | TargetNotReached | PinningUnavailable | BatchRefused | ArtifactRefFailed | EmptyPayloadSet | BadPayloadMember
  | PrivateUnavailable | SealFailed | PayloadSetCardinality

definition bindCurrentHeadLocked :: "bool \<Rightarrow> Head option \<Rightarrow> Event \<Rightarrow> app_error + Event" where
  "bindCurrentHeadLocked failed head e =
     (if failed then Inl HeadUnavailable
      else let current = (case head of None \<Rightarrow> [ZeroHead, ZeroHead, ZeroHead, ZeroHead, ZeroHead]
             | Some h \<Rightarrow> [CanonicalEventHead h, DesiredEventHead h, EffectiveEventHead h, DesiredStateCommitment h, EffectiveStateCommitment h]);
           supplied = [PreviousHead e, ExpectedDesiredEventHead e, ExpectedEffectiveEventHead e, ExpectedDesiredStateCommitment e,
             ExpectedEffectiveStateCommitment e] in
        case (if RequireExpectedHead e then find (\<lambda>i. supplied ! i \<noteq> current ! i) [0..<5] else None) of
          Some i \<Rightarrow> Inl (ExpectedChanged i)
        | None \<Rightarrow> Inr (case head of
            None \<Rightarrow> e\<lparr>ev_Sequence := 1, PreviousHead := ZeroHead, ExpectedDesiredEventHead := ZeroHead, ExpectedEffectiveEventHead := ZeroHead,
              ExpectedPendingTransitionRef := [], ExpectedDesiredStateCommitment := ZeroHead, ExpectedEffectiveStateCommitment := ZeroHead\<rparr>
          | Some h \<Rightarrow> e\<lparr>ev_Sequence := h_Sequence h + 1, PreviousHead := CanonicalEventHead h, ExpectedDesiredEventHead := DesiredEventHead h,
              ExpectedEffectiveEventHead := EffectiveEventHead h, ExpectedPendingTransitionRef := PendingTransitionRef h,
              ExpectedDesiredStateCommitment := DesiredStateCommitment h, ExpectedEffectiveStateCommitment := EffectiveStateCommitment h\<rparr>))"

text \<open>The second half of an append: the swap, the check of its receipt and the finalize. Whatever error the swap reports, the
  prepared row is discarded.\<close>

definition submit :: "'b AppendEnv \<Rightarrow> AppendFaults \<Rightarrow> Appender \<Rightarrow> 'b World \<Rightarrow> CASRequest \<Rightarrow> (app_error + Receipt) \<times> 'b World" where
  "submit env f a w q =
     (let (res, t) = CompareAndSwap (ap_cas env) (f_swap f) (f_uuid f) (f_now f) (w_platform w) q;
          w1 = w\<lparr>w_platform := t\<rparr>;
          refused = (\<lambda>err. (Inl err, w1\<lparr>w_store := snd (DiscardPrepared (f_discard f) (w_store w1) (ap_computer a) (EventDigest q))\<rparr>)) in
      if f_lost f then refused SwapLost
      else case res of Inl err \<Rightarrow> refused (SwapFailed err)
      | Inr receipt \<Rightarrow> (case VerifyEventHeadReceipt (ap_uuid7 env) (ce_crypto (ap_cas env)) (Some (ap_keys env)) receipt q of
          Some err \<Rightarrow> (Inl (ReceiptRejected err), w1)
        | None \<Rightarrow> (case finalizeProjection env (f_finalize f) a (w_store w1) (rq_Event q) (EventDigest q) receipt of
            (Some err, p) \<Rightarrow> (Inl (FinalizeFailed (ClassifyProjectionFailure err)), w1\<lparr>w_store := p\<rparr>)
          | (None, p) \<Rightarrow> (Inr receipt, w1\<lparr>w_store := p\<rparr>))))"

text \<open>The first half: everything up to the request that is prepared.\<close>

definition build_request :: "'b AppendEnv \<Rightarrow> AppendFaults \<Rightarrow> Appender \<Rightarrow> 'b World \<Rightarrow> Event \<Rightarrow> TransitionInput \<Rightarrow> string list \<Rightarrow> app_error + CASRequest" where
  "build_request env f a w e i pins =
     (if ev_ComputerID e \<noteq> ap_computer a then Inl WrongComputer
      else case ComputePinIntentCommitment (ap_sha env) e i of Inl _ \<Rightarrow> Inl PinIntentFailed
      | Inr pin \<Rightarrow> (case ComputeRequestCommitment (ap_sha env) e i pin pins of Inl _ \<Rightarrow> Inl RequestCommitmentFailed
        | Inr rc \<Rightarrow>
          if RequestCommitment e \<noteq> rc then Inl CommitmentMismatch
          else if f_head f then Inl HeadUnavailable
          else case Store_Head (f_store f) (w_store w) (ap_computer a) of Inl _ \<Rightarrow> Inl EmbeddedUnavailable
          | Inr embedded \<Rightarrow>
            if event_heads (w_platform w) (ap_computer a) \<noteq> embedded then Inl NeedsProjectionRepair
            else case Reduce (ap_uuid7 env) (ap_sha env) (event_heads (w_platform w) (ap_computer a)) e i of Inl err \<Rightarrow> Inl (ReduceRejected err)
            | Inr nxt \<Rightarrow> (case Event_CanonicalBytes (ap_uuid7 env) e of Inl err \<Rightarrow> Inl (ReduceRejected err)
              | Inr body \<Rightarrow> (case ap_pin env (ap_computer a) body (RequestCommitment e) of None \<Rightarrow> Inl PinFailed
                | Some (artifact, pinReceipt) \<Rightarrow>
                  if artifact \<noteq> ap_sha env body then Inl PinnedDigestMismatch
                  else case Receipt_CanonicalBytes pinReceipt of Inl _ \<Rightarrow> Inl PinReceiptUnprintable
                  | Inr pb \<Rightarrow> Inr \<lparr>rq_Event = e, EventDigest = ap_sha env body, EventArtifactDigest = artifact,
                      EventPinReceiptDigest = ap_sha env pb, PayloadPinReceiptDigests = pins, PinIntentCommitment = pin,
                      rq_Input = i, rq_Next = nxt\<rparr>))))"

definition appendLocked ::
  "'b AppendEnv \<Rightarrow> AppendFaults \<Rightarrow> Appender \<Rightarrow> 'b World \<Rightarrow> Event \<Rightarrow> TransitionInput \<Rightarrow> string list \<Rightarrow> (app_error + Receipt) \<times> 'b World" where
  "appendLocked env f a w e i pins =
     (case build_request env f a w e i pins of Inl err \<Rightarrow> (Inl err, w)
      | Inr q \<Rightarrow> (case Prepare (ap_uuid7 env) (ap_sha env) (f_store f) (w_store w) q of Inl err \<Rightarrow> (Inl (PrepareFailed err), w)
        | Inr p \<Rightarrow> submit env f a (w\<lparr>w_store := p\<rparr>) q))"

text \<open>A new event is bound to the current head and committed to before it is appended; \<open>failed\<close> says whether that first read
  of the head fails.\<close>

definition AppendNew ::
  "'b AppendEnv \<Rightarrow> bool \<Rightarrow> AppendFaults \<Rightarrow> Appender \<Rightarrow> 'b World \<Rightarrow> Event \<Rightarrow> TransitionInput \<Rightarrow> string list \<Rightarrow> (app_error + Receipt) \<times> 'b World" where
  "AppendNew env failed f a w e i pins =
     (case bindCurrentHeadLocked failed (event_heads (w_platform w) (ap_computer a)) e of Inl err \<Rightarrow> (Inl err, w)
      | Inr e1 \<Rightarrow> (let e2 = e1\<lparr>RequestCommitment := ZeroHead\<rparr> in
        case ComputePinIntentCommitment (ap_sha env) e2 i of Inl _ \<Rightarrow> (Inl PinIntentFailed, w)
        | Inr pin \<Rightarrow> (case ComputeRequestCommitment (ap_sha env) e2 i pin pins of Inl _ \<Rightarrow> (Inl RequestCommitmentFailed, w)
          | Inr rc \<Rightarrow> appendLocked env f a w (e2\<lparr>RequestCommitment := rc\<rparr>) i pins)))"

text \<open>A payload is pinned before the event that names it: the event gets its digest and its reference, and the digest of the pin
  receipt goes into the commitment of the request.\<close>

definition name_payload :: "Event \<Rightarrow> string \<Rightarrow> ArtifactRef \<Rightarrow> Event" where
  "name_payload e dg ref = e\<lparr>PayloadCommitment := dg, OutputArtifactRefs := OutputArtifactRefs e @ [ArtifactRef_String ref],
     ProposedEffectRef := (if ProposedEffectRef e = [] then dg else ProposedEffectRef e), RequestCommitment := ZeroHead\<rparr>"

definition pin_digest :: "hashing \<Rightarrow> app_error \<Rightarrow> string \<Rightarrow> (string \<times> Receipt) option \<Rightarrow> app_error + string" where
  "pin_digest sha failed dg pin =
     (case pin of None \<Rightarrow> Inl failed
      | Some (artifact, receipt) \<Rightarrow> if artifact \<noteq> dg then Inl PinnedDigestMismatch
        else case Receipt_CanonicalBytes receipt of Inl _ \<Rightarrow> Inl PinReceiptUnprintable | Inr b \<Rightarrow> Inr (sha b))"

definition dry_run :: "'b AppendEnv \<Rightarrow> pj_fault \<Rightarrow> 'b World \<Rightarrow> string \<Rightarrow> string \<Rightarrow> app_error option" where
  "dry_run env flt w mediaType payload =
     (if trimSpace mediaType \<noteq> ProjectionBatchMediaType then None
      else case DecodeProjectionBatch (ap_batch env) payload of Inl _ \<Rightarrow> Some BatchRefused
      | Inr b \<Rightarrow> map_option (\<lambda>_. BatchRefused) (DryRunProjectionBatch flt (ap_project env) (w_store w) b))"

definition AppendNewPayload ::
  "'b AppendEnv \<Rightarrow> bool \<Rightarrow> AppendFaults \<Rightarrow> Appender \<Rightarrow> 'b World \<Rightarrow> Event \<Rightarrow> TransitionInput \<Rightarrow> string \<Rightarrow> string \<Rightarrow> string
    \<Rightarrow> (app_error + Receipt) \<times> 'b World \<times> Appender" where
  "AppendNewPayload env failed f a w e i payload mediaType privacyClass =
     (let sha = ap_sha env; dg = sha payload;
          plan = (case ap_pin_payload env of None \<Rightarrow> Inl PinningUnavailable
            | Some pinner \<Rightarrow>
              rbind (bindCurrentHeadLocked failed (event_heads (w_platform w) (ap_computer a)) e) (\<lambda>e1.
              case ArtifactRefFromDigest dg of None \<Rightarrow> Inl ArtifactRefFailed
              | Some ref \<Rightarrow> (let e2 = name_payload e1 dg ref in
                case ComputePinIntentCommitment sha e2 i of Inl _ \<Rightarrow> Inl PinIntentFailed
                | Inr intent \<Rightarrow> (case dry_run env (f_store f) w mediaType payload of Some err \<Rightarrow> Inl err
                  | None \<Rightarrow> rbind (pin_digest sha PinFailed dg (pinner (ap_computer a) payload mediaType privacyClass intent)) (\<lambda>pd.
                    case ComputeRequestCommitment sha e2 i intent [pd] of Inl _ \<Rightarrow> Inl RequestCommitmentFailed
                    | Inr rc \<Rightarrow> Inr (e2\<lparr>RequestCommitment := rc\<rparr>, pd)))))) in
      case plan of Inl err \<Rightarrow> (Inl err, w, a)
      | Inr (e3, pd) \<Rightarrow> (let a1 = a\<lparr>ap_live := (ap_live a)(dg \<mapsto> payload)\<rparr>; (res, w1) = appendLocked env f a1 w e3 i [pd] in (res, w1, a1)))"

definition AppendNewPrivatePayload ::
  "'b AppendEnv \<Rightarrow> bool \<Rightarrow> AppendFaults \<Rightarrow> Appender \<Rightarrow> 'b World \<Rightarrow> Event \<Rightarrow> TransitionInput \<Rightarrow> string \<Rightarrow> string
    \<Rightarrow> (app_error + Receipt) \<times> 'b World" where
  "AppendNewPrivatePayload env failed f a w e i plaintext mediaType =
     (let sha = ap_sha env;
          plan = (case ap_seal env of None \<Rightarrow> Inl PrivateUnavailable
            | Some seal \<Rightarrow>
              rbind (bindCurrentHeadLocked failed (event_heads (w_platform w) (ap_computer a)) e) (\<lambda>e1.
              case seal (ap_computer a) (EventID e1) mediaType plaintext of None \<Rightarrow> Inl SealFailed
              | Some envelope \<Rightarrow> (case ArtifactRefFromDigest (sha envelope) of None \<Rightarrow> Inl ArtifactRefFailed
                | Some ref \<Rightarrow> (let e2 = name_payload e1 (sha envelope) ref in
                  case ComputePinIntentCommitment sha e2 i of Inl _ \<Rightarrow> Inl PinIntentFailed
                  | Inr intent \<Rightarrow> rbind (pin_digest sha PinFailed (sha envelope) (ap_pin_private env (ap_computer a) (EventID e2) envelope intent)) (\<lambda>pd.
                    case ComputeRequestCommitment sha e2 i intent [pd] of Inl _ \<Rightarrow> Inl RequestCommitmentFailed
                    | Inr rc \<Rightarrow> Inr (e2\<lparr>RequestCommitment := rc\<rparr>, pd)))))) in
      case plan of Inl err \<Rightarrow> (Inl err, w) | Inr (e3, pd) \<Rightarrow> appendLocked env f a w e3 i [pd])"

record EventPayload =
  pl_Content :: string
  pl_MediaType :: string
  pl_PrivacyClass :: string
  pl_Direction :: string
  pl_Private :: bool

abbreviation EventPayloadInput :: string where "EventPayloadInput \<equiv> ''input''"
abbreviation EventPayloadOutput :: string where "EventPayloadOutput \<equiv> ''output''"

text \<open>The first pass over a payload set, once per direction: it seals what is private, names the artifact in the event and keeps
  the bytes to pin.\<close>

fun name_set :: "'b AppendEnv \<Rightarrow> string \<Rightarrow> string \<Rightarrow> Event \<Rightarrow> EventPayload list \<Rightarrow> app_error + Event \<times> (EventPayload \<times> string) list" where
  "name_set env c dir e [] = Inr (e, [])"
| "name_set env c dir e (pl # pls) =
     (if pl_Direction pl \<noteq> dir then name_set env c dir e pls
      else if pl_Content pl = [] \<or> pl_MediaType pl = [] then Inl BadPayloadMember
      else rbind (if \<not> pl_Private pl then Inr (pl_Content pl)
          else case ap_seal env of None \<Rightarrow> Inl PrivateUnavailable
          | Some seal \<Rightarrow> (case seal c (EventID e) (pl_MediaType pl) (pl_Content pl) of None \<Rightarrow> Inl SealFailed | Some envelope \<Rightarrow> Inr envelope))
        (\<lambda>stored. case ArtifactRefFromDigest (ap_sha env stored) of None \<Rightarrow> Inl ArtifactRefFailed
          | Some ref \<Rightarrow> rbind (name_set env c dir
              (if dir = EventPayloadInput then e\<lparr>InputArtifactRefs := InputArtifactRefs e @ [ArtifactRef_String ref]\<rparr>
               else e\<lparr>OutputArtifactRefs := OutputArtifactRefs e @ [ArtifactRef_String ref], PayloadCommitment := ap_sha env stored\<rparr>) pls)
              (\<lambda>(e', ps). Inr (e', (pl, stored) # ps))))"

fun pin_set :: "'b AppendEnv \<Rightarrow> string \<Rightarrow> string \<Rightarrow> string \<Rightarrow> (EventPayload \<times> string) list \<Rightarrow> app_error + string list" where
  "pin_set env c eid intent [] = Inr []"
| "pin_set env c eid intent ((pl, stored) # ps) =
     rbind (if pl_Private pl then pin_digest (ap_sha env) PinFailed (ap_sha env stored) (ap_pin_private env c eid stored intent)
        else case ap_pin_payload env of None \<Rightarrow> Inl PinningUnavailable
        | Some pinner \<Rightarrow> pin_digest (ap_sha env) PinFailed (ap_sha env stored) (pinner c stored (pl_MediaType pl) (pl_PrivacyClass pl) intent))
      (\<lambda>d. rbind (pin_set env c eid intent ps) (\<lambda>ds. Inr (d # ds)))"

definition AppendNewPayloadSet ::
  "'b AppendEnv \<Rightarrow> bool \<Rightarrow> AppendFaults \<Rightarrow> Appender \<Rightarrow> 'b World \<Rightarrow> Event \<Rightarrow> TransitionInput \<Rightarrow> EventPayload list
    \<Rightarrow> (app_error + Receipt) \<times> string list \<times> 'b World" where
  "AppendNewPayloadSet env failed f a w e i pls =
     (let sha = ap_sha env; c = ap_computer a;
          plan = (if pls = [] then Inl EmptyPayloadSet
            else rbind (bindCurrentHeadLocked failed (event_heads (w_platform w) c) e) (\<lambda>e1.
              rbind (name_set env c EventPayloadInput e1 pls) (\<lambda>(e2, ins).
              rbind (name_set env c EventPayloadOutput e2 pls) (\<lambda>(e3, outs).
              if length (ins @ outs) \<noteq> length pls \<or> length outs > 1 then Inl PayloadSetCardinality
              else let e4 = e3\<lparr>RequestCommitment := ZeroHead\<rparr> in
                case ComputePinIntentCommitment sha e4 i of Inl _ \<Rightarrow> Inl PinIntentFailed
                | Inr intent \<Rightarrow> rbind (pin_set env c (EventID e4) intent (ins @ outs)) (\<lambda>pds.
                  case ComputeRequestCommitment sha e4 i intent pds of Inl _ \<Rightarrow> Inl RequestCommitmentFailed
                  | Inr rc \<Rightarrow> Inr (e4\<lparr>RequestCommitment := rc\<rparr>, pds, map (sha \<circ> snd) (ins @ outs))))))) in
      case plan of Inl err \<Rightarrow> (Inl err, [], w)
      | Inr (e5, pds, artifacts) \<Rightarrow> (let (res, w1) = appendLocked env f a w e5 i pds in (res, artifacts, w1)))"

section \<open>Recovery and reconstruction\<close>

definition recover_one :: "'b AppendEnv \<Rightarrow> AppendFaults \<Rightarrow> Appender \<Rightarrow> 'b World \<Rightarrow> CASRequest \<Rightarrow> app_error option \<times> 'b World" where
  "recover_one env f a w q =
     (let discard = (case DiscardPrepared (f_discard f) (w_store w) (ap_computer a) (EventDigest q) of
            (err, p) \<Rightarrow> (map_option DiscardFailed err, w\<lparr>w_store := p\<rparr>));
          head = event_heads (w_platform w) (ap_computer a) in
      if ap_replay a then discard
      else if f_head f then (Some HeadUnavailable, w)
      else if (case head of None \<Rightarrow> False | Some h \<Rightarrow> h_Sequence h = ev_Sequence (rq_Event q) \<and> CanonicalEventHead h = EventDigest q) then
        (let (res, t) = CompareAndSwap (ap_cas env) (f_swap f) (f_uuid f) (f_now f) (w_platform w) q; w1 = w\<lparr>w_platform := t\<rparr> in
         if f_lost f then (Some RecoverSwapFailed, w1)
         else case res of Inl _ \<Rightarrow> (Some RecoverSwapFailed, w1)
         | Inr receipt \<Rightarrow> (case VerifyEventHeadReceipt (ap_uuid7 env) (ce_crypto (ap_cas env)) (Some (ap_keys env)) receipt q of
             Some err \<Rightarrow> (Some (ReceiptRejected err), w1)
           | None \<Rightarrow> (case finalizeProjection env (f_finalize f) a (w_store w1) (rq_Event q) (EventDigest q) receipt of
               (err, p) \<Rightarrow> (map_option (\<lambda>x. FinalizeFailed (ClassifyProjectionFailure x)) err, w1\<lparr>w_store := p\<rparr>))))
      else if (case head of None \<Rightarrow> ev_Sequence (rq_Event q) = 1 \<and> PreviousHead (rq_Event q) = ZeroHead
               | Some h \<Rightarrow> h_Sequence h + 1 = ev_Sequence (rq_Event q) \<and> CanonicalEventHead h = PreviousHead (rq_Event q)) then discard
      else (Some NeedsProjectionRepair, w))"

fun recover_all :: "'b AppendEnv \<Rightarrow> (string \<Rightarrow> AppendFaults) \<Rightarrow> Appender \<Rightarrow> 'b World \<Rightarrow> CASRequest list \<Rightarrow> app_error option \<times> 'b World" where
  "recover_all env fs a w [] = (None, w)"
| "recover_all env fs a w (q # qs) =
     (case recover_one env (fs (EventDigest q)) a w q of (Some err, w1) \<Rightarrow> (Some err, w1) | (None, w1) \<Rightarrow> recover_all env fs a w1 qs)"

definition RecoverPrepared :: "'b AppendEnv \<Rightarrow> pj_fault \<Rightarrow> (string \<Rightarrow> AppendFaults) \<Rightarrow> Appender \<Rightarrow> 'b World \<Rightarrow> app_error option \<times> 'b World" where
  "RecoverPrepared env flt fs a w =
     (case Prepared (ap_sha env) (ap_decode env) flt (w_store w) (ap_computer a) of Inl err \<Rightarrow> (Some (PreparedUnlistable err), w)
      | Inr qs \<Rightarrow> recover_all env fs a w qs)"

text \<open>The state of a replay: the store, the head reached, the last sequence, the events since the last checkpoint, and whether there
  was one. The replay's own progress counters are telemetry and left out.\<close>

record 'b Replay =
  rp_store :: "'b Projection"
  rp_current :: "Head option"
  rp_after :: uint64
  rp_since :: int
  rp_checked :: bool

datatype outcome = Continue | Reached | Failed app_error

definition EventReplayPageSize :: int where
  "EventReplayPageSize = 1024"

datatype EventSource = Paged "string \<Rightarrow> uint64 \<Rightarrow> int \<Rightarrow> replay_error + DurableEvent list"
  | Whole "string \<Rightarrow> uint64 \<Rightarrow> replay_error + DurableEvent list"

definition commitReplay :: "pj_fault \<Rightarrow> Appender \<Rightarrow> 'b Replay \<Rightarrow> pj_error option \<times> 'b Replay" where
  "commitReplay flt a s =
     (if \<not> ap_replay a then (None, s) else case CommitReplay flt (rp_store s) of (err, p) \<Rightarrow> (err, s\<lparr>rp_store := p\<rparr>))"

definition apply_record :: "'b AppendEnv \<Rightarrow> AppendFaults \<Rightarrow> Appender \<Rightarrow> 'b Replay \<Rightarrow> DurableEvent \<Rightarrow> app_error option \<times> 'b Replay" where
  "apply_record env f a s d =
     (let q = de_Request d in
      case Reduce (ap_uuid7 env) (ap_sha env) (rp_current s) (rq_Event q) (rq_Input q) of Inl err \<Rightarrow> (Some (ReplayReduce err), s)
      | Inr nxt \<Rightarrow>
        if nxt \<noteq> rq_Next q then (Some ReplayMismatch, s)
        else case VerifyEventHeadReceipt (ap_uuid7 env) (ce_crypto (ap_cas env)) (Some (ap_keys env)) (de_Receipt d) q of
          Some err \<Rightarrow> (Some (ReceiptRejected err), s)
        | None \<Rightarrow> (case Prepare (ap_uuid7 env) (ap_sha env) (f_store f) (rp_store s) q of Inl err \<Rightarrow> (Some (PrepareFailed err), s)
          | Inr p \<Rightarrow> (case finalizeProjection env (f_finalize f) a p (rq_Event q) (EventDigest q) (de_Receipt d) of
              (Some err, p') \<Rightarrow> (Some (ReplayFinalize err), s\<lparr>rp_store := p'\<rparr>)
            | (None, p') \<Rightarrow> (None, s\<lparr>rp_store := p', rp_current := Some nxt\<rparr>))))"

definition checkpoint :: "AppendFaults \<Rightarrow> Appender \<Rightarrow> 'b Replay \<Rightarrow> app_error option \<times> 'b Replay" where
  "checkpoint f a s =
     (if \<not> ap_replay a then (None, s)
      else let n = rp_since s + 1; s1 = s\<lparr>rp_since := n\<rparr> in
        if n \<ge> ap_every a \<or> \<not> rp_checked s \<or> f_due f then
          (case commitReplay (f_commit f) a s1 of (Some err, s2) \<Rightarrow> (Some (CheckpointFailed err), s2)
           | (None, s2) \<Rightarrow> (None, s2\<lparr>rp_since := 0, rp_checked := True\<rparr>))
        else (None, s1))"

definition flush :: "AppendFaults \<Rightarrow> Appender \<Rightarrow> outcome \<Rightarrow> 'b Replay \<Rightarrow> outcome \<times> 'b Replay" where
  "flush f a r s = (case commitReplay (f_flush f) a s of (Some err, s1) \<Rightarrow> (Failed (CheckpointFailed err), s1) | (None, s1) \<Rightarrow> (r, s1))"

definition replay_record ::
  "'b AppendEnv \<Rightarrow> AppendFaults \<Rightarrow> Appender \<Rightarrow> string \<Rightarrow> 'b Replay \<Rightarrow> DurableEvent \<Rightarrow> outcome \<times> 'b Replay" where
  "replay_record env f a target s d =
     (case apply_record env f a s d of (Some err, s1) \<Rightarrow> (Failed err, s1)
      | (None, s1) \<Rightarrow> (case checkpoint f a (s1\<lparr>rp_after := ev_Sequence (rq_Event (de_Request d))\<rparr>) of (Some err, s2) \<Rightarrow> (Failed err, s2)
        | (None, s2) \<Rightarrow>
          if target \<noteq> [] \<and> (\<exists>h. rp_current s2 = Some h \<and> CanonicalEventHead h = target) then flush f a Reached s2
          else if f_expired f then flush f a (Failed QuantumExpired) s2
          else (Continue, s2)))"

fun replay_records ::
  "'b AppendEnv \<Rightarrow> (uint64 \<Rightarrow> AppendFaults) \<Rightarrow> Appender \<Rightarrow> string \<Rightarrow> 'b Replay \<Rightarrow> DurableEvent list \<Rightarrow> outcome \<times> 'b Replay" where
  "replay_records env fs a target s [] = (Continue, s)"
| "replay_records env fs a target s (d # ds) =
     (case replay_record env (fs (ev_Sequence (rq_Event (de_Request d)))) a target s d of
        (Continue, s1) \<Rightarrow> replay_records env fs a target s1 ds | (Reached, s1) \<Rightarrow> (Reached, s1) | (Failed err, s1) \<Rightarrow> (Failed err, s1))"

text \<open>The page loop, with fuel; without fuel it does not return.\<close>

fun replay_pages ::
  "'b AppendEnv \<Rightarrow> (uint64 \<Rightarrow> AppendFaults) \<Rightarrow> Appender \<Rightarrow> string \<Rightarrow> (string \<Rightarrow> uint64 \<Rightarrow> int \<Rightarrow> replay_error + DurableEvent list)
    \<Rightarrow> nat \<Rightarrow> 'b Replay \<Rightarrow> (outcome \<times> 'b Replay) option" where
  "replay_pages env fs a target page 0 s = None"
| "replay_pages env fs a target page (Suc n) s =
     (case page (ap_computer a) (rp_after s) EventReplayPageSize of Inl err \<Rightarrow> Some (Failed (ReplayFetch err), s)
      | Inr ds \<Rightarrow>
        if ds = [] then Some (Continue, s)
        else case replay_records env fs a target s ds of
          (Continue, s1) \<Rightarrow> if int (length ds) < EventReplayPageSize \<or> rp_after s1 = - 1 then Some (Continue, s1)
            else replay_pages env fs a target page n s1
        | (Reached, s1) \<Rightarrow> Some (Reached, s1) | (Failed err, s1) \<Rightarrow> Some (Failed err, s1))"

record ReplayFaults =
  rf_list :: pj_fault
  rf_recover :: "string \<Rightarrow> AppendFaults"
  rf_local :: pj_fault
  rf_event :: "uint64 \<Rightarrow> AppendFaults"
  rf_head :: bool
  rf_final :: pj_fault
  rf_commit :: pj_fault

definition replay_source ::
  "'b AppendEnv \<Rightarrow> (uint64 \<Rightarrow> AppendFaults) \<Rightarrow> Appender \<Rightarrow> string \<Rightarrow> EventSource \<Rightarrow> nat \<Rightarrow> 'b Replay \<Rightarrow> (outcome \<times> 'b Replay) option" where
  "replay_source env fs a target src fuel s =
     (case src of Paged page \<Rightarrow> replay_pages env fs a target page fuel s
      | Whole events \<Rightarrow> (case events (ap_computer a) (rp_after s) of Inl err \<Rightarrow> Some (Failed (ReplayFetch err), s)
        | Inr ds \<Rightarrow> Some (replay_records env fs a target s ds)))"

definition replay_start :: "'b Projection \<Rightarrow> Head option \<Rightarrow> 'b Replay" where
  "replay_start p local = \<lparr>rp_store = p, rp_current = local, rp_after = (case local of None \<Rightarrow> 0 | Some h \<Rightarrow> h_Sequence h),
     rp_since = 0, rp_checked = False\<rparr>"

definition reconstruct ::
  "'b AppendEnv \<Rightarrow> ReplayFaults \<Rightarrow> Appender \<Rightarrow> EventSource \<Rightarrow> string \<Rightarrow> nat \<Rightarrow> 'b World \<Rightarrow> (app_error option \<times> 'b World) option" where
  "reconstruct env rf a src target fuel w0 =
     (case RecoverPrepared env (rf_list rf) (rf_recover rf) a w0 of (Some err, w) \<Rightarrow> Some (Some err, w)
      | (None, w) \<Rightarrow> (case Store_Head (rf_local rf) (w_store w) (ap_computer a) of Inl _ \<Rightarrow> Some (Some EmbeddedUnavailable, w)
        | Inr local \<Rightarrow>
          if target \<noteq> [] \<and> (\<exists>h. local = Some h \<and> CanonicalEventHead h = target) then Some (None, w)
          else case replay_source env (rf_event rf) a target src fuel (replay_start (w_store w) local) of
            None \<Rightarrow> None
          | Some (Failed err, s) \<Rightarrow> Some (Some err, w\<lparr>w_store := rp_store s\<rparr>)
          | Some (Reached, s) \<Rightarrow> Some (None, w\<lparr>w_store := rp_store s\<rparr>)
          | Some (Continue, s) \<Rightarrow> Some (let w1 = w\<lparr>w_store := rp_store s\<rparr> in
              if target \<noteq> [] then (Some TargetNotReached, w1)
              else if rf_head rf then (Some HeadUnavailable, w1)
              else case Store_Head (rf_final rf) (rp_store s) (ap_computer a) of Inl _ \<Rightarrow> (Some EmbeddedUnavailable, w1)
              | Inr final \<Rightarrow> if event_heads (w_platform w) (ap_computer a) \<noteq> final then (Some NeedsProjectionRepair, w1)
                  else case commitReplay (rf_commit rf) a s of (err, s1) \<Rightarrow> (map_option CheckpointFailed err, w\<lparr>w_store := rp_store s1\<rparr>))))"

definition Reconstruct where
  "Reconstruct env rf a src fuel w = reconstruct env rf a src [] fuel w"

definition ReconstructThrough where
  "ReconstructThrough env rf a src target fuel w =
     (if \<not> isSHA256 (trimSpace target) then Some (Some TargetRequired, w) else reconstruct env rf a src (trimSpace target) fuel w)"

text \<open>A replay into another projection: a fresh appender in replay mode, with no live payloads and no checkpoint policy.\<close>

definition replayInto ::
  "'b AppendEnv \<Rightarrow> ReplayFaults \<Rightarrow> Appender \<Rightarrow> EventSource \<Rightarrow> 'b Projection \<Rightarrow> string \<Rightarrow> nat \<Rightarrow> 'b World \<Rightarrow> (app_error option \<times> 'b World) option" where
  "replayInto env rf a src p target fuel w =
     (let dry = a\<lparr>ap_live := Map.empty, ap_replay := True, ap_every := 0\<rparr>; w1 = w\<lparr>w_store := p\<rparr> in
      if target = [] then Reconstruct env rf dry src fuel w1 else ReconstructThrough env rf dry src target fuel w1)"

end
