(* ===== verification/Appender_Recovery.thy ===== *)
theory Appender_Recovery
  imports Event_Appender
begin

text \<open>
  Crash consistency of the guest appender. The platform and the embedded store are two databases; an append that is cut
  short anywhere leaves them apart. The lemmas follow the phases of an append, say what each leaves behind, and
  show what recovery and reconstruction make of it.
\<close>

section \<open>Phases of an append\<close>

lemma Reduce_links:
  assumes "Reduce uuid7 sha g e i = Inr n"
  shows "case g of None \<Rightarrow> ev_Sequence e = 1 \<and> PreviousHead e = ZeroHead
    | Some h \<Rightarrow> ev_Sequence e = h_Sequence h + 1 \<and> PreviousHead e = CanonicalEventHead h"
proof (cases g)
  case None
  then show ?thesis using Reduce_None [of uuid7 sha e i n] assms by (auto simp: reduceGenesis_def split: if_splits)
next
  case (Some h)
  then show ?thesis using Reduce_Some [OF assms [unfolded Some]] by simp
qed

lemma build_request_Inr:
  assumes "build_request env f a w e i pins = Inr q"
  shows "rq_Event q = e \<and> rq_Input q = i \<and> ev_ComputerID e = ap_computer a
    \<and> ComputePinIntentCommitment (ap_sha env) e i = Inr (PinIntentCommitment q)
    \<and> event_heads (w_platform w) (ap_computer a) = pj_heads (w_store w) (ap_computer a)
    \<and> Reduce (ap_uuid7 env) (ap_sha env) (event_heads (w_platform w) (ap_computer a)) e i = Inr (rq_Next q)
    \<and> EventDigest q = ap_sha env (bytes_of e)"
proof -
  obtain pin nxt body where s: "ev_ComputerID e = ap_computer a" "ComputePinIntentCommitment (ap_sha env) e i = Inr pin"
      "event_heads (w_platform w) (ap_computer a) = pj_heads (w_store w) (ap_computer a)"
      "Reduce (ap_uuid7 env) (ap_sha env) (event_heads (w_platform w) (ap_computer a)) e i = Inr nxt"
      "Event_CanonicalBytes (ap_uuid7 env) e = Inr body" "rq_Event q = e" "rq_Input q = i" "rq_Next q = nxt"
      "PinIntentCommitment q = pin" "EventDigest q = ap_sha env body"
    using assms by (auto simp: build_request_def Store_Head_def split: if_splits sum.splits option.splits)
  have "body = bytes_of e"
    using s(5) by (auto simp: Event_CanonicalBytes_def appendCanonical_Inr bytes_of_def split: option.splits sum.splits)
  then show ?thesis using s by simp
qed

text \<open>The heads agree, no row is half done, and the index knows every key and digest the platform recorded.\<close>

definition settled :: "string \<Rightarrow> EventTables \<Rightarrow> 'b Projection \<Rightarrow> bool" where
  "settled c t p \<longleftrightarrow> event_heads t c = pj_heads p c \<and> (\<forall>r \<in> set (pj_index p). ix_computer r = c \<longrightarrow> ix_status r \<noteq> StatusPrepared)
     \<and> (\<forall>x \<in> set (rows_of t c). \<exists>r \<in> set (pj_index p). ix_computer r = c \<and> ix_key r = ar_key x \<and> ix_digest r = ar_digest x)"

text \<open>The events of the computer so far have other digests than the new one.\<close>

definition fresh_digest :: "string \<Rightarrow> 'b Projection \<Rightarrow> string \<Rightarrow> bool" where
  "fresh_digest c p dg \<longleftrightarrow> (\<forall>r \<in> set (pj_index p). ix_computer r = c \<longrightarrow> ix_digest r \<noteq> dg)"

lemma prepared_row:
  assumes "Prepare uuid7 sha flt p q = Inr p1" "fresh_digest (ev_ComputerID (rq_Event q)) p (EventDigest q)"
  shows "pj_index p1 = pj_index p @ [index_row (bytes_of (rq_Event q)) q]" "pj_heads p1 = pj_heads p" "pj_tables p1 = pj_tables p"
    and "r \<in> set (pj_index p) \<Longrightarrow> ix_computer r = ev_ComputerID (rq_Event q) \<Longrightarrow> ix_key r \<noteq> IdempotencyKey (rq_Event q)"
  using Prepare_Inr [OF assms(1)] assms(2) by (auto simp: fresh_digest_def index_clash_def list_ex_iff index_row_def Let_def)

text \<open>A discarded row is gone and nothing else is.\<close>

lemma discard_undoes:
  assumes "Prepare uuid7 sha flt p q = Inr p1" "fresh_digest (ev_ComputerID (rq_Event q)) p (EventDigest q)" "\<not> flt' PjDelete"
  shows "pj_index (snd (DiscardPrepared flt' p1 (ev_ComputerID (rq_Event q)) (EventDigest q))) = pj_index p"
    and "pj_heads (snd (DiscardPrepared flt' p1 (ev_ComputerID (rq_Event q)) (EventDigest q))) = pj_heads p"
proof -
  let ?P = "\<lambda>r. \<not> (ix_computer r = ev_ComputerID (rq_Event q) \<and> ix_digest r = EventDigest q \<and> ix_status r = StatusPrepared)"
  have "filter ?P (pj_index p) = pj_index p" using assms(2) by (auto simp: filter_id_conv fresh_digest_def)
  moreover have "\<not> ?P (index_row (bytes_of (rq_Event q)) q)" by (simp add: index_row_def Let_def)
  ultimately show "pj_index (snd (DiscardPrepared flt' p1 (ev_ComputerID (rq_Event q)) (EventDigest q))) = pj_index p"
    using assms(3) unfolding Discard_simps prepared_row(1) [OF assms(1,2)] filter_append by (simp del: de_Morgan_conj)
  show "pj_heads (snd (DiscardPrepared flt' p1 (ev_ComputerID (rq_Event q)) (EventDigest q))) = pj_heads p"
    using prepared_row(2) [OF assms(1,2)] by (simp add: Discard_simps)
qed

text \<open>What a finalize needs of the payload of an event: it resolves to a batch of the event that the tables take.\<close>

definition projectable :: "'b AppendEnv \<Rightarrow> Appender \<Rightarrow> 'b \<Rightarrow> Event \<Rightarrow> string \<Rightarrow> bool" where
  "projectable env a tables e dg \<longleftrightarrow> (\<exists>batch. resolveProjectionBatch env a e dg = Inr batch
     \<and> check_batch (ap_computer a) dg (ev_Kind e) batch = None
     \<and> (case batch of None \<Rightarrow> True | Some b \<Rightarrow> ap_project env (ap_replay a) tables b \<noteq> None))"

text \<open>The tables a finalize leaves behind, where it can project the payload.\<close>

definition projected :: "'b AppendEnv \<Rightarrow> Appender \<Rightarrow> 'b \<Rightarrow> Event \<Rightarrow> string \<Rightarrow> 'b option" where
  "projected env a tables e dg =
     (case resolveProjectionBatch env a e dg of Inl _ \<Rightarrow> None
      | Inr batch \<Rightarrow> if check_batch (ap_computer a) dg (ev_Kind e) batch \<noteq> None then None
          else case batch of None \<Rightarrow> Some tables | Some b \<Rightarrow> ap_project env (ap_replay a) tables b)"

lemma projectable_iff: "projectable env a tables e dg \<longleftrightarrow> projected env a tables e dg \<noteq> None"
  by (auto simp: projectable_def projected_def split: sum.splits option.splits)

lemma projected_plain: "ev_Kind e \<noteq> EventProjectionBatchRecorded \<Longrightarrow> projected env a tables e dg = Some tables"
  by (simp add: projected_def resolveProjectionBatch_def check_batch_def)

lemma projectable_plain: "ev_Kind e \<noteq> EventProjectionBatchRecorded \<Longrightarrow> projectable env a tables e dg"
  by (simp add: projectable_def resolveProjectionBatch_def check_batch_def)

definition marked :: "string \<Rightarrow> string \<Rightarrow> json \<Rightarrow> string \<Rightarrow> IndexRow \<Rightarrow> IndexRow" where
  "marked c dg doc rd x = (if ix_computer x = c \<and> ix_digest x = dg \<and> ix_status x = StatusPrepared
     then x\<lparr>ix_status := StatusFinalized, ix_receipt := Some doc, ix_receipt_digest := rd\<rparr> else x)"

lemma marked_ids [simp]:
  "ix_computer (marked c dg doc rd x) = ix_computer x" "ix_key (marked c dg doc rd x) = ix_key x" "ix_digest (marked c dg doc rd x) = ix_digest x"
  "ix_sequence (marked c dg doc rd x) = ix_sequence x"
  by (simp_all add: marked_def)

lemma marked_status [simp]:
  "ix_status (marked c dg doc rd x) = (if ix_computer x = c \<and> ix_digest x = dg \<and> ix_status x = StatusPrepared then StatusFinalized else ix_status x)"
  by (simp add: marked_def)

lemma filter_single: "distinct (map f xs) \<Longrightarrow> x \<in> set xs \<Longrightarrow> P x \<Longrightarrow> (\<And>y. P y \<Longrightarrow> f y = f x) \<Longrightarrow> filter P xs = [x]"
proof (induction xs)
  case (Cons y ys)
  have out: "f y \<noteq> f z" if "z \<in> set ys" for z using Cons.prems(1) that by auto
  show ?case
  proof (cases "x = y")
    case True
    then have "filter P ys = []" using Cons.prems(4) out unfolding filter_empty_conv by metis
    then show ?thesis using True Cons.prems(3) by simp
  next
    case False
    then have x: "x \<in> set ys" using Cons.prems(2) by simp
    then have "\<not> P y" using Cons.prems(4) [of y] out [OF x] by auto
    then show ?thesis using Cons.IH [OF _ x Cons.prems(3,4)] Cons.prems(1) by simp
  qed
qed simp

lemma find_single: "filter P xs = [x] \<Longrightarrow> find P xs = Some x"
  by (induction xs) (auto split: if_splits)

lemma finalize_prepared:
  assumes inv: "proj_inv p" and row: "index_row body q \<in> set (pj_index p)"
    and red: "Reduce uuid7 sha (pj_heads p (ap_computer a)) (rq_Event q) (rq_Input q) = Inr (rq_Next q)"
    and dg: "EventDigest q = sha (bytes_of (rq_Event q))" and c: "ev_ComputerID (rq_Event q) = ap_computer a"
    and bind: "receipt_binds receipt (EventDigest q)"
    and ev: "ev_Kind e = ev_Kind (rq_Event q)" "projectable env a (pj_tables p) e (EventDigest q)"
    and flt: "\<And>s. \<not> flt s"
  shows "\<exists>p' doc rd. finalizeProjection env flt a p e (EventDigest q) receipt = (None, p')
    \<and> pj_heads p' = (pj_heads p)(ap_computer a \<mapsto> rq_Next q) \<and> pj_index p' = map (marked (ap_computer a) (EventDigest q) doc rd) (pj_index p)
    \<and> projected env a (pj_tables p) e (EventDigest q) = Some (pj_tables p')"
proof -
  let ?c = "ap_computer a" and ?dg = "EventDigest q" and ?r = "index_row body q"
  obtain doc rb where rb: "Receipt_values True receipt = Inr doc" "Receipt_CanonicalBytes receipt = Inr rb"
      "ReceiptKind receipt = ''EventHeadReceipt''" "map_of (KindFields receipt) ''event_digest'' = Some (DStr ?dg)"
    using bind by (auto simp: receipt_binds_def)
  obtain batch where b: "resolveProjectionBatch env a e ?dg = Inr batch" "check_batch ?c ?dg (ev_Kind e) batch = None"
      "case batch of None \<Rightarrow> True | Some b \<Rightarrow> ap_project env (ap_replay a) (pj_tables p) b \<noteq> None"
    using ev(2) by (auto simp: projectable_def)
  obtain tables where tb: "(case batch of None \<Rightarrow> Some (pj_tables p) | Some b \<Rightarrow> ap_project env (ap_replay a) (pj_tables p) b) = Some tables"
    using b(3) by (auto split: option.splits)
  have r: "ix_computer ?r = ?c" "ix_digest ?r = ?dg" "ix_status ?r = StatusPrepared" "ix_kind ?r = ev_Kind e"
      "ix_sequence ?r = ev_Sequence (rq_Event q)" "ix_previous ?r = PreviousHead (rq_Event q)"
    using c ev(1) by (simp_all add: index_row_def Let_def)
  have d: "distinct (map ix_digest (pj_index p))" using inv by (simp add: proj_inv_def index_ok_def)
  have f: "filter (\<lambda>x. ix_computer x = ?c \<and> ix_digest x = ?dg \<and> ix_status x = StatusPrepared) (pj_index p) = [?r]"
    by (rule filter_single [OF d row]) (use r in auto)
  have "filter (\<lambda>x. ix_computer x = ?c \<and> ix_digest x = ?dg) (pj_index p) = [?r]"
    by (rule filter_single [OF d row]) (use r in auto)
  then have fd: "find (\<lambda>x. ix_computer x = ?c \<and> ix_digest x = ?dg) (pj_index p) = Some ?r"
    by (rule find_single)
  have hd: "row_head ?c ?r = rq_Next q"
    using row_head_index [of q body] Reduce_ids [OF red] c dg by simp
  obtain p' where p': "finalize_transaction (ap_sha env) flt (ap_project env) p ?c ?dg doc (ap_sha env rb) batch (ap_replay a) ?r = Inr p'"
    using flt tb Reduce_links [OF red] r f by (auto simp: finalize_transaction_def Let_def split: option.splits)
  note s = finalize_transaction_Inr [OF p']
  have "finalizeBatch (ap_sha env) flt (ap_project env) p ?c ?dg receipt batch (ap_replay a) = after_finalize flt (ap_replay a) p'"
    using rb(3) r(3) flt unfolding finalizeBatch_def Let_def rb(1,2,4) fd r(4) option.case sum.case dyn.case b(2) p'
    by simp
  moreover have "fst (after_finalize flt (ap_replay a) p') = None"
    using flt by (simp add: after_finalize_def commitDoltCheckpoint_def Let_def)
  ultimately have "finalizeProjection env flt a p e ?dg receipt = (None, snd (after_finalize flt (ap_replay a) p'))"
    using b(1) by (simp add: finalizeProjection_def map_prod_def case_prod_unfold)
  moreover have "pj_heads p' = (pj_heads p)(?c \<mapsto> rq_Next q)" using s hd by simp
  moreover have "pj_index p' = map (marked ?c ?dg doc (ap_sha env rb)) (pj_index p)" using s unfolding marked_def by (simp only:)
  moreover have "projected env a (pj_tables p) e ?dg = Some (pj_tables p')"
  proof -
    have "(case batch of None \<Rightarrow> Some (pj_tables p) | Some b \<Rightarrow> ap_project env (ap_replay a) (pj_tables p) b) = Some (pj_tables p')"
      using p' tb by (auto simp: finalize_transaction_def Let_def split: if_splits option.splits)
    then show ?thesis using b(1,2) by (simp add: projected_def)
  qed
  ultimately show ?thesis unfolding after_finalize_simps(1) [of flt "ap_replay a" p', symmetric]
      after_finalize_simps(2) [of flt "ap_replay a" p', symmetric] after_finalize_simps(3) [of flt "ap_replay a" p', symmetric] by blast
qed

text \<open>A payload that cannot be projected is refused, and the store keeps its prepared row.\<close>

lemma finalize_refused:
  assumes "proj_inv p" "r \<in> set (pj_index p)" "ix_computer r = ap_computer a" "ix_digest r = dg" "ix_status r = StatusPrepared" "ix_kind r = ev_Kind e"
    and np: "projected env a (pj_tables p) e dg = None"
  shows "\<exists>err. finalizeProjection env flt a p e dg receipt = (Some err, p)"
proof (cases "resolveProjectionBatch env a e dg")
  case (Inr batch)
  have d: "distinct (map ix_digest (pj_index p))" using assms(1) by (simp add: proj_inv_def index_ok_def)
  have "filter (\<lambda>x. ix_computer x = ap_computer a \<and> ix_digest x = dg) (pj_index p) = [r]"
    by (rule filter_single [OF d assms(2)]) (use assms in auto)
  then have fd: "find (\<lambda>x. ix_computer x = ap_computer a \<and> ix_digest x = dg) (pj_index p) = Some r" by (rule find_single)
  have tb: "check_batch (ap_computer a) dg (ev_Kind e) batch \<noteq> None
      \<or> (case batch of None \<Rightarrow> Some (pj_tables p) | Some b \<Rightarrow> ap_project env (ap_replay a) (pj_tables p) b) = None"
    using np Inr by (auto simp: projected_def split: if_splits)
  then have ft: "check_batch (ap_computer a) dg (ev_Kind e) batch = None
      \<Longrightarrow> finalize_transaction (ap_sha env) flt (ap_project env) p (ap_computer a) dg doc rd batch (ap_replay a) r \<noteq> Inr p'" for doc rd p'
    by (auto simp: finalize_transaction_def Let_def)
  have "\<exists>x. finalizeBatch (ap_sha env) flt (ap_project env) p (ap_computer a) dg receipt batch (ap_replay a) = (Some x, p)"
    using ft unfolding finalizeBatch_def Let_def fd option.case assms(6) by (auto simp: assms(5) split: sum.split option.split)
  then show ?thesis using Inr by (auto simp: finalizeProjection_def)
qed (simp add: finalizeProjection_def)

text \<open>A swap for a freshly prepared request in a settled world cannot meet an older receipt: it changes nothing and reports an
  error, or it records the request.\<close>

lemma swap_outcome:
  assumes "settled (ev_ComputerID (rq_Event q)) t p" "Prepare uuid7 sha flt' p q = Inr p1"
    and "fresh_digest (ev_ComputerID (rq_Event q)) p (EventDigest q)" "CompareAndSwap env flt uuid now t q = (res, t')"
  obtains (refused) err where "t' = t" "res = Inl err"
  | (recorded) r where "cas_transaction env flt uuid now t q = Inr (r, t')" "res = (if flt CommitTxLost then Inl CommitFailed else if flt CommitDolt then Inl DoltCommitFailed else Inr r)"
      "admit_request env q = None" "ce_pins env q"
proof -
  let ?c = "ev_ComputerID (rq_Event q)"
  have "x \<notin> set (append_rows t)" if "ar_computer x = ?c" "ar_key x = IdempotencyKey (rq_Event q)" for x
    using assms(1) that prepared_row(4) [OF assms(2,3)] unfolding settled_def by fastforce
  then have "find (\<lambda>x. ar_computer x = ?c \<and> ar_key x = IdempotencyKey (rq_Event q)) (append_rows t) = None"
    by (auto simp: find_None_iff)
  then have "existingComputerEventReceipt failed t ?c (IdempotencyKey (rq_Event q)) (RequestCommitment (rq_Event q))
      = (if failed then Some (Inl ReadFailed) else None)" for failed
    by (simp add: existingComputerEventReceipt_def)
  then have "(\<exists>err. t' = t \<and> res = Inl err) \<or> (\<exists>r. cas_transaction env flt uuid now t q = Inr (r, t') \<and> admit_request env q = None \<and> ce_pins env q
      \<and> res = (if flt CommitTxLost then Inl CommitFailed else if flt CommitDolt then Inl DoltCommitFailed else Inr r))"
    using assms(4) unfolding CompareAndSwap_def Let_def by (simp split: option.splits if_splits sum.splits prod.splits) auto
  then show thesis using refused recorded by blast
qed

lemma settled_same: "settled c t p \<Longrightarrow> pj_heads p' c = pj_heads p c \<Longrightarrow> pj_index p' = pj_index p \<Longrightarrow> settled c t p'"
  by (simp add: settled_def)

lemma settled_moved:
  assumes "settled (ev_ComputerID (rq_Event q)) t p" "Prepare uuid7 sha flt' p q = Inr p1"
    and "fresh_digest (ev_ComputerID (rq_Event q)) p (EventDigest q)" "cas_transaction env flt uuid now t q = Inr (r, t')"
    and "pj_heads p2 (ev_ComputerID (rq_Event q)) = Some (rq_Next q)"
    and "pj_index p2 = map (marked (ev_ComputerID (rq_Event q)) (EventDigest q) doc rd) (pj_index p1)"
  shows "settled (ev_ComputerID (rq_Event q)) t' p2"
proof -
  let ?c = "ev_ComputerID (rq_Event q)" and ?m = "marked (ev_ComputerID (rq_Event q)) (EventDigest q) doc rd"
  let ?row = "index_row (bytes_of (rq_Event q)) q"
  obtain doc' body where s: "event_heads t' = (event_heads t)(?c \<mapsto> rq_Next q)"
      "append_rows t' = append_rows t @ [append_row (ce_sha env) q r doc' body]"
    using cas_transaction_Inr [OF assms(4)] by blast
  have ix: "pj_index p2 = map ?m (pj_index p) @ [?m ?row]"
    unfolding assms(6) prepared_row(1) [OF assms(2,3)] map_append list.map by (rule refl)
  have row: "ix_computer ?row = ?c" "ix_key ?row = IdempotencyKey (rq_Event q)" "ix_digest ?row = EventDigest q" "ix_status (?m ?row) = StatusFinalized"
    by (simp_all add: index_row_def Let_def)
  have "ix_status (?m x) \<noteq> StatusPrepared" if "x \<in> set (pj_index p)" "ix_computer x = ?c" for x
    using assms(1) that by (auto simp: settled_def)
  then have none: "\<forall>x \<in> set (pj_index p2). ix_computer x = ?c \<longrightarrow> ix_status x \<noteq> StatusPrepared"
    unfolding ix set_append set_map using row(4) marked_ids(1) by auto
  have "\<exists>y \<in> set (pj_index p2). ix_computer y = ?c \<and> ix_key y = ar_key x \<and> ix_digest y = ar_digest x" if "x \<in> set (rows_of t' ?c)" for x
  proof (cases "x \<in> set (rows_of t ?c)")
    case True
    then obtain y where "y \<in> set (pj_index p)" "ix_computer y = ?c" "ix_key y = ar_key x" "ix_digest y = ar_digest x"
      using assms(1) unfolding settled_def by blast
    then show ?thesis unfolding ix by (intro bexI [of _ "?m y"]) simp_all
  next
    case False
    then have "x = append_row (ce_sha env) q r doc' body" using that s(2) by auto
    then show ?thesis unfolding ix using row(1-3) by (intro bexI [of _ "?m ?row"]) simp_all
  qed
  then show ?thesis using none assms(5) s(1) by (simp add: settled_def)
qed

section \<open>Recovery\<close>

text \<open>The guest knows the platform's key for every event, and the platform's receipts are well-formed text.\<close>

definition trusted :: "'b AppendEnv \<Rightarrow> (string \<Rightarrow> string) \<Rightarrow> bool" where
  "trusted env pub \<longleftrightarrow> NewComputerEventCAS (ce_issuer (ap_cas env)) (ce_key (ap_cas env))
     \<and> ValidString (KeyID (sk_Ref (ce_key (ap_cas env)))) \<and> scheme_ok (ce_crypto (ap_cas env)) pub \<and> crypto_text_ok (ce_crypto (ap_cas env))
     \<and> (\<forall>c sq now. ap_keys env (SignerDomain (sk_Ref (ce_key (ap_cas env)))) c (KeyID (sk_Ref (ce_key (ap_cas env)))) sq now
          = Some (pub (PrivateKey (ce_key (ap_cas env)))))"

definition stamp_ok :: "'b AppendEnv \<Rightarrow> AppendFaults \<Rightarrow> bool" where
  "stamp_ok env f \<longleftrightarrow> ap_uuid7 env (f_uuid f) \<and> canonicalUTC (f_now f) \<and> ValidString (f_uuid f) \<and> ValidString (f_now f)"

text \<open>No call fails, no answer is lost.\<close>

definition calm :: "AppendFaults \<Rightarrow> bool" where
  "calm f \<longleftrightarrow> \<not> f_head f \<and> \<not> f_lost f \<and> \<not> f_expired f \<and> (\<forall>s. \<not> f_swap f s)
     \<and> (\<forall>s. \<not> f_store f s \<and> \<not> f_discard f s \<and> \<not> f_finalize f s \<and> \<not> f_commit f s \<and> \<not> f_flush f s)"

text \<open>The request as it is read back after a restart is the same for the platform.\<close>

lemma published_same:
  "head_receipt_fields (q\<lparr>rq_Event := published (rq_Event q)\<rparr>) = head_receipt_fields q"
  "admit_request env (q\<lparr>rq_Event := published (rq_Event q)\<rparr>) = admit_request env q"
proof -
  have i: "requestIntent (published (rq_Event q)) (rq_Input q) = requestIntent (rq_Event q) (rq_Input q)"
    by (simp add: requestIntent_def struct_json_def intent_fields_def event_fields_def)
  show "head_receipt_fields (q\<lparr>rq_Event := published (rq_Event q)\<rparr>) = head_receipt_fields q" by (simp add: head_receipt_fields_def)
  show "admit_request env (q\<lparr>rq_Event := published (rq_Event q)\<rparr>) = admit_request env q"
    by (simp add: admit_request_def ComputePinIntentCommitment_def ComputeRequestCommitment_def request_json_def i cong: sum.case_cong if_cong)
qed

text \<open>An append that got past its prepare step, in a world that was settled before it.\<close>

definition started :: "'b AppendEnv \<Rightarrow> Appender \<Rightarrow> EventTables \<Rightarrow> 'b Projection \<Rightarrow> CASRequest \<Rightarrow> 'b Projection \<Rightarrow> bool" where
  "started env a t p q p1 \<longleftrightarrow> settled (ap_computer a) t p \<and> proj_inv p \<and> ev_ComputerID (rq_Event q) = ap_computer a
     \<and> Reduce (ap_uuid7 env) (ap_sha env) (event_heads t (ap_computer a)) (rq_Event q) (rq_Input q) = Inr (rq_Next q)
     \<and> EventDigest q = ap_sha env (bytes_of (rq_Event q)) \<and> fresh_digest (ap_computer a) p (EventDigest q)
     \<and> ComputePinIntentCommitment (ap_sha env) (rq_Event q) (rq_Input q) = Inr (PinIntentCommitment q)
     \<and> (\<exists>flt. Prepare (ap_uuid7 env) (ap_sha env) flt p q = Inr p1)"

text \<open>What recovery of a request relies on: a live appender that trusts the platform's key, readable text, a sequence number
  in the signed range, an event that decodes, pins that do not depend on the caller's local flag, and a payload that projects.\<close>

definition recoverable :: "'b AppendEnv \<Rightarrow> (string \<Rightarrow> string) \<Rightarrow> AppendFaults \<Rightarrow> Appender \<Rightarrow> 'b \<Rightarrow> CASRequest \<Rightarrow> bool" where
  "recoverable env pub f a tables q \<longleftrightarrow> \<not> ap_replay a \<and> trusted env pub \<and> stamp_ok env f \<and> view_text_ok q
     \<and> int (unat (ev_Sequence (rq_Event q))) \<le> int64_max
     \<and> ap_decode env (bytes_of (rq_Event q)) = Some (published (rq_Event q))
     \<and> (ce_pins (ap_cas env) q \<longrightarrow> ce_pins (ap_cas env) (q\<lparr>rq_Event := published (rq_Event q)\<rparr>))
     \<and> projectable env a tables (published (rq_Event q)) (EventDigest q)"

lemma recover_listing:
  assumes "started env a t p q p1" "recoverable env pub f a (pj_tables p) q" "\<not> flt PjList" "w_store w = p1"
  shows "RecoverPrepared env flt fs a w = recover_all env fs a w [q\<lparr>rq_Event := published (rq_Event q)\<rparr>]"
proof -
  note s = assms(1) [unfolded started_def] and rc = assms(2) [unfolded recoverable_def]
  obtain flt' where pr: "Prepare (ap_uuid7 env) (ap_sha env) flt' p q = Inr p1" using s by blast
  have none: "\<forall>r \<in> set (pj_index p). ix_computer r = ev_ComputerID (rq_Event q) \<longrightarrow> ix_status r \<noteq> StatusPrepared"
      "\<forall>r \<in> set (pj_index p). ix_computer r = ev_ComputerID (rq_Event q) \<longrightarrow> ix_digest r \<noteq> EventDigest q"
    using s by (auto simp: settled_def fresh_digest_def)
  have red: "Reduce (ap_uuid7 env) (ap_sha env) (event_heads t (ap_computer a)) (rq_Event q) (rq_Input q) = Inr (rq_Next q)"
    and pin: "ComputePinIntentCommitment (ap_sha env) (rq_Event q) (rq_Input q) = Inr (PinIntentCommitment q)" using s by blast+
  have "Prepared (ap_sha env) (ap_decode env) flt p1 (ev_ComputerID (rq_Event q)) = Inr [q\<lparr>rq_Event := published (rq_Event q)\<rparr>]"
    by (rule prepared_listing [where decode = "ap_decode env", OF pr none red pin]) (use rc assms(3) in auto)
  then show ?thesis using s assms(4) by (simp add: RecoverPrepared_def)
qed

lemma recover_uncommitted:
  assumes "started env a t p q p1" "recoverable env pub f a (pj_tables p) q" "\<not> flt PjList" "calm (fs (EventDigest q))"
    and "w_store w = p1" "w_platform w = t"
  shows "\<exists>w2. RecoverPrepared env flt fs a w = (None, w2) \<and> settled (ap_computer a) (w_platform w2) (w_store w2)"
proof -
  note s = assms(1) [unfolded started_def]
  let ?q = "q\<lparr>rq_Event := published (rq_Event q)\<rparr>" and ?f = "fs (EventDigest q)"
  obtain flt' where pr: "Prepare (ap_uuid7 env) (ap_sha env) flt' p q = Inr p1" using s by blast
  have c: "ev_ComputerID (rq_Event q) = ap_computer a" using s by blast
  have fr: "fresh_digest (ev_ComputerID (rq_Event q)) p (EventDigest q)" unfolding c using s by blast
  have rp: "\<not> ap_replay a" and ff: "\<not> f_head ?f" "\<And>x. \<not> f_discard ?f x"
    using assms(2,4) by (simp_all add: recoverable_def calm_def)
  have l: "case event_heads t (ap_computer a) of None \<Rightarrow> ev_Sequence (rq_Event q) = 1 \<and> PreviousHead (rq_Event q) = ZeroHead
      | Some h \<Rightarrow> ev_Sequence (rq_Event q) = h_Sequence h + 1 \<and> PreviousHead (rq_Event q) = CanonicalEventHead h"
    using s by (blast intro: Reduce_links)
  let ?d = "DiscardPrepared (f_discard ?f) p1 (ap_computer a) (EventDigest q)"
  have "fst ?d = None" using ff by (simp add: DiscardPrepared_def commitDoltCheckpoint_def)
  then have "recover_one env ?f a w ?q = (None, w\<lparr>w_store := snd ?d\<rparr>)"
    using l rp ff assms(5,6) by (auto simp: recover_one_def Let_def split: option.splits prod.splits)
  then have "RecoverPrepared env flt fs a w = (None, w\<lparr>w_store := snd ?d\<rparr>)"
    using recover_listing [where flt = flt and fs = fs, OF assms(1-3,5)] by simp
  moreover have "settled (ap_computer a) t (snd ?d)"
    by (rule settled_same [of _ t p]) (use s discard_undoes [OF pr fr, of "f_discard ?f", unfolded c] ff in simp_all)
  ultimately show ?thesis using assms(6) by simp
qed

lemma recover_recorded:
  assumes "started env a t p q p1" "recoverable env pub f a (pj_tables p) q" "\<not> flt PjList" "calm (fs (EventDigest q))"
    and "w_store w = p1" "CompareAndSwap (ap_cas env) (f_swap f) (f_uuid f) (f_now f) t q = (res, w_platform w)" "w_platform w \<noteq> t"
  shows "\<exists>w2. RecoverPrepared env flt fs a w = (None, w2) \<and> settled (ap_computer a) (w_platform w2) (w_store w2)"
proof -
  note s = assms(1) [unfolded started_def] and rc = assms(2) [unfolded recoverable_def]
  let ?q = "q\<lparr>rq_Event := published (rq_Event q)\<rparr>" and ?f = "fs (EventDigest q)" and ?c = "ap_computer a"
  obtain flt' where pr: "Prepare (ap_uuid7 env) (ap_sha env) flt' p q = Inr p1" using s by blast
  have c: "ev_ComputerID (rq_Event q) = ?c" and fr: "fresh_digest (ev_ComputerID (rq_Event q)) p (EventDigest q)"
    and st: "settled (ev_ComputerID (rq_Event q)) t p" and red: "Reduce (ap_uuid7 env) (ap_sha env) (event_heads t ?c) (rq_Event q) (rq_Input q) = Inr (rq_Next q)"
    and dg: "EventDigest q = ap_sha env (bytes_of (rq_Event q))" and inv: "proj_inv p"
    using s by auto
  obtain r where tr: "cas_transaction (ap_cas env) (f_swap f) (f_uuid f) (f_now f) t q = Inr (r, w_platform w)"
      "admit_request (ap_cas env) q = None" "ce_pins (ap_cas env) q"
    using assms(7) by (cases rule: swap_outcome [OF st pr fr assms(6)]) auto
  have hd: "event_heads (w_platform w) ?c = Some (rq_Next q)" using cas_transaction_Inr [OF tr(1)] c by auto
  obtain r' where r': "CompareAndSwap (ap_cas env) (f_swap ?f) (f_uuid ?f) (f_now ?f) (w_platform w) ?q = (Inr (stored_form r'), w_platform w)"
      "VerifyEventHeadReceipt (ap_uuid7 env) (ce_crypto (ap_cas env)) (Some (ap_keys env)) (stored_form r') ?q = None"
      "receipt_binds (stored_form r') (EventDigest q)"
    using swap_retry [where resolve = "ap_keys env" and q' = ?q and flt' = "f_swap ?f" and pub = pub and uuid' = "f_uuid ?f" and now' = "f_now ?f",
        OF assms(6,7)] rc tr(2,3) published_same assms(4) unfolding trusted_def stamp_ok_def calm_def by auto
  have p1: "pj_heads p1 = pj_heads p" "pj_tables p1 = pj_tables p" "index_row (bytes_of (rq_Event q)) q \<in> set (pj_index p1)"
    using prepared_row [OF pr fr] by simp_all
  have red1: "Reduce (ap_uuid7 env) (ap_sha env) (pj_heads p1 ?c) (rq_Event q) (rq_Input q) = Inr (rq_Next q)"
    using red st c unfolding p1(1) by (simp add: settled_def)
  obtain p2 doc rd where p2: "finalizeProjection env (f_finalize ?f) a p1 (published (rq_Event q)) (EventDigest q) (stored_form r') = (None, p2)"
      "pj_heads p2 = (pj_heads p1)(?c \<mapsto> rq_Next q)" "pj_index p2 = map (marked ?c (EventDigest q) doc rd) (pj_index p1)"
    using finalize_prepared [OF Prepare_inv [OF inv pr] p1(3) red1 dg c r'(3), where e = "published (rq_Event q)" and env = env and flt = "f_finalize ?f"]
      rc assms(4) unfolding p1(2) calm_def by auto
  have "recover_one env ?f a w ?q = (None, w\<lparr>w_store := p2\<rparr>)"
    using hd Reduce_ids [OF red] dg rc assms(4,5) r'(1,2) p2(1) unfolding recover_one_def calm_def by (simp add: Let_def)
  then have "RecoverPrepared env flt fs a w = (None, w\<lparr>w_store := p2\<rparr>)"
    using recover_listing [where flt = flt and fs = fs, OF assms(1-3,5)] by simp
  moreover have "settled ?c (w_platform w) p2"
    using settled_moved [OF st pr fr tr(1), of p2 doc rd] p2(2,3) unfolding c by simp
  ultimately show ?thesis by simp
qed

section \<open>What an append leaves behind\<close>

lemma finalize_outcome:
  assumes inv: "proj_inv p" and row: "index_row body q \<in> set (pj_index p)"
    and red: "Reduce uuid7 sha g (rq_Event q) (rq_Input q) = Inr (rq_Next q)"
    and dg: "EventDigest q = sha (bytes_of (rq_Event q))" and c: "ev_ComputerID (rq_Event q) = ap_computer a"
    and fin: "finalizeProjection env flt a p e (EventDigest q) receipt = (err, p2)"
  obtains (kept) x where "p2 = p" "err = Some x"
  | (moved) doc rd where "pj_heads p2 = (pj_heads p)(ap_computer a \<mapsto> rq_Next q)"
      "pj_index p2 = map (marked (ap_computer a) (EventDigest q) doc rd) (pj_index p)"
proof -
  let ?c = "ap_computer a" and ?dg = "EventDigest q" and ?r = "index_row body q"
  have r: "ix_computer ?r = ?c" "ix_digest ?r = ?dg" "ix_status ?r = StatusPrepared"
    using c by (simp_all add: index_row_def Let_def)
  have d: "distinct (map ix_digest (pj_index p))" using inv by (simp add: proj_inv_def index_ok_def)
  have "filter (\<lambda>x. ix_computer x = ?c \<and> ix_digest x = ?dg) (pj_index p) = [?r]"
    by (rule filter_single [OF d row]) (use r in auto)
  then have fd: "find (\<lambda>x. ix_computer x = ?c \<and> ix_digest x = ?dg) (pj_index p) = Some ?r" by (rule find_single)
  have hd: "row_head ?c ?r = rq_Next q" using row_head_index [of q body] Reduce_ids [OF red] c dg by simp
  show thesis
  proof (cases "resolveProjectionBatch env a e ?dg")
    case (Inl x)
    then show thesis using fin kept by (auto simp: finalizeProjection_def)
  next
    case (Inr batch)
    let ?F = "finalizeBatch (ap_sha env) flt (ap_project env) p ?c ?dg receipt batch (ap_replay a)"
    have F: "err = map_option StoreFailure (fst ?F)" "p2 = snd ?F"
      using fin Inr by (simp_all add: finalizeProjection_def map_prod_def case_prod_unfold)
    show thesis
    proof (cases rule: finalizeBatch_cases [of "ap_sha env" flt "ap_project env" p ?c ?dg receipt batch "ap_replay a"])
      case unchanged
      show thesis
      proof (cases "fst ?F")
        case (Some y)
        then show thesis using kept F unchanged by simp
      next
        case None
        then obtain doc rd p' where tr: "finalize_transaction (ap_sha env) flt (ap_project env) p ?c ?dg doc rd batch (ap_replay a) ?r = Inr p'"
            "?F = after_finalize flt (ap_replay a) p'"
          using r(3) unfolding finalizeBatch_def fd Let_def by (auto split: if_splits sum.splits option.splits)
        note s = finalize_transaction_Inr [OF tr(1)]
        have "pj_heads p2 = (pj_heads p)(?c \<mapsto> rq_Next q)" using s hd F(2) tr(2) by simp
        moreover have "pj_index p2 = map (marked ?c ?dg doc rd) (pj_index p)"
          using s unfolding F(2) tr(2) after_finalize_simps marked_def by (simp only:)
        ultimately show thesis by (rule moved)
      qed
    next
      case (moved r' p' doc rd)
      have "r' = ?r" using moved(1) fd by simp
      note s = finalize_transaction_Inr [OF moved(4) [unfolded this]]
      have "pj_heads p2 = (pj_heads p)(?c \<mapsto> rq_Next q)" using s hd F(2) moved(5) by simp
      moreover have "pj_index p2 = map (marked ?c ?dg doc rd) (pj_index p)"
        using s unfolding F(2) moved(5) after_finalize_simps marked_def by (simp only:)
      ultimately show thesis by (rule that(2))
    qed
  qed
qed

lemma started_facts:
  assumes "started env a t p q p1"
  obtains flt where "Prepare (ap_uuid7 env) (ap_sha env) flt p q = Inr p1" "ev_ComputerID (rq_Event q) = ap_computer a"
    "fresh_digest (ev_ComputerID (rq_Event q)) p (EventDigest q)" "settled (ev_ComputerID (rq_Event q)) t p"
    "Reduce (ap_uuid7 env) (ap_sha env) (event_heads t (ap_computer a)) (rq_Event q) (rq_Input q) = Inr (rq_Next q)"
    "EventDigest q = ap_sha env (bytes_of (rq_Event q))" "proj_inv p1" "index_row (bytes_of (rq_Event q)) q \<in> set (pj_index p1)"
proof -
  note s = assms [unfolded started_def]
  obtain flt where pr: "Prepare (ap_uuid7 env) (ap_sha env) flt p q = Inr p1" using s by blast
  have c: "ev_ComputerID (rq_Event q) = ap_computer a" using s by blast
  have fr: "fresh_digest (ev_ComputerID (rq_Event q)) p (EventDigest q)" and sd: "settled (ev_ComputerID (rq_Event q)) t p"
    unfolding c using s by blast+
  have "proj_inv p1" using s Prepare_inv [OF _ pr] by blast
  then show thesis using that [OF pr c fr sd] s prepared_row(1) [OF pr fr] by auto
qed

text \<open>After the platform recorded the request: the row is still prepared, or both sides moved.\<close>

lemma submit_recorded:
  assumes st: "started env a t p q p1" and tr: "cas_transaction (ap_cas env) flt uuid now t q = Inr (r, t')"
    and fin: "finalizeProjection env flt' a p1 (rq_Event q) (EventDigest q) r = (err, p2)"
  obtains (kept) x where "p2 = p1" "err = Some x"
  | (both) "settled (ap_computer a) t' p2" "event_heads t' (ap_computer a) = Some (rq_Next q)"
proof -
  obtain fl where s: "Prepare (ap_uuid7 env) (ap_sha env) fl p q = Inr p1" "ev_ComputerID (rq_Event q) = ap_computer a"
    "fresh_digest (ev_ComputerID (rq_Event q)) p (EventDigest q)" "settled (ev_ComputerID (rq_Event q)) t p"
    "Reduce (ap_uuid7 env) (ap_sha env) (event_heads t (ap_computer a)) (rq_Event q) (rq_Input q) = Inr (rq_Next q)"
    "EventDigest q = ap_sha env (bytes_of (rq_Event q))" "proj_inv p1" "index_row (bytes_of (rq_Event q)) q \<in> set (pj_index p1)"
    using started_facts [OF st] .
  show thesis
    using s(7,8,5,6,2) fin
  proof (cases rule: finalize_outcome)
    case (moved doc rd)
    have "settled (ap_computer a) t' p2" using settled_moved [OF s(4,1,3) tr, of p2 doc rd] moved unfolding s(2) by simp
    moreover have "event_heads t' (ap_computer a) = Some (rq_Next q)" using cas_transaction_Inr [OF tr] s(2) by auto
    ultimately show thesis by (rule both)
  qed (use kept in blast)
qed

text \<open>The four ways a submitted request ends: its row is still prepared; the row is discarded and the platform did not move; the row
  is discarded although the platform moved; or both sides moved.\<close>

lemma submit_cases:
  assumes st: "started env a t p q p1" and sub: "submit env f a w q = (res, w1)" "w_platform w = t" "w_store w = p1"
  obtains (pending) err res' where "res = Inl err" "w_store w1 = p1" "err \<in> {SwapLost, SwapFailed CommitFailed, SwapFailed DoltCommitFailed} \<Longrightarrow> f_discard f PjDelete"
      "CompareAndSwap (ap_cas env) (f_swap f) (f_uuid f) (f_now f) t q = (res', w_platform w1)"
  | (discarded) err where "res = Inl err" "w_platform w1 = t" "pj_index (w_store w1) = pj_index p" "pj_heads (w_store w1) = pj_heads p"
  | (lost) res' where "res \<in> {Inl SwapLost, Inl (SwapFailed CommitFailed), Inl (SwapFailed DoltCommitFailed)}"
      "CompareAndSwap (ap_cas env) (f_swap f) (f_uuid f) (f_now f) t q = (res', w_platform w1)" "w_platform w1 \<noteq> t"
      "pj_index (w_store w1) = pj_index p" "pj_heads (w_store w1) = pj_heads p"
  | (both) "settled (ap_computer a) (w_platform w1) (w_store w1)" "event_heads (w_platform w1) (ap_computer a) = Some (rq_Next q)"
      "\<And>r. res = Inr r \<Longrightarrow> VerifyEventHeadReceipt (ap_uuid7 env) (ce_crypto (ap_cas env)) (Some (ap_keys env)) r q = None"
      "res \<notin> {Inl SwapLost, Inl (SwapFailed CommitFailed), Inl (SwapFailed DoltCommitFailed)}"
proof -
  obtain fl where s: "Prepare (ap_uuid7 env) (ap_sha env) fl p q = Inr p1" "ev_ComputerID (rq_Event q) = ap_computer a"
    "fresh_digest (ev_ComputerID (rq_Event q)) p (EventDigest q)" "settled (ev_ComputerID (rq_Event q)) t p"
    using started_facts [OF st] .
  obtain res' t' where sw: "CompareAndSwap (ap_cas env) (f_swap f) (f_uuid f) (f_now f) t q = (res', t')" by fastforce
  let ?d = "snd (DiscardPrepared (f_discard f) p1 (ap_computer a) (EventDigest q))"
  have out: thesis if "submit env f a w q = (Inl err, w\<lparr>w_platform := t', w_store := ?d\<rparr>)"
      "t' \<noteq> t \<Longrightarrow> err \<in> {SwapLost, SwapFailed CommitFailed, SwapFailed DoltCommitFailed}" for err
  proof (cases "f_discard f PjDelete")
    case True
    then have "?d = p1" by (simp add: DiscardPrepared_def)
    then show thesis using that(1) sub(1) pending sw True by auto
  next
    case False
    note d = discard_undoes [where flt' = "f_discard f", OF s(1,3) False, unfolded s(2)]
    show thesis using that sub(1) discarded lost sw d by (cases "t' = t") auto
  qed
  show thesis
    using s(4,1,3) sw
  proof (cases rule: swap_outcome)
    case (refused err)
    then show thesis using out [of "if f_lost f then SwapLost else SwapFailed err"] sub(2,3) sw by (simp add: submit_def Let_def)
  next
    case (recorded r)
    show thesis
    proof (cases "f_lost f \<or> f_swap f CommitTxLost \<or> f_swap f CommitDolt")
      case True
      then show thesis using out [of "if f_lost f then SwapLost else SwapFailed (if f_swap f CommitTxLost then CommitFailed else DoltCommitFailed)"] recorded(2) sub(2,3) sw
        by (auto simp: submit_def Let_def split: if_splits)
    next
      case False
      then have ok: "res' = Inr r" "\<not> f_lost f" using recorded(2) by simp_all
      show thesis
      proof (cases "VerifyEventHeadReceipt (ap_uuid7 env) (ce_crypto (ap_cas env)) (Some (ap_keys env)) r q")
        case (Some err)
        then show thesis using pending sub sw ok by (auto simp: submit_def Let_def)
      next
        case None
        obtain err p2 where fin: "finalizeProjection env (f_finalize f) a p1 (rq_Event q) (EventDigest q) r = (err, p2)" by fastforce
        have sb: "(res, w1) = (case err of Some x \<Rightarrow> Inl (FinalizeFailed (ClassifyProjectionFailure x)) | None \<Rightarrow> Inr r, w\<lparr>w_platform := t', w_store := p2\<rparr>)"
          using sub sw ok None fin by (auto simp: submit_def Let_def split: option.splits)
        show thesis using st recorded(1) fin
          by (cases rule: submit_recorded) (use sb sw pending both None in \<open>auto split: option.splits\<close>)
      qed
    qed
  qed
qed

section \<open>Properties\<close>

lemma append_started:
  assumes "settled (ap_computer a) (w_platform w) (w_store w)" "proj_inv (w_store w)"
    and "fresh_digest (ap_computer a) (w_store w) (ap_sha env (bytes_of e))" "appendLocked env f a w e i pins = (res, w1)"
  obtains (unstarted) err where "res = Inl err" "w1 = w"
  | (submitted) q p1 v where "build_request env f a w e i pins = Inr q" "started env a (w_platform w) (w_store w) q p1"
      "submit env f a v q = (res, w1)" "w_platform v = w_platform w" "w_store v = p1"
proof (cases "build_request env f a w e i pins")
  case (Inl err)
  have "res = Inl err" "w1 = w" using Inl assms(4) by (simp_all add: appendLocked_def)
  then show thesis by (rule unstarted)
next
  case (Inr q)
  note b = build_request_Inr [OF Inr]
  show thesis
  proof (cases "Prepare (ap_uuid7 env) (ap_sha env) (f_store f) (w_store w) q")
    case (Inl err)
    have "res = Inl (PrepareFailed err)" "w1 = w" using Inl Inr assms(4) by (simp_all add: appendLocked_def)
    then show thesis by (rule unstarted)
  next
    case p1: (Inr p1)
    have "started env a (w_platform w) (w_store w) q p1" using b assms(1-3) p1 unfolding started_def by auto
    moreover have "submit env f a (w\<lparr>w_store := p1\<rparr>) q = (res, w1)" using Inr p1 assms(4) by (simp add: appendLocked_def)
    ultimately show thesis using Inr submitted [of q p1 "w\<lparr>w_store := p1\<rparr>"] by simp
  qed
qed

lemma Reduce_other_head: "Reduce uuid7 sha g e i = Inr n \<Longrightarrow> g \<noteq> Some n"
  using Reduce_increases by blast

lemma recorded_head:
  assumes "started env a t p q p1" "CompareAndSwap (ap_cas env) flt uuid now t q = (res, t')"
  shows "t' = t \<or> event_heads t' (ap_computer a) = Some (rq_Next q)"
  using assms unfolding started_def
  by (cases rule: CompareAndSwap_cases [of "ap_cas env" flt uuid now t q]) (auto dest: cas_transaction_Inr)

text \<open>C9: the two databases stay together. From a settled world, whatever fails during an append: if it returns a receipt, the world
  is settled again, both heads are what the reducer gives for the event and the receipt verifies; and in every case the
  platform's head is the old one or that one, and the embedded head is the old one or the platform's: it never runs ahead.\<close>

theorem append_keeps_heads_together:
  assumes "settled (ap_computer a) (w_platform w) (w_store w)" "proj_inv (w_store w)"
    and "fresh_digest (ap_computer a) (w_store w) (ap_sha env (bytes_of e))" "appendLocked env f a w e i pins = (res, w1)"
  shows "(\<forall>r. res = Inr r \<longrightarrow> settled (ap_computer a) (w_platform w1) (w_store w1)
      \<and> (\<exists>q. rq_Event q = e \<and> Reduce (ap_uuid7 env) (ap_sha env) (event_heads (w_platform w) (ap_computer a)) e i = Inr (rq_Next q)
        \<and> event_heads (w_platform w1) (ap_computer a) = Some (rq_Next q)
        \<and> VerifyEventHeadReceipt (ap_uuid7 env) (ce_crypto (ap_cas env)) (Some (ap_keys env)) r q = None))
    \<and> (event_heads (w_platform w1) (ap_computer a) = event_heads (w_platform w) (ap_computer a)
      \<or> (\<exists>nxt. Reduce (ap_uuid7 env) (ap_sha env) (event_heads (w_platform w) (ap_computer a)) e i = Inr nxt
        \<and> event_heads (w_platform w1) (ap_computer a) = Some nxt))
    \<and> pj_heads (w_store w1) (ap_computer a) \<in> {pj_heads (w_store w) (ap_computer a), event_heads (w_platform w1) (ap_computer a)}"
  using assms
proof (cases rule: append_started)
  case (submitted q p1 v)
  note b = build_request_Inr [OF submitted(1)] and rec = recorded_head [OF submitted(2)]
  have p1: "pj_heads p1 = pj_heads (w_store w)"
    using submitted(2) prepared_row(2) unfolding started_def by metis
  show ?thesis
    using submitted(2-5)
  proof (cases rule: submit_cases)
    case (pending err res')
    then show ?thesis using b p1 rec [OF pending(4)] by auto
  next
    case (lost res')
    then show ?thesis using b rec [OF lost(2)] by auto
  next
    case both
    then have "pj_heads (w_store w1) (ap_computer a) = event_heads (w_platform w1) (ap_computer a)" by (simp add: settled_def)
    then show ?thesis using b both by auto
  qed (use b in auto)
qed auto

text \<open>C10: recovery repairs an interrupted append. From a settled world, whatever happened during the append of a recoverable event,
  recovering the prepared rows without further faults succeeds, and afterwards the world is settled; except that the swap had
  taken effect and was reported as failed: then the platform is one event ahead and no prepared row is left.\<close>

theorem recovery_completes_append:
  assumes "settled (ap_computer a) (w_platform w) (w_store w)" "proj_inv (w_store w)"
    and "fresh_digest (ap_computer a) (w_store w) (ap_sha env (bytes_of e))" "appendLocked env f a w e i pins = (res, w1)"
    and "build_request env f a w e i pins = Inr q" "recoverable env pub f a (pj_tables (w_store w)) q"
    and "\<not> flt PjList" "calm (fs (EventDigest q))"
  shows "\<exists>w2. RecoverPrepared env flt fs a w1 = (None, w2) \<and> (settled (ap_computer a) (w_platform w2) (w_store w2)
    \<or> res \<in> {Inl SwapLost, Inl (SwapFailed CommitFailed), Inl (SwapFailed DoltCommitFailed)} \<and> event_heads (w_platform w2) (ap_computer a) = Some (rq_Next q)
      \<and> pj_heads (w_store w2) (ap_computer a) = pj_heads (w_store w) (ap_computer a) \<and> pj_index (w_store w2) = pj_index (w_store w))"
proof -
  have idle: "RecoverPrepared env flt fs a v = (None, v)"
    if "\<forall>r \<in> set (pj_index (w_store v)). ix_computer r = ap_computer a \<longrightarrow> ix_status r \<noteq> StatusPrepared" for v
  proof -
    have "filter (\<lambda>r. ix_computer r = ap_computer a \<and> ix_status r = StatusPrepared) (pj_index (w_store v)) = []"
      using that by (auto simp: filter_empty_conv)
    then show ?thesis using assms(7) by (simp add: RecoverPrepared_def Prepared_def go_sort_def)
  qed
  have idle0: "\<forall>r \<in> set (pj_index (w_store w)). ix_computer r = ap_computer a \<longrightarrow> ix_status r \<noteq> StatusPrepared"
    using assms(1) by (simp add: settled_def)
  show ?thesis
    using assms(1-4)
  proof (cases rule: append_started)
    case unstarted
    then show ?thesis using assms(1) idle [of w] idle0 by auto
  next
    case (submitted q' p1 v)
    have q: "q' = q" using submitted(1) assms(5) by simp
    note st = submitted(2) [unfolded q]
    show ?thesis
      using st submitted(3-5) [unfolded q]
    proof (cases rule: submit_cases)
      case (pending err res')
      then show ?thesis
        using recover_uncommitted [where flt = flt and fs = fs, OF st assms(6-8)] recover_recorded [where flt = flt and fs = fs, OF st assms(6-8)]
        by (cases "w_platform w1 = w_platform w") auto
    next
      case (discarded err)
      then have "settled (ap_computer a) (w_platform w1) (w_store w1)" using assms(1) by (simp add: settled_def)
      then show ?thesis using idle [of w1] by (auto simp: settled_def)
    next
      case (lost res')
      then show ?thesis using idle [of w1] idle0 recorded_head [OF st lost(2)] by auto
    next
      case both
      then show ?thesis using idle [of w1] by (auto simp: settled_def)
    qed
  qed
qed

text \<open>C13: a swap that took effect but was reported as failed (its answer was lost, or its commit or the commit to the version history failed
  after the transaction) leaves the computer unable to append: the prepared row is discarded, recovery finds nothing to do,
  and every further append is refused and changes nothing.\<close>

theorem lost_swap_blocks_appends:
  assumes "settled (ap_computer a) (w_platform w) (w_store w)" "proj_inv (w_store w)"
    and "fresh_digest (ap_computer a) (w_store w) (ap_sha env (bytes_of e))" "appendLocked env f a w e i pins = (res, w1)"
    and "res \<in> {Inl SwapLost, Inl (SwapFailed CommitFailed), Inl (SwapFailed DoltCommitFailed)}" "w_platform w1 \<noteq> w_platform w" "\<not> f_discard f PjDelete" "\<not> flt PjList"
  shows "RecoverPrepared env flt fs a w1 = (None, w1) \<and> (\<exists>err. appendLocked env f' a w1 e' i' pins' = (Inl err, w1))"
  using assms(1-4)
proof (cases rule: append_started)
  case (submitted q p1 v)
  have "pj_index (w_store w1) = pj_index (w_store w) \<and> event_heads (w_platform w1) (ap_computer a) \<noteq> pj_heads (w_store w1) (ap_computer a)"
    using submitted(2-5)
  proof (cases rule: submit_cases)
    case (lost res')
    have "event_heads (w_platform w) (ap_computer a) \<noteq> Some (rq_Next q)"
      using submitted(2) Reduce_other_head unfolding started_def by blast
    then show ?thesis using lost recorded_head [OF submitted(2) lost(2)] assms(1) by (auto simp: settled_def)
  qed (use assms(5-7) in auto)
  moreover have "filter (\<lambda>r. ix_computer r = ap_computer a \<and> ix_status r = StatusPrepared) (pj_index (w_store w)) = []"
    using assms(1) by (auto simp: filter_empty_conv settled_def)
  ultimately have "RecoverPrepared env flt fs a w1 = (None, w1)" "\<exists>err. build_request env f' a w1 e' i' pins' = Inl err"
    using assms(8) by (auto simp: RecoverPrepared_def Prepared_def go_sort_def build_request_def Store_Head_def split: sum.splits)
  then show ?thesis by (auto simp: appendLocked_def)
qed (use assms(6) in simp)

section \<open>Witnesses\<close>

definition wit_pin :: Receipt where
  "wit_pin = \<lparr>ReceiptVersion = 1, ReceiptKind = ''EventPinReceipt'', ReceiptID = ''p'', Issuer = ''corpusd'', IssuedAt = wit_time,
     RequiredSigners = [], CanonicalPayloadSHA256 = wit_digest, SignatureSet = [], KindFields = []\<rparr>"

definition wit_append :: "unit AppendEnv" where
  "wit_append = \<lparr>ap_cas = wit_env, ap_keys = (\<lambda>_ _ _ _ _. Some (PrivateKey wit_key)), ap_pin = (\<lambda>_ _ _. Some (wit_digest, wit_pin)),
     ap_pin_payload = None, ap_seal = None, ap_pin_private = (\<lambda>_ _ _ _. None), ap_decode = (\<lambda>_. Some (rq_Event wit_swap)),
     ap_project = (\<lambda>_ t _. Some t), ap_reader = None, ap_cipher = None, ap_batch = (\<lambda>_. None)\<rparr>"

definition wit_appender :: Appender where
  "wit_appender = \<lparr>ap_computer = ''c'', ap_live = Map.empty, ap_replay = False, ap_every = 500\<rparr>"

definition wit_calm :: AppendFaults where
  "wit_calm = \<lparr>f_head = False, f_store = (\<lambda>_. False), f_swap = (\<lambda>_. False), f_lost = False, f_uuid = ''u'', f_now = wit_time,
     f_discard = (\<lambda>_. False), f_finalize = (\<lambda>_. False), f_due = False, f_commit = (\<lambda>_. False), f_expired = False, f_flush = (\<lambda>_. False)\<rparr>"

definition wit_world :: "unit World" where
  "wit_world = \<lparr>w_platform = NoEvents, w_store = EmptyStore Map.empty\<rparr>"

lemma wit_append_simps [simp]:
  "ap_cas wit_append = wit_env" "ap_keys wit_append = (\<lambda>_ _ _ _ _. Some (PrivateKey wit_key))"
  "ap_pin wit_append c body rc = Some (wit_digest, wit_pin)" "ap_decode wit_append b = Some (rq_Event wit_swap)"
  "ap_computer wit_appender = ''c''" "\<not> ap_replay wit_appender" "w_platform wit_world = NoEvents" "w_store wit_world = EmptyStore Map.empty"
  "cr_sha wit_scheme_text = wit_sha256" "ce_crypto wit_env = wit_scheme_text" "ce_uuid7 wit_env = wit_uuid7"
  by (simp_all add: wit_append_def wit_appender_def wit_world_def wit_env_sha)

lemma wit_calm_simps [simp]:
  "\<not> f_head wit_calm" "f_store wit_calm = (\<lambda>_. False)" "f_swap wit_calm = (\<lambda>_. False)" "\<not> f_lost wit_calm" "f_uuid wit_calm = ''u''"
  "f_now wit_calm = wit_time" "f_discard wit_calm = (\<lambda>_. False)" "f_finalize wit_calm = (\<lambda>_. False)" "\<not> f_expired wit_calm"
  "f_commit wit_calm = (\<lambda>_. False)" "f_flush wit_calm = (\<lambda>_. False)"
  by (simp_all add: wit_calm_def)

lemma wit_settled: "settled ''c'' NoEvents (EmptyStore Map.empty)" "fresh_digest ''c'' (EmptyStore Map.empty) dg"
  by (simp_all add: settled_def fresh_digest_def NoEvents_def EmptyStore_def)

lemma wit_commitments:
  "ComputePinIntentCommitment wit_sha256 (rq_Event wit_swap) (rq_Input wit_swap) = Inr wit_digest"
  "ComputeRequestCommitment wit_sha256 (rq_Event wit_swap) (rq_Input wit_swap) wit_digest [] = Inr wit_digest"
  using wit_swap_admitted unfolding admit_request_def wit_env_sha wit_swap_fields by (auto split: sum.splits if_splits)

lemma wit_built:
  "build_request wit_append (wit_calm\<lparr>f_finalize := ff, f_lost := lo\<rparr>) wit_appender wit_world (rq_Event wit_swap) (rq_Input wit_swap) [] = Inr wit_swap"
proof -
  obtain j where j: "Receipt_values True wit_pin = Inr j" by (auto simp: Receipt_values_def wit_pin_def reserved_fields_def)
  have "list_all ValidString reserved_fields" "ValidString ''EventPinReceipt''" "ValidString ''p''" "ValidString ''corpusd''"
    using ascii_names by (simp_all add: ValidString_def byte_codes_def)
  then have "printable j" using j wit_digest_valid wit_issue_args(4) by (auto simp: Receipt_values_def wit_pin_def reserved_fields_def)
  then obtain pb where pb: "Receipt_CanonicalBytes wit_pin = Inr pb"
    using j appendCanonical_ok [of j] by (auto simp: Receipt_CanonicalBytes_def canonical_values_def simp del: appendCanonical.simps)
  have sha: "wit_sha256 x = wit_digest" for x by (simp add: wit_sha256_def)
  show ?thesis
    using pb wit_commitments wit_swap_reduces wit_swap_bytes
    unfolding build_request_def wit_append_simps wit_swap_fields(1,6)
    by (simp add: sha wit_swap_fields Store_Head_def NoEvents_def EmptyStore_def cong: sum.case_cong if_cong)
qed

lemma wit_recorded:
  obtains r t where "CompareAndSwap wit_env (\<lambda>_. False) ''u'' wit_time NoEvents wit_swap = (Inr r, t)" "event_heads t = [''c'' \<mapsto> wit_head]"
    "VerifyEventHeadReceipt wit_uuid7 wit_scheme_text (Some (\<lambda>_ _ _ _ _. Some (PrivateKey wit_key))) r wit_swap = None" "receipt_binds r wit_digest"
proof -
  obtain r doc body t where t: "CompareAndSwap wit_env (\<lambda>_. False) ''u'' wit_time NoEvents wit_swap = (Inr r, t)"
    "append_rows t = [append_row wit_sha256 wit_swap r doc body]" "event_heads t = [''c'' \<mapsto> wit_head]"
    "issued_for wit_env wit_swap r" "receipt_text_ok r" "Receipt_values True r = Inr doc" "Receipt_CanonicalBytes r = Inr body"
    "NewSignedReceipt wit_scheme_text ''u'' ''EventHeadReceipt'' ''corpusd'' (head_receipt_fields wit_swap) [wit_key] wit_time = Inr r"
    using wit_swap_row .
  have "VerifyEventHeadReceipt wit_uuid7 wit_scheme_text (Some (\<lambda>_ _ _ _ _. Some (PrivateKey wit_key))) r wit_swap = None"
    by (rule issued_receipt_verifies [OF t(8) wit_scheme_text_ok(1) _ wit_issue_args(5) wit_swap_view]) (simp_all add: wit_uuid7_def)
  then show thesis using that t(1,3) issued_binds [OF t(4,6,7)] by (simp add: wit_swap_fields)
qed

lemma wit_appended:
  obtains r t w1 where "CompareAndSwap wit_env (\<lambda>_. False) ''u'' wit_time NoEvents wit_swap = (Inr r, t)" "event_heads t = [''c'' \<mapsto> wit_head]"
    "appendLocked wit_append wit_calm wit_appender wit_world (rq_Event wit_swap) (rq_Input wit_swap) [] = (Inr r, w1)"
    "appendLocked wit_append (wit_calm\<lparr>f_lost := True\<rparr>) wit_appender wit_world (rq_Event wit_swap) (rq_Input wit_swap) []
      = (Inl SwapLost, \<lparr>w_platform = t, w_store = EmptyStore Map.empty\<rparr>)"
    "appendLocked wit_append (wit_calm\<lparr>f_finalize := (\<lambda>_. True)\<rparr>) wit_appender wit_world (rq_Event wit_swap) (rq_Input wit_swap) []
      = (Inl (FinalizeFailed Poison), \<lparr>w_platform = t, w_store = (EmptyStore Map.empty)\<lparr>pj_index := [index_row (bytes_of (rq_Event wit_swap)) wit_swap], pj_dirty := True\<rparr>\<rparr>)"
proof -
  obtain r t where t: "CompareAndSwap wit_env (\<lambda>_. False) ''u'' wit_time NoEvents wit_swap = (Inr r, t)" "event_heads t = [''c'' \<mapsto> wit_head]"
    "VerifyEventHeadReceipt wit_uuid7 wit_scheme_text (Some (\<lambda>_ _ _ _ _. Some (PrivateKey wit_key))) r wit_swap = None" "receipt_binds r wit_digest"
    using wit_recorded .
  let ?p1 = "(EmptyStore Map.empty)\<lparr>pj_index := [index_row (bytes_of (rq_Event wit_swap)) wit_swap], pj_dirty := True\<rparr>"
  have step: "appendLocked wit_append (wit_calm\<lparr>f_finalize := ff, f_lost := lo\<rparr>) wit_appender wit_world (rq_Event wit_swap) (rq_Input wit_swap) []
      = submit wit_append (wit_calm\<lparr>f_finalize := ff, f_lost := lo\<rparr>) wit_appender \<lparr>w_platform = NoEvents, w_store = ?p1\<rparr> wit_swap" for ff lo
    using wit_swap_prepared [of Map.empty] unfolding appendLocked_def wit_built by (simp add: wit_world_def)
  have kind: "ev_Kind (rq_Event wit_swap) \<noteq> EventProjectionBatchRecorded" by (simp add: wit_swap_fields)
  have red: "Reduce wit_uuid7 wit_sha256 (pj_heads ?p1 (ap_computer wit_appender)) (rq_Event wit_swap) (rq_Input wit_swap) = Inr (rq_Next wit_swap)"
    using wit_swap_reduces by (simp add: EmptyStore_def)
  have inv: "proj_inv ?p1" by (rule Prepare_inv [OF EmptyStore_inv wit_swap_prepared])
  have dg: "EventDigest wit_swap = wit_sha256 (bytes_of (rq_Event wit_swap))" by (simp add: wit_swap_fields wit_sha256_def)
  obtain p2 where fin: "finalizeProjection wit_append (\<lambda>_. False) wit_appender ?p1 (rq_Event wit_swap) wit_digest r = (None, p2)"
    using finalize_prepared [OF inv _ red dg _ _ refl projectable_plain [OF kind], where body = "bytes_of (rq_Event wit_swap)" and receipt = r and env = wit_append and flt = "\<lambda>_. False"] t(4)
    by (auto simp: wit_swap_fields)
  have "finalizeProjection wit_append (\<lambda>_. True) wit_appender ?p1 (rq_Event wit_swap) wit_digest r = (Some (StoreFailure PjBeginFailed), ?p1)"
    using t(4) kind by (auto simp: finalizeProjection_def resolveProjectionBatch_def finalizeBatch_def receipt_binds_def)
  then have "submit wit_append (wit_calm\<lparr>f_finalize := (\<lambda>_. True), f_lost := False\<rparr>) wit_appender \<lparr>w_platform = NoEvents, w_store = ?p1\<rparr> wit_swap
      = (Inl (FinalizeFailed Poison), \<lparr>w_platform = t, w_store = ?p1\<rparr>)"
    using t(1,3) by (simp add: submit_def wit_swap_fields ClassifyProjectionFailure_def)
  moreover have "submit wit_append (wit_calm\<lparr>f_finalize := (\<lambda>_. False), f_lost := False\<rparr>) wit_appender \<lparr>w_platform = NoEvents, w_store = ?p1\<rparr> wit_swap
      = (Inr r, \<lparr>w_platform = t, w_store = p2\<rparr>)"
    using t(1,3) fin by (simp add: submit_def wit_swap_fields)
  moreover have "submit wit_append (wit_calm\<lparr>f_finalize := (\<lambda>_. False), f_lost := True\<rparr>) wit_appender \<lparr>w_platform = NoEvents, w_store = ?p1\<rparr> wit_swap
      = (Inl SwapLost, \<lparr>w_platform = t, w_store = EmptyStore Map.empty\<rparr>)"
    using t(1) by (simp add: submit_def wit_swap_fields DiscardPrepared_def commitDoltCheckpoint_def index_row_def EmptyStore_def Let_def)
  ultimately show thesis
    using that t(1,2) step [where ff = "\<lambda>_. False" and lo = False]
      step [where ff = "\<lambda>_. True" and lo = False] step [where ff = "\<lambda>_. False" and lo = True] by (simp add: wit_calm_def)
qed

theorem append_keeps_heads_together_witness:
  "\<exists>r w1. appendLocked wit_append wit_calm wit_appender wit_world (rq_Event wit_swap) (rq_Input wit_swap) [] = (Inr r, w1)
    \<and> settled ''c'' (w_platform w1) (w_store w1)"
proof -
  obtain r t w1 where a: "appendLocked wit_append wit_calm wit_appender wit_world (rq_Event wit_swap) (rq_Input wit_swap) [] = (Inr r, w1)"
    using wit_appended by metis
  show ?thesis
    using append_keeps_heads_together [OF _ _ _ a] a wit_settled by auto
qed

theorem recovery_completes_append_witness:
  "\<exists>w1 w2. appendLocked wit_append (wit_calm\<lparr>f_finalize := (\<lambda>_. True)\<rparr>) wit_appender wit_world (rq_Event wit_swap) (rq_Input wit_swap) []
      = (Inl (FinalizeFailed Poison), w1)
    \<and> RecoverPrepared wit_append (\<lambda>_. False) (\<lambda>_. wit_calm) wit_appender w1 = (None, w2) \<and> settled ''c'' (w_platform w2) (w_store w2)"
proof -
  obtain w1 where a: "appendLocked wit_append (wit_calm\<lparr>f_finalize := (\<lambda>_. True)\<rparr>) wit_appender wit_world (rq_Event wit_swap) (rq_Input wit_swap) []
      = (Inl (FinalizeFailed Poison), w1)"
    using wit_appended by metis
  have b: "build_request wit_append (wit_calm\<lparr>f_finalize := (\<lambda>_. True)\<rparr>) wit_appender wit_world (rq_Event wit_swap) (rq_Input wit_swap) [] = Inr wit_swap"
    using wit_built [where ff = "\<lambda>_. True" and lo = False] by (simp add: wit_calm_def)
  have pub: "published (rq_Event wit_swap) = rq_Event wit_swap" by (simp add: wit_swap_def wit_genesis_def)
  have "trusted wit_append id"
    using wit_scheme_text_ok by (simp add: trusted_def wit_env_sha NewComputerEventCAS_def wit_key_def ValidString_def byte_codes_def)
  then have rc: "recoverable wit_append id (wit_calm\<lparr>f_finalize := (\<lambda>_. True)\<rparr>) wit_appender () wit_swap"
    using wit_issue_args(3-5) wit_swap_view pub
    by (auto simp: recoverable_def stamp_ok_def wit_uuid7_def wit_swap_fields int64_max_def wit_env_sha intro!: projectable_plain)
  show ?thesis
    using recovery_completes_append [OF _ _ _ a b, where fs = "\<lambda>_. wit_calm" and flt = "\<lambda>_. False" and pub = id] wit_settled rc a
    by (auto simp: calm_def)
qed

theorem lost_swap_blocks_appends_witness:
  "\<exists>w1. appendLocked wit_append (wit_calm\<lparr>f_lost := True\<rparr>) wit_appender wit_world (rq_Event wit_swap) (rq_Input wit_swap) [] = (Inl SwapLost, w1)
    \<and> (\<exists>err. appendLocked wit_append wit_calm wit_appender w1 (rq_Event wit_swap) (rq_Input wit_swap) [] = (Inl err, w1))"
proof -
  obtain t where t: "event_heads t = [''c'' \<mapsto> wit_head]"
    "appendLocked wit_append (wit_calm\<lparr>f_lost := True\<rparr>) wit_appender wit_world (rq_Event wit_swap) (rq_Input wit_swap) []
      = (Inl SwapLost, \<lparr>w_platform = t, w_store = EmptyStore Map.empty\<rparr>)"
    using wit_appended by metis
  have "t \<noteq> NoEvents" using fun_cong [OF t(1), of "''c''"] by (auto simp: NoEvents_def)
  then show ?thesis
    using lost_swap_blocks_appends [OF _ _ _ t(2), where flt = "\<lambda>_. False"] t(2) wit_settled by auto
qed

end
