(* ===== verification/Appender_Replay.thy ===== *)
theory Appender_Replay
  imports Appender_Recovery
begin

text \<open>
  Reconstruction of the embedded projection from the platform's durable chain: it always returns, and over a
  chain whose rows decode and whose receipts verify it brings the projection to the platform's head exactly where the recorded
  batches project one after the other.
\<close>

section \<open>Reconstruction returns\<close>

definition replay_ready :: "'b Replay \<Rightarrow> bool" where
  "replay_ready s \<longleftrightarrow> rp_after s = (case rp_current s of None \<Rightarrow> 0 | Some h \<Rightarrow> h_Sequence h)"

lemma commitReplay_keeps: "commitReplay flt a s = (x, s1) \<Longrightarrow> rp_current s1 = rp_current s \<and> rp_after s1 = rp_after s"
  by (auto simp: commitReplay_def split: if_splits prod.splits)

lemma checkpoint_keeps: "checkpoint f a s = (x, s1) \<Longrightarrow> rp_current s1 = rp_current s \<and> rp_after s1 = rp_after s"
  by (auto simp: checkpoint_def Let_def split: if_splits prod.splits option.splits dest: commitReplay_keeps)

lemma replay_record_forward:
  assumes "replay_record env f a target s d = (Continue, s')" "replay_ready s"
  shows "replay_ready s' \<and> rp_after s < rp_after s'"
proof -
  let ?q = "de_Request d"
  obtain s1 s2 where s: "apply_record env f a s d = (None, s1)" "checkpoint f a (s1\<lparr>rp_after := ev_Sequence (rq_Event ?q)\<rparr>) = (None, s2)" "s' = s2"
    using assms(1) by (auto simp: replay_record_def flush_def split: prod.splits option.splits if_splits)
  obtain n where n: "Reduce (ap_uuid7 env) (ap_sha env) (rp_current s) (rq_Event ?q) (rq_Input ?q) = Inr n" "rp_current s1 = Some n"
    using s(1) by (auto simp: apply_record_def Let_def split: sum.splits if_splits option.splits prod.splits)
  have k: "rp_current s' = Some n" "rp_after s' = ev_Sequence (rq_Event ?q)" using checkpoint_keeps [OF s(2)] s(3) n(2) by auto
  have "rp_after s < h_Sequence n"
  proof (cases "rp_current s")
    case None
    then show ?thesis using assms(2) n(1) Reduce_ids [OF n(1)] by (auto simp: replay_ready_def word_gt_0 Digest_Inr dest: Validate_None)
  next
    case (Some h)
    then show ?thesis using assms(2) n(1) Reduce_increases by (auto simp: replay_ready_def)
  qed
  then show ?thesis using k Reduce_ids [OF n(1)] by (simp add: replay_ready_def)
qed

lemma replay_records_forward:
  "replay_records env fs a target s ds = (Continue, s') \<Longrightarrow> replay_ready s \<Longrightarrow> replay_ready s' \<and> rp_after s \<le> rp_after s' \<and> (ds \<noteq> [] \<longrightarrow> rp_after s < rp_after s')"
proof (induction ds arbitrary: s)
  case (Cons d ds)
  then obtain s1 where s1: "replay_record env (fs (ev_Sequence (rq_Event (de_Request d)))) a target s d = (Continue, s1)"
      "replay_records env fs a target s1 ds = (Continue, s')"
    by (auto split: prod.splits outcome.splits)
  then show ?case using replay_record_forward [OF s1(1) Cons.prems(2)] Cons.IH [OF s1(2)] by auto
qed simp

lemma replay_pages_return:
  "replay_ready s \<Longrightarrow> 2 ^ 64 \<le> unat (rp_after s) + n \<Longrightarrow> replay_pages env fs a target page n s \<noteq> None"
proof (induction n arbitrary: s)
  case 0
  then show ?case using unsigned_less [where 'a = nat, of "rp_after s"] by simp
next
  case (Suc n)
  have "replay_pages env fs a target page n s' \<noteq> None"
    if "replay_records env fs a target s ds = (Continue, s')" "ds \<noteq> []" for ds s'
  proof -
    have "replay_ready s'" "unat (rp_after s) < unat (rp_after s')"
      using replay_records_forward [OF that(1) Suc.prems(1)] that(2) by (auto simp: word_less_nat_alt)
    then show ?thesis using Suc by simp
  qed
  then show ?case by (auto split: sum.splits prod.splits outcome.splits)
qed

lemma replay_source_returns: "replay_source env fs a target src (2 ^ 64) (replay_start p local) \<noteq> None"
proof (cases src)
  case (Paged page)
  have "replay_ready (replay_start p local)" by (simp add: replay_ready_def replay_start_def)
  then show ?thesis using replay_pages_return [where n = "2 ^ 64"] by (simp add: Paged replay_source_def del: replay_pages.simps)
qed (auto simp: replay_source_def split: sum.splits)

text \<open>C12: reconstruction always returns, whatever the source serves and whatever fails: every page that does not end the loop moves
  the replay to a greater sequence number, and there are fewer than \<open>2 ^ 64\<close> of them, so that much fuel is enough.\<close>

theorem reconstruct_returns: "\<exists>err w'. reconstruct env rf a src target (2 ^ 64) w = Some (err, w')"
proof -
  define n :: nat where "n = 2 ^ 64"
  have r: "replay_source env (rf_event rf) a x src n (replay_start p local) \<noteq> None" for x p local
    unfolding n_def by (rule replay_source_returns)
  have "reconstruct env rf a src target n w \<noteq> None"
    unfolding reconstruct_def by (simp add: r [simplified] split: prod.split option.split sum.split outcome.split) (use r in blast)
  then show ?thesis unfolding n_def by auto
qed

section \<open>Reconstruction catches up\<close>

text \<open>The store holds the first \<open>k\<close> recorded events of the computer: its head is where they lead, none is half done, and nothing
  in the index is in the way of the later ones.\<close>

definition caught_up :: "'b AppendEnv \<Rightarrow> string \<Rightarrow> CASRequest list \<Rightarrow> nat \<Rightarrow> 'b Projection \<Rightarrow> bool" where
  "caught_up env c qs k p \<longleftrightarrow> proj_inv p \<and> chain (ap_cas env) (take k qs) = Inr (pj_heads p c)
     \<and> (\<forall>r \<in> set (pj_index p). ix_computer r = c \<longrightarrow> ix_status r \<noteq> StatusPrepared)
     \<and> (\<forall>q \<in> set (take k qs). \<exists>r \<in> set (pj_index p). ix_computer r = c \<and> ix_key r = IdempotencyKey (rq_Event q) \<and> ix_digest r = EventDigest q)
     \<and> (\<forall>q \<in> set (drop k qs). \<forall>r \<in> set (pj_index p). ix_digest r \<noteq> EventDigest q \<and> (ix_computer r = c \<longrightarrow> ix_key r \<noteq> IdempotencyKey (rq_Event q)))"

text \<open>What a served record needs: it is the recorded request, and its receipt verifies and binds it.\<close>

definition servable :: "'b AppendEnv \<Rightarrow> Appender \<Rightarrow> DurableEvent \<Rightarrow> CASRequest \<Rightarrow> bool" where
  "servable env a d q \<longleftrightarrow> de_Request d = replayed (ap_sha env) q \<and> EventArtifactDigest q = EventDigest q \<and> EventDigest q = ap_sha env (bytes_of (rq_Event q))
     \<and> VerifyEventHeadReceipt (ap_uuid7 env) (ce_crypto (ap_cas env)) (Some (ap_keys env)) (de_Receipt d) (replayed (ap_sha env) q) = None
     \<and> receipt_binds (de_Receipt d) (EventDigest q)"

text \<open>The tables the recorded events lead to, each batch over the tables its predecessors left; \<^const>\<open>None\<close> where one of
  them cannot be resolved or is refused.\<close>

fun project_chain :: "'b AppendEnv \<Rightarrow> Appender \<Rightarrow> 'b \<Rightarrow> CASRequest list \<Rightarrow> 'b option" where
  "project_chain env a tables [] = Some tables"
| "project_chain env a tables (q # qs) =
     (case projected env a tables (published (rq_Event q)) (EventDigest q) of None \<Rightarrow> None
      | Some tables' \<Rightarrow> project_chain env a tables' qs)"

lemma project_chain_append:
  "project_chain env a tables (xs @ ys) =
     (case project_chain env a tables xs of None \<Rightarrow> None | Some tables' \<Rightarrow> project_chain env a tables' ys)"
  by (induction xs arbitrary: tables) (auto split: option.splits)

text \<open>A history whose keys and digests are its own, of one computer.\<close>

definition tidy :: "'b AppendEnv \<Rightarrow> string \<Rightarrow> CASRequest list \<Rightarrow> Head option \<Rightarrow> bool" where
  "tidy env c qs h \<longleftrightarrow> chain (ap_cas env) qs = Inr h \<and> (\<forall>q \<in> set qs. ev_ComputerID (rq_Event q) = c)
     \<and> distinct (map (\<lambda>q. IdempotencyKey (rq_Event q)) qs) \<and> distinct (map EventDigest qs)"

lemma bytes_published [simp]: "bytes_of (published e) = bytes_of e"
  by (simp add: bytes_of_def struct_json_def event_fields_def)

lemma Digest_bytes: "Event_Digest uuid7 sha e = Inr d \<Longrightarrow> Event_CanonicalBytes uuid7 e = Inr (bytes_of e)"
  by (auto simp: Digest_Inr Event_CanonicalBytes_def appendCanonical_ok bytes_of_def simp del: appendCanonical.simps)

lemma tidy_next:
  assumes "tidy env c qs h" "k < length qs" "chain (ap_cas env) (take k qs) = Inr g"
  shows "Reduce (ap_uuid7 env) (ap_sha env) g (rq_Event (qs ! k)) (rq_Input (qs ! k)) = Inr (rq_Next (qs ! k))"
    and "chain (ap_cas env) (take (Suc k) qs) = Inr (Some (rq_Next (qs ! k)))" and "ev_ComputerID (rq_Event (qs ! k)) = c"
    and "q \<in> set (drop (Suc k) qs) \<Longrightarrow> IdempotencyKey (rq_Event q) \<noteq> IdempotencyKey (rq_Event (qs ! k)) \<and> EventDigest q \<noteq> EventDigest (qs ! k)"
proof -
  have ts: "take (Suc k) qs = take k qs @ [qs ! k]" by (rule take_Suc_conv_app_nth [OF assms(2)])
  obtain u where u: "chain (ap_cas env) (take (Suc k) qs) = Inr u"
    using assms(1) run_steps_take [of "link (ap_cas env)" None qs h "Suc k"] by (auto simp: tidy_def chain_def)
  then show r: "Reduce (ap_uuid7 env) (ap_sha env) g (rq_Event (qs ! k)) (rq_Input (qs ! k)) = Inr (rq_Next (qs ! k))"
    and "chain (ap_cas env) (take (Suc k) qs) = Inr (Some (rq_Next (qs ! k)))"
    using assms(3) unfolding ts chain_snoc by auto
  show "ev_ComputerID (rq_Event (qs ! k)) = c" using assms(1,2) by (simp add: tidy_def)
  show "IdempotencyKey (rq_Event q) \<noteq> IdempotencyKey (rq_Event (qs ! k)) \<and> EventDigest q \<noteq> EventDigest (qs ! k)" if "q \<in> set (drop (Suc k) qs)"
  proof -
    have "f q \<noteq> f (qs ! k)" if "distinct (map f qs)" for f :: "CASRequest \<Rightarrow> string"
    proof -
      have "map f qs = map f (take k qs) @ f (qs ! k) # map f (drop (Suc k) qs)"
        using arg_cong [OF id_take_nth_drop [OF assms(2)], of "map f"] by simp
      then have "f (qs ! k) \<notin> f ` set (drop (Suc k) qs)" using \<open>distinct (map f qs)\<close> by simp
      then show ?thesis using \<open>q \<in> set (drop (Suc k) qs)\<close> by (metis image_eqI)
    qed
    then show ?thesis using assms(1) unfolding tidy_def by blast
  qed
qed

lemma tidy_length: "tidy env c qs h \<Longrightarrow> length qs \<le> unat (- 1 :: uint64)"
proof (cases qs rule: rev_cases)
  case (snoc ys y)
  assume "tidy env c qs h"
  then have "map (\<lambda>q. unat (ev_Sequence (rq_Event q))) qs = [1..<Suc (length qs)]" using chain_positions unfolding tidy_def by blast
  then have "unat (ev_Sequence (rq_Event y)) = length qs" by (simp add: snoc)
  then show ?thesis using word_n1_ge [of "ev_Sequence (rq_Event y)"] by (simp add: word_le_nat_alt)
qed simp

lemma apply_servable:
  assumes td: "tidy env (ap_computer a) qs h" and k: "k < length qs" and cu: "caught_up env (ap_computer a) qs k (rp_store s)"
    and cur: "rp_current s = pj_heads (rp_store s) (ap_computer a)" and sv: "servable env a d (qs ! k)" and f: "calm f"
  shows "case projected env a (pj_tables (rp_store s)) (published (rq_Event (qs ! k))) (EventDigest (qs ! k)) of
      None \<Rightarrow> \<exists>err s1. apply_record env f a s d = (Some err, s1)
    | Some tables \<Rightarrow> \<exists>p2. apply_record env f a s d = (None, s\<lparr>rp_store := p2, rp_current := Some (rq_Next (qs ! k))\<rparr>)
        \<and> caught_up env (ap_computer a) qs (Suc k) p2 \<and> pj_heads p2 (ap_computer a) = Some (rq_Next (qs ! k)) \<and> pj_tables p2 = tables"
proof -
  let ?q = "qs ! k" and ?c = "ap_computer a" and ?p = "rp_store s" and ?q' = "replayed (ap_sha env) (qs ! k)"
  note c = cu [unfolded caught_up_def] and v = sv [unfolded servable_def]
  have ch: "chain (ap_cas env) (take k qs) = Inr (pj_heads ?p ?c)" using c by blast
  note nx = tidy_next [OF td k ch]
  have red: "Reduce (ap_uuid7 env) (ap_sha env) (pj_heads ?p ?c) (rq_Event ?q') (rq_Input ?q') = Inr (rq_Next ?q')"
    using replay_input_same [OF nx(1)] by simp
  let ?row = "index_row (bytes_of (rq_Event ?q')) ?q'" and ?dg = "EventDigest ?q"
  have dk: "?q \<in> set (drop k qs)" using k by (metis Cons_nth_drop_Suc list.set_intros(1))
  have cb: "Event_CanonicalBytes (ap_uuid7 env) (rq_Event ?q') = Inr (bytes_of (rq_Event ?q'))"
    using Reduce_ids [OF red] by (blast intro: Digest_bytes)
  have sq: "ix_sequence r \<noteq> ev_Sequence (rq_Event ?q)" if r: "r \<in> set (pj_index ?p)" "ix_computer r = ?c" for r
  proof -
    obtain g where g: "pj_heads ?p ?c = Some g" "ix_sequence r \<le> h_Sequence g" using c r unfolding proj_inv_def row_settled_def by metis
    then show ?thesis using Reduce_increases [OF nx(1) [unfolded g(1)]] Reduce_ids [OF nx(1)] by auto
  qed
  have nf: "find (\<lambda>r. ix_computer r = ?c \<and> ix_key r = IdempotencyKey (rq_Event ?q)) (pj_index ?p) = None"
    using c dk by (auto simp: find_None_iff)
  have "\<not> list_ex (index_clash ?row) (pj_index ?p)"
    using c dk sq nx(3) by (auto simp: list_ex_iff index_clash_def index_row_def Let_def)
  then have pr: "Prepare (ap_uuid7 env) (ap_sha env) (f_store f) ?p ?q' = Inr (?p\<lparr>pj_index := pj_index ?p @ [?row], pj_dirty := True\<rparr>)"
    using f nf v nx(3) unfolding Prepare_def Let_def cb by (simp add: calm_def)
  let ?p1 = "?p\<lparr>pj_index := pj_index ?p @ [?row], pj_dirty := True\<rparr>"
  have inv1: "proj_inv ?p1" using Prepare_inv [OF _ pr] c by blast
  have red1: "Reduce (ap_uuid7 env) (ap_sha env) (pj_heads ?p1 ?c) (rq_Event ?q') (rq_Input ?q') = Inr (rq_Next ?q')" using red by simp
  have dg: "EventDigest ?q' = ap_sha env (bytes_of (rq_Event ?q'))" and c': "ev_ComputerID (rq_Event ?q') = ?c"
    and bd: "receipt_binds (de_Receipt d) (EventDigest ?q')"
    and row1: "?row \<in> set (pj_index ?p1)" and ff: "\<And>x. \<not> f_finalize f x"
    using v nx(3) f by (auto simp: calm_def)
  have row: "ix_computer ?row = ?c" "ix_key ?row = IdempotencyKey (rq_Event ?q)" "ix_digest ?row = ?dg" "ix_status ?row = StatusPrepared"
      "ix_kind ?row = ev_Kind (rq_Event ?q')"
    using nx(3) by (simp_all add: index_row_def Let_def)
  show ?thesis
  proof (cases "projected env a (pj_tables ?p) (published (rq_Event ?q)) ?dg")
    case None
    then obtain err where "finalizeProjection env (f_finalize f) a ?p1 (rq_Event ?q') ?dg (de_Receipt d) = (Some err, ?p1)"
      using finalize_refused [OF inv1 row1 row(1,3,4,5), where flt = "f_finalize f" and env = env and receipt = "de_Receipt d"] by auto
    then show ?thesis using None red v pr unfolding apply_record_def Let_def cur by simp
  next
    case (Some tables)
    then have pj: "projectable env a (pj_tables ?p1) (rq_Event ?q') (EventDigest ?q')" by (simp add: projectable_iff)
    obtain p2 doc rd where fin: "finalizeProjection env (f_finalize f) a ?p1 (rq_Event ?q') ?dg (de_Receipt d) = (None, p2)"
        "pj_heads p2 = (pj_heads ?p)(?c \<mapsto> rq_Next ?q)" "pj_index p2 = map (marked ?c ?dg doc rd) (pj_index ?p @ [?row])"
        "projected env a (pj_tables ?p) (published (rq_Event ?q)) ?dg = Some (pj_tables p2)"
      using finalize_prepared [where flt = "f_finalize f", OF inv1 row1 red1 dg c' bd refl pj ff] by auto
    have "proj_inv p2"
      using finalizeBatch_inv [OF inv1] fin(1) unfolding finalizeProjection_def
      by (auto simp: map_prod_def case_prod_unfold split: sum.splits)
    moreover have "take (Suc k) qs = take k qs @ [?q]" by (rule take_Suc_conv_app_nth [OF k])
    moreover have "set (drop (Suc k) qs) \<subseteq> set (drop k qs)" by (rule set_drop_subset_set_drop) simp
    ultimately have "caught_up env ?c qs (Suc k) p2"
      using c nx(2) fin(2,3) row(1-4) unfolding caught_up_def by (auto simp: image_Un dest: nx(4))
    moreover have "apply_record env f a s d = (None, s\<lparr>rp_store := p2, rp_current := Some (rq_Next ?q)\<rparr>)"
      using red v pr fin(1) unfolding apply_record_def Let_def cur by simp
    moreover have "pj_heads p2 ?c = Some (rq_Next ?q)" using fin(2) by simp
    ultimately show ?thesis using Some fin(4) by auto
  qed
qed

lemma caught_up_store: "pj_heads p' = pj_heads p \<Longrightarrow> pj_index p' = pj_index p \<Longrightarrow> caught_up env c qs k p \<Longrightarrow> caught_up env c qs k p'"
  by (simp add: caught_up_def proj_inv_def row_settled_def)

text \<open>Where a replay stands after \<open>k\<close> events.\<close>

definition replay_at :: "'b AppendEnv \<Rightarrow> Appender \<Rightarrow> CASRequest list \<Rightarrow> nat \<Rightarrow> 'b Replay \<Rightarrow> bool" where
  "replay_at env a qs k s \<longleftrightarrow> caught_up env (ap_computer a) qs k (rp_store s) \<and> rp_current s = pj_heads (rp_store s) (ap_computer a)
     \<and> unat (rp_after s) = k"

definition same_store :: "'b Replay \<Rightarrow> 'b Replay \<Rightarrow> bool" where
  "same_store s s1 \<longleftrightarrow> pj_heads (rp_store s1) = pj_heads (rp_store s) \<and> pj_index (rp_store s1) = pj_index (rp_store s)
     \<and> pj_tables (rp_store s1) = pj_tables (rp_store s) \<and> rp_current s1 = rp_current s \<and> rp_after s1 = rp_after s"

lemma commitReplay_calm: "(\<And>x. \<not> flt x) \<Longrightarrow> \<exists>s1. commitReplay flt a s = (None, s1) \<and> same_store s s1"
  by (simp add: commitReplay_def CommitReplay_def commitDoltCheckpoint_def same_store_def)

lemma checkpoint_calm: "calm f \<Longrightarrow> \<exists>s1. checkpoint f a s = (None, s1) \<and> same_store s s1"
  by (simp add: checkpoint_def commitReplay_def CommitReplay_def commitDoltCheckpoint_def same_store_def Let_def calm_def)

lemma replay_record_servable:
  assumes td: "tidy env (ap_computer a) qs h" and k: "k < length qs" and at: "replay_at env a qs k s"
    and sv: "servable env a d (qs ! k)" and f: "calm f"
  shows "case projected env a (pj_tables (rp_store s)) (published (rq_Event (qs ! k))) (EventDigest (qs ! k)) of
      None \<Rightarrow> \<exists>err s'. replay_record env f a [] s d = (Failed err, s')
    | Some tables \<Rightarrow> \<exists>s'. replay_record env f a [] s d = (Continue, s') \<and> replay_at env a qs (Suc k) s' \<and> pj_tables (rp_store s') = tables"
proof (cases "projected env a (pj_tables (rp_store s)) (published (rq_Event (qs ! k))) (EventDigest (qs ! k))")
  case None
  then show ?thesis using apply_servable [OF td k _ _ sv f, of s] at by (auto simp: replay_at_def replay_record_def)
next
  case (Some tables)
  obtain p2 where p2: "apply_record env f a s d = (None, s\<lparr>rp_store := p2, rp_current := Some (rq_Next (qs ! k))\<rparr>)"
      "caught_up env (ap_computer a) qs (Suc k) p2" "pj_heads p2 (ap_computer a) = Some (rq_Next (qs ! k))" "pj_tables p2 = tables"
    using apply_servable [OF td k _ _ sv f, of s] at Some by (auto simp: replay_at_def)
  let ?s = "s\<lparr>rp_store := p2, rp_current := Some (rq_Next (qs ! k)), rp_after := ev_Sequence (rq_Event (de_Request d))\<rparr>"
  obtain s1 where s1: "checkpoint f a ?s = (None, s1)" "pj_heads (rp_store s1) = pj_heads p2" "pj_index (rp_store s1) = pj_index p2"
      "rp_current s1 = Some (rq_Next (qs ! k))" "rp_after s1 = ev_Sequence (rq_Event (de_Request d))" "pj_tables (rp_store s1) = tables"
    using checkpoint_calm [OF f, of a ?s] p2(4) by (auto simp: same_store_def)
  have "map (\<lambda>q. unat (ev_Sequence (rq_Event q))) qs = [1..<Suc (length qs)]" using td chain_positions unfolding tidy_def by blast
  then have "map (\<lambda>q. unat (ev_Sequence (rq_Event q))) qs ! k = Suc k" using k by (simp del: upt_Suc)
  then have "unat (ev_Sequence (rq_Event (de_Request d))) = Suc k" using k sv by (simp add: servable_def)
  then have "replay_at env a qs (Suc k) s1"
    using caught_up_store [OF s1(2,3) p2(2)] s1(2,4,5) p2(3) by (simp add: replay_at_def)
  moreover have "replay_record env f a [] s d = (Continue, s1)" using p2(1) s1(1) f by (simp add: replay_record_def calm_def)
  ultimately show ?thesis using Some s1(6) by auto
qed

lemma replay_records_servable:
  assumes td: "tidy env (ap_computer a) qs h" and f: "\<And>n. calm (fs n)"
  shows "list_all2 (servable env a) ds (take m (drop k qs)) \<Longrightarrow> replay_at env a qs k s
    \<Longrightarrow> (case project_chain env a (pj_tables (rp_store s)) (take m (drop k qs)) of
          None \<Rightarrow> \<exists>err s'. replay_records env fs a [] s ds = (Failed err, s')
        | Some tables \<Rightarrow> \<exists>s'. replay_records env fs a [] s ds = (Continue, s') \<and> replay_at env a qs (k + length ds) s' \<and> pj_tables (rp_store s') = tables)"
proof (induction ds arbitrary: k m s)
  case (Cons d ds)
  then obtain q r where t: "take m (drop k qs) = q # r" "servable env a d q" "list_all2 (servable env a) ds r" by (auto simp: list_all2_Cons1)
  then have k: "k < length qs" by (cases "k < length qs") auto
  have q: "q = qs ! k" "r = take (m - 1) (drop (Suc k) qs)"
    using t(1) Cons_nth_drop_Suc [OF k, symmetric] by (cases m; simp)+
  note one = replay_record_servable [OF td k Cons.prems(2) t(2) [unfolded q(1)] f]
  show ?case
  proof (cases "projected env a (pj_tables (rp_store s)) (published (rq_Event q)) (EventDigest q)")
    case None
    then obtain err s1 where "replay_record env (fs (ev_Sequence (rq_Event (de_Request d)))) a [] s d = (Failed err, s1)"
      using one [of "ev_Sequence (rq_Event (de_Request d))"] by (auto simp: q(1))
    then show ?thesis unfolding t(1) using None by simp
  next
    case (Some tables)
    then obtain s1 where s1: "replay_record env (fs (ev_Sequence (rq_Event (de_Request d)))) a [] s d = (Continue, s1)"
        "replay_at env a qs (Suc k) s1" "pj_tables (rp_store s1) = tables"
      using one [of "ev_Sequence (rq_Event (de_Request d))"] by (auto simp: q(1))
    then show ?thesis using Cons.IH [OF t(3) [unfolded q(2)] s1(2)] Some unfolding t(1) q(2) by (auto split: option.splits)
  qed
qed auto

lemma last_page_full:
  assumes "tidy env (ap_computer a) qs h" "replay_at env a qs (k + m) s" "m = min 1024 (length qs - k)" "k \<le> length qs"
    and "int m < EventReplayPageSize \<or> rp_after s = - 1"
  shows "k + m = length qs"
proof (cases "int m < EventReplayPageSize")
  case True
  then show ?thesis using assms(3,4) by (auto simp: EventReplayPageSize_def)
next
  case False
  then have "k + m = unat (- 1 :: uint64)" using assms(2,5) by (simp add: replay_at_def)
  moreover have "length qs \<le> unat (- 1 :: uint64)" using tidy_length [OF assms(1)] .
  ultimately show ?thesis using assms(3,4) by auto
qed

lemma replay_pages_servable:
  assumes td: "tidy env (ap_computer a) qs h" and f: "\<And>n. calm (fs n)"
    and page: "\<And>n. \<exists>ds. page (ap_computer a) n EventReplayPageSize = Inr ds \<and> list_all2 (servable env a) ds (take 1024 (drop (unat n) qs))"
  shows "replay_at env a qs k s \<Longrightarrow> k \<le> length qs \<Longrightarrow> length qs < k + n
    \<Longrightarrow> (case project_chain env a (pj_tables (rp_store s)) (drop k qs) of
          None \<Rightarrow> \<exists>err s'. replay_pages env fs a [] page n s = Some (Failed err, s')
        | Some tables \<Rightarrow> \<exists>s'. replay_pages env fs a [] page n s = Some (Continue, s') \<and> replay_at env a qs (length qs) s' \<and> pj_tables (rp_store s') = tables)"
proof (induction n arbitrary: k s)
  case (Suc n)
  have af: "unat (rp_after s) = k" using Suc.prems(1) by (simp add: replay_at_def)
  obtain ds where ds: "page (ap_computer a) (rp_after s) EventReplayPageSize = Inr ds" "list_all2 (servable env a) ds (take 1024 (drop k qs))"
    using page [of "rp_after s"] unfolding af by blast
  have len: "length ds = min 1024 (length qs - k)" using list_all2_lengthD [OF ds(2)] by (simp add: min.commute)
  have "drop (k + length ds) qs = drop 1024 (drop k qs)" using len by (simp add: add.commute min_def)
  then have split: "drop k qs = take 1024 (drop k qs) @ drop (k + length ds) qs" by (simp only: append_take_drop_id)
  note recs = replay_records_servable [where fs = fs, OF td f ds(2) Suc.prems(1)]
  show ?case
  proof (cases "ds = []")
    case True
    then have "k = length qs" using len Suc.prems(2) by auto
    then show ?thesis using True ds(1) Suc.prems(1) by auto
  next
    case ne: False
    show ?thesis
    proof (cases "project_chain env a (pj_tables (rp_store s)) (take 1024 (drop k qs))")
      case None
      then show ?thesis using recs ne ds(1) by (subst split) (auto simp: project_chain_append)
    next
      case (Some tables)
      then obtain s1 where s1: "replay_records env fs a [] s ds = (Continue, s1)" "replay_at env a qs (k + length ds) s1" "pj_tables (rp_store s1) = tables"
        using recs by auto
      have pc: "project_chain env a (pj_tables (rp_store s)) (drop k qs) = project_chain env a (pj_tables (rp_store s1)) (drop (k + length ds) qs)"
        using Some s1(3) by (subst split) (simp add: project_chain_append)
      show ?thesis
      proof (cases "int (length ds) < EventReplayPageSize \<or> rp_after s1 = - 1")
        case True
        have full: "k + length ds = length qs" using last_page_full [OF td s1(2) len Suc.prems(2) True] .
        then show ?thesis using True ne ds(1) s1 unfolding pc by auto
      next
        case more: False
        have "0 < length ds" using ne by simp
        then show ?thesis using more ne ds(1) s1(1) Suc.IH [OF s1(2)] len Suc.prems unfolding pc by (auto split: option.splits)
      qed
    qed
  qed
qed simp

section \<open>The platform's chain can be served\<close>

definition chain_readable :: "'b AppendEnv \<Rightarrow> Appender \<Rightarrow> (string \<Rightarrow> string option) \<Rightarrow> EventTables \<Rightarrow> CASRequest list \<Rightarrow> bool" where
  "chain_readable env a file t qs \<longleftrightarrow> history (ap_cas env) t (ap_computer a) qs
     \<and> list_all2 (row_readable (ap_cas env) (ap_decode env) file) (rows_of t (ap_computer a)) qs
     \<and> list_all2 (\<lambda>row q. \<forall>rc. Receipt_UnmarshalJSON (ar_receipt row) = Inr rc
          \<longrightarrow> VerifyEventHeadReceipt (ap_uuid7 env) (ce_crypto (ap_cas env)) (Some (ap_keys env)) rc q = None) (rows_of t (ap_computer a)) qs"

lemma record_servable:
  assumes rf: "record_for (ap_cas env) d q" and rd: "row_readable (ap_cas env) dec file row q" and um: "Receipt_UnmarshalJSON (ar_receipt row) = Inr (de_Receipt d)"
    and v: "VerifyEventHeadReceipt (ap_uuid7 env) (ce_crypto (ap_cas env)) (Some (ap_keys env)) (de_Receipt d) q = None"
  shows "servable env a d q"
proof -
  obtain r doc body where r: "issued_for (ap_cas env) q r" "receipt_text_ok r" "Receipt_values True r = Inr doc" "Receipt_CanonicalBytes r = Inr body"
      "row = append_row (ap_sha env) q r doc body" "EventDigest q = ap_sha env (bytes_of (rq_Event q))" "admit_request (ap_cas env) q = None" "view_text_ok q"
    using rd unfolding row_readable_def by blast
  have "de_Receipt d = stored_form r" using um r(5) decode_stored [OF r(3,2)] by simp
  then have "receipt_binds (de_Receipt d) (EventDigest q)" using stored_binds [OF r(1,4,8)] by simp
  moreover have "EventArtifactDigest q = EventDigest q" using r(7) by (auto simp: admit_request_def split: if_splits)
  moreover have "VerifyEventHeadReceipt (ap_uuid7 env) (ce_crypto (ap_cas env)) (Some (ap_keys env)) (de_Receipt d) (replayed (ap_sha env) q) = None"
    using v unfolding VerifyEventHeadReceipt_def replayed_simps .
  ultimately show ?thesis using rf r(6) by (simp add: servable_def record_for_def)
qed

lemma page_servable:
  assumes cr: "chain_readable env a file t qs" and c: "ap_computer a \<noteq> []"
  shows "\<exists>ds. EventsPage (ap_sha env) (ap_decode env) file False t (ap_computer a) n EventReplayPageSize = Inr ds
    \<and> list_all2 (servable env a) ds (take 1024 (drop (unat n) qs))"
proof -
  let ?k = "\<lambda>xs. take 1024 (drop (unat n) xs)" and ?rows = "rows_of t (ap_computer a)"
  note h = cr [unfolded chain_readable_def]
  obtain ds where ds: "EventsPage (ap_sha env) (ap_decode env) file False t (ap_computer a) n EventReplayPageSize = Inr ds"
      "list_all2 (record_for (ap_cas env)) ds (?k qs)" "list_all2 (\<lambda>d row. Receipt_UnmarshalJSON (ar_receipt row) = Inr (de_Receipt d)) ds (?k ?rows)"
    using page_replays [where n = EventReplayPageSize and a = n, OF conjunct1 [OF h] conjunct1 [OF conjunct2 [OF h]]] c
    by (auto simp: EventReplayPageSize_def EventReplayMaxPageSize_def)
  have "list_all2 (\<lambda>row q. row_readable (ap_cas env) (ap_decode env) file row q \<and> (\<forall>rc. Receipt_UnmarshalJSON (ar_receipt row) = Inr rc
      \<longrightarrow> VerifyEventHeadReceipt (ap_uuid7 env) (ce_crypto (ap_cas env)) (Some (ap_keys env)) rc q = None)) ?rows qs"
    using h by (simp add: list_all2_conv_all_nth)
  then have l: "list_all2 (\<lambda>row q. row_readable (ap_cas env) (ap_decode env) file row q \<and> (\<forall>rc. Receipt_UnmarshalJSON (ar_receipt row) = Inr rc
      \<longrightarrow> VerifyEventHeadReceipt (ap_uuid7 env) (ce_crypto (ap_cas env)) (Some (ap_keys env)) rc q = None)) (?k ?rows) (?k qs)"
    by (simp add: list_all2_takeI list_all2_dropI)
  have "servable env a (ds ! i) (?k qs ! i)" if i: "i < length ds" for i
    by (rule record_servable) (use i ds(2,3) l in \<open>auto simp: list_all2_conv_all_nth\<close>)
  then have "list_all2 (servable env a) ds (?k qs)" using list_all2_lengthD [OF ds(2)] by (simp add: list_all2_conv_all_nth)
  then show ?thesis using ds(1) by blast
qed

lemma history_tidy:
  assumes "history (ap_cas env) t c qs"
  shows "tidy env c qs (event_heads t c)" and "map ar_key (rows_of t c) = map (\<lambda>q. IdempotencyKey (rq_Event q)) qs"
    and "map ar_digest (rows_of t c) = map EventDigest qs"
proof -
  have s: "list_all2 (row_for (ap_cas env)) rows qs' \<Longrightarrow> map ar_key rows = map (\<lambda>q. IdempotencyKey (rq_Event q)) qs' \<and> map ar_digest rows = map EventDigest qs'"
    for rows qs' by (induction rows qs' rule: list_all2_induct) (auto simp: row_for_def)
  show k: "map ar_key (rows_of t c) = map (\<lambda>q. IdempotencyKey (rq_Event q)) qs" and d: "map ar_digest (rows_of t c) = map EventDigest qs"
    using s assms unfolding history_def by blast+
  show "tidy env c qs (event_heads t c)"
    using assms rows_positions(2) [OF assms] unfolding tidy_def k [symmetric] d [symmetric] by (simp add: history_def)
qed

lemma chain_None: "chain env qs = Inr None \<Longrightarrow> qs = []"
  by (cases qs rule: rev_cases) (auto simp: chain_snoc)

lemma caught_up_settled:
  assumes "history (ap_cas env) t c qs" "caught_up env c qs (length qs) p"
  shows "settled c t p"
proof -
  have "\<exists>r \<in> set (pj_index p). ix_computer r = c \<and> ix_key r = ar_key x \<and> ix_digest r = ar_digest x" if x: "x \<in> set (rows_of t c)" for x
  proof -
    obtain i where i: "i < length (rows_of t c)" "x = rows_of t c ! i" using x by (metis in_set_conv_nth)
    have "length qs = length (rows_of t c)" using rows_positions(3) [OF assms(1)] .
    then have "qs ! i \<in> set qs" "ar_key x = IdempotencyKey (rq_Event (qs ! i))" "ar_digest x = EventDigest (qs ! i)"
      using i history_tidy(2,3) [OF assms(1)] by (metis nth_mem, metis nth_map, metis nth_map)
    then show ?thesis using assms(2) unfolding caught_up_def by (metis take_all order_refl)
  qed
  then show ?thesis using assms by (auto simp: settled_def caught_up_def history_def)
qed

lemma caught_up_start:
  assumes "caught_up env (ap_computer a) qs k p" "k \<le> length qs"
  shows "replay_at env a qs k (replay_start p (pj_heads p (ap_computer a)))"
proof -
  have ch: "chain (ap_cas env) (take k qs) = Inr (pj_heads p (ap_computer a))" using assms(1) by (simp add: caught_up_def)
  have "unat (case pj_heads p (ap_computer a) of None \<Rightarrow> 0 | Some g \<Rightarrow> h_Sequence g) = k"
  proof (cases "pj_heads p (ap_computer a)")
    case None
    then show ?thesis using chain_None [OF ch [unfolded None]] assms(2) by auto
  next
    case (Some g)
    then show ?thesis using replay_sequence [OF chain_replay [OF ch [unfolded Some]]] assms(2) by (simp add: tape_of_def)
  qed
  then show ?thesis using assms(1) by (simp add: replay_at_def replay_start_def)
qed

section \<open>Properties\<close>

definition quiet :: "ReplayFaults \<Rightarrow> bool" where
  "quiet rf \<longleftrightarrow> \<not> rf_head rf \<and> (\<forall>x. \<not> rf_list rf x \<and> \<not> rf_local rf x \<and> \<not> rf_final rf x \<and> \<not> rf_commit rf x) \<and> (\<forall>n. calm (rf_event rf n))"

text \<open>C11: reconstruction catches up exactly where the recorded batches project. Over a chain whose rows can be read and whose receipts
  verify, from a store that holds the first events of the computer (none of them, or all but those whose swap was reported as
  failed), a reconstruction without faults and with more fuel than there are events left replays each remaining batch over the
  tables the earlier ones left. Where each of them resolves and is accepted, it succeeds: the world is settled at the platform's
  head and the tables are those the batches lead to. Where one is refused, it reports an error.\<close>

theorem reconstruct_catches_up:
  assumes "chain_readable env a file (w_platform w) qs" "ap_computer a \<noteq> []"
    and "caught_up env (ap_computer a) qs k (w_store w)" "k \<le> length qs" "length qs < k + fuel" "quiet rf"
  shows "case project_chain env a (pj_tables (w_store w)) (drop k qs) of
      None \<Rightarrow> \<exists>err w'. Reconstruct env rf a (Paged (EventsPage (ap_sha env) (ap_decode env) file False (w_platform w))) fuel w = Some (Some err, w')
        \<and> w_platform w' = w_platform w
    | Some tables \<Rightarrow> \<exists>w'. Reconstruct env rf a (Paged (EventsPage (ap_sha env) (ap_decode env) file False (w_platform w))) fuel w = Some (None, w')
        \<and> w_platform w' = w_platform w \<and> settled (ap_computer a) (w_platform w') (w_store w') \<and> pj_tables (w_store w') = tables"
proof -
  let ?c = "ap_computer a" and ?p = "w_store w" and ?src = "EventsPage (ap_sha env) (ap_decode env) file False (w_platform w)"
  have h: "history (ap_cas env) (w_platform w) ?c qs" using assms(1) by (simp add: chain_readable_def)
  note td = history_tidy(1) [OF h] and q = assms(6) [unfolded quiet_def]
  have "filter (\<lambda>r. ix_computer r = ?c \<and> ix_status r = StatusPrepared) (pj_index ?p) = []"
    using assms(3) by (auto simp: filter_empty_conv caught_up_def)
  then have rc: "RecoverPrepared env (rf_list rf) (rf_recover rf) a w = (None, w)"
    using q by (simp add: RecoverPrepared_def Prepared_def go_sort_def)
  have at: "replay_at env a qs k (replay_start ?p (pj_heads ?p ?c))" by (rule caught_up_start [OF assms(3,4)])
  note pages = replay_pages_servable [where fs = "rf_event rf" and page = ?src, OF td _ page_servable [OF assms(1,2)] at assms(4,5)]
  show ?thesis
  proof (cases "project_chain env a (pj_tables ?p) (drop k qs)")
    case None
    then obtain err s where "replay_pages env (rf_event rf) a [] ?src fuel (replay_start ?p (pj_heads ?p ?c)) = Some (Failed err, s)"
      using pages q by (auto simp: replay_start_def)
    then show ?thesis using None rc q by (simp add: Reconstruct_def reconstruct_def Store_Head_def replay_source_def)
  next
    case (Some tables)
    then obtain s where s: "replay_pages env (rf_event rf) a [] ?src fuel (replay_start ?p (pj_heads ?p ?c)) = Some (Continue, s)"
        "replay_at env a qs (length qs) s" "pj_tables (rp_store s) = tables"
      using pages q by (auto simp: replay_start_def)
    have st: "settled ?c (w_platform w) (rp_store s)" using caught_up_settled [OF h] s(2) by (simp add: replay_at_def)
    obtain s1 where s1: "commitReplay (rf_commit rf) a s = (None, s1)" "same_store s s1" using commitReplay_calm [of "rf_commit rf" a s] q by blast
    have "Reconstruct env rf a (Paged ?src) fuel w = Some (None, w\<lparr>w_store := rp_store s1\<rparr>)"
      using rc s(1) s1(1) q st by (simp add: Reconstruct_def reconstruct_def Store_Head_def replay_source_def settled_def)
    moreover have "settled ?c (w_platform w) (rp_store s1)" using st s1(2) by (simp add: settled_def same_store_def)
    ultimately show ?thesis using Some s(3) s1(2) by (simp add: same_store_def)
  qed
qed

section \<open>Witness\<close>

definition wit_quiet :: ReplayFaults where
  "wit_quiet = \<lparr>rf_list = (\<lambda>_. False), rf_recover = (\<lambda>_. wit_calm), rf_local = (\<lambda>_. False), rf_event = (\<lambda>_. wit_calm), rf_head = False,
     rf_final = (\<lambda>_. False), rf_commit = (\<lambda>_. False)\<rparr>"

theorem reconstruct_catches_up_witness:
  "\<exists>t w'. appendLocked wit_append (wit_calm\<lparr>f_lost := True\<rparr>) wit_appender wit_world (rq_Event wit_swap) (rq_Input wit_swap) []
      = (Inl SwapLost, \<lparr>w_platform = t, w_store = EmptyStore Map.empty\<rparr>)
    \<and> Reconstruct wit_append wit_quiet wit_appender
        (Paged (EventsPage wit_sha256 (ap_decode wit_append) (\<lambda>_. Some (bytes_of (rq_Event wit_swap))) False t)) 2
        \<lparr>w_platform = t, w_store = EmptyStore Map.empty\<rparr> = Some (None, w')
    \<and> settled ''c'' t (w_store w')"
proof -
  let ?file = "\<lambda>_. Some (bytes_of (rq_Event wit_swap))"
  obtain r doc body t where t: "CompareAndSwap wit_env (\<lambda>_. False) ''u'' wit_time NoEvents wit_swap = (Inr r, t)"
      "history wit_env t ''c'' [wit_swap]" "rows_of t ''c'' = [append_row wit_sha256 wit_swap r doc body]"
      "row_readable wit_env (\<lambda>_. Some (rq_Event wit_swap)) ?file (append_row wit_sha256 wit_swap r doc body) wit_swap"
      "Receipt_UnmarshalJSON doc = Inr (stored_form r)"
      "NewSignedReceipt wit_scheme_text ''u'' ''EventHeadReceipt'' ''corpusd'' (head_receipt_fields wit_swap) [wit_key] wit_time = Inr r"
    using wit_chain .
  let ?w = "\<lparr>w_platform = t, w_store = EmptyStore Map.empty\<rparr>"
  have a: "appendLocked wit_append (wit_calm\<lparr>f_lost := True\<rparr>) wit_appender wit_world (rq_Event wit_swap) (rq_Input wit_swap) [] = (Inl SwapLost, ?w)"
    using wit_appended t(1) by (metis Pair_inject)
  have sq: "int (unat (ev_Sequence (rq_Event wit_swap))) \<le> int64_max" by (simp add: wit_swap_fields int64_max_def)
  have kf: "KindFields r = head_receipt_fields wit_swap" using NewSignedReceipt_Inr [OF t(6)] by blast
  have "VerifyEventHeadReceipt wit_uuid7 wit_scheme_text (Some (\<lambda>_ _ _ _ _. Some (PrivateKey wit_key))) r wit_swap = None"
    by (rule issued_receipt_verifies [OF t(6) wit_scheme_text_ok(1) _ wit_issue_args(5) wit_swap_view]) (simp_all add: wit_uuid7_def)
  then have v: "VerifyEventHeadReceipt wit_uuid7 wit_scheme_text (Some (\<lambda>_ _ _ _ _. Some (PrivateKey wit_key))) (stored_form r) wit_swap = None"
    using head_receipt_stored [OF kf wit_swap_view sq] by simp
  have dec: "ap_decode wit_append = (\<lambda>_. Some (rq_Event wit_swap))" by (rule ext) simp
  have cr: "chain_readable wit_append wit_appender ?file (w_platform ?w) [wit_swap]"
    using t(2-5) v by (simp add: chain_readable_def dec wit_swap_fields)
  have pc: "project_chain wit_append wit_appender (pj_tables (w_store ?w)) (drop 0 [wit_swap]) = Some ()"
    by (simp add: projected_plain wit_swap_fields EmptyStore_def)
  have cu: "caught_up wit_append (ap_computer wit_appender) [wit_swap] 0 (w_store ?w)"
    using EmptyStore_inv [of Map.empty] by (simp add: caught_up_def EmptyStore_def)
  have q: "quiet wit_quiet" by (simp add: quiet_def wit_quiet_def calm_def)
  show ?thesis
    using reconstruct_catches_up [where fuel = 2, OF cr _ cu _ _ q] pc a by auto
qed

end
