(* ===== verification/Actor_Coalescer.thy ===== *)
theory Actor_Coalescer
  imports Prelude
begin

text \<open>
  The wake coalescer (\<^verbatim>\<open>src/internal/actor/coalesce.go\<close>): child settlements are batched into one wake of the parent.
  The mutex makes every method one step. A timer made by \<^verbatim>\<open>time.AfterFunc\<close> is armed or not; when it expires its
  callback starts and waits for the mutex, so a callback may still run after the timer was stopped: started callbacks
  are part of the state. The order in which Go visits the map of settled children is the parameter \<open>order\<close>.
\<close>

datatype WakeReason = WakeAllComplete | WakeQuiescence | WakeTimeout | WakeTombstone

record WakeBatch =
  wb_Completed :: "string list"
  wb_Tombstones :: "string \<rightharpoonup> string"
  wb_Reason :: WakeReason

record Coalescer =
  co_want :: int
  co_window :: int
  co_completed :: "string set"
  co_tombstones :: "string \<rightharpoonup> string"
  co_fired :: bool
  co_timer :: bool
  co_deadline :: bool
  co_callbacks :: "WakeReason list"
  co_out :: "WakeBatch list"

definition DefaultCoalesceWindow :: int where
  "DefaultCoalesceWindow = 500000000"

definition NewCoalescer :: "int \<Rightarrow> int \<Rightarrow> int \<Rightarrow> Coalescer" where
  "NewCoalescer want window timeout =
     \<lparr>co_want = want, co_window = (if window \<le> 0 then DefaultCoalesceWindow else window), co_completed = {},
      co_tombstones = Map.empty, co_fired = False, co_timer = False, co_deadline = 0 < timeout, co_callbacks = [], co_out = []\<rparr>"

definition settledLocked :: "Coalescer \<Rightarrow> bool" where
  "settledLocked c \<longleftrightarrow> 0 < co_want c \<and> co_want c \<le> int (card (co_completed c))"

definition debounceLocked :: "Coalescer \<Rightarrow> Coalescer" where
  "debounceLocked c = c\<lparr>co_timer := True\<rparr>"

definition fireLocked :: "(string set \<Rightarrow> string list) \<Rightarrow> WakeReason \<Rightarrow> Coalescer \<Rightarrow> Coalescer" where
  "fireLocked order reason c =
     (if co_fired c then c
      else let completed = filter (\<lambda>i. co_tombstones c i = None) (order (co_completed c));
               reason' = (if reason = WakeAllComplete \<and> dom (co_tombstones c) \<noteq> {} then WakeTombstone else reason)
        in c\<lparr>co_fired := True, co_timer := False, co_deadline := False,
             co_out := co_out c @ [\<lparr>wb_Completed = completed, wb_Tombstones = co_tombstones c, wb_Reason = reason'\<rparr>]\<rparr>)"

definition Complete :: "(string set \<Rightarrow> string list) \<Rightarrow> string \<Rightarrow> Coalescer \<Rightarrow> Coalescer" where
  "Complete order i c =
     (if co_fired c \<or> i \<in> co_completed c then c
      else let c1 = c\<lparr>co_completed := insert i (co_completed c)\<rparr> in
        if settledLocked c1 then fireLocked order WakeAllComplete c1 else debounceLocked c1)"

definition Fail :: "(string set \<Rightarrow> string list) \<Rightarrow> string \<Rightarrow> string \<Rightarrow> Coalescer \<Rightarrow> Coalescer" where
  "Fail order i reason c =
     (if co_fired c then c
      else let c1 = c\<lparr>co_completed := insert i (co_completed c), co_tombstones := (co_tombstones c)(i \<mapsto> reason)\<rparr> in
        if settledLocked c1
        then (if dom (co_tombstones c1) \<noteq> {} then fireLocked order WakeTombstone c1 else fireLocked order WakeAllComplete c1)
        else debounceLocked c1)"

definition Coalescer_Stop :: "Coalescer \<Rightarrow> Coalescer" where
  "Coalescer_Stop c = c\<lparr>co_timer := False, co_deadline := False\<rparr>"

text \<open>The expiry of an armed timer starts its callback; a started callback runs once it holds the mutex.\<close>

datatype co_event = EvComplete string | EvFail string string | EvQuiet | EvDeadline | EvCallback nat | EvStop

fun co_step :: "(string set \<Rightarrow> string list) \<Rightarrow> Coalescer \<Rightarrow> co_event \<Rightarrow> Coalescer" where
  "co_step order c (EvComplete i) = Complete order i c"
| "co_step order c (EvFail i reason) = Fail order i reason c"
| "co_step order c EvQuiet = (if co_timer c then c\<lparr>co_timer := False, co_callbacks := co_callbacks c @ [WakeQuiescence]\<rparr> else c)"
| "co_step order c EvDeadline = (if co_deadline c then c\<lparr>co_deadline := False, co_callbacks := co_callbacks c @ [WakeTimeout]\<rparr> else c)"
| "co_step order c (EvCallback k) =
     (if k < length (co_callbacks c)
      then fireLocked order (co_callbacks c ! k) (c\<lparr>co_callbacks := take k (co_callbacks c) @ drop (Suc k) (co_callbacks c)\<rparr>) else c)"
| "co_step order c EvStop = Coalescer_Stop c"

subsection \<open>Invariant\<close>

definition enumerating :: "(string set \<Rightarrow> string list) \<Rightarrow> bool" where
  "enumerating order \<longleftrightarrow> (\<forall>S. finite S \<longrightarrow> enumerates (order S) S)"

definition batch_ok :: "int \<Rightarrow> WakeBatch \<Rightarrow> bool" where
  "batch_ok want b \<longleftrightarrow> distinct (wb_Completed b) \<and> set (wb_Completed b) \<inter> dom (wb_Tombstones b) = {}
     \<and> (wb_Reason b = WakeAllComplete \<longrightarrow> wb_Tombstones b = Map.empty)
     \<and> (wb_Reason b = WakeTombstone \<longrightarrow> dom (wb_Tombstones b) \<noteq> {})
     \<and> (wb_Reason b \<in> {WakeAllComplete, WakeTombstone} \<longrightarrow> 0 < want \<and> want \<le> int (length (wb_Completed b) + card (dom (wb_Tombstones b))))"

definition batch_of :: "Coalescer \<Rightarrow> WakeBatch \<Rightarrow> bool" where
  "batch_of c b \<longleftrightarrow> set (wb_Completed b) = co_completed c - dom (co_tombstones c) \<and> wb_Tombstones b = co_tombstones c"

definition co_inv :: "Coalescer \<Rightarrow> bool" where
  "co_inv c \<longleftrightarrow> finite (co_completed c) \<and> dom (co_tombstones c) \<subseteq> co_completed c
     \<and> set (co_callbacks c) \<subseteq> {WakeQuiescence, WakeTimeout}
     \<and> (if co_fired c then \<not> co_timer c \<and> \<not> co_deadline c \<and> (\<exists>b. co_out c = [b] \<and> batch_ok (co_want c) b \<and> batch_of c b)
        else co_out c = [] \<and> \<not> settledLocked c)"

lemma fire_inv:
  assumes "enumerating order" "finite (co_completed c)" "dom (co_tombstones c) \<subseteq> co_completed c"
    "set (co_callbacks c) \<subseteq> {WakeQuiescence, WakeTimeout}" "co_out c = []" "\<not> co_fired c"
    "reason \<in> {WakeAllComplete, WakeTombstone} \<Longrightarrow> settledLocked c" "reason = WakeTombstone \<Longrightarrow> dom (co_tombstones c) \<noteq> {}"
  shows "co_inv (fireLocked order reason c)"
proof -
  let ?l = "filter (\<lambda>i. co_tombstones c i = None) (order (co_completed c))"
  have l: "set ?l = co_completed c - dom (co_tombstones c)" "distinct ?l"
    using assms(1,2) by (auto simp: enumerating_def enumerates_def)
  have fin: "finite (dom (co_tombstones c))" using assms(2,3) by (rule finite_subset [rotated])
  have "length ?l = card (co_completed c - dom (co_tombstones c))"
    using l by (metis distinct_card)
  also have "\<dots> + card (dom (co_tombstones c)) = card (co_completed c)"
    using card_Diff_subset [OF fin assms(3)] card_mono [OF assms(2,3)] by simp
  finally have n: "length ?l + card (dom (co_tombstones c)) = card (co_completed c)" .
  show ?thesis
    using assms l n by (auto simp: co_inv_def fireLocked_def batch_ok_def batch_of_def settledLocked_def Let_def)
qed

lemma Complete_inv: "enumerating order \<Longrightarrow> co_inv c \<Longrightarrow> co_inv (Complete order i c)"
  by (auto simp: Complete_def Let_def debounceLocked_def intro!: fire_inv) (auto simp: co_inv_def settledLocked_def split: if_splits)

lemma Fail_inv: "enumerating order \<Longrightarrow> co_inv c \<Longrightarrow> co_inv (Fail order i reason c)"
  by (auto simp: Fail_def Let_def debounceLocked_def intro!: fire_inv) (auto simp: co_inv_def settledLocked_def split: if_splits)

lemma callback_removed: "set (take k xs @ drop (Suc k) xs) \<subseteq> set xs"
  using set_take_subset set_drop_subset by fastforce

lemma Callback_inv: "enumerating order \<Longrightarrow> co_inv c \<Longrightarrow> co_inv (co_step order c (EvCallback k))"
proof (cases "co_fired c")
  case True
  assume "co_inv c"
  with True show ?thesis using callback_removed [of k "co_callbacks c"] by (auto simp: co_inv_def fireLocked_def batch_of_def)
next
  case False
  assume a: "enumerating order" "co_inv c"
  show ?thesis
  proof (cases "k < length (co_callbacks c)")
    case True
    then have "co_callbacks c ! k \<in> {WakeQuiescence, WakeTimeout}" using a(2) by (auto simp: co_inv_def dest: nth_mem)
    then have "co_inv (fireLocked order (co_callbacks c ! k)
        (c\<lparr>co_callbacks := take k (co_callbacks c) @ drop (Suc k) (co_callbacks c)\<rparr>))"
      using a False callback_removed [of k "co_callbacks c"] by (intro fire_inv) (auto simp: co_inv_def)
    with True show ?thesis by simp
  qed (use a in simp)
qed

lemma co_step_inv: "enumerating order \<Longrightarrow> co_inv c \<Longrightarrow> co_inv (co_step order c e)"
proof (cases e)
  case (EvCallback k)
  then show "enumerating order \<Longrightarrow> co_inv c \<Longrightarrow> ?thesis" using Callback_inv by simp
qed (auto simp: Complete_inv Fail_inv, auto simp: co_inv_def Coalescer_Stop_def settledLocked_def batch_of_def)

interpretation coalescer: fold_step "co_step order" "\<lambda>c. enumerating order \<longrightarrow> co_inv c" for order
  by unfold_locales (simp add: co_step_inv)

lemma New_inv: "co_inv (NewCoalescer want window timeout)"
  by (simp add: co_inv_def NewCoalescer_def settledLocked_def)

lemma co_want_step [simp]: "co_want (co_step order c e) = co_want c"
  by (cases e) (auto simp: Complete_def Fail_def fireLocked_def debounceLocked_def Coalescer_Stop_def Let_def)

lemma co_want_run [simp]: "co_want (foldl (co_step order) c es) = co_want c"
  by (induction es arbitrary: c) simp_all

lemma fired_step: "co_fired c \<Longrightarrow> co_fired (co_step order c e) \<and> co_out (co_step order c e) = co_out c"
  by (cases e) (auto simp: Complete_def Fail_def fireLocked_def Coalescer_Stop_def)

lemma fired_run: "co_fired c \<Longrightarrow> co_out (foldl (co_step order) c es) = co_out c"
  by (induction es arbitrary: c) (simp_all add: fired_step)

text \<open>Who will still wake the parent: the quiescence timer once something settled, the deadline where there is one.\<close>

definition co_awake :: "bool \<Rightarrow> Coalescer \<Rightarrow> bool" where
  "co_awake deadline c \<longleftrightarrow> co_fired c
     \<or> (co_completed c \<noteq> {} \<longrightarrow> co_timer c \<or> WakeQuiescence \<in> set (co_callbacks c))
       \<and> (deadline \<longrightarrow> co_deadline c \<or> WakeTimeout \<in> set (co_callbacks c))"

lemma fire_fires [simp]: "co_fired (fireLocked order reason c)"
  by (simp add: fireLocked_def Let_def)

lemma co_step_awake: "e \<noteq> EvStop \<Longrightarrow> co_awake d c \<Longrightarrow> co_awake d (co_step order c e)"
  by (cases e) (auto simp: co_awake_def Complete_def Fail_def debounceLocked_def Let_def fired_step split: if_splits)

lemma co_run_awake: "EvStop \<notin> set es \<Longrightarrow> co_awake d c \<Longrightarrow> co_awake d (foldl (co_step order) c es)"
  by (induction es arbitrary: c) (auto simp: co_step_awake)

lemma callback_fires: "r \<in> set (co_callbacks c) \<Longrightarrow> \<exists>k. co_fired (co_step order c (EvCallback k))"
  by (auto simp: in_set_conv_nth)

lemma awake_fires:
  assumes "co_awake d c" "d \<or> co_completed c \<noteq> {}"
  shows "\<exists>t k. t \<in> {EvQuiet, EvDeadline} \<and> co_fired (foldl (co_step order) c [t, EvCallback k])"
proof (cases "co_fired c")
  case True
  then show ?thesis by (auto simp: fired_step fireLocked_def)
next
  case False
  have "\<exists>t \<in> {EvQuiet, EvDeadline}. \<exists>r. r \<in> set (co_callbacks (co_step order c t))"
    using assms False by (auto simp: co_awake_def)
  then show ?thesis using callback_fires by (metis foldl_Cons foldl_Nil)
qed

subsection \<open>Properties\<close>

text \<open>C40: a coalescer wakes its parent at most once, and its batch is exact. Whatever settlements, expiries, callbacks and
  stops happen in whatever order, it has sent one batch if it has fired and none otherwise; the batch lists every
  child that had settled once, as completed or as a tombstone; an all-complete wake has no tombstone and a tombstone
  wake has one, and both need the expected number of settlements; nothing that happens later sends another batch; and
  while it has not fired, fewer children than expected have settled.\<close>

theorem coalescer_fires_once:
  assumes "enumerating order"
  shows "let c = foldl (co_step order) (NewCoalescer want window timeout) es in
     (if co_fired c
      then (\<exists>b. co_out c = [b] \<and> batch_ok want b \<and> batch_of c b \<and> (\<forall>es'. co_out (foldl (co_step order) c es') = [b]))
      else co_out c = [] \<and> (0 < want \<longrightarrow> int (card (co_completed c)) < want))"
proof -
  let ?c = "foldl (co_step order) (NewCoalescer want window timeout) es"
  have "co_inv ?c" using coalescer.foldl_inv [of order "NewCoalescer want window timeout" es] New_inv assms by blast
  moreover have "co_want ?c = want" by (simp add: NewCoalescer_def)
  ultimately show ?thesis using fired_run [of ?c order] by (auto simp: co_inv_def settledLocked_def Let_def)
qed

text \<open>No wake is lost. As long as the coalescer is not stopped, once a child has settled, or if it was made with a
  timeout, the expiry of a timer and its callback always make it fire.\<close>

theorem coalescer_wakes:
  assumes "EvStop \<notin> set es" "0 < timeout \<or> co_completed (foldl (co_step order) (NewCoalescer want window timeout) es) \<noteq> {}"
  shows "\<exists>t k. t \<in> {EvQuiet, EvDeadline}
     \<and> co_fired (foldl (co_step order) (NewCoalescer want window timeout) (es @ [t, EvCallback k]))"
proof -
  have "co_awake (0 < timeout) (NewCoalescer want window timeout)" by (simp add: co_awake_def NewCoalescer_def)
  from awake_fires [OF co_run_awake [OF assms(1) this] assms(2)] show ?thesis by simp
qed

text \<open>Without a timeout and before the first settlement no timer is armed: the wait has no bound.\<close>

lemma silent_coalescer_never_fires:
  assumes "timeout \<le> 0" "set es \<subseteq> {EvQuiet, EvDeadline, EvStop} \<union> range EvCallback"
  shows "co_out (foldl (co_step order) (NewCoalescer want window timeout) es) = []"
proof -
  have "co_out (foldl (co_step order) c es) = []"
    if "\<not> co_timer c" "\<not> co_deadline c" "co_callbacks c = []" "co_out c = []" for c
    using assms(2) that by (induction es arbitrary: c) (auto simp: Coalescer_Stop_def)
  then show ?thesis using assms(1) by (simp add: NewCoalescer_def)
qed

lemma enumerating_sorted: "enumerating sorted_list_of_set"
  by (simp add: enumerating_def enumerates_def)

theorem coalescer_fires_once_witness:
  "\<exists>b. co_out (foldl (co_step sorted_list_of_set) (NewCoalescer 2 0 0) [EvComplete ''a'', EvFail ''b'' ''x'']) = [b]
     \<and> batch_ok 2 b"
proof -
  have f: "co_fired (foldl (co_step sorted_list_of_set) (NewCoalescer 2 0 0) [EvComplete ''a'', EvFail ''b'' ''x''])"
    by (simp add: NewCoalescer_def Complete_def Fail_def settledLocked_def debounceLocked_def Let_def)
  show ?thesis
    using coalescer_fires_once [OF enumerating_sorted, of 2 0 0 "[EvComplete ''a'', EvFail ''b'' ''x'']"] f
    unfolding Let_def by (simp only: if_True) blast
qed

theorem coalescer_wakes_witness:
  "\<exists>t k. t \<in> {EvQuiet, EvDeadline}
     \<and> co_fired (foldl (co_step sorted_list_of_set) (NewCoalescer 2 0 0) ([EvComplete ''a''] @ [t, EvCallback k]))"
  by (rule coalescer_wakes)
    (simp_all add: NewCoalescer_def Complete_def settledLocked_def debounceLocked_def Let_def)

end
