(* ===== verification/Actor_Log.thy ===== *)
theory Actor_Log
  imports Prelude
begin

text \<open>
  The durable update log of the actor runtime (\<^verbatim>\<open>src/internal/actor/log_sqlite.go\<close>): the table of updates with its
  processed marks, the table of memory snapshots, the queries of the runtime and the two mailbox migrations. A table
  is the list of its rows in insertion order; a statement that can fail asks a fault oracle. Time stamps compare as
  instants.
\<close>

subsection \<open>Rows\<close>

record Update =
  u_UpdateID :: string
  u_ToAgentID :: string
  u_FromAgentID :: string
  u_Kind :: string
  u_Content :: string
  u_TrajectoryID :: string
  u_CreatedAt :: gotime

record UpdateRow =
  ur_update :: Update
  ur_processed_at :: "gotime option"

record SnapshotRow =
  sn_agent_id :: string
  sn_memory :: "string option"
  sn_updated_at :: gotime

record SQLiteLog =
  actor_updates :: "UpdateRow list"
  actor_snapshots :: "SnapshotRow list"

definition NewSQLiteLog :: SQLiteLog where
  "NewSQLiteLog = \<lparr>actor_updates = [], actor_snapshots = []\<rparr>"

record MailboxRebind =
  LegacyID :: string
  ScopedID :: string

datatype log_stmt = ExecAppend | CountAppend | SelectUnprocessed | ScanUpdate | ExecMark | SelectStatus | SelectAgents
  | SelectMailboxes | ExecSnapshot | SelectSnapshot | BeginTx | InspectMailbox string | MoveUpdates string
  | MergeSnapshot string | DropSnapshot string | CountRows string | DropUpdates string | CommitTx

datatype log_error = StatementFailed log_stmt | IdentitiesRequired | DuplicateLegacy string | DuplicateScoped string
  | MailboxRequired | DuplicateMailbox string

type_synonym log_fault = "log_stmt \<Rightarrow> bool"

subsection \<open>Updates\<close>

abbreviation ur_id :: "UpdateRow \<Rightarrow> string" where "ur_id r \<equiv> u_UpdateID (ur_update r)"
abbreviation ur_agent :: "UpdateRow \<Rightarrow> string" where "ur_agent r \<equiv> u_ToAgentID (ur_update r)"

definition SQLiteLog_Append :: "log_fault \<Rightarrow> SQLiteLog \<Rightarrow> Update \<Rightarrow> (log_error + bool) \<times> SQLiteLog" where
  "SQLiteLog_Append flt l u =
     (if flt ExecAppend then (Inl (StatementFailed ExecAppend), l)
      else let fresh = u_UpdateID u \<notin> ur_id ` set (actor_updates l);
               l' = (if fresh then l\<lparr>actor_updates := actor_updates l @ [\<lparr>ur_update = u, ur_processed_at = None\<rparr>]\<rparr> else l)
        in (if flt CountAppend then Inl (StatementFailed CountAppend) else Inr fresh, l'))"

definition Unprocessed :: "log_fault \<Rightarrow> SQLiteLog \<Rightarrow> string \<Rightarrow> log_error + Update list" where
  "Unprocessed flt l agent =
     (if flt SelectUnprocessed then Inl (StatementFailed SelectUnprocessed)
      else if flt ScanUpdate then Inl (StatementFailed ScanUpdate)
      else Inr (go_sort (\<lambda>u. (u_CreatedAt u, u_UpdateID u))
        (map ur_update (filter (\<lambda>r. ur_agent r = agent \<and> ur_processed_at r = None) (actor_updates l)))))"

definition MarkProcessed :: "log_fault \<Rightarrow> gotime \<Rightarrow> SQLiteLog \<Rightarrow> string \<Rightarrow> string \<Rightarrow> log_error option \<times> SQLiteLog" where
  "MarkProcessed flt now l agent i =
     (if flt ExecMark then (Some (StatementFailed ExecMark), l)
      else (None, l\<lparr>actor_updates := map (\<lambda>r. if ur_id r = i \<and> ur_agent r = agent \<and> ur_processed_at r = None
              then r\<lparr>ur_processed_at := Some now\<rparr> else r) (actor_updates l)\<rparr>))"

definition UpdateStatus :: "log_fault \<Rightarrow> SQLiteLog \<Rightarrow> string \<Rightarrow> string \<Rightarrow> log_error + bool \<times> bool" where
  "UpdateStatus flt l agent i =
     (if flt SelectStatus then Inl (StatementFailed SelectStatus)
      else case find (\<lambda>r. ur_id r = i \<and> ur_agent r = agent) (actor_updates l) of
        None \<Rightarrow> Inr (False, False) | Some r \<Rightarrow> Inr (True, ur_processed_at r \<noteq> None))"

definition AgentsWithBacklog :: "log_fault \<Rightarrow> SQLiteLog \<Rightarrow> log_error + string list" where
  "AgentsWithBacklog flt l =
     (if flt SelectAgents then Inl (StatementFailed SelectAgents)
      else Inr (remdups (map ur_agent (filter (\<lambda>r. ur_processed_at r = None) (actor_updates l)))))"

definition MailboxIdentities :: "log_fault \<Rightarrow> SQLiteLog \<Rightarrow> log_error + string list" where
  "MailboxIdentities flt l =
     (if flt SelectMailboxes then Inl (StatementFailed SelectMailboxes)
      else Inr (go_sort id (remdups (map ur_agent (actor_updates l) @ map sn_agent_id (actor_snapshots l)))))"

subsection \<open>Snapshots\<close>

definition SaveSnapshot :: "log_fault \<Rightarrow> gotime \<Rightarrow> SQLiteLog \<Rightarrow> string \<Rightarrow> string option \<Rightarrow> log_error option \<times> SQLiteLog" where
  "SaveSnapshot flt now l agent memory =
     (if flt ExecSnapshot then (Some (StatementFailed ExecSnapshot), l)
      else (None, l\<lparr>actor_snapshots :=
        (if agent \<in> sn_agent_id ` set (actor_snapshots l)
         then map (\<lambda>s. if sn_agent_id s = agent then s\<lparr>sn_memory := memory, sn_updated_at := now\<rparr> else s) (actor_snapshots l)
         else actor_snapshots l @ [\<lparr>sn_agent_id = agent, sn_memory = memory, sn_updated_at = now\<rparr>])\<rparr>))"

definition LoadSnapshot :: "log_fault \<Rightarrow> SQLiteLog \<Rightarrow> string \<Rightarrow> log_error + string option" where
  "LoadSnapshot flt l agent =
     (if flt SelectSnapshot then Inl (StatementFailed SelectSnapshot)
      else case find (\<lambda>s. sn_agent_id s = agent) (actor_snapshots l) of None \<Rightarrow> Inr None | Some s \<Rightarrow> Inr (sn_memory s))"

subsection \<open>Mailbox migrations\<close>

fun check_rebinds :: "string list \<Rightarrow> string list \<Rightarrow> MailboxRebind list \<Rightarrow> log_error option" where
  "check_rebinds legacyIDs scopedIDs [] = None"
| "check_rebinds legacyIDs scopedIDs (rb # plan) =
     (if LegacyID rb = [] \<or> ScopedID rb = [] \<or> LegacyID rb = ScopedID rb then Some IdentitiesRequired
      else if LegacyID rb \<in> set legacyIDs then Some (DuplicateLegacy (LegacyID rb))
      else if ScopedID rb \<in> set scopedIDs then Some (DuplicateScoped (ScopedID rb))
      else check_rebinds (LegacyID rb # legacyIDs) (ScopedID rb # scopedIDs) plan)"

definition has_mailbox :: "SQLiteLog \<Rightarrow> string \<Rightarrow> bool" where
  "has_mailbox l agent \<longleftrightarrow> agent \<in> ur_agent ` set (actor_updates l) \<or> agent \<in> sn_agent_id ` set (actor_snapshots l)"

definition active_rebinds :: "log_fault \<Rightarrow> SQLiteLog \<Rightarrow> MailboxRebind list \<Rightarrow> log_error + MailboxRebind list" where
  "active_rebinds flt l plan =
     (case find (\<lambda>rb. flt (InspectMailbox (LegacyID rb))) plan of
        Some rb \<Rightarrow> Inl (StatementFailed (InspectMailbox (LegacyID rb)))
      | None \<Rightarrow> Inr (filter (\<lambda>rb. has_mailbox l (LegacyID rb)) plan))"

definition move_updates :: "string \<Rightarrow> string \<Rightarrow> UpdateRow list \<Rightarrow> UpdateRow list" where
  "move_updates scoped legacy = map (\<lambda>r. if ur_agent r = legacy then r\<lparr>ur_update := (ur_update r)\<lparr>u_ToAgentID := scoped\<rparr>\<rparr> else r)"

definition merge_snapshot :: "string \<Rightarrow> string \<Rightarrow> SnapshotRow list \<Rightarrow> SnapshotRow list" where
  "merge_snapshot scoped legacy ss =
     (case find (\<lambda>s. sn_agent_id s = legacy) ss of None \<Rightarrow> ss
      | Some src \<Rightarrow> if scoped \<in> sn_agent_id ` set ss
          then map (\<lambda>s. if sn_agent_id s = scoped \<and> sn_updated_at s < sn_updated_at src
                 then s\<lparr>sn_memory := sn_memory src, sn_updated_at := sn_updated_at src\<rparr> else s) ss
          else ss @ [src\<lparr>sn_agent_id := scoped\<rparr>])"

definition drop_snapshot :: "string \<Rightarrow> SnapshotRow list \<Rightarrow> SnapshotRow list" where
  "drop_snapshot agent = filter (\<lambda>s. sn_agent_id s \<noteq> agent)"

fun rebind_one :: "log_fault \<Rightarrow> bool \<times> SQLiteLog \<Rightarrow> MailboxRebind \<Rightarrow> log_error + bool \<times> SQLiteLog" where
  "rebind_one flt (changed, l) rb =
     (let legacy = LegacyID rb; scoped = ScopedID rb in
      if flt (MoveUpdates legacy) then Inl (StatementFailed (MoveUpdates legacy))
      else if flt (MergeSnapshot legacy) then Inl (StatementFailed (MergeSnapshot legacy))
      else if flt (DropSnapshot legacy) then Inl (StatementFailed (DropSnapshot legacy))
      else if flt (CountRows legacy) then Inl (StatementFailed (CountRows legacy))
      else let merged = merge_snapshot scoped legacy (actor_snapshots l) in
        Inr (changed \<or> legacy \<in> ur_agent ` set (actor_updates l) \<or> legacy \<in> sn_agent_id ` set merged,
             l\<lparr>actor_updates := move_updates scoped legacy (actor_updates l), actor_snapshots := drop_snapshot legacy merged\<rparr>))"

definition RebindMailboxes :: "log_fault \<Rightarrow> SQLiteLog \<Rightarrow> MailboxRebind list \<Rightarrow> (log_error + bool) \<times> SQLiteLog" where
  "RebindMailboxes flt l plan =
     (case check_rebinds [] [] plan of Some err \<Rightarrow> (Inl err, l)
      | None \<Rightarrow> if flt BeginTx then (Inl (StatementFailed BeginTx), l)
        else case rbind (active_rebinds flt l plan) (\<lambda>active. run_steps (rebind_one flt) (False, l) active) of
          Inl err \<Rightarrow> (Inl err, l)
        | Inr (changed, l') \<Rightarrow> if flt CommitTx then (Inl (StatementFailed CommitTx), l) else (Inr changed, l'))"

definition RebindMailbox :: "log_fault \<Rightarrow> SQLiteLog \<Rightarrow> string \<Rightarrow> string \<Rightarrow> (log_error + bool) \<times> SQLiteLog" where
  "RebindMailbox flt l legacy scoped = RebindMailboxes flt l [\<lparr>LegacyID = legacy, ScopedID = scoped\<rparr>]"

fun check_prune :: "string list \<Rightarrow> string list \<Rightarrow> log_error option" where
  "check_prune seen [] = None"
| "check_prune seen (i # ids) =
     (if i = [] then Some MailboxRequired else if i \<in> set seen then Some (DuplicateMailbox i) else check_prune (i # seen) ids)"

fun prune_one :: "log_fault \<Rightarrow> bool \<times> SQLiteLog \<Rightarrow> string \<Rightarrow> log_error + bool \<times> SQLiteLog" where
  "prune_one flt (changed, l) i =
     (if flt (DropUpdates i) then Inl (StatementFailed (DropUpdates i))
      else if flt (DropSnapshot i) then Inl (StatementFailed (DropSnapshot i))
      else if flt (CountRows i) then Inl (StatementFailed (CountRows i))
      else Inr (changed \<or> has_mailbox l i,
                l\<lparr>actor_updates := filter (\<lambda>r. ur_agent r \<noteq> i) (actor_updates l), actor_snapshots := drop_snapshot i (actor_snapshots l)\<rparr>))"

definition PruneMailboxes :: "log_fault \<Rightarrow> SQLiteLog \<Rightarrow> string list \<Rightarrow> (log_error + bool) \<times> SQLiteLog" where
  "PruneMailboxes flt l ids =
     (if ids = [] then (Inr False, l)
      else case check_prune [] ids of Some err \<Rightarrow> (Inl err, l)
      | None \<Rightarrow> if flt BeginTx then (Inl (StatementFailed BeginTx), l)
        else case run_steps (prune_one flt) (False, l) ids of Inl err \<Rightarrow> (Inl err, l)
        | Inr (changed, l') \<Rightarrow> if flt CommitTx then (Inl (StatementFailed CommitTx), l) else (Inr changed, l'))"

subsection \<open>What the runtime sees of the log\<close>

text \<open>Update ids and snapshot owners are primary keys.\<close>

definition log_ok :: "SQLiteLog \<Rightarrow> bool" where
  "log_ok l \<longleftrightarrow> distinct (map ur_id (actor_updates l)) \<and> distinct (map sn_agent_id (actor_snapshots l))"

definition logged :: "SQLiteLog \<Rightarrow> Update set" where
  "logged l = ur_update ` set (actor_updates l)"

definition pending :: "SQLiteLog \<Rightarrow> Update set" where
  "pending l = ur_update ` set (filter (\<lambda>r. ur_processed_at r = None) (actor_updates l))"

definition snapshot_of :: "SQLiteLog \<Rightarrow> string \<Rightarrow> (string option \<times> gotime) option" where
  "snapshot_of l a = map_option (\<lambda>s. (sn_memory s, sn_updated_at s)) (find (\<lambda>s. sn_agent_id s = a) (actor_snapshots l))"

lemma log_ok_New: "log_ok NewSQLiteLog"
  by (simp add: log_ok_def NewSQLiteLog_def)

lemma pending_logged: "pending l \<subseteq> logged l"
  by (auto simp: pending_def logged_def)

lemma logged_unique:
  "log_ok l \<Longrightarrow> u \<in> logged l \<Longrightarrow> v \<in> logged l \<Longrightarrow> u_UpdateID u = u_UpdateID v \<Longrightarrow> u = v"
  unfolding log_ok_def logged_def by (elim imageE conjE) (metis distinct_map_inj_eq)

lemma map_when_id: "(\<And>r. f (g r) = f r) \<Longrightarrow> map f (map (\<lambda>r. if P r then g r else r) xs) = map f xs"
  by (induction xs) auto

text \<open>
  The interface \<^verbatim>\<open>Log\<close> of \<^verbatim>\<open>actor.go\<close>: appends are idempotent on the update id, a mark settles exactly one update, and
  the queries list what is pending. \<open>known\<close> is the set of logged updates and \<open>open_updates\<close> the unprocessed ones.
\<close>

locale durable_log =
  fixes append_update :: "'l \<Rightarrow> Update \<Rightarrow> (log_error + bool) \<times> 'l"
    and unprocessed :: "'l \<Rightarrow> string \<Rightarrow> log_error + Update list"
    and mark :: "gotime \<Rightarrow> 'l \<Rightarrow> string \<Rightarrow> string \<Rightarrow> log_error option \<times> 'l"
    and agents :: "'l \<Rightarrow> log_error + string list"
    and save :: "gotime \<Rightarrow> 'l \<Rightarrow> string \<Rightarrow> string option \<Rightarrow> log_error option \<times> 'l"
    and known :: "'l \<Rightarrow> Update set"
    and open_updates :: "'l \<Rightarrow> Update set"
    and good :: "'l \<Rightarrow> bool"
  assumes open_known: "open_updates l \<subseteq> known l"
    and known_unique: "good l \<Longrightarrow> u \<in> known l \<Longrightarrow> v \<in> known l \<Longrightarrow> u_UpdateID u = u_UpdateID v \<Longrightarrow> u = v"
    and append_fresh: "append_update l u = (Inr True, l') \<Longrightarrow>
        u_UpdateID u \<notin> u_UpdateID ` known l \<and> known l' = insert u (known l) \<and> open_updates l' = insert u (open_updates l)"
    and append_resend: "append_update l u = (Inr False, l') \<Longrightarrow> u_UpdateID u \<in> u_UpdateID ` known l \<and> l' = l"
    and append_error: "append_update l u = (Inl err, l') \<Longrightarrow>
        l' = l \<or> (u_UpdateID u \<notin> u_UpdateID ` known l \<and> known l' = insert u (known l) \<and> open_updates l' = insert u (open_updates l))"
    and append_good: "good l \<Longrightarrow> append_update l u = (res, l') \<Longrightarrow> good l'"
    and unprocessed_open: "unprocessed l a = Inr us \<Longrightarrow> set us = {u \<in> open_updates l. u_ToAgentID u = a}"
    and mark_settles: "mark now l a i = (None, l') \<Longrightarrow>
        known l' = known l \<and> open_updates l' = open_updates l - {u. u_UpdateID u = i \<and> u_ToAgentID u = a}"
    and mark_error: "mark now l a i = (Some err, l') \<Longrightarrow> l' = l"
    and mark_good: "good l \<Longrightarrow> mark now l a i = (mres, l') \<Longrightarrow> good l'"
    and agents_open: "agents l = Inr as \<Longrightarrow> set as = u_ToAgentID ` open_updates l \<and> distinct as"
    and save_frame: "save now l a m = (mres, l') \<Longrightarrow> known l' = known l \<and> open_updates l' = open_updates l"
    and save_good: "good l \<Longrightarrow> save now l a m = (mres, l') \<Longrightarrow> good l'"
begin

lemma append_frame:
  assumes "append_update l u = (res, l')"
  shows "known l \<subseteq> known l' \<and> open_updates l \<subseteq> open_updates l' \<and> known l' - open_updates l' \<supseteq> known l - open_updates l"
proof (cases res)
  case (Inl err)
  then show ?thesis using append_error [of l u err l'] assms by auto
next
  case (Inr b)
  then show ?thesis using append_fresh [of l u l'] append_resend [of l u l'] assms by (cases b) auto
qed

text \<open>An update that was appended answers every resend.\<close>

lemma resend_is_noop:
  assumes "append_update l u = (Inr True, l1)" "append_update l1 v = (Inr b, l2)" "u_UpdateID v = u_UpdateID u"
  shows "\<not> b \<and> l2 = l1"
  using append_fresh [OF assms(1)] append_fresh [of l1 v l2] append_resend [of l1 v l2] assms(2,3) by (cases b) auto

text \<open>A backlog query after a mark no longer lists the update.\<close>

lemma marked_not_listed:
  assumes "mark now l a i = (None, l')" "unprocessed l' a = Inr us" "u \<in> set us"
  shows "u_UpdateID u \<noteq> i"
  using assms mark_settles [OF assms(1)] unprocessed_open [OF assms(2)] by auto

end

lemma Append_eq:
  "SQLiteLog_Append flt l u = (res, l') \<Longrightarrow>
     l' = l \<and> (res = Inr False \<longrightarrow> u_UpdateID u \<in> u_UpdateID ` logged l) \<and> res \<noteq> Inr True
   \<or> u_UpdateID u \<notin> u_UpdateID ` logged l \<and> res \<noteq> Inr False
     \<and> l' = l\<lparr>actor_updates := actor_updates l @ [\<lparr>ur_update = u, ur_processed_at = None\<rparr>]\<rparr>"
  by (auto simp: SQLiteLog_Append_def logged_def image_image Let_def split: if_splits)

lemma logged_append [simp]:
  "logged (l\<lparr>actor_updates := actor_updates l @ [\<lparr>ur_update = u, ur_processed_at = None\<rparr>]\<rparr>) = insert u (logged l)"
  "pending (l\<lparr>actor_updates := actor_updates l @ [\<lparr>ur_update = u, ur_processed_at = None\<rparr>]\<rparr>) = insert u (pending l)"
  by (auto simp: logged_def pending_def)

lemma set_Unprocessed: "Unprocessed flt l a = Inr us \<Longrightarrow> set us = {u \<in> pending l. u_ToAgentID u = a}"
  by (auto simp: Unprocessed_def pending_def split: if_splits)

lemma MarkProcessed_rows:
  "MarkProcessed flt now l a i = (None, l') \<Longrightarrow>
   actor_updates l' = map (\<lambda>r. if (ur_id r = i \<and> ur_agent r = a) \<and> ur_processed_at r = None
      then r\<lparr>ur_processed_at := Some now\<rparr> else r) (actor_updates l) \<and> actor_snapshots l' = actor_snapshots l"
  by (auto simp: MarkProcessed_def split: if_splits)

lemma filter_marked:
  "filter (\<lambda>r. ur_processed_at r = None) (map (\<lambda>r. if P r \<and> ur_processed_at r = None then r\<lparr>ur_processed_at := Some now\<rparr> else r) xs)
   = filter (\<lambda>r. ur_processed_at r = None \<and> \<not> P r) xs"
  by (induction xs) auto

lemma MarkProcessed_None:
  assumes "MarkProcessed flt now l a i = (None, l')"
  shows "logged l' = logged l" "pending l' = pending l - {u. u_UpdateID u = i \<and> u_ToAgentID u = a}"
proof -
  note rows = MarkProcessed_rows [OF assms, THEN conjunct1]
  show "logged l' = logged l"
    unfolding logged_def rows set_map image_image by (rule image_cong) auto
  have "filter (\<lambda>r. ur_processed_at r = None) (actor_updates l')
      = filter (\<lambda>r. ur_processed_at r = None \<and> \<not> (ur_id r = i \<and> ur_agent r = a)) (actor_updates l)"
    unfolding rows by (rule filter_marked)
  then show "pending l' = pending l - {u. u_UpdateID u = i \<and> u_ToAgentID u = a}" by (auto simp: pending_def)
qed

lemma MarkProcessed_Some: "MarkProcessed flt now l a i = (Some err, l') \<Longrightarrow> l' = l"
  by (auto simp: MarkProcessed_def split: if_splits)

lemma SaveSnapshot_frame:
  "SaveSnapshot flt now l a m = (res, l') \<Longrightarrow> actor_updates l' = actor_updates l \<and> logged l' = logged l \<and> pending l' = pending l"
  by (auto simp: SaveSnapshot_def logged_def pending_def split: if_splits)

lemma log_ok_Append: "log_ok l \<Longrightarrow> SQLiteLog_Append flt l u = (res, l') \<Longrightarrow> log_ok l'"
  by (auto simp: log_ok_def logged_def image_image dest!: Append_eq)

lemma AgentsWithBacklog_set: "AgentsWithBacklog flt l = Inr as \<Longrightarrow> set as = u_ToAgentID ` pending l \<and> distinct as"
  by (auto simp: AgentsWithBacklog_def pending_def split: if_splits)

lemma log_ok_Mark: "log_ok l \<Longrightarrow> MarkProcessed flt now l a i = (res, l') \<Longrightarrow> log_ok l'"
  by (auto simp: log_ok_def MarkProcessed_def comp_def if_distrib cong: if_cong split: if_splits)

lemma log_ok_Save: "log_ok l \<Longrightarrow> SaveSnapshot flt now l a m = (res, l') \<Longrightarrow> log_ok l'"
  by (auto simp: log_ok_def SaveSnapshot_def map_when_id split: if_splits simp del: map_map)

interpretation sqlite_log: durable_log "SQLiteLog_Append flt" "Unprocessed flt" "MarkProcessed flt" "AgentsWithBacklog flt"
    "SaveSnapshot flt" logged pending log_ok for flt
proof unfold_locales
qed (auto dest: pending_logged [THEN subsetD] logged_unique Append_eq log_ok_Append set_Unprocessed MarkProcessed_None
      AgentsWithBacklog_set MarkProcessed_Some log_ok_Mark SaveSnapshot_frame log_ok_Save)

subsection \<open>Histories of log calls\<close>

datatype log_op = OpAppend Update | OpMark gotime string string | OpSave gotime string "string option"

fun log_call :: "SQLiteLog \<Rightarrow> log_fault \<times> log_op \<Rightarrow> SQLiteLog" where
  "log_call l (flt, OpAppend u) = snd (SQLiteLog_Append flt l u)"
| "log_call l (flt, OpMark now a i) = snd (MarkProcessed flt now l a i)"
| "log_call l (flt, OpSave now a m) = snd (SaveSnapshot flt now l a m)"

lemma log_call_forward:
  "log_ok l \<Longrightarrow> log_ok (log_call l c) \<and> logged l \<subseteq> logged (log_call l c)
    \<and> logged l - pending l \<subseteq> logged (log_call l c) - pending (log_call l c)"
proof (induction l c rule: log_call.induct)
  case (1 l flt u)
  obtain res l' where "SQLiteLog_Append flt l u = (res, l')" by fastforce
  then show ?case using sqlite_log.append_frame [of flt l u res l'] log_ok_Append [OF 1] by auto
next
  case (2 l flt now a i)
  obtain res l' where r: "MarkProcessed flt now l a i = (res, l')" by fastforce
  then show ?case
    using MarkProcessed_Some [of flt now l a i _ l'] MarkProcessed_None [of flt now l a i l'] log_ok_Mark [OF 2] by (cases res) auto
next
  case (3 l flt now a m)
  obtain res l' where "SaveSnapshot flt now l a m = (res, l')" by fastforce
  then show ?case using SaveSnapshot_frame [of flt now l a m res l'] log_ok_Save [OF 3] by auto
qed

interpretation log_calls: fold_step log_call log_ok
  by unfold_locales (use log_call_forward in blast)

lemma log_calls_forward:
  "log_ok l \<Longrightarrow> logged l \<subseteq> logged (foldl log_call l cs) \<and> logged l - pending l \<subseteq> logged (foldl log_call l cs) - pending (foldl log_call l cs)"
proof (induction cs arbitrary: l)
  case (Cons c cs)
  show ?case using Cons.IH [of "log_call l c"] log_call_forward [OF Cons.prems, of c] by auto
qed simp

subsection \<open>Rebinding\<close>

text \<open>Which of two snapshots a rebind keeps: the later one, the destination's on a tie.\<close>

fun newest :: "('m \<times> gotime) option \<Rightarrow> ('m \<times> gotime) option \<Rightarrow> ('m \<times> gotime) option" where
  "newest (Some (m, t)) (Some (m', t')) = (if t < t' then Some (m', t') else Some (m, t))"
| "newest x None = x"
| "newest None y = y"

definition rename :: "MailboxRebind list \<Rightarrow> string \<Rightarrow> string" where
  "rename plan a = (case find (\<lambda>rb. LegacyID rb = a) plan of None \<Rightarrow> a | Some rb \<Rightarrow> ScopedID rb)"

definition readdress :: "(string \<Rightarrow> string) \<Rightarrow> UpdateRow \<Rightarrow> UpdateRow" where
  "readdress f r = r\<lparr>ur_update := (ur_update r)\<lparr>u_ToAgentID := f (ur_agent r)\<rparr>\<rparr>"

definition plan_ok :: "MailboxRebind list \<Rightarrow> bool" where
  "plan_ok plan \<longleftrightarrow> distinct (map LegacyID plan) \<and> distinct (map ScopedID plan) \<and> LegacyID ` set plan \<inter> ScopedID ` set plan = {}"

lemma find_drop: "find (\<lambda>s. sn_agent_id s = a) (drop_snapshot b ss) = (if a = b then None else find (\<lambda>s. sn_agent_id s = a) ss)"
  by (induction ss) (auto simp: drop_snapshot_def)

lemma find_when:
  "(\<And>s. sn_agent_id (g s) = sn_agent_id s) \<Longrightarrow> find (\<lambda>s. sn_agent_id s = a) (map (\<lambda>s. if P s then g s else s) ss)
    = map_option (\<lambda>s. if P s then g s else s) (find (\<lambda>s. sn_agent_id s = a) ss)"
  by (induction ss) auto

lemma find_owner: "find (\<lambda>s. sn_agent_id s = a) ss = Some s \<Longrightarrow> sn_agent_id s = a"
  by (auto simp: find_Some_iff)

lemma find_owner_None: "find (\<lambda>s. sn_agent_id s = a) ss = None \<longleftrightarrow> a \<notin> sn_agent_id ` set ss"
  by (auto simp: find_None_iff)

lemma snapshot_merge:
  assumes "legacy \<noteq> scoped" and l': "actor_snapshots l' = drop_snapshot legacy (merge_snapshot scoped legacy (actor_snapshots l))"
  shows "snapshot_of l' = (snapshot_of l)(scoped := newest (snapshot_of l scoped) (snapshot_of l legacy), legacy := None)"
proof
  fix a
  let ?ss = "actor_snapshots l"
  show "snapshot_of l' a = ((snapshot_of l)(scoped := newest (snapshot_of l scoped) (snapshot_of l legacy), legacy := None)) a"
  proof (cases "find (\<lambda>s. sn_agent_id s = legacy) ?ss")
    case None
    then show ?thesis by (simp add: snapshot_of_def l' merge_snapshot_def find_drop)
  next
    case (Some src)
    show ?thesis
    proof (cases "find (\<lambda>s. sn_agent_id s = scoped) ?ss")
      case None
      then have "scoped \<notin> sn_agent_id ` set ?ss" by (simp add: find_owner_None)
      with None Some \<open>legacy \<noteq> scoped\<close> show ?thesis
        by (auto simp: snapshot_of_def l' merge_snapshot_def find_drop find_append split: option.split)
    next
      case (Some dst)
      then have "scoped \<in> sn_agent_id ` set ?ss" using find_owner_None [of scoped ?ss] by auto
      with Some \<open>find (\<lambda>s. sn_agent_id s = legacy) ?ss = Some src\<close> \<open>legacy \<noteq> scoped\<close> show ?thesis
        by (cases "find (\<lambda>s. sn_agent_id s = a) ?ss") (auto simp: snapshot_of_def l' merge_snapshot_def find_drop find_when dest: find_owner)
    qed
  qed
qed

lemma distinct_merge:
  "distinct (map sn_agent_id ss) \<Longrightarrow> distinct (map sn_agent_id (drop_snapshot legacy (merge_snapshot scoped legacy ss)))"
  by (auto simp: merge_snapshot_def drop_snapshot_def distinct_map_filter map_when_id simp del: map_map split: option.split)

lemma rename_simps: "rename [] a = a" "rename (rb # plan) a = (if LegacyID rb = a then ScopedID rb else rename plan a)"
  by (simp_all add: rename_def)

lemma rename_id: "a \<notin> LegacyID ` set plan \<Longrightarrow> rename plan a = a"
  by (induction plan) (auto simp: rename_simps)

lemma rename_cases: "rename plan a \<in> ScopedID ` set plan \<or> rename plan a = a \<and> a \<notin> LegacyID ` set plan"
  by (induction plan) (auto simp: rename_simps)

lemma rename_not_legacy: "plan_ok plan \<Longrightarrow> rename plan a \<notin> LegacyID ` set plan"
  using rename_cases [of plan a] by (auto simp: plan_ok_def)

lemma readdress_simps [simp]:
  "ur_agent (readdress f r) = f (ur_agent r)" "ur_id (readdress f r) = ur_id r" "ur_processed_at (readdress f r) = ur_processed_at r"
  "readdress f (readdress g r) = readdress (f \<circ> g) r"
  by (simp_all add: readdress_def)

lemma readdress_id: "f (ur_agent r) = ur_agent r \<Longrightarrow> readdress f r = r"
  by (simp add: readdress_def)

lemma move_updates_readdress: "move_updates scoped legacy = map (readdress (\<lambda>a. if a = legacy then scoped else a))"
  by (auto simp: move_updates_def readdress_def)

definition merged_snapshot :: "SQLiteLog \<Rightarrow> MailboxRebind list \<Rightarrow> string \<Rightarrow> (string option \<times> gotime) option" where
  "merged_snapshot l plan a =
     (if a \<in> LegacyID ` set plan then None
      else case find (\<lambda>rb. ScopedID rb = a) plan of None \<Rightarrow> snapshot_of l a
      | Some rb \<Rightarrow> newest (snapshot_of l a) (snapshot_of l (LegacyID rb)))"

lemma has_mailbox_iff: "has_mailbox l a \<longleftrightarrow> a \<in> ur_agent ` set (actor_updates l) \<or> snapshot_of l a \<noteq> None"
  by (simp add: has_mailbox_def snapshot_of_def find_owner_None)

lemma rebind_one_Inr:
  assumes "rebind_one flt (c, l) rb = Inr (c', l')" "LegacyID rb \<noteq> ScopedID rb"
  shows "actor_updates l' = map (readdress (\<lambda>a. if a = LegacyID rb then ScopedID rb else a)) (actor_updates l)"
    "snapshot_of l' = (snapshot_of l)(ScopedID rb := newest (snapshot_of l (ScopedID rb)) (snapshot_of l (LegacyID rb)), LegacyID rb := None)"
    "log_ok l \<Longrightarrow> log_ok l'" "c' \<longleftrightarrow> c \<or> has_mailbox l (LegacyID rb)"
proof -
  let ?m = "merge_snapshot (ScopedID rb) (LegacyID rb) (actor_snapshots l)"
  have eqs: "actor_updates l' = move_updates (ScopedID rb) (LegacyID rb) (actor_updates l)"
      "actor_snapshots l' = drop_snapshot (LegacyID rb) ?m"
      "c' \<longleftrightarrow> c \<or> LegacyID rb \<in> ur_agent ` set (actor_updates l) \<or> LegacyID rb \<in> sn_agent_id ` set ?m"
    using assms(1) by (auto simp: Let_def split: if_splits)
  show "actor_updates l' = map (readdress (\<lambda>a. if a = LegacyID rb then ScopedID rb else a)) (actor_updates l)"
    by (simp add: eqs move_updates_readdress)
  show "snapshot_of l' = (snapshot_of l)(ScopedID rb := newest (snapshot_of l (ScopedID rb)) (snapshot_of l (LegacyID rb)), LegacyID rb := None)"
    by (rule snapshot_merge [OF assms(2) eqs(2)])
  show "log_ok l \<Longrightarrow> log_ok l'"
    by (simp add: log_ok_def eqs distinct_merge move_updates_readdress comp_def)
  have "LegacyID rb \<in> sn_agent_id ` set ?m \<longleftrightarrow> LegacyID rb \<in> sn_agent_id ` set (actor_snapshots l)"
    using assms(2) by (auto simp: merge_snapshot_def find_None_iff image_iff split: option.split)
  then show "c' \<longleftrightarrow> c \<or> has_mailbox l (LegacyID rb)" by (auto simp: eqs has_mailbox_def)
qed

lemma rebind_run:
  assumes "run_steps (rebind_one flt) (c, l) xs = Inr (c', l')" "plan_ok xs" "log_ok l" "\<forall>rb \<in> set xs. LegacyID rb \<noteq> ScopedID rb"
  shows "actor_updates l' = map (readdress (rename xs)) (actor_updates l) \<and> snapshot_of l' = merged_snapshot l xs \<and> log_ok l'
    \<and> (c' \<longleftrightarrow> c \<or> (\<exists>rb \<in> set xs. has_mailbox l (LegacyID rb)))"
  using assms
proof (induction xs arbitrary: c l)
  case Nil
  then show ?case by (simp add: rename_simps readdress_def merged_snapshot_def fun_eq_iff)
next
  case (Cons rb xs)
  obtain c1 l1 where s: "rebind_one flt (c, l) rb = Inr (c1, l1)" "run_steps (rebind_one flt) (c1, l1) xs = Inr (c', l')"
    using Cons.prems(1) by (cases "rebind_one flt (c, l) rb") auto
  have ne: "LegacyID rb \<noteq> ScopedID rb" using Cons.prems(4) by simp
  have ok: "plan_ok xs" and out: "LegacyID rb \<notin> LegacyID ` set xs" "ScopedID rb \<notin> ScopedID ` set xs"
      "LegacyID rb \<notin> ScopedID ` set xs" "ScopedID rb \<notin> LegacyID ` set xs"
    using Cons.prems(2) by (auto simp: plan_ok_def)
  note one = rebind_one_Inr [OF s(1) ne]
  note ih = Cons.IH [OF s(2) ok one(3) [OF Cons.prems(3)]]
  have agents: "has_mailbox l1 (LegacyID r) = has_mailbox l (LegacyID r)" if "r \<in> set xs" for r
    using that out by (auto simp: has_mailbox_iff one image_iff)
  have upd: "actor_updates l' = map (readdress (rename (rb # xs))) (actor_updates l)"
  proof -
    have "rename xs \<circ> (\<lambda>a. if a = LegacyID rb then ScopedID rb else a) = rename (rb # xs)"
      using rename_id [OF out(4)] by (auto simp: rename_simps fun_eq_iff)
    then show ?thesis using ih Cons.prems(4) by (simp add: one(1) comp_def)
  qed
  have snap: "snapshot_of l' = merged_snapshot l (rb # xs)"
  proof
    fix a
    have ih2: "snapshot_of l' a = merged_snapshot l1 xs a" using ih Cons.prems(4) by simp
    have same: "snapshot_of l1 (LegacyID r) = snapshot_of l (LegacyID r)" if "find (\<lambda>rb. ScopedID rb = a) xs = Some r" for r
    proof -
      have "r \<in> set xs" using that by (auto simp: find_Some_iff)
      then have "LegacyID r \<noteq> LegacyID rb" "LegacyID r \<noteq> ScopedID rb" using out by (metis imageI)+
      then show ?thesis by (simp add: one(2))
    qed
    show "snapshot_of l' a = merged_snapshot l (rb # xs) a"
    proof (cases "a = ScopedID rb")
      case True
      then have "find (\<lambda>rb. ScopedID rb = a) xs = None" using out(2) by (auto simp: find_None_iff image_iff)
      then show ?thesis using True ne out(4) ih2 by (simp add: merged_snapshot_def one(2))
    next
      case False
      have "a = LegacyID rb \<Longrightarrow> find (\<lambda>rb. ScopedID rb = a) xs = None" using out(3) by (auto simp: find_None_iff image_iff)
      then show ?thesis
        using False same by (cases "find (\<lambda>rb. ScopedID rb = a) xs") (auto simp: ih2 merged_snapshot_def one(2))
    qed
  qed
  show ?case using ih upd snap agents Cons.prems(4) by (auto simp: one(4))
qed

lemma check_rebinds_None:
  "check_rebinds ls ss plan = None \<Longrightarrow>
   distinct (map LegacyID plan) \<and> distinct (map ScopedID plan) \<and> set ls \<inter> LegacyID ` set plan = {} \<and> set ss \<inter> ScopedID ` set plan = {}
   \<and> (\<forall>rb \<in> set plan. LegacyID rb \<noteq> ScopedID rb)"
  by (induction ls ss plan rule: check_rebinds.induct) (auto split: if_splits)

lemma rename_filter:
  "has_mailbox l a \<Longrightarrow> rename (filter (\<lambda>rb. has_mailbox l (LegacyID rb)) plan) a = rename plan a"
  by (induction plan) (auto simp: rename_simps)

lemma find_distinct: "distinct (map f xs) \<Longrightarrow> x \<in> set xs \<Longrightarrow> find (\<lambda>y. f y = f x) xs = Some x"
  by (induction xs) auto

lemma newest_None [simp]: "newest x None = x" "newest None y = y"
  by (cases x; auto) (cases y; auto)

lemma merged_snapshot_filter:
  assumes ok: "plan_ok plan"
  shows "merged_snapshot l (filter (\<lambda>rb. has_mailbox l (LegacyID rb)) plan) a = merged_snapshot l plan a"
proof (cases "a \<in> LegacyID ` set plan")
  case True
  then obtain rb where rb: "rb \<in> set plan" "a = LegacyID rb" by auto
  have "find (\<lambda>rb. ScopedID rb = a) (filter (\<lambda>rb. has_mailbox l (LegacyID rb)) plan) = None"
    using ok True by (auto simp: plan_ok_def find_None_iff)
  then show ?thesis using rb by (auto simp: merged_snapshot_def has_mailbox_iff)
next
  case False
  show ?thesis
  proof (cases "find (\<lambda>rb. ScopedID rb = a) plan")
    case None
    then have "find (\<lambda>rb. ScopedID rb = a) (filter (\<lambda>rb. has_mailbox l (LegacyID rb)) plan) = None"
      by (auto simp: find_None_iff)
    with None False show ?thesis by (auto simp: merged_snapshot_def)
  next
    case (Some rb)
    then have rb: "rb \<in> set plan" "ScopedID rb = a" by (auto simp: find_Some_iff)
    have only: "r = rb" if "r \<in> set plan" "ScopedID r = a" for r
      using ok that rb distinct_map_inj_eq [of ScopedID plan r rb] by (simp add: plan_ok_def)
    show ?thesis
    proof (cases "has_mailbox l (LegacyID rb)")
      case True
      then have "find (\<lambda>rb. ScopedID rb = a) (filter (\<lambda>rb. has_mailbox l (LegacyID rb)) plan) = Some rb"
        using find_distinct [of ScopedID "filter (\<lambda>rb. has_mailbox l (LegacyID rb)) plan" rb] ok rb
        by (simp add: plan_ok_def distinct_map_filter)
      with Some False show ?thesis by (auto simp: merged_snapshot_def)
    next
      case out: False
      then have "find (\<lambda>rb. ScopedID rb = a) (filter (\<lambda>rb. has_mailbox l (LegacyID rb)) plan) = None"
        using only by (auto simp: find_None_iff)
      moreover have "snapshot_of l (LegacyID rb) = None" using out unfolding has_mailbox_iff by blast
      ultimately show ?thesis using Some False by (auto simp: merged_snapshot_def)
    qed
  qed
qed

lemma Rebind_Inr:
  assumes "log_ok l" "RebindMailboxes flt l plan = (Inr changed, l')" "LegacyID ` set plan \<inter> ScopedID ` set plan = {}"
  shows "plan_ok plan \<and> actor_updates l' = map (readdress (rename plan)) (actor_updates l) \<and> snapshot_of l' = merged_snapshot l plan
    \<and> log_ok l' \<and> (changed \<longleftrightarrow> (\<exists>rb \<in> set plan. has_mailbox l (LegacyID rb)))"
proof -
  let ?active = "filter (\<lambda>rb. has_mailbox l (LegacyID rb)) plan"
  have c: "check_rebinds [] [] plan = None" and r: "run_steps (rebind_one flt) (False, l) ?active = Inr (changed, l')"
    using assms(2) by (auto simp: RebindMailboxes_def active_rebinds_def split: option.splits sum.splits if_splits prod.splits)
  note ck = check_rebinds_None [OF c]
  have ok: "plan_ok plan" using ck assms(3) by (simp add: plan_ok_def)
  then have oka: "plan_ok ?active" by (auto simp: plan_ok_def distinct_map_filter)
  note run = rebind_run [OF r oka assms(1)]
  have "actor_updates l' = map (readdress (rename ?active)) (actor_updates l)" using run ck by simp
  moreover have "readdress (rename ?active) r = readdress (rename plan) r" if "r \<in> set (actor_updates l)" for r
    using that rename_filter [of l "ur_agent r" plan] by (simp add: readdress_def has_mailbox_def)
  ultimately have "actor_updates l' = map (readdress (rename plan)) (actor_updates l)" by simp
  moreover have "snapshot_of l' = merged_snapshot l plan"
    using run ck merged_snapshot_filter [OF ok, of l] by (simp add: fun_eq_iff)
  ultimately show ?thesis using ok run ck by auto
qed

lemma Rebind_quiet:
  assumes "check_rebinds [] [] plan = None" "\<forall>rb \<in> set plan. \<not> has_mailbox l (LegacyID rb)"
  shows "RebindMailboxes (\<lambda>_. False) l plan = (Inr False, l)"
proof -
  have "filter (\<lambda>rb. has_mailbox l (LegacyID rb)) plan = []" using assms(2) by (simp add: filter_empty_conv)
  moreover have "find (\<lambda>_. False) plan = None" by (simp add: find_None_iff)
  ultimately show ?thesis using assms(1) by (simp add: RebindMailboxes_def active_rebinds_def)
qed

text \<open>Migrating mailboxes from legacy to scoped identities converges. A successful rebind readdresses every update
  of a legacy mailbox and keeps its id, content, order and processed mark; no legacy mailbox is left; the scoped
  mailbox has the later of the two snapshots and other snapshots are untouched; the result says whether there was
  anything to move; and running the plan again changes nothing.\<close>

theorem rebind_converges:
  assumes "log_ok l" "LegacyID ` set plan \<inter> ScopedID ` set plan = {}" "RebindMailboxes flt l plan = (Inr changed, l')"
  shows "actor_updates l' = map (readdress (rename plan)) (actor_updates l)
    \<and> (\<forall>rb \<in> set plan. \<not> has_mailbox l' (LegacyID rb)
        \<and> snapshot_of l' (ScopedID rb) = newest (snapshot_of l (ScopedID rb)) (snapshot_of l (LegacyID rb)))
    \<and> (\<forall>a. a \<notin> LegacyID ` set plan \<union> ScopedID ` set plan \<longrightarrow> snapshot_of l' a = snapshot_of l a)
    \<and> (changed \<longleftrightarrow> (\<exists>rb \<in> set plan. has_mailbox l (LegacyID rb)))
    \<and> RebindMailboxes (\<lambda>_. False) l' plan = (Inr False, l')"
proof -
  note r = Rebind_Inr [OF assms(1,3,2)]
  then have ok: "plan_ok plan" by simp
  have gone: "\<forall>rb \<in> set plan. \<not> has_mailbox l' (LegacyID rb)"
    using r rename_not_legacy [OF ok] by (auto simp: has_mailbox_iff merged_snapshot_def image_iff)
  have snap: "snapshot_of l' (ScopedID rb) = newest (snapshot_of l (ScopedID rb)) (snapshot_of l (LegacyID rb))"
    if "rb \<in> set plan" for rb
    using r that ok find_distinct [of ScopedID plan rb] by (auto simp: merged_snapshot_def plan_ok_def)
  have other: "snapshot_of l' a = snapshot_of l a" if "a \<notin> LegacyID ` set plan \<union> ScopedID ` set plan" for a
    using r that by (auto simp: merged_snapshot_def find_Some_iff split: option.split)
  have "check_rebinds [] [] plan = None"
    using assms(3) by (auto simp: RebindMailboxes_def split: option.splits)
  from Rebind_quiet [OF this gone] show ?thesis using r gone snap other by blast
qed

text \<open>The log forgets nothing. Whatever calls the runtime makes, with whatever failures, every logged update stays
  logged as it was, and an update that was processed stays processed.\<close>

theorem processed_stays_processed:
  assumes "log_ok l"
  shows "logged l \<subseteq> logged (foldl log_call l cs)
    \<and> logged l - pending l \<subseteq> logged (foldl log_call l cs) - pending (foldl log_call l cs)
    \<and> (\<forall>u v. u \<in> logged (foldl log_call l cs) \<and> v \<in> logged (foldl log_call l cs) \<and> u_UpdateID u = u_UpdateID v \<longrightarrow> u = v)"
  using log_calls_forward [OF assms, of cs] logged_unique [OF log_calls.foldl_inv [OF assms]] by blast

subsection \<open>Witnesses\<close>

definition wit_update :: "string \<Rightarrow> string \<Rightarrow> gotime \<Rightarrow> Update" where
  "wit_update i a t = \<lparr>u_UpdateID = i, u_ToAgentID = a, u_FromAgentID = ''user'', u_Kind = ''note'', u_Content = ''hello'',
     u_TrajectoryID = [], u_CreatedAt = t\<rparr>"

definition wit_log :: SQLiteLog where
  "wit_log = \<lparr>actor_updates = [\<lparr>ur_update = wit_update ''u1'' ''old'' 1, ur_processed_at = Some 5\<rparr>,
       \<lparr>ur_update = wit_update ''u2'' ''old'' 2, ur_processed_at = None\<rparr>],
     actor_snapshots = [\<lparr>sn_agent_id = ''old'', sn_memory = Some ''m'', sn_updated_at = 5\<rparr>]\<rparr>"

theorem rebind_converges_witness:
  "\<exists>l'. RebindMailboxes (\<lambda>_. False) wit_log [\<lparr>LegacyID = ''old'', ScopedID = ''new''\<rparr>] = (Inr True, l')
     \<and> \<not> has_mailbox l' ''old'' \<and> snapshot_of l' ''new'' = Some (Some ''m'', 5)
     \<and> map ur_agent (actor_updates l') = [''new'', ''new'']"
proof -
  let ?plan = "[\<lparr>LegacyID = ''old'', ScopedID = ''new''\<rparr>]"
  have ok: "log_ok wit_log" by (simp add: log_ok_def wit_log_def wit_update_def)
  obtain l' where l': "RebindMailboxes (\<lambda>_. False) wit_log ?plan = (Inr True, l')"
    by (simp add: RebindMailboxes_def active_rebinds_def has_mailbox_def wit_log_def wit_update_def Let_def)
  have "LegacyID ` set ?plan \<inter> ScopedID ` set ?plan = {}" by simp
  from rebind_converges [OF ok this l'] l' show ?thesis
    by (auto simp: rename_simps snapshot_of_def wit_log_def wit_update_def)
qed

theorem processed_stays_processed_witness:
  "wit_update ''u1'' ''old'' 1 \<notin> pending (foldl log_call wit_log
     [(\<lambda>_. False, OpAppend (wit_update ''u1'' ''old'' 9)), (\<lambda>_. False, OpMark 7 ''old'' ''u2'')])"
proof -
  have ok: "log_ok wit_log" by (simp add: log_ok_def wit_log_def wit_update_def)
  have "wit_update ''u1'' ''old'' 1 \<in> logged wit_log - pending wit_log"
    by (simp add: logged_def pending_def wit_log_def wit_update_def)
  then show ?thesis using processed_stays_processed [OF ok] by blast
qed

end
