(* ===== verification/Actor_Runtime.thy ===== *)
theory Actor_Runtime
  imports Actor_Log
begin

text \<open>
  The actor runtime (\<^verbatim>\<open>src/internal/actor/actor.go\<close>): senders append to the durable log and deliver into the mailbox of a
  resident actor or activate a cold one; an activation replays its backlog, drains its mailbox, waits, and passivates
  when idle. Every critical section under \<^verbatim>\<open>Runtime.mu\<close>, every statement on the log, every channel operation and every
  handler call is one step; the steps of senders, sweeps, evictions and activations interleave freely. The handler
  is outside the package: each call may answer anything. The waits (retry backoff, idle and send timeouts) end at any time.
\<close>

subsection \<open>Options\<close>

datatype SendMode = SendModeNonBlocking | SendModeBlocking

record Options =
  MaxResident :: int
  HandlerRetryBackoff :: int
  MailboxCapacity :: int
  IdleTimeout :: int
  Backpressure :: bool
  op_SendMode :: SendMode
  SendTimeout :: int

definition runtime_options :: "Options \<Rightarrow> Options" where
  "runtime_options o1 = o1\<lparr>
     HandlerRetryBackoff := (if HandlerRetryBackoff o1 \<le> 0 then 100000000 else HandlerRetryBackoff o1),
     MailboxCapacity := (if MailboxCapacity o1 \<le> 0 then 256 else MailboxCapacity o1),
     IdleTimeout := (if IdleTimeout o1 \<le> 0 then 5000000000 else IdleTimeout o1),
     SendTimeout := (if SendTimeout o1 \<le> 0 then 5000000000 else SendTimeout o1)\<rparr>"

subsection \<open>State\<close>

text \<open>The call sites of \<^verbatim>\<open>processBacklog\<close> and \<^verbatim>\<open>processOne\<close> in the loop, and the positions of an activation.\<close>

datatype backlog_site = AtStart | AtWake | AtTail
datatype item_site = ColdItem | WarmItem

datatype position = Loading | Querying backlog_site | Iterating backlog_site "Update list"
  | Marking backlog_site Update "Update list" "string option" | ColdDrain | Handling item_site Update
  | MarkingOne item_site Update "string option" | Selecting | WarmDrain | Leaving | Gone

record residentActor =
  ra_agentID :: string
  ra_mailbox :: "Update list"
  ra_evicted :: bool
  ra_cancelled :: bool
  ra_memory :: "string option"
  ra_skip :: "string set"
  ra_deferredBacklog :: bool
  ra_position :: position

text \<open>
  The last two fields are history: the updates some handler call has answered, and the agents whose wake-up lapsed,
  that is, that may be left with backlog until the next activation or backlog query.
\<close>

record Runtime =
  rt_log :: SQLiteLog
  rt_resident :: "string \<rightharpoonup> nat"
  rt_actors :: "residentActor list"
  rt_closed :: bool
  rt_sending :: "Update list"
  rt_blocked :: "(Update \<times> nat) list"
  rt_sweeping :: "string list list"
  rt_handled :: "Update set"
  rt_lapsed :: "string set"

definition NewRuntime :: "SQLiteLog \<Rightarrow> Runtime" where
  "NewRuntime l = \<lparr>rt_log = l, rt_resident = Map.empty, rt_actors = [], rt_closed = False, rt_sending = [], rt_blocked = [],
     rt_sweeping = [], rt_handled = logged l - pending l, rt_lapsed = u_ToAgentID ` pending l\<rparr>"

datatype handler_result = HandlerOk "string option" | HandlerDefer | HandlerErr | HandlerPanic

datatype send_error = SendFieldsRequired | SendAppendFailed log_error | ErrClosed | ErrInboxFull | ResidentCapReached string

definition lapse :: "string \<Rightarrow> Runtime \<Rightarrow> Runtime" where
  "lapse a s = s\<lparr>rt_lapsed := insert a (rt_lapsed s)\<rparr>"

definition revive :: "string \<Rightarrow> Runtime \<Rightarrow> Runtime" where
  "revive a s = s\<lparr>rt_lapsed := rt_lapsed s - {a}\<rparr>"

definition set_actor :: "nat \<Rightarrow> residentActor \<Rightarrow> Runtime \<Rightarrow> Runtime" where
  "set_actor k r s = s\<lparr>rt_actors := (rt_actors s)[k := r]\<rparr>"

definition remove_at :: "nat \<Rightarrow> 'a list \<Rightarrow> 'a list" where
  "remove_at k xs = take k xs @ drop (Suc k) xs"

subsection \<open>Senders, sweeps and eviction\<close>

definition newActor :: "string \<Rightarrow> residentActor" where
  "newActor a = \<lparr>ra_agentID = a, ra_mailbox = [], ra_evicted = False, ra_cancelled = False, ra_memory = None, ra_skip = {},
     ra_deferredBacklog = False, ra_position = Loading\<rparr>"

definition activateLocked :: "Options \<Rightarrow> string \<Rightarrow> Runtime \<Rightarrow> send_error option \<times> Runtime" where
  "activateLocked opts a s =
     (if 0 < MaxResident opts \<and> MaxResident opts \<le> int (card (dom (rt_resident s))) then (Some (ResidentCapReached a), s)
      else (None, revive a (s\<lparr>rt_resident := (rt_resident s)(a \<mapsto> length (rt_actors s)), rt_actors := rt_actors s @ [newActor a]\<rparr>)))"

text \<open>\<^verbatim>\<open>Send\<close> up to the residency check: the durable append.\<close>

definition Send_append :: "log_fault \<Rightarrow> gotime \<Rightarrow> Update \<Rightarrow> Runtime \<Rightarrow> send_error option \<times> Runtime" where
  "Send_append flt now u0 s =
     (let u1 = u0\<lparr>u_ToAgentID := trimSpace (u_ToAgentID u0), u_UpdateID := trimSpace (u_UpdateID u0)\<rparr>;
          u = (if u_CreatedAt u1 = 0 then u1\<lparr>u_CreatedAt := now\<rparr> else u1) in
      if u_ToAgentID u1 = [] \<or> u_UpdateID u1 = [] then (Some SendFieldsRequired, s)
      else case SQLiteLog_Append flt (rt_log s) u of
        (Inl err, l) \<Rightarrow> (Some (SendAppendFailed err), lapse (u_ToAgentID u) (s\<lparr>rt_log := l\<rparr>))
      | (Inr False, l) \<Rightarrow> (None, s\<lparr>rt_log := l\<rparr>)
      | (Inr True, l) \<Rightarrow> (None, s\<lparr>rt_log := l, rt_sending := u # rt_sending s\<rparr>))"

text \<open>A full mailbox drops the update to the log. An activation that is past its start-up query and has not reached the
  select loop asks for no backlog before it waits.\<close>

definition cold_phase :: "residentActor \<Rightarrow> bool" where
  "cold_phase r = (case ra_position r of ColdDrain \<Rightarrow> True | Handling ColdItem _ \<Rightarrow> True | MarkingOne ColdItem _ _ \<Rightarrow> True | _ \<Rightarrow> False)"

definition offer :: "Options \<Rightarrow> nat \<Rightarrow> Update \<Rightarrow> Runtime \<Rightarrow> bool \<times> Runtime" where
  "offer opts k u s =
     (let r = rt_actors s ! k in
      if int (length (ra_mailbox r)) < MailboxCapacity opts then (True, set_actor k (r\<lparr>ra_mailbox := ra_mailbox r @ [u]\<rparr>) s)
      else (False, if cold_phase r then lapse (u_ToAgentID u) s else s))"

definition Send_deliver :: "Options \<Rightarrow> Update \<Rightarrow> Runtime \<Rightarrow> send_error option \<times> Runtime" where
  "Send_deliver opts u s =
     (if rt_closed s then (Some ErrClosed, lapse (u_ToAgentID u) s)
      else case (case rt_resident s (u_ToAgentID u) of None \<Rightarrow> None
                 | Some k \<Rightarrow> if ra_evicted (rt_actors s ! k) then None else Some k) of
        None \<Rightarrow> (case activateLocked opts (u_ToAgentID u) s of
            (Some err, s1) \<Rightarrow> (Some err, lapse (u_ToAgentID u) s1) | (None, s1) \<Rightarrow> (None, s1))
      | Some k \<Rightarrow> if \<not> Backpressure opts then (None, snd (offer opts k u s))
          else if op_SendMode opts = SendModeBlocking then (None, s\<lparr>rt_blocked := (u, k) # rt_blocked s\<rparr>)
          else case offer opts k u s of (True, s1) \<Rightarrow> (None, s1) | (False, s1) \<Rightarrow> (Some ErrInboxFull, s1))"

text \<open>The blocking send holds the channel of the activation it found, outside the lock. It ends by a send into that
  channel or by its timeout.\<close>

definition blocked_send :: "Options \<Rightarrow> Update \<Rightarrow> nat \<Rightarrow> Runtime \<Rightarrow> Runtime option" where
  "blocked_send opts u k s =
     (let r = rt_actors s ! k in
      if int (length (ra_mailbox r)) < MailboxCapacity opts
      then Some (let s1 = set_actor k (r\<lparr>ra_mailbox := ra_mailbox r @ [u]\<rparr>) s in
        if rt_resident s (u_ToAgentID u) = Some k \<and> \<not> ra_evicted r then s1 else lapse (u_ToAgentID u) s1)
      else None)"

definition Sweep_query :: "log_fault \<Rightarrow> Runtime \<Rightarrow> string list \<Rightarrow> Runtime option" where
  "Sweep_query flt s order =
     (case AgentsWithBacklog flt (rt_log s) of Inl _ \<Rightarrow> Some s
      | Inr as \<Rightarrow> if mset order = mset as then Some (s\<lparr>rt_sweeping := order # rt_sweeping s\<rparr>) else None)"

fun sweep_agents :: "Options \<Rightarrow> string list \<Rightarrow> Runtime \<Rightarrow> send_error option \<times> Runtime" where
  "sweep_agents opts [] s = (None, s)"
| "sweep_agents opts (a # as) s =
     (if rt_resident s a \<noteq> None then sweep_agents opts as s
      else case activateLocked opts a s of (Some err, s1) \<Rightarrow> (Some err, s1) | (None, s1) \<Rightarrow> sweep_agents opts as s1)"

definition Sweep_locked :: "Options \<Rightarrow> string list \<Rightarrow> Runtime \<Rightarrow> send_error option \<times> Runtime" where
  "Sweep_locked opts as s = (if rt_closed s then (Some ErrClosed, s) else sweep_agents opts as s)"

definition Evict :: "string \<Rightarrow> Runtime \<Rightarrow> Runtime" where
  "Evict a s = (case rt_resident s a of None \<Rightarrow> s
     | Some k \<Rightarrow> lapse a (set_actor k ((rt_actors s ! k)\<lparr>ra_evicted := True\<rparr>) s))"

text \<open>The critical section that \<^verbatim>\<open>Stop\<close> and \<^verbatim>\<open>Drain\<close> share.\<close>

definition Stop :: "Runtime \<Rightarrow> Runtime" where
  "Stop s = s\<lparr>rt_closed := True, rt_lapsed := rt_lapsed s \<union> dom (rt_resident s),
     rt_actors := map (\<lambda>k. if Some k \<in> range (rt_resident s)
        then (rt_actors s ! k)\<lparr>ra_evicted := True, ra_cancelled := True\<rparr> else rt_actors s ! k) [0..<length (rt_actors s)]\<rparr>"

subsection \<open>The loop of an activation\<close>

definition current :: "nat \<Rightarrow> residentActor \<Rightarrow> Runtime \<Rightarrow> bool" where
  "current k r s \<longleftrightarrow> rt_resident s (ra_agentID r) = Some k \<and> \<not> ra_evicted r"

text \<open>Entering \<^verbatim>\<open>processBacklog\<close>: a backlog query follows.\<close>

definition enter_backlog :: "nat \<Rightarrow> backlog_site \<Rightarrow> residentActor \<Rightarrow> Runtime \<Rightarrow> Runtime" where
  "enter_backlog k site r s =
     (let s1 = set_actor k (r\<lparr>ra_position := Querying site\<rparr>) s in if current k r s then revive (ra_agentID r) s1 else s1)"

definition after_backlog :: "backlog_site \<Rightarrow> bool \<Rightarrow> residentActor \<Rightarrow> residentActor" where
  "after_backlog site deferred r = r\<lparr>ra_deferredBacklog := deferred,
     ra_position := (case site of AtStart \<Rightarrow> ColdDrain | AtWake \<Rightarrow> WarmDrain | AtTail \<Rightarrow> Selecting)\<rparr>"

definition after_item :: "item_site \<Rightarrow> bool \<Rightarrow> residentActor \<Rightarrow> residentActor" where
  "after_item site deferred r = r\<lparr>ra_deferredBacklog := deferred,
     ra_position := (case site of ColdItem \<Rightarrow> ColdDrain | WarmItem \<Rightarrow> WarmDrain)\<rparr>"

definition loop_load :: "log_fault \<Rightarrow> nat \<Rightarrow> residentActor \<Rightarrow> Runtime \<Rightarrow> Runtime" where
  "loop_load flt k r s = enter_backlog k AtStart
     (r\<lparr>ra_memory := (case LoadSnapshot flt (rt_log s) (ra_agentID r) of Inl _ \<Rightarrow> None | Inr m \<Rightarrow> m), ra_skip := {}\<rparr>) s"

definition backlog_query :: "log_fault \<Rightarrow> nat \<Rightarrow> residentActor \<Rightarrow> backlog_site \<Rightarrow> Runtime \<Rightarrow> Runtime" where
  "backlog_query flt k r site s =
     (if ra_cancelled r then set_actor k (after_backlog site False r) s
      else case Unprocessed flt (rt_log s) (ra_agentID r) of Inl _ \<Rightarrow> s
      | Inr [] \<Rightarrow> set_actor k (after_backlog site False r) s
      | Inr us \<Rightarrow> set_actor k (r\<lparr>ra_position := Iterating site us\<rparr>) s)"

fun backlog_item :: "handler_result \<Rightarrow> nat \<Rightarrow> residentActor \<Rightarrow> backlog_site \<Rightarrow> Update list \<Rightarrow> Runtime \<Rightarrow> Runtime" where
  "backlog_item h k r site [] s = enter_backlog k site r s"
| "backlog_item h k r site (u # us) s =
     (if ra_cancelled r then set_actor k (after_backlog site False r) s
      else if u_UpdateID u \<in> ra_skip r then set_actor k (r\<lparr>ra_position := Iterating site us\<rparr>) s
      else case h of
        HandlerOk m \<Rightarrow> set_actor k (r\<lparr>ra_position := Marking site u us m\<rparr>) (s\<lparr>rt_handled := insert u (rt_handled s)\<rparr>)
      | HandlerDefer \<Rightarrow> lapse (ra_agentID r) (set_actor k (after_backlog site True r) s)
      | HandlerErr \<Rightarrow> enter_backlog k site r s
      | HandlerPanic \<Rightarrow> lapse (ra_agentID r) (set_actor k (r\<lparr>ra_position := Leaving\<rparr>) s))"

definition backlog_mark :: "log_fault \<Rightarrow> gotime \<Rightarrow> nat \<Rightarrow> residentActor \<Rightarrow> backlog_site \<Rightarrow> Update \<Rightarrow> Update list \<Rightarrow> string option \<Rightarrow> Runtime \<Rightarrow> Runtime" where
  "backlog_mark flt now k r site u us m s =
     (case MarkProcessed flt now (rt_log s) (ra_agentID r) (u_UpdateID u) of
        (Some _, l) \<Rightarrow> enter_backlog k site r (s\<lparr>rt_log := l\<rparr>)
      | (None, l) \<Rightarrow> set_actor k (r\<lparr>ra_memory := m, ra_skip := insert (u_UpdateID u) (ra_skip r), ra_position := Iterating site us\<rparr>)
          (s\<lparr>rt_log := l\<rparr>))"

definition cold_drain :: "nat \<Rightarrow> residentActor \<Rightarrow> Runtime \<Rightarrow> Runtime" where
  "cold_drain k r s =
     (case ra_mailbox r of [] \<Rightarrow> set_actor k (r\<lparr>ra_position := Selecting\<rparr>) s
      | u # us \<Rightarrow> if \<not> ra_deferredBacklog r \<and> u_UpdateID u \<notin> ra_skip r
          then set_actor k (r\<lparr>ra_mailbox := us, ra_position := Handling ColdItem u\<rparr>) s
          else set_actor k (r\<lparr>ra_mailbox := us\<rparr>) s)"

definition processOne :: "handler_result \<Rightarrow> nat \<Rightarrow> residentActor \<Rightarrow> item_site \<Rightarrow> Update \<Rightarrow> Runtime \<Rightarrow> Runtime" where
  "processOne h k r site u s =
     (if ra_cancelled r \<or> u_UpdateID u \<in> ra_skip r then set_actor k (after_item site False r) s
      else case h of
        HandlerOk m \<Rightarrow> set_actor k (r\<lparr>ra_position := MarkingOne site u m\<rparr>) (s\<lparr>rt_handled := insert u (rt_handled s)\<rparr>)
      | HandlerDefer \<Rightarrow> lapse (ra_agentID r) (set_actor k (after_item site True r) s)
      | HandlerErr \<Rightarrow> (let s1 = set_actor k (after_item site False r) s in
          if site = ColdItem then lapse (ra_agentID r) s1 else s1)
      | HandlerPanic \<Rightarrow> lapse (ra_agentID r) (set_actor k (r\<lparr>ra_position := Leaving\<rparr>) s))"

definition processOne_mark :: "log_fault \<Rightarrow> gotime \<Rightarrow> nat \<Rightarrow> residentActor \<Rightarrow> item_site \<Rightarrow> Update \<Rightarrow> string option \<Rightarrow> Runtime \<Rightarrow> Runtime" where
  "processOne_mark flt now k r site u m s =
     (case MarkProcessed flt now (rt_log s) (ra_agentID r) (u_UpdateID u) of
        (Some _, l) \<Rightarrow> (let s1 = set_actor k (after_item site False r) (s\<lparr>rt_log := l\<rparr>) in
          if site = ColdItem then lapse (ra_agentID r) s1 else s1)
      | (None, l) \<Rightarrow> set_actor k (after_item site False (r\<lparr>ra_memory := m, ra_skip := insert (u_UpdateID u) (ra_skip r)\<rparr>))
          (s\<lparr>rt_log := l\<rparr>))"

definition select_mail :: "nat \<Rightarrow> residentActor \<Rightarrow> Runtime \<Rightarrow> Runtime option" where
  "select_mail k r s =
     (case ra_mailbox r of [] \<Rightarrow> None
      | u # us \<Rightarrow> Some (let r1 = r\<lparr>ra_mailbox := us\<rparr> in
          if ra_deferredBacklog r then enter_backlog k AtWake r1 s
          else if u_UpdateID u \<notin> ra_skip r then set_actor k (r1\<lparr>ra_position := Handling WarmItem u\<rparr>) s
          else set_actor k (r1\<lparr>ra_position := WarmDrain\<rparr>) s))"

definition select_idle :: "log_fault \<Rightarrow> gotime \<Rightarrow> nat \<Rightarrow> residentActor \<Rightarrow> Runtime \<Rightarrow> Runtime" where
  "select_idle flt now k r s =
     (if ra_mailbox r = [] \<and> \<not> ra_evicted r
      then (case SaveSnapshot flt now (rt_log s) (ra_agentID r) (ra_memory r) of
          (Some _, l) \<Rightarrow> s\<lparr>rt_log := l\<rparr>
        | (None, l) \<Rightarrow> set_actor k (r\<lparr>ra_position := Leaving\<rparr>) (s\<lparr>rt_log := l, rt_resident := (rt_resident s)(ra_agentID r := None)\<rparr>))
      else if ra_evicted r then set_actor k (r\<lparr>ra_position := Leaving\<rparr>) s
      else s)"

definition warm_drain :: "nat \<Rightarrow> residentActor \<Rightarrow> Runtime \<Rightarrow> Runtime" where
  "warm_drain k r s =
     (case ra_mailbox r of
        [] \<Rightarrow> if \<not> ra_deferredBacklog r then enter_backlog k AtTail r s else set_actor k (r\<lparr>ra_position := Selecting\<rparr>) s
      | u # us \<Rightarrow> if \<not> ra_deferredBacklog r \<and> u_UpdateID u \<notin> ra_skip r
          then set_actor k (r\<lparr>ra_mailbox := us, ra_position := Handling WarmItem u\<rparr>) s
          else set_actor k (r\<lparr>ra_mailbox := us\<rparr>) s)"

definition deregister :: "nat \<Rightarrow> residentActor \<Rightarrow> Runtime \<Rightarrow> Runtime" where
  "deregister k r s =
     set_actor k (r\<lparr>ra_position := Gone\<rparr>)
       (if rt_resident s (ra_agentID r) = Some k then s\<lparr>rt_resident := (rt_resident s)(ra_agentID r := None)\<rparr> else s)"

text \<open>What an activation does next. The choice says how the outside answers: the fault oracle and the time of a
  statement, the answer of the handler, and in the select which ready case is taken.\<close>

datatype select_choice = TakeMail | TakeIdle | TakeDone

record choice =
  ch_fault :: log_fault
  ch_now :: gotime
  ch_handler :: handler_result
  ch_select :: select_choice

definition loop_step :: "choice \<Rightarrow> nat \<Rightarrow> Runtime \<Rightarrow> Runtime option" where
  "loop_step c k s =
     (let r = rt_actors s ! k in
      case ra_position r of
        Loading \<Rightarrow> Some (loop_load (ch_fault c) k r s)
      | Querying site \<Rightarrow> Some (backlog_query (ch_fault c) k r site s)
      | Iterating site us \<Rightarrow> Some (backlog_item (ch_handler c) k r site us s)
      | Marking site u us m \<Rightarrow> Some (backlog_mark (ch_fault c) (ch_now c) k r site u us m s)
      | ColdDrain \<Rightarrow> Some (cold_drain k r s)
      | Handling site u \<Rightarrow> Some (processOne (ch_handler c) k r site u s)
      | MarkingOne site u m \<Rightarrow> Some (processOne_mark (ch_fault c) (ch_now c) k r site u m s)
      | Selecting \<Rightarrow> (case ch_select c of TakeMail \<Rightarrow> select_mail k r s
          | TakeIdle \<Rightarrow> Some (select_idle (ch_fault c) (ch_now c) k r s)
          | TakeDone \<Rightarrow> if ra_cancelled r then Some (set_actor k (r\<lparr>ra_position := Leaving\<rparr>) s) else None)
      | WarmDrain \<Rightarrow> Some (warm_drain k r s)
      | Leaving \<Rightarrow> Some (deregister k r s)
      | Gone \<Rightarrow> None)"

subsection \<open>Runs\<close>

datatype label = LSend log_fault gotime Update | LDeliver nat | LBlockedSend nat | LBlockedTimeout nat
  | LSweepQuery log_fault "string list" | LSweep nat | LEvict string | LCancel nat | LStop | LLoop nat choice

fun rt_step :: "Options \<Rightarrow> Runtime \<Rightarrow> label \<Rightarrow> Runtime option" where
  "rt_step opts s (LSend flt now u) = Some (snd (Send_append flt now u s))"
| "rt_step opts s (LDeliver j) =
     (if j < length (rt_sending s)
      then Some (snd (Send_deliver opts (rt_sending s ! j) (s\<lparr>rt_sending := remove_at j (rt_sending s)\<rparr>))) else None)"
| "rt_step opts s (LBlockedSend j) =
     (if j < length (rt_blocked s)
      then (case rt_blocked s ! j of (u, k) \<Rightarrow> blocked_send opts u k (s\<lparr>rt_blocked := remove_at j (rt_blocked s)\<rparr>)) else None)"
| "rt_step opts s (LBlockedTimeout j) =
     (if j < length (rt_blocked s)
      then Some (lapse (u_ToAgentID (fst (rt_blocked s ! j))) (s\<lparr>rt_blocked := remove_at j (rt_blocked s)\<rparr>)) else None)"
| "rt_step opts s (LSweepQuery flt order) = Sweep_query flt s order"
| "rt_step opts s (LSweep j) =
     (if j < length (rt_sweeping s)
      then Some (snd (Sweep_locked opts (rt_sweeping s ! j) (s\<lparr>rt_sweeping := remove_at j (rt_sweeping s)\<rparr>))) else None)"
| "rt_step opts s (LEvict a) = Some (Evict a s)"
| "rt_step opts s (LCancel k) =
     (if k < length (rt_actors s) \<and> ra_evicted (rt_actors s ! k)
      then Some (set_actor k ((rt_actors s ! k)\<lparr>ra_cancelled := True\<rparr>) s) else None)"
| "rt_step opts s LStop = Some (Stop s)"
| "rt_step opts s (LLoop k c) = (if k < length (rt_actors s) then loop_step c k s else None)"

fun rt_run :: "Options \<Rightarrow> Runtime \<Rightarrow> label list \<Rightarrow> Runtime option" where
  "rt_run opts s [] = Some s"
| "rt_run opts s (x # xs) = (case rt_step opts s x of None \<Rightarrow> None | Some t \<Rightarrow> rt_run opts t xs)"

inductive reach :: "Options \<Rightarrow> SQLiteLog \<Rightarrow> Runtime \<Rightarrow> bool" for opts l where
  start: "reach opts l (NewRuntime l)"
| step: "reach opts l s \<Longrightarrow> rt_step opts s x = Some t \<Longrightarrow> reach opts l t"

inductive_cases reachE: "reach opts l s"

end
