(* ===== verification/Actor_Delivery.thy ===== *)
theory Actor_Delivery
  imports Actor_Runtime
begin

text \<open>
  What the runtime guarantees under every interleaving: at most one live activation per agent, nothing processed that
  was not handled, and no wake-up lost. The invariant is split into a part per activation and a part per update; one
  lemma per kind of state change carries the steps of the loop.
\<close>

subsection \<open>Invariant\<close>

definition owned :: "SQLiteLog \<Rightarrow> string \<Rightarrow> Update set" where
  "owned l a = {u \<in> logged l. u_ToAgentID u = a}"

definition settled_ids :: "SQLiteLog \<Rightarrow> string set" where
  "settled_ids l = u_UpdateID ` (logged l - pending l)"

fun position_items :: "position \<Rightarrow> Update set" where
  "position_items (Iterating site us) = set us"
| "position_items (Marking site u us m) = insert u (set us)"
| "position_items (Handling site u) = {u}"
| "position_items (MarkingOne site u m) = {u}"
| "position_items p = {}"

fun position_marks :: "position \<Rightarrow> Update set" where
  "position_marks (Marking site u us m) = {u}"
| "position_marks (MarkingOne site u m) = {u}"
| "position_marks p = {}"

text \<open>Which pending updates of its agent an activation will still look at, if it is left to run.\<close>

fun attends_at :: "position \<Rightarrow> bool \<Rightarrow> Update list \<Rightarrow> Update \<Rightarrow> bool" where
  "attends_at ColdDrain deferred mail u \<longleftrightarrow> \<not> deferred \<and> u \<in> set mail"
| "attends_at (Handling ColdItem v) deferred mail u \<longleftrightarrow> u = v \<or> u \<in> set mail"
| "attends_at (MarkingOne ColdItem v m) deferred mail u \<longleftrightarrow> u = v \<or> u \<in> set mail"
| "attends_at WarmDrain deferred mail u \<longleftrightarrow> \<not> deferred"
| "attends_at Selecting deferred mail u \<longleftrightarrow> mail \<noteq> []"
| "attends_at Leaving deferred mail u \<longleftrightarrow> False"
| "attends_at Gone deferred mail u \<longleftrightarrow> False"
| "attends_at p deferred mail u \<longleftrightarrow> True"

definition attends :: "residentActor \<Rightarrow> Update \<Rightarrow> bool" where
  "attends r u \<longleftrightarrow> attends_at (ra_position r) (ra_deferredBacklog r) (ra_mailbox r) u"

definition attended :: "Runtime \<Rightarrow> Update \<Rightarrow> bool" where
  "attended s u \<longleftrightarrow> (\<exists>k. rt_resident s (u_ToAgentID u) = Some k \<and> \<not> ra_evicted (rt_actors s ! k) \<and> attends (rt_actors s ! k) u)"

definition in_flight :: "Runtime \<Rightarrow> Update \<Rightarrow> bool" where
  "in_flight s u \<longleftrightarrow> u \<in> set (rt_sending s) \<or> u \<in> fst ` set (rt_blocked s)"

definition stalled :: "residentActor \<Rightarrow> bool" where
  "stalled r \<longleftrightarrow> ra_position r = Leaving \<or> ra_deferredBacklog r \<and> ra_position r \<in> {ColdDrain, WarmDrain}"

definition actor_ok :: "Runtime \<Rightarrow> nat \<Rightarrow> residentActor \<Rightarrow> bool" where
  "actor_ok s k r \<longleftrightarrow> set (ra_mailbox r) \<union> position_items (ra_position r) \<subseteq> owned (rt_log s) (ra_agentID r)
     \<and> ra_skip r \<subseteq> settled_ids (rt_log s) \<and> position_marks (ra_position r) \<subseteq> rt_handled s
     \<and> (ra_cancelled r \<longrightarrow> ra_evicted r)
     \<and> (\<not> ra_evicted r \<and> ra_position r \<notin> {Leaving, Gone} \<longrightarrow> rt_resident s (ra_agentID r) = Some k)
     \<and> (current k r s \<and> stalled r \<longrightarrow> ra_agentID r \<in> rt_lapsed s)"

definition resident_ok :: "Options \<Rightarrow> Runtime \<Rightarrow> bool" where
  "resident_ok opts s \<longleftrightarrow> finite (dom (rt_resident s))
     \<and> (0 < MaxResident opts \<longrightarrow> int (card (dom (rt_resident s))) \<le> MaxResident opts)
     \<and> (\<forall>a k. rt_resident s a = Some k \<longrightarrow> k < length (rt_actors s) \<and> ra_agentID (rt_actors s ! k) = a \<and> ra_position (rt_actors s ! k) \<noteq> Gone)"

definition senders_ok :: "Runtime \<Rightarrow> bool" where
  "senders_ok s \<longleftrightarrow> set (rt_sending s) \<subseteq> logged (rt_log s)
     \<and> (\<forall>(u, k) \<in> set (rt_blocked s). k < length (rt_actors s) \<and> u \<in> owned (rt_log s) (ra_agentID (rt_actors s ! k)))"

definition woken :: "Runtime \<Rightarrow> bool" where
  "woken s \<longleftrightarrow> (\<forall>u \<in> pending (rt_log s). u_ToAgentID u \<notin> rt_lapsed s \<longrightarrow> in_flight s u \<or> attended s u)"

definition rt_inv :: "Options \<Rightarrow> Runtime \<Rightarrow> bool" where
  "rt_inv opts s \<longleftrightarrow> log_ok (rt_log s) \<and> logged (rt_log s) - pending (rt_log s) \<subseteq> rt_handled s
     \<and> (\<forall>k < length (rt_actors s). actor_ok s k (rt_actors s ! k)) \<and> resident_ok opts s \<and> senders_ok s \<and> woken s"

lemma rt_inv_New: "log_ok l \<Longrightarrow> rt_inv opts (NewRuntime l)"
  by (auto simp: rt_inv_def NewRuntime_def resident_ok_def senders_ok_def woken_def)

lemma in_flight_simps [simp]:
  "in_flight (lapse a s) u = in_flight s u" "in_flight (revive a s) u = in_flight s u" "in_flight (set_actor k r s) u = in_flight s u"
  by (simp_all add: in_flight_def lapse_def revive_def set_actor_def)

lemma lapse_simps [simp]:
  "rt_log (lapse a s) = rt_log s" "rt_resident (lapse a s) = rt_resident s" "rt_actors (lapse a s) = rt_actors s"
  "rt_closed (lapse a s) = rt_closed s" "rt_sending (lapse a s) = rt_sending s" "rt_blocked (lapse a s) = rt_blocked s"
  "rt_sweeping (lapse a s) = rt_sweeping s" "rt_handled (lapse a s) = rt_handled s" "rt_lapsed (lapse a s) = insert a (rt_lapsed s)"
  by (simp_all add: lapse_def)

lemma revive_simps [simp]:
  "rt_log (revive a s) = rt_log s" "rt_resident (revive a s) = rt_resident s" "rt_actors (revive a s) = rt_actors s"
  "rt_closed (revive a s) = rt_closed s" "rt_sending (revive a s) = rt_sending s" "rt_blocked (revive a s) = rt_blocked s"
  "rt_sweeping (revive a s) = rt_sweeping s" "rt_handled (revive a s) = rt_handled s" "rt_lapsed (revive a s) = rt_lapsed s - {a}"
  by (simp_all add: revive_def)

lemma set_actor_simps [simp]:
  "rt_log (set_actor k r s) = rt_log s" "rt_resident (set_actor k r s) = rt_resident s" "rt_actors (set_actor k r s) = (rt_actors s)[k := r]"
  "rt_closed (set_actor k r s) = rt_closed s" "rt_sending (set_actor k r s) = rt_sending s" "rt_blocked (set_actor k r s) = rt_blocked s"
  "rt_sweeping (set_actor k r s) = rt_sweeping s" "rt_handled (set_actor k r s) = rt_handled s" "rt_lapsed (set_actor k r s) = rt_lapsed s"
  by (simp_all add: set_actor_def)

lemma lapse_set_actor: "lapse a (set_actor k r s) = set_actor k r (lapse a s)"
  by (simp add: lapse_def set_actor_def)

subsection \<open>Kinds of change\<close>

lemma lapse_inv [inv_intros]: "rt_inv opts s \<Longrightarrow> rt_inv opts (lapse a s)"
  by (auto simp: rt_inv_def actor_ok_def current_def resident_ok_def senders_ok_def woken_def attended_def)

text \<open>One activation changes, its identity and flags stay.\<close>

definition moves_to :: "Runtime \<Rightarrow> nat \<Rightarrow> residentActor \<Rightarrow> bool" where
  "moves_to s k r' \<longleftrightarrow> (let r = rt_actors s ! k in
     ra_agentID r' = ra_agentID r \<and> ra_evicted r' = ra_evicted r \<and> ra_cancelled r' = ra_cancelled r
     \<and> set (ra_mailbox r') \<union> position_items (ra_position r') \<subseteq> owned (rt_log s) (ra_agentID r)
     \<and> ra_skip r' \<subseteq> settled_ids (rt_log s) \<and> position_marks (ra_position r') \<subseteq> rt_handled s
     \<and> (ra_position r \<in> {Leaving, Gone} \<longrightarrow> ra_position r' = ra_position r) \<and> (ra_position r' = Gone \<longrightarrow> ra_position r = Gone)
     \<and> (current k r s \<and> ra_agentID r \<notin> rt_lapsed s \<longrightarrow> \<not> stalled r'
          \<and> (\<forall>u \<in> pending (rt_log s). u_ToAgentID u = ra_agentID r \<and> attends r u \<longrightarrow> attends r' u)))"

lemma moves_inv [inv_intros]:
  assumes inv: "rt_inv opts s" and k: "k < length (rt_actors s)" and m: "moves_to s k r'"
  shows "rt_inv opts (set_actor k r' s)"
proof -
  let ?r = "rt_actors s ! k"
  have eqs: "ra_agentID r' = ra_agentID ?r" "ra_evicted r' = ra_evicted ?r" "ra_cancelled r' = ra_cancelled ?r"
    using m by (simp_all add: moves_to_def Let_def)
  have gone: "ra_position r' = Gone \<Longrightarrow> ra_position ?r = Gone" using m unfolding moves_to_def Let_def by blast
  have attn: "\<forall>u \<in> pending (rt_log s). u_ToAgentID u = ra_agentID ?r \<and> attends ?r u \<longrightarrow> attends r' u"
      if "current k ?r s" "ra_agentID ?r \<notin> rt_lapsed s"
    using m that unfolding moves_to_def Let_def by blast
  have ok: "actor_ok s j (rt_actors s ! j)" if "j < length (rt_actors s)" for j
    using inv that by (simp add: rt_inv_def)
  have acts: "actor_ok (set_actor k r' s) j ((rt_actors s)[k := r'] ! j)" if j: "j < length (rt_actors s)" for j
  proof (cases "j = k")
    case True
    have c: "current k r' (set_actor k r' s) \<longleftrightarrow> current k ?r s" using eqs by (simp add: current_def)
    note parts0 = m [unfolded moves_to_def Let_def]
    have live: "ra_position r' \<notin> {Leaving, Gone} \<longrightarrow> ra_position ?r \<notin> {Leaving, Gone}"
      using parts0 by metis
    have parts: "set (ra_mailbox r') \<union> position_items (ra_position r') \<subseteq> owned (rt_log s) (ra_agentID ?r)"
        "ra_skip r' \<subseteq> settled_ids (rt_log s)" "position_marks (ra_position r') \<subseteq> rt_handled s"
        "current k ?r s \<and> stalled r' \<longrightarrow> ra_agentID ?r \<in> rt_lapsed s"
      using parts0 by blast+
    have "actor_ok (set_actor k r' s) k r'"
      using ok [OF k] live parts unfolding actor_ok_def c by (simp add: eqs)
    with True k show ?thesis by simp
  next
    case False
    then show ?thesis using ok [OF j] by (simp add: actor_ok_def current_def)
  qed
  have res: "resident_ok opts (set_actor k r' s)"
    using inv k eqs(1) gone by (auto simp: rt_inv_def resident_ok_def nth_list_update)
  have send: "senders_ok (set_actor k r' s)"
    using inv eqs(1) k by (auto simp: rt_inv_def senders_ok_def nth_list_update)
  have "attended (set_actor k r' s) u" if u: "u \<in> pending (rt_log s)" "u_ToAgentID u \<notin> rt_lapsed s" "attended s u" for u
  proof -
    obtain j where j: "rt_resident s (u_ToAgentID u) = Some j" "\<not> ra_evicted (rt_actors s ! j)" "attends (rt_actors s ! j) u"
      using u(3) by (auto simp: attended_def)
    then have "j < length (rt_actors s)" "ra_agentID (rt_actors s ! j) = u_ToAgentID u"
      using inv by (auto simp: rt_inv_def resident_ok_def)
    with j u attn eqs k show ?thesis
      by (auto simp: attended_def current_def nth_list_update intro!: exI [of _ j])
  qed
  then have "woken (set_actor k r' s)" using inv by (auto simp: rt_inv_def woken_def)
  with inv acts res send show ?thesis by (simp add: rt_inv_def)
qed

lemma enter_backlog_inv [inv_intros]:
  assumes inv: "rt_inv opts s" and k: "k < length (rt_actors s)"
    and r: "moves_to s k (r\<lparr>ra_position := Querying site\<rparr>)"
  shows "rt_inv opts (enter_backlog k site r s)"
proof -
  let ?s = "set_actor k (r\<lparr>ra_position := Querying site\<rparr>) s"
  have i: "rt_inv opts ?s" using moves_inv [OF inv k r] .
  have "rt_inv opts (revive (ra_agentID r) ?s)" if c: "current k r s"
  proof -
    have "attended (revive (ra_agentID r) ?s) u" if "u_ToAgentID u = ra_agentID r" for u
      using that c k by (auto simp: attended_def current_def attends_def)
    moreover have "actor_ok (revive (ra_agentID r) ?s) j (rt_actors ?s ! j)" if j: "j < length (rt_actors s)" for j
    proof -
      have ok: "actor_ok ?s j (rt_actors ?s ! j)" using i j by (simp add: rt_inv_def)
      have "\<not> stalled (rt_actors ?s ! j)" if "current j (rt_actors ?s ! j) ?s" "ra_agentID (rt_actors ?s ! j) = ra_agentID r"
        using that c k by (simp add: current_def stalled_def)
      with ok show ?thesis by (auto simp: actor_ok_def current_def)
    qed
    ultimately show ?thesis
      using i by (auto simp: rt_inv_def resident_ok_def senders_ok_def woken_def attended_def)
  qed
  with i show ?thesis by (simp add: enter_backlog_def Let_def)
qed

lemma handled_inv [inv_intros]: "rt_inv opts s \<Longrightarrow> rt_inv opts (s\<lparr>rt_handled := insert u (rt_handled s)\<rparr>)"
  by (auto simp: rt_inv_def actor_ok_def current_def resident_ok_def senders_ok_def woken_def attended_def in_flight_def)

lemma marked_inv [inv_intros]:
  assumes inv: "rt_inv opts s" and m: "MarkProcessed flt now (rt_log s) a (u_UpdateID u) = (None, l)"
    and u: "u \<in> owned (rt_log s) a" "u \<in> rt_handled s"
  shows "rt_inv opts (s\<lparr>rt_log := l\<rparr>)" "u_UpdateID u \<in> settled_ids l" "u \<notin> pending l"
proof -
  have l: "logged l = logged (rt_log s)" "pending l = pending (rt_log s) - {v. u_UpdateID v = u_UpdateID u \<and> u_ToAgentID v = a}"
    using MarkProcessed_None [OF m] by simp_all
  have ok: "log_ok l" using log_ok_Mark [OF _ m] inv by (simp add: rt_inv_def)
  have "v = u" if "v \<in> logged (rt_log s)" "u_UpdateID v = u_UpdateID u" for v
    using logged_unique [of "rt_log s" v u] that u inv by (auto simp: rt_inv_def owned_def)
  then have p: "pending l = pending (rt_log s) - {u}" using l(2) u pending_logged [of "rt_log s"] by (auto simp: owned_def)
  have settled: "settled_ids (rt_log s) \<subseteq> settled_ids l" "u_UpdateID u \<in> settled_ids l" "u \<notin> pending l"
    using l(1) p u by (auto simp: settled_ids_def owned_def)
  have "actor_ok (s\<lparr>rt_log := l\<rparr>) k (rt_actors s ! k)" if "k < length (rt_actors s)" for k
    using inv that settled(1) l(1) by (fastforce simp: rt_inv_def actor_ok_def current_def owned_def)
  then show "rt_inv opts (s\<lparr>rt_log := l\<rparr>)"
    using inv ok l(1) p u by (auto simp: rt_inv_def resident_ok_def senders_ok_def woken_def attended_def in_flight_def owned_def)
  show "u_UpdateID u \<in> settled_ids l" "u \<notin> pending l" using settled by simp_all
qed

subsection \<open>Steps of the loop\<close>

lemma actor_okD: "rt_inv opts s \<Longrightarrow> k < length (rt_actors s) \<Longrightarrow> actor_ok s k (rt_actors s ! k)"
  by (simp add: rt_inv_def)

lemma skip_not_pending:
  "rt_inv opts s \<Longrightarrow> k < length (rt_actors s) \<Longrightarrow> u_UpdateID u \<in> ra_skip (rt_actors s ! k) \<Longrightarrow> u \<notin> pending (rt_log s)"
proof
  assume a: "rt_inv opts s" "k < length (rt_actors s)" "u_UpdateID u \<in> ra_skip (rt_actors s ! k)" "u \<in> pending (rt_log s)"
  then have "u_UpdateID u \<in> settled_ids (rt_log s)" using actor_okD [OF a(1,2)] by (auto simp: actor_ok_def)
  then obtain v where "v \<in> logged (rt_log s)" "v \<notin> pending (rt_log s)" "u_UpdateID v = u_UpdateID u"
    by (auto simp: settled_ids_def)
  then show False using logged_unique [of "rt_log s" u v] a pending_logged by (auto simp: rt_inv_def)
qed

lemma lapsed_move:
  assumes "rt_inv opts s" "k < length (rt_actors s)" "ra_position (rt_actors s ! k) \<notin> {Leaving, Gone}"
    "r' = (rt_actors s ! k)\<lparr>ra_deferredBacklog := d, ra_position := p\<rparr>" "position_items p = {}" "position_marks p = {}" "p \<noteq> Gone"
  shows "rt_inv opts (lapse (ra_agentID (rt_actors s ! k)) (set_actor k r' s))"
  unfolding lapse_set_actor using assms actor_okD [OF assms(1,2)]
  by (intro moves_inv lapse_inv) (auto simp: moves_to_def current_def Let_def actor_ok_def)

lemma evicted_move:
  assumes "rt_inv opts s" "k < length (rt_actors s)" "ra_position (rt_actors s ! k) \<notin> {Leaving, Gone}" "ra_evicted (rt_actors s ! k)"
    "r' = (rt_actors s ! k)\<lparr>ra_deferredBacklog := d, ra_position := p\<rparr>" "position_items p = {}" "position_marks p = {}" "p \<noteq> Gone"
  shows "rt_inv opts (set_actor k r' s)"
  using assms actor_okD [OF assms(1,2)] by (intro moves_inv) (auto simp: moves_to_def current_def Let_def actor_ok_def)

lemma load_inv:
  assumes "rt_inv opts s" "k < length (rt_actors s)" "ra_position (rt_actors s ! k) = Loading"
  shows "rt_inv opts (loop_load flt k (rt_actors s ! k) s)"
  unfolding loop_load_def using assms actor_okD [OF assms(1,2)]
  by (intro enter_backlog_inv) (auto simp: moves_to_def current_def Let_def actor_ok_def stalled_def attends_def)

lemma query_inv:
  assumes "rt_inv opts s" "k < length (rt_actors s)" "ra_position (rt_actors s ! k) = Querying site"
  shows "rt_inv opts (backlog_query flt k (rt_actors s ! k) site s)"
proof -
  let ?r = "rt_actors s ! k"
  note ok = actor_okD [OF assms(1,2)]
  have items: "set us = {u \<in> pending (rt_log s). u_ToAgentID u = ra_agentID ?r}" if "Unprocessed flt (rt_log s) (ra_agentID ?r) = Inr us" for us
    using set_Unprocessed [OF that] .
  consider "ra_cancelled ?r" | "\<not> ra_cancelled ?r" "Unprocessed flt (rt_log s) (ra_agentID ?r) = Inr []"
    | u us where "\<not> ra_cancelled ?r" "Unprocessed flt (rt_log s) (ra_agentID ?r) = Inr (u # us)" 
    | e where "\<not> ra_cancelled ?r" "Unprocessed flt (rt_log s) (ra_agentID ?r) = Inl e"
    by (metis list.exhaust sum.exhaust)
  then show ?thesis
  proof cases
    case 1
    then have "rt_inv opts (set_actor k (after_backlog site False ?r) s)"
      using ok assms by (intro evicted_move) (auto simp: after_backlog_def actor_ok_def split: backlog_site.splits)
    with 1 show ?thesis by (simp add: backlog_query_def)
  next
    case 2
    then have "rt_inv opts (set_actor k (after_backlog site False ?r) s)"
      using ok assms items [OF 2(2)]
      by (intro moves_inv) (auto simp: after_backlog_def current_def Let_def moves_to_def actor_ok_def stalled_def split: backlog_site.splits)
    with 2 show ?thesis by (simp add: backlog_query_def)
  next
    case (3 u us)
    then have "rt_inv opts (set_actor k (?r\<lparr>ra_position := Iterating site (u # us)\<rparr>) s)"
      using ok assms items [OF 3(2)] pending_logged [of "rt_log s"]
      by (intro moves_inv) (auto simp: moves_to_def current_def Let_def actor_ok_def stalled_def owned_def attends_def)
    with 3 show ?thesis by (simp add: backlog_query_def)
  next
    case 4
    then show ?thesis using assms by (simp add: backlog_query_def)
  qed
qed

lemma requery_inv:
  assumes "rt_inv opts s" "k < length (rt_actors s)" "ra_position (rt_actors s ! k) \<notin> {Leaving, Gone}"
  shows "rt_inv opts (enter_backlog k site (rt_actors s ! k) s)"
  using assms actor_okD [OF assms(1,2)] by (intro enter_backlog_inv) (auto simp: moves_to_def current_def Let_def actor_ok_def stalled_def attends_def)

lemma item_inv:
  assumes "rt_inv opts s" "k < length (rt_actors s)" "ra_position (rt_actors s ! k) = Iterating site us"
  shows "rt_inv opts (backlog_item h k (rt_actors s ! k) site us s)"
proof (cases us)
  case Nil
  then show ?thesis using requery_inv [OF assms(1,2)] assms(3) by simp
next
  case (Cons u vs)
  let ?r = "rt_actors s ! k"
  note ok = actor_okD [OF assms(1,2)]
  have cancel: "rt_inv opts (set_actor k (after_backlog site False ?r) s)" if "ra_cancelled ?r"
    using that ok assms by (intro evicted_move) (auto simp: after_backlog_def actor_ok_def split: backlog_site.splits)
  have skip: "rt_inv opts (set_actor k (?r\<lparr>ra_position := Iterating site vs\<rparr>) s)"
    using ok assms Cons by (intro moves_inv) (auto simp: moves_to_def current_def Let_def actor_ok_def stalled_def attends_def)
  have good: "rt_inv opts (set_actor k (?r\<lparr>ra_position := Marking site u vs m\<rparr>) (s\<lparr>rt_handled := insert u (rt_handled s)\<rparr>))" for m
    using ok assms Cons by (intro moves_inv handled_inv) (auto simp: moves_to_def current_def Let_def actor_ok_def stalled_def attends_def)
  have put_off: "rt_inv opts (lapse (ra_agentID ?r) (set_actor k (after_backlog site True ?r) s))"
    using assms by (intro lapsed_move [where d = True and p = "case site of AtStart \<Rightarrow> ColdDrain | AtWake \<Rightarrow> WarmDrain | AtTail \<Rightarrow> Selecting"])
      (auto simp: after_backlog_def split: backlog_site.splits)
  have panic: "rt_inv opts (lapse (ra_agentID ?r) (set_actor k (?r\<lparr>ra_position := Leaving\<rparr>) s))"
    using assms by (intro lapsed_move [where d = "ra_deferredBacklog ?r" and p = Leaving]) auto
  have err: "rt_inv opts (enter_backlog k site ?r s)" using requery_inv [OF assms(1,2)] assms(3) by simp
  show ?thesis unfolding Cons backlog_item.simps using cancel skip good put_off panic err by (cases h) simp_all
qed

lemma mark_inv:
  assumes "rt_inv opts s" "k < length (rt_actors s)" "ra_position (rt_actors s ! k) = Marking site u us m"
  shows "rt_inv opts (backlog_mark flt now k (rt_actors s ! k) site u us m s)"
proof (cases "MarkProcessed flt now (rt_log s) (ra_agentID (rt_actors s ! k)) (u_UpdateID u)")
  case (Pair res l)
  let ?r = "rt_actors s ! k"
  note ok = actor_okD [OF assms(1,2)]
  show ?thesis
  proof (cases res)
    case None
    have u: "u \<in> owned (rt_log s) (ra_agentID ?r)" "u \<in> rt_handled s" using ok assms(3) by (auto simp: actor_ok_def)
    note mk = marked_inv [OF assms(1) Pair [unfolded None] u]
    have "rt_inv opts (set_actor k (?r\<lparr>ra_memory := m, ra_skip := insert (u_UpdateID u) (ra_skip ?r), ra_position := Iterating site us\<rparr>) (s\<lparr>rt_log := l\<rparr>))"
      using mk assms actor_okD [OF mk(1), of k]
      by (intro moves_inv) (auto simp: moves_to_def current_def Let_def actor_ok_def stalled_def attends_def)
    then show ?thesis by (simp add: backlog_mark_def Pair None)
  next
    case (Some e)
    then have "l = rt_log s" using MarkProcessed_Some Pair by blast
    then show ?thesis using requery_inv [OF assms(1,2)] assms(3) by (simp add: backlog_mark_def Pair Some)
  qed
qed

lemma cold_drain_inv:
  assumes "rt_inv opts s" "k < length (rt_actors s)" "ra_position (rt_actors s ! k) = ColdDrain"
  shows "rt_inv opts (cold_drain k (rt_actors s ! k) s)"
proof -
  let ?r = "rt_actors s ! k"
  note ok = actor_okD [OF assms(1,2)]
  have stall: "ra_deferredBacklog ?r \<and> \<not> ra_evicted ?r \<longrightarrow> ra_agentID ?r \<in> rt_lapsed s"
    using ok assms(3) by (auto simp: actor_ok_def stalled_def current_def)
  show ?thesis
  proof (cases "ra_mailbox ?r")
    case Nil
    then have "rt_inv opts (set_actor k (?r\<lparr>ra_position := Selecting\<rparr>) s)"
      using ok assms by (intro moves_inv) (auto simp: moves_to_def current_def Let_def actor_ok_def stalled_def attends_def)
    with Nil show ?thesis by (simp add: cold_drain_def)
  next
    case (Cons u us)
    show ?thesis
    proof (cases "\<not> ra_deferredBacklog ?r \<and> u_UpdateID u \<notin> ra_skip ?r")
      case True
      then have "rt_inv opts (set_actor k (?r\<lparr>ra_mailbox := us, ra_position := Handling ColdItem u\<rparr>) s)"
        using ok assms Cons by (intro moves_inv) (auto simp: moves_to_def current_def Let_def actor_ok_def stalled_def attends_def)
      with True Cons show ?thesis by (simp add: cold_drain_def)
    next
      case False
      then have "ra_deferredBacklog ?r \<or> u \<notin> pending (rt_log s)" using skip_not_pending [OF assms(1,2)] by blast
      then have "rt_inv opts (set_actor k (?r\<lparr>ra_mailbox := us\<rparr>) s)"
        using ok assms Cons stall by (intro moves_inv) (auto simp: moves_to_def current_def Let_def actor_ok_def stalled_def attends_def)
      with False Cons show ?thesis by (auto simp: cold_drain_def)
    qed
  qed
qed

lemma after_item_inv:
  assumes "rt_inv opts s" "k < length (rt_actors s)" "ra_position (rt_actors s ! k) \<notin> {Leaving, Gone}"
    "r' = after_item site False (r\<lparr>ra_memory := m, ra_skip := sk\<rparr>)" "r = rt_actors s ! k" "sk \<subseteq> settled_ids (rt_log s)"
    "site = ColdItem \<Longrightarrow> \<not> ra_evicted r \<and> ra_agentID r \<notin> rt_lapsed s \<Longrightarrow>
       (\<forall>u \<in> pending (rt_log s). u_ToAgentID u = ra_agentID r \<and> attends r u \<longrightarrow> u \<in> set (ra_mailbox r))"
  shows "rt_inv opts (set_actor k r' s)"
  using assms actor_okD [OF assms(1,2)]
  by (intro moves_inv) (auto simp: moves_to_def current_def Let_def actor_ok_def stalled_def after_item_def attends_def split: item_site.splits)

lemma one_inv:
  assumes "rt_inv opts s" "k < length (rt_actors s)" "ra_position (rt_actors s ! k) = Handling site u"
  shows "rt_inv opts (processOne h k (rt_actors s ! k) site u s)"
proof -
  let ?r = "rt_actors s ! k"
  note ok = actor_okD [OF assms(1,2)]
  have sk: "ra_skip ?r \<subseteq> settled_ids (rt_log s)" and cx: "ra_cancelled ?r \<longrightarrow> ra_evicted ?r" using ok by (auto simp: actor_ok_def)
  have again: "rt_inv opts (set_actor k (after_item site False ?r) s)"
    if "site = WarmItem \<or> ra_cancelled ?r \<or> u_UpdateID u \<in> ra_skip ?r"
    using that assms sk cx skip_not_pending [OF assms(1,2), of u]
    by (intro after_item_inv [OF assms(1,2) _ _ refl sk, where m = "ra_memory ?r"]) (auto simp: attends_def)
  have fail: "rt_inv opts (lapse (ra_agentID ?r) (set_actor k (after_item site d ?r) s))" for d
    using assms by (intro lapsed_move [where d = d and p = "case site of ColdItem \<Rightarrow> ColdDrain | WarmItem \<Rightarrow> WarmDrain"])
      (auto simp: after_item_def split: item_site.splits)
  have good: "rt_inv opts (set_actor k (?r\<lparr>ra_position := MarkingOne site u m\<rparr>) (s\<lparr>rt_handled := insert u (rt_handled s)\<rparr>))" for m
    using ok assms by (intro moves_inv handled_inv) (cases site; auto simp: moves_to_def current_def Let_def actor_ok_def stalled_def attends_def)+
  have panic: "rt_inv opts (lapse (ra_agentID ?r) (set_actor k (?r\<lparr>ra_position := Leaving\<rparr>) s))"
    using assms by (intro lapsed_move [where d = "ra_deferredBacklog ?r" and p = Leaving]) auto
  show ?thesis unfolding processOne_def Let_def using again fail good panic
    by (cases h; cases site) simp_all
qed

lemma one_mark_inv:
  assumes "rt_inv opts s" "k < length (rt_actors s)" "ra_position (rt_actors s ! k) = MarkingOne site u m"
  shows "rt_inv opts (processOne_mark flt now k (rt_actors s ! k) site u m s)"
proof (cases "MarkProcessed flt now (rt_log s) (ra_agentID (rt_actors s ! k)) (u_UpdateID u)")
  case (Pair res l)
  let ?r = "rt_actors s ! k"
  note ok = actor_okD [OF assms(1,2)]
  show ?thesis
  proof (cases res)
    case None
    have u: "u \<in> owned (rt_log s) (ra_agentID ?r)" "u \<in> rt_handled s" using ok assms(3) by (auto simp: actor_ok_def)
    note mk = marked_inv [OF assms(1) Pair [unfolded None] u]
    have sk: "insert (u_UpdateID u) (ra_skip ?r) \<subseteq> settled_ids l"
      using mk(2) actor_okD [OF mk(1), of k] assms(2) by (auto simp: actor_ok_def)
    have "rt_inv opts (set_actor k (after_item site False (?r\<lparr>ra_memory := m, ra_skip := insert (u_UpdateID u) (ra_skip ?r)\<rparr>)) (s\<lparr>rt_log := l\<rparr>))"
      using assms mk(3) sk
      by (intro after_item_inv [OF mk(1), where r = ?r and m = m and sk = "insert (u_UpdateID u) (ra_skip ?r)"]) (auto simp: attends_def)
    then show ?thesis by (simp add: processOne_mark_def Pair None)
  next
    case (Some e)
    then have l: "l = rt_log s" using MarkProcessed_Some Pair by blast
    have fail: "rt_inv opts (lapse (ra_agentID ?r) (set_actor k (after_item site False ?r) s))"
      using assms by (intro lapsed_move [where d = False and p = "case site of ColdItem \<Rightarrow> ColdDrain | WarmItem \<Rightarrow> WarmDrain"])
        (auto simp: after_item_def split: item_site.splits)
    have again: "rt_inv opts (set_actor k (after_item site False ?r) s)" if "site = WarmItem"
      using that assms ok
      by (intro after_item_inv [OF assms(1,2) _ _ refl, where m = "ra_memory ?r" and sk = "ra_skip ?r"]) (auto simp: actor_ok_def)
    show ?thesis using fail again l by (cases site) (simp_all add: processOne_mark_def Pair Some)
  qed
qed

lemma mail_inv:
  assumes "rt_inv opts s" "k < length (rt_actors s)" "ra_position (rt_actors s ! k) = Selecting"
    "select_mail k (rt_actors s ! k) s = Some t"
  shows "rt_inv opts t"
proof (cases "ra_mailbox (rt_actors s ! k)")
  case (Cons u us)
  let ?r = "rt_actors s ! k"
  note ok = actor_okD [OF assms(1,2)]
  have wake: "rt_inv opts (enter_backlog k AtWake (?r\<lparr>ra_mailbox := us\<rparr>) s)"
    using ok assms Cons by (intro enter_backlog_inv) (auto simp: moves_to_def current_def Let_def actor_ok_def stalled_def attends_def)
  have one: "rt_inv opts (set_actor k (?r\<lparr>ra_mailbox := us, ra_position := Handling WarmItem u\<rparr>) s)"
    using ok assms Cons by (intro moves_inv) (auto simp: moves_to_def current_def Let_def actor_ok_def stalled_def attends_def)
  have drain: "rt_inv opts (set_actor k (?r\<lparr>ra_mailbox := us, ra_position := WarmDrain\<rparr>) s)" if "\<not> ra_deferredBacklog ?r"
    using that ok assms Cons by (intro moves_inv) (auto simp: moves_to_def current_def Let_def actor_ok_def stalled_def attends_def)
  show ?thesis using assms(4) wake one drain Cons by (auto simp: select_mail_def Let_def split: if_splits)
qed (use assms in \<open>simp add: select_mail_def\<close>)

lemma warm_drain_inv:
  assumes "rt_inv opts s" "k < length (rt_actors s)" "ra_position (rt_actors s ! k) = WarmDrain"
  shows "rt_inv opts (warm_drain k (rt_actors s ! k) s)"
proof -
  let ?r = "rt_actors s ! k"
  note ok = actor_okD [OF assms(1,2)]
  have stall: "ra_deferredBacklog ?r \<and> \<not> ra_evicted ?r \<longrightarrow> ra_agentID ?r \<in> rt_lapsed s"
    using ok assms(3) by (auto simp: actor_ok_def stalled_def current_def)
  have tail: "rt_inv opts (enter_backlog k AtTail ?r s)" using requery_inv [OF assms(1,2)] assms(3) by simp
  have rest: "rt_inv opts (set_actor k (?r\<lparr>ra_position := Selecting\<rparr>) s)" if "ra_deferredBacklog ?r"
    using that stall ok assms by (intro moves_inv) (auto simp: moves_to_def current_def Let_def actor_ok_def)
  have one: "rt_inv opts (set_actor k (?r\<lparr>ra_mailbox := us, ra_position := Handling WarmItem u\<rparr>) s)" if "ra_mailbox ?r = u # us" for u us
    using that ok assms by (intro moves_inv) (auto simp: moves_to_def current_def Let_def actor_ok_def stalled_def attends_def)
  have pop: "rt_inv opts (set_actor k (?r\<lparr>ra_mailbox := us\<rparr>) s)" if "ra_mailbox ?r = u # us" for u us
    using that stall ok assms by (intro moves_inv) (auto simp: moves_to_def current_def Let_def actor_ok_def stalled_def attends_def)
  show ?thesis using tail rest one pop by (simp add: warm_drain_def split: list.split)
qed

lemma log_frame_inv:
  assumes "rt_inv opts s" "log_ok l" "logged l = logged (rt_log s)" "pending l = pending (rt_log s)"
  shows "rt_inv opts (s\<lparr>rt_log := l\<rparr>)"
  using assms by (auto simp: rt_inv_def actor_ok_def current_def resident_ok_def senders_ok_def woken_def attended_def in_flight_def owned_def settled_ids_def)

text \<open>An activation leaves. Where it is the resident one it is unregistered, and no update relied on it.\<close>

lemma leave_inv:
  assumes inv: "rt_inv opts s" and k: "k < length (rt_actors s)" and p: "p \<in> {Leaving, Gone}"
    and reg: "m = (if rt_resident s (ra_agentID (rt_actors s ! k)) = Some k then (rt_resident s)(ra_agentID (rt_actors s ! k) := None) else rt_resident s)"
    and idle: "\<And>u. u \<in> pending (rt_log s) \<Longrightarrow> \<not> attends (rt_actors s ! k) u \<or> ra_evicted (rt_actors s ! k)"
  shows "rt_inv opts (set_actor k ((rt_actors s ! k)\<lparr>ra_position := p\<rparr>) (s\<lparr>rt_resident := m\<rparr>))"
proof -
  let ?r = "rt_actors s ! k" and ?t = "set_actor k ((rt_actors s ! k)\<lparr>ra_position := p\<rparr>) (s\<lparr>rt_resident := m\<rparr>)"
  have own: "rt_resident s a = Some k \<Longrightarrow> a = ra_agentID ?r" for a using inv by (auto simp: rt_inv_def resident_ok_def)
  have mle: "m a = Some j \<Longrightarrow> rt_resident s a = Some j" for a j by (simp add: reg split: if_splits)
  have none: "m a \<noteq> Some k" for a using own [of a] by (auto simp: reg)
  have other: "j \<noteq> k \<Longrightarrow> rt_resident s a = Some j \<Longrightarrow> m a = Some j" for a j by (auto simp: reg)
  have "actor_ok ?t j (rt_actors ?t ! j)" if j: "j < length (rt_actors s)" for j
  proof (cases "j = k")
    case True
    then show ?thesis using actor_okD [OF inv k] p k none by (auto simp: actor_ok_def current_def)
  next
    case False
    then have "m (ra_agentID (rt_actors s ! j)) = Some j \<longleftrightarrow> rt_resident s (ra_agentID (rt_actors s ! j)) = Some j"
      using mle other by blast
    with False show ?thesis using actor_okD [OF inv j] by (simp add: actor_ok_def current_def)
  qed
  moreover have "resident_ok opts ?t"
  proof -
    have sub: "dom m \<subseteq> dom (rt_resident s)" using mle by auto
    then have "finite (dom m)" "card (dom m) \<le> card (dom (rt_resident s))"
      using inv by (auto simp: rt_inv_def resident_ok_def intro: finite_subset card_mono)
    then show ?thesis using inv mle none k by (force simp: rt_inv_def resident_ok_def nth_list_update)
  qed
  moreover have "senders_ok ?t" using inv k by (auto simp: rt_inv_def senders_ok_def nth_list_update)
  moreover have "woken ?t"
  proof -
    have "attended ?t u" if u: "u \<in> pending (rt_log s)" "attended s u" for u
    proof -
      obtain j where j: "rt_resident s (u_ToAgentID u) = Some j" "\<not> ra_evicted (rt_actors s ! j)" "attends (rt_actors s ! j) u"
        using u(2) by (auto simp: attended_def)
      then have "j \<noteq> k" using idle [OF u(1)] by auto
      with j other show ?thesis by (auto simp: attended_def intro!: exI [of _ j])
    qed
    then show ?thesis using inv by (auto simp: rt_inv_def woken_def in_flight_def)
  qed
  ultimately show ?thesis using inv by (simp add: rt_inv_def)
qed

lemma idle_inv:
  assumes "rt_inv opts s" "k < length (rt_actors s)" "ra_position (rt_actors s ! k) = Selecting"
  shows "rt_inv opts (select_idle flt now k (rt_actors s ! k) s)"
proof -
  let ?r = "rt_actors s ! k"
  note ok = actor_okD [OF assms(1,2)]
  obtain res l where sv: "SaveSnapshot flt now (rt_log s) (ra_agentID ?r) (ra_memory ?r) = (res, l)" by fastforce
  have li: "rt_inv opts (s\<lparr>rt_log := l\<rparr>)"
    using SaveSnapshot_frame [OF sv] log_ok_Save [OF _ sv] assms(1) by (intro log_frame_inv) (auto simp: rt_inv_def)
  have "rt_inv opts (set_actor k (?r\<lparr>ra_position := Leaving\<rparr>) (s\<lparr>rt_log := l, rt_resident := (rt_resident s)(ra_agentID ?r := None)\<rparr>))"
    if "ra_mailbox ?r = []" "\<not> ra_evicted ?r"
    using leave_inv [OF li, of k Leaving "(rt_resident s)(ra_agentID ?r := None)"] that assms ok
    by (auto simp: attends_def actor_ok_def)
  moreover have "rt_inv opts (set_actor k (?r\<lparr>ra_position := Leaving\<rparr>) s)" if "ra_evicted ?r"
    using that assms by (intro evicted_move [where d = "ra_deferredBacklog ?r" and p = Leaving]) auto
  ultimately show ?thesis using li assms(1) by (auto simp: select_idle_def sv split: option.split)
qed

lemma deregister_inv:
  assumes "rt_inv opts s" "k < length (rt_actors s)" "ra_position (rt_actors s ! k) = Leaving"
  shows "rt_inv opts (deregister k (rt_actors s ! k) s)"
  using leave_inv [OF assms(1,2), of Gone, OF _ refl] assms by (auto simp: deregister_def attends_def)

lemma loop_step_inv:
  assumes "rt_inv opts s" "k < length (rt_actors s)" "loop_step c k s = Some t"
  shows "rt_inv opts t"
proof (cases "ra_position (rt_actors s ! k)")
  case Selecting
  have "rt_inv opts (set_actor k ((rt_actors s ! k)\<lparr>ra_position := Leaving\<rparr>) s)" if "ra_cancelled (rt_actors s ! k)"
    using that assms(1,2) Selecting actor_okD [OF assms(1,2)]
    by (intro evicted_move [where d = "ra_deferredBacklog (rt_actors s ! k)" and p = Leaving]) (auto simp: actor_ok_def)
  then show ?thesis using assms Selecting mail_inv [OF assms(1,2) Selecting] idle_inv [OF assms(1,2) Selecting]
    by (auto simp: loop_step_def Let_def split: select_choice.splits if_splits)
qed (use assms load_inv query_inv item_inv mark_inv cold_drain_inv one_inv one_mark_inv warm_drain_inv deregister_inv in
      \<open>auto simp: loop_step_def Let_def\<close>)

subsection \<open>Senders\<close>

lemma grow_inv:
  assumes inv: "rt_inv opts s" and l: "log_ok l" "logged l = insert u (logged (rt_log s))" "pending l = insert u (pending (rt_log s))"
    and u: "u \<notin> logged (rt_log s)"
  shows "rt_inv opts (s\<lparr>rt_log := l, rt_sending := u # rt_sending s\<rparr>)" "rt_inv opts (lapse (u_ToAgentID u) (s\<lparr>rt_log := l\<rparr>))"
proof -
  have st: "settled_ids l = settled_ids (rt_log s)" using l u by (auto simp: settled_ids_def)
  have ow: "owned (rt_log s) a \<subseteq> owned l a" for a using l by (auto simp: owned_def)
  have hd: "logged l - pending l \<subseteq> rt_handled s" using inv l by (auto simp: rt_inv_def)
  have ok: "actor_ok s j (rt_actors s ! j) \<Longrightarrow> actor_ok (s\<lparr>rt_log := l\<rparr>) j (rt_actors s ! j)" for j
    using ow [of "ra_agentID (rt_actors s ! j)"] st by (auto simp: actor_ok_def current_def)
  have att: "attended (s\<lparr>rt_log := l, rt_sending := x\<rparr>) v = attended s v" "attended (s\<lparr>rt_log := l\<rparr>) v = attended s v"
      "attended (lapse a (s\<lparr>rt_log := l\<rparr>)) v = attended s v" for v x a by (simp_all add: attended_def)
  show "rt_inv opts (s\<lparr>rt_log := l, rt_sending := u # rt_sending s\<rparr>)"
    using inv ok hd l ow by (force simp: rt_inv_def actor_ok_def current_def resident_ok_def senders_ok_def woken_def att in_flight_def)
  show "rt_inv opts (lapse (u_ToAgentID u) (s\<lparr>rt_log := l\<rparr>))"
    using inv ok hd l ow by (force simp: rt_inv_def actor_ok_def current_def resident_ok_def senders_ok_def woken_def att in_flight_def)
qed

lemma Send_append_inv:
  assumes inv: "rt_inv opts s"
  shows "rt_inv opts (snd (Send_append flt now u0 s))"
proof -
  define u1 where "u1 = u0\<lparr>u_ToAgentID := trimSpace (u_ToAgentID u0), u_UpdateID := trimSpace (u_UpdateID u0)\<rparr>"
  define u where "u = (if u_CreatedAt u1 = 0 then u1\<lparr>u_CreatedAt := now\<rparr> else u1)"
  obtain res l where a: "SQLiteLog_Append flt (rt_log s) u = (res, l)" by fastforce
  have ok: "log_ok l" using log_ok_Append [OF _ a] inv by (simp add: rt_inv_def)
  have "rt_inv opts s" "rt_inv opts (lapse x s)" for x using inv by (auto intro: lapse_inv)
  moreover have "l = rt_log s \<and> res \<noteq> Inr True
      \<or> u \<notin> logged (rt_log s) \<and> logged l = insert u (logged (rt_log s)) \<and> pending l = insert u (pending (rt_log s)) \<and> res \<noteq> Inr False"
    using Append_eq [OF a] by (elim disjE conjE) auto
  ultimately have "(case res of Inl err \<Rightarrow> rt_inv opts (lapse (u_ToAgentID u) (s\<lparr>rt_log := l\<rparr>))
      | Inr b \<Rightarrow> rt_inv opts (if b then s\<lparr>rt_log := l, rt_sending := u # rt_sending s\<rparr> else s\<lparr>rt_log := l\<rparr>))"
    using grow_inv [OF inv ok] by (elim disjE) (auto split: sum.split)
  moreover have "Send_append flt now u0 s = (if u_ToAgentID u1 = [] \<or> u_UpdateID u1 = [] then (Some SendFieldsRequired, s)
      else case SQLiteLog_Append flt (rt_log s) u of
        (Inl err, l) \<Rightarrow> (Some (SendAppendFailed err), lapse (u_ToAgentID u) (s\<lparr>rt_log := l\<rparr>))
      | (Inr False, l) \<Rightarrow> (None, s\<lparr>rt_log := l\<rparr>)
      | (Inr True, l) \<Rightarrow> (None, s\<lparr>rt_log := l, rt_sending := u # rt_sending s\<rparr>))"
    unfolding Send_append_def Let_def u1_def u_def by (rule refl)
  ultimately show ?thesis using inv by (auto simp: a split: sum.splits bool.splits if_splits)
qed

lemma activate_inv:
  assumes inv: "rt_inv opts s" and a: "activateLocked opts a s = (None, t)"
    and free: "\<And>k. rt_resident s a = Some k \<Longrightarrow> ra_evicted (rt_actors s ! k)"
  shows "rt_inv opts t \<and> rt_resident t a = Some (length (rt_actors s)) \<and> rt_actors t = rt_actors s @ [newActor a]"
proof -
  let ?n = "length (rt_actors s)"
  have t: "t = revive a (s\<lparr>rt_resident := (rt_resident s)(a \<mapsto> ?n), rt_actors := rt_actors s @ [newActor a]\<rparr>)"
    and cap: "\<not> (0 < MaxResident opts \<and> MaxResident opts \<le> int (card (dom (rt_resident s))))"
    using a by (auto simp: activateLocked_def split: if_splits)
  have res: "resident_ok opts s" using inv by (simp add: rt_inv_def)
  have acts: "actor_ok t j (rt_actors t ! j)" if "j < Suc ?n" for j
  proof (cases "j = ?n")
    case True
    then show ?thesis by (simp add: t actor_ok_def newActor_def stalled_def current_def)
  next
    case False
    with that have j: "j < ?n" by simp
    note ok = actor_okD [OF inv j]
    have "ra_agentID (rt_actors s ! j) = a \<Longrightarrow> rt_resident s a = Some j \<Longrightarrow> ra_evicted (rt_actors s ! j)" using free by blast
    then show ?thesis using ok j False by (auto simp: t actor_ok_def current_def nth_append)
  qed
  have "resident_ok opts t"
    using res cap unfolding resident_ok_def t
    by (auto simp: nth_append newActor_def card_insert_if less_Suc_eq)
  moreover have "senders_ok t" using inv by (auto simp: t rt_inv_def senders_ok_def nth_append)
  moreover have "woken t" unfolding woken_def
  proof (intro ballI impI)
    fix u assume u: "u \<in> pending (rt_log t)" "u_ToAgentID u \<notin> rt_lapsed t"
    show "in_flight t u \<or> attended t u"
    proof (cases "u_ToAgentID u = a")
      case True
      then show ?thesis by (auto simp: t attended_def attends_def newActor_def)
    next
      case False
      then have "in_flight s u \<or> attended s u" using inv u by (auto simp: t rt_inv_def woken_def)
      then show ?thesis using False res by (auto simp: t in_flight_def attended_def resident_ok_def nth_append)
    qed
  qed
  ultimately show ?thesis using inv acts by (auto simp: t rt_inv_def)
qed

lemma activate_cases:
  "activateLocked opts a s = (Some (ResidentCapReached a), s) \<or> (\<exists>t. activateLocked opts a s = (None, t))"
  by (auto simp: activateLocked_def)

definition push :: "nat \<Rightarrow> Update \<Rightarrow> Runtime \<Rightarrow> Runtime" where
  "push k u s = set_actor k ((rt_actors s ! k)\<lparr>ra_mailbox := ra_mailbox (rt_actors s ! k) @ [u]\<rparr>) s"

lemma push_inv:
  assumes inv: "rt_inv opts s" and k: "k < length (rt_actors s)" and u: "u \<in> owned (rt_log s) (ra_agentID (rt_actors s ! k))"
  shows "rt_inv opts (push k u s)"
proof -
  let ?r = "rt_actors s ! k"
  note ok = actor_okD [OF inv k]
  have att: "attends (?r\<lparr>ra_mailbox := ra_mailbox ?r @ [u]\<rparr>) v" if "attends ?r v" for v
    using that by (auto simp: attends_def elim: attends_at.elims)
  have st: "stalled (?r\<lparr>ra_mailbox := ra_mailbox ?r @ [u]\<rparr>) = stalled ?r" by (simp add: stalled_def)
  show ?thesis unfolding push_def
    using ok u att by (intro moves_inv [OF inv k]) (auto simp: moves_to_def Let_def actor_ok_def st)
qed

lemma resident_owned:
  "rt_inv opts s \<Longrightarrow> u \<in> logged (rt_log s) \<Longrightarrow> rt_resident s (u_ToAgentID u) = Some k \<Longrightarrow>
   k < length (rt_actors s) \<and> u \<in> owned (rt_log s) (ra_agentID (rt_actors s ! k)) \<and> ra_agentID (rt_actors s ! k) = u_ToAgentID u
   \<and> ra_position (rt_actors s ! k) \<noteq> Gone"
  by (auto simp: rt_inv_def resident_ok_def owned_def)

lemma not_stalled_attends:
  "ra_position r \<noteq> Gone \<Longrightarrow> \<not> stalled r \<Longrightarrow> u \<in> set (ra_mailbox r) \<or> ra_mailbox r \<noteq> [] \<and> \<not> cold_phase r \<Longrightarrow> attends r u"
  by (cases "ra_position r") (auto simp: stalled_def attends_def cold_phase_def split: item_site.splits)

lemma current_lapsed:
  assumes "rt_inv opts s" "rt_resident s a = Some k" "\<not> ra_evicted (rt_actors s ! k)" "stalled (rt_actors s ! k)"
  shows "a \<in> rt_lapsed s"
  using assms actor_okD [OF assms(1), of k] by (auto simp: rt_inv_def resident_ok_def actor_ok_def current_def)

lemma offer_inv:
  assumes inv: "rt_inv opts s" and u: "u \<in> logged (rt_log s)" and k: "rt_resident s (u_ToAgentID u) = Some k" "\<not> ra_evicted (rt_actors s ! k)"
    and cap: "0 < MailboxCapacity opts"
  shows "rt_inv opts (snd (offer opts k u s))"
    and "u_ToAgentID u \<in> rt_lapsed (snd (offer opts k u s)) \<or> attended (snd (offer opts k u s)) u"
proof -
  note own = resident_owned [OF inv u k(1)]
  let ?r = "rt_actors s ! k"
  have off: "snd (offer opts k u s) = (if int (length (ra_mailbox ?r)) < MailboxCapacity opts then push k u s
      else if cold_phase ?r then lapse (u_ToAgentID u) s else s)"
    by (simp add: offer_def push_def Let_def)
  show "rt_inv opts (snd (offer opts k u s))" using own inv by (auto simp: off intro: push_inv lapse_inv)
  have "u_ToAgentID u \<in> rt_lapsed s \<or> \<not> stalled ?r" using current_lapsed [OF inv k] by blast
  moreover have "attended (push k u s) u" if "\<not> stalled ?r"
    using not_stalled_attends [of "?r\<lparr>ra_mailbox := ra_mailbox ?r @ [u]\<rparr>" u] that own k
    by (auto simp: attended_def push_def stalled_def)
  moreover have "attended s u" if "\<not> stalled ?r" "\<not> int (length (ra_mailbox ?r)) < MailboxCapacity opts" "\<not> cold_phase ?r"
  proof -
    have "ra_mailbox ?r \<noteq> []" using that(2) cap by auto
    then show ?thesis using not_stalled_attends [of ?r u] that own k by (auto simp: attended_def)
  qed
  ultimately show "u_ToAgentID u \<in> rt_lapsed (snd (offer opts k u s)) \<or> attended (snd (offer opts k u s)) u"
    by (auto simp: off push_def)
qed

lemma unsend_inv:
  assumes inv: "rt_inv opts t" and x: "set (rt_sending t) \<subseteq> insert u (set x)" "set x \<subseteq> set (rt_sending t)"
    and u: "u \<in> pending (rt_log t) \<Longrightarrow> u_ToAgentID u \<notin> rt_lapsed t \<Longrightarrow> u \<in> fst ` set (rt_blocked t) \<or> attended t u"
  shows "rt_inv opts (t\<lparr>rt_sending := x\<rparr>)"
proof -
  have "woken (t\<lparr>rt_sending := x\<rparr>)" unfolding woken_def
  proof (intro ballI impI)
    fix v assume v: "v \<in> pending (rt_log (t\<lparr>rt_sending := x\<rparr>))" "u_ToAgentID v \<notin> rt_lapsed (t\<lparr>rt_sending := x\<rparr>)"
    then have "in_flight t v \<or> attended t v" using inv by (auto simp: rt_inv_def woken_def)
    then show "in_flight (t\<lparr>rt_sending := x\<rparr>) v \<or> attended (t\<lparr>rt_sending := x\<rparr>) v"
      using u v x by (cases "v = u") (auto simp: in_flight_def attended_def)
  qed
  then show ?thesis using inv x by (auto simp: rt_inv_def actor_ok_def current_def resident_ok_def senders_ok_def)
qed

lemma unblock_inv:
  assumes inv: "rt_inv opts t" and x: "set (rt_blocked t) \<subseteq> insert (u, k) (set x)" "set x \<subseteq> set (rt_blocked t)"
    and u: "u \<in> pending (rt_log t) \<Longrightarrow> u_ToAgentID u \<notin> rt_lapsed t \<Longrightarrow> attended t u"
  shows "rt_inv opts (t\<lparr>rt_blocked := x\<rparr>)"
proof -
  have "woken (t\<lparr>rt_blocked := x\<rparr>)" unfolding woken_def
  proof (intro ballI impI)
    fix v assume v: "v \<in> pending (rt_log (t\<lparr>rt_blocked := x\<rparr>))" "u_ToAgentID v \<notin> rt_lapsed (t\<lparr>rt_blocked := x\<rparr>)"
    then have "in_flight t v \<or> attended t v" using inv by (auto simp: rt_inv_def woken_def)
    then show "in_flight (t\<lparr>rt_blocked := x\<rparr>) v \<or> attended (t\<lparr>rt_blocked := x\<rparr>) v"
      using u v x by (cases "v = u") (force simp: in_flight_def attended_def)+
  qed
  then show ?thesis using inv x by (auto simp: rt_inv_def actor_ok_def current_def resident_ok_def senders_ok_def)
qed

lemma remove_at_set: "j < length xs \<Longrightarrow> set xs = insert (xs ! j) (set (remove_at j xs))"
  by (metis remove_at_def id_take_nth_drop set_append list.simps(15) Un_insert_right)

lemma field_updates [simp]:
  "lapse a (s\<lparr>rt_sending := x\<rparr>) = (lapse a s)\<lparr>rt_sending := x\<rparr>" "set_actor k r (s\<lparr>rt_sending := x\<rparr>) = (set_actor k r s)\<lparr>rt_sending := x\<rparr>"
  "lapse a (s\<lparr>rt_blocked := y\<rparr>) = (lapse a s)\<lparr>rt_blocked := y\<rparr>" "set_actor k r (s\<lparr>rt_blocked := y\<rparr>) = (set_actor k r s)\<lparr>rt_blocked := y\<rparr>"
  by (simp_all add: lapse_def set_actor_def)

lemma activate_sending:
  "activateLocked opts a (s\<lparr>rt_sending := x\<rparr>) = (fst (activateLocked opts a s), (snd (activateLocked opts a s))\<lparr>rt_sending := x\<rparr>)"
  by (simp add: activateLocked_def revive_def)

lemma offer_sending:
  "offer opts k u (s\<lparr>rt_sending := x\<rparr>) = (fst (offer opts k u s), (snd (offer opts k u s))\<lparr>rt_sending := x\<rparr>)"
  by (simp add: offer_def Let_def)

lemma Send_deliver_sending:
  "snd (Send_deliver opts u (s\<lparr>rt_sending := x\<rparr>)) = (snd (Send_deliver opts u s))\<lparr>rt_sending := x\<rparr>"
  by (simp add: Send_deliver_def activate_sending offer_sending split: option.split prod.split bool.split)

lemma activate_fields: "activateLocked opts a s = (e, t) \<Longrightarrow> rt_sending t = rt_sending s \<and> rt_log t = rt_log s"
  by (auto simp: activateLocked_def split: if_splits)

lemma offer_fields: "rt_sending (snd (offer opts k u s)) = rt_sending s \<and> rt_log (snd (offer opts k u s)) = rt_log s"
  by (simp add: offer_def Let_def)

lemma block_inv:
  "rt_inv opts s \<Longrightarrow> k < length (rt_actors s) \<Longrightarrow> u \<in> owned (rt_log s) (ra_agentID (rt_actors s ! k)) \<Longrightarrow>
   rt_inv opts (s\<lparr>rt_blocked := (u, k) # rt_blocked s\<rparr>)"
  by (auto simp: rt_inv_def actor_ok_def current_def resident_ok_def senders_ok_def woken_def attended_def in_flight_def)

text \<open>After delivery the update is attended, handed to a blocked sender, or its agent has lapsed.\<close>

lemma deliver_outcome:
  assumes inv: "rt_inv opts s" and u: "u \<in> logged (rt_log s)" and cap: "0 < MailboxCapacity opts"
  defines "t \<equiv> snd (Send_deliver opts u s)"
  shows "rt_inv opts t \<and> rt_sending t = rt_sending s \<and> (u_ToAgentID u \<in> rt_lapsed t \<or> u \<in> fst ` set (rt_blocked t) \<or> attended t u)"
proof -
  let ?a = "u_ToAgentID u"
  have fresh: ?thesis if free: "\<And>k. rt_resident s ?a = Some k \<Longrightarrow> ra_evicted (rt_actors s ! k)" and "\<not> rt_closed s"
  proof -
    have d: "Send_deliver opts u s = (case activateLocked opts ?a s of (Some err, s1) \<Rightarrow> (Some err, lapse ?a s1) | (None, s1) \<Rightarrow> (None, s1))"
      using that by (auto simp: Send_deliver_def split: option.split)
    from activate_cases [of opts ?a s] show ?thesis
    proof
      assume "activateLocked opts ?a s = (Some (ResidentCapReached ?a), s)"
      then show ?thesis using lapse_inv [OF inv] by (simp add: t_def d)
    next
      assume "\<exists>t. activateLocked opts ?a s = (None, t)"
      then obtain t' where t': "activateLocked opts ?a s = (None, t')" by blast
      note act = activate_inv [OF inv t' free]
      then have "attended t' u" by (auto simp: attended_def attends_def newActor_def)
      then show ?thesis using act activate_fields [OF t'] by (simp add: t_def d t')
    qed
  qed
  have warm: ?thesis if k: "rt_resident s ?a = Some k" "\<not> ra_evicted (rt_actors s ! k)" and open_rt: "\<not> rt_closed s" for k
  proof -
    note own = resident_owned [OF inv u k(1)]
    note off = offer_inv [OF inv u k cap] offer_fields [of opts k u s]
    have "t = snd (offer opts k u s) \<or> t = s\<lparr>rt_blocked := (u, k) # rt_blocked s\<rparr>"
      using k open_rt by (auto simp: t_def Send_deliver_def split: prod.split bool.split)
    then show ?thesis using off own block_inv [OF inv] by auto
  qed
  have ?thesis if "rt_closed s" using that lapse_inv [OF inv] by (simp add: t_def Send_deliver_def)
  then show ?thesis using fresh warm by (cases "rt_closed s"; cases "\<exists>k. rt_resident s ?a = Some k \<and> \<not> ra_evicted (rt_actors s ! k)") auto
qed

lemma deliver_inv:
  assumes "rt_inv opts s" "0 < MailboxCapacity opts" "j < length (rt_sending s)"
  shows "rt_inv opts (snd (Send_deliver opts (rt_sending s ! j) (s\<lparr>rt_sending := remove_at j (rt_sending s)\<rparr>)))"
proof -
  have "rt_sending s ! j \<in> logged (rt_log s)" using assms nth_mem by (auto simp: rt_inv_def senders_ok_def)
  note out = deliver_outcome [OF assms(1) this assms(2)]
  show ?thesis unfolding Send_deliver_sending
    using out remove_at_set [OF assms(3)] by (intro unsend_inv [where u = "rt_sending s ! j"]) auto
qed

lemma blocked_send_inv:
  assumes inv: "rt_inv opts s" and j: "j < length (rt_blocked s)" "rt_blocked s ! j = (u, k)"
    and t: "blocked_send opts u k (s\<lparr>rt_blocked := remove_at j (rt_blocked s)\<rparr>) = Some t"
  shows "rt_inv opts t"
proof -
  have "(u, k) \<in> set (rt_blocked s)" using j by (metis nth_mem)
  then have k: "k < length (rt_actors s)" "u \<in> owned (rt_log s) (ra_agentID (rt_actors s ! k))"
    using inv by (auto simp: rt_inv_def senders_ok_def)
  let ?cur = "rt_resident s (u_ToAgentID u) = Some k \<and> \<not> ra_evicted (rt_actors s ! k)"
  have t_eq: "t = (if ?cur then push k u s else lapse (u_ToAgentID u) (push k u s))\<lparr>rt_blocked := remove_at j (rt_blocked s)\<rparr>"
    using t by (auto simp: blocked_send_def push_def Let_def split: if_splits)
  have b: "rt_blocked (push k u s) = rt_blocked s" by (simp add: push_def)
  note sub = remove_at_set [OF j(1), unfolded j(2)]
  have pi: "rt_inv opts (push k u s)" by (rule push_inv [OF inv k])
  have "attended (push k u s) u" if "?cur" "u_ToAgentID u \<notin> rt_lapsed s"
  proof -
    have "\<not> stalled (rt_actors s ! k)" using current_lapsed [OF inv] that by blast
    moreover have "ra_position (rt_actors s ! k) \<noteq> Gone" using inv that(1) by (auto simp: rt_inv_def resident_ok_def)
    ultimately show ?thesis
      using not_stalled_attends [of "(rt_actors s ! k)\<lparr>ra_mailbox := ra_mailbox (rt_actors s ! k) @ [u]\<rparr>" u] that k(1)
      by (auto simp: attended_def push_def stalled_def)
  qed
  then show ?thesis
    unfolding t_eq using pi lapse_inv [OF pi, of "u_ToAgentID u"] sub b
    by (intro unblock_inv [where u = u and k = k]) (auto simp: push_def)
qed

lemma timeout_inv:
  assumes "rt_inv opts s" "j < length (rt_blocked s)"
  shows "rt_inv opts (lapse (u_ToAgentID (fst (rt_blocked s ! j))) (s\<lparr>rt_blocked := remove_at j (rt_blocked s)\<rparr>))"
  using lapse_inv [OF assms(1)] remove_at_set [OF assms(2)] unfolding field_updates
  by (intro unblock_inv [where u = "fst (rt_blocked s ! j)" and k = "snd (rt_blocked s ! j)"]) auto

subsection \<open>Sweeps, eviction and shutdown\<close>

lemma sweeping_inv: "rt_inv opts s \<Longrightarrow> rt_inv opts (s\<lparr>rt_sweeping := x\<rparr>)"
  by (auto simp: rt_inv_def actor_ok_def current_def resident_ok_def senders_ok_def woken_def attended_def in_flight_def)

lemma sweep_agents_inv: "rt_inv opts s \<Longrightarrow> rt_inv opts (snd (sweep_agents opts as s))"
proof (induction opts as s rule: sweep_agents.induct)
  case (2 opts a as s)
  show ?case using activate_cases [of opts a s] activate_inv [OF 2(3), of a] 2 by (auto split: prod.split option.split)
qed simp

lemma kill_inv:
  assumes inv: "rt_inv opts s" and k: "k < length (rt_actors s)"
    and why: "ra_agentID (rt_actors s ! k) \<in> rt_lapsed s \<or> ra_evicted (rt_actors s ! k)"
  shows "rt_inv opts (set_actor k ((rt_actors s ! k)\<lparr>ra_evicted := True, ra_cancelled := c\<rparr>) s)"
proof -
  let ?t = "set_actor k ((rt_actors s ! k)\<lparr>ra_evicted := True, ra_cancelled := c\<rparr>) s"
  have "actor_ok ?t j (rt_actors ?t ! j)" if "j < length (rt_actors s)" for j
    using actor_okD [OF inv that] that by (cases "j = k") (auto simp: actor_ok_def current_def)
  moreover have "resident_ok opts ?t" using inv k by (auto simp: rt_inv_def resident_ok_def nth_list_update)
  moreover have "senders_ok ?t" using inv k by (auto simp: rt_inv_def senders_ok_def nth_list_update)
  moreover have "attended ?t u" if u: "attended s u" "u_ToAgentID u \<notin> rt_lapsed s" for u
  proof -
    obtain j where j: "rt_resident s (u_ToAgentID u) = Some j" "\<not> ra_evicted (rt_actors s ! j)" "attends (rt_actors s ! j) u"
      using u(1) by (auto simp: attended_def)
    then have "ra_agentID (rt_actors s ! j) = u_ToAgentID u" using inv by (auto simp: rt_inv_def resident_ok_def)
    then have "j \<noteq> k" using why j u(2) by auto
    with j show ?thesis by (auto simp: attended_def intro!: exI [of _ j])
  qed
  ultimately show ?thesis using inv by (auto simp: rt_inv_def woken_def)
qed

lemma Evict_inv: "rt_inv opts s \<Longrightarrow> rt_inv opts (Evict a s)"
proof (cases "rt_resident s a")
  case (Some k)
  assume inv: "rt_inv opts s"
  then have k: "k < length (rt_actors s)" "ra_agentID (rt_actors s ! k) = a" using Some by (auto simp: rt_inv_def resident_ok_def)
  have "rt_inv opts (set_actor k ((rt_actors s ! k)\<lparr>ra_evicted := True, ra_cancelled := ra_cancelled (rt_actors s ! k)\<rparr>) (lapse a s))"
    using kill_inv [OF lapse_inv [OF inv], of k a "ra_cancelled (rt_actors s ! k)"] k by simp
  with Some show ?thesis by (simp add: Evict_def lapse_set_actor)
qed (simp add: Evict_def)

lemma Stop_inv:
  assumes inv: "rt_inv opts s"
  shows "rt_inv opts (Stop s)"
proof -
  have len: "length (rt_actors (Stop s)) = length (rt_actors s)" by (simp add: Stop_def)
  have at: "rt_actors (Stop s) ! j = (if Some j \<in> range (rt_resident s) then (rt_actors s ! j)\<lparr>ra_evicted := True, ra_cancelled := True\<rparr> else rt_actors s ! j)"
    if "j < length (rt_actors s)" for j using that by (simp add: Stop_def)
  have same: "rt_log (Stop s) = rt_log s" "rt_resident (Stop s) = rt_resident s" "rt_handled (Stop s) = rt_handled s"
      "rt_sending (Stop s) = rt_sending s" "rt_blocked (Stop s) = rt_blocked s" "rt_lapsed (Stop s) = rt_lapsed s \<union> dom (rt_resident s)"
    by (simp_all add: Stop_def)
  have "actor_ok (Stop s) j (rt_actors (Stop s) ! j)" if j: "j < length (rt_actors s)" for j
    using actor_okD [OF inv j] j by (auto simp: actor_ok_def current_def at same)
  moreover have "resident_ok opts (Stop s)" using inv by (auto simp: rt_inv_def resident_ok_def same len at)
  moreover have "senders_ok (Stop s)" using inv by (auto simp: rt_inv_def senders_ok_def same len at)
  moreover have "woken (Stop s)"
    using inv by (auto simp: rt_inv_def woken_def same in_flight_def attended_def)
  ultimately show ?thesis using inv by (auto simp: rt_inv_def same len)
qed

lemma rt_step_inv:
  assumes "rt_inv opts s" "0 < MailboxCapacity opts" "rt_step opts s x = Some t"
  shows "rt_inv opts t"
proof (cases x)
  case (LBlockedSend j)
  then show ?thesis using assms blocked_send_inv [OF assms(1)] by (auto split: if_splits prod.splits)
next
  case (LSweepQuery flt order)
  then show ?thesis using assms sweeping_inv by (auto simp: Sweep_query_def split: sum.splits if_splits)
next
  case (LSweep j)
  then show ?thesis
    using assms sweep_agents_inv [OF sweeping_inv [OF assms(1)]] sweeping_inv [OF assms(1)] by (auto simp: Sweep_locked_def split: if_splits)
next
  case (LCancel k)
  then have eq: "(rt_actors s ! k)\<lparr>ra_cancelled := True\<rparr> = (rt_actors s ! k)\<lparr>ra_evicted := True, ra_cancelled := True\<rparr>"
    using assms(3) by (auto split: if_splits)
  show ?thesis using assms(3) LCancel kill_inv [OF assms(1), of k True] unfolding eq [symmetric] by (auto split: if_splits)
qed (use assms Send_append_inv deliver_inv timeout_inv Evict_inv Stop_inv loop_step_inv in \<open>auto split: if_splits\<close>)

lemma reach_inv:
  assumes "reach opts l s" "log_ok l" "0 < MailboxCapacity opts"
  shows "rt_inv opts s"
  using assms by (induction rule: reach.induct) (auto intro: rt_inv_New rt_step_inv)

end
