(* ===== verification/Actor_Progress.thy ===== *)
theory Actor_Progress
  imports Actor_Delivery
begin

text \<open>
  What an activation achieves when it is left to run: with a handler that succeeds and a log that answers, it settles
  every update it attends to. Together with the invariant this gives delivery of every update whose wake-up has not
  lapsed, and recovery of the others by a sweep.
\<close>

subsection \<open>Calm runs of one activation\<close>

definition calm :: choice where
  "calm = \<lparr>ch_fault = \<lambda>_. False, ch_now = 0, ch_handler = HandlerOk None, ch_select = TakeMail\<rparr>"

definition settles :: "Options \<Rightarrow> nat \<Rightarrow> Update \<Rightarrow> Runtime \<Rightarrow> bool" where
  "settles opts k u s \<longleftrightarrow> (\<exists>n t. rt_run opts s (replicate n (LLoop k calm)) = Some t \<and> u \<notin> pending (rt_log t))"

definition ready :: "Options \<Rightarrow> nat \<Rightarrow> Update \<Rightarrow> Runtime \<Rightarrow> bool" where
  "ready opts k u s \<longleftrightarrow> rt_inv opts s \<and> k < length (rt_actors s) \<and> \<not> ra_evicted (rt_actors s ! k) \<and> ra_agentID (rt_actors s ! k) = u_ToAgentID u"

lemma settles_now: "u \<notin> pending (rt_log s) \<Longrightarrow> settles opts k u s"
  unfolding settles_def by (intro exI [of _ 0]) simp

lemma settles_step:
  assumes "k < length (rt_actors s)" "loop_step calm k s = Some t" "settles opts k u t"
  shows "settles opts k u s"
proof -
  obtain n t' where "rt_run opts t (replicate n (LLoop k calm)) = Some t'" "u \<notin> pending (rt_log t')"
    using assms(3) by (auto simp: settles_def)
  then have "rt_run opts s (replicate (Suc n) (LLoop k calm)) = Some t' \<and> u \<notin> pending (rt_log t')" using assms(1,2) by simp
  then show ?thesis unfolding settles_def by blast
qed

lemma ready_facts:
  assumes "ready opts k u s"
  shows "rt_inv opts s" "k < length (rt_actors s)" "\<not> ra_evicted (rt_actors s ! k)" "\<not> ra_cancelled (rt_actors s ! k)"
    "ra_agentID (rt_actors s ! k) = u_ToAgentID u"
    "u_UpdateID v \<in> ra_skip (rt_actors s ! k) \<Longrightarrow> v \<notin> pending (rt_log s)"
  using assms actor_okD [of opts s k] skip_not_pending [of opts s k v] by (auto simp: ready_def actor_ok_def)

text \<open>A step of the activation that only moves it keeps it ready.\<close>

lemma ready_next:
  assumes "ready opts k u s" "loop_step calm k s = Some t" "rt_actors t = (rt_actors s)[k := r]" "ra_agentID r = u_ToAgentID u" "\<not> ra_evicted r"
  shows "ready opts k u t"
  using assms loop_step_inv [of opts s k calm t] by (auto simp: ready_def)

lemma enter_backlog_actors [simp]:
  "rt_actors (enter_backlog k site r s) = (rt_actors s)[k := r\<lparr>ra_position := Querying site\<rparr>]" "rt_log (enter_backlog k site r s) = rt_log s"
  by (simp_all add: enter_backlog_def Let_def)

lemma calm_simps [simp]: "ch_fault calm = (\<lambda>_. False)" "ch_handler calm = HandlerOk None" "ch_select calm = TakeMail"
  by (simp_all add: calm_def)

lemma calm_mark: "MarkProcessed (\<lambda>_. False) now l a i = (None, l') \<Longrightarrow> pending l' \<subseteq> pending l"
  using MarkProcessed_None by fastforce

lemma calm_mark_ok: "\<exists>l'. MarkProcessed (\<lambda>_. False) now l a i = (None, l')"
  by (simp add: MarkProcessed_def)

lemma calm_query: "\<exists>us. Unprocessed (\<lambda>_. False) l a = Inr us \<and> set us = {u \<in> pending l. u_ToAgentID u = a}"
  using set_Unprocessed [of "\<lambda>_. False" l a] by (simp add: Unprocessed_def)

lemma mark_calmly:
  assumes "ready opts k u s" "ra_position (rt_actors s ! k) = Marking site v vs m"
  obtains t where "ready opts k u t" "ra_position (rt_actors t ! k) = Iterating site vs" "u = v \<Longrightarrow> u \<notin> pending (rt_log t)"
    "settles opts k u t \<Longrightarrow> settles opts k u s"
proof -
  note f = ready_facts [OF assms(1)]
  let ?r = "rt_actors s ! k"
  obtain l where m: "MarkProcessed (\<lambda>_. False) (ch_now calm) (rt_log s) (ra_agentID ?r) (u_UpdateID v) = (None, l)"
    using calm_mark_ok by blast
  let ?t = "set_actor k (?r\<lparr>ra_memory := m, ra_skip := insert (u_UpdateID v) (ra_skip ?r), ra_position := Iterating site vs\<rparr>) (s\<lparr>rt_log := l\<rparr>)"
  have st: "loop_step calm k s = Some ?t" using assms(2) m by (simp add: loop_step_def Let_def backlog_mark_def)
  show ?thesis using ready_next [OF assms(1) st] settles_step [OF f(2) st] MarkProcessed_None(2) [OF m] f by (intro that [of ?t]) auto
qed

lemma head_calmly:
  assumes "ready opts k u s" "ra_position (rt_actors s ! k) = Iterating site (v # vs)"
  obtains t where "ready opts k u t" "ra_position (rt_actors t ! k) = Iterating site vs" "u = v \<Longrightarrow> u \<notin> pending (rt_log t)"
    "settles opts k u t \<Longrightarrow> settles opts k u s"
proof -
  note f = ready_facts [OF assms(1)]
  let ?r = "rt_actors s ! k"
  show ?thesis
  proof (cases "u_UpdateID v \<in> ra_skip ?r")
    case True
    let ?t = "set_actor k (?r\<lparr>ra_position := Iterating site vs\<rparr>) s"
    have st: "loop_step calm k s = Some ?t" using True f assms(2) by (simp add: loop_step_def Let_def)
    show ?thesis using ready_next [OF assms(1) st] settles_step [OF f(2) st] f True by (intro that [of ?t]) auto
  next
    case False
    let ?t = "set_actor k (?r\<lparr>ra_position := Marking site v vs None\<rparr>) (s\<lparr>rt_handled := insert v (rt_handled s)\<rparr>)"
    have st: "loop_step calm k s = Some ?t" using False f assms(2) by (simp add: loop_step_def Let_def)
    have "ready opts k u ?t" using ready_next [OF assms(1) st] f by auto
    moreover have "ra_position (rt_actors ?t ! k) = Marking site v vs None" using f by simp
    ultimately show ?thesis using mark_calmly settles_step [OF f(2) st] that by metis
  qed
qed

lemma iterating_settles:
  assumes "ready opts k u s" "ra_position (rt_actors s ! k) = Iterating site us" "u \<in> set us"
  shows "settles opts k u s"
  using assms
proof (induction us arbitrary: s)
  case (Cons v vs)
  obtain t where t: "ready opts k u t" "ra_position (rt_actors t ! k) = Iterating site vs" "u = v \<Longrightarrow> u \<notin> pending (rt_log t)"
      "settles opts k u t \<Longrightarrow> settles opts k u s"
    using head_calmly [OF Cons.prems(1,2)] by blast
  then show ?case using Cons.IH [OF t(1,2)] Cons.prems(3) settles_now by auto
qed simp

lemma querying_settles:
  assumes "ready opts k u s" "ra_position (rt_actors s ! k) = Querying site"
  shows "settles opts k u s"
proof (cases "u \<in> pending (rt_log s)")
  case True
  note f = ready_facts [OF assms(1)]
  obtain us where us: "Unprocessed (\<lambda>_. False) (rt_log s) (ra_agentID (rt_actors s ! k)) = Inr us" "u \<in> set us"
    using calm_query [of "rt_log s" "ra_agentID (rt_actors s ! k)"] True f(5) by auto
  let ?t = "set_actor k ((rt_actors s ! k)\<lparr>ra_position := Iterating site us\<rparr>) s"
  have st: "loop_step calm k s = Some ?t" using us f assms(2) by (cases us) (auto simp: loop_step_def backlog_query_def Let_def)
  show ?thesis using ready_next [OF assms(1) st] f us
    by (intro settles_step [OF f(2) st] iterating_settles [of _ _ _ _ site us]) auto
qed (rule settles_now)

lemma iterating_any_settles:
  assumes "ready opts k u s" "ra_position (rt_actors s ! k) = Iterating site us"
  shows "settles opts k u s"
  using assms
proof (induction us arbitrary: s)
  case Nil
  note f = ready_facts [OF Nil(1)]
  have st: "loop_step calm k s = Some (enter_backlog k site (rt_actors s ! k) s)" using Nil(2) by (simp add: loop_step_def Let_def)
  show ?case using ready_next [OF Nil(1) st] f by (intro settles_step [OF f(2) st] querying_settles [where site = site]) auto
next
  case (Cons v vs)
  then show ?case using head_calmly [OF Cons.prems] by blast
qed

fun drain_position :: "item_site \<Rightarrow> position" where
  "drain_position ColdItem = ColdDrain"
| "drain_position WarmItem = WarmDrain"

lemma drain_position_eq: "(case site of ColdItem \<Rightarrow> ColdDrain | WarmItem \<Rightarrow> WarmDrain) = drain_position site"
  by (cases site) simp_all

text \<open>One item taken from the mailbox, from the handler call to the return to the drain loop.\<close>

lemma one_mark_calmly:
  assumes "ready opts k u s" "ra_position (rt_actors s ! k) = MarkingOne site v m"
  obtains t where "ready opts k u t" "ra_position (rt_actors t ! k) = drain_position site" "\<not> ra_deferredBacklog (rt_actors t ! k)"
    "ra_mailbox (rt_actors t ! k) = ra_mailbox (rt_actors s ! k)" "u = v \<Longrightarrow> u \<notin> pending (rt_log t)"
    "settles opts k u t \<Longrightarrow> settles opts k u s"
proof -
  note f = ready_facts [OF assms(1)]
  let ?r = "rt_actors s ! k"
  obtain l where m: "MarkProcessed (\<lambda>_. False) (ch_now calm) (rt_log s) (ra_agentID ?r) (u_UpdateID v) = (None, l)"
    using calm_mark_ok by blast
  let ?t = "set_actor k (after_item site False (?r\<lparr>ra_memory := m, ra_skip := insert (u_UpdateID v) (ra_skip ?r)\<rparr>)) (s\<lparr>rt_log := l\<rparr>)"
  have st: "loop_step calm k s = Some ?t" using assms(2) m by (simp add: loop_step_def Let_def processOne_mark_def)
  show ?thesis
    using ready_next [OF assms(1) st] settles_step [OF f(2) st] MarkProcessed_None(2) [OF m] f
    by (intro that [of ?t]) (auto simp: after_item_def drain_position_eq)
qed

lemma one_calmly:
  assumes "ready opts k u s" "ra_position (rt_actors s ! k) = Handling site v"
  obtains t where "ready opts k u t" "ra_position (rt_actors t ! k) = drain_position site" "\<not> ra_deferredBacklog (rt_actors t ! k)"
    "ra_mailbox (rt_actors t ! k) = ra_mailbox (rt_actors s ! k)" "u = v \<Longrightarrow> u \<notin> pending (rt_log t)"
    "settles opts k u t \<Longrightarrow> settles opts k u s"
proof -
  note f = ready_facts [OF assms(1)]
  let ?r = "rt_actors s ! k"
  show ?thesis
  proof (cases "u_UpdateID v \<in> ra_skip ?r")
    case True
    let ?t = "set_actor k (after_item site False ?r) s"
    have st: "loop_step calm k s = Some ?t" using True f assms(2) by (simp add: loop_step_def Let_def processOne_def)
    show ?thesis
      using ready_next [OF assms(1) st] settles_step [OF f(2) st] f True
      by (intro that [of ?t]) (auto simp: after_item_def drain_position_eq)
  next
    case False
    let ?t = "set_actor k (?r\<lparr>ra_position := MarkingOne site v None\<rparr>) (s\<lparr>rt_handled := insert v (rt_handled s)\<rparr>)"
    have st: "loop_step calm k s = Some ?t" using False f assms(2) by (simp add: loop_step_def Let_def processOne_def)
    have rt: "ready opts k u ?t" using ready_next [OF assms(1) st] f by auto
    have pos: "ra_position (rt_actors ?t ! k) = MarkingOne site v None" "ra_mailbox (rt_actors ?t ! k) = ra_mailbox ?r" using f by simp_all
    show ?thesis by (rule one_mark_calmly [OF rt pos(1)]) (use settles_step [OF f(2) st] pos(2) that in auto)
  qed
qed

lemma cold_settles:
  assumes "ready opts k u s" "ra_position (rt_actors s ! k) = ColdDrain" "\<not> ra_deferredBacklog (rt_actors s ! k)"
    "u \<in> set (ra_mailbox (rt_actors s ! k))"
  shows "settles opts k u s"
  using assms
proof (induction "ra_mailbox (rt_actors s ! k)" arbitrary: s)
  case (Cons v vs)
  note f = ready_facts [OF Cons.prems(1)] and mail = Cons.hyps(2) [symmetric]
  let ?r = "rt_actors s ! k"
  show ?case
  proof (cases "u_UpdateID v \<in> ra_skip ?r")
    case True
    let ?t = "set_actor k (?r\<lparr>ra_mailbox := vs\<rparr>) s"
    have st: "loop_step calm k s = Some ?t" using True Cons.prems(2) mail by (simp add: loop_step_def Let_def cold_drain_def)
    have rt: "ready opts k u ?t" using ready_next [OF Cons.prems(1) st] f by auto
    have "settles opts k u ?t"
      using f(6) [of v] True settles_now [of u ?t opts k] Cons.hyps(1) [of ?t] Cons.prems(2,3,4) rt f(2) mail by (cases "u = v") auto
    then show ?thesis by (rule settles_step [OF f(2) st])
  next
    case False
    let ?t = "set_actor k (?r\<lparr>ra_mailbox := vs, ra_position := Handling ColdItem v\<rparr>) s"
    have st: "loop_step calm k s = Some ?t" using False Cons.prems(2,3) mail by (simp add: loop_step_def Let_def cold_drain_def)
    have rt: "ready opts k u ?t" using ready_next [OF Cons.prems(1) st] f by auto
    have pos: "ra_position (rt_actors ?t ! k) = Handling ColdItem v" "ra_mailbox (rt_actors ?t ! k) = vs" using f by simp_all
    obtain t2 where t2: "ready opts k u t2" "ra_position (rt_actors t2 ! k) = ColdDrain" "\<not> ra_deferredBacklog (rt_actors t2 ! k)"
        "ra_mailbox (rt_actors t2 ! k) = vs" "u = v \<Longrightarrow> u \<notin> pending (rt_log t2)" "settles opts k u t2 \<Longrightarrow> settles opts k u ?t"
      by (rule one_calmly [OF rt pos(1)]) (use pos(2) in auto)
    have "settles opts k u t2"
      using t2(5) settles_now Cons.hyps(1) [of t2] t2(1-4) Cons.prems(4) mail by (cases "u = v") auto
    then show ?thesis using t2(6) settles_step [OF f(2) st] by blast
  qed
qed simp

lemma warm_settles:
  assumes "ready opts k u s" "ra_position (rt_actors s ! k) = WarmDrain" "\<not> ra_deferredBacklog (rt_actors s ! k)"
  shows "settles opts k u s"
  using assms
proof (induction "ra_mailbox (rt_actors s ! k)" arbitrary: s)
  case Nil
  note f = ready_facts [OF Nil.prems(1)]
  have st: "loop_step calm k s = Some (enter_backlog k AtTail (rt_actors s ! k) s)"
    using Nil.hyps [symmetric] Nil.prems(2,3) by (simp add: loop_step_def Let_def warm_drain_def)
  show ?case using ready_next [OF Nil.prems(1) st] f by (intro settles_step [OF f(2) st] querying_settles [where site = AtTail]) auto
next
  case (Cons v vs)
  note f = ready_facts [OF Cons.prems(1)] and mail = Cons.hyps(2) [symmetric]
  let ?r = "rt_actors s ! k"
  show ?case
  proof (cases "u_UpdateID v \<in> ra_skip ?r")
    case True
    let ?t = "set_actor k (?r\<lparr>ra_mailbox := vs\<rparr>) s"
    have st: "loop_step calm k s = Some ?t" using True Cons.prems(2) mail by (simp add: loop_step_def Let_def warm_drain_def)
    have "settles opts k u ?t" using Cons.hyps(1) [of ?t] Cons.prems(2,3) ready_next [OF Cons.prems(1) st] f by auto
    then show ?thesis by (rule settles_step [OF f(2) st])
  next
    case False
    let ?t = "set_actor k (?r\<lparr>ra_mailbox := vs, ra_position := Handling WarmItem v\<rparr>) s"
    have st: "loop_step calm k s = Some ?t" using False Cons.prems(2,3) mail by (simp add: loop_step_def Let_def warm_drain_def)
    have rt: "ready opts k u ?t" using ready_next [OF Cons.prems(1) st] f by auto
    have pos: "ra_position (rt_actors ?t ! k) = Handling WarmItem v" "ra_mailbox (rt_actors ?t ! k) = vs" using f by simp_all
    have "settles opts k u ?t" by (rule one_calmly [OF rt pos(1)]) (use Cons.hyps(1) pos(2) in auto)
    then show ?thesis by (rule settles_step [OF f(2) st])
  qed
qed

lemma handling_settles:
  assumes "ready opts k u s" "ra_position (rt_actors s ! k) \<in> {Handling site v, MarkingOne site v m}"
    "site = ColdItem \<Longrightarrow> u = v \<or> u \<in> set (ra_mailbox (rt_actors s ! k))"
  shows "settles opts k u s"
proof -
  obtain t where t: "ready opts k u t" "ra_position (rt_actors t ! k) = drain_position site" "\<not> ra_deferredBacklog (rt_actors t ! k)"
      "ra_mailbox (rt_actors t ! k) = ra_mailbox (rt_actors s ! k)" "u = v \<Longrightarrow> u \<notin> pending (rt_log t)"
      "settles opts k u t \<Longrightarrow> settles opts k u s"
    using assms(2) one_calmly [OF assms(1), of site v] one_mark_calmly [OF assms(1), of site v m] by (elim insertE emptyE) blast+
  then show ?thesis using assms(3) cold_settles [OF t(1)] warm_settles [OF t(1)] settles_now by (cases site) auto
qed

lemma select_settles:
  assumes "ready opts k u s" "ra_position (rt_actors s ! k) = Selecting" "ra_mailbox (rt_actors s ! k) \<noteq> []"
  shows "settles opts k u s"
proof -
  note f = ready_facts [OF assms(1)]
  let ?r = "rt_actors s ! k"
  obtain v vs where mail: "ra_mailbox ?r = v # vs" using assms(3) by (cases "ra_mailbox ?r") auto
  obtain t where st: "loop_step calm k s = Some t" "select_mail k ?r s = Some t" using assms(2) mail by (simp add: loop_step_def Let_def select_mail_def)
  have "settles opts k u t"
  proof (cases "ra_deferredBacklog ?r")
    case True
    then show ?thesis using st(2) mail ready_next [OF assms(1) st(1)] f
      by (intro querying_settles [where site = AtWake]) (auto simp: select_mail_def)
  next
    case False
    let ?p = "if u_UpdateID v \<in> ra_skip ?r then WarmDrain else Handling WarmItem v"
    have t: "t = set_actor k (?r\<lparr>ra_mailbox := vs, ra_position := ?p\<rparr>) s"
      using st(2) mail False by (auto simp: select_mail_def Let_def split: if_splits)
    have rt: "ready opts k u t" using ready_next [OF assms(1) st(1)] t f by auto
    have "ra_position (rt_actors t ! k) = ?p" "\<not> ra_deferredBacklog (rt_actors t ! k)" using f(2) False by (simp_all add: t)
    then show ?thesis using warm_settles [OF rt] handling_settles [OF rt, of WarmItem v None] by (auto split: if_splits)
  qed
  then show ?thesis by (rule settles_step [OF f(2) st(1)])
qed

lemma attends_settles:
  assumes "ready opts k u s" "attends (rt_actors s ! k) u"
  shows "settles opts k u s"
proof (cases "ra_position (rt_actors s ! k)")
  case Loading
  note f = ready_facts [OF assms(1)]
  have st: "loop_step calm k s = Some (loop_load (\<lambda>_. False) k (rt_actors s ! k) s)" using Loading by (simp add: loop_step_def Let_def)
  show ?thesis using ready_next [OF assms(1) st] f
    by (intro settles_step [OF f(2) st] querying_settles [where site = AtStart]) (auto simp: loop_load_def)
next
  case (Marking site v vs m)
  obtain t where "ready opts k u t" "ra_position (rt_actors t ! k) = Iterating site vs" "settles opts k u t \<Longrightarrow> settles opts k u s"
    using mark_calmly [OF assms(1) Marking] by metis
  then show ?thesis using iterating_any_settles by blast
next
  case (Handling site v)
  then show ?thesis using assms by (intro handling_settles [where site = site and v = v and m = None]) (auto simp: attends_def)
next
  case (MarkingOne site v m)
  then show ?thesis using assms by (intro handling_settles [where site = site and v = v and m = m]) (auto simp: attends_def)
qed (use assms querying_settles iterating_any_settles cold_settles warm_settles select_settles in \<open>auto simp: attends_def\<close>)

subsection \<open>Sweeps\<close>

lemma uncapped: "MaxResident opts \<le> 0 \<Longrightarrow> activateLocked opts a s =
    (None, revive a (s\<lparr>rt_resident := (rt_resident s)(a \<mapsto> length (rt_actors s)), rt_actors := rt_actors s @ [newActor a]\<rparr>))"
  by (simp add: activateLocked_def)

lemma sweep_keeps:
  assumes "MaxResident opts \<le> 0" "rt_resident s a = Some k" "k < length (rt_actors s)"
  shows "rt_resident (snd (sweep_agents opts as s)) a = Some k \<and> k < length (rt_actors (snd (sweep_agents opts as s)))
    \<and> rt_actors (snd (sweep_agents opts as s)) ! k = rt_actors s ! k"
  using assms
proof (induction opts as s rule: sweep_agents.induct)
  case (2 opts b as s)
  show ?case
  proof (cases "rt_resident s b")
    case None
    then have "b \<noteq> a" using 2(4) by auto
    with None 2 show ?thesis by (simp add: uncapped nth_append)
  qed (use 2 in simp)
qed simp

lemma sweep_activates:
  assumes "MaxResident opts \<le> 0" "a \<in> set as" "rt_resident s a = None"
  shows "\<exists>k. rt_resident (snd (sweep_agents opts as s)) a = Some k \<and> rt_actors (snd (sweep_agents opts as s)) ! k = newActor a"
  using assms
proof (induction opts as s rule: sweep_agents.induct)
  case (2 opts b as s)
  show ?case
  proof (cases "b = a")
    case True
    let ?s = "revive a (s\<lparr>rt_resident := (rt_resident s)(a \<mapsto> length (rt_actors s)), rt_actors := rt_actors s @ [newActor a]\<rparr>)"
    have "rt_resident ?s a = Some (length (rt_actors s))" "length (rt_actors s) < length (rt_actors ?s)" by simp_all
    from sweep_keeps [OF 2(3) this, of as] True 2(3,5) show ?thesis by (simp add: uncapped)
  next
    case False
    then show ?thesis using 2 by (auto simp: uncapped)
  qed
qed simp

lemma sweep_fields: "rt_log (snd (sweep_agents opts as s)) = rt_log s"
  by (induction opts as s rule: sweep_agents.induct) (auto simp: activateLocked_def split: prod.split option.split if_splits)

subsection \<open>Properties\<close>

lemma attended_ready:
  assumes "rt_inv opts s" "attended s u"
  obtains k where "rt_resident s (u_ToAgentID u) = Some k" "ready opts k u s" "attends (rt_actors s ! k) u"
  using assms by (auto simp: attended_def ready_def rt_inv_def resident_ok_def)

definition live :: "Runtime \<Rightarrow> nat \<Rightarrow> bool" where
  "live s k \<longleftrightarrow> k < length (rt_actors s) \<and> \<not> ra_evicted (rt_actors s ! k) \<and> ra_position (rt_actors s ! k) \<notin> {Leaving, Gone}"

text \<open>C15: two activations of one agent never run side by side unless one of them was evicted, an activation that may still
  run is the registered one, and the number of registered activations stays within the resident cap.\<close>

theorem single_live_activation:
  assumes "reach opts l s" "log_ok l" "0 < MailboxCapacity opts"
  shows "(\<forall>i j. live s i \<and> live s j \<and> ra_agentID (rt_actors s ! i) = ra_agentID (rt_actors s ! j) \<longrightarrow> i = j)
    \<and> (\<forall>i. live s i \<longrightarrow> rt_resident s (ra_agentID (rt_actors s ! i)) = Some i)
    \<and> (0 < MaxResident opts \<longrightarrow> int (card (dom (rt_resident s))) \<le> MaxResident opts)"
proof -
  note inv = reach_inv [OF assms]
  have reg: "rt_resident s (ra_agentID (rt_actors s ! i)) = Some i" if "live s i" for i
    using actor_okD [OF inv, of i] that by (auto simp: live_def actor_ok_def)
  have "0 < MaxResident opts \<longrightarrow> int (card (dom (rt_resident s))) \<le> MaxResident opts" using inv by (simp add: rt_inv_def resident_ok_def)
  then show ?thesis using reg by (metis option.inject)
qed

text \<open>Nothing is marked processed that was not handled, and nothing reaches a mailbox that is not in the log. Every
  logged update is pending or was answered by a successful handler call, and every update in a mailbox of an
  activation, or in its hands, is a logged update for that agent.\<close>

theorem processed_after_handled:
  assumes "reach opts l s" "log_ok l" "0 < MailboxCapacity opts"
  shows "logged (rt_log s) \<subseteq> pending (rt_log s) \<union> rt_handled s
    \<and> (\<forall>k < length (rt_actors s). set (ra_mailbox (rt_actors s ! k)) \<union> position_items (ra_position (rt_actors s ! k))
         \<subseteq> owned (rt_log s) (ra_agentID (rt_actors s ! k)))"
  using reach_inv [OF assms] by (auto simp: rt_inv_def actor_ok_def)

text \<open>C14: no wake-up is lost. Whatever the interleaving of senders, sweeps, evictions and activations, a logged and
  unprocessed update whose agent has not lapsed is in the hands of a sender, or its agent is resident and the
  activation will process it: run alone, with a handler that succeeds and a log that answers, it does. An agent lapses
  only by an eviction, a shutdown, a reached resident cap, a deferral or a panic of its handler, a failed append, a
  blocked send that timed out or met an activation that had gone, or, in the drain that follows the start-up replay,
  by a full mailbox or a failing handler.\<close>

theorem no_lost_wakeup:
  assumes "reach opts l s" "log_ok l" "0 < MailboxCapacity opts"
    and "u \<in> pending (rt_log s)" "u_ToAgentID u \<notin> rt_lapsed s"
  shows "u \<in> set (rt_sending s) \<or> u \<in> fst ` set (rt_blocked s)
    \<or> (\<exists>k n t. rt_resident s (u_ToAgentID u) = Some k
         \<and> rt_run opts s (replicate n (LLoop k calm)) = Some t \<and> u \<notin> pending (rt_log t))"
proof -
  note inv = reach_inv [OF assms(1-3)]
  have "in_flight s u \<or> attended s u" using inv assms(4,5) by (simp add: rt_inv_def woken_def)
  then show ?thesis using attended_ready [OF inv] attends_settles [of opts _ u s] unfolding in_flight_def settles_def by metis
qed

text \<open>A sweep recovers what passivated actors left behind. With no resident cap and the runtime open, after the
  backlog query and the activation loop of a sweep, every unprocessed update of an agent that was not resident gets
  processed by the activation the sweep started.\<close>

theorem sweep_recovers:
  assumes "reach opts l s" "log_ok l" "0 < MailboxCapacity opts" "MaxResident opts \<le> 0" "\<not> rt_closed s"
    and "u \<in> pending (rt_log s)" "rt_resident s (u_ToAgentID u) = None" "rt_sweeping s = []"
    and "Sweep_query (\<lambda>_. False) s order = Some q"
  shows "\<exists>k n t. rt_run opts q (LSweep 0 # replicate n (LLoop k calm)) = Some t \<and> u \<notin> pending (rt_log t)"
proof -
  note inv = reach_inv [OF assms(1-3)]
  obtain as where as: "AgentsWithBacklog (\<lambda>_. False) (rt_log s) = Inr as" by (simp add: AgentsWithBacklog_def)
  then have q: "q = s\<lparr>rt_sweeping := [order]\<rparr>" and m: "mset order = mset as"
    using assms(8,9) by (auto simp: Sweep_query_def split: if_splits)
  have a: "u_ToAgentID u \<in> set order"
    using AgentsWithBacklog_set [OF as] mset_eq_setD [OF m] assms(6) by auto
  let ?s = "s\<lparr>rt_sweeping := []\<rparr>"
  let ?t = "snd (sweep_agents opts order ?s)"
  have st: "rt_step opts q (LSweep 0) = Some ?t" using assms(5) by (simp add: q Sweep_locked_def remove_at_def)
  have ti: "rt_inv opts ?t" using sweep_agents_inv [OF sweeping_inv [OF inv]] .
  obtain k where k: "rt_resident ?t (u_ToAgentID u) = Some k" "rt_actors ?t ! k = newActor (u_ToAgentID u)"
    using sweep_activates [OF assms(4) a, of ?s] assms(7) by auto
  then have "k < length (rt_actors ?t)" using ti by (auto simp: rt_inv_def resident_ok_def)
  with ti k have "ready opts k u ?t" "attends (rt_actors ?t ! k) u" by (auto simp: ready_def newActor_def attends_def)
  from attends_settles [OF this] st show ?thesis unfolding settles_def by (metis option.simps(5) rt_run.simps(2))
qed

text \<open>C39: the drain after the start-up replay is the one place where a failed handler call is not followed by a backlog
  query. If the handler fails there on the last mailbox item, the activation goes on to wait, and when its idle timer
  fires it passivates although the update is still unprocessed; nothing then wakes the agent for it.\<close>

theorem cold_drain_error_strands:
  assumes "reach opts l s" "log_ok l" "0 < MailboxCapacity opts"
    and "rt_resident s (u_ToAgentID u) = Some k" "\<not> ra_evicted (rt_actors s ! k)" "u \<in> pending (rt_log s)"
    and "ra_position (rt_actors s ! k) = Handling ColdItem u" "ra_mailbox (rt_actors s ! k) = []"
  shows "\<exists>t. rt_run opts s [LLoop k (calm\<lparr>ch_handler := HandlerErr\<rparr>), LLoop k calm, LLoop k (calm\<lparr>ch_select := TakeIdle\<rparr>), LLoop k calm] = Some t
    \<and> u \<in> pending (rt_log t) \<and> rt_resident t (u_ToAgentID u) = None \<and> rt_sending t = rt_sending s \<and> rt_blocked t = rt_blocked s
    \<and> ra_position (rt_actors t ! k) = Gone"
proof -
  note inv = reach_inv [OF assms(1-3)]
  have k: "k < length (rt_actors s)" "ra_agentID (rt_actors s ! k) = u_ToAgentID u" using inv assms(4) by (auto simp: rt_inv_def resident_ok_def)
  have c: "\<not> ra_cancelled (rt_actors s ! k)" "u_UpdateID u \<notin> ra_skip (rt_actors s ! k)"
    using actor_okD [OF inv k(1)] assms(5,6) skip_not_pending [OF inv k(1), of u] by (auto simp: actor_ok_def)
  obtain l' where sv: "SaveSnapshot (\<lambda>_. False) (ch_now calm) (rt_log s) (u_ToAgentID u) (ra_memory (rt_actors s ! k)) = (None, l')"
    by (simp add: SaveSnapshot_def)
  show ?thesis
    using k c assms(4-8) sv SaveSnapshot_frame [OF sv]
    by (simp add: loop_step_def Let_def processOne_def after_item_def cold_drain_def select_idle_def deregister_def)
qed

subsection \<open>Witnesses\<close>

lemma reach_run: "rt_run opts s xs = Some t \<Longrightarrow> reach opts l s \<Longrightarrow> reach opts l t"
  by (induction xs arbitrary: s) (auto split: option.splits intro: reach.step)

definition wit_opts :: Options where
  "wit_opts = runtime_options \<lparr>MaxResident = 0, HandlerRetryBackoff = 0, MailboxCapacity = 0, IdleTimeout = 0, Backpressure = False,
     op_SendMode = SendModeNonBlocking, SendTimeout = 0\<rparr>"

definition wit_boot :: SQLiteLog where
  "wit_boot = \<lparr>actor_updates = [\<lparr>ur_update = wit_update ''u1'' ''a'' 1, ur_processed_at = None\<rparr>], actor_snapshots = []\<rparr>"

definition wit_swept :: Runtime where
  "wit_swept = \<lparr>rt_log = wit_boot, rt_resident = [''a'' \<mapsto> 0], rt_actors = [newActor ''a''], rt_closed = False, rt_sending = [],
     rt_blocked = [], rt_sweeping = [], rt_handled = {}, rt_lapsed = {}\<rparr>"

lemma wit_boot_facts: "log_ok wit_boot" "logged wit_boot = {wit_update ''u1'' ''a'' 1}" "pending wit_boot = {wit_update ''u1'' ''a'' 1}"
  "0 < MailboxCapacity wit_opts" "MaxResident wit_opts \<le> 0" "\<not> Backpressure wit_opts" "u_ToAgentID (wit_update i a t) = a"
  by (simp_all add: wit_boot_def log_ok_def logged_def pending_def wit_opts_def runtime_options_def wit_update_def)

lemma wit_query: "Sweep_query (\<lambda>_. False) (NewRuntime wit_boot) [''a''] = Some ((NewRuntime wit_boot)\<lparr>rt_sweeping := [[''a'']]\<rparr>)"
  by (simp add: Sweep_query_def NewRuntime_def AgentsWithBacklog_def wit_boot_def wit_update_def)

lemma wit_swept_run: "rt_run wit_opts (NewRuntime wit_boot) [LSweepQuery (\<lambda>_. False) [''a''], LSweep 0] = Some wit_swept"
  by (simp add: wit_query Sweep_locked_def remove_at_def uncapped wit_boot_facts) (simp add: NewRuntime_def wit_swept_def revive_def wit_boot_facts)

lemmas wit_swept_reach = reach_run [OF wit_swept_run reach.start]

theorem single_live_activation_witness: "reach wit_opts wit_boot wit_swept \<and> live wit_swept 0 \<and> rt_resident wit_swept ''a'' = Some 0"
  using single_live_activation [OF wit_swept_reach wit_boot_facts(1,4)] wit_swept_reach
  by (auto simp: live_def wit_swept_def newActor_def)

theorem processed_after_handled_witness:
  "reach wit_opts wit_boot wit_swept \<and> logged (rt_log wit_swept) \<subseteq> pending (rt_log wit_swept) \<union> rt_handled wit_swept"
  using processed_after_handled [OF wit_swept_reach wit_boot_facts(1,4)] wit_swept_reach by blast

theorem no_lost_wakeup_witness:
  "\<exists>k n t. rt_run wit_opts wit_swept (replicate n (LLoop k calm)) = Some t \<and> wit_update ''u1'' ''a'' 1 \<notin> pending (rt_log t)"
  using no_lost_wakeup [OF wit_swept_reach wit_boot_facts(1,4), of "wit_update ''u1'' ''a'' 1"]
  by (auto simp: wit_swept_def wit_boot_facts)

theorem sweep_recovers_witness:
  "\<exists>k n t. rt_run wit_opts ((NewRuntime wit_boot)\<lparr>rt_sweeping := [[''a'']]\<rparr>) (LSweep 0 # replicate n (LLoop k calm)) = Some t
     \<and> wit_update ''u1'' ''a'' 1 \<notin> pending (rt_log t)"
  using sweep_recovers [OF reach.start wit_boot_facts(1,4,5), of "wit_update ''u1'' ''a'' 1" "[''a'']"] wit_query
  by (auto simp: NewRuntime_def wit_boot_facts)

definition wit_cold :: Runtime where
  "wit_cold = \<lparr>rt_log = \<lparr>actor_updates = [\<lparr>ur_update = wit_update ''u1'' ''a'' 1, ur_processed_at = Some 0\<rparr>], actor_snapshots = []\<rparr>,
     rt_resident = [''a'' \<mapsto> 0], rt_actors = [(newActor ''a'')\<lparr>ra_skip := {''u1''}, ra_position := ColdDrain\<rparr>], rt_closed = False,
     rt_sending = [], rt_blocked = [], rt_sweeping = [], rt_handled = {wit_update ''u1'' ''a'' 1}, rt_lapsed = {}\<rparr>"

definition wit_stuck :: Runtime where
  "wit_stuck = wit_cold\<lparr>rt_log := (rt_log wit_cold)\<lparr>actor_updates := actor_updates (rt_log wit_cold)
       @ [\<lparr>ur_update = wit_update ''u2'' ''a'' 2, ur_processed_at = None\<rparr>]\<rparr>,
     rt_actors := [(newActor ''a'')\<lparr>ra_skip := {''u1''}, ra_position := Handling ColdItem (wit_update ''u2'' ''a'' 2)\<rparr>]\<rparr>"

lemma wit_cold_run: "rt_run wit_opts wit_swept (replicate 6 (LLoop 0 calm)) = Some wit_cold"
  by (simp add: numeral_eq_Suc wit_swept_def newActor_def wit_boot_def wit_cold_def loop_step_def Let_def loop_load_def enter_backlog_def
      backlog_query_def backlog_mark_def Unprocessed_def go_sort_def LoadSnapshot_def MarkProcessed_def after_backlog_def
      set_actor_def revive_def current_def wit_update_def calm_def)

lemma wit_trim: "trimSpace ''a'' = ''a''" "trimSpace ''u2'' = ''u2''"
  by code_simp+

lemma wit_stuck_run: "rt_run wit_opts wit_cold [LSend (\<lambda>_. False) 0 (wit_update ''u2'' ''a'' 2), LDeliver 0, LLoop 0 calm] = Some wit_stuck"
  by (simp add: wit_cold_def wit_stuck_def Send_append_def wit_update_def wit_trim SQLiteLog_Append_def Let_def Send_deliver_def remove_at_def
      wit_boot_facts offer_def newActor_def set_actor_def loop_step_def cold_drain_def wit_opts_def runtime_options_def)

theorem cold_drain_error_strands_witness:
  "\<exists>t. rt_run wit_opts wit_stuck [LLoop 0 (calm\<lparr>ch_handler := HandlerErr\<rparr>), LLoop 0 calm, LLoop 0 (calm\<lparr>ch_select := TakeIdle\<rparr>), LLoop 0 calm] = Some t
    \<and> wit_update ''u2'' ''a'' 2 \<in> pending (rt_log t) \<and> rt_resident t ''a'' = None \<and> rt_sending t = []"
proof -
  have r: "reach wit_opts wit_boot wit_stuck" using reach_run [OF wit_stuck_run] reach_run [OF wit_cold_run wit_swept_reach] by blast
  have "rt_resident wit_stuck (u_ToAgentID (wit_update ''u2'' ''a'' 2)) = Some 0" "\<not> ra_evicted (rt_actors wit_stuck ! 0)"
      "wit_update ''u2'' ''a'' 2 \<in> pending (rt_log wit_stuck)"
      "ra_position (rt_actors wit_stuck ! 0) = Handling ColdItem (wit_update ''u2'' ''a'' 2)" "ra_mailbox (rt_actors wit_stuck ! 0) = []"
    by (simp_all add: wit_stuck_def wit_cold_def newActor_def pending_def wit_boot_facts)
  from cold_drain_error_strands [OF r wit_boot_facts(1,4) this] show ?thesis by (auto simp: wit_boot_facts wit_stuck_def wit_cold_def)
qed

end
