(* ===== verification/Computer_Version.thy ===== *)
theory Computer_Version
  imports Prelude
begin

text \<open>
  The value vocabulary of audited computers (\<^verbatim>\<open>src/internal/computerversion/types.go\<close>) and the equivalence checker over
  observations (\<^verbatim>\<open>equivalence.go\<close>). The texts of the reported reasons are constructors; the iteration order of Go's maps
  does not show, because the checker sorts the keys.
\<close>

subsection \<open>Versions, capabilities and observations\<close>

type_synonym CodeRef = string
type_synonym ArtifactProgramRef = string
type_synonym ObservationKind = string

definition ref_Valid :: "string \<Rightarrow> bool" where
  "ref_Valid r \<longleftrightarrow> trimSpace r \<noteq> []"

record ComputerVersion =
  cv_CodeRef :: CodeRef
  cv_ArtifactProgramRef :: ArtifactProgramRef

definition ComputerVersion_Valid :: "ComputerVersion \<Rightarrow> bool" where
  "ComputerVersion_Valid v \<longleftrightarrow> ref_Valid (cv_CodeRef v) \<and> ref_Valid (cv_ArtifactProgramRef v)"

definition observation_kinds :: "ObservationKind list" where
  "observation_kinds = [''file_manifest'', ''blob_set'', ''dolt_head'', ''object_graph_head'', ''provenance_answer'',
     ''live_process_continuity'', ''vm_state_manifest'', ''promotion_certificate'']"

definition ObservationKind_Valid :: "ObservationKind \<Rightarrow> bool" where
  "ObservationKind_Valid k \<longleftrightarrow> k \<in> set observation_kinds"

record UnsupportedCapability =
  uc_Kind :: ObservationKind
  uc_Reason :: string

record ObservationSource =
  os_Name :: string
  os_Kind :: string
  os_KernelVersionFloor :: string
  os_PrivilegeScope :: string
  os_RequiresPIIRedaction :: bool

definition ObservationSource_Valid :: "ObservationSource \<Rightarrow> bool" where
  "ObservationSource_Valid s \<longleftrightarrow> trimSpace (os_Name s) \<noteq> [] \<and> trimSpace (os_Kind s) \<noteq> []"

record CapabilityManifest =
  cm_Materializer :: string
  cm_Substrate :: string
  cm_Supported :: "ObservationKind list"
  cm_Unsupported :: "UnsupportedCapability list"
  cm_ObservationSources :: "ObservationSource list"

definition Supports :: "CapabilityManifest \<Rightarrow> ObservationKind \<Rightarrow> bool" where
  "Supports m k \<longleftrightarrow> ObservationKind_Valid k \<and> k \<notin> uc_Kind ` set (cm_Unsupported m) \<and> k \<in> set (cm_Supported m)"

fun missing_kinds :: "CapabilityManifest \<Rightarrow> ObservationKind list \<Rightarrow> ObservationKind list \<Rightarrow> UnsupportedCapability list" where
  "missing_kinds m seen [] = []"
| "missing_kinds m seen (k # ks) =
     (if k \<in> set seen then missing_kinds m seen ks
      else if Supports m k then missing_kinds m (k # seen) ks
      else \<lparr>uc_Kind = k, uc_Reason = ''capability not declared by materializer''\<rparr> # missing_kinds m (k # seen) ks)"

definition MissingRequired :: "CapabilityManifest \<Rightarrow> ObservationKind list \<Rightarrow> UnsupportedCapability list" where
  "MissingRequired m required = missing_kinds m [] required"

record Observation =
  ob_Kind :: ObservationKind
  ob_Key :: string
  ob_Value :: string

definition Observation_Valid :: "Observation \<Rightarrow> bool" where
  "Observation_Valid ob \<longleftrightarrow> ObservationKind_Valid (ob_Kind ob) \<and> trimSpace (ob_Key ob) \<noteq> []"

definition FileManifestObservation :: "string \<Rightarrow> string \<Rightarrow> Observation" where
  "FileManifestObservation path v = \<lparr>ob_Kind = ''file_manifest'', ob_Key = path, ob_Value = v\<rparr>"

record ObservationSet =
  ot_Name :: string
  ot_Version :: ComputerVersion
  ot_Required :: "ObservationKind list"
  ot_Observations :: "Observation list"

fun first_kinds :: "ObservationKind list \<Rightarrow> ObservationKind list \<Rightarrow> ObservationKind list" where
  "first_kinds seen [] = []"
| "first_kinds seen (k # ks) = (if k \<in> set seen then first_kinds seen ks else k # first_kinds (k # seen) ks)"

definition RequiredKinds :: "ObservationSet \<Rightarrow> ObservationKind list" where
  "RequiredKinds s = first_kinds [] (ot_Required s @ map ob_Kind (ot_Observations s))"

record Realization =
  rz_ID :: string
  rz_Version :: ComputerVersion
  rz_Capabilities :: CapabilityManifest
  rz_Observations :: ObservationSet

subsection \<open>The checker\<close>

datatype side = LeftSide | RightSide

datatype reason = InvalidRealization side | DifferentRealizations | ObservationsForeign side | InvalidSet side | DifferentSets
  | InvalidObservation side ObservationKind string | DuplicateObservation side ObservationKind string
  | MissingFrom side | ValuesDiffer

record Difference =
  df_Kind :: ObservationKind
  df_Key :: string
  df_Left :: string
  df_Right :: string
  df_Reason :: reason

datatype EquivalenceStatus = EquivalenceEquivalent | EquivalenceNotEquivalent | EquivalenceNarrowed

record EquivalenceResult =
  er_Status :: EquivalenceStatus
  er_Differences :: "Difference list"
  er_Unsupported :: "UnsupportedCapability list"

definition Equivalent :: "EquivalenceResult \<Rightarrow> bool" where
  "Equivalent r \<longleftrightarrow> er_Status r = EquivalenceEquivalent \<and> er_Differences r = [] \<and> er_Unsupported r = []"

definition notEquivalent :: "Difference \<Rightarrow> EquivalenceResult" where
  "notEquivalent d = \<lparr>er_Status = EquivalenceNotEquivalent, er_Differences = [d], er_Unsupported = []\<rparr>"

definition reason_only :: "reason \<Rightarrow> Difference" where
  "reason_only r = \<lparr>df_Kind = [], df_Key = [], df_Left = [], df_Right = [], df_Reason = r\<rparr>"

definition formatVersion :: "ComputerVersion \<Rightarrow> string" where
  "formatVersion v = cv_CodeRef v @ ''@'' @ cv_ArtifactProgramRef v"

definition mergeKinds :: "ObservationKind list \<Rightarrow> ObservationKind list \<Rightarrow> ObservationKind list" where
  "mergeKinds left right = first_kinds [] (left @ right)"

definition observationKey :: "Observation \<Rightarrow> string" where
  "observationKey ob = ob_Kind ob @ [CHR 0x00] @ ob_Key ob"

fun observationMap_from :: "side \<Rightarrow> (string \<times> Observation) list \<Rightarrow> Observation list \<Rightarrow> reason + (string \<times> Observation) list" where
  "observationMap_from sd out [] = Inr out"
| "observationMap_from sd out (ob # obs) =
     (if \<not> Observation_Valid ob then Inl (InvalidObservation sd (ob_Kind ob) (ob_Key ob))
      else if observationKey ob \<in> fst ` set out then Inl (DuplicateObservation sd (ob_Kind ob) (ob_Key ob))
      else observationMap_from sd (out @ [(observationKey ob, ob)]) obs)"

definition observationMap :: "side \<Rightarrow> Observation list \<Rightarrow> reason + (string \<times> Observation) list" where
  "observationMap sd obs = observationMap_from sd [] obs"

definition difference_at :: "(string \<times> Observation) list \<Rightarrow> (string \<times> Observation) list \<Rightarrow> string \<Rightarrow> Difference list" where
  "difference_at lm rm key =
     (case (map_of lm key, map_of rm key) of
        (None, Some b) \<Rightarrow> [\<lparr>df_Kind = ob_Kind b, df_Key = ob_Key b, df_Left = [], df_Right = ob_Value b, df_Reason = MissingFrom LeftSide\<rparr>]
      | (None, None) \<Rightarrow> [\<lparr>df_Kind = [], df_Key = [], df_Left = [], df_Right = [], df_Reason = MissingFrom LeftSide\<rparr>]
      | (Some a, None) \<Rightarrow> [\<lparr>df_Kind = ob_Kind a, df_Key = ob_Key a, df_Left = ob_Value a, df_Right = [], df_Reason = MissingFrom RightSide\<rparr>]
      | (Some a, Some b) \<Rightarrow> if ob_Value a \<noteq> ob_Value b
          then [\<lparr>df_Kind = ob_Kind a, df_Key = ob_Key a, df_Left = ob_Value a, df_Right = ob_Value b, df_Reason = ValuesDiffer\<rparr>] else [])"

definition CheckObservationSets :: "ObservationSet \<Rightarrow> ObservationSet \<Rightarrow> EquivalenceResult" where
  "CheckObservationSets left right =
     (if \<not> ComputerVersion_Valid (ot_Version left) then notEquivalent (reason_only (InvalidSet LeftSide))
      else if \<not> ComputerVersion_Valid (ot_Version right) then notEquivalent (reason_only (InvalidSet RightSide))
      else if ot_Version left \<noteq> ot_Version right
        then notEquivalent ((reason_only DifferentSets)\<lparr>df_Left := formatVersion (ot_Version left), df_Right := formatVersion (ot_Version right)\<rparr>)
      else case observationMap LeftSide (ot_Observations left) of Inl e \<Rightarrow> notEquivalent (reason_only e)
      | Inr lm \<Rightarrow> (case observationMap RightSide (ot_Observations right) of Inl e \<Rightarrow> notEquivalent (reason_only e)
        | Inr rm \<Rightarrow>
          let keys = go_sort id (map fst lm @ filter (\<lambda>k. k \<notin> fst ` set lm) (map fst rm));
              diffs = concat (map (difference_at lm rm) keys) in
          if diffs \<noteq> [] then \<lparr>er_Status = EquivalenceNotEquivalent, er_Differences = diffs, er_Unsupported = []\<rparr>
          else \<lparr>er_Status = EquivalenceEquivalent, er_Differences = [], er_Unsupported = []\<rparr>))"

definition CheckRealizations :: "Realization \<Rightarrow> Realization \<Rightarrow> EquivalenceResult" where
  "CheckRealizations left right =
     (if \<not> ComputerVersion_Valid (rz_Version left) then notEquivalent (reason_only (InvalidRealization LeftSide))
      else if \<not> ComputerVersion_Valid (rz_Version right) then notEquivalent (reason_only (InvalidRealization RightSide))
      else if rz_Version left \<noteq> rz_Version right
        then notEquivalent ((reason_only DifferentRealizations)\<lparr>df_Left := formatVersion (rz_Version left), df_Right := formatVersion (rz_Version right)\<rparr>)
      else if ot_Version (rz_Observations left) \<noteq> rz_Version left then notEquivalent (reason_only (ObservationsForeign LeftSide))
      else if ot_Version (rz_Observations right) \<noteq> rz_Version right then notEquivalent (reason_only (ObservationsForeign RightSide))
      else let required = mergeKinds (RequiredKinds (rz_Observations left)) (RequiredKinds (rz_Observations right));
               unsupported = MissingRequired (rz_Capabilities left) required @ MissingRequired (rz_Capabilities right) required in
        if unsupported \<noteq> [] then \<lparr>er_Status = EquivalenceNarrowed, er_Differences = [], er_Unsupported = unsupported\<rparr>
        else CheckObservationSets (rz_Observations left) (rz_Observations right))"

subsection \<open>What the checker decides\<close>

lemma set_first_kinds: "set (first_kinds seen ks) = set ks - set seen"
  by (induction seen ks rule: first_kinds.induct) auto

lemma missing_kinds_Nil: "missing_kinds m seen ks = [] \<longleftrightarrow> (\<forall>k \<in> set ks - set seen. Supports m k)"
  by (induction m seen ks rule: missing_kinds.induct) auto

lemma kinds_no_nul: "ObservationKind_Valid k \<Longrightarrow> CHR 0x00 \<notin> set k"
  by (auto simp: ObservationKind_Valid_def observation_kinds_def)

lemma observationKey_inj:
  assumes "Observation_Valid a" "Observation_Valid b" "observationKey a = observationKey b"
  shows "ob_Kind a = ob_Kind b \<and> ob_Key a = ob_Key b"
proof -
  have k: "CHR 0x00 \<notin> set (ob_Kind a)" "CHR 0x00 \<notin> set (ob_Kind b)" using assms kinds_no_nul by (auto simp: Observation_Valid_def)
  have "takeWhile (\<lambda>c. c \<noteq> CHR 0x00) (observationKey a) = ob_Kind a" "takeWhile (\<lambda>c. c \<noteq> CHR 0x00) (observationKey b) = ob_Kind b"
    using k by (auto simp: observationKey_def takeWhile_append)
  then show ?thesis using assms(3) by (simp add: observationKey_def)
qed

definition observations_ok :: "Observation list \<Rightarrow> bool" where
  "observations_ok obs \<longleftrightarrow> (\<forall>ob \<in> set obs. Observation_Valid ob) \<and> distinct (map observationKey obs)"

lemma observationMap_from_Inr:
  "observationMap_from sd out obs = Inr m \<longleftrightarrow>
   (\<forall>ob \<in> set obs. Observation_Valid ob) \<and> distinct (map observationKey obs) \<and> observationKey ` set obs \<inter> fst ` set out = {}
   \<and> m = out @ map (\<lambda>ob. (observationKey ob, ob)) obs"
  by (induction sd out obs rule: observationMap_from.induct) auto

lemma observationMap_Inr: "observationMap sd obs = Inr m \<longleftrightarrow> observations_ok obs \<and> m = map (\<lambda>ob. (observationKey ob, ob)) obs"
  by (auto simp: observationMap_def observationMap_from_Inr observations_ok_def)

lemma map_of_observations:
  "observations_ok obs \<Longrightarrow> map_of (map (\<lambda>ob. (observationKey ob, ob)) obs) k = Some ob \<longleftrightarrow> ob \<in> set obs \<and> observationKey ob = k"
  by (induction obs) (auto simp: observations_ok_def image_iff)

lemma same_key_same_observation:
  "observations_ok obs \<Longrightarrow> a \<in> set obs \<Longrightarrow> b \<in> set obs \<Longrightarrow> observationKey a = observationKey b \<Longrightarrow> a = b"
  unfolding observations_ok_def distinct_map by (blast dest: inj_onD)

lemma concat_Nil: "concat (map f xs) = [] \<longleftrightarrow> (\<forall>x \<in> set xs. f x = [])"
  by auto

lemma difference_at_Nil:
  "difference_at lm rm k = [] \<longleftrightarrow> (\<exists>a b. map_of lm k = Some a \<and> map_of rm k = Some b \<and> ob_Value a = ob_Value b)"
  by (auto simp: difference_at_def split: option.split)

lemma no_differences:
  assumes l: "observations_ok ls" and r: "observations_ok rs"
  defines "lm \<equiv> map (\<lambda>ob. (observationKey ob, ob)) ls" and "rm \<equiv> map (\<lambda>ob. (observationKey ob, ob)) rs"
  shows "(\<forall>k \<in> fst ` set lm \<union> fst ` set rm. difference_at lm rm k = []) \<longleftrightarrow> set ls = set rs"
proof
  assume d: "\<forall>k \<in> fst ` set lm \<union> fst ` set rm. difference_at lm rm k = []"
  have both: "a \<in> set ls \<longleftrightarrow> a \<in> set rs" if "observationKey a \<in> fst ` set lm \<union> fst ` set rm" for a
  proof -
    have "difference_at lm rm (observationKey a) = []" using d that by blast
    then obtain x y where xy: "map_of lm (observationKey a) = Some x" "map_of rm (observationKey a) = Some y" "ob_Value x = ob_Value y"
      unfolding difference_at_Nil by blast
    then have x: "x \<in> set ls" "observationKey x = observationKey a" and y: "y \<in> set rs" "observationKey y = observationKey a"
      using map_of_observations [OF l] map_of_observations [OF r] by (auto simp: lm_def rm_def)
    have v: "Observation_Valid x" "Observation_Valid y" using x y l r by (auto simp: observations_ok_def)
    have "observationKey x = observationKey y" using x(2) y(2) by (rule trans [OF _ sym])
    then have "x = y" using observationKey_inj [OF v] xy(3) by (intro Observation.equality) simp_all
    moreover have "a \<in> set ls \<Longrightarrow> a = x" "a \<in> set rs \<Longrightarrow> a = y"
      using same_key_same_observation [OF l] same_key_same_observation [OF r] x y by metis+
    ultimately show ?thesis using x y by auto
  qed
  moreover have "fst ` set lm = observationKey ` set ls" "fst ` set rm = observationKey ` set rs"
    by (simp_all add: lm_def rm_def image_image)
  ultimately show "set ls = set rs" by (intro set_eqI) (metis UnI1 UnI2 imageI)
next
  assume eq: "set ls = set rs"
  have "\<exists>a b. map_of lm k = Some a \<and> map_of rm k = Some b \<and> ob_Value a = ob_Value b" if kin: "k \<in> observationKey ` set ls" for k
  proof -
    obtain a where "a \<in> set ls" "k = observationKey a" using kin by auto
    then have "map_of lm k = Some a" "map_of rm k = Some a"
      using map_of_observations [OF l] map_of_observations [OF r] eq by (auto simp: lm_def rm_def)
    then show ?thesis by blast
  qed
  then show "\<forall>k \<in> fst ` set lm \<union> fst ` set rm. difference_at lm rm k = []"
    using eq by (auto simp: difference_at_Nil lm_def rm_def image_image)
qed

lemma CheckObservationSets_Equivalent:
  "Equivalent (CheckObservationSets l r) \<longleftrightarrow> ComputerVersion_Valid (ot_Version l) \<and> ot_Version l = ot_Version r
     \<and> observations_ok (ot_Observations l) \<and> observations_ok (ot_Observations r) \<and> set (ot_Observations l) = set (ot_Observations r)"
proof (cases "ComputerVersion_Valid (ot_Version l) \<and> ot_Version l = ot_Version r \<and> observations_ok (ot_Observations l) \<and> observations_ok (ot_Observations r)")
  case True
  then have ok: "observations_ok (ot_Observations l)" "observations_ok (ot_Observations r)" by simp_all
  let ?lm = "map (\<lambda>ob. (observationKey ob, ob)) (ot_Observations l)" and ?rm = "map (\<lambda>ob. (observationKey ob, ob)) (ot_Observations r)"
  let ?ks = "go_sort id (map fst ?lm @ filter (\<lambda>k. k \<notin> fst ` set ?lm) (map fst ?rm))"
  have ks: "set ?ks = fst ` set ?lm \<union> fst ` set ?rm" by (auto simp: image_image)
  have m: "observationMap LeftSide (ot_Observations l) = Inr ?lm" "observationMap RightSide (ot_Observations r) = Inr ?rm"
    using ok by (simp_all add: observationMap_Inr)
  have v: "ComputerVersion_Valid (ot_Version l)" "ComputerVersion_Valid (ot_Version r)" "ot_Version l = ot_Version r"
    using True by metis+
  have "CheckObservationSets l r = (let diffs = concat (map (difference_at ?lm ?rm) ?ks) in
      if diffs \<noteq> [] then \<lparr>er_Status = EquivalenceNotEquivalent, er_Differences = diffs, er_Unsupported = []\<rparr>
      else \<lparr>er_Status = EquivalenceEquivalent, er_Differences = [], er_Unsupported = []\<rparr>)"
    using v m by (simp add: CheckObservationSets_def)
  then have "Equivalent (CheckObservationSets l r) \<longleftrightarrow> concat (map (difference_at ?lm ?rm) ?ks) = []"
    by (cases "concat (map (difference_at ?lm ?rm) ?ks) = []") (simp_all only: Let_def Equivalent_def if_True if_False simp_thms
        EquivalenceResult.select_convs EquivalenceStatus.distinct)
  then show ?thesis using True no_differences [OF ok] unfolding concat_Nil ks by blast
next
  case False
  then show ?thesis
    by (auto simp: CheckObservationSets_def Equivalent_def notEquivalent_def observationMap_Inr split: sum.split)
qed

definition in_scope :: "Realization \<Rightarrow> Realization \<Rightarrow> ObservationKind set" where
  "in_scope l r = set (ot_Required (rz_Observations l)) \<union> ob_Kind ` set (ot_Observations (rz_Observations l))
     \<union> set (ot_Required (rz_Observations r)) \<union> ob_Kind ` set (ot_Observations (rz_Observations r))"

lemma required_scope: "set (mergeKinds (RequiredKinds (rz_Observations l)) (RequiredKinds (rz_Observations r))) = in_scope l r"
  by (auto simp: mergeKinds_def RequiredKinds_def set_first_kinds in_scope_def)

lemma in_scope_commute: "in_scope l r = in_scope r l"
  by (auto simp: in_scope_def)

lemma CheckRealizations_Equivalent:
  "Equivalent (CheckRealizations l r) \<longleftrightarrow>
     ComputerVersion_Valid (rz_Version l) \<and> rz_Version l = rz_Version r
     \<and> ot_Version (rz_Observations l) = rz_Version l \<and> ot_Version (rz_Observations r) = rz_Version r
     \<and> (\<forall>k \<in> in_scope l r. Supports (rz_Capabilities l) k \<and> Supports (rz_Capabilities r) k)
     \<and> observations_ok (ot_Observations (rz_Observations l)) \<and> observations_ok (ot_Observations (rz_Observations r))
     \<and> set (ot_Observations (rz_Observations l)) = set (ot_Observations (rz_Observations r))"
proof -
  let ?k = "mergeKinds (RequiredKinds (rz_Observations l)) (RequiredKinds (rz_Observations r))"
  have "MissingRequired (rz_Capabilities l) ?k @ MissingRequired (rz_Capabilities r) ?k = [] \<longleftrightarrow>
      (\<forall>k \<in> in_scope l r. Supports (rz_Capabilities l) k \<and> Supports (rz_Capabilities r) k)"
    by (auto simp: MissingRequired_def missing_kinds_Nil required_scope)
  then show ?thesis
    using CheckObservationSets_Equivalent [of "rz_Observations l" "rz_Observations r"]
    unfolding CheckRealizations_def Let_def by (simp add: Equivalent_def notEquivalent_def)
qed

text \<open>The checker authorizes an equivalence claim exactly when it is true: the two realizations name the same valid
  version, both materializers support every observation class either side requires or reports, both observation
  sets are well-formed, and they hold the same observations, in whatever order.\<close>

theorem equivalence_check_exact:
  "Equivalent (CheckRealizations l r) \<longleftrightarrow>
     ComputerVersion_Valid (rz_Version l) \<and> rz_Version l = rz_Version r
     \<and> ot_Version (rz_Observations l) = rz_Version l \<and> ot_Version (rz_Observations r) = rz_Version r
     \<and> (\<forall>k \<in> in_scope l r. Supports (rz_Capabilities l) k \<and> Supports (rz_Capabilities r) k)
     \<and> observations_ok (ot_Observations (rz_Observations l)) \<and> observations_ok (ot_Observations (rz_Observations r))
     \<and> set (ot_Observations (rz_Observations l)) = set (ot_Observations (rz_Observations r))"
  by (rule CheckRealizations_Equivalent)

lemma no_differences_same_observations:
  assumes "ComputerVersion_Valid (rz_Version a)" "rz_Version a = rz_Version c"
    "ot_Version (rz_Observations a) = rz_Version a" "ot_Version (rz_Observations c) = rz_Version c"
    "observations_ok (ot_Observations (rz_Observations a))" "observations_ok (ot_Observations (rz_Observations c))"
    "set (ot_Observations (rz_Observations a)) = set (ot_Observations (rz_Observations c))"
  shows "er_Differences (CheckRealizations a c) = []"
proof -
  have "er_Differences (CheckObservationSets (rz_Observations a) (rz_Observations c)) = []"
    using CheckObservationSets_Equivalent [of "rz_Observations a" "rz_Observations c"] assms unfolding Equivalent_def by metis
  then show ?thesis using assms by (simp add: CheckRealizations_def Let_def)
qed

text \<open>The claims compose. Claimed equivalence is symmetric, and two claims that share a realization leave no
  difference between the outer ones: the third claim is authorized exactly when each outer materializer also
  supports what the other one requires, and narrowed otherwise.\<close>

theorem equivalence_claims_compose:
  "Equivalent (CheckRealizations a b) = Equivalent (CheckRealizations b a)
   \<and> (Equivalent (CheckRealizations a b) \<and> Equivalent (CheckRealizations b c) \<longrightarrow>
        er_Differences (CheckRealizations a c) = []
        \<and> (Equivalent (CheckRealizations a c) \<longleftrightarrow>
             (\<forall>k \<in> set (ot_Required (rz_Observations c)). Supports (rz_Capabilities a) k)
             \<and> (\<forall>k \<in> set (ot_Required (rz_Observations a)). Supports (rz_Capabilities c) k)))"
proof (intro conjI impI)
  show "Equivalent (CheckRealizations a b) = Equivalent (CheckRealizations b a)"
    unfolding CheckRealizations_Equivalent by (metis in_scope_commute)
  assume e: "Equivalent (CheckRealizations a b) \<and> Equivalent (CheckRealizations b c)"
  then have ab: "Equivalent (CheckRealizations a b)" and bc: "Equivalent (CheckRealizations b c)" by simp_all
  note ab = ab [unfolded CheckRealizations_Equivalent] and bc = bc [unfolded CheckRealizations_Equivalent]
  show "er_Differences (CheckRealizations a c) = []"
    using ab bc by (intro no_differences_same_observations) metis+
  have "(\<forall>k \<in> in_scope a c. Supports (rz_Capabilities a) k \<and> Supports (rz_Capabilities c) k) \<longleftrightarrow>
      (\<forall>k \<in> set (ot_Required (rz_Observations c)). Supports (rz_Capabilities a) k)
      \<and> (\<forall>k \<in> set (ot_Required (rz_Observations a)). Supports (rz_Capabilities c) k)"
    using ab bc unfolding in_scope_def by blast
  then show "Equivalent (CheckRealizations a c) \<longleftrightarrow>
      (\<forall>k \<in> set (ot_Required (rz_Observations c)). Supports (rz_Capabilities a) k)
      \<and> (\<forall>k \<in> set (ot_Required (rz_Observations a)). Supports (rz_Capabilities c) k)"
    unfolding CheckRealizations_Equivalent using ab bc by metis
qed

definition wit_realization :: Realization where
  "wit_realization = (let v = \<lparr>cv_CodeRef = ''c'', cv_ArtifactProgramRef = ''p''\<rparr> in
     \<lparr>rz_ID = ''r'', rz_Version = v,
      rz_Capabilities = \<lparr>cm_Materializer = ''m'', cm_Substrate = ''s'', cm_Supported = [''blob_set''], cm_Unsupported = [], cm_ObservationSources = []\<rparr>,
      rz_Observations = \<lparr>ot_Name = ''o'', ot_Version = v, ot_Required = [''blob_set''],
        ot_Observations = [\<lparr>ob_Kind = ''blob_set'', ob_Key = ''k'', ob_Value = ''v''\<rparr>]\<rparr>\<rparr>)"

lemma wit_ref_trim: "trimSpace ''c'' = ''c''" "trimSpace ''p'' = ''p''" "trimSpace ''k'' = ''k''"
  by code_simp+

lemma wit_self_equivalent: "Equivalent (CheckRealizations wit_realization wit_realization)"
  by (simp add: CheckRealizations_Equivalent wit_realization_def Let_def in_scope_def Supports_def observations_ok_def Observation_Valid_def
      ObservationKind_Valid_def observation_kinds_def ComputerVersion_Valid_def ref_Valid_def wit_ref_trim)

theorem equivalence_check_exact_witness: "Equivalent (CheckRealizations wit_realization wit_realization) \<and> ''blob_set'' \<in> in_scope wit_realization wit_realization"
  using equivalence_check_exact [of wit_realization wit_realization] wit_self_equivalent by (simp add: in_scope_def wit_realization_def Let_def)

theorem equivalence_claims_compose_witness: "er_Differences (CheckRealizations wit_realization wit_realization) = []"
  using equivalence_claims_compose [of wit_realization wit_realization wit_realization] wit_self_equivalent by blast

end
