(* ===== verification/Go_Strings.thy ===== *)
theory Go_Strings
  imports Prelude
begin

text \<open>
  Facts on Go's \<^verbatim>\<open>strings.TrimSpace\<close> and \<^verbatim>\<open>strings.Split\<close> that the route components share: trimming is idempotent, a
  text framed by other characters is its own trimming, and splitting undoes joining.
\<close>

definition trimmed :: "string \<Rightarrow> bool" where
  "trimmed s \<longleftrightarrow> strip_space space_seqs (byte_codes s) = None \<and> strip_space (map rev space_seqs) (byte_codes (rev s)) = None"

lemma strip_space_None: "strip_space qs s = None \<longleftrightarrow> (\<forall>q \<in> set qs. q \<noteq> [] \<longrightarrow> take (length q) s \<noteq> q)"
  by (induction qs s rule: strip_space.induct) auto

lemma take_eq_prefix: "take (length q) s = q \<longleftrightarrow> (\<exists>t. s = q @ t)"
  by (metis append_take_drop_id append_eq_conv_conj)

lemma strip_space_prefix: "strip_space qs (s @ t) = None \<Longrightarrow> strip_space qs s = None"
  by (auto simp: strip_space_None take_eq_prefix)

lemma trimRightSpace_stops: "strip_space (map rev space_seqs) (byte_codes (rev (trimRightSpace s))) = None"
proof (induction s rule: trimRightSpace.induct)
  case (1 s)
  then show ?case
    by (cases "strip_space (map rev space_seqs) (byte_codes (rev s))") (simp_all add: trimRightSpace.simps [of s])
qed

lemma trimRightSpace_prefix: "\<exists>t. s = trimRightSpace s @ t"
proof (induction s rule: trimRightSpace.induct)
  case (1 s)
  show ?case
  proof (cases "strip_space (map rev space_seqs) (byte_codes (rev s))")
    case None
    then show ?thesis by (simp add: trimRightSpace.simps [of s])
  next
    case (Some n)
    obtain t where "take (length s - n) s = trimRightSpace (take (length s - n) s) @ t" using 1 [OF Some] by blast
    then have "s = trimRightSpace (take (length s - n) s) @ t @ drop (length s - n) s" by (metis append_assoc append_take_drop_id)
    moreover have "trimRightSpace s = trimRightSpace (take (length s - n) s)" using Some by (subst trimRightSpace.simps) simp
    ultimately show ?thesis by metis
  qed
qed

lemma trimmed_trimSpace [simp]: "trimmed (trimSpace s)"
proof -
  obtain t where "trimLeftSpace s = trimSpace s @ t" unfolding trimSpace_def using trimRightSpace_prefix by blast
  then have "strip_space space_seqs (byte_codes (trimSpace s) @ byte_codes t) = None"
    using trimLeftSpace_stops [of s] by (simp add: byte_codes_def)
  then show ?thesis using strip_space_prefix trimRightSpace_stops by (auto simp: trimmed_def trimSpace_def)
qed

lemma trimSpace_trimmed: "trimmed s \<Longrightarrow> trimSpace s = s"
  by (simp add: trimmed_def trimSpace_def trimLeftSpace.simps [of s] trimRightSpace.simps [of s])

lemma trimSpace_idem [simp]: "trimSpace (trimSpace s) = trimSpace s"
  by (simp add: trimSpace_trimmed)

lemma trimmed_framed:
  assumes "trimmed s" "s \<noteq> []" and c: "\<And>q. q \<in> set space_seqs \<Longrightarrow> hd q \<noteq> of_char c"
    and d: "\<And>q. q \<in> set space_seqs \<Longrightarrow> of_char d \<notin> set q"
  shows "trimmed (c # p @ d # s)"
proof -
  have "\<not> (\<exists>t. byte_codes (c # p @ d # s) = q @ t)" if "q \<in> set space_seqs" "q \<noteq> []" for q
    using c [OF that(1)] that(2) by (auto simp: byte_codes_def Cons_eq_append_conv)
  moreover have "\<not> (\<exists>t. byte_codes (rev (c # p @ d # s)) = rev q @ t)" if q: "q \<in> set space_seqs" "q \<noteq> []" for q
  proof
    assume "\<exists>t. byte_codes (rev (c # p @ d # s)) = rev q @ t"
    then obtain t where t: "byte_codes (rev s) @ of_char d # byte_codes (rev p @ [c]) = rev q @ t" by (auto simp: byte_codes_def)
    have "strip_space (map rev space_seqs) (byte_codes (rev s)) = None" using assms(1) by (simp add: trimmed_def)
    then have "\<not> (\<exists>u. byte_codes (rev s) = rev q @ u)" using q by (auto simp: strip_space_None take_eq_prefix)
    then have "\<exists>u. byte_codes (rev s) @ of_char d # u = rev q" using t by (auto simp: append_eq_append_conv2 Cons_eq_append_conv)
    then obtain u where "rev q = byte_codes (rev s) @ of_char d # u" by metis
    then have "of_char d \<in> set (rev q)" by simp
    then show False using d [OF q(1)] by simp
  qed
  ultimately show ?thesis by (auto simp: trimmed_def strip_space_None take_eq_prefix)
qed

lemma splitOn_unfold: "c \<notin> set p \<Longrightarrow> splitOn c (p @ c # s) = p # splitOn c s"
  by (induction p) auto

lemma splitOn_none: "c \<notin> set p \<Longrightarrow> splitOn c p = [p]"
  by (induction p) auto

lemma splitOn_not_Nil [simp]: "splitOn c s \<noteq> []"
  by (induction c s rule: splitOn.induct) (auto split: list.splits)

lemma splitOn_pieces: "p \<in> set (splitOn c s) \<Longrightarrow> c \<notin> set p"
  by (induction c s arbitrary: p rule: splitOn.induct) (auto split: if_splits list.splits)

lemma strip_space_Some: "strip_space qs s = Some n \<Longrightarrow> \<exists>q \<in> set qs. length q = n \<and> take n s = q"
  by (induction qs s rule: strip_space.induct) (auto split: if_splits)

lemma trimLeftSpace_keeps: "c \<in> set s \<Longrightarrow> \<forall>q \<in> set space_seqs. of_char c \<notin> set q \<Longrightarrow> c \<in> set (trimLeftSpace s)"
proof (induction s rule: trimLeftSpace.induct)
  case (1 s)
  show ?case
  proof (cases "strip_space space_seqs (byte_codes s)")
    case None
    then show ?thesis using 1 by (simp add: trimLeftSpace.simps [of s])
  next
    case (Some n)
    obtain q where "q \<in> set space_seqs" "take n (byte_codes s) = q" using strip_space_Some [OF Some] by blast
    then have "of_char c \<notin> set (byte_codes (take n s))" using 1 by (auto simp: byte_codes_def take_map)
    then have "c \<notin> set (take n s)" by (auto simp: byte_codes_def)
    then have "c \<in> set (drop n s)" using 1(2) by (metis Un_iff append_take_drop_id set_append)
    then show ?thesis using 1(1) [OF Some] 1(3) Some by (simp add: trimLeftSpace.simps [of s])
  qed
qed

lemma trimRightSpace_keeps: "c \<in> set s \<Longrightarrow> \<forall>q \<in> set space_seqs. of_char c \<notin> set q \<Longrightarrow> c \<in> set (trimRightSpace s)"
proof (induction s rule: trimRightSpace.induct)
  case (1 s)
  show ?case
  proof (cases "strip_space (map rev space_seqs) (byte_codes (rev s))")
    case None
    then show ?thesis using 1 by (simp add: trimRightSpace.simps [of s])
  next
    case (Some n)
    obtain q where "q \<in> set space_seqs" "take n (byte_codes (rev s)) = rev q" using strip_space_Some [OF Some] by auto
    then have "of_char c \<notin> set (byte_codes (take n (rev s)))" using 1 by (metis byte_codes_def set_rev take_map)
    then have "c \<notin> set (drop (length s - n) s)" by (auto simp: byte_codes_def take_rev)
    then have "c \<in> set (take (length s - n) s)" using 1(2) by (metis Un_iff append_take_drop_id set_append)
    then show ?thesis using 1(1) [OF Some] 1(3) Some by (simp add: trimRightSpace.simps [of s])
  qed
qed

lemma trimSpace_keeps: "c \<in> set s \<Longrightarrow> \<forall>q \<in> set space_seqs. of_char c \<notin> set q \<Longrightarrow> c \<in> set (trimSpace s)"
  by (simp add: trimSpace_def trimLeftSpace_keeps trimRightSpace_keeps)

end
