(* ===== verification/Input_Catalog.thy ===== *)
theory Input_Catalog
  imports Computer_Version Go_Strings
begin

text \<open>
  The immutable inputs of a computer version (\<^verbatim>\<open>src/internal/computerversion/input_resolver.go\<close>): code closures, artifact
  programs with their hash chain, content-addressed locations, the verifier of local artifacts and the SQL catalog.
  The packages outside the repository are the fields of \<open>golib\<close>: SHA-256 in hexadecimal, the text of a JSON string
  and of a time stamp, JSON validity and compaction, parsing of a UUID, the name-based UUID of the URL name space and
  \<^verbatim>\<open>url.Parse\<close>. Instants count from Go's zero time; strings that are JSON-encoded are valid UTF-8, so encoding and
  decoding a declaration gives it back and a column of JSON holds the value it encodes. Lower-casing is modelled on
  ASCII: no other letter has a hexadecimal digit as its lower case, so the hash checks see no difference.
\<close>

subsection \<open>Library calls\<close>

record URL =
  url_Scheme :: string
  url_User :: bool
  url_Host :: string
  url_Path :: string
  url_RawQuery :: string
  url_Fragment :: string

record golib =
  sha_hex :: "string \<Rightarrow> string"
  json_string :: "string \<Rightarrow> string"
  json_time :: "gotime \<Rightarrow> string option"
  json_valid :: "string \<Rightarrow> bool"
  json_compact :: "string \<Rightarrow> string"
  uuid_parses :: "string \<Rightarrow> bool"
  uuid_sha1 :: "string \<Rightarrow> string"
  url_parse :: "string \<Rightarrow> URL option"

definition isHexDigit :: "char \<Rightarrow> bool" where
  "isHexDigit c \<longleftrightarrow> isLowerHex c \<or> (CHR ''A'' \<le> c \<and> c \<le> CHR ''F'')"

definition toLower :: "string \<Rightarrow> string" where
  "toLower s = map (\<lambda>c. if CHR ''A'' \<le> c \<and> c \<le> CHR ''Z'' then char_of (of_char c + 32 :: nat) else c) s"

fun joinWith :: "string \<Rightarrow> string list \<Rightarrow> string" where
  "joinWith sep [] = []"
| "joinWith sep [x] = x"
| "joinWith sep (x # xs) = x @ sep @ joinWith sep xs"

text \<open>\<^verbatim>\<open>filepath.Clean\<close> on Unix.\<close>

fun clean_segments :: "bool \<Rightarrow> string list \<Rightarrow> string list \<Rightarrow> string list" where
  "clean_segments rooted out [] = rev out"
| "clean_segments rooted out (p # ps) =
     (if p = [] \<or> p = ''.'' then clean_segments rooted out ps
      else if p = ''..'' then
        (case out of
           q # qs \<Rightarrow> if q \<noteq> ''..'' then clean_segments rooted qs ps else clean_segments rooted (p # out) ps
         | [] \<Rightarrow> if rooted then clean_segments rooted [] ps else clean_segments rooted [p] ps)
      else clean_segments rooted (p # out) ps)"

definition isAbs :: "string \<Rightarrow> bool" where
  "isAbs p \<longleftrightarrow> hasPrefix p ''/''"

definition filepathClean :: "string \<Rightarrow> string" where
  "filepathClean p =
     (let body = joinWith ''/'' (clean_segments (isAbs p) [] (splitOn (CHR ''/'') p)) in
      if isAbs p then CHR ''/'' # body else if body = [] then ''.'' else body)"

text \<open>\<^verbatim>\<open>filepath.Join\<close> of two elements.\<close>

definition filepathJoin :: "string \<Rightarrow> string \<Rightarrow> string" where
  "filepathJoin a b = (if a = [] then (if b = [] then [] else filepathClean b) else filepathClean (a @ ''/'' @ b))"

subsection \<open>Declarations\<close>

datatype input_error = CreationTimeRequired | IncompleteClosure | InvalidArtifact string | EncodeFailed | InvalidEntry nat | EntriesRequired
  | CodeRefRequired | ClosureHashMismatch | IncompleteProgram | EntryHashMismatch nat | ProgramHashMismatch
  | URINotBound | ArtifactRootRequired | URIEscapes | NilURL | OpenFailed | NotRegular | ContentHashMismatch | ContextDone
  | DatabaseRequired | VerifierRequired | ErrInputNotFound | QueryFailed | InsertFailed | RefMismatch | RefCollision | RefInvalid | VersionRequired

record CodeArtifact =
  ca_Name :: string
  ca_SHA256 :: string
  ca_URI :: string

record CodeClosure =
  cc_Ref :: CodeRef
  cc_SourceCommit :: string
  cc_Artifacts :: "CodeArtifact list"
  cc_CreatedAt :: gotime

record ArtifactProgramEntry =
  ap_Sequence :: uint64
  ap_Kind :: string
  ap_ContentSHA256 :: string
  ap_ArtifactURI :: string
  ap_PreviousEntryHash :: string
  ap_EntryHash :: string

record ArtifactProgram =
  pg_Ref :: ArtifactProgramRef
  pg_Entries :: "ArtifactProgramEntry list"
  pg_CreatedAt :: gotime

definition validHex :: "string \<Rightarrow> bool" where
  "validHex v \<longleftrightarrow> even (length v) \<and> list_all isHexDigit v"

definition validSHA256 :: "string \<Rightarrow> bool" where
  "validSHA256 v \<longleftrightarrow> length v = 64 \<and> validHex v"

definition validSourceCommit :: "string \<Rightarrow> bool" where
  "validSourceCommit v \<longleftrightarrow> (let v = trimSpace v in (length v = 40 \<or> length v = 64) \<and> validHex v)"

definition validContentAddressedURI :: "golib \<Rightarrow> string \<Rightarrow> string \<Rightarrow> bool" where
  "validContentAddressedURI lib raw digest =
     (case url_parse lib (trimSpace raw) of
        None \<Rightarrow> False
      | Some u \<Rightarrow>
          if url_User u \<or> url_RawQuery u \<noteq> [] \<or> url_Fragment u \<noteq> [] then False
          else if url_Scheme u \<noteq> ''artifact+sha256'' \<and> url_Scheme u \<noteq> ''nix-store+sha256'' then False
          else if toLower (url_Host u) \<noteq> toLower (trimSpace digest) \<or> \<not> validSHA256 (toLower (url_Host u)) then False
          else if url_Path u = [] \<or> url_Path u = ''/'' \<or> \<not> isAbs (url_Path u) then False
          else url_Scheme u \<noteq> ''nix-store+sha256'' \<or> hasPrefix (filepathClean (url_Path u)) ''/nix/store/'')"

fun check_artifacts :: "golib \<Rightarrow> string \<Rightarrow> CodeArtifact list \<Rightarrow> input_error option" where
  "check_artifacts lib prev [] = None"
| "check_artifacts lib prev (a # as) =
     (if ca_Name a = [] \<or> ca_Name a \<le> prev \<or> \<not> validSHA256 (toLower (ca_SHA256 a)) \<or> \<not> validContentAddressedURI lib (ca_URI a) (ca_SHA256 a)
      then Some (InvalidArtifact (ca_Name a))
      else check_artifacts lib (ca_Name a) as)"

definition validateCodeClosurePayload :: "golib \<Rightarrow> CodeClosure \<Rightarrow> input_error option" where
  "validateCodeClosurePayload lib c =
     (if \<not> validSourceCommit (cc_SourceCommit c) \<or> cc_CreatedAt c = 0 \<or> cc_Artifacts c = [] then Some IncompleteClosure
      else check_artifacts lib [] (cc_Artifacts c))"

definition json_artifact :: "golib \<Rightarrow> CodeArtifact \<Rightarrow> string" where
  "json_artifact lib a = ''{\"name\":'' @ json_string lib (ca_Name a) @ '',\"sha256\":'' @ json_string lib (ca_SHA256 a)
     @ '',\"uri\":'' @ json_string lib (ca_URI a) @ ''}''"

definition codeClosurePayloadJSON :: "golib \<Rightarrow> CodeClosure \<Rightarrow> string option" where
  "codeClosurePayloadJSON lib c =
     map_option (\<lambda>t. ''{\"source_commit\":'' @ json_string lib (cc_SourceCommit c) @ '',\"artifacts\":['' @ joinWith '','' (map (json_artifact lib) (cc_Artifacts c))
       @ ''],\"created_at\":'' @ t @ ''}'') (json_time lib (cc_CreatedAt c))"

definition json_entry_head :: "golib \<Rightarrow> ArtifactProgramEntry \<Rightarrow> string" where
  "json_entry_head lib e = ''{\"sequence\":'' @ digits (unat (ap_Sequence e)) @ '',\"kind\":'' @ json_string lib (ap_Kind e)
     @ '',\"content_sha256\":'' @ json_string lib (ap_ContentSHA256 e) @ '',\"artifact_uri\":'' @ json_string lib (ap_ArtifactURI e)
     @ (if ap_PreviousEntryHash e = [] then [] else '',\"previous_entry_hash\":'' @ json_string lib (ap_PreviousEntryHash e))"

definition json_entry :: "golib \<Rightarrow> ArtifactProgramEntry \<Rightarrow> string" where
  "json_entry lib e = json_entry_head lib e @ '',\"entry_hash\":'' @ json_string lib (ap_EntryHash e) @ ''}''"

definition artifactProgramEntryHash :: "golib \<Rightarrow> ArtifactProgramEntry \<Rightarrow> string" where
  "artifactProgramEntryHash lib e = sha_hex lib (json_entry_head lib e @ ''}'')"

definition artifactProgramPayloadJSON :: "golib \<Rightarrow> ArtifactProgram \<Rightarrow> string option" where
  "artifactProgramPayloadJSON lib p =
     map_option (\<lambda>t. ''{\"entries\":['' @ joinWith '','' (map (json_entry lib) (pg_Entries p)) @ ''],\"created_at\":'' @ t @ ''}'')
       (json_time lib (pg_CreatedAt p))"

definition trim_artifact :: "CodeArtifact \<Rightarrow> CodeArtifact" where
  "trim_artifact a = \<lparr>ca_Name = trimSpace (ca_Name a), ca_SHA256 = toLower (trimSpace (ca_SHA256 a)), ca_URI = trimSpace (ca_URI a)\<rparr>"

definition NewCodeClosure :: "golib \<Rightarrow> string \<Rightarrow> CodeArtifact list \<Rightarrow> gotime \<Rightarrow> input_error + CodeClosure" where
  "NewCodeClosure lib sourceCommit artifacts createdAt =
     (if createdAt = 0 then Inl CreationTimeRequired
      else let c = \<lparr>cc_Ref = [], cc_SourceCommit = toLower (trimSpace sourceCommit),
                    cc_Artifacts = go_sort ca_Name (map trim_artifact artifacts), cc_CreatedAt = createdAt\<rparr> in
        case validateCodeClosurePayload lib c of Some e \<Rightarrow> Inl e
        | None \<Rightarrow> (case codeClosurePayloadJSON lib c of None \<Rightarrow> Inl EncodeFailed
            | Some p \<Rightarrow> Inr (c\<lparr>cc_Ref := ''code:sha256:'' @ sha_hex lib p\<rparr>)))"

fun build_entries :: "golib \<Rightarrow> nat \<Rightarrow> string \<Rightarrow> ArtifactProgramEntry list \<Rightarrow> input_error + ArtifactProgramEntry list" where
  "build_entries lib i previous [] = Inr []"
| "build_entries lib i previous (e # es) =
     (let e = e\<lparr>ap_Sequence := of_nat (i + 1), ap_Kind := trimSpace (ap_Kind e), ap_ContentSHA256 := toLower (trimSpace (ap_ContentSHA256 e)),
                ap_ArtifactURI := trimSpace (ap_ArtifactURI e), ap_PreviousEntryHash := previous\<rparr> in
      if ap_Kind e = [] \<or> \<not> validSHA256 (ap_ContentSHA256 e) \<or> \<not> validContentAddressedURI lib (ap_ArtifactURI e) (ap_ContentSHA256 e)
      then Inl (InvalidEntry (i + 1))
      else let hash = artifactProgramEntryHash lib e in
        case build_entries lib (i + 1) hash es of Inl err \<Rightarrow> Inl err | Inr rest \<Rightarrow> Inr (e\<lparr>ap_EntryHash := hash\<rparr> # rest))"

definition NewArtifactProgram :: "golib \<Rightarrow> ArtifactProgramEntry list \<Rightarrow> gotime \<Rightarrow> input_error + ArtifactProgram" where
  "NewArtifactProgram lib entries createdAt =
     (if createdAt = 0 then Inl CreationTimeRequired
      else case build_entries lib 0 [] entries of Inl e \<Rightarrow> Inl e
      | Inr es \<Rightarrow>
        if es = [] then Inl EntriesRequired
        else let p = \<lparr>pg_Ref = [], pg_Entries = es, pg_CreatedAt = createdAt\<rparr> in
          case artifactProgramPayloadJSON lib p of None \<Rightarrow> Inl EncodeFailed
          | Some j \<Rightarrow> Inr (p\<lparr>pg_Ref := ''artifact-program:sha256:'' @ sha_hex lib j\<rparr>))"

definition CodeClosure_Verify :: "golib \<Rightarrow> CodeClosure \<Rightarrow> input_error option" where
  "CodeClosure_Verify lib c =
     (if \<not> ref_Valid (cc_Ref c) then Some CodeRefRequired
      else case validateCodeClosurePayload lib c of Some e \<Rightarrow> Some e
      | None \<Rightarrow> (case codeClosurePayloadJSON lib c of None \<Rightarrow> Some EncodeFailed
          | Some p \<Rightarrow> if cc_Ref c \<noteq> ''code:sha256:'' @ sha_hex lib p then Some ClosureHashMismatch else None))"

fun verify_entries :: "golib \<Rightarrow> nat \<Rightarrow> string \<Rightarrow> ArtifactProgramEntry list \<Rightarrow> input_error option" where
  "verify_entries lib i previous [] = None"
| "verify_entries lib i previous (e # es) =
     (if ap_Sequence e \<noteq> of_nat (i + 1) \<or> ap_PreviousEntryHash e \<noteq> previous \<or> ap_Kind e = [] \<or> \<not> validSHA256 (ap_ContentSHA256 e)
         \<or> \<not> validContentAddressedURI lib (ap_ArtifactURI e) (ap_ContentSHA256 e)
      then Some (InvalidEntry (i + 1))
      else if ap_EntryHash e \<noteq> artifactProgramEntryHash lib e then Some (EntryHashMismatch (i + 1))
      else verify_entries lib (i + 1) (ap_EntryHash e) es)"

definition ArtifactProgram_Verify :: "golib \<Rightarrow> ArtifactProgram \<Rightarrow> input_error option" where
  "ArtifactProgram_Verify lib p =
     (if \<not> ref_Valid (pg_Ref p) \<or> pg_Entries p = [] \<or> pg_CreatedAt p = 0 then Some IncompleteProgram
      else case verify_entries lib 0 [] (pg_Entries p) of Some e \<Rightarrow> Some e
      | None \<Rightarrow> (case artifactProgramPayloadJSON lib p of None \<Rightarrow> Some EncodeFailed
          | Some j \<Rightarrow> if pg_Ref p \<noteq> ''artifact-program:sha256:'' @ sha_hex lib j then Some ProgramHashMismatch else None))"

subsection \<open>The verifier of local artifacts\<close>

record local_file =
  lf_regular :: bool
  lf_data :: string

text \<open>The file system answers a path with a file or a failure to open it. \<open>NilURL\<close> is the nil dereference that follows a
  failed \<^verbatim>\<open>url.Parse\<close> whose error is dropped.\<close>

definition NewLocalArtifactContentVerifier :: "string \<Rightarrow> string" where
  "NewLocalArtifactContentVerifier root = filepathClean (trimSpace root)"

definition localArtifactPath :: "golib \<Rightarrow> string \<Rightarrow> string \<Rightarrow> string \<Rightarrow> input_error + string" where
  "localArtifactPath lib artifactRoot rawURI digest =
     (if \<not> validContentAddressedURI lib rawURI digest then Inl URINotBound
      else case url_parse lib rawURI of None \<Rightarrow> Inl NilURL
      | Some u \<Rightarrow>
        let artifactPath = filepathClean (url_Path u) in
        if url_Scheme u \<noteq> ''artifact+sha256'' then Inr artifactPath
        else if artifactRoot = [] \<or> artifactRoot = ''.'' then Inl ArtifactRootRequired
        else let artifactPath = filepathJoin artifactRoot (trimPrefix artifactPath ''/'') in
          if artifactPath \<noteq> artifactRoot \<and> \<not> hasPrefix artifactPath (artifactRoot @ ''/'') then Inl URIEscapes
          else Inr artifactPath)"

definition VerifyArtifact :: "golib \<Rightarrow> (string \<Rightarrow> local_file option) \<Rightarrow> bool \<Rightarrow> string \<Rightarrow> string \<Rightarrow> string \<Rightarrow> input_error option" where
  "VerifyArtifact lib fs canceled artifactRoot rawURI digest =
     (if canceled then Some ContextDone
      else case localArtifactPath lib artifactRoot rawURI digest of Inl e \<Rightarrow> Some e
      | Inr p \<Rightarrow> (case fs p of None \<Rightarrow> Some OpenFailed
         | Some f \<Rightarrow> if \<not> lf_regular f then Some NotRegular
             else if toLower (sha_hex lib (lf_data f)) \<noteq> toLower digest then Some ContentHashMismatch else None))"

definition OpenSeekableArtifact :: "golib \<Rightarrow> (string \<Rightarrow> local_file option) \<Rightarrow> bool \<Rightarrow> string \<Rightarrow> string \<Rightarrow> string \<Rightarrow> input_error + string" where
  "OpenSeekableArtifact lib fs canceled artifactRoot rawURI digest =
     (if canceled then Inl ContextDone
      else case localArtifactPath lib artifactRoot rawURI digest of Inl e \<Rightarrow> Inl e
      | Inr p \<Rightarrow> (case fs p of None \<Rightarrow> Inl OpenFailed
         | Some f \<Rightarrow> if \<not> lf_regular f then Inl NotRegular
             else if toLower (sha_hex lib (lf_data f)) \<noteq> toLower digest then Inl ContentHashMismatch else Inr (lf_data f)))"

definition ReadArtifact :: "golib \<Rightarrow> (string \<Rightarrow> local_file option) \<Rightarrow> bool \<Rightarrow> string \<Rightarrow> string \<Rightarrow> string \<Rightarrow> input_error + string" where
  "ReadArtifact lib fs canceled artifactRoot rawURI digest =
     (if canceled then Inl ContextDone
      else case localArtifactPath lib artifactRoot rawURI digest of Inl e \<Rightarrow> Inl e
      | Inr p \<Rightarrow> (case fs p of None \<Rightarrow> Inl OpenFailed
         | Some f \<Rightarrow> if toLower (sha_hex lib (lf_data f)) \<noteq> toLower digest then Inl ContentHashMismatch else Inr (lf_data f)))"

subsection \<open>The SQL catalog\<close>

record input_tables =
  it_code :: "string \<rightharpoonup> CodeClosure"
  it_program :: "string \<rightharpoonup> ArtifactProgram"

definition EnsureSchema_inputs :: input_tables where
  "EnsureSchema_inputs = \<lparr>it_code = Map.empty, it_program = Map.empty\<rparr>"

datatype input_stmt = ReadCode | ReadProgram | InsertCode | InsertProgram

definition resolveCodeSQL :: "golib \<Rightarrow> (input_stmt \<Rightarrow> bool) \<Rightarrow> input_tables \<Rightarrow> CodeRef \<Rightarrow> input_error + CodeClosure" where
  "resolveCodeSQL lib ok t ref =
     (if \<not> ref_Valid ref then Inl RefInvalid
      else if \<not> ok ReadCode then Inl QueryFailed
      else case it_code t ref of None \<Rightarrow> Inl ErrInputNotFound
      | Some c \<Rightarrow> if cc_Ref c \<noteq> ref then Inl RefMismatch
          else (case CodeClosure_Verify lib c of Some e \<Rightarrow> Inl e | None \<Rightarrow> Inr c))"

definition resolveArtifactProgramSQL :: "golib \<Rightarrow> (input_stmt \<Rightarrow> bool) \<Rightarrow> input_tables \<Rightarrow> ArtifactProgramRef \<Rightarrow> input_error + ArtifactProgram" where
  "resolveArtifactProgramSQL lib ok t ref =
     (if \<not> ref_Valid ref then Inl RefInvalid
      else if \<not> ok ReadProgram then Inl QueryFailed
      else case it_program t ref of None \<Rightarrow> Inl ErrInputNotFound
      | Some p \<Rightarrow> if pg_Ref p \<noteq> ref then Inl RefMismatch
          else (case ArtifactProgram_Verify lib p of Some e \<Rightarrow> Inl e | None \<Rightarrow> Inr p))"

definition VerifySQLInputsInTransition :: "golib \<Rightarrow> (input_stmt \<Rightarrow> bool) \<Rightarrow> input_tables \<Rightarrow> ComputerVersion \<Rightarrow> input_error option" where
  "VerifySQLInputsInTransition lib ok t v =
     (if \<not> ComputerVersion_Valid v then Some VersionRequired
      else case resolveCodeSQL lib ok t (cv_CodeRef v) of Inl e \<Rightarrow> Some e
      | Inr _ \<Rightarrow> (case resolveArtifactProgramSQL lib ok t (cv_ArtifactProgramRef v) of Inl e \<Rightarrow> Some e | Inr _ \<Rightarrow> None))"

definition first_failure :: "('a \<Rightarrow> 'e option) \<Rightarrow> 'a list \<Rightarrow> 'e option" where
  "first_failure f xs = (case List.find (\<lambda>x. f x \<noteq> None) xs of None \<Rightarrow> None | Some x \<Rightarrow> f x)"

text \<open>Pinning: the verifier of the catalog may be missing; \<open>verify\<close> is its check of one location and digest. A row that
  exists already is kept.\<close>

definition PinCode ::
  "golib \<Rightarrow> (input_stmt \<Rightarrow> bool) \<Rightarrow> (string \<Rightarrow> string \<Rightarrow> input_error option) option \<Rightarrow> input_tables \<Rightarrow> CodeClosure \<Rightarrow> (input_error + CodeClosure) \<times> input_tables" where
  "PinCode lib ok verifier t c =
     (case CodeClosure_Verify lib c of Some e \<Rightarrow> (Inl e, t)
      | None \<Rightarrow> (case verifier of None \<Rightarrow> (Inl VerifierRequired, t)
        | Some verify \<Rightarrow> (case first_failure (\<lambda>a. verify (ca_URI a) (ca_SHA256 a)) (cc_Artifacts c) of Some e \<Rightarrow> (Inl e, t)
          | None \<Rightarrow>
            if json_time lib (cc_CreatedAt c) = None then (Inl EncodeFailed, t)
            else if \<not> ok InsertCode then (Inl InsertFailed, t)
            else let t = (if it_code t (cc_Ref c) = None then t\<lparr>it_code := (it_code t)(cc_Ref c \<mapsto> c)\<rparr> else t) in
              (case resolveCodeSQL lib ok t (cc_Ref c) of Inl e \<Rightarrow> (Inl e, t)
               | Inr r \<Rightarrow> if r \<noteq> c then (Inl RefCollision, t) else (Inr r, t)))))"

definition PinArtifactProgram ::
  "golib \<Rightarrow> (input_stmt \<Rightarrow> bool) \<Rightarrow> (string \<Rightarrow> string \<Rightarrow> input_error option) option \<Rightarrow> input_tables \<Rightarrow> ArtifactProgram \<Rightarrow> (input_error + ArtifactProgram) \<times> input_tables" where
  "PinArtifactProgram lib ok verifier t p =
     (case ArtifactProgram_Verify lib p of Some e \<Rightarrow> (Inl e, t)
      | None \<Rightarrow> (case verifier of None \<Rightarrow> (Inl VerifierRequired, t)
        | Some verify \<Rightarrow> (case first_failure (\<lambda>e. verify (ap_ArtifactURI e) (ap_ContentSHA256 e)) (pg_Entries p) of Some e \<Rightarrow> (Inl e, t)
          | None \<Rightarrow>
            if json_time lib (pg_CreatedAt p) = None then (Inl EncodeFailed, t)
            else if \<not> ok InsertProgram then (Inl InsertFailed, t)
            else let t = (if it_program t (pg_Ref p) = None then t\<lparr>it_program := (it_program t)(pg_Ref p \<mapsto> p)\<rparr> else t) in
              (case resolveArtifactProgramSQL lib ok t (pg_Ref p) of Inl e \<Rightarrow> (Inl e, t)
               | Inr r \<Rightarrow> if r \<noteq> p then (Inl RefCollision, t) else (Inr r, t)))))"

subsection \<open>Constructed declarations verify\<close>

lemma tagged_ref_Valid: "CHR '':'' \<in> set r \<Longrightarrow> ref_Valid r"
  using trimSpace_keeps [of "CHR '':''" r] by (force simp: ref_Valid_def space_seqs_def)

lemma entry_hash_irrelevant [simp]: "artifactProgramEntryHash lib (e\<lparr>ap_EntryHash := h\<rparr>) = artifactProgramEntryHash lib e"
  by (simp add: artifactProgramEntryHash_def json_entry_head_def)

lemma build_entries_verify: "build_entries lib i previous es = Inr out \<Longrightarrow> verify_entries lib i previous out = None"
  by (induction lib i previous es arbitrary: out rule: build_entries.induct)
     (auto simp: Let_def split: if_splits sum.splits)

lemma new_closure_verify: "NewCodeClosure lib commit as t = Inr c \<Longrightarrow> CodeClosure_Verify lib c = None"
  by (auto simp: NewCodeClosure_def CodeClosure_Verify_def Let_def tagged_ref_Valid validateCodeClosurePayload_def codeClosurePayloadJSON_def
      split: if_splits option.splits)

lemma new_program_verify: "NewArtifactProgram lib es t = Inr p \<Longrightarrow> ArtifactProgram_Verify lib p = None"
  by (auto simp: NewArtifactProgram_def ArtifactProgram_Verify_def Let_def tagged_ref_Valid build_entries_verify
      artifactProgramPayloadJSON_def split: if_splits option.splits sum.splits)

subsection \<open>References name one declaration\<close>

text \<open>What the references rely on in \<^verbatim>\<open>encoding/json\<close>: a string literal is delimited, so it can be read back from any
  text that starts with it, and different instants have different texts.\<close>

definition json_delimited :: "golib \<Rightarrow> bool" where
  "json_delimited lib \<longleftrightarrow> (\<forall>a b x y. json_string lib a @ x = json_string lib b @ y \<longrightarrow> a = b \<and> x = y)
     \<and> (\<forall>s t u. json_time lib s = Some u \<and> json_time lib t = Some u \<longrightarrow> s = t)"

definition sha_collision :: "golib \<Rightarrow> bool" where
  "sha_collision lib \<longleftrightarrow> (\<exists>x y. x \<noteq> y \<and> sha_hex lib x = sha_hex lib y)"

lemma json_string_cancel: "json_delimited lib \<Longrightarrow> json_string lib a @ x = json_string lib b @ y \<longleftrightarrow> a = b \<and> x = y"
  unfolding json_delimited_def by metis

lemma json_artifact_cancel:
  assumes "json_delimited lib" "json_artifact lib a @ x = json_artifact lib b @ y"
  shows "a = b \<and> x = y"
  using assms(2) by (auto simp: json_artifact_def json_string_cancel [OF assms(1)] intro: CodeArtifact.equality)

lemma json_artifacts_cancel:
  assumes "json_delimited lib"
  shows "joinWith '','' (map (json_artifact lib) as) @ '']'' @ x = joinWith '','' (map (json_artifact lib) bs) @ '']'' @ y \<Longrightarrow> as = bs \<and> x = y"
proof (induction as arbitrary: bs)
  case Nil
  then show ?case by (cases bs; cases "tl bs") (auto simp: json_artifact_def)
next
  case (Cons a as)
  note ih = Cons.IH and eq = Cons.prems
  show ?case
  proof (cases bs)
    case Nil
    then show ?thesis using eq by (cases as) (auto simp: json_artifact_def)
  next
    case (Cons b bs')
    let ?rest = "\<lambda>gs z. (if gs = [] then [] else '','' @ joinWith '','' (map (json_artifact lib) gs)) @ '']'' @ z"
    have "joinWith '','' (map (json_artifact lib) (g # gs)) @ '']'' @ z = json_artifact lib g @ ?rest gs z" for g gs z by (cases gs) simp_all
    then have "json_artifact lib a @ ?rest as x = json_artifact lib b @ ?rest bs' y" using eq Cons by metis
    then have ab: "a = b" "?rest as x = ?rest bs' y" using json_artifact_cancel [OF assms] by blast+
    then have "joinWith '','' (map (json_artifact lib) as) @ '']'' @ x = joinWith '','' (map (json_artifact lib) bs') @ '']'' @ y"
      by (simp split: if_splits)
    then show ?thesis using ih [of bs'] Cons ab(1) by blast
  qed
qed

lemma json_entry_cancel:
  assumes "json_delimited lib" "json_entry lib a @ x = json_entry lib b @ y"
    "ap_Sequence a = ap_Sequence b" "ap_PreviousEntryHash a = ap_PreviousEntryHash b"
  shows "a = b \<and> x = y"
  using assms(2-4) by (auto simp: json_entry_def json_entry_head_def json_string_cancel [OF assms(1)] intro: ArtifactProgramEntry.equality split: if_splits)

lemma json_entries_cancel:
  assumes "json_delimited lib"
  shows "verify_entries lib i prev es = None \<Longrightarrow> verify_entries lib i prev fs = None \<Longrightarrow>
    joinWith '','' (map (json_entry lib) es) @ '']'' @ x = joinWith '','' (map (json_entry lib) fs) @ '']'' @ y \<Longrightarrow> es = fs \<and> x = y"
proof (induction es arbitrary: fs i prev)
  case Nil
  then show ?case by (cases fs; cases "tl fs") (auto simp: json_entry_def json_entry_head_def)
next
  case (Cons a es)
  note ih = Cons.IH and v = Cons.prems(1,2) and eq = Cons.prems(3)
  show ?case
  proof (cases fs)
    case Nil
    then show ?thesis using eq by (cases es) (auto simp: json_entry_def json_entry_head_def)
  next
    case (Cons b fs')
    have same: "ap_Sequence a = ap_Sequence b" "ap_PreviousEntryHash a = ap_PreviousEntryHash b" using v Cons by (auto split: if_splits)
    let ?rest = "\<lambda>gs z. (if gs = [] then [] else '','' @ joinWith '','' (map (json_entry lib) gs)) @ '']'' @ z"
    have "joinWith '','' (map (json_entry lib) (g # gs)) @ '']'' @ z = json_entry lib g @ ?rest gs z" for g gs z by (cases gs) simp_all
    then have "json_entry lib a @ ?rest es x = json_entry lib b @ ?rest fs' y" using eq Cons by metis
    then have ab: "a = b" "?rest es x = ?rest fs' y" using json_entry_cancel [OF assms _ same] by blast+
    then have "joinWith '','' (map (json_entry lib) es) @ '']'' @ x = joinWith '','' (map (json_entry lib) fs') @ '']'' @ y"
      by (simp split: if_splits)
    moreover have "verify_entries lib (i + 1) (ap_EntryHash a) es = None" "verify_entries lib (i + 1) (ap_EntryHash a) fs' = None"
      using v Cons ab(1) by (auto split: if_splits)
    ultimately show ?thesis using ih [of "i + 1" "ap_EntryHash a" fs'] Cons ab(1) by blast
  qed
qed

lemma closure_payload_inj:
  assumes "json_delimited lib" "codeClosurePayloadJSON lib c = Some p" "codeClosurePayloadJSON lib d = Some p"
  shows "cc_SourceCommit c = cc_SourceCommit d \<and> cc_Artifacts c = cc_Artifacts d \<and> cc_CreatedAt c = cc_CreatedAt d"
proof -
  obtain t u where t: "json_time lib (cc_CreatedAt c) = Some t" "json_time lib (cc_CreatedAt d) = Some u"
      and "json_string lib (cc_SourceCommit c) @ '',\"artifacts\":['' @ joinWith '','' (map (json_artifact lib) (cc_Artifacts c)) @ '']'' @ '',\"created_at\":'' @ t @ ''}''
        = json_string lib (cc_SourceCommit d) @ '',\"artifacts\":['' @ joinWith '','' (map (json_artifact lib) (cc_Artifacts d)) @ '']'' @ '',\"created_at\":'' @ u @ ''}''"
    using assms(2,3) by (auto simp: codeClosurePayloadJSON_def)
  then have s: "cc_SourceCommit c = cc_SourceCommit d"
      "joinWith '','' (map (json_artifact lib) (cc_Artifacts c)) @ '']'' @ '',\"created_at\":'' @ t @ ''}''
        = joinWith '','' (map (json_artifact lib) (cc_Artifacts d)) @ '']'' @ '',\"created_at\":'' @ u @ ''}''"
    by (auto simp: json_string_cancel [OF assms(1)])
  then have "cc_Artifacts c = cc_Artifacts d" "t = u" using json_artifacts_cancel [OF assms(1) s(2)] by simp_all
  then show ?thesis using s(1) t assms(1) unfolding json_delimited_def by metis
qed

lemma program_payload_inj:
  assumes "json_delimited lib" "artifactProgramPayloadJSON lib p = Some j" "artifactProgramPayloadJSON lib q = Some j"
    "verify_entries lib 0 [] (pg_Entries p) = None" "verify_entries lib 0 [] (pg_Entries q) = None"
  shows "pg_Entries p = pg_Entries q \<and> pg_CreatedAt p = pg_CreatedAt q"
proof -
  obtain t u where t: "json_time lib (pg_CreatedAt p) = Some t" "json_time lib (pg_CreatedAt q) = Some u"
      and e: "joinWith '','' (map (json_entry lib) (pg_Entries p)) @ '']'' @ '',\"created_at\":'' @ t @ ''}''
        = joinWith '','' (map (json_entry lib) (pg_Entries q)) @ '']'' @ '',\"created_at\":'' @ u @ ''}''"
    using assms(2,3) by (auto simp: artifactProgramPayloadJSON_def)
  have "pg_Entries p = pg_Entries q" "t = u" using json_entries_cancel [OF assms(1,4,5) e] by simp_all
  then show ?thesis using t assms(1) unfolding json_delimited_def by metis
qed

lemma closure_Verify_None:
  "CodeClosure_Verify lib c = None \<longleftrightarrow> ref_Valid (cc_Ref c) \<and> validateCodeClosurePayload lib c = None
     \<and> (\<exists>p. codeClosurePayloadJSON lib c = Some p \<and> cc_Ref c = ''code:sha256:'' @ sha_hex lib p)"
  by (auto simp: CodeClosure_Verify_def split: option.splits)

lemma program_Verify_None:
  "ArtifactProgram_Verify lib p = None \<longleftrightarrow> ref_Valid (pg_Ref p) \<and> pg_Entries p \<noteq> [] \<and> pg_CreatedAt p \<noteq> 0 \<and> verify_entries lib 0 [] (pg_Entries p) = None
     \<and> (\<exists>j. artifactProgramPayloadJSON lib p = Some j \<and> pg_Ref p = ''artifact-program:sha256:'' @ sha_hex lib j)"
  by (auto simp: ArtifactProgram_Verify_def split: option.splits)

lemma closure_ref_unique:
  assumes "json_delimited lib" "CodeClosure_Verify lib c = None" "CodeClosure_Verify lib d = None" "cc_Ref c = cc_Ref d"
  shows "c = d \<or> sha_collision lib"
proof -
  obtain p q where pq: "codeClosurePayloadJSON lib c = Some p" "codeClosurePayloadJSON lib d = Some q" "sha_hex lib p = sha_hex lib q"
    using assms(2-4) unfolding closure_Verify_None by auto
  show ?thesis
  proof (cases "p = q")
    case True
    then show ?thesis using closure_payload_inj [OF assms(1), of c p d] pq assms(4) by (auto intro: CodeClosure.equality)
  next
    case False
    then show ?thesis using pq(3) unfolding sha_collision_def by blast
  qed
qed

lemma program_ref_unique:
  assumes "json_delimited lib" "ArtifactProgram_Verify lib p = None" "ArtifactProgram_Verify lib q = None" "pg_Ref p = pg_Ref q"
  shows "p = q \<or> sha_collision lib"
proof -
  obtain i j where ij: "artifactProgramPayloadJSON lib p = Some i" "artifactProgramPayloadJSON lib q = Some j" "sha_hex lib i = sha_hex lib j"
    using assms(2-4) unfolding program_Verify_None by auto
  show ?thesis
  proof (cases "i = j")
    case True
    then show ?thesis using program_payload_inj [OF assms(1), of p i q] ij assms(2-4) unfolding program_Verify_None
      by (auto intro: ArtifactProgram.equality)
  next
    case False
    then show ?thesis using ij(3) unfolding sha_collision_def by blast
  qed
qed

subsection \<open>Pinned declarations stay\<close>

type_synonym artifact_check = "string \<Rightarrow> string \<Rightarrow> input_error option"

inductive pin_step :: "golib \<Rightarrow> artifact_check option \<Rightarrow> input_tables \<Rightarrow> input_tables \<Rightarrow> bool" for lib verifier where
  pin_code: "PinCode lib ok verifier t c = (res, t') \<Longrightarrow> pin_step lib verifier t t'"
| pin_program: "PinArtifactProgram lib ok verifier t p = (res', t') \<Longrightarrow> pin_step lib verifier t t'"

definition closure_checked :: "golib \<Rightarrow> artifact_check option \<Rightarrow> CodeClosure \<Rightarrow> bool" where
  "closure_checked lib verifier c \<longleftrightarrow> CodeClosure_Verify lib c = None
     \<and> (\<exists>v. verifier = Some v \<and> (\<forall>a \<in> set (cc_Artifacts c). v (ca_URI a) (ca_SHA256 a) = None))"

definition program_checked :: "golib \<Rightarrow> artifact_check option \<Rightarrow> ArtifactProgram \<Rightarrow> bool" where
  "program_checked lib verifier p \<longleftrightarrow> ArtifactProgram_Verify lib p = None
     \<and> (\<exists>v. verifier = Some v \<and> (\<forall>e \<in> set (pg_Entries p). v (ap_ArtifactURI e) (ap_ContentSHA256 e) = None))"

definition inputs_sound :: "golib \<Rightarrow> artifact_check option \<Rightarrow> input_tables \<Rightarrow> bool" where
  "inputs_sound lib verifier t \<longleftrightarrow> (\<forall>r c. it_code t r = Some c \<longrightarrow> cc_Ref c = r \<and> closure_checked lib verifier c)
     \<and> (\<forall>r p. it_program t r = Some p \<longrightarrow> pg_Ref p = r \<and> program_checked lib verifier p)"

definition inputs_extend :: "input_tables \<Rightarrow> input_tables \<Rightarrow> bool" where
  "inputs_extend t t' \<longleftrightarrow> it_code t \<subseteq>\<^sub>m it_code t' \<and> it_program t \<subseteq>\<^sub>m it_program t'"

lemma first_failure_None: "first_failure f xs = None \<longleftrightarrow> (\<forall>x \<in> set xs. f x = None)"
  by (auto simp: first_failure_def find_None_iff find_Some_iff split: option.splits)

lemma PinCode_tables:
  assumes "PinCode lib ok verifier t c = (res, t')"
  shows "t' = t \<or> it_code t (cc_Ref c) = None \<and> t' = t\<lparr>it_code := (it_code t)(cc_Ref c \<mapsto> c)\<rparr> \<and> closure_checked lib verifier c"
  using assms by (auto simp: PinCode_def closure_checked_def Let_def first_failure_None split: option.splits sum.splits if_splits)

lemma PinArtifactProgram_tables:
  assumes "PinArtifactProgram lib ok verifier t p = (res, t')"
  shows "t' = t \<or> it_program t (pg_Ref p) = None \<and> t' = t\<lparr>it_program := (it_program t)(pg_Ref p \<mapsto> p)\<rparr> \<and> program_checked lib verifier p"
  using assms by (auto simp: PinArtifactProgram_def program_checked_def Let_def first_failure_None split: option.splits sum.splits if_splits)

lemma insert_sound:
  "it_code t (cc_Ref c) = None \<Longrightarrow> inputs_extend t (t\<lparr>it_code := (it_code t)(cc_Ref c \<mapsto> c)\<rparr>)"
  "inputs_sound lib verifier t \<Longrightarrow> closure_checked lib verifier c \<Longrightarrow> inputs_sound lib verifier (t\<lparr>it_code := (it_code t)(cc_Ref c \<mapsto> c)\<rparr>)"
  "it_program t (pg_Ref p) = None \<Longrightarrow> inputs_extend t (t\<lparr>it_program := (it_program t)(pg_Ref p \<mapsto> p)\<rparr>)"
  "inputs_sound lib verifier t \<Longrightarrow> program_checked lib verifier p \<Longrightarrow> inputs_sound lib verifier (t\<lparr>it_program := (it_program t)(pg_Ref p \<mapsto> p)\<rparr>)"
  by (auto simp: inputs_extend_def inputs_sound_def map_le_def)

lemma pin_step_sound:
  assumes "pin_step lib verifier t t'"
  shows "inputs_extend t t' \<and> (inputs_sound lib verifier t \<longrightarrow> inputs_sound lib verifier t')"
  using assms
proof cases
  case (pin_code ok c res)
  from PinCode_tables [OF this] show ?thesis
  proof (elim disjE conjE)
    assume "t' = t" then show ?thesis by (simp add: inputs_extend_def)
  next
    assume n: "it_code t (cc_Ref c) = None" and t': "t' = t\<lparr>it_code := (it_code t)(cc_Ref c \<mapsto> c)\<rparr>" and k: "closure_checked lib verifier c"
    show ?thesis unfolding t' using insert_sound(1) [OF n] insert_sound(2) [OF _ k] by blast
  qed
next
  case (pin_program ok p res)
  from PinArtifactProgram_tables [OF this] show ?thesis
  proof (elim disjE conjE)
    assume "t' = t" then show ?thesis by (simp add: inputs_extend_def)
  next
    assume n: "it_program t (pg_Ref p) = None" and t': "t' = t\<lparr>it_program := (it_program t)(pg_Ref p \<mapsto> p)\<rparr>" and k: "program_checked lib verifier p"
    show ?thesis unfolding t' using insert_sound(3) [OF n] insert_sound(4) [OF _ k] by blast
  qed
qed

lemma inputs_extend_trans: "inputs_extend t u \<Longrightarrow> inputs_extend u v \<Longrightarrow> inputs_extend t v"
  by (auto simp: inputs_extend_def elim: map_le_trans)

lemma pins_sound: "(pin_step lib verifier)\<^sup>*\<^sup>* t t' \<Longrightarrow> inputs_extend t t' \<and> (inputs_sound lib verifier t \<longrightarrow> inputs_sound lib verifier t')"
proof (induction rule: rtranclp_induct)
  case base
  then show ?case by (simp add: inputs_extend_def)
next
  case (step u v)
  from pin_step_sound [OF step(2)] step.IH show ?case by (blast intro: inputs_extend_trans)
qed

lemma inputs_sound_empty [simp]: "inputs_sound lib verifier EnsureSchema_inputs"
  by (simp add: inputs_sound_def EnsureSchema_inputs_def)

lemma sound_resolves:
  assumes "inputs_sound lib verifier t" "it_code t (cc_Ref c) = Some c" "ok ReadCode"
  shows "resolveCodeSQL lib ok t (cc_Ref c) = Inr c"
proof -
  have "CodeClosure_Verify lib c = None" using assms(1,2) unfolding inputs_sound_def closure_checked_def by blast
  moreover then have "ref_Valid (cc_Ref c)" by (simp add: closure_Verify_None)
  ultimately show ?thesis using assms(2,3) by (simp add: resolveCodeSQL_def)
qed

lemma sound_resolves_program:
  assumes "inputs_sound lib verifier t" "it_program t (pg_Ref p) = Some p" "ok ReadProgram"
  shows "resolveArtifactProgramSQL lib ok t (pg_Ref p) = Inr p"
proof -
  have "ArtifactProgram_Verify lib p = None" using assms(1,2) unfolding inputs_sound_def program_checked_def by blast
  moreover then have "ref_Valid (pg_Ref p)" by (simp add: program_Verify_None)
  ultimately show ?thesis using assms(2,3) by (simp add: resolveArtifactProgramSQL_def)
qed

lemma PinCode_Inr: "PinCode lib ok verifier t c = (Inr r, t') \<Longrightarrow> r = c \<and> it_code t' (cc_Ref c) = Some c"
  by (auto simp: PinCode_def resolveCodeSQL_def Let_def split: option.splits sum.splits if_splits)

lemma PinArtifactProgram_Inr: "PinArtifactProgram lib ok verifier t p = (Inr r, t') \<Longrightarrow> r = p \<and> it_program t' (pg_Ref p) = Some p"
  by (auto simp: PinArtifactProgram_def resolveArtifactProgramSQL_def Let_def split: option.splits sum.splits if_splits)

text \<open>References are content addresses. Two declarations that verify under the same reference are the same
  declaration, down to every artifact, entry and time stamp, unless SHA-256 collides.\<close>

theorem input_refs_name_content:
  assumes "json_delimited lib"
  shows "(CodeClosure_Verify lib c = None \<and> CodeClosure_Verify lib d = None \<and> cc_Ref c = cc_Ref d \<longrightarrow> c = d \<or> sha_collision lib)
    \<and> (ArtifactProgram_Verify lib p = None \<and> ArtifactProgram_Verify lib q = None \<and> pg_Ref p = pg_Ref q \<longrightarrow> p = q \<or> sha_collision lib)"
  using closure_ref_unique [OF assms, of c d] program_ref_unique [OF assms, of p q] by blast

text \<open>C19: a pinned declaration stays. Once a code closure or an artifact program was pinned into the catalog, no sequence
  of further pins, failed or not, changes what its reference resolves to, and everything the catalog holds verifies
  and passed the artifact check.\<close>

theorem pinned_inputs_stay:
  assumes "(pin_step lib verifier)\<^sup>*\<^sup>* EnsureSchema_inputs t0" and "(pin_step lib verifier)\<^sup>*\<^sup>* t t'" and "ok' ReadCode" "ok' ReadProgram"
  shows "inputs_sound lib verifier t0
    \<and> (PinCode lib ok verifier t0 c = (Inr r, t) \<longrightarrow> resolveCodeSQL lib ok' t' (cc_Ref c) = Inr c)
    \<and> (PinArtifactProgram lib ok verifier t0 p = (Inr q, t) \<longrightarrow> resolveArtifactProgramSQL lib ok' t' (pg_Ref p) = Inr p)"
proof (intro conjI impI)
  show s0: "inputs_sound lib verifier t0" using pins_sound [OF assms(1)] by simp
  have x: "inputs_extend t t'" "inputs_sound lib verifier t \<Longrightarrow> inputs_sound lib verifier t'" using pins_sound [OF assms(2)] by simp_all
  {
    assume pin: "PinCode lib ok verifier t0 c = (Inr r, t)"
    have "inputs_sound lib verifier t" using pin_step_sound [OF pin_step.pin_code [OF pin]] s0 by blast
    moreover have "it_code t' (cc_Ref c) = Some c" using PinCode_Inr [OF pin] x(1) by (auto simp: inputs_extend_def map_le_def dom_def)
    ultimately show "resolveCodeSQL lib ok' t' (cc_Ref c) = Inr c" using sound_resolves x(2) assms(3) by blast
  next
    assume pin: "PinArtifactProgram lib ok verifier t0 p = (Inr q, t)"
    have "inputs_sound lib verifier t" using pin_step_sound [OF pin_step.pin_program [OF pin]] s0 by blast
    moreover have "it_program t' (pg_Ref p) = Some p" using PinArtifactProgram_Inr [OF pin] x(1) by (auto simp: inputs_extend_def map_le_def dom_def)
    ultimately show "resolveArtifactProgramSQL lib ok' t' (pg_Ref p) = Inr p" using sound_resolves_program x(2) assms(4) by blast
  }
qed

text \<open>A concrete library: every location is the object named by sixty-four zeros, and the digest of everything is that name.\<close>

definition wit_zeros :: string where
  "wit_zeros = replicate 64 (CHR ''0'')"

definition wit_lib :: golib where
  "wit_lib = \<lparr>sha_hex = (\<lambda>_. wit_zeros), json_string = (\<lambda>s. concat (map (\<lambda>c. [CHR ''-'', c]) s) @ ''.''),
     json_time = (\<lambda>t. if t = 1 then Some ''1'' else None), json_valid = (\<lambda>_. True), json_compact = id, uuid_parses = (\<lambda>_. True), uuid_sha1 = id,
     url_parse = (\<lambda>_. Some \<lparr>url_Scheme = ''artifact+sha256'', url_User = False, url_Host = wit_zeros, url_Path = ''/a'', url_RawQuery = [], url_Fragment = []\<rparr>)\<rparr>"

definition wit_closure :: CodeClosure where
  "wit_closure = \<lparr>cc_Ref = ''code:sha256:'' @ wit_zeros, cc_SourceCommit = wit_zeros,
     cc_Artifacts = [\<lparr>ca_Name = ''n'', ca_SHA256 = wit_zeros, ca_URI = ''u''\<rparr>], cc_CreatedAt = 1\<rparr>"

lemma wit_json_string: "concat (map (\<lambda>c. [CHR ''-'', c]) a) @ CHR ''.'' # x = concat (map (\<lambda>c. [CHR ''-'', c]) b) @ CHR ''.'' # y \<longleftrightarrow> a = b \<and> x = y"
proof (induction a arbitrary: b)
  case Nil
  then show ?case by (cases b) auto
next
  case (Cons k a)
  then show ?case by (cases b) auto
qed

lemma wit_lib_delimited: "json_delimited wit_lib"
  by (auto simp: json_delimited_def wit_lib_def wit_json_string split: if_splits)

lemma wit_closure_verifies: "CodeClosure_Verify wit_lib wit_closure = None"
proof -
  have z: "trimSpace wit_zeros = wit_zeros" "toLower wit_zeros = wit_zeros" "validSHA256 wit_zeros" "validSourceCommit wit_zeros" by code_simp+
  have "ref_Valid (cc_Ref wit_closure)" by (rule tagged_ref_Valid) (simp add: wit_closure_def)
  then show ?thesis
    by (simp add: CodeClosure_Verify_def validateCodeClosurePayload_def codeClosurePayloadJSON_def wit_closure_def wit_lib_def
        validContentAddressedURI_def isAbs_def hasPrefix_def z)
qed

theorem input_refs_name_content_witness: "wit_closure = wit_closure \<or> sha_collision wit_lib"
  using input_refs_name_content [OF wit_lib_delimited, of wit_closure wit_closure] wit_closure_verifies by blast

theorem pinned_inputs_stay_witness:
  "resolveCodeSQL wit_lib (\<lambda>_. True) (EnsureSchema_inputs\<lparr>it_code := [cc_Ref wit_closure \<mapsto> wit_closure]\<rparr>) (cc_Ref wit_closure) = Inr wit_closure"
proof -
  let ?t = "EnsureSchema_inputs\<lparr>it_code := [cc_Ref wit_closure \<mapsto> wit_closure]\<rparr>"
  have v: "ref_Valid (cc_Ref wit_closure)" by (rule tagged_ref_Valid) (simp add: wit_closure_def)
  have j: "json_time wit_lib (cc_CreatedAt wit_closure) = Some ''1''" by (simp add: wit_lib_def wit_closure_def)
  have f: "first_failure (\<lambda>a. None) (cc_Artifacts wit_closure) = None" by (simp add: first_failure_None)
  have "PinCode wit_lib (\<lambda>_. True) (Some (\<lambda>_ _. None)) EnsureSchema_inputs wit_closure = (Inr wit_closure, ?t)"
    using v j by (simp add: PinCode_def wit_closure_verifies f resolveCodeSQL_def Let_def EnsureSchema_inputs_def)
  then show ?thesis
    using pinned_inputs_stay [of wit_lib "Some (\<lambda>_ _. None)" EnsureSchema_inputs ?t ?t "\<lambda>_. True" "\<lambda>_. True" wit_closure wit_closure] by blast
qed

end
