(* ===== verification/Route_Ledger.thy ===== *)
theory Route_Ledger
  imports Input_Catalog
begin

text \<open>
  Route authority (\<^verbatim>\<open>src/internal/routeledger/ledger.go\<close>): route slot names, transition commands, authorization
  evidence, receipts and the in-memory ledger. The clock and the random UUID of a call are arguments.
\<close>

subsection \<open>Library calls\<close>

definition containsAny :: "string \<Rightarrow> string \<Rightarrow> bool" where
  "containsAny s chars \<longleftrightarrow> (\<exists>c \<in> set s. c \<in> set chars)"

subsection \<open>Data\<close>

datatype route_error = ErrSlotNotFound | ErrStaleTransition | ErrIdempotencyReuse | ErrCanceled
  | IDsRequired | InvalidID | InvalidRouteSlotID | SlotIDRequired | IdempotencyKeyRequired | NewVersionInvalid
  | EvidenceRefsRequired | BootstrapShape | PromoteShape | RollbackShape | BootstrapRollbackShape | UnsupportedKind string
  | EvidenceIncomplete | EvidencePayloadHash | EvidenceTimeRequired | EvidenceKindInvalid | EvidenceEncode | EvidenceRefHash
  | EvidenceRequired | EvidenceCollision | EvidenceNotFound | EvidenceUnbound
  | RollbackTargetUnproven | BootstrapRollbackUnproven
  | ReceiptIDInvalid | ReceiptIncomplete | ReceiptEvidenceInvalid | ReceiptShape | ReceiptKindInvalid
  | InputsUnverified input_error | StatementFailed | CommitFailed | NoRows | PersistedSlotInvalid | SlotReceiptDisagree
  | EvidenceRefMismatch | IdempotentSlot route_error | LatestReceipt route_error

abbreviation AuthorizationEvidenceApproval :: string where
  "AuthorizationEvidenceApproval \<equiv> ''approval''"

abbreviation AuthorizationEvidencePromotionCertificate :: string where
  "AuthorizationEvidencePromotionCertificate \<equiv> ''promotion_certificate''"

record AuthorizationEvidence =
  ae_Ref :: string
  ae_Kind :: string
  ae_RouteSlotID :: string
  ae_ComputerVersion :: ComputerVersion
  ae_Payload :: string
  ae_PayloadSHA256 :: string
  ae_CreatedAt :: gotime

abbreviation TransitionBootstrap :: string where
  "TransitionBootstrap \<equiv> ''bootstrap''"

abbreviation TransitionPromote :: string where
  "TransitionPromote \<equiv> ''promote''"

abbreviation TransitionRollback :: string where
  "TransitionRollback \<equiv> ''rollback''"

abbreviation TransitionBootstrapRollback :: string where
  "TransitionBootstrapRollback \<equiv> ''bootstrap_rollback''"

record Slot =
  sl_ID :: string
  sl_Current :: ComputerVersion
  sl_Generation :: uint64
  sl_LatestReceiptID :: string

record TransitionCommand =
  tc_RouteSlotID :: string
  tc_Kind :: string
  tc_Old :: ComputerVersion
  tc_New :: ComputerVersion
  tc_ExpectedGeneration :: uint64
  tc_ApprovalRef :: string
  tc_PromotionCertificateRef :: string
  tc_RollbackTargetReceiptID :: string
  tc_IdempotencyKey :: string

record TransitionReceipt =
  tr_ID :: string
  tr_RouteSlotID :: string
  tr_Kind :: string
  tr_Old :: ComputerVersion
  tr_New :: ComputerVersion
  tr_ExpectedGeneration :: uint64
  tr_CommittedGeneration :: uint64
  tr_ApprovalRef :: string
  tr_PromotionCertificateRef :: string
  tr_RollbackTargetReceiptID :: string
  tr_IdempotencyKey :: string
  tr_CommittedAt :: gotime

definition no_version :: ComputerVersion where
  "no_version = \<lparr>cv_CodeRef = [], cv_ArtifactProgramRef = []\<rparr>"

definition no_slot :: Slot where
  "no_slot = \<lparr>sl_ID = [], sl_Current = no_version, sl_Generation = 0, sl_LatestReceiptID = []\<rparr>"

definition no_receipt :: TransitionReceipt where
  "no_receipt = \<lparr>tr_ID = [], tr_RouteSlotID = [], tr_Kind = [], tr_Old = no_version, tr_New = no_version, tr_ExpectedGeneration = 0,
     tr_CommittedGeneration = 0, tr_ApprovalRef = [], tr_PromotionCertificateRef = [], tr_RollbackTargetReceiptID = [],
     tr_IdempotencyKey = [], tr_CommittedAt = 0\<rparr>"

subsection \<open>Slot names\<close>

definition RouteSlotID :: "string \<Rightarrow> string \<Rightarrow> route_error + string" where
  "RouteSlotID ownerID computerID =
     (let ownerID = trimSpace ownerID; computerID = trimSpace computerID; bad = [CHR '':'', CHR 0x00, CHR 0x0D, CHR 0x0A] in
      if ownerID = [] \<or> computerID = [] then Inl IDsRequired
      else if containsAny ownerID bad \<or> containsAny computerID bad then Inl InvalidID
      else Inr (''computer:'' @ ownerID @ '':'' @ computerID))"

definition ParseRouteSlotID :: "string \<Rightarrow> route_error + string \<times> string" where
  "ParseRouteSlotID slotID =
     (let slotID = trimSpace slotID in
      case splitOn (CHR '':'') slotID of
        [p0, p1, p2] \<Rightarrow> if p0 \<noteq> ''computer'' \<or> p1 = [] \<or> p2 = [] then Inl InvalidRouteSlotID
          else if RouteSlotID p1 p2 = Inr slotID then Inr (p1, p2) else Inl InvalidRouteSlotID
      | _ \<Rightarrow> Inl InvalidRouteSlotID)"

definition slotIDValid :: "string \<Rightarrow> bool" where
  "slotIDValid s \<longleftrightarrow> (case ParseRouteSlotID s of Inl _ \<Rightarrow> False | Inr _ \<Rightarrow> True)"

subsection \<open>Commands\<close>

definition validHexString :: "string \<Rightarrow> bool" where
  "validHexString v \<longleftrightarrow> even (length v) \<and> list_all isHexDigit v"

definition validHashEvidenceRef :: "string \<Rightarrow> string \<Rightarrow> bool" where
  "validHashEvidenceRef v prefix \<longleftrightarrow> hasPrefix v prefix \<and> length v = length prefix + 64 \<and> validHexString (drop (length prefix) v)"

definition validToken :: "string \<Rightarrow> bool" where
  "validToken v \<longleftrightarrow> \<not> (v = [] \<or> length v > 512) \<and> \<not> containsAny v [CHR '' '', CHR 0x09, CHR 0x0D, CHR 0x0A, CHR 0x00]"

definition validEvidenceRef :: "string \<Rightarrow> string \<Rightarrow> bool" where
  "validEvidenceRef v prefix \<longleftrightarrow>
     (if \<not> hasPrefix v prefix \<or> length v \<le> length prefix \<or> length v > 512 then False else validToken v)"

definition validReceiptID :: "golib \<Rightarrow> string \<Rightarrow> bool" where
  "validReceiptID lib rid \<longleftrightarrow> uuid_parses lib rid"

definition SameVersion :: "ComputerVersion \<Rightarrow> ComputerVersion \<Rightarrow> bool" where
  "SameVersion a b \<longleftrightarrow> cv_CodeRef a = cv_CodeRef b \<and> cv_ArtifactProgramRef a = cv_ArtifactProgramRef b"

definition trim_version :: "ComputerVersion \<Rightarrow> ComputerVersion" where
  "trim_version v = \<lparr>cv_CodeRef = trimSpace (cv_CodeRef v), cv_ArtifactProgramRef = trimSpace (cv_ArtifactProgramRef v)\<rparr>"

definition normalized :: "TransitionCommand \<Rightarrow> TransitionCommand" where
  "normalized c = c\<lparr>tc_RouteSlotID := trimSpace (tc_RouteSlotID c), tc_Old := trim_version (tc_Old c), tc_New := trim_version (tc_New c),
     tc_IdempotencyKey := trimSpace (tc_IdempotencyKey c), tc_ApprovalRef := trimSpace (tc_ApprovalRef c),
     tc_PromotionCertificateRef := trimSpace (tc_PromotionCertificateRef c),
     tc_RollbackTargetReceiptID := trimSpace (tc_RollbackTargetReceiptID c)\<rparr>"

definition command_shape :: "golib \<Rightarrow> TransitionCommand \<Rightarrow> route_error option" where
  "command_shape lib c =
     (if tc_Kind c = TransitionBootstrap then
        (if tc_ExpectedGeneration c \<noteq> 0 \<or> ComputerVersion_Valid (tc_Old c) \<or> tc_RollbackTargetReceiptID c \<noteq> [] then Some BootstrapShape else None)
      else if tc_Kind c = TransitionPromote then
        (if \<not> ComputerVersion_Valid (tc_Old c) \<or> tc_RollbackTargetReceiptID c \<noteq> [] then Some PromoteShape else None)
      else if tc_Kind c = TransitionRollback then
        (if \<not> ComputerVersion_Valid (tc_Old c) \<or> \<not> validReceiptID lib (tc_RollbackTargetReceiptID c) then Some RollbackShape else None)
      else if tc_Kind c = TransitionBootstrapRollback then
        (if tc_ExpectedGeneration c \<noteq> 1 \<or> \<not> ComputerVersion_Valid (tc_Old c) \<or> \<not> SameVersion (tc_Old c) (tc_New c)
            \<or> \<not> validReceiptID lib (tc_RollbackTargetReceiptID c) then Some BootstrapRollbackShape else None)
      else Some (UnsupportedKind (tc_Kind c)))"

definition TransitionCommand_Validate :: "golib \<Rightarrow> TransitionCommand \<Rightarrow> route_error option" where
  "TransitionCommand_Validate lib c =
     (let c = normalized c in
      if tc_RouteSlotID c = [] then Some SlotIDRequired
      else case ParseRouteSlotID (tc_RouteSlotID c) of Inl e \<Rightarrow> Some e
      | Inr _ \<Rightarrow>
        if \<not> validEvidenceRef (tc_IdempotencyKey c) ''idempotency:'' then Some IdempotencyKeyRequired
        else if \<not> ComputerVersion_Valid (tc_New c) then Some NewVersionInvalid
        else if \<not> validHashEvidenceRef (tc_ApprovalRef c) ''approval:sha256:''
             \<or> \<not> validHashEvidenceRef (tc_PromotionCertificateRef c) ''certificate:sha256:'' then Some EvidenceRefsRequired
        else command_shape lib c)"

subsection \<open>Authorization evidence\<close>

definition json_version :: "golib \<Rightarrow> ComputerVersion \<Rightarrow> string" where
  "json_version lib v = ''{\"code_ref\":'' @ json_string lib (cv_CodeRef v) @ '',\"artifact_program_ref\":'' @ json_string lib (cv_ArtifactProgramRef v) @ ''}''"

definition authorizationEvidencePayload :: "golib \<Rightarrow> AuthorizationEvidence \<Rightarrow> string option" where
  "authorizationEvidencePayload lib e =
     map_option (\<lambda>t. ''{\"evidence_kind\":'' @ json_string lib (ae_Kind e) @ '',\"route_slot_id\":'' @ json_string lib (ae_RouteSlotID e)
       @ '',\"computer_version\":'' @ json_version lib (ae_ComputerVersion e) @ '',\"payload_sha256\":'' @ json_string lib (ae_PayloadSHA256 e)
       @ '',\"created_at\":'' @ t @ ''}'') (json_time lib (ae_CreatedAt e))"

definition validatePayload :: "golib \<Rightarrow> AuthorizationEvidence \<Rightarrow> route_error option" where
  "validatePayload lib e =
     (case ParseRouteSlotID (ae_RouteSlotID e) of Inl err \<Rightarrow> Some err
      | Inr _ \<Rightarrow>
        if \<not> ComputerVersion_Valid (ae_ComputerVersion e) \<or> ae_Payload e = [] \<or> \<not> json_valid lib (ae_Payload e)
           \<or> length (ae_PayloadSHA256 e) \<noteq> 64 then Some EvidenceIncomplete
        else if sha_hex lib (ae_Payload e) \<noteq> ae_PayloadSHA256 e then Some EvidencePayloadHash
        else if ae_CreatedAt e = 0 then Some EvidenceTimeRequired
        else if ae_Kind e \<noteq> AuthorizationEvidenceApproval \<and> ae_Kind e \<noteq> AuthorizationEvidencePromotionCertificate then Some EvidenceKindInvalid
        else None)"

definition evidence_prefix :: "string \<Rightarrow> string" where
  "evidence_prefix kind = (if kind = AuthorizationEvidencePromotionCertificate then ''certificate:sha256:'' else ''approval:sha256:'')"

definition NewAuthorizationEvidence ::
  "golib \<Rightarrow> string \<Rightarrow> string \<Rightarrow> ComputerVersion \<Rightarrow> string \<Rightarrow> gotime \<Rightarrow> route_error + AuthorizationEvidence" where
  "NewAuthorizationEvidence lib kind routeSlotID version payload createdAt =
     (let e = \<lparr>ae_Ref = [], ae_Kind = kind, ae_RouteSlotID = trimSpace routeSlotID, ae_ComputerVersion = version, ae_Payload = payload,
               ae_PayloadSHA256 = sha_hex lib payload, ae_CreatedAt = createdAt\<rparr> in
      case validatePayload lib e of Some err \<Rightarrow> Inl err
      | None \<Rightarrow> (case authorizationEvidencePayload lib e of None \<Rightarrow> Inl EvidenceEncode
          | Some p \<Rightarrow> Inr (e\<lparr>ae_Ref := evidence_prefix kind @ sha_hex lib p\<rparr>)))"

definition AuthorizationEvidence_Validate :: "golib \<Rightarrow> AuthorizationEvidence \<Rightarrow> route_error option" where
  "AuthorizationEvidence_Validate lib e =
     (case validatePayload lib e of Some err \<Rightarrow> Some err
      | None \<Rightarrow> (case authorizationEvidencePayload lib e of None \<Rightarrow> Some EvidenceEncode
          | Some p \<Rightarrow> if ae_Ref e \<noteq> evidence_prefix (ae_Kind e) @ sha_hex lib p then Some EvidenceRefHash else None))"

text \<open>\<^verbatim>\<open>json.Marshal\<close> of evidence: its text determines, and is determined by, the fields with the raw payload compacted;
  it fails for a payload that is not JSON and for a time stamp without a text.\<close>

definition marshal_evidence :: "golib \<Rightarrow> AuthorizationEvidence \<Rightarrow> AuthorizationEvidence option" where
  "marshal_evidence lib e =
     (if json_valid lib (ae_Payload e) \<and> json_time lib (ae_CreatedAt e) \<noteq> None
      then Some (e\<lparr>ae_Payload := json_compact lib (ae_Payload e)\<rparr>) else None)"

definition authorizationEvidenceEqual :: "golib \<Rightarrow> AuthorizationEvidence \<Rightarrow> AuthorizationEvidence \<Rightarrow> bool" where
  "authorizationEvidenceEqual lib l r \<longleftrightarrow> marshal_evidence lib l = marshal_evidence lib r"

definition evidence_binds :: "AuthorizationEvidence \<Rightarrow> AuthorizationEvidence \<Rightarrow> TransitionCommand \<Rightarrow> bool" where
  "evidence_binds approval certificate c \<longleftrightarrow>
     \<not> (ae_Kind approval \<noteq> AuthorizationEvidenceApproval \<or> ae_Kind certificate \<noteq> AuthorizationEvidencePromotionCertificate
        \<or> ae_RouteSlotID approval \<noteq> tc_RouteSlotID c \<or> ae_RouteSlotID certificate \<noteq> tc_RouteSlotID c
        \<or> \<not> SameVersion (ae_ComputerVersion approval) (tc_New c) \<or> \<not> SameVersion (ae_ComputerVersion certificate) (tc_New c))"

definition verifyTransitionEvidenceMap :: "(string \<rightharpoonup> AuthorizationEvidence) \<Rightarrow> TransitionCommand \<Rightarrow> route_error option" where
  "verifyTransitionEvidenceMap evidence c =
     (case (evidence (tc_ApprovalRef c), evidence (tc_PromotionCertificateRef c)) of
        (Some a, Some p) \<Rightarrow> if evidence_binds a p c then None else Some EvidenceUnbound
      | _ \<Rightarrow> Some EvidenceUnbound)"

subsection \<open>Receipts\<close>

definition receipt_shape :: "golib \<Rightarrow> TransitionReceipt \<Rightarrow> route_error option" where
  "receipt_shape lib r =
     (if tr_Kind r = TransitionBootstrap then
        (if tr_ExpectedGeneration r \<noteq> 0 \<or> ComputerVersion_Valid (tr_Old r) \<or> tr_CommittedGeneration r \<noteq> 1 \<or> tr_RollbackTargetReceiptID r \<noteq> []
         then Some ReceiptShape else None)
      else if tr_Kind r = TransitionPromote then
        (if \<not> ComputerVersion_Valid (tr_Old r) \<or> tr_RollbackTargetReceiptID r \<noteq> [] \<or> tr_CommittedGeneration r \<noteq> tr_ExpectedGeneration r + 1
         then Some ReceiptShape else None)
      else if tr_Kind r = TransitionRollback then
        (if \<not> ComputerVersion_Valid (tr_Old r) \<or> \<not> validReceiptID lib (tr_RollbackTargetReceiptID r) \<or> tr_CommittedGeneration r \<noteq> tr_ExpectedGeneration r + 1
         then Some ReceiptShape else None)
      else if tr_Kind r = TransitionBootstrapRollback then
        (if tr_ExpectedGeneration r \<noteq> 1 \<or> \<not> ComputerVersion_Valid (tr_Old r) \<or> \<not> SameVersion (tr_Old r) (tr_New r)
            \<or> \<not> validReceiptID lib (tr_RollbackTargetReceiptID r) \<or> tr_CommittedGeneration r \<noteq> 2
         then Some ReceiptShape else None)
      else Some ReceiptKindInvalid)"

definition TransitionReceipt_Validate :: "golib \<Rightarrow> TransitionReceipt \<Rightarrow> route_error option" where
  "TransitionReceipt_Validate lib r =
     (if \<not> validReceiptID lib (tr_ID r) then Some ReceiptIDInvalid
      else case ParseRouteSlotID (tr_RouteSlotID r) of Inl e \<Rightarrow> Some e
      | Inr _ \<Rightarrow>
        if \<not> ComputerVersion_Valid (tr_New r) \<or> tr_CommittedGeneration r = 0 \<or> tr_CommittedAt r = 0 then Some ReceiptIncomplete
        else if \<not> validHashEvidenceRef (tr_ApprovalRef r) ''approval:sha256:''
             \<or> \<not> validHashEvidenceRef (tr_PromotionCertificateRef r) ''certificate:sha256:''
             \<or> \<not> validEvidenceRef (tr_IdempotencyKey r) ''idempotency:'' then Some ReceiptEvidenceInvalid
        else receipt_shape lib r)"

definition BootstrapReceiptID :: "golib \<Rightarrow> string \<Rightarrow> string \<Rightarrow> string" where
  "BootstrapReceiptID lib routeSlotID key =
     uuid_sha1 lib (''choir-route-bootstrap-receipt'' @ [CHR 0x00] @ trimSpace routeSlotID @ [CHR 0x00] @ trimSpace key)"

definition newReceipt :: "golib \<Rightarrow> string \<Rightarrow> TransitionCommand \<Rightarrow> uint64 \<Rightarrow> gotime \<Rightarrow> TransitionReceipt" where
  "newReceipt lib uuid c generation committedAt =
     \<lparr>tr_ID = (if tc_Kind c = TransitionBootstrap then BootstrapReceiptID lib (tc_RouteSlotID c) (tc_IdempotencyKey c) else uuid),
      tr_RouteSlotID = tc_RouteSlotID c, tr_Kind = tc_Kind c, tr_Old = tc_Old c, tr_New = tc_New c,
      tr_ExpectedGeneration = tc_ExpectedGeneration c, tr_CommittedGeneration = generation,
      tr_ApprovalRef = trimSpace (tc_ApprovalRef c), tr_PromotionCertificateRef = trimSpace (tc_PromotionCertificateRef c),
      tr_RollbackTargetReceiptID = trimSpace (tc_RollbackTargetReceiptID c), tr_IdempotencyKey = trimSpace (tc_IdempotencyKey c),
      tr_CommittedAt = committedAt\<rparr>"

definition receiptMatchesCommand :: "TransitionReceipt \<Rightarrow> TransitionCommand \<Rightarrow> bool" where
  "receiptMatchesCommand r c \<longleftrightarrow>
     tr_RouteSlotID r = tc_RouteSlotID c \<and> tr_Kind r = tc_Kind c \<and> SameVersion (tr_Old r) (tc_Old c) \<and> SameVersion (tr_New r) (tc_New c)
     \<and> tr_ExpectedGeneration r = tc_ExpectedGeneration c \<and> tr_ApprovalRef r = trimSpace (tc_ApprovalRef c)
     \<and> tr_PromotionCertificateRef r = trimSpace (tc_PromotionCertificateRef c)
     \<and> tr_RollbackTargetReceiptID r = trimSpace (tc_RollbackTargetReceiptID c) \<and> tr_IdempotencyKey r = trimSpace (tc_IdempotencyKey c)"

definition ReceiptMatchesCommand :: "TransitionReceipt \<Rightarrow> TransitionCommand \<Rightarrow> bool" where
  "ReceiptMatchesCommand r c = receiptMatchesCommand r (normalized c)"

subsection \<open>The in-memory ledger\<close>

record MemoryLedger =
  ml_slots :: "string \<rightharpoonup> Slot"
  ml_receipts :: "string \<rightharpoonup> TransitionReceipt"
  ml_byKey :: "string \<rightharpoonup> string"
  ml_evidence :: "string \<rightharpoonup> AuthorizationEvidence"

definition NewMemoryLedger :: MemoryLedger where
  "NewMemoryLedger = \<lparr>ml_slots = Map.empty, ml_receipts = Map.empty, ml_byKey = Map.empty, ml_evidence = Map.empty\<rparr>"

definition MemoryLedger_Resolve :: "bool \<Rightarrow> MemoryLedger \<Rightarrow> string \<Rightarrow> route_error + Slot \<times> TransitionReceipt" where
  "MemoryLedger_Resolve canceled l slotID =
     (if canceled then Inl ErrCanceled
      else case ml_slots l (trimSpace slotID) of None \<Rightarrow> Inl ErrSlotNotFound
      | Some s \<Rightarrow> Inr (s, getz no_receipt (ml_receipts l) (sl_LatestReceiptID s)))"

text \<open>The checks that follow the lookup of the idempotency key, given the current slot and a lookup of receipts; the
  SQL ledger makes the same ones.\<close>

definition transition_guard :: "(string \<rightharpoonup> TransitionReceipt) \<Rightarrow> Slot option \<Rightarrow> TransitionCommand \<Rightarrow> route_error option" where
  "transition_guard receipts current c =
     (case current of
        None \<Rightarrow> if tc_Kind c \<noteq> TransitionBootstrap then Some ErrSlotNotFound else None
      | Some s \<Rightarrow>
          if tc_Kind c = TransitionBootstrap \<or> sl_Generation s \<noteq> tc_ExpectedGeneration c \<or> \<not> SameVersion (sl_Current s) (tc_Old c)
          then Some ErrStaleTransition
          else if tc_Kind c = TransitionRollback then
            (case receipts (tc_RollbackTargetReceiptID c) of None \<Rightarrow> Some RollbackTargetUnproven
             | Some t \<Rightarrow> if tr_RouteSlotID t \<noteq> tc_RouteSlotID c \<or> \<not> SameVersion (tr_New t) (tc_New c)
                            \<or> tr_CommittedGeneration t \<ge> sl_Generation s then Some RollbackTargetUnproven else None)
          else if tc_Kind c = TransitionBootstrapRollback then
            (case receipts (tc_RollbackTargetReceiptID c) of None \<Rightarrow> Some BootstrapRollbackUnproven
             | Some t \<Rightarrow> if tr_Kind t \<noteq> TransitionBootstrap \<or> tr_RouteSlotID t \<noteq> tc_RouteSlotID c \<or> tr_ID t \<noteq> sl_LatestReceiptID s
                            \<or> tr_CommittedGeneration t \<noteq> 1 \<or> \<not> SameVersion (tr_New t) (tc_Old c) then Some BootstrapRollbackUnproven else None)
          else None)"

definition next_generation :: "Slot option \<Rightarrow> uint64" where
  "next_generation current = (case current of None \<Rightarrow> 1 | Some s \<Rightarrow> sl_Generation s + 1)"

definition committed_slot :: "TransitionCommand \<Rightarrow> uint64 \<Rightarrow> string \<Rightarrow> Slot" where
  "committed_slot c generation rid =
     \<lparr>sl_ID = tc_RouteSlotID c, sl_Current = tc_New c, sl_Generation = generation, sl_LatestReceiptID = rid\<rparr>"

definition transitionLocked ::
  "golib \<Rightarrow> string \<Rightarrow> gotime \<Rightarrow> MemoryLedger \<Rightarrow> TransitionCommand \<Rightarrow> route_error + Slot \<times> TransitionReceipt \<times> MemoryLedger" where
  "transitionLocked lib uuid now l c =
     (case ml_byKey l (tc_IdempotencyKey c) of
        Some rid \<Rightarrow>
          let receipt = getz no_receipt (ml_receipts l) rid in
          if \<not> receiptMatchesCommand receipt c then Inl ErrIdempotencyReuse
          else if tc_Kind c = TransitionBootstrapRollback then
            (if ml_slots l (tc_RouteSlotID c) \<noteq> None then Inl ErrStaleTransition else Inr (no_slot, receipt, l))
          else Inr (getz no_slot (ml_slots l) (tc_RouteSlotID c), receipt, l)
      | None \<Rightarrow>
          let current = ml_slots l (tc_RouteSlotID c) in
          case transition_guard (ml_receipts l) current c of Some e \<Rightarrow> Inl e
          | None \<Rightarrow>
              let generation = next_generation current;
                  receipt = newReceipt lib uuid c generation now;
                  l = l\<lparr>ml_receipts := (ml_receipts l)(tr_ID receipt \<mapsto> receipt), ml_byKey := (ml_byKey l)(tc_IdempotencyKey c \<mapsto> tr_ID receipt)\<rparr> in
              if tc_Kind c = TransitionBootstrapRollback
              then Inr (no_slot, receipt, l\<lparr>ml_slots := (ml_slots l)(tc_RouteSlotID c := None)\<rparr>)
              else let slot = committed_slot c generation (tr_ID receipt) in
                Inr (slot, receipt, l\<lparr>ml_slots := (ml_slots l)(sl_ID slot \<mapsto> slot)\<rparr>))"

definition MemoryLedger_Transition ::
  "golib \<Rightarrow> bool \<Rightarrow> string \<Rightarrow> gotime \<Rightarrow> MemoryLedger \<Rightarrow> TransitionCommand \<Rightarrow> route_error + Slot \<times> TransitionReceipt \<times> MemoryLedger" where
  "MemoryLedger_Transition lib canceled uuid now l c =
     (if canceled then Inl ErrCanceled
      else let c = normalized c in
        case TransitionCommand_Validate lib c of Some e \<Rightarrow> Inl e
        | None \<Rightarrow> transitionLocked lib uuid now l c)"

definition MemoryLedger_PinAuthorizationEvidence ::
  "golib \<Rightarrow> bool \<Rightarrow> MemoryLedger \<Rightarrow> AuthorizationEvidence \<Rightarrow> route_error + AuthorizationEvidence \<times> MemoryLedger" where
  "MemoryLedger_PinAuthorizationEvidence lib canceled l e =
     (if canceled then Inl ErrCanceled
      else case AuthorizationEvidence_Validate lib e of Some err \<Rightarrow> Inl err
      | None \<Rightarrow>
        if (case ml_evidence l (ae_Ref e) of Some x \<Rightarrow> \<not> authorizationEvidenceEqual lib x e | None \<Rightarrow> False) then Inl EvidenceCollision
        else Inr (e, l\<lparr>ml_evidence := (ml_evidence l)(ae_Ref e \<mapsto> e)\<rparr>))"

definition MemoryLedger_ResolveAuthorizationEvidence :: "bool \<Rightarrow> MemoryLedger \<Rightarrow> string \<Rightarrow> route_error + AuthorizationEvidence" where
  "MemoryLedger_ResolveAuthorizationEvidence canceled l ref =
     (if canceled then Inl ErrCanceled
      else case ml_evidence l ref of None \<Rightarrow> Inl EvidenceNotFound | Some e \<Rightarrow> Inr e)"

definition MemoryLedger_VerifyTransitionEvidence :: "bool \<Rightarrow> MemoryLedger \<Rightarrow> TransitionCommand \<Rightarrow> route_error option" where
  "MemoryLedger_VerifyTransitionEvidence canceled l c =
     (if canceled then Some ErrCanceled else verifyTransitionEvidenceMap (ml_evidence l) c)"

fun combine_evidence :: "golib \<Rightarrow> (string \<rightharpoonup> AuthorizationEvidence) \<Rightarrow> AuthorizationEvidence list \<Rightarrow> route_error + (string \<rightharpoonup> AuthorizationEvidence)" where
  "combine_evidence lib combined [] = Inr combined"
| "combine_evidence lib combined (e # es) =
     (case AuthorizationEvidence_Validate lib e of Some err \<Rightarrow> Inl err
      | None \<Rightarrow>
        if (case combined (ae_Ref e) of Some x \<Rightarrow> \<not> authorizationEvidenceEqual lib x e | None \<Rightarrow> False) then Inl EvidenceCollision
        else combine_evidence lib (combined(ae_Ref e \<mapsto> e)) es)"

definition TransitionWithEvidence ::
  "golib \<Rightarrow> bool \<Rightarrow> string \<Rightarrow> gotime \<Rightarrow> MemoryLedger \<Rightarrow> TransitionCommand \<Rightarrow> AuthorizationEvidence list
    \<Rightarrow> route_error + Slot \<times> TransitionReceipt \<times> MemoryLedger" where
  "TransitionWithEvidence lib canceled uuid now l c evidence =
     (if canceled then Inl ErrCanceled
      else let c = normalized c in
        case TransitionCommand_Validate lib c of Some e \<Rightarrow> Inl e
        | None \<Rightarrow>
          if evidence = [] then Inl EvidenceRequired
          else case combine_evidence lib (ml_evidence l) evidence of Inl e \<Rightarrow> Inl e
          | Inr combined \<Rightarrow>
            (case verifyTransitionEvidenceMap combined c of Some e \<Rightarrow> Inl e
             | None \<Rightarrow> (case transitionLocked lib uuid now l c of Inl e \<Rightarrow> Inl e
                | Inr (slot, receipt, l) \<Rightarrow> Inr (slot, receipt, l\<lparr>ml_evidence := combined\<rparr>))))"

subsection \<open>Facts on names, commands and receipts\<close>

lemma SameVersion_eq: "SameVersion a b \<longleftrightarrow> a = b"
  by (auto simp: SameVersion_def intro: ComputerVersion.equality)

lemma frame_chars:
  "q \<in> set space_seqs \<Longrightarrow> hd q \<noteq> of_char (CHR ''c'')" "q \<in> set space_seqs \<Longrightarrow> of_char (CHR '':'') \<notin> set q"
  by (auto simp: space_seqs_def)

lemma RouteSlotID_Inr:
  "RouteSlotID ow cm = Inr s \<longleftrightarrow>
     (let ow = trimSpace ow; cm = trimSpace cm; bad = {CHR '':'', CHR 0x00, CHR 0x0D, CHR 0x0A} in
      ow \<noteq> [] \<and> cm \<noteq> [] \<and> set ow \<inter> bad = {} \<and> set cm \<inter> bad = {} \<and> s = ''computer:'' @ ow @ '':'' @ cm)"
  by (auto simp: RouteSlotID_def Let_def containsAny_def)

lemma slot_text_trimmed: "trimmed cm \<Longrightarrow> cm \<noteq> [] \<Longrightarrow> trimSpace (''computer:'' @ ow @ '':'' @ cm) = ''computer:'' @ ow @ '':'' @ cm"
  using trimmed_framed [of cm "CHR ''c''" "CHR '':''" "''omputer:'' @ ow"] frame_chars
  by (intro trimSpace_trimmed) simp

lemma splitOn_slot:
  "CHR '':'' \<notin> set ow \<Longrightarrow> CHR '':'' \<notin> set cm \<Longrightarrow> splitOn (CHR '':'') (''computer:'' @ ow @ '':'' @ cm) = [''computer'', ow, cm]"
  using splitOn_unfold [of "CHR '':''" "''computer''" "ow @ '':'' @ cm"] by (simp add: splitOn_unfold splitOn_none)

text \<open>Slot names are unambiguous. The name of an owner and a computer parses back to the two trimmed parts, whatever
  they are, and every name that parses is, up to surrounding space, the name its parts are given.\<close>

theorem route_slot_id_roundtrip:
  "(RouteSlotID ow cm = Inr s \<longrightarrow> ParseRouteSlotID s = Inr (trimSpace ow, trimSpace cm))
   \<and> (ParseRouteSlotID t = Inr (a, b) \<longrightarrow> RouteSlotID a b = Inr (trimSpace t))"
proof (intro conjI impI)
  assume r: "RouteSlotID ow cm = Inr s"
  then have n: "trimSpace ow \<noteq> []" "trimSpace cm \<noteq> []" "CHR '':'' \<notin> set (trimSpace ow)" "CHR '':'' \<notin> set (trimSpace cm)"
    and s: "s = ''computer:'' @ trimSpace ow @ '':'' @ trimSpace cm"
    by (auto simp: RouteSlotID_Inr Let_def)
  have "trimSpace s = s" "splitOn (CHR '':'') s = [''computer'', trimSpace ow, trimSpace cm]"
    using slot_text_trimmed [of "trimSpace cm" "trimSpace ow"] splitOn_slot [OF n(3,4)] n(2) by (simp_all add: s)
  moreover have "RouteSlotID (trimSpace ow) (trimSpace cm) = Inr s" using r by (simp add: RouteSlotID_def Let_def)
  ultimately show "ParseRouteSlotID s = Inr (trimSpace ow, trimSpace cm)" using n by (simp add: ParseRouteSlotID_def Let_def)
next
  assume "ParseRouteSlotID t = Inr (a, b)"
  then show "RouteSlotID a b = Inr (trimSpace t)"
    by (auto simp: ParseRouteSlotID_def Let_def split: list.splits if_splits)
qed

lemma normalized_idem [simp]: "normalized (normalized c) = normalized c"
  by (simp add: normalized_def trim_version_def)

lemma Validate_normalized [simp]: "TransitionCommand_Validate lib (normalized c) = TransitionCommand_Validate lib c"
  by (simp add: TransitionCommand_Validate_def)

lemma new_receipt_matches: "receiptMatchesCommand (newReceipt lib u c g at) c"
  by (simp add: receiptMatchesCommand_def newReceipt_def SameVersion_eq)

theorem route_slot_id_roundtrip_witness:
  "ParseRouteSlotID ''computer:o:c'' = Inr (''o'', ''c'') \<and> RouteSlotID ''o'' ''c'' = Inr ''computer:o:c''"
proof -
  have t: "trimSpace ''o'' = ''o''" "trimSpace ''c'' = ''c''" by code_simp+
  have r: "RouteSlotID ''o'' ''c'' = Inr ''computer:o:c''" by (simp add: RouteSlotID_def t containsAny_def)
  then show ?thesis using route_slot_id_roundtrip [of "''o''" "''c''" "''computer:o:c''" "''computer:o:c''" "''o''" "''c''"] by (simp add: t)
qed

end
