(* ===== verification/Route_Lineage.thy ===== *)
theory Route_Lineage
  imports Route_Ledger
begin

text \<open>
  What a route ledger promises, and the in-memory ledger as a provider of it. A \<open>route_book\<close> is the authority a ledger
  holds; \<open>commits\<close> is the specification of one accepted transition. The locale \<open>route_ledger\<close> is the contract of the
  \<^verbatim>\<open>Ledger\<close> interface: whatever the implementation does, its book either stays or commits. Its lemmas give the lineage
  of every slot, append-only receipts and stable idempotency keys, once for every implementation.
\<close>

subsection \<open>The specification\<close>

record route_book =
  bk_slots :: "string \<rightharpoonup> Slot"
  bk_receipts :: "string \<rightharpoonup> TransitionReceipt"
  bk_byKey :: "string \<rightharpoonup> string"

definition empty_book :: route_book where
  "empty_book = \<lparr>bk_slots = Map.empty, bk_receipts = Map.empty, bk_byKey = Map.empty\<rparr>"

definition book_after :: "route_book \<Rightarrow> TransitionCommand \<Rightarrow> TransitionReceipt \<Rightarrow> route_book" where
  "book_after b c r =
     \<lparr>bk_slots = (bk_slots b)(tc_RouteSlotID c :=
        (if tc_Kind c = TransitionBootstrapRollback then None else Some (committed_slot c (tr_CommittedGeneration r) (tr_ID r)))),
      bk_receipts = (bk_receipts b)(tr_ID r \<mapsto> r), bk_byKey = (bk_byKey b)(tc_IdempotencyKey c \<mapsto> tr_ID r)\<rparr>"

definition commits :: "golib \<Rightarrow> route_book \<Rightarrow> TransitionCommand \<Rightarrow> TransitionReceipt \<Rightarrow> bool" where
  "commits lib b c r \<longleftrightarrow>
     normalized c = c \<and> TransitionCommand_Validate lib c = None \<and> bk_byKey b (tc_IdempotencyKey c) = None
     \<and> transition_guard (bk_receipts b) (bk_slots b (tc_RouteSlotID c)) c = None
     \<and> receiptMatchesCommand r c \<and> tr_CommittedGeneration r = next_generation (bk_slots b (tc_RouteSlotID c))
     \<and> bk_receipts b (tr_ID r) = None \<and> uuid_parses lib (tr_ID r) \<and> tr_CommittedAt r \<noteq> 0"

text \<open>The chain of receipts that leads from the bootstrap of a slot to its latest receipt.\<close>

inductive lineage :: "(string \<rightharpoonup> TransitionReceipt) \<Rightarrow> string \<Rightarrow> nat \<Rightarrow> TransitionReceipt \<Rightarrow> bool" for receipts slot where
  lineage_bootstrap:
    "receipts (tr_ID r) = Some r \<Longrightarrow> tr_RouteSlotID r = slot \<Longrightarrow> tr_Kind r = TransitionBootstrap \<Longrightarrow> tr_CommittedGeneration r = 1
     \<Longrightarrow> lineage receipts slot 1 r"
| lineage_advance:
    "lineage receipts slot n p \<Longrightarrow> receipts (tr_ID r) = Some r \<Longrightarrow> tr_RouteSlotID r = slot
     \<Longrightarrow> tr_Kind r = TransitionPromote \<or> tr_Kind r = TransitionRollback
     \<Longrightarrow> tr_Old r = tr_New p \<Longrightarrow> tr_ExpectedGeneration r = tr_CommittedGeneration p
     \<Longrightarrow> tr_CommittedGeneration r = tr_CommittedGeneration p + 1
     \<Longrightarrow> lineage receipts slot (Suc n) r"

lemma lineage_generation: "lineage receipts slot n r \<Longrightarrow> tr_CommittedGeneration r = of_nat n"
  by (induction rule: lineage.induct) (simp_all add: add.commute)

lemma lineage_receipt: "lineage receipts slot n r \<Longrightarrow> receipts (tr_ID r) = Some r \<and> tr_RouteSlotID r = slot"
  by (erule lineage.cases) auto

lemma lineage_mono: "lineage receipts slot n r \<Longrightarrow> receipts \<subseteq>\<^sub>m receipts' \<Longrightarrow> lineage receipts' slot n r"
proof (induction rule: lineage.induct)
  case (lineage_bootstrap r)
  then show ?case by (intro lineage.lineage_bootstrap) (auto simp: map_le_def dom_def)
next
  case (lineage_advance n p r)
  then show ?case by (intro lineage.lineage_advance [of _ _ n p]) (auto simp: map_le_def dom_def)
qed

definition target_proves :: "(string \<rightharpoonup> TransitionReceipt) \<Rightarrow> TransitionReceipt \<Rightarrow> bool" where
  "target_proves receipts r \<longleftrightarrow>
     (tr_Kind r = TransitionRollback \<longrightarrow>
        (\<exists>t. receipts (tr_RollbackTargetReceiptID r) = Some t \<and> tr_RouteSlotID t = tr_RouteSlotID r \<and> tr_New t = tr_New r
           \<and> tr_CommittedGeneration t < tr_ExpectedGeneration r))
     \<and> (tr_Kind r = TransitionBootstrapRollback \<longrightarrow>
        (\<exists>t. receipts (tr_RollbackTargetReceiptID r) = Some t \<and> tr_RouteSlotID t = tr_RouteSlotID r \<and> tr_New t = tr_Old r
           \<and> tr_Kind t = TransitionBootstrap \<and> tr_CommittedGeneration t = 1))"

definition slots_led :: "route_book \<Rightarrow> bool" where
  "slots_led b \<longleftrightarrow> (\<forall>i s. bk_slots b i = Some s \<longrightarrow> sl_ID s = i \<and>
     (\<exists>r n. bk_receipts b (sl_LatestReceiptID s) = Some r \<and> lineage (bk_receipts b) i n r
        \<and> tr_CommittedGeneration r = sl_Generation s \<and> tr_New r = sl_Current s))"

definition receipts_sound :: "golib \<Rightarrow> route_book \<Rightarrow> bool" where
  "receipts_sound lib b \<longleftrightarrow> (\<forall>i r. bk_receipts b i = Some r \<longrightarrow> tr_ID r = i \<and> bk_byKey b (tr_IdempotencyKey r) = Some i
     \<and> (TransitionReceipt_Validate lib r = None \<or> tr_CommittedGeneration r = 0) \<and> target_proves (bk_receipts b) r)"

definition keys_sound :: "route_book \<Rightarrow> bool" where
  "keys_sound b \<longleftrightarrow> (\<forall>k i. bk_byKey b k = Some i \<longrightarrow> (\<exists>r. bk_receipts b i = Some r \<and> tr_IdempotencyKey r = k))"

definition book_inv :: "golib \<Rightarrow> route_book \<Rightarrow> bool" where
  "book_inv lib b \<longleftrightarrow> slots_led b \<and> receipts_sound lib b \<and> keys_sound b"

lemma book_inv_empty [simp]: "book_inv lib empty_book"
  by (simp add: book_inv_def slots_led_def receipts_sound_def keys_sound_def empty_book_def)

subsection \<open>One transition keeps the invariant\<close>

lemma normalized_trimmed:
  assumes "normalized c = c"
  shows "trimSpace (tc_RouteSlotID c) = tc_RouteSlotID c" "trimSpace (tc_IdempotencyKey c) = tc_IdempotencyKey c"
    "trimSpace (tc_ApprovalRef c) = tc_ApprovalRef c" "trimSpace (tc_PromotionCertificateRef c) = tc_PromotionCertificateRef c"
    "trimSpace (tc_RollbackTargetReceiptID c) = tc_RollbackTargetReceiptID c"
  by (subst assms [symmetric], simp add: normalized_def, subst (2) assms [symmetric], simp add: normalized_def)+

lemma matching_fields:
  assumes "receiptMatchesCommand r c" "normalized c = c"
  shows "tr_RouteSlotID r = tc_RouteSlotID c" "tr_Kind r = tc_Kind c" "tr_Old r = tc_Old c" "tr_New r = tc_New c"
    "tr_ExpectedGeneration r = tc_ExpectedGeneration c" "tr_ApprovalRef r = tc_ApprovalRef c"
    "tr_PromotionCertificateRef r = tc_PromotionCertificateRef c"
    "tr_RollbackTargetReceiptID r = tc_RollbackTargetReceiptID c" "tr_IdempotencyKey r = tc_IdempotencyKey c"
  using assms(1) normalized_trimmed [OF assms(2)] by (auto simp: receiptMatchesCommand_def SameVersion_eq)

lemma Validate_parts:
  assumes "TransitionCommand_Validate lib c = None" "normalized c = c"
  shows "slotIDValid (tc_RouteSlotID c)" "validEvidenceRef (tc_IdempotencyKey c) ''idempotency:''" "ComputerVersion_Valid (tc_New c)"
    "validHashEvidenceRef (tc_ApprovalRef c) ''approval:sha256:''" "validHashEvidenceRef (tc_PromotionCertificateRef c) ''certificate:sha256:''"
    "command_shape lib c = None"
  using assms(1) unfolding TransitionCommand_Validate_def assms(2) Let_def slotIDValid_def by (auto split: if_splits sum.splits)

lemma guard_cases:
  assumes "transition_guard receipts current c = None"
  obtains (Bootstrap) "current = None" "tc_Kind c = TransitionBootstrap"
  | (Advance) s where "current = Some s" "tc_Kind c \<noteq> TransitionBootstrap" "sl_Generation s = tc_ExpectedGeneration c" "sl_Current s = tc_Old c"
  using assms by (cases current) (auto simp: transition_guard_def SameVersion_eq split: if_splits)

lemma guard_target:
  assumes "transition_guard receipts current c = None" "receiptMatchesCommand r c" "normalized c = c"
  shows "target_proves receipts r"
  using assms(1) unfolding target_proves_def transition_guard_def matching_fields [OF assms(2,3)]
  by (auto simp: SameVersion_eq split: option.splits if_splits)

lemma committed_receipt_valid:
  assumes "commits lib b c r"
  shows "TransitionReceipt_Validate lib r = None \<or> tr_CommittedGeneration r = 0"
proof -
  note d = assms [unfolded commits_def]
  have n: "normalized c = c" and v: "TransitionCommand_Validate lib c = None" and m: "receiptMatchesCommand r c"
    and g: "transition_guard (bk_receipts b) (bk_slots b (tc_RouteSlotID c)) c = None"
    and gen: "tr_CommittedGeneration r = next_generation (bk_slots b (tc_RouteSlotID c))"
    and e: "uuid_parses lib (tr_ID r)" "tr_CommittedAt r \<noteq> 0" using d by simp_all
  note p = Validate_parts [OF v n] and f = matching_fields [OF m n]
  have "receipt_shape lib r = None" using g
  proof (cases rule: guard_cases)
    case Bootstrap
    then show ?thesis using p(6) gen by (simp add: receipt_shape_def command_shape_def f next_generation_def split: if_splits)
  next
    case (Advance s)
    then show ?thesis using p(6) gen by (auto simp: receipt_shape_def command_shape_def f next_generation_def split: if_splits)
  qed
  then show ?thesis using p e
    by (auto simp: TransitionReceipt_Validate_def f validReceiptID_def slotIDValid_def split: sum.splits)
qed

lemma book_after_simps [simp]:
  "bk_receipts (book_after b c r) = (bk_receipts b)(tr_ID r \<mapsto> r)"
  "bk_byKey (book_after b c r) = (bk_byKey b)(tc_IdempotencyKey c \<mapsto> tr_ID r)"
  "bk_slots (book_after b c r) = (bk_slots b)(tc_RouteSlotID c :=
        (if tc_Kind c = TransitionBootstrapRollback then None else Some (committed_slot c (tr_CommittedGeneration r) (tr_ID r))))"
  by (simp_all add: book_after_def)

lemma fresh_map_le: "m k = None \<Longrightarrow> m \<subseteq>\<^sub>m m(k \<mapsto> v)"
  by (auto simp: map_le_def)

lemma target_proves_mono: "target_proves m r \<Longrightarrow> m \<subseteq>\<^sub>m m' \<Longrightarrow> target_proves m' r"
  unfolding target_proves_def map_le_def by (metis domI)

lemma committed_lineage:
  assumes "commits lib b c r" "slots_led b" "tc_Kind c \<noteq> TransitionBootstrapRollback"
  shows "\<exists>n. lineage ((bk_receipts b)(tr_ID r \<mapsto> r)) (tc_RouteSlotID c) n r"
proof -
  note d = assms(1) [unfolded commits_def]
  have n: "normalized c = c" and v: "TransitionCommand_Validate lib c = None" and m: "receiptMatchesCommand r c"
    and g: "transition_guard (bk_receipts b) (bk_slots b (tc_RouteSlotID c)) c = None"
    and gen: "tr_CommittedGeneration r = next_generation (bk_slots b (tc_RouteSlotID c))"
    and fresh: "bk_receipts b (tr_ID r) = None" using d by simp_all
  note p = Validate_parts [OF v n] and f = matching_fields [OF m n]
  show ?thesis using g
  proof (cases rule: guard_cases)
    case Bootstrap
    then show ?thesis using gen by (intro exI [of _ 1] lineage_bootstrap) (simp_all add: f next_generation_def)
  next
    case (Advance s)
    then obtain q k where q: "lineage (bk_receipts b) (tc_RouteSlotID c) k q" "tr_CommittedGeneration q = sl_Generation s" "tr_New q = sl_Current s"
      using assms(2) unfolding slots_led_def by metis
    have "tc_Kind c = TransitionPromote \<or> tc_Kind c = TransitionRollback"
      using p(6) Advance(2) assms(3) by (auto simp: command_shape_def split: if_splits)
    then show ?thesis
      using lineage_mono [OF q(1) fresh_map_le [of "bk_receipts b" "tr_ID r" r, OF fresh]] q Advance gen
      by (intro exI [of _ "Suc k"] lineage_advance [of _ _ k q]) (simp_all add: f next_generation_def)
  qed
qed

lemma commits_slots_led:
  assumes "commits lib b c r" "slots_led b"
  shows "slots_led (book_after b c r)"
  unfolding slots_led_def
proof (intro allI impI)
  fix i s assume s: "bk_slots (book_after b c r) i = Some s"
  have fresh: "bk_receipts b (tr_ID r) = None" and n: "normalized c = c" and m: "receiptMatchesCommand r c"
    using assms(1) by (simp_all add: commits_def)
  note le = fresh_map_le [of "bk_receipts b" "tr_ID r" r, OF fresh]
  show "sl_ID s = i \<and> (\<exists>q k. bk_receipts (book_after b c r) (sl_LatestReceiptID s) = Some q
      \<and> lineage (bk_receipts (book_after b c r)) i k q \<and> tr_CommittedGeneration q = sl_Generation s \<and> tr_New q = sl_Current s)"
  proof (cases "i = tc_RouteSlotID c")
    case True
    then have k: "tc_Kind c \<noteq> TransitionBootstrapRollback" and s': "s = committed_slot c (tr_CommittedGeneration r) (tr_ID r)"
      using s by (auto split: if_splits)
    obtain k where "lineage ((bk_receipts b)(tr_ID r \<mapsto> r)) (tc_RouteSlotID c) k r" using committed_lineage [OF assms k] by blast
    then show ?thesis using True matching_fields [OF m n] by (auto simp: s' committed_slot_def)
  next
    case False
    then have "bk_slots b i = Some s" using s by simp
    then obtain q k where q: "sl_ID s = i" "bk_receipts b (sl_LatestReceiptID s) = Some q" "lineage (bk_receipts b) i k q"
        "tr_CommittedGeneration q = sl_Generation s" "tr_New q = sl_Current s"
      using assms(2) unfolding slots_led_def by blast
    then have "bk_receipts (book_after b c r) (sl_LatestReceiptID s) = Some q" using fresh by auto
    then show ?thesis using q lineage_mono [OF q(3) le] by auto
  qed
qed

lemma commits_receipts_sound:
  assumes "commits lib b c r" "receipts_sound lib b"
  shows "receipts_sound lib (book_after b c r)"
  unfolding receipts_sound_def
proof (intro allI impI)
  fix i q assume q: "bk_receipts (book_after b c r) i = Some q"
  have fresh: "bk_receipts b (tr_ID r) = None" "bk_byKey b (tc_IdempotencyKey c) = None" and n: "normalized c = c" and m: "receiptMatchesCommand r c"
    and g: "transition_guard (bk_receipts b) (bk_slots b (tc_RouteSlotID c)) c = None"
    using assms(1) by (simp_all add: commits_def)
  note le = fresh_map_le [of "bk_receipts b" "tr_ID r" r, OF fresh(1)]
  show "tr_ID q = i \<and> bk_byKey (book_after b c r) (tr_IdempotencyKey q) = Some i
     \<and> (TransitionReceipt_Validate lib q = None \<or> tr_CommittedGeneration q = 0) \<and> target_proves (bk_receipts (book_after b c r)) q"
  proof (cases "i = tr_ID r")
    case True
    then have "q = r" using q by simp
    then show ?thesis
      using True committed_receipt_valid [OF assms(1)] guard_target [OF g m n] target_proves_mono [OF _ le] matching_fields(9) [OF m n] by simp
  next
    case False
    then have "bk_receipts b i = Some q" using q by simp
    then have old: "tr_ID q = i" "bk_byKey b (tr_IdempotencyKey q) = Some i" "TransitionReceipt_Validate lib q = None \<or> tr_CommittedGeneration q = 0"
        "target_proves (bk_receipts b) q" using assms(2) unfolding receipts_sound_def by blast+
    then have "tr_IdempotencyKey q \<noteq> tc_IdempotencyKey c" using fresh(2) by auto
    then show ?thesis using old target_proves_mono [OF old(4) le] by simp
  qed
qed

lemma commits_keys_sound:
  assumes "commits lib b c r" "keys_sound b"
  shows "keys_sound (book_after b c r)"
proof -
  have fresh: "bk_receipts b (tr_ID r) = None" and n: "normalized c = c" and m: "receiptMatchesCommand r c"
    using assms(1) by (simp_all add: commits_def)
  note f = matching_fields(9) [OF m n]
  show ?thesis unfolding keys_sound_def
  proof (intro allI impI)
    fix k i assume k: "bk_byKey (book_after b c r) k = Some i"
    show "\<exists>q. bk_receipts (book_after b c r) i = Some q \<and> tr_IdempotencyKey q = k"
    proof (cases "k = tc_IdempotencyKey c")
      case True
      then show ?thesis using f k by simp
    next
      case False
      then have "bk_byKey b k = Some i" using k by simp
      then obtain q where "bk_receipts b i = Some q" "tr_IdempotencyKey q = k" using assms(2) unfolding keys_sound_def by blast
      then show ?thesis using fresh by auto
    qed
  qed
qed

lemma commits_book_inv: "commits lib b c r \<Longrightarrow> book_inv lib b \<Longrightarrow> book_inv lib (book_after b c r)"
  by (simp add: book_inv_def commits_slots_led commits_receipts_sound commits_keys_sound)

subsection \<open>The contract\<close>

locale route_ledger =
  fixes lib :: golib
    and view :: "'s \<Rightarrow> route_book"
    and step :: "'s \<Rightarrow> 's \<Rightarrow> bool"
    and start :: 's
  assumes starts_empty: "view start = empty_book"
    and steps_commit: "step s s' \<Longrightarrow> view s' = view s \<or> (\<exists>c r. commits lib (view s) c r \<and> view s' = book_after (view s) c r)"
begin

lemma step_inv: "step s s' \<Longrightarrow> book_inv lib (view s) \<Longrightarrow> book_inv lib (view s')"
  using steps_commit commits_book_inv by metis

lemma reachable_inv: "step\<^sup>*\<^sup>* start s \<Longrightarrow> book_inv lib (view s)"
  by (induction rule: rtranclp_induct) (simp_all add: starts_empty step_inv)

lemma step_append_only:
  assumes "step s s'"
  shows "bk_receipts (view s) \<subseteq>\<^sub>m bk_receipts (view s')" "bk_byKey (view s) \<subseteq>\<^sub>m bk_byKey (view s')"
  using steps_commit [OF assms] by (auto simp: commits_def fresh_map_le)

lemma append_only:
  "step\<^sup>*\<^sup>* s s' \<Longrightarrow> bk_receipts (view s) \<subseteq>\<^sub>m bk_receipts (view s') \<and> bk_byKey (view s) \<subseteq>\<^sub>m bk_byKey (view s')"
  by (induction rule: rtranclp_induct) (auto intro: map_le_trans dest: step_append_only)

lemma slot_lineage:
  assumes "step\<^sup>*\<^sup>* start s" "bk_slots (view s) i = Some sl"
  shows "\<exists>r n. bk_receipts (view s) (sl_LatestReceiptID sl) = Some r \<and> lineage (bk_receipts (view s)) i n r
     \<and> sl_ID sl = i \<and> sl_Generation sl = of_nat n \<and> sl_Generation sl = tr_CommittedGeneration r \<and> tr_New r = sl_Current sl"
proof -
  have "slots_led (view s)" using reachable_inv [OF assms(1)] by (simp add: book_inv_def)
  then obtain r n where "sl_ID sl = i" "bk_receipts (view s) (sl_LatestReceiptID sl) = Some r" "lineage (bk_receipts (view s)) i n r"
      "tr_CommittedGeneration r = sl_Generation sl" "tr_New r = sl_Current sl" using assms(2) unfolding slots_led_def by blast
  then show ?thesis using lineage_generation by metis
qed

lemma other_slots:
  "step s s' \<Longrightarrow> \<exists>i. \<forall>j. j \<noteq> i \<longrightarrow> bk_slots (view s') j = bk_slots (view s) j"
  using steps_commit [of s s'] by auto

end

subsection \<open>The in-memory ledger keeps the contract\<close>

definition mem_book :: "MemoryLedger \<Rightarrow> route_book" where
  "mem_book l = \<lparr>bk_slots = ml_slots l, bk_receipts = ml_receipts l, bk_byKey = ml_byKey l\<rparr>"

text \<open>What the ledger relies on from its surroundings: a new receipt gets an identifier that parses as a UUID and that no
  receipt has, and the clock does not show Go's zero time.\<close>

definition receipt_env :: "golib \<Rightarrow> (string \<rightharpoonup> TransitionReceipt) \<Rightarrow> string \<Rightarrow> gotime \<Rightarrow> TransitionCommand \<Rightarrow> bool" where
  "receipt_env lib receipts uuid now c \<longleftrightarrow>
     (let i = tr_ID (newReceipt lib uuid c 0 now) in receipts i = None \<and> uuid_parses lib i) \<and> now \<noteq> 0"

inductive mem_step :: "golib \<Rightarrow> MemoryLedger \<Rightarrow> MemoryLedger \<Rightarrow> bool" for lib where
  mem_transition:
    "MemoryLedger_Transition lib canceled uuid now l c = Inr (slot, r, l') \<Longrightarrow>
     ml_byKey l (tc_IdempotencyKey (normalized c)) = None \<longrightarrow> receipt_env lib (ml_receipts l) uuid now (normalized c) \<Longrightarrow> mem_step lib l l'"
| mem_transition_evidence:
    "TransitionWithEvidence lib canceled uuid now l c es = Inr (slot, r, l') \<Longrightarrow>
     ml_byKey l (tc_IdempotencyKey (normalized c)) = None \<longrightarrow> receipt_env lib (ml_receipts l) uuid now (normalized c) \<Longrightarrow> mem_step lib l l'"
| mem_pin:
    "MemoryLedger_PinAuthorizationEvidence lib canceled l e = Inr (e', l') \<Longrightarrow> mem_step lib l l'"

lemma mem_book_simps [simp]: "bk_slots (mem_book l) = ml_slots l" "bk_receipts (mem_book l) = ml_receipts l" "bk_byKey (mem_book l) = ml_byKey l"
  by (simp_all add: mem_book_def)

lemma mem_book_evidence [simp]: "mem_book (l\<lparr>ml_evidence := e\<rparr>) = mem_book l"
  by (simp add: mem_book_def)

lemma newReceipt_fields [simp]:
  "tr_CommittedGeneration (newReceipt lib u c g t) = g" "tr_CommittedAt (newReceipt lib u c g t) = t"
  by (simp_all add: newReceipt_def)

lemma newReceipt_ID: "tr_ID (newReceipt lib u c g t) = tr_ID (newReceipt lib u c 0 now)"
  by (simp add: newReceipt_def)

lemma transitionLocked_view:
  assumes "transitionLocked lib uuid now l c = Inr (slot, r, l')" "normalized c = c" "TransitionCommand_Validate lib c = None"
    and env: "ml_byKey l (tc_IdempotencyKey c) = None \<longrightarrow> receipt_env lib (ml_receipts l) uuid now c"
  shows "mem_book l' = mem_book l \<or> commits lib (mem_book l) c r \<and> mem_book l' = book_after (mem_book l) c r"
proof (cases "ml_byKey l (tc_IdempotencyKey c)")
  case (Some i)
  then have "l' = l" using assms(1) by (auto simp: transitionLocked_def Let_def split: if_splits)
  then show ?thesis by simp
next
  case None
  let ?g = "next_generation (ml_slots l (tc_RouteSlotID c))"
  have g: "transition_guard (ml_receipts l) (ml_slots l (tc_RouteSlotID c)) c = None"
    using assms(1) None by (auto simp: transitionLocked_def Let_def split: option.splits)
  have r: "r = newReceipt lib uuid c ?g now" and l': "mem_book l' = book_after (mem_book l) c r"
    using assms(1) None g by (auto simp: transitionLocked_def Let_def mem_book_def book_after_def committed_slot_def split: if_splits)
  have "ml_receipts l (tr_ID r) = None" "uuid_parses lib (tr_ID r)" "now \<noteq> 0"
    using env None newReceipt_ID [of lib uuid c ?g now now] by (auto simp: receipt_env_def Let_def r)
  then have "commits lib (mem_book l) c r"
    using assms(2,3) None g new_receipt_matches [of lib uuid c ?g now] by (simp add: commits_def) (simp add: r)
  then show ?thesis using l' by blast
qed

lemma mem_step_view:
  assumes "mem_step lib l l'"
  shows "mem_book l' = mem_book l \<or> (\<exists>c r. commits lib (mem_book l) c r \<and> mem_book l' = book_after (mem_book l) c r)"
  using assms
proof cases
  case (mem_transition canceled uuid now c slot r)
  then have "transitionLocked lib uuid now l (normalized c) = Inr (slot, r, l')" "TransitionCommand_Validate lib (normalized c) = None"
    by (auto simp: MemoryLedger_Transition_def Let_def split: if_splits option.splits)
  then show ?thesis using transitionLocked_view [of lib uuid now l "normalized c" slot r l'] mem_transition(2) normalized_idem by blast
next
  case (mem_transition_evidence canceled uuid now c es slot r)
  then obtain m where "transitionLocked lib uuid now l (normalized c) = Inr (slot, r, m)" "TransitionCommand_Validate lib (normalized c) = None"
      "mem_book l' = mem_book m"
    by (auto simp: TransitionWithEvidence_def Let_def split: if_splits option.splits sum.splits)
  then show ?thesis using transitionLocked_view [of lib uuid now l "normalized c" slot r m] mem_transition_evidence(2) normalized_idem by metis
next
  case (mem_pin canceled e e')
  then show ?thesis by (auto simp: MemoryLedger_PinAuthorizationEvidence_def split: if_splits option.splits)
qed

interpretation mem: route_ledger lib mem_book "mem_step lib" NewMemoryLedger for lib
  by unfold_locales (simp add: NewMemoryLedger_def mem_book_def empty_book_def, rule mem_step_view)

end
