(* ===== verification/Route_SQL.thy ===== *)
theory Route_SQL
  imports Route_Lineage
begin

text \<open>
  The durable route ledger (\<^verbatim>\<open>src/internal/routeledger/sql_ledger.go\<close>): its tables, the row readers with their validation,
  pinned authorization evidence and the serializable transition. Every statement can fail, and a commit that is
  reported as failed may have taken effect. \<open>coltime\<close> is the rounding of a time stamp by its column; a column of JSON
  holds the value it encodes; a transaction that does not commit leaves no trace. The column \<^verbatim>\<open>updated_at\<close> of a slot,
  which nothing reads, is left out.
\<close>

subsection \<open>Tables\<close>

record route_db =
  rd_inputs :: input_tables
  rd_slots :: "string \<rightharpoonup> Slot"
  rd_receipts :: "TransitionReceipt list"
  rd_evidence :: "string \<rightharpoonup> AuthorizationEvidence"
  rd_modes :: "string \<rightharpoonup> string \<times> string \<times> gotime"

datatype route_stmt = TxBegin | InputStmt input_stmt | InsertEvidence | QueryEvidence | QueryKey | QuerySlot | QueryReceipt
  | InsertReceipt | MutateSlot | RowsAffected | InsertSlot | InsertMode | QueryMode

datatype commit_outcome = CommitDone | CommitRefused | CommitLost

definition EnsureSchema :: route_db where
  "EnsureSchema = \<lparr>rd_inputs = EnsureSchema_inputs, rd_slots = Map.empty, rd_receipts = [], rd_evidence = Map.empty, rd_modes = Map.empty\<rparr>"

definition version_pinned :: "route_db \<Rightarrow> ComputerVersion \<Rightarrow> bool" where
  "version_pinned db v \<longleftrightarrow> it_code (rd_inputs db) (cv_CodeRef v) \<noteq> None \<and> it_program (rd_inputs db) (cv_ArtifactProgramRef v) \<noteq> None"

definition receipt_by_id :: "route_db \<Rightarrow> string \<Rightarrow> TransitionReceipt option" where
  "receipt_by_id db i = List.find (\<lambda>r. tr_ID r = i) (rd_receipts db)"

definition receipt_by_key :: "route_db \<Rightarrow> string \<Rightarrow> TransitionReceipt option" where
  "receipt_by_key db k = List.find (\<lambda>r. tr_IdempotencyKey r = k) (rd_receipts db)"

subsection \<open>Readers\<close>

definition querySlot :: "golib \<Rightarrow> (route_stmt \<Rightarrow> bool) \<Rightarrow> route_db \<Rightarrow> string \<Rightarrow> route_error + Slot" where
  "querySlot lib ok db slotID =
     (if \<not> ok QuerySlot then Inl StatementFailed
      else case rd_slots db slotID of None \<Rightarrow> Inl ErrSlotNotFound
      | Some s \<Rightarrow> if \<not> ComputerVersion_Valid (sl_Current s) \<or> \<not> validReceiptID lib (sl_LatestReceiptID s) \<or> sl_Generation s = 0
          then Inl PersistedSlotInvalid else Inr s)"

definition queryReceipt :: "golib \<Rightarrow> bool \<Rightarrow> TransitionReceipt option \<Rightarrow> route_error + TransitionReceipt" where
  "queryReceipt lib ok row =
     (if \<not> ok then Inl StatementFailed
      else case row of None \<Rightarrow> Inl NoRows
      | Some r \<Rightarrow> (case TransitionReceipt_Validate lib r of Some e \<Rightarrow> Inl e | None \<Rightarrow> Inr r))"

definition queryReceiptByID :: "golib \<Rightarrow> (route_stmt \<Rightarrow> bool) \<Rightarrow> route_db \<Rightarrow> string \<Rightarrow> route_error + TransitionReceipt" where
  "queryReceiptByID lib ok db receiptID = queryReceipt lib (ok QueryReceipt) (receipt_by_id db receiptID)"

definition queryReceiptByIdempotencyKey :: "golib \<Rightarrow> (route_stmt \<Rightarrow> bool) \<Rightarrow> route_db \<Rightarrow> string \<Rightarrow> route_error + TransitionReceipt" where
  "queryReceiptByIdempotencyKey lib ok db k = queryReceipt lib (ok QueryKey) (receipt_by_key db k)"

definition queryAuthorizationEvidence :: "golib \<Rightarrow> (route_stmt \<Rightarrow> bool) \<Rightarrow> route_db \<Rightarrow> string \<Rightarrow> route_error + AuthorizationEvidence" where
  "queryAuthorizationEvidence lib ok db ref =
     (if \<not> ok QueryEvidence then Inl StatementFailed
      else case rd_evidence db ref of None \<Rightarrow> Inl EvidenceNotFound
      | Some e \<Rightarrow> if ae_Ref e \<noteq> ref then Inl EvidenceRefMismatch
          else (case AuthorizationEvidence_Validate lib e of Some err \<Rightarrow> Inl err | None \<Rightarrow> Inr e))"

definition SQLLedger_Resolve :: "golib \<Rightarrow> (route_stmt \<Rightarrow> bool) \<Rightarrow> route_db \<Rightarrow> string \<Rightarrow> route_error + Slot \<times> TransitionReceipt" where
  "SQLLedger_Resolve lib ok db slotID =
     (let slotID = trimSpace slotID in
      if slotID = [] then Inl SlotIDRequired
      else case querySlot lib ok db slotID of Inl e \<Rightarrow> Inl e
      | Inr s \<Rightarrow> (case queryReceiptByID lib ok db (sl_LatestReceiptID s) of Inl e \<Rightarrow> Inl (LatestReceipt e)
        | Inr r \<Rightarrow>
          if tr_RouteSlotID r \<noteq> sl_ID s \<or> tr_CommittedGeneration r \<noteq> sl_Generation s \<or> \<not> SameVersion (tr_New r) (sl_Current s)
          then Inl SlotReceiptDisagree else Inr (s, r)))"

subsection \<open>Evidence\<close>

definition pinAuthorizationEvidenceSQL :: "golib \<Rightarrow> (route_stmt \<Rightarrow> bool) \<Rightarrow> route_db \<Rightarrow> AuthorizationEvidence \<Rightarrow> (route_error + AuthorizationEvidence) \<times> route_db" where
  "pinAuthorizationEvidenceSQL lib ok db e =
     (case AuthorizationEvidence_Validate lib e of Some err \<Rightarrow> (Inl err, db)
      | None \<Rightarrow> (case marshal_evidence lib e of None \<Rightarrow> (Inl EvidenceEncode, db)
        | Some encoded \<Rightarrow>
          if \<not> ok InsertEvidence \<or> rd_evidence db (ae_Ref e) = None \<and> \<not> version_pinned db (ae_ComputerVersion e) then (Inl StatementFailed, db)
          else let db = (if rd_evidence db (ae_Ref e) = None then db\<lparr>rd_evidence := (rd_evidence db)(ae_Ref e \<mapsto> encoded)\<rparr> else db) in
            (case queryAuthorizationEvidence lib ok db (ae_Ref e) of Inl err \<Rightarrow> (Inl err, db)
             | Inr resolved \<Rightarrow>
                if marshal_evidence lib resolved \<noteq> Some encoded then (Inl EvidenceCollision, db) else (Inr resolved, db))))"

definition PinAuthorizationEvidence :: "golib \<Rightarrow> (route_stmt \<Rightarrow> bool) \<Rightarrow> route_db \<Rightarrow> AuthorizationEvidence \<Rightarrow> (route_error + AuthorizationEvidence) \<times> route_db" where
  "PinAuthorizationEvidence = pinAuthorizationEvidenceSQL"

definition ResolveAuthorizationEvidence :: "golib \<Rightarrow> (route_stmt \<Rightarrow> bool) \<Rightarrow> route_db \<Rightarrow> string \<Rightarrow> route_error + AuthorizationEvidence" where
  "ResolveAuthorizationEvidence = queryAuthorizationEvidence"

definition verifyTransitionEvidenceSQL :: "golib \<Rightarrow> (route_stmt \<Rightarrow> bool) \<Rightarrow> route_db \<Rightarrow> TransitionCommand \<Rightarrow> route_error option" where
  "verifyTransitionEvidenceSQL lib ok db c =
     (case queryAuthorizationEvidence lib ok db (tc_ApprovalRef c) of Inl e \<Rightarrow> Some e
      | Inr a \<Rightarrow> (case queryAuthorizationEvidence lib ok db (tc_PromotionCertificateRef c) of Inl e \<Rightarrow> Some e
         | Inr p \<Rightarrow> if \<not> evidence_binds a p c then Some EvidenceUnbound else None))"

definition VerifyTransitionEvidence :: "golib \<Rightarrow> (route_stmt \<Rightarrow> bool) \<Rightarrow> route_db \<Rightarrow> TransitionCommand \<Rightarrow> route_error option" where
  "VerifyTransitionEvidence lib ok db c = verifyTransitionEvidenceSQL lib ok db (normalized c)"

fun pin_all :: "golib \<Rightarrow> (route_stmt \<Rightarrow> bool) \<Rightarrow> route_db \<Rightarrow> AuthorizationEvidence list \<Rightarrow> route_error + route_db" where
  "pin_all lib ok db [] = Inr db"
| "pin_all lib ok db (e # es) =
     (case pinAuthorizationEvidenceSQL lib ok db e of (Inl err, _) \<Rightarrow> Inl err | (Inr _, db) \<Rightarrow> pin_all lib ok db es)"

subsection \<open>The transition\<close>

definition receipt_insertable :: "route_db \<Rightarrow> TransitionReceipt \<Rightarrow> bool" where
  "receipt_insertable db r \<longleftrightarrow> receipt_by_id db (tr_ID r) = None \<and> receipt_by_key db (tr_IdempotencyKey r) = None \<and> version_pinned db (tr_New r)
     \<and> rd_evidence db (tr_ApprovalRef r) \<noteq> None \<and> rd_evidence db (tr_PromotionCertificateRef r) \<noteq> None"

text \<open>The guarded statements on the slot row: the update and the deletion repeat the expected state in their conditions and
  report how many rows they changed.\<close>

definition mutate_slot :: "(route_stmt \<Rightarrow> bool) \<Rightarrow> route_db \<Rightarrow> TransitionCommand \<Rightarrow> TransitionReceipt \<Rightarrow> Slot option \<Rightarrow> route_error + route_db" where
  "mutate_slot ok db c r current =
     (case current of
        None \<Rightarrow>
          if \<not> ok InsertSlot \<or> rd_slots db (tc_RouteSlotID c) \<noteq> None \<or> \<not> version_pinned db (tr_New r) then Inl StatementFailed
          else Inr (db\<lparr>rd_slots := (rd_slots db)(tc_RouteSlotID c \<mapsto> committed_slot c (tr_CommittedGeneration r) (tr_ID r))\<rparr>)
      | Some _ \<Rightarrow>
          let row = rd_slots db (tc_RouteSlotID c);
              matches = (case row of None \<Rightarrow> False | Some s \<Rightarrow> sl_Generation s = tc_ExpectedGeneration c \<and> SameVersion (sl_Current s) (tc_Old c)
                  \<and> (tc_Kind c = TransitionBootstrapRollback \<longrightarrow> sl_LatestReceiptID s = tc_RollbackTargetReceiptID c)) in
          if \<not> ok MutateSlot \<or> tc_Kind c \<noteq> TransitionBootstrapRollback \<and> \<not> version_pinned db (tr_New r) then Inl StatementFailed
          else if \<not> ok RowsAffected then Inl StatementFailed
          else if \<not> matches then Inl ErrStaleTransition
          else Inr (db\<lparr>rd_slots := (rd_slots db)(tc_RouteSlotID c :=
            (if tc_Kind c = TransitionBootstrapRollback then None else Some (committed_slot c (tr_CommittedGeneration r) (tr_ID r))))\<rparr>))"

definition transition_replay :: "golib \<Rightarrow> (route_stmt \<Rightarrow> bool) \<Rightarrow> route_db \<Rightarrow> TransitionCommand \<Rightarrow> TransitionReceipt \<Rightarrow> route_error + Slot \<times> TransitionReceipt" where
  "transition_replay lib ok db c replayed =
     (if \<not> receiptMatchesCommand replayed c then Inl ErrIdempotencyReuse
      else case querySlot lib ok db (tr_RouteSlotID replayed) of
        Inl e \<Rightarrow> if tc_Kind c = TransitionBootstrapRollback \<and> e = ErrSlotNotFound then Inr (no_slot, replayed) else Inl (IdempotentSlot e)
      | Inr current \<Rightarrow> if tc_Kind c = TransitionBootstrapRollback then Inl ErrStaleTransition else Inr (current, replayed))"

definition transition_new ::
  "golib \<Rightarrow> (gotime \<Rightarrow> gotime) \<Rightarrow> (route_stmt \<Rightarrow> bool) \<Rightarrow> string \<Rightarrow> gotime \<Rightarrow> route_db \<Rightarrow> TransitionCommand \<Rightarrow> bool
    \<Rightarrow> route_error + Slot \<times> TransitionReceipt \<times> route_db" where
  "transition_new lib coltime ok uuid now db c protect =
     (let found = (case querySlot lib ok db (tc_RouteSlotID c) of
        Inl e \<Rightarrow> if e = ErrSlotNotFound then Inr None else Inl e
      | Inr s \<Rightarrow> Inr (Some s)) in
      case found of Inl e \<Rightarrow> Inl e
      | Inr current \<Rightarrow>
        (case transition_guard (\<lambda>i. case queryReceiptByID lib ok db i of Inl _ \<Rightarrow> None | Inr t \<Rightarrow> Some t) current c of Some e \<Rightarrow> Inl e
         | None \<Rightarrow>
           let generation = next_generation current;
               receipt = newReceipt lib uuid c generation now in
           if \<not> ok InsertReceipt \<or> \<not> receipt_insertable db receipt then Inl StatementFailed
           else case mutate_slot ok (db\<lparr>rd_receipts := rd_receipts db @ [receipt\<lparr>tr_CommittedAt := coltime now\<rparr>]\<rparr>) c receipt current of Inl e \<Rightarrow> Inl e
           | Inr db \<Rightarrow>
             if protect \<and> \<not> ok InsertMode then Inl StatementFailed
             else let db = (if protect then db\<lparr>rd_modes := (rd_modes db)(tc_RouteSlotID c \<mapsto>
                              (''self_development_certificate'', tc_PromotionCertificateRef c, coltime now))\<rparr> else db) in
               Inr (if tc_Kind c = TransitionBootstrapRollback then no_slot else committed_slot c generation (tr_ID receipt), receipt, db)))"

definition transition_tx ::
  "golib \<Rightarrow> (gotime \<Rightarrow> gotime) \<Rightarrow> (route_stmt \<Rightarrow> bool) \<Rightarrow> string \<Rightarrow> gotime \<Rightarrow> route_db \<Rightarrow> TransitionCommand \<Rightarrow> AuthorizationEvidence list \<Rightarrow> bool
    \<Rightarrow> route_error + Slot \<times> TransitionReceipt \<times> route_db option" where
  "transition_tx lib coltime ok uuid now db c evidence protect =
     (case VerifySQLInputsInTransition lib (\<lambda>s. ok (InputStmt s)) (rd_inputs db) (tc_New c) of Some e \<Rightarrow> Inl (InputsUnverified e)
      | None \<Rightarrow> (case pin_all lib ok db evidence of Inl e \<Rightarrow> Inl e
        | Inr db \<Rightarrow> (case verifyTransitionEvidenceSQL lib ok db c of Some e \<Rightarrow> Inl e
          | None \<Rightarrow> (case queryReceiptByIdempotencyKey lib ok db (tc_IdempotencyKey c) of
              Inr replayed \<Rightarrow> (case transition_replay lib ok db c replayed of Inl e \<Rightarrow> Inl e | Inr (slot, r) \<Rightarrow> Inr (slot, r, None))
            | Inl e \<Rightarrow> if e \<noteq> NoRows then Inl e
                else (case transition_new lib coltime ok uuid now db c protect of Inl e \<Rightarrow> Inl e
                  | Inr (slot, r, db) \<Rightarrow> Inr (slot, r, Some db))))))"

definition transitionValidated ::
  "golib \<Rightarrow> (gotime \<Rightarrow> gotime) \<Rightarrow> (route_stmt \<Rightarrow> bool) \<Rightarrow> commit_outcome \<Rightarrow> string \<Rightarrow> gotime \<Rightarrow> route_db \<Rightarrow> TransitionCommand
    \<Rightarrow> AuthorizationEvidence list \<Rightarrow> bool \<Rightarrow> (route_error + Slot \<times> TransitionReceipt) \<times> route_db" where
  "transitionValidated lib coltime ok commit uuid now db command evidence protect =
     (let c = normalized command in
      case TransitionCommand_Validate lib c of Some e \<Rightarrow> (Inl e, db)
      | None \<Rightarrow>
        if \<not> ok TxBegin then (Inl StatementFailed, db)
        else case transition_tx lib coltime ok uuid now db c evidence protect of Inl e \<Rightarrow> (Inl e, db)
        | Inr (slot, r, None) \<Rightarrow> (Inr (slot, r), db)
        | Inr (slot, r, Some db') \<Rightarrow>
            (case commit of CommitDone \<Rightarrow> (Inr (slot, r), db') | CommitRefused \<Rightarrow> (Inl CommitFailed, db) | CommitLost \<Rightarrow> (Inl CommitFailed, db')))"

definition ApplySelfDevelopmentTransition ::
  "golib \<Rightarrow> (gotime \<Rightarrow> gotime) \<Rightarrow> (route_stmt \<Rightarrow> bool) \<Rightarrow> commit_outcome \<Rightarrow> string \<Rightarrow> gotime \<Rightarrow> route_db \<Rightarrow> TransitionCommand
    \<Rightarrow> AuthorizationEvidence list \<Rightarrow> (route_error + Slot \<times> TransitionReceipt) \<times> route_db" where
  "ApplySelfDevelopmentTransition lib coltime ok commit uuid now db command evidence =
     (if evidence = [] then (Inl EvidenceRequired, db)
      else transitionValidated lib coltime ok commit uuid now db command evidence True)"

definition SelfDevelopmentRouteProtected :: "(route_stmt \<Rightarrow> bool) \<Rightarrow> route_db \<Rightarrow> string \<Rightarrow> route_error + bool" where
  "SelfDevelopmentRouteProtected ok db slotID =
     (if \<not> ok QueryMode then Inl StatementFailed
      else case rd_modes db slotID of None \<Rightarrow> Inr False | Some (mode, _, _) \<Rightarrow> Inr (mode = ''self_development_certificate''))"

subsection \<open>The tables keep the contract of a route ledger\<close>

definition sql_book :: "route_db \<Rightarrow> route_book" where
  "sql_book db = \<lparr>bk_slots = rd_slots db, bk_receipts = receipt_by_id db, bk_byKey = (\<lambda>k. map_option tr_ID (receipt_by_key db k))\<rparr>"

lemma sql_book_simps [simp]: "bk_slots (sql_book db) = rd_slots db" "bk_receipts (sql_book db) = receipt_by_id db"
  "bk_byKey (sql_book db) k = map_option tr_ID (receipt_by_key db k)"
  by (simp_all add: sql_book_def)

lemma find_snoc: "List.find P (xs @ [x]) = (case List.find P xs of None \<Rightarrow> if P x then Some x else None | Some y \<Rightarrow> Some y)"
  by (induction xs) auto

lemma receipt_by_id_ID: "receipt_by_id db i = Some r \<Longrightarrow> tr_ID r = i"
  by (auto simp: receipt_by_id_def find_Some_iff)

lemma receipt_by_key_key: "receipt_by_key db k = Some r \<Longrightarrow> tr_IdempotencyKey r = k"
  by (auto simp: receipt_by_key_def find_Some_iff)

lemma append_receipt:
  assumes "receipt_by_id db (tr_ID r) = None" "receipt_by_key db (tr_IdempotencyKey r) = None" "rd_receipts db' = rd_receipts db @ [r]"
  shows "receipt_by_id db' = (receipt_by_id db)(tr_ID r \<mapsto> r)" "receipt_by_key db' = (receipt_by_key db)(tr_IdempotencyKey r \<mapsto> r)"
  using assms by (auto simp: receipt_by_id_def receipt_by_key_def find_snoc fun_eq_iff split: option.splits)

lemma transition_guard_mono:
  "transition_guard m cur c = None \<Longrightarrow> m \<subseteq>\<^sub>m m' \<Longrightarrow> transition_guard m' cur c = None"
  by (auto simp: transition_guard_def map_le_def dom_def split: option.splits if_splits)

lemma validated_lookup_le: "(\<lambda>i. case queryReceiptByID lib ok db i of Inl _ \<Rightarrow> None | Inr t \<Rightarrow> Some t) \<subseteq>\<^sub>m receipt_by_id db"
  by (auto simp: map_le_def queryReceiptByID_def queryReceipt_def split: sum.splits option.splits if_splits)

lemma querySlot_Inr: "querySlot lib ok db i = Inr s \<Longrightarrow> rd_slots db i = Some s \<and> ok QuerySlot"
  by (auto simp: querySlot_def split: if_splits option.splits)

lemma querySlot_absent: "querySlot lib ok db i = Inl ErrSlotNotFound \<Longrightarrow> rd_slots db i = None"
  by (auto simp: querySlot_def split: if_splits option.splits)

lemma mutate_slot_Inr:
  assumes "mutate_slot ok db c r current = Inr db'" "tc_Kind c = TransitionBootstrapRollback \<longrightarrow> current \<noteq> None"
  shows "db' = db\<lparr>rd_slots := (rd_slots db)(tc_RouteSlotID c :=
    (if tc_Kind c = TransitionBootstrapRollback then None else Some (committed_slot c (tr_CommittedGeneration r) (tr_ID r))))\<rparr>"
  using assms by (auto simp: mutate_slot_def Let_def split: option.splits if_splits)

definition stored_receipt :: "(gotime \<Rightarrow> gotime) \<Rightarrow> TransitionReceipt \<Rightarrow> TransitionReceipt" where
  "stored_receipt coltime r = r\<lparr>tr_CommittedAt := coltime (tr_CommittedAt r)\<rparr>"

lemma stored_receipt_simps [simp]:
  "tr_ID (stored_receipt ct r) = tr_ID r" "tr_IdempotencyKey (stored_receipt ct r) = tr_IdempotencyKey r"
  "tr_CommittedGeneration (stored_receipt ct r) = tr_CommittedGeneration r" "tr_CommittedAt (stored_receipt ct r) = ct (tr_CommittedAt r)"
  "tr_ApprovalRef (stored_receipt ct r) = tr_ApprovalRef r" "tr_PromotionCertificateRef (stored_receipt ct r) = tr_PromotionCertificateRef r"
  "tr_RouteSlotID (stored_receipt ct r) = tr_RouteSlotID r" "tr_New (stored_receipt ct r) = tr_New r"
  "receiptMatchesCommand (stored_receipt ct r) c = receiptMatchesCommand r c"
  by (simp_all add: stored_receipt_def receiptMatchesCommand_def)

definition sql_env :: "golib \<Rightarrow> (gotime \<Rightarrow> gotime) \<Rightarrow> string \<Rightarrow> gotime \<Rightarrow> TransitionCommand \<Rightarrow> bool" where
  "sql_env lib coltime uuid now c \<longleftrightarrow> uuid_parses lib (tr_ID (newReceipt lib uuid c 0 now)) \<and> coltime now \<noteq> 0"

lemma transition_new_Inr:
  assumes t: "transition_new lib coltime ok uuid now db c protect = Inr (slot, r, db')"
  defines "current \<equiv> rd_slots db (tc_RouteSlotID c)"
  shows "transition_guard (receipt_by_id db) current c = None" "r = newReceipt lib uuid c (next_generation current) now"
    "receipt_insertable db r" "rd_receipts db' = rd_receipts db @ [stored_receipt coltime r]"
    "rd_slots db' = (rd_slots db)(tc_RouteSlotID c :=
       (if tc_Kind c = TransitionBootstrapRollback then None else Some (committed_slot c (tr_CommittedGeneration r) (tr_ID r))))"
    "slot = (if tc_Kind c = TransitionBootstrapRollback then no_slot else committed_slot c (tr_CommittedGeneration r) (tr_ID r))"
    "rd_inputs db' = rd_inputs db" "rd_evidence db' = rd_evidence db"
proof -
  let ?look = "\<lambda>i. case queryReceiptByID lib ok db i of Inl _ \<Rightarrow> None | Inr q \<Rightarrow> Some q"
  let ?r = "newReceipt lib uuid c (next_generation current) now"
  let ?db = "db\<lparr>rd_receipts := rd_receipts db @ [?r\<lparr>tr_CommittedAt := coltime now\<rparr>]\<rparr>"
  have found: "(case querySlot lib ok db (tc_RouteSlotID c) of Inl e \<Rightarrow> if e = ErrSlotNotFound then Inr None else Inl e | Inr s \<Rightarrow> Inr (Some s)) = Inr current"
    using t querySlot_Inr querySlot_absent unfolding current_def
    by (fastforce simp: transition_new_def Let_def split: sum.splits if_splits)
  have g: "transition_guard ?look current c = None" and ins: "receipt_insertable db ?r"
    using t unfolding transition_new_def found Let_def by (auto split: option.splits if_splits)
  obtain db1 where m: "mutate_slot ok ?db c ?r current = Inr db1"
    using t g ins unfolding transition_new_def found Let_def by (auto split: sum.splits if_splits)
  have k: "tc_Kind c = TransitionBootstrapRollback \<longrightarrow> current \<noteq> None" using g by (auto simp: transition_guard_def split: option.splits)
  have rest: "r = ?r \<and> slot = (if tc_Kind c = TransitionBootstrapRollback then no_slot else committed_slot c (next_generation current) (tr_ID ?r))
      \<and> rd_receipts db' = rd_receipts db1 \<and> rd_slots db' = rd_slots db1 \<and> rd_inputs db' = rd_inputs db1 \<and> rd_evidence db' = rd_evidence db1"
    using t g ins m unfolding transition_new_def found Let_def by (auto split: if_splits)
  note d = mutate_slot_Inr [OF m k]
  show "transition_guard (receipt_by_id db) current c = None" using transition_guard_mono [OF g validated_lookup_le] .
  show r: "r = ?r" "receipt_insertable db r" using rest ins by simp_all
  show "rd_receipts db' = rd_receipts db @ [stored_receipt coltime r]" using rest by (simp add: d stored_receipt_def)
  show "rd_slots db' = (rd_slots db)(tc_RouteSlotID c :=
       (if tc_Kind c = TransitionBootstrapRollback then None else Some (committed_slot c (tr_CommittedGeneration r) (tr_ID r))))"
    using rest by (simp add: d)
  show "slot = (if tc_Kind c = TransitionBootstrapRollback then no_slot else committed_slot c (tr_CommittedGeneration r) (tr_ID r))"
    "rd_inputs db' = rd_inputs db" "rd_evidence db' = rd_evidence db" using rest by (simp_all add: d)
qed

lemma transition_new_commits:
  assumes t: "transition_new lib coltime ok uuid now db c protect = Inr (slot, r, db')"
    and c: "normalized c = c" "TransitionCommand_Validate lib c = None" and env: "sql_env lib coltime uuid now c"
  shows "commits lib (sql_book db) c (stored_receipt coltime r)" "sql_book db' = book_after (sql_book db) c (stored_receipt coltime r)"
proof -
  note n = transition_new_Inr [OF t]
  let ?g = "next_generation (rd_slots db (tc_RouteSlotID c))"
  have fresh: "receipt_by_id db (tr_ID r) = None" "receipt_by_key db (tr_IdempotencyKey r) = None" using n(3) by (simp_all add: receipt_insertable_def)
  have m: "receiptMatchesCommand r c" unfolding n(2) by (rule new_receipt_matches)
  note f = matching_fields [OF m c(1)]
  have g: "tr_CommittedGeneration r = ?g" "tr_CommittedAt r = now" by (simp_all add: n(2))
  have "uuid_parses lib (tr_ID r)" "coltime now \<noteq> 0" using env newReceipt_ID [of lib uuid c ?g now now] by (simp_all add: sql_env_def n(2))
  then show "commits lib (sql_book db) c (stored_receipt coltime r)" using c n(1) fresh m g f by (simp add: commits_def)
  have "receipt_by_id db' = (receipt_by_id db)(tr_ID r \<mapsto> stored_receipt coltime r)" "receipt_by_key db' = (receipt_by_key db)(tc_IdempotencyKey c \<mapsto> stored_receipt coltime r)"
    using append_receipt [of db "stored_receipt coltime r" db'] fresh n(4) f by simp_all
  then show "sql_book db' = book_after (sql_book db) c (stored_receipt coltime r)"
    using n(5) by (simp add: sql_book_def book_after_def fun_eq_iff)
qed

lemma pin_evidence_db:
  assumes "pinAuthorizationEvidenceSQL lib ok db e = (res, db')"
  shows "\<exists>ev. db' = db\<lparr>rd_evidence := ev\<rparr> \<and> rd_evidence db \<subseteq>\<^sub>m ev"
proof -
  have "db' = db \<or> (\<exists>x. rd_evidence db (ae_Ref e) = None \<and> db' = db\<lparr>rd_evidence := (rd_evidence db)(ae_Ref e \<mapsto> x)\<rparr>)"
    using assms by (auto simp: pinAuthorizationEvidenceSQL_def Let_def split: option.splits sum.splits if_splits)
  then show ?thesis
  proof (elim disjE exE conjE)
    assume "db' = db" then show ?thesis by (intro exI [of _ "rd_evidence db"]) simp
  next
    fix x assume "rd_evidence db (ae_Ref e) = None" "db' = db\<lparr>rd_evidence := (rd_evidence db)(ae_Ref e \<mapsto> x)\<rparr>"
    then show ?thesis using fresh_map_le [of "rd_evidence db" "ae_Ref e" x] by (intro exI [of _ "(rd_evidence db)(ae_Ref e \<mapsto> x)"]) simp
  qed
qed

lemma pin_all_db: "pin_all lib ok db es = Inr db' \<Longrightarrow> \<exists>ev. db' = db\<lparr>rd_evidence := ev\<rparr> \<and> rd_evidence db \<subseteq>\<^sub>m ev"
proof (induction lib ok db es rule: pin_all.induct)
  case (1 lib ok db)
  then show ?case by (intro exI [of _ "rd_evidence db"]) simp
next
  case (2 lib ok db e es)
  then obtain y db1 where p: "pinAuthorizationEvidenceSQL lib ok db e = (Inr y, db1)" "pin_all lib ok db1 es = Inr db'"
    by (auto split: prod.splits sum.splits)
  obtain ev1 where e1: "db1 = db\<lparr>rd_evidence := ev1\<rparr>" "rd_evidence db \<subseteq>\<^sub>m ev1" using pin_evidence_db [OF p(1)] by blast
  obtain ev2 where e2: "db' = db1\<lparr>rd_evidence := ev2\<rparr>" "rd_evidence db1 \<subseteq>\<^sub>m ev2"
    using 2(1) [OF p(1) [symmetric] refl p(2)] by blast
  have "db' = db\<lparr>rd_evidence := ev2\<rparr>" using e1(1) e2(1) by simp
  moreover have "rd_evidence db \<subseteq>\<^sub>m ev2" using map_le_trans [OF e1(2)] e1(1) e2(2) by simp
  ultimately show ?case by blast
qed

lemma evidence_only_view: "sql_book (db\<lparr>rd_evidence := ev\<rparr>) = sql_book db" "sql_book (db\<lparr>rd_inputs := t\<rparr>) = sql_book db"
  by (simp_all add: sql_book_def receipt_by_id_def receipt_by_key_def fun_eq_iff)

lemma transition_tx_cases:
  assumes "transition_tx lib coltime ok uuid now db c es protect = Inr (slot, r, res)"
  obtains (Replay) db1 q where "VerifySQLInputsInTransition lib (\<lambda>s. ok (InputStmt s)) (rd_inputs db) (tc_New c) = None"
      "pin_all lib ok db es = Inr db1" "verifyTransitionEvidenceSQL lib ok db1 c = None"
      "res = None" "queryReceiptByIdempotencyKey lib ok db1 (tc_IdempotencyKey c) = Inr q" "transition_replay lib ok db1 c q = Inr (slot, r)"
  | (New) db1 db2 where "VerifySQLInputsInTransition lib (\<lambda>s. ok (InputStmt s)) (rd_inputs db) (tc_New c) = None"
      "pin_all lib ok db es = Inr db1" "verifyTransitionEvidenceSQL lib ok db1 c = None"
      "res = Some db2" "queryReceiptByIdempotencyKey lib ok db1 (tc_IdempotencyKey c) = Inl NoRows"
      "transition_new lib coltime ok uuid now db1 c protect = Inr (slot, r, db2)"
  using assms unfolding transition_tx_def by (auto split: option.splits sum.splits prod.splits if_splits)

text \<open>The calls that change the tables: transitions with any outcome, pinning of evidence and pinning of inputs.\<close>

inductive sql_step :: "golib \<Rightarrow> (gotime \<Rightarrow> gotime) \<Rightarrow> artifact_check option \<Rightarrow> route_db \<Rightarrow> route_db \<Rightarrow> bool" for lib coltime verifier where
  sql_transition:
    "transitionValidated lib coltime ok commit uuid now db c es protect = (res, db') \<Longrightarrow> sql_env lib coltime uuid now (normalized c)
     \<Longrightarrow> sql_step lib coltime verifier db db'"
| sql_pin_evidence: "PinAuthorizationEvidence lib ok db e = (res, db') \<Longrightarrow> sql_step lib coltime verifier db db'"
| sql_pin_inputs: "pin_step lib verifier (rd_inputs db) t \<Longrightarrow> sql_step lib coltime verifier db (db\<lparr>rd_inputs := t\<rparr>)"

lemma transitionValidated_cases:
  assumes "transitionValidated lib coltime ok commit uuid now db c es protect = (res, db')"
  obtains (Unchanged) "db' = db"
  | (Changed) slot r where "transition_tx lib coltime ok uuid now db (normalized c) es protect = Inr (slot, r, Some db')"
      "TransitionCommand_Validate lib (normalized c) = None"
  using assms unfolding transitionValidated_def Let_def by (auto split: option.splits sum.splits prod.splits if_splits commit_outcome.splits)

lemma sql_step_view:
  assumes "sql_step lib coltime verifier db db'"
  shows "sql_book db' = sql_book db \<or> (\<exists>c r. commits lib (sql_book db) c r \<and> sql_book db' = book_after (sql_book db) c r)"
  using assms
proof cases
  case (sql_transition ok commit uuid now c es protect res)
  from sql_transition(1) show ?thesis
  proof (cases rule: transitionValidated_cases)
    case (Changed slot r)
    from Changed(1) obtain db1 where p: "pin_all lib ok db es = Inr db1" and n: "transition_new lib coltime ok uuid now db1 (normalized c) protect = Inr (slot, r, db')"
      by (cases rule: transition_tx_cases) auto
    have "sql_book db1 = sql_book db" using pin_all_db [OF p] evidence_only_view(1) by metis
    then show ?thesis using transition_new_commits [OF n normalized_idem Changed(2) sql_transition(2)] by metis
  qed simp
next
  case (sql_pin_evidence ok e res)
  then show ?thesis using pin_evidence_db evidence_only_view(1) unfolding PinAuthorizationEvidence_def by metis
next
  case (sql_pin_inputs t)
  then show ?thesis using evidence_only_view(2) by metis
qed

interpretation sql: route_ledger lib sql_book "sql_step lib coltime verifier" EnsureSchema for lib coltime verifier
proof unfold_locales
  show "sql_book EnsureSchema = empty_book"
    by (simp add: EnsureSchema_def sql_book_def empty_book_def receipt_by_id_def receipt_by_key_def fun_eq_iff)
qed (rule sql_step_view)

subsection \<open>Every receipt is backed by evidence\<close>

definition receipt_authorized :: "golib \<Rightarrow> route_db \<Rightarrow> TransitionReceipt \<Rightarrow> bool" where
  "receipt_authorized lib db r \<longleftrightarrow>
     (\<exists>a p. rd_evidence db (tr_ApprovalRef r) = Some a \<and> rd_evidence db (tr_PromotionCertificateRef r) = Some p
        \<and> AuthorizationEvidence_Validate lib a = None \<and> AuthorizationEvidence_Validate lib p = None
        \<and> ae_Ref a = tr_ApprovalRef r \<and> ae_Ref p = tr_PromotionCertificateRef r
        \<and> ae_Kind a = AuthorizationEvidenceApproval \<and> ae_Kind p = AuthorizationEvidencePromotionCertificate
        \<and> ae_RouteSlotID a = tr_RouteSlotID r \<and> ae_RouteSlotID p = tr_RouteSlotID r
        \<and> ae_ComputerVersion a = tr_New r \<and> ae_ComputerVersion p = tr_New r)
     \<and> (\<exists>k g. it_code (rd_inputs db) (cv_CodeRef (tr_New r)) = Some k \<and> it_program (rd_inputs db) (cv_ArtifactProgramRef (tr_New r)) = Some g
        \<and> CodeClosure_Verify lib k = None \<and> ArtifactProgram_Verify lib g = None)"

definition db_extend :: "route_db \<Rightarrow> route_db \<Rightarrow> bool" where
  "db_extend db db' \<longleftrightarrow> rd_evidence db \<subseteq>\<^sub>m rd_evidence db' \<and> inputs_extend (rd_inputs db) (rd_inputs db')"

lemma map_le_lookup: "m \<subseteq>\<^sub>m m' \<Longrightarrow> m k = Some v \<Longrightarrow> m' k = Some v"
  by (auto simp: map_le_def dom_def)

lemma receipt_authorized_mono: "receipt_authorized lib db r \<Longrightarrow> db_extend db db' \<Longrightarrow> receipt_authorized lib db' r"
  unfolding receipt_authorized_def db_extend_def inputs_extend_def by (elim conjE exE, intro conjI exI) (assumption | erule (1) map_le_lookup)+

lemma inputs_extend_refl [simp]: "inputs_extend t t"
  by (simp add: inputs_extend_def)

lemma queryAuthorizationEvidence_Inr:
  "queryAuthorizationEvidence lib ok db ref = Inr e \<longleftrightarrow> ok QueryEvidence \<and> rd_evidence db ref = Some e \<and> ae_Ref e = ref \<and> AuthorizationEvidence_Validate lib e = None"
  by (auto simp: queryAuthorizationEvidence_def split: option.splits)

lemma verified_inputs:
  assumes "VerifySQLInputsInTransition lib ok t v = None"
  shows "\<exists>k g. it_code t (cv_CodeRef v) = Some k \<and> it_program t (cv_ArtifactProgramRef v) = Some g
    \<and> CodeClosure_Verify lib k = None \<and> ArtifactProgram_Verify lib g = None"
  using assms by (auto simp: VerifySQLInputsInTransition_def resolveCodeSQL_def resolveArtifactProgramSQL_def split: option.splits sum.splits if_splits)

lemma verified_evidence:
  assumes "verifyTransitionEvidenceSQL lib ok db c = None"
  obtains a p where "queryAuthorizationEvidence lib ok db (tc_ApprovalRef c) = Inr a"
    "queryAuthorizationEvidence lib ok db (tc_PromotionCertificateRef c) = Inr p" "evidence_binds a p c"
  using assms by (auto simp: verifyTransitionEvidenceSQL_def split: sum.splits if_splits)

lemma new_receipt_authorized:
  assumes "VerifySQLInputsInTransition lib okI (rd_inputs db) (tc_New c) = None" "verifyTransitionEvidenceSQL lib ok db c = None"
    "receiptMatchesCommand r c" "normalized c = c"
  shows "receipt_authorized lib db r"
proof -
  obtain a p where "queryAuthorizationEvidence lib ok db (tc_ApprovalRef c) = Inr a"
    "queryAuthorizationEvidence lib ok db (tc_PromotionCertificateRef c) = Inr p" "evidence_binds a p c" using assms(2) by (rule verified_evidence)
  then show ?thesis
    using verified_inputs [OF assms(1)] unfolding receipt_authorized_def matching_fields [OF assms(3,4)] queryAuthorizationEvidence_Inr evidence_binds_def SameVersion_eq
    by metis
qed

lemma sql_step_authorized:
  assumes "sql_step lib coltime verifier db db'" "\<forall>r \<in> set (rd_receipts db). receipt_authorized lib db r"
  shows "db_extend db db' \<and> (\<forall>r \<in> set (rd_receipts db'). receipt_authorized lib db' r)"
  using assms(1)
proof cases
  case (sql_transition ok commit uuid now c es protect res)
  from sql_transition(1) show ?thesis
  proof (cases rule: transitionValidated_cases)
    case Unchanged
    then show ?thesis using assms(2) by (simp add: db_extend_def)
  next
    case (Changed slot r)
    let ?c = "normalized c"
    from Changed(1) obtain db1 where i: "VerifySQLInputsInTransition lib (\<lambda>s. ok (InputStmt s)) (rd_inputs db) (tc_New ?c) = None"
        and p: "pin_all lib ok db es = Inr db1" and e: "verifyTransitionEvidenceSQL lib ok db1 ?c = None"
        and n: "transition_new lib coltime ok uuid now db1 ?c protect = Inr (slot, r, db')"
      by (cases rule: transition_tx_cases) auto
    note f = transition_new_Inr [OF n]
    have db1: "rd_inputs db1 = rd_inputs db" "rd_receipts db1 = rd_receipts db" "rd_evidence db \<subseteq>\<^sub>m rd_evidence db1" using pin_all_db [OF p] by auto
    have x: "db_extend db db1" "db_extend db1 db'" using db1 f(7,8) by (simp_all add: db_extend_def)
    have "receiptMatchesCommand (stored_receipt coltime r) ?c" unfolding f(2) by (simp add: new_receipt_matches)
    then have "receipt_authorized lib db1 (stored_receipt coltime r)" using new_receipt_authorized [OF _ e, of "\<lambda>s. ok (InputStmt s)"] i db1(1) normalized_idem by metis
    then have "receipt_authorized lib db' (stored_receipt coltime r)" using x(2) by (rule receipt_authorized_mono)
    moreover have "receipt_authorized lib db' q" if "q \<in> set (rd_receipts db)" for q
      using assms(2) that receipt_authorized_mono [OF _ x(1)] receipt_authorized_mono [OF _ x(2)] by blast
    ultimately have "\<forall>q \<in> set (rd_receipts db'). receipt_authorized lib db' q" using f(4) db1(2) by simp
    then show ?thesis using x db1(1,3) f(7,8) by (simp add: db_extend_def)
  qed
next
  case (sql_pin_evidence ok e res)
  then obtain ev where "db' = db\<lparr>rd_evidence := ev\<rparr>" "rd_evidence db \<subseteq>\<^sub>m ev" using pin_evidence_db unfolding PinAuthorizationEvidence_def by blast
  then show ?thesis using assms(2) receipt_authorized_mono by (auto simp: db_extend_def)
next
  case (sql_pin_inputs t)
  then have "db_extend db db'" "rd_receipts db' = rd_receipts db" using pin_step_sound [OF sql_pin_inputs(2)] by (simp_all add: db_extend_def)
  then show ?thesis using assms(2) receipt_authorized_mono by auto
qed

lemma reachable_authorized:
  "(sql_step lib coltime verifier)\<^sup>*\<^sup>* EnsureSchema db \<Longrightarrow> \<forall>r \<in> set (rd_receipts db). receipt_authorized lib db r"
  by (induction rule: rtranclp_induct) (simp add: EnsureSchema_def, blast dest: sql_step_authorized)

subsection \<open>What the ledger stores it reads back\<close>

lemma sql_step_rows:
  assumes "sql_step lib coltime verifier db db'" "distinct (map tr_ID (rd_receipts db))"
  shows "distinct (map tr_ID (rd_receipts db'))"
  using assms(1)
proof cases
  case (sql_transition ok commit uuid now c es protect res)
  from sql_transition(1) show ?thesis
  proof (cases rule: transitionValidated_cases)
    case Unchanged
    then show ?thesis using assms(2) by simp
  next
    case (Changed slot r)
    from Changed(1) obtain db1 where p: "pin_all lib ok db es = Inr db1" and n: "transition_new lib coltime ok uuid now db1 (normalized c) protect = Inr (slot, r, db')"
      by (cases rule: transition_tx_cases) auto
    have rows: "rd_receipts db1 = rd_receipts db" using pin_all_db [OF p] by auto
    have "receipt_by_id db1 (tr_ID r) = None" using transition_new_Inr(3) [OF n] by (simp add: receipt_insertable_def)
    then show ?thesis using transition_new_Inr(4) [OF n] rows assms(2) by (auto simp: receipt_by_id_def find_None_iff)
  qed
next
  case (sql_pin_evidence ok e res)
  then show ?thesis using pin_evidence_db assms(2) unfolding PinAuthorizationEvidence_def by fastforce
next
  case (sql_pin_inputs t)
  then show ?thesis using assms(2) by simp
qed

lemma reachable_rows: "(sql_step lib coltime verifier)\<^sup>*\<^sup>* EnsureSchema db \<Longrightarrow> distinct (map tr_ID (rd_receipts db))"
  by (induction rule: rtranclp_induct) (simp add: EnsureSchema_def, blast dest: sql_step_rows)

lemma row_by_id:
  assumes "distinct (map tr_ID (rd_receipts db))" "r \<in> set (rd_receipts db)"
  shows "receipt_by_id db (tr_ID r) = Some r"
proof -
  have "receipt_by_id db (tr_ID r) \<noteq> None" using assms(2) by (auto simp: receipt_by_id_def find_None_iff)
  then obtain q where q: "receipt_by_id db (tr_ID r) = Some q" by blast
  then have "q \<in> set (rd_receipts db)" "tr_ID q = tr_ID r" by (auto simp: receipt_by_id_def find_Some_iff)
  then show ?thesis using q assms by (metis distinct_map inj_onD)
qed

lemma row_by_key:
  assumes "distinct (map tr_ID (rd_receipts db))" "bk_byKey (sql_book db) k = Some i" "receipt_by_id db i = Some r"
  shows "receipt_by_key db k = Some r"
proof -
  obtain q where q: "receipt_by_key db k = Some q" "tr_ID q = i" using assms(2) by auto
  then have "q \<in> set (rd_receipts db)" by (auto simp: receipt_by_key_def find_Some_iff)
  then show ?thesis using row_by_id [OF assms(1)] assms(3) q by force
qed

lemma reachable_receipt_valid:
  assumes "(sql_step lib coltime verifier)\<^sup>*\<^sup>* EnsureSchema db" "receipt_by_id db i = Some r" "tr_CommittedGeneration r \<noteq> 0"
  shows "TransitionReceipt_Validate lib r = None"
  using sql.reachable_inv [OF assms(1)] assms(2,3) by (auto simp: book_inv_def receipts_sound_def)

lemma valid_receipt_parts:
  "TransitionReceipt_Validate lib r = None \<Longrightarrow> ComputerVersion_Valid (tr_New r) \<and> validReceiptID lib (tr_ID r) \<and> tr_RouteSlotID r \<noteq> []"
  by (auto simp: TransitionReceipt_Validate_def ParseRouteSlotID_def split: if_splits sum.splits)

lemma reachable_slot_readable:
  assumes "(sql_step lib coltime verifier)\<^sup>*\<^sup>* EnsureSchema db" "rd_slots db i = Some s" "sl_Generation s \<noteq> 0"
  obtains r n where "querySlot lib (\<lambda>_. True) db i = Inr s" "queryReceiptByID lib (\<lambda>_. True) db (sl_LatestReceiptID s) = Inr r"
    "receipt_by_id db (sl_LatestReceiptID s) = Some r" "lineage (receipt_by_id db) i n r" "sl_Generation s = of_nat n" "tr_CommittedGeneration r = sl_Generation s"
    "tr_RouteSlotID r = i" "sl_ID s = i" "tr_New r = sl_Current s" "i \<noteq> []"
proof -
  obtain r n where r: "receipt_by_id db (sl_LatestReceiptID s) = Some r" "lineage (receipt_by_id db) i n r" "sl_ID s = i"
      "sl_Generation s = of_nat n" "sl_Generation s = tr_CommittedGeneration r" "tr_New r = sl_Current s"
    using sql.slot_lineage [OF assms(1), unfolded sql_book_simps, OF assms(2)] by blast
  have v: "TransitionReceipt_Validate lib r = None" using reachable_receipt_valid [OF assms(1) r(1)] r(5) assms(3) by simp
  have i: "tr_RouteSlotID r = i" "tr_ID r = sl_LatestReceiptID s" using lineage_receipt [OF r(2)] receipt_by_id_ID [OF r(1)] by simp_all
  show thesis
    using that [of r n] r i v valid_receipt_parts [OF v] assms(2,3) by (auto simp: querySlot_def queryReceiptByID_def queryReceipt_def)
qed

text \<open>C16: the route ledger serves what was authorized. In every state that transitions, with any statement failing or any
  commit lost, and pins can reach, resolving a slot that exists succeeds; the slot's generation is the length of
  an unbroken chain of receipts from its bootstrap to the receipt returned; that receipt carries the slot's version; and
  behind every receipt of the ledger stand a valid approval and a valid promotion certificate for exactly that slot and
  version, and verified inputs. The generation must not have wrapped around to zero.\<close>

theorem resolve_serves_authorized_lineage:
  assumes "(sql_step lib coltime verifier)\<^sup>*\<^sup>* EnsureSchema db" "rd_slots db (trimSpace x) = Some s" "sl_Generation s \<noteq> 0"
  shows "\<exists>r n. SQLLedger_Resolve lib (\<lambda>_. True) db x = Inr (s, r) \<and> lineage (receipt_by_id db) (trimSpace x) n r \<and> sl_Generation s = of_nat n
    \<and> tr_New r = sl_Current s \<and> (\<forall>q \<in> set (rd_receipts db). receipt_authorized lib db q)"
proof -
  obtain r n where r: "querySlot lib (\<lambda>_. True) db (trimSpace x) = Inr s" "queryReceiptByID lib (\<lambda>_. True) db (sl_LatestReceiptID s) = Inr r"
    "lineage (receipt_by_id db) (trimSpace x) n r" "sl_Generation s = of_nat n" "tr_CommittedGeneration r = sl_Generation s"
    "tr_RouteSlotID r = trimSpace x" "sl_ID s = trimSpace x" "tr_New r = sl_Current s" "trimSpace x \<noteq> []"
    using reachable_slot_readable [OF assms] by metis
  then have "SQLLedger_Resolve lib (\<lambda>_. True) db x = Inr (s, r)" by (simp add: SQLLedger_Resolve_def Let_def SameVersion_eq)
  then show ?thesis using r reachable_authorized [OF assms(1)] by blast
qed

subsection \<open>The durable ledger implements the in-memory one\<close>

definition memory_of :: "route_db \<Rightarrow> MemoryLedger" where
  "memory_of db = \<lparr>ml_slots = rd_slots db, ml_receipts = receipt_by_id db, ml_byKey = bk_byKey (sql_book db), ml_evidence = rd_evidence db\<rparr>"

definition same_receipt :: "TransitionReceipt \<Rightarrow> TransitionReceipt \<Rightarrow> bool" where
  "same_receipt r q \<longleftrightarrow> r\<lparr>tr_CommittedAt := 0\<rparr> = q\<lparr>tr_CommittedAt := 0\<rparr>"

lemma memory_of_simps [simp]: "ml_slots (memory_of db) = rd_slots db" "ml_receipts (memory_of db) = receipt_by_id db"
  "ml_byKey (memory_of db) = bk_byKey (sql_book db)"
  by (simp_all add: memory_of_def)

lemma memory_of_evidence: "mem_book (memory_of (db\<lparr>rd_evidence := ev\<rparr>)) = mem_book (memory_of db)" "mem_book (memory_of db) = sql_book db"
  by (simp_all add: memory_of_def mem_book_def sql_book_def receipt_by_id_def receipt_by_key_def fun_eq_iff)

lemma queryReceipt_Inr: "queryReceipt lib ok row = Inr r \<Longrightarrow> row = Some r \<and> ok"
  by (auto simp: queryReceipt_def split: option.splits if_splits)

lemma parse_error: "ParseRouteSlotID s = Inl e \<Longrightarrow> e = InvalidRouteSlotID"
  by (auto simp: ParseRouteSlotID_def Let_def split: list.splits if_splits)

lemma shape_error: "receipt_shape lib r \<in> {None, Some ReceiptShape, Some ReceiptKindInvalid}"
  by (simp add: receipt_shape_def)

lemma validation_never_NoRows: "TransitionReceipt_Validate lib r \<noteq> Some NoRows"
  using parse_error [of "tr_RouteSlotID r"] shape_error [of lib r]
  by (cases "ParseRouteSlotID (tr_RouteSlotID r)") (auto simp: TransitionReceipt_Validate_def)

lemma queryReceipt_NoRows: "queryReceipt lib ok row = Inl NoRows \<Longrightarrow> row = None"
  using validation_never_NoRows by (auto simp: queryReceipt_def split: option.splits if_splits)

lemma memory_replay:
  assumes "receipt_by_key db (tc_IdempotencyKey c) = Some q" "receipt_by_id db (tr_ID q) = Some q" "transition_replay lib ok db c q = Inr (slot, r)"
  shows "transitionLocked lib uuid now (memory_of db) c = Inr (slot, r, memory_of db) \<and> r = q"
proof -
  have m: "receiptMatchesCommand q c" and slot: "tr_RouteSlotID q = tc_RouteSlotID c" using assms(3) by (auto simp: transition_replay_def receiptMatchesCommand_def split: if_splits)
  show ?thesis
  proof (cases "querySlot lib ok db (tc_RouteSlotID c)")
    case (Inl e)
    then have "tc_Kind c = TransitionBootstrapRollback" "e = ErrSlotNotFound" "slot = no_slot" "r = q"
      using assms(3) m by (auto simp: transition_replay_def slot split: if_splits)
    then show ?thesis using assms(1,2) m querySlot_absent Inl by (auto simp: transitionLocked_def)
  next
    case (Inr s)
    then have "tc_Kind c \<noteq> TransitionBootstrapRollback" "slot = s" "r = q" using assms(3) m by (auto simp: transition_replay_def slot split: if_splits)
    then show ?thesis using assms(1,2) m querySlot_Inr [OF Inr] by (simp add: transitionLocked_def)
  qed
qed

lemma memory_new:
  assumes t: "transition_new lib coltime ok uuid now db c protect = Inr (slot, r, db')" and k: "receipt_by_key db (tc_IdempotencyKey c) = None" and c: "normalized c = c"
  shows "\<exists>l'. transitionLocked lib uuid (coltime now) (memory_of db) c = Inr (slot, stored_receipt coltime r, l') \<and> mem_book l' = sql_book db'"
proof -
  note n = transition_new_Inr [OF t]
  let ?r = "newReceipt lib uuid c (next_generation (rd_slots db (tc_RouteSlotID c))) (coltime now)"
  have r: "stored_receipt coltime r = ?r" by (simp add: n(2) stored_receipt_def newReceipt_def)
  have fresh: "receipt_by_id db (tr_ID r) = None" "receipt_by_key db (tr_IdempotencyKey r) = None" using n(3) by (simp_all add: receipt_insertable_def)
  have m: "receiptMatchesCommand r c" unfolding n(2) by (rule new_receipt_matches)
  have rows: "receipt_by_id db' = (receipt_by_id db)(tr_ID ?r \<mapsto> ?r)" "receipt_by_key db' = (receipt_by_key db)(tc_IdempotencyKey c \<mapsto> ?r)"
    using append_receipt [of db "stored_receipt coltime r" db'] fresh n(4) matching_fields(9) [OF m c] by (simp_all add: r [symmetric])
  have g: "tr_CommittedGeneration r = next_generation (rd_slots db (tc_RouteSlotID c))" "tr_ID r = tr_ID ?r"
    using r by (simp_all add: n(2) newReceipt_def)
  show ?thesis
    using k n(1,5,6) g by (auto simp: transitionLocked_def Let_def r mem_book_def sql_book_def rows committed_slot_def fun_eq_iff)
qed

lemma evidence_lookup [simp]: "receipt_by_id (db\<lparr>rd_evidence := ev\<rparr>) = receipt_by_id db" "receipt_by_key (db\<lparr>rd_evidence := ev\<rparr>) = receipt_by_key db"
  by (simp_all add: receipt_by_id_def receipt_by_key_def fun_eq_iff)

lemma transitionLocked_evidence:
  "transitionLocked lib uuid now (l\<lparr>ml_evidence := e\<rparr>) c =
     (case transitionLocked lib uuid now l c of Inl err \<Rightarrow> Inl err | Inr (slot, r, l') \<Rightarrow> Inr (slot, r, l'\<lparr>ml_evidence := e\<rparr>))"
  by (simp add: transitionLocked_def Let_def split: option.splits if_splits)

lemma memory_of_pinned: "memory_of (db\<lparr>rd_evidence := ev\<rparr>) = (memory_of db)\<lparr>ml_evidence := ev\<rparr>"
  by (simp add: memory_of_def sql_book_def)

lemma memory_follows_tx:
  assumes rows: "distinct (map tr_ID (rd_receipts db))" and c: "normalized c = c"
    and t: "transition_tx lib coltime ok uuid now db c es protect = Inr (slot, r, res)"
  shows "\<exists>r' l'. transitionLocked lib uuid (coltime now) (memory_of db) c = Inr (slot, r', l') \<and> same_receipt r' r
    \<and> mem_book l' = sql_book (case res of None \<Rightarrow> db | Some db' \<Rightarrow> db')"
  using t
proof (cases rule: transition_tx_cases)
  case (Replay db1 q)
  obtain ev where ev: "db1 = db\<lparr>rd_evidence := ev\<rparr>" using pin_all_db [OF Replay(2)] by blast
  have q: "receipt_by_key db1 (tc_IdempotencyKey c) = Some q" using Replay(5) queryReceipt_Inr unfolding queryReceiptByIdempotencyKey_def by blast
  then have "q \<in> set (rd_receipts db1)" by (auto simp: receipt_by_key_def find_Some_iff)
  then have i: "receipt_by_id db1 (tr_ID q) = Some q" using row_by_id [of db1 q] rows ev by simp
  have "transitionLocked lib uuid (coltime now) (memory_of db1) c = Inr (slot, r, memory_of db1)"
    using memory_replay [OF q i Replay(6)] by blast
  then obtain l' where "transitionLocked lib uuid (coltime now) (memory_of db) c = Inr (slot, r, l')" "l'\<lparr>ml_evidence := ev\<rparr> = (memory_of db)\<lparr>ml_evidence := ev\<rparr>"
    unfolding ev memory_of_pinned transitionLocked_evidence by (auto split: sum.splits)
  then show ?thesis using Replay(4) mem_book_evidence [of ev l'] mem_book_evidence [of ev "memory_of db"] memory_of_evidence(2) [of db]
    by (simp add: same_receipt_def)
next
  case (New db1 db2)
  obtain ev where ev: "db1 = db\<lparr>rd_evidence := ev\<rparr>" using pin_all_db [OF New(2)] by blast
  have k: "receipt_by_key db1 (tc_IdempotencyKey c) = None" using New(5) queryReceipt_NoRows unfolding queryReceiptByIdempotencyKey_def by blast
  obtain l' where "transitionLocked lib uuid (coltime now) (memory_of db1) c = Inr (slot, stored_receipt coltime r, l')" "mem_book l' = sql_book db2"
    using memory_new [OF New(6) k c] by blast
  then show ?thesis using New(4) unfolding ev memory_of_pinned transitionLocked_evidence
    by (auto simp: same_receipt_def stored_receipt_def mem_book_def split: sum.splits)
qed

text \<open>C17: the durable ledger implements the in-memory contract. Whatever it answers a transition with success, the in-memory
  ledger with the same slots and receipts answers with the same slot and the same receipt, up to the rounding of the
  commit time, and the two hold the same routes afterwards; a refused transition leaves the routes alone, unless the
  commit was reported as failed, when the in-memory ledger can reach the routes by that very transition.\<close>

theorem sql_transition_refines_memory:
  assumes "(sql_step lib coltime verifier)\<^sup>*\<^sup>* EnsureSchema db"
    and t: "transitionValidated lib coltime ok commit uuid now db c es protect = (res, db')"
  shows "(\<forall>slot r. res = Inr (slot, r) \<longrightarrow> (\<exists>r' l'. MemoryLedger_Transition lib False uuid (coltime now) (memory_of db) c = Inr (slot, r', l')
        \<and> same_receipt r' r \<and> mem_book l' = sql_book db'))
    \<and> (\<forall>e. res = Inl e \<longrightarrow> sql_book db' = sql_book db
        \<or> e = CommitFailed \<and> (\<exists>slot r' l'. MemoryLedger_Transition lib False uuid (coltime now) (memory_of db) c = Inr (slot, r', l') \<and> mem_book l' = sql_book db'))"
proof (cases "TransitionCommand_Validate lib (normalized c)")
  case (Some e)
  then show ?thesis using t by (auto simp: transitionValidated_def Let_def)
next
  case None
  have mem: "MemoryLedger_Transition lib False uuid (coltime now) (memory_of db) c = transitionLocked lib uuid (coltime now) (memory_of db) (normalized c)"
    using None by (simp add: MemoryLedger_Transition_def Let_def)
  note follow = memory_follows_tx [OF reachable_rows [OF assms(1)] normalized_idem [of c], of lib coltime ok uuid now es protect]
  show ?thesis
  proof (cases "transition_tx lib coltime ok uuid now db (normalized c) es protect")
    case (Inl e)
    then show ?thesis using t None by (auto simp: transitionValidated_def Let_def split: if_splits)
  next
    case (Inr x)
    obtain slot r fin where x: "x = (slot, r, fin)" by (cases x) auto
    obtain r' l' where m: "transitionLocked lib uuid (coltime now) (memory_of db) (normalized c) = Inr (slot, r', l')" "same_receipt r' r"
        "mem_book l' = sql_book (case fin of None \<Rightarrow> db | Some db' \<Rightarrow> db')" using follow Inr x by blast
    show ?thesis unfolding mem using t None Inr x m
      by (cases fin; cases commit) (auto simp: transitionValidated_def Let_def split: if_splits)
  qed
qed

subsection \<open>Retries\<close>

lemma verify_inputs_again:
  assumes "VerifySQLInputsInTransition lib ok t v = None" "inputs_extend t t'"
  shows "VerifySQLInputsInTransition lib (\<lambda>_. True) t' v = None"
proof -
  have v: "ComputerVersion_Valid v" using assms(1) by (simp add: VerifySQLInputsInTransition_def split: if_splits)
  obtain k where k: "it_code t (cv_CodeRef v) = Some k" "cc_Ref k = cv_CodeRef v" "CodeClosure_Verify lib k = None" "ref_Valid (cv_CodeRef v)"
    using assms(1) by (auto simp: VerifySQLInputsInTransition_def resolveCodeSQL_def split: option.splits sum.splits if_splits)
  obtain g where g: "it_program t (cv_ArtifactProgramRef v) = Some g" "pg_Ref g = cv_ArtifactProgramRef v" "ArtifactProgram_Verify lib g = None" "ref_Valid (cv_ArtifactProgramRef v)"
    using assms(1) by (auto simp: VerifySQLInputsInTransition_def resolveArtifactProgramSQL_def split: option.splits sum.splits if_splits)
  have "it_code t' (cv_CodeRef v) = Some k" "it_program t' (cv_ArtifactProgramRef v) = Some g"
    using assms(2) k(1) g(1) map_le_lookup unfolding inputs_extend_def by metis+
  then show ?thesis using v k g by (simp add: VerifySQLInputsInTransition_def resolveCodeSQL_def resolveArtifactProgramSQL_def)
qed

lemma pin_again:
  assumes "pinAuthorizationEvidenceSQL lib ok db e = (Inr y, db1)" "rd_evidence db1 \<subseteq>\<^sub>m rd_evidence db2"
  shows "pinAuthorizationEvidenceSQL lib (\<lambda>_. True) db2 e = (Inr y, db2)"
proof -
  have v: "AuthorizationEvidence_Validate lib e = None" and j: "marshal_evidence lib e \<noteq> None" and m: "marshal_evidence lib y = marshal_evidence lib e"
    and q: "queryAuthorizationEvidence lib ok db1 (ae_Ref e) = Inr y"
    using assms(1) by (auto simp: pinAuthorizationEvidenceSQL_def Let_def split: option.splits sum.splits if_splits)
  have "rd_evidence db2 (ae_Ref e) = Some y" "ae_Ref y = ae_Ref e" "AuthorizationEvidence_Validate lib y = None"
    using q map_le_lookup [OF assms(2)] by (simp_all add: queryAuthorizationEvidence_Inr)
  then show ?thesis using v j m by (auto simp: pinAuthorizationEvidenceSQL_def queryAuthorizationEvidence_def)
qed

lemma pin_all_again:
  "pin_all lib ok db es = Inr db1 \<Longrightarrow> rd_evidence db1 \<subseteq>\<^sub>m rd_evidence db2 \<Longrightarrow> pin_all lib (\<lambda>_. True) db2 es = Inr db2"
proof (induction lib ok db es rule: pin_all.induct)
  case (2 lib ok db e es)
  then obtain y dbx where p: "pinAuthorizationEvidenceSQL lib ok db e = (Inr y, dbx)" "pin_all lib ok dbx es = Inr db1"
    by (auto split: prod.splits sum.splits)
  have "rd_evidence dbx \<subseteq>\<^sub>m rd_evidence db1" using pin_all_db [OF p(2)] by auto
  then have "pinAuthorizationEvidenceSQL lib (\<lambda>_. True) db2 e = (Inr y, db2)" using pin_again [OF p(1)] 2(3) map_le_trans by blast
  then show ?case using 2(1) [OF p(1) [symmetric] refl p(2) 2(3)] by simp
qed simp

lemma verify_evidence_again:
  assumes "verifyTransitionEvidenceSQL lib ok db c = None" "rd_evidence db \<subseteq>\<^sub>m rd_evidence db2"
  shows "verifyTransitionEvidenceSQL lib (\<lambda>_. True) db2 c = None"
proof -
  obtain a p where q: "queryAuthorizationEvidence lib ok db (tc_ApprovalRef c) = Inr a"
    "queryAuthorizationEvidence lib ok db (tc_PromotionCertificateRef c) = Inr p" "evidence_binds a p c" using assms(1) by (rule verified_evidence)
  then have "queryAuthorizationEvidence lib (\<lambda>_. True) db2 (tc_ApprovalRef c) = Inr a" "queryAuthorizationEvidence lib (\<lambda>_. True) db2 (tc_PromotionCertificateRef c) = Inr p"
    using map_le_lookup [OF assms(2)] by (simp_all add: queryAuthorizationEvidence_Inr)
  then show ?thesis using q(3) by (simp add: verifyTransitionEvidenceSQL_def)
qed

lemma steps_extend:
  assumes "(sql_step lib coltime verifier)\<^sup>*\<^sup>* db db'" "\<forall>r \<in> set (rd_receipts db). receipt_authorized lib db r"
  shows "db_extend db db' \<and> (\<forall>r \<in> set (rd_receipts db'). receipt_authorized lib db' r)"
  using assms
proof (induction rule: rtranclp_induct)
  case base
  then show ?case by (simp add: db_extend_def)
next
  case (step y z)
  then have y: "db_extend db y" and z: "db_extend y z" "\<forall>r \<in> set (rd_receipts z). receipt_authorized lib z r" using sql_step_authorized by blast+
  have "db_extend db z" using y z(1) inputs_extend_trans map_le_trans unfolding db_extend_def by blast
  then show ?case using z(2) by blast
qed

definition retry_answer :: "route_db \<Rightarrow> TransitionCommand \<Rightarrow> TransitionReceipt \<Rightarrow> route_error + Slot \<times> TransitionReceipt" where
  "retry_answer db c r =
     (case rd_slots db (tc_RouteSlotID c) of
        None \<Rightarrow> if tc_Kind c = TransitionBootstrapRollback then Inr (no_slot, r) else Inl (IdempotentSlot ErrSlotNotFound)
      | Some s \<Rightarrow> if tc_Kind c = TransitionBootstrapRollback then Inl ErrStaleTransition else Inr (s, r))"

lemma retry_answer_cases:
  "retry_answer db c r =
     (if tc_Kind c = TransitionBootstrapRollback
      then (case rd_slots db (tc_RouteSlotID c) of None \<Rightarrow> Inr (no_slot, r) | Some s \<Rightarrow> Inl ErrStaleTransition)
      else (case rd_slots db (tc_RouteSlotID c) of None \<Rightarrow> Inl (IdempotentSlot ErrSlotNotFound) | Some s \<Rightarrow> Inr (s, r)))"
  by (simp add: retry_answer_def split: option.split)

lemma replay_answer:
  assumes "(sql_step lib coltime verifier)\<^sup>*\<^sup>* EnsureSchema db" "\<forall>q \<in> set (rd_receipts db). tr_CommittedGeneration q \<noteq> 0" "receiptMatchesCommand r c"
  shows "transition_replay lib (\<lambda>_. True) db c r = retry_answer db c r"
proof -
  have slot: "tr_RouteSlotID r = tc_RouteSlotID c" using assms(3) by (simp add: receiptMatchesCommand_def)
  show ?thesis
  proof (cases "rd_slots db (tc_RouteSlotID c)")
    case None
    then show ?thesis using assms(3) by (simp add: transition_replay_def retry_answer_def slot querySlot_def)
  next
    case (Some s)
    obtain q where q: "receipt_by_id db (sl_LatestReceiptID s) = Some q" "sl_Generation s = tr_CommittedGeneration q"
      using sql.slot_lineage [OF assms(1), unfolded sql_book_simps, OF Some] by blast
    then have "sl_Generation s \<noteq> 0" using assms(2) by (auto simp: receipt_by_id_def find_Some_iff)
    then have "querySlot lib (\<lambda>_. True) db (tc_RouteSlotID c) = Inr s" using reachable_slot_readable [OF assms(1) Some] by metis
    then show ?thesis using Some assms(3) by (simp add: transition_replay_def retry_answer_def slot)
  qed
qed

lemma committed_transition:
  assumes "transitionValidated lib coltime ok commit uuid now db c es protect = (res, db1)" "db1 \<noteq> db" "sql_env lib coltime uuid now (normalized c)"
  obtains dbx r where "VerifySQLInputsInTransition lib (\<lambda>s. ok (InputStmt s)) (rd_inputs db) (tc_New (normalized c)) = None"
    "pin_all lib ok db es = Inr dbx" "verifyTransitionEvidenceSQL lib ok dbx (normalized c) = None" "rd_evidence db1 = rd_evidence dbx"
    "rd_receipts db1 = rd_receipts db @ [stored_receipt coltime r]" "receiptMatchesCommand (stored_receipt coltime r) (normalized c)"
    "bk_byKey (sql_book db1) (tc_IdempotencyKey (normalized c)) = Some (tr_ID r)" "receipt_by_id db1 (tr_ID r) = Some (stored_receipt coltime r)"
    "TransitionCommand_Validate lib (normalized c) = None" "rd_inputs db1 = rd_inputs db"
  using assms(1)
proof (cases rule: transitionValidated_cases)
  case Unchanged
  then show ?thesis using assms(2) by simp
next
  case (Changed slot r)
  let ?c = "normalized c"
  from Changed(1) obtain dbx where i: "VerifySQLInputsInTransition lib (\<lambda>s. ok (InputStmt s)) (rd_inputs db) (tc_New ?c) = None"
      and p: "pin_all lib ok db es = Inr dbx" and e: "verifyTransitionEvidenceSQL lib ok dbx ?c = None"
      and n: "transition_new lib coltime ok uuid now dbx ?c protect = Inr (slot, r, db1)"
    by (cases rule: transition_tx_cases) auto
  note f = transition_new_Inr [OF n] and b = transition_new_commits [OF n normalized_idem Changed(2) assms(3)]
  have rows: "rd_receipts dbx = rd_receipts db" "rd_inputs dbx = rd_inputs db" using pin_all_db [OF p] by auto
  have m: "receiptMatchesCommand (stored_receipt coltime r) ?c" using b(1) by (simp add: commits_def)
  have k: "bk_byKey (sql_book db1) (tc_IdempotencyKey ?c) = Some (tr_ID r)" "bk_receipts (sql_book db1) (tr_ID r) = Some (stored_receipt coltime r)"
    by (simp_all only: b(2) book_after_simps) simp_all
  show ?thesis by (rule that [OF i p e f(8) _ m k(1) _ Changed(2)]) (use f(4,7) rows k(2) in simp_all)
qed

text \<open>C18: a transition can be retried safely. Once a transition took effect, even when its commit was reported as failed, and
  whatever happened since, repeating the same call with the same evidence changes nothing. As long as the slot exists, it
  answers with the receipt of the first call and the current slot; a bootstrap rollback answers with its receipt as long as
  the slot does not exist. Otherwise the retry is refused: the slot is not found once its bootstrap was rolled back, and the
  retry of a bootstrap rollback is stale once the slot exists again. No generation may have wrapped.\<close>

theorem sql_retry_returns_receipt:
  assumes "(sql_step lib coltime verifier)\<^sup>*\<^sup>* EnsureSchema db" and t: "transitionValidated lib coltime ok commit uuid now db c es protect = (res, db1)"
    and changed: "db1 \<noteq> db" and env: "sql_env lib coltime uuid now (normalized c)"
    and later: "(sql_step lib coltime verifier)\<^sup>*\<^sup>* db1 db2" and nowrap: "\<forall>q \<in> set (rd_receipts db2). tr_CommittedGeneration q \<noteq> 0"
  shows "\<exists>r. rd_receipts db1 = rd_receipts db @ [r] \<and> receiptMatchesCommand r (normalized c)
    \<and> transitionValidated lib coltime (\<lambda>_. True) commit' uuid' now' db2 c es protect'
        = (if tc_Kind (normalized c) = TransitionBootstrapRollback
           then (case rd_slots db2 (tc_RouteSlotID (normalized c)) of None \<Rightarrow> Inr (no_slot, r) | Some s \<Rightarrow> Inl ErrStaleTransition)
           else (case rd_slots db2 (tc_RouteSlotID (normalized c)) of None \<Rightarrow> Inl (IdempotentSlot ErrSlotNotFound) | Some s \<Rightarrow> Inr (s, r)), db2)"
proof -
  let ?c = "normalized c"
  obtain dbx q where q: "VerifySQLInputsInTransition lib (\<lambda>s. ok (InputStmt s)) (rd_inputs db) (tc_New ?c) = None"
    "pin_all lib ok db es = Inr dbx" "verifyTransitionEvidenceSQL lib ok dbx ?c = None" "rd_evidence db1 = rd_evidence dbx"
    "rd_receipts db1 = rd_receipts db @ [stored_receipt coltime q]" "receiptMatchesCommand (stored_receipt coltime q) ?c"
    "bk_byKey (sql_book db1) (tc_IdempotencyKey ?c) = Some (tr_ID q)" "receipt_by_id db1 (tr_ID q) = Some (stored_receipt coltime q)"
    "TransitionCommand_Validate lib ?c = None" "rd_inputs db1 = rd_inputs db"
    by (rule committed_transition [OF t changed env])
  let ?r = "stored_receipt coltime q"
  have r1: "(sql_step lib coltime verifier)\<^sup>*\<^sup>* EnsureSchema db1" using assms(1) sql_transition [OF t env] by (rule rtranclp.rtrancl_into_rtrancl)
  then have r2: "(sql_step lib coltime verifier)\<^sup>*\<^sup>* EnsureSchema db2" using later by simp
  have x: "rd_evidence dbx \<subseteq>\<^sub>m rd_evidence db2" "inputs_extend (rd_inputs db) (rd_inputs db2)"
    using steps_extend [OF later reachable_authorized [OF r1]] q(4,10) by (simp_all add: db_extend_def)
  have grown: "bk_byKey (sql_book db1) \<subseteq>\<^sub>m bk_byKey (sql_book db2)" "receipt_by_id db1 \<subseteq>\<^sub>m receipt_by_id db2"
    using sql.append_only [OF later] by simp_all
  have i: "receipt_by_id db2 (tr_ID q) = Some ?r" using grown(2) q(8) by (rule map_le_lookup)
  have "bk_byKey (sql_book db2) (tc_IdempotencyKey ?c) = Some (tr_ID q)" using grown(1) q(7) by (rule map_le_lookup)
  then have k: "receipt_by_key db2 (tc_IdempotencyKey ?c) = Some ?r" using i by (rule row_by_key [OF reachable_rows [OF r2]])
  have "?r \<in> set (rd_receipts db2)" using i by (auto simp: receipt_by_id_def find_Some_iff)
  then have "TransitionReceipt_Validate lib ?r = None" using reachable_receipt_valid [OF r2 i] nowrap by blast
  then have "queryReceiptByIdempotencyKey lib (\<lambda>_. True) db2 (tc_IdempotencyKey ?c) = Inr ?r" using k by (simp add: queryReceiptByIdempotencyKey_def queryReceipt_def)
  then have "transition_tx lib coltime (\<lambda>_. True) uuid' now' db2 ?c es protect'
      = (case retry_answer db2 ?c ?r of Inl e \<Rightarrow> Inl e | Inr (s, r) \<Rightarrow> Inr (s, r, None))"
    using verify_inputs_again [OF q(1) x(2)] pin_all_again [OF q(2) x(1)] verify_evidence_again [OF q(3) x(1)] replay_answer [OF r2 nowrap q(6)]
    by (simp add: transition_tx_def)
  then have "transitionValidated lib coltime (\<lambda>_. True) commit' uuid' now' db2 c es protect' = (retry_answer db2 ?c ?r, db2)"
    using q(9) by (simp add: transitionValidated_def Let_def split: sum.splits prod.splits)
  then show ?thesis using q(5,6) unfolding retry_answer_cases by blast
qed

subsection \<open>A concrete bootstrap\<close>

definition wit_program :: ArtifactProgram where
  "wit_program = \<lparr>pg_Ref = ''artifact-program:sha256:'' @ wit_zeros,
     pg_Entries = [\<lparr>ap_Sequence = 1, ap_Kind = ''k'', ap_ContentSHA256 = wit_zeros, ap_ArtifactURI = ''u'', ap_PreviousEntryHash = [], ap_EntryHash = wit_zeros\<rparr>],
     pg_CreatedAt = 1\<rparr>"

definition wit_version :: ComputerVersion where
  "wit_version = \<lparr>cv_CodeRef = cc_Ref wit_closure, cv_ArtifactProgramRef = pg_Ref wit_program\<rparr>"

definition wit_approval_ref :: string where
  "wit_approval_ref = ''approval:sha256:'' @ wit_zeros"

definition wit_certificate_ref :: string where
  "wit_certificate_ref = ''certificate:sha256:'' @ wit_zeros"

definition wit_evidence :: "string \<Rightarrow> AuthorizationEvidence" where
  "wit_evidence kind = \<lparr>ae_Ref = evidence_prefix kind @ wit_zeros, ae_Kind = kind, ae_RouteSlotID = ''computer:o:c'', ae_ComputerVersion = wit_version,
     ae_Payload = ''p'', ae_PayloadSHA256 = wit_zeros, ae_CreatedAt = 1\<rparr>"

definition wit_bootstrap :: TransitionCommand where
  "wit_bootstrap = \<lparr>tc_RouteSlotID = ''computer:o:c'', tc_Kind = TransitionBootstrap, tc_Old = no_version, tc_New = wit_version, tc_ExpectedGeneration = 0,
     tc_ApprovalRef = wit_approval_ref, tc_PromotionCertificateRef = wit_certificate_ref,
     tc_RollbackTargetReceiptID = [], tc_IdempotencyKey = ''idempotency:k''\<rparr>"

definition wit_check :: "artifact_check option" where
  "wit_check = Some (\<lambda>_ _. None)"

definition wit_db0 :: route_db where
  "wit_db0 = EnsureSchema\<lparr>rd_inputs := snd (PinArtifactProgram wit_lib (\<lambda>_. True) wit_check
     (snd (PinCode wit_lib (\<lambda>_. True) wit_check EnsureSchema_inputs wit_closure)) wit_program)\<rparr>"

definition wit_call :: "(route_error + Slot \<times> TransitionReceipt) \<times> route_db" where
  "wit_call = transitionValidated wit_lib id (\<lambda>_. True) CommitDone ''u'' 5 wit_db0 wit_bootstrap
     [wit_evidence AuthorizationEvidenceApproval, wit_evidence AuthorizationEvidencePromotionCertificate] True"

lemma wit_trims: "trimSpace wit_approval_ref = wit_approval_ref" "trimSpace wit_certificate_ref = wit_certificate_ref"
  "trimSpace (cc_Ref wit_closure) = cc_Ref wit_closure" "trimSpace (pg_Ref wit_program) = pg_Ref wit_program"
  "trimSpace ''computer:o:c'' = ''computer:o:c''" "trimSpace ''idempotency:k'' = ''idempotency:k''"
  by code_simp+

lemma wit_slot_parses: "ParseRouteSlotID ''computer:o:c'' = Inr (''o'', ''c'')"
  by code_simp

lemma wit_normalized: "normalized wit_bootstrap = wit_bootstrap"
  by (simp add: normalized_def wit_bootstrap_def trim_version_def wit_version_def no_version_def wit_trims)

lemma wit_refs: "validHashEvidenceRef wit_approval_ref ''approval:sha256:''" "validHashEvidenceRef wit_certificate_ref ''certificate:sha256:''"
  "validEvidenceRef ''idempotency:k'' ''idempotency:''"
  by code_simp+

lemma wit_version_valid: "ComputerVersion_Valid wit_version" "\<not> ComputerVersion_Valid no_version"
  by (simp_all add: ComputerVersion_Valid_def ref_Valid_def wit_version_def no_version_def wit_trims) (simp_all add: wit_closure_def wit_program_def)

lemma wit_validates: "TransitionCommand_Validate wit_lib wit_bootstrap = None"
  by (simp add: TransitionCommand_Validate_def wit_normalized Let_def)
     (simp add: wit_bootstrap_def wit_slot_parses wit_refs wit_version_valid command_shape_def)

lemma wit_evidence_validates: "AuthorizationEvidence_Validate wit_lib (wit_evidence AuthorizationEvidenceApproval) = None"
  "AuthorizationEvidence_Validate wit_lib (wit_evidence AuthorizationEvidencePromotionCertificate) = None"
  by (simp_all add: AuthorizationEvidence_Validate_def validatePayload_def wit_evidence_def wit_slot_parses wit_version_valid authorizationEvidencePayload_def)
     (simp_all add: wit_lib_def wit_zeros_def)


lemma wit_evidence_refs: "ae_Ref (wit_evidence AuthorizationEvidenceApproval) = wit_approval_ref"
  "ae_Ref (wit_evidence AuthorizationEvidencePromotionCertificate) = wit_certificate_ref" "wit_approval_ref \<noteq> wit_certificate_ref"
  by (simp_all add: wit_evidence_def evidence_prefix_def wit_approval_ref_def wit_certificate_ref_def)

lemma wit_program_verifies: "ArtifactProgram_Verify wit_lib wit_program = None"
proof -
  have z: "trimSpace wit_zeros = wit_zeros" "toLower wit_zeros = wit_zeros" "validSHA256 wit_zeros" by code_simp+
  have "ref_Valid (pg_Ref wit_program)" by (rule tagged_ref_Valid) (simp add: wit_program_def)
  then show ?thesis
    by (simp add: ArtifactProgram_Verify_def artifactProgramPayloadJSON_def wit_program_def wit_lib_def artifactProgramEntryHash_def
        validContentAddressedURI_def isAbs_def hasPrefix_def z)
qed

lemma wit_ref_valid: "ref_Valid (cc_Ref wit_closure)" "ref_Valid (pg_Ref wit_program)"
  using wit_closure_verifies wit_program_verifies by (simp_all add: closure_Verify_None program_Verify_None)

lemma wit_times: "json_time wit_lib (cc_CreatedAt wit_closure) = Some ''1''" "json_time wit_lib (pg_CreatedAt wit_program) = Some ''1''"
  by (simp_all add: wit_lib_def wit_closure_def wit_program_def)

lemma wit_pins:
  "PinCode wit_lib (\<lambda>_. True) wit_check EnsureSchema_inputs wit_closure = (Inr wit_closure, EnsureSchema_inputs\<lparr>it_code := [cc_Ref wit_closure \<mapsto> wit_closure]\<rparr>)"
  "PinArtifactProgram wit_lib (\<lambda>_. True) wit_check (EnsureSchema_inputs\<lparr>it_code := [cc_Ref wit_closure \<mapsto> wit_closure]\<rparr>) wit_program
    = (Inr wit_program, \<lparr>it_code = [cc_Ref wit_closure \<mapsto> wit_closure], it_program = [pg_Ref wit_program \<mapsto> wit_program]\<rparr>)"
  using wit_closure_verifies wit_program_verifies wit_times wit_ref_valid
  by (simp_all add: PinCode_def PinArtifactProgram_def wit_check_def first_failure_def find_None_iff resolveCodeSQL_def resolveArtifactProgramSQL_def
      EnsureSchema_inputs_def Let_def split: option.split)

lemma wit_db0_inputs: "rd_inputs wit_db0 = \<lparr>it_code = [cc_Ref wit_closure \<mapsto> wit_closure], it_program = [pg_Ref wit_program \<mapsto> wit_program]\<rparr>"
  by (simp add: wit_db0_def wit_pins)

lemma wit_db0_reachable: "(sql_step wit_lib id wit_check)\<^sup>*\<^sup>* EnsureSchema wit_db0"
proof -
  let ?t = "EnsureSchema_inputs\<lparr>it_code := [cc_Ref wit_closure \<mapsto> wit_closure]\<rparr>"
  have "sql_step wit_lib id wit_check EnsureSchema (EnsureSchema\<lparr>rd_inputs := ?t\<rparr>)"
    using sql_pin_inputs [of wit_lib wit_check EnsureSchema ?t id] pin_code [OF wit_pins(1)] by (simp add: EnsureSchema_def)
  moreover have "sql_step wit_lib id wit_check (EnsureSchema\<lparr>rd_inputs := ?t\<rparr>) wit_db0"
    using sql_pin_inputs [of wit_lib wit_check "EnsureSchema\<lparr>rd_inputs := ?t\<rparr>" _ id] pin_program [OF wit_pins(2)] by (simp add: wit_db0_def wit_pins)
  ultimately show ?thesis by simp
qed


lemma wit_verify_inputs: "VerifySQLInputsInTransition wit_lib (\<lambda>_. True) (rd_inputs wit_db0) wit_version = None"
  using wit_closure_verifies wit_program_verifies wit_ref_valid wit_version_valid
  by (simp add: VerifySQLInputsInTransition_def resolveCodeSQL_def resolveArtifactProgramSQL_def wit_db0_inputs) (simp add: wit_version_def)

lemma wit_marshal: "marshal_evidence wit_lib (wit_evidence k) = Some (wit_evidence k)"
  by (simp add: marshal_evidence_def wit_lib_def wit_evidence_def)

definition wit_db_pinned :: route_db where
  "wit_db_pinned = wit_db0\<lparr>rd_evidence := [wit_approval_ref \<mapsto> wit_evidence AuthorizationEvidenceApproval,
     wit_certificate_ref \<mapsto> wit_evidence AuthorizationEvidencePromotionCertificate]\<rparr>"

lemma wit_db0_fields: "rd_evidence wit_db0 = Map.empty" "rd_slots wit_db0 = Map.empty" "rd_receipts wit_db0 = []"
  by (simp_all add: wit_db0_def EnsureSchema_def)

lemma wit_version_pinned: "rd_inputs db = rd_inputs wit_db0 \<Longrightarrow> version_pinned db wit_version"
  by (simp add: version_pinned_def wit_db0_inputs wit_version_def)

lemma wit_evidence_version [simp]: "ae_ComputerVersion (wit_evidence k) = wit_version"
  by (simp add: wit_evidence_def)

lemma wit_pin_all: "pin_all wit_lib (\<lambda>_. True) wit_db0 [wit_evidence AuthorizationEvidenceApproval, wit_evidence AuthorizationEvidencePromotionCertificate] = Inr wit_db_pinned"
  using wit_evidence_validates wit_evidence_refs wit_version_pinned
  by (simp add: pinAuthorizationEvidenceSQL_def queryAuthorizationEvidence_def wit_marshal wit_db0_fields wit_db_pinned_def Let_def)

lemma wit_verify_evidence: "verifyTransitionEvidenceSQL wit_lib (\<lambda>_. True) wit_db_pinned wit_bootstrap = None"
proof -
  have "evidence_binds (wit_evidence AuthorizationEvidenceApproval) (wit_evidence AuthorizationEvidencePromotionCertificate) wit_bootstrap"
    by (simp add: evidence_binds_def wit_evidence_def wit_bootstrap_def SameVersion_eq)
  moreover have "tc_ApprovalRef wit_bootstrap = wit_approval_ref" "tc_PromotionCertificateRef wit_bootstrap = wit_certificate_ref" by (simp_all add: wit_bootstrap_def)
  ultimately show ?thesis using wit_evidence_validates wit_evidence_refs
    by (simp add: verifyTransitionEvidenceSQL_def queryAuthorizationEvidence_def wit_db_pinned_def)
qed

definition wit_receipt :: TransitionReceipt where
  "wit_receipt = newReceipt wit_lib ''u'' wit_bootstrap 1 5"

lemma wit_fields: "tc_RouteSlotID wit_bootstrap = ''computer:o:c''" "tc_Kind wit_bootstrap = TransitionBootstrap" "tc_New wit_bootstrap = wit_version"
  "tr_New wit_receipt = wit_version" "tr_ApprovalRef wit_receipt = wit_approval_ref" "tr_PromotionCertificateRef wit_receipt = wit_certificate_ref"
  by (simp_all add: wit_bootstrap_def wit_receipt_def newReceipt_def wit_trims)

lemma wit_insertable: "receipt_insertable wit_db_pinned wit_receipt"
  using wit_version_pinned [of wit_db_pinned]
  by (simp add: receipt_insertable_def wit_fields receipt_by_id_def receipt_by_key_def wit_db_pinned_def wit_db0_fields)

lemma wit_transition_new:
  "\<exists>db. transition_new wit_lib id (\<lambda>_. True) ''u'' 5 wit_db_pinned wit_bootstrap True = Inr (committed_slot wit_bootstrap 1 (tr_ID wit_receipt), wit_receipt, db)
     \<and> rd_slots db ''computer:o:c'' = Some (committed_slot wit_bootstrap 1 (tr_ID wit_receipt)) \<and> rd_receipts db = [wit_receipt]"
proof -
  have q: "querySlot wit_lib (\<lambda>_. True) wit_db_pinned ''computer:o:c'' = Inl ErrSlotNotFound" by (simp add: querySlot_def wit_db_pinned_def wit_db0_fields)
  have v: "version_pinned (wit_db_pinned\<lparr>rd_receipts := x\<rparr>) wit_version" for x
    using wit_version_pinned [of wit_db_pinned] by (simp add: version_pinned_def wit_db_pinned_def)
  have s: "rd_slots wit_db_pinned = Map.empty" "rd_receipts wit_db_pinned = []" by (simp_all add: wit_db_pinned_def wit_db0_fields)
  have t: "wit_receipt\<lparr>tr_CommittedAt := 5\<rparr> = wit_receipt" by (simp add: wit_receipt_def newReceipt_def)
  show ?thesis using wit_insertable v
    by (simp add: transition_new_def wit_fields q transition_guard_def next_generation_def wit_receipt_def [symmetric] mutate_slot_def s t Let_def)
       (simp add: committed_slot_def wit_receipt_def)
qed

lemma wit_key_free: "queryReceiptByIdempotencyKey wit_lib (\<lambda>_. True) wit_db_pinned k = Inl NoRows"
  by (simp add: queryReceiptByIdempotencyKey_def queryReceipt_def receipt_by_key_def wit_db_pinned_def wit_db0_fields)

lemma wit_commit:
  obtains db where "wit_call = (Inr (committed_slot wit_bootstrap 1 (tr_ID wit_receipt), wit_receipt), db)"
    "rd_slots db ''computer:o:c'' = Some (committed_slot wit_bootstrap 1 (tr_ID wit_receipt))" "rd_receipts db = [wit_receipt]"
proof -
  obtain db where d: "transition_new wit_lib id (\<lambda>_. True) ''u'' 5 wit_db_pinned wit_bootstrap True = Inr (committed_slot wit_bootstrap 1 (tr_ID wit_receipt), wit_receipt, db)"
     "rd_slots db ''computer:o:c'' = Some (committed_slot wit_bootstrap 1 (tr_ID wit_receipt))" "rd_receipts db = [wit_receipt]" using wit_transition_new by blast
  have "wit_call = (Inr (committed_slot wit_bootstrap 1 (tr_ID wit_receipt), wit_receipt), db)"
    using d(1) wit_verify_inputs
    by (simp only: wit_call_def transitionValidated_def Let_def wit_normalized wit_validates transition_tx_def wit_fields wit_pin_all wit_verify_evidence wit_key_free
        option.case sum.case prod.case if_True not_True_eq_False if_False simp_thms commit_outcome.case)
  then show thesis using that d by blast
qed


definition wit_db1 :: route_db where
  "wit_db1 = snd wit_call"

lemma wit_db1_facts: "wit_call = (Inr (committed_slot wit_bootstrap 1 (tr_ID wit_receipt), wit_receipt), wit_db1)"
  "rd_slots wit_db1 ''computer:o:c'' = Some (committed_slot wit_bootstrap 1 (tr_ID wit_receipt))" "rd_receipts wit_db1 = [wit_receipt]"
  by (metis wit_commit wit_db1_def snd_conv)+

lemma wit_env: "sql_env wit_lib id ''u'' 5 (normalized wit_bootstrap)"
  by (simp add: sql_env_def wit_lib_def)

lemma wit_db1_reachable: "(sql_step wit_lib id wit_check)\<^sup>*\<^sup>* EnsureSchema wit_db1"
  using wit_db0_reachable sql_transition [OF wit_db1_facts(1) [unfolded wit_call_def] wit_env] by (rule rtranclp.rtrancl_into_rtrancl)

theorem resolve_serves_authorized_lineage_witness:
  "\<exists>r n. SQLLedger_Resolve wit_lib (\<lambda>_. True) wit_db1 ''computer:o:c'' = Inr (committed_slot wit_bootstrap 1 (tr_ID wit_receipt), r)
     \<and> lineage (receipt_by_id wit_db1) ''computer:o:c'' n r"
proof -
  have "rd_slots wit_db1 (trimSpace ''computer:o:c'') = Some (committed_slot wit_bootstrap 1 (tr_ID wit_receipt))"
    "sl_Generation (committed_slot wit_bootstrap 1 (tr_ID wit_receipt)) \<noteq> 0"
    using wit_db1_facts(2) by (simp_all add: wit_trims committed_slot_def)
  from resolve_serves_authorized_lineage [OF wit_db1_reachable this] show ?thesis unfolding wit_trims by blast
qed

theorem sql_transition_refines_memory_witness:
  "\<exists>r l. MemoryLedger_Transition wit_lib False ''u'' 5 (memory_of wit_db0) wit_bootstrap = Inr (committed_slot wit_bootstrap 1 (tr_ID wit_receipt), r, l)
     \<and> mem_book l = sql_book wit_db1"
  using sql_transition_refines_memory [OF wit_db0_reachable wit_db1_facts(1) [unfolded wit_call_def]] by auto

theorem sql_retry_returns_receipt_witness:
  "\<exists>r. rd_receipts wit_db1 = [r] \<and> transitionValidated wit_lib id (\<lambda>_. True) CommitRefused ''v'' 6 wit_db1 wit_bootstrap
     [wit_evidence AuthorizationEvidenceApproval, wit_evidence AuthorizationEvidencePromotionCertificate] True = (Inr (committed_slot wit_bootstrap 1 (tr_ID wit_receipt), r), wit_db1)"
proof -
  have "wit_db1 \<noteq> wit_db0" using wit_db1_facts(3) wit_db0_fields(3) by (metis not_Cons_self2)
  moreover have "\<forall>q \<in> set (rd_receipts wit_db1). tr_CommittedGeneration q \<noteq> 0" by (simp add: wit_db1_facts(3)) (simp add: wit_receipt_def)
  ultimately show ?thesis
    using sql_retry_returns_receipt [OF wit_db0_reachable wit_db1_facts(1) [unfolded wit_call_def] _ wit_env rtranclp.rtrancl_refl, of CommitRefused "''v''" 6 True]
      wit_db0_fields(3) wit_db1_facts(2) unfolding wit_normalized by (auto simp: wit_fields)
qed

end
