(* ===== verification/Decision_Policy.thy ===== *)
theory Decision_Policy
  imports Computer_Event Go_Strings
begin

text \<open>
  Qualified consensus over effects (\<^verbatim>\<open>src/internal/decisionpolicy/types.go\<close>, \<^verbatim>\<open>digest.go\<close>, \<^verbatim>\<open>reduce.go\<close>): policies with seats
  and quorums, ballots, the policy store and the reducer that turns ballots into a consensus receipt. Digests are
  taken over canonical JSON. The parameters of the standard library are the fields of \<open>policy_lib\<close>: SHA-256, decoding
  a policy, reading and printing RFC 3339 times (an instant in nanoseconds since Go's zero time and whether it was
  given in UTC) and \<^verbatim>\<open>fmt.Sscanf\<close> of a duration. A nil slice or map prints as null, an empty one does not, so slices
  that are printed are options.
\<close>

subsection \<open>Values\<close>

datatype policy_error = ErrNoPolicy | ErrRevokedPolicy | ErrMissingSelection | ErrBallotNotJoined | ErrMissingRequiredSeat | ErrBelowQuorum
  | ErrUnresolvedDissent | ErrSeatDropped | ErrIndependenceFabricated | ErrReversiblePolicyIrreversibleSubject | ErrHumanSeatAbsent
  | ErrSubjectMismatch | ErrOwnerRecovery | ErrBallotAttestation | ErrWindow | ErrBounds | ErrInvalidReceipt | ErrSelectionAfterOutputs
  | ErrUnknownReducer | ErrCanonical canon_error | ErrParse

type_synonym 'a slice = "'a list option"

definition elems :: "'a slice \<Rightarrow> 'a list" where
  "elems s = (case s of None \<Rightarrow> [] | Some xs \<Rightarrow> xs)"

record PolicyBudget =
  pb_Currency :: int
  pb_ExternalSends :: int
  pb_PromotionsOfThisSubject :: int
  pb_SendsOfThisSubject :: int

record PolicyDispatchContract =
  dc_CrashWindow :: string
  dc_DispatchIdempotencyKey :: string
  dc_DispatchIntentReceipt :: string
  dc_ProviderOutcome :: "string list"
  dc_RevocationCheckPoint :: string
  dc_UncertainOutcomeReconciliation :: string

record PolicyDissent =
  di_PolicyBlockingUnresolved :: string
  di_RecordedDissentAllowed :: bool

record PolicySeat =
  ps_CountsTowardQuorum :: bool
  ps_Eligibility :: string
  ps_IndependenceDomain :: string
  ps_Kind :: string
  ps_Profile :: string
  ps_RecusedFrom :: "string slice"
  ps_SeatID :: string

record DomainQuorum =
  dq_AcceptMinimum :: int
  dq_RequiredPresent :: bool

record PolicyQuorum =
  pq_AbstentionCountsAgainstQuorum :: bool
  pq_GlobalAcceptMinimum :: int
  pq_PerDomain :: "(string \<times> DomainQuorum) slice"
  pq_Weighting :: string

record PolicyReplacement =
  pr_Bench :: "string slice"
  pr_EmptyBenchOnRequiredSeatLoss :: string

record PolicyTimeout =
  pt_Clock :: string
  pt_DecisionWindow :: string

record Policy =
  pl_PolicyID :: string
  pl_Actuator :: string
  pl_AdmissibleEvidence :: "string slice"
  pl_BlastRadius :: "string slice"
  pl_BlastRadiusOut :: "string slice"
  pl_Budget :: PolicyBudget
  pl_Capabilities :: "string slice"
  pl_ConsequenceReceipt :: "string slice"
  pl_DispatchContract :: PolicyDispatchContract
  pl_Dissent :: PolicyDissent
  pl_EffectClass :: string
  pl_EligibleSeats :: "PolicySeat slice"
  pl_Expiry :: string
  pl_ForbiddenCapabilities :: "string slice"
  pl_HumanSeat :: string
  pl_InadmissibleEvidence :: "string slice"
  pl_IndependenceDomains :: "string slice"
  pl_OwnerRevocation :: bool
  pl_Privacy :: string
  pl_Quorum :: PolicyQuorum
  pl_Recovery :: string
  pl_Recusal :: string
  pl_Replacement :: PolicyReplacement
  pl_Scope :: string
  pl_SubjectBinding :: "string slice"
  pl_Timeout :: PolicyTimeout

record EffectSubject =
  es_ComputerID :: string
  es_OperationID :: string
  es_BundleDigest :: string
  es_DesiredEventHead :: string
  es_EffectiveEventHead :: string
  es_PendingTransitionRef :: string
  es_DesiredStateCommitment :: string
  es_EffectiveStateCommitment :: string
  es_Recipient :: string
  es_PayloadDigest :: string
  es_Actuator :: string
  es_AcceptanceInbox :: string
  es_OwnerRecovery :: bool
  es_EffectClass :: string
  es_ExternalSends :: int

record Seat =
  st_SeatID :: string
  st_IndependenceDomain :: string
  st_Kind :: string
  st_EligibilityProof :: string
  st_Recused :: bool

type_synonym SeatManifest = "Seat slice"

record PolicySelectionReceipt =
  sr_ReceiptKind :: string
  sr_PolicyDigest :: string
  sr_SeatManifestDigest :: string
  sr_SubjectDigest :: string
  sr_SelectedAtHead :: string
  sr_SelectedSequence :: uint64
  sr_SelectionDigest :: string

record BallotAttestation =
  ba_BallotID :: string
  ba_SeatID :: string
  ba_EligibilityProofDigest :: string
  ba_IndependenceDomain :: string
  ba_PolicyDigest :: string
  ba_SeatManifestDigest :: string
  ba_SubjectDigest :: string
  ba_PolicySelectionDigest :: string
  ba_Vote :: string
  ba_WindowID :: string
  ba_SignerProvenance :: string
  ba_Attestation :: string
  ba_BallotDigest :: string

record QuorumEvaluation =
  qe_GlobalAccepts :: int
  qe_DomainAccepts :: "(string \<times> int) slice"
  qe_Met :: bool

record DecisionWindow =
  dw_StartedAt :: string
  dw_ExpiresAt :: string

record QualifiedConsensusReceipt =
  qc_ReceiptKind :: string
  qc_PolicyID :: string
  qc_PolicyDigest :: string
  qc_SubjectDigest :: string
  qc_EligibleSeatsDigest :: string
  qc_SelectionDigest :: string
  qc_Ballots :: "BallotAttestation slice"
  qc_QuorumEvaluation :: QuorumEvaluation
  qc_DissentDisposition :: string
  qc_HumanSeatState :: string
  qc_Window :: DecisionWindow
  qc_ReducerVersion :: string
  qc_ReceiptDigest :: string

record ConsensusInput =
  ci_Policy :: Policy
  ci_Manifest :: SeatManifest
  ci_Subject :: EffectSubject
  ci_Selection :: PolicySelectionReceipt
  ci_Ballots :: "BallotAttestation list"
  ci_Now :: string

record ConsensusBundle =
  cb_Manifest :: SeatManifest
  cb_Subject :: EffectSubject
  cb_Selection :: PolicySelectionReceipt
  cb_Ballots :: "BallotAttestation list"
  cb_Now :: string

record policy_lib =
  lib_sha :: hashing
  lib_parse_policy :: "string \<Rightarrow> Policy option"
  lib_parse_time :: "string \<Rightarrow> (int \<times> bool) option"
  lib_format_time :: "int \<Rightarrow> string"
  lib_scan_minutes :: "string \<Rightarrow> int option"

subsection \<open>Digests\<close>

text \<open>The members of a struct: a field tagged \<^verbatim>\<open>omitempty\<close> is left out at its zero value.\<close>

definition members_json :: "(string \<times> json option) list \<Rightarrow> json" where
  "members_json ms = JObject (concat (map (\<lambda>(k, v). case v of None \<Rightarrow> [] | Some j \<Rightarrow> [(k, j)]) ms))"

definition always :: "json \<Rightarrow> json option" where "always j = Some j"
definition omit_str :: "string \<Rightarrow> json option" where "omit_str s = (if s = [] then None else Some (JStr s))"
definition omit_int :: "int \<Rightarrow> json option" where "omit_int i = (if i = 0 then None else Some (JInt i))"
definition omit_bool :: "bool \<Rightarrow> json option" where "omit_bool b = (if b then Some (JBool True) else None)"
definition slice_json :: "('a \<Rightarrow> json) \<Rightarrow> 'a slice \<Rightarrow> json" where
  "slice_json f s = (case s of None \<Rightarrow> JNull | Some xs \<Rightarrow> JArray (map f xs))"
definition map_json :: "('a \<Rightarrow> json) \<Rightarrow> (string \<times> 'a) slice \<Rightarrow> json" where
  "map_json f s = (case s of None \<Rightarrow> JNull | Some xs \<Rightarrow> JObject (map (\<lambda>(k, v). (coerceUTF8 k, f v)) xs))"

definition str :: "string \<Rightarrow> json option" where "str s = always (JStr s)"
definition strs :: "string slice \<Rightarrow> json option" where "strs s = always (slice_json JStr s)"

definition budget_json :: "PolicyBudget \<Rightarrow> json" where
  "budget_json b = members_json [(''currency'', always (JInt (pb_Currency b))), (''external_sends'', always (JInt (pb_ExternalSends b))),
     (''promotions_of_this_subject'', always (JInt (pb_PromotionsOfThisSubject b))), (''sends_of_this_subject'', omit_int (pb_SendsOfThisSubject b))]"

definition contract_json :: "PolicyDispatchContract \<Rightarrow> json" where
  "contract_json d = members_json [(''crash_window'', omit_str (dc_CrashWindow d)), (''dispatch_idempotency_key'', omit_str (dc_DispatchIdempotencyKey d)),
     (''dispatch_intent_receipt'', omit_str (dc_DispatchIntentReceipt d)),
     (''provider_outcome'', if dc_ProviderOutcome d = [] then None else Some (JStrs (dc_ProviderOutcome d))),
     (''revocation_check_point'', omit_str (dc_RevocationCheckPoint d)), (''uncertain_outcome_reconciliation'', omit_str (dc_UncertainOutcomeReconciliation d))]"

definition policy_seat_json :: "PolicySeat \<Rightarrow> json" where
  "policy_seat_json s = members_json [(''counts_toward_quorum'', always (JBool (ps_CountsTowardQuorum s))), (''eligibility'', str (ps_Eligibility s)),
     (''independence_domain'', str (ps_IndependenceDomain s)), (''kind'', str (ps_Kind s)), (''profile'', str (ps_Profile s)),
     (''recused_from'', strs (ps_RecusedFrom s)), (''seat_id'', str (ps_SeatID s))]"

definition domain_json :: "DomainQuorum \<Rightarrow> json" where
  "domain_json d = members_json [(''accept_minimum'', always (JInt (dq_AcceptMinimum d))), (''required_present'', always (JBool (dq_RequiredPresent d)))]"

definition quorum_json :: "PolicyQuorum \<Rightarrow> json" where
  "quorum_json q = members_json [(''abstention_counts_against_quorum'', always (JBool (pq_AbstentionCountsAgainstQuorum q))),
     (''global_accept_minimum'', always (JInt (pq_GlobalAcceptMinimum q))), (''per_domain'', always (map_json domain_json (pq_PerDomain q))),
     (''weighting'', str (pq_Weighting q))]"

definition Policy_json :: "Policy \<Rightarrow> json" where
  "Policy_json p = members_json [
     (''policy_id'', str (pl_PolicyID p)), (''actuator'', str (pl_Actuator p)), (''admissible_evidence'', strs (pl_AdmissibleEvidence p)),
     (''blast_radius'', strs (pl_BlastRadius p)), (''blast_radius_out'', strs (pl_BlastRadiusOut p)), (''budget'', always (budget_json (pl_Budget p))),
     (''capabilities'', strs (pl_Capabilities p)), (''consequence_receipt'', strs (pl_ConsequenceReceipt p)),
     (''dispatch_contract'', always (contract_json (pl_DispatchContract p))),
     (''dissent'', always (members_json [(''policy_blocking_unresolved'', str (di_PolicyBlockingUnresolved (pl_Dissent p))),
        (''recorded_dissent_allowed'', always (JBool (di_RecordedDissentAllowed (pl_Dissent p))))])),
     (''effect_class'', str (pl_EffectClass p)), (''eligible_seats'', always (slice_json policy_seat_json (pl_EligibleSeats p))),
     (''expiry'', str (pl_Expiry p)), (''forbidden_capabilities'', strs (pl_ForbiddenCapabilities p)), (''human_seat'', str (pl_HumanSeat p)),
     (''inadmissible_evidence'', strs (pl_InadmissibleEvidence p)), (''independence_domains'', strs (pl_IndependenceDomains p)),
     (''owner_revocation'', always (JBool (pl_OwnerRevocation p))), (''privacy'', str (pl_Privacy p)), (''quorum'', always (quorum_json (pl_Quorum p))),
     (''recovery'', str (pl_Recovery p)), (''recusal'', str (pl_Recusal p)),
     (''replacement'', always (members_json [(''bench'', strs (pr_Bench (pl_Replacement p))),
        (''empty_bench_on_required_seat_loss'', str (pr_EmptyBenchOnRequiredSeatLoss (pl_Replacement p)))])),
     (''scope'', str (pl_Scope p)), (''subject_binding'', strs (pl_SubjectBinding p)),
     (''timeout'', always (members_json [(''clock'', str (pt_Clock (pl_Timeout p))), (''decision_window'', str (pt_DecisionWindow (pl_Timeout p)))]))]"

definition EffectSubject_json :: "EffectSubject \<Rightarrow> json" where
  "EffectSubject_json s = members_json [
     (''computer_id'', str (es_ComputerID s)), (''operation_id'', str (es_OperationID s)), (''bundle_digest'', str (es_BundleDigest s)),
     (''desired_event_head'', str (es_DesiredEventHead s)), (''effective_event_head'', str (es_EffectiveEventHead s)),
     (''pending_transition_ref'', str (es_PendingTransitionRef s)), (''desired_state_commitment'', str (es_DesiredStateCommitment s)),
     (''effective_state_commitment'', str (es_EffectiveStateCommitment s)), (''recipient'', omit_str (es_Recipient s)),
     (''payload_digest'', omit_str (es_PayloadDigest s)), (''actuator'', omit_str (es_Actuator s)), (''acceptance_inbox'', omit_str (es_AcceptanceInbox s)),
     (''owner_recovery'', omit_bool (es_OwnerRecovery s)), (''effect_class'', omit_str (es_EffectClass s)), (''external_sends'', omit_int (es_ExternalSends s))]"

definition Seat_json :: "Seat \<Rightarrow> json" where
  "Seat_json s = members_json [(''seat_id'', str (st_SeatID s)), (''independence_domain'', str (st_IndependenceDomain s)), (''kind'', str (st_Kind s)),
     (''eligibility_proof'', str (st_EligibilityProof s)), (''recused'', always (JBool (st_Recused s)))]"

definition SeatManifest_json :: "SeatManifest \<Rightarrow> json" where
  "SeatManifest_json m = members_json [(''seats'', always (slice_json Seat_json m))]"

definition Selection_json :: "PolicySelectionReceipt \<Rightarrow> json" where
  "Selection_json r = members_json [(''receipt_kind'', str (sr_ReceiptKind r)), (''policy_digest'', str (sr_PolicyDigest r)),
     (''seat_manifest_digest'', str (sr_SeatManifestDigest r)), (''subject_digest'', str (sr_SubjectDigest r)),
     (''selected_at_head'', str (sr_SelectedAtHead r)), (''selected_sequence'', always (JUint (sr_SelectedSequence r))),
     (''selection_digest'', omit_str (sr_SelectionDigest r))]"

definition Ballot_json :: "BallotAttestation \<Rightarrow> json" where
  "Ballot_json b = members_json [(''ballot_id'', str (ba_BallotID b)), (''seat_id'', str (ba_SeatID b)),
     (''eligibility_proof_digest'', str (ba_EligibilityProofDigest b)), (''independence_domain'', str (ba_IndependenceDomain b)),
     (''policy_digest'', str (ba_PolicyDigest b)), (''seat_manifest_digest'', str (ba_SeatManifestDigest b)),
     (''subject_digest'', str (ba_SubjectDigest b)), (''policy_selection_digest'', str (ba_PolicySelectionDigest b)), (''vote'', str (ba_Vote b)),
     (''window_id'', str (ba_WindowID b)), (''signer_provenance'', str (ba_SignerProvenance b)), (''attestation'', omit_str (ba_Attestation b)),
     (''ballot_digest'', omit_str (ba_BallotDigest b))]"

definition Receipt_json :: "QualifiedConsensusReceipt \<Rightarrow> json" where
  "Receipt_json r = members_json [(''receipt_kind'', str (qc_ReceiptKind r)), (''policy_id'', str (qc_PolicyID r)), (''policy_digest'', str (qc_PolicyDigest r)),
     (''subject_digest'', str (qc_SubjectDigest r)), (''eligible_seats_digest'', str (qc_EligibleSeatsDigest r)), (''selection_digest'', str (qc_SelectionDigest r)),
     (''ballots'', always (slice_json Ballot_json (qc_Ballots r))),
     (''quorum_evaluation'', always (members_json [(''global_accepts'', always (JInt (qe_GlobalAccepts (qc_QuorumEvaluation r)))),
        (''domain_accepts'', always (map_json JInt (qe_DomainAccepts (qc_QuorumEvaluation r)))), (''met'', always (JBool (qe_Met (qc_QuorumEvaluation r))))])),
     (''dissent_disposition'', str (qc_DissentDisposition r)), (''human_seat_state'', str (qc_HumanSeatState r)),
     (''window'', always (members_json [(''started_at'', str (dw_StartedAt (qc_Window r))), (''expires_at'', str (dw_ExpiresAt (qc_Window r)))])),
     (''reducer_version'', str (qc_ReducerVersion r)), (''receipt_digest'', omit_str (qc_ReceiptDigest r))]"

definition CanonicalDigest :: "policy_lib \<Rightarrow> json \<Rightarrow> policy_error + string" where
  "CanonicalDigest lib j = (case appendCanonical j of Inl e \<Rightarrow> Inl (ErrCanonical e) | Inr body \<Rightarrow> Inr (lib_sha lib body))"

definition Policy_Digest :: "policy_lib \<Rightarrow> Policy \<Rightarrow> policy_error + string" where
  "Policy_Digest lib p = CanonicalDigest lib (Policy_json p)"

definition SeatManifest_Digest :: "policy_lib \<Rightarrow> SeatManifest \<Rightarrow> policy_error + string" where
  "SeatManifest_Digest lib m = CanonicalDigest lib (SeatManifest_json m)"

definition EffectSubject_Digest :: "policy_lib \<Rightarrow> EffectSubject \<Rightarrow> policy_error + string" where
  "EffectSubject_Digest lib s = CanonicalDigest lib (EffectSubject_json s)"

definition Selection_Digest :: "policy_lib \<Rightarrow> PolicySelectionReceipt \<Rightarrow> policy_error + string" where
  "Selection_Digest lib r = CanonicalDigest lib (Selection_json (r\<lparr>sr_SelectionDigest := []\<rparr>))"

abbreviation AttestationPrefix :: string where
  "AttestationPrefix \<equiv> ''choir-ballot-attestation-v1:''"

definition ComputeAttestation :: "policy_lib \<Rightarrow> BallotAttestation \<Rightarrow> policy_error + string" where
  "ComputeAttestation lib b =
     (case appendCanonical (Ballot_json (b\<lparr>ba_Attestation := [], ba_BallotDigest := []\<rparr>)) of Inl e \<Rightarrow> Inl (ErrCanonical e)
      | Inr pre \<Rightarrow> Inr (lib_sha lib (AttestationPrefix @ pre)))"

definition Ballot_Digest :: "policy_lib \<Rightarrow> BallotAttestation \<Rightarrow> policy_error + string" where
  "Ballot_Digest lib b = CanonicalDigest lib (Ballot_json (b\<lparr>ba_BallotDigest := []\<rparr>))"

definition Ballot_Sign :: "policy_lib \<Rightarrow> BallotAttestation \<Rightarrow> policy_error + BallotAttestation" where
  "Ballot_Sign lib b =
     (case ComputeAttestation lib b of Inl e \<Rightarrow> Inl e
      | Inr a \<Rightarrow> let b = b\<lparr>ba_Attestation := a\<rparr> in
        (case Ballot_Digest lib b of Inl e \<Rightarrow> Inl e | Inr d \<Rightarrow> Inr (b\<lparr>ba_BallotDigest := d\<rparr>)))"

abbreviation VoteAccept :: string where "VoteAccept \<equiv> ''accept''"
abbreviation VoteReject :: string where "VoteReject \<equiv> ''reject''"
abbreviation VoteAbstain :: string where "VoteAbstain \<equiv> ''abstain''"

definition VerifyAttestation :: "policy_lib \<Rightarrow> BallotAttestation \<Rightarrow> policy_error option" where
  "VerifyAttestation lib b =
     (case ComputeAttestation lib b of Inl e \<Rightarrow> Some e
      | Inr want \<Rightarrow> if ba_Attestation b \<noteq> want then Some ErrBallotAttestation
        else (case Ballot_Digest lib b of Inl e \<Rightarrow> Some e
          | Inr d \<Rightarrow> if ba_BallotDigest b \<noteq> d then Some ErrBallotAttestation
            else if \<not> isSHA256 (ba_EligibilityProofDigest b) \<or> trimSpace (ba_SignerProvenance b) = [] \<or> trimSpace (ba_WindowID b) = []
                    \<or> trimSpace (ba_BallotID b) = [] then Some ErrBallotAttestation
            else if ba_Vote b = VoteAccept \<or> ba_Vote b = VoteReject \<or> ba_Vote b = VoteAbstain then None
            else Some ErrBallotAttestation))"

abbreviation ReceiptKindPolicySelection :: string where "ReceiptKindPolicySelection \<equiv> ''PolicySelectionReceipt''"
abbreviation ReceiptKindQualifiedConsensus :: string where "ReceiptKindQualifiedConsensus \<equiv> ''QualifiedConsensusReceipt''"
abbreviation ReducerVersionV1 :: string where "ReducerVersionV1 \<equiv> ''decisionpolicy-consensus-v1''"

definition Receipt_Digest :: "policy_lib \<Rightarrow> QualifiedConsensusReceipt \<Rightarrow> policy_error + string" where
  "Receipt_Digest lib r = CanonicalDigest lib (Receipt_json (r\<lparr>qc_ReceiptDigest := []\<rparr>))"

definition Receipt_Seal :: "policy_lib \<Rightarrow> QualifiedConsensusReceipt \<Rightarrow> policy_error + QualifiedConsensusReceipt" where
  "Receipt_Seal lib r = (case Receipt_Digest lib r of Inl e \<Rightarrow> Inl e | Inr d \<Rightarrow> Inr (r\<lparr>qc_ReceiptDigest := d\<rparr>))"

definition VerifyDigest :: "policy_lib \<Rightarrow> QualifiedConsensusReceipt \<Rightarrow> policy_error option" where
  "VerifyDigest lib r =
     (if qc_ReceiptKind r \<noteq> ReceiptKindQualifiedConsensus then Some ErrInvalidReceipt
      else if qc_ReducerVersion r \<noteq> ReducerVersionV1 then Some ErrUnknownReducer
      else case Receipt_Digest lib r of Inl e \<Rightarrow> Some e
      | Inr d \<Rightarrow> if qc_ReceiptDigest r \<noteq> d then Some ErrInvalidReceipt else None)"

subsection \<open>The policy store\<close>

definition ParsePolicy :: "policy_lib \<Rightarrow> string \<Rightarrow> policy_error + Policy" where
  "ParsePolicy lib raw =
     (case lib_parse_policy lib raw of None \<Rightarrow> Inl ErrParse
      | Some p \<Rightarrow> if trimSpace (pl_PolicyID p) = [] \<or> trimSpace (pl_EffectClass p) = [] then Inl ErrNoPolicy else Inr p)"

record Store =
  sto_policies :: "string \<rightharpoonup> string"
  sto_revoked :: "string \<Rightarrow> bool"

definition NewStore :: Store where
  "NewStore = \<lparr>sto_policies = Map.empty, sto_revoked = (\<lambda>_. False)\<rparr>"

definition Store_Put :: "policy_lib \<Rightarrow> Store \<Rightarrow> string \<Rightarrow> (policy_error + string) \<times> Store" where
  "Store_Put lib s raw =
     (let raw = trimSpace raw in
      case ParsePolicy lib raw of Inl e \<Rightarrow> (Inl e, s)
      | Inr policy \<Rightarrow>
        let fileDigest = lib_sha lib raw in
        (case Policy_Digest lib policy of Inl e \<Rightarrow> (Inl e, s)
         | Inr structDigest \<Rightarrow>
           let s = s\<lparr>sto_policies := (sto_policies s)(fileDigest \<mapsto> raw)\<rparr> in
           (Inr fileDigest, if structDigest \<noteq> fileDigest then s\<lparr>sto_policies := (sto_policies s)(structDigest \<mapsto> raw)\<rparr> else s)))"

definition Store_Get :: "policy_lib \<Rightarrow> Store \<Rightarrow> string \<Rightarrow> policy_error + Policy" where
  "Store_Get lib s dg =
     (case sto_policies s dg of None \<Rightarrow> Inl ErrNoPolicy
      | Some raw \<Rightarrow> if sto_revoked s dg then Inl ErrRevokedPolicy else ParsePolicy lib raw)"

definition Store_Revoke :: "Store \<Rightarrow> string \<Rightarrow> Store" where
  "Store_Revoke s dg = s\<lparr>sto_revoked := (sto_revoked s)(dg := True)\<rparr>"

definition Store_Known :: "Store \<Rightarrow> string \<Rightarrow> bool" where
  "Store_Known s dg \<longleftrightarrow> sto_policies s dg \<noteq> None"

text \<open>The stores of the shipped policies; the embedded files are arguments, a panic is \<open>None\<close>.\<close>

abbreviation PolicyDigestReversibleSelfDevV1 :: string where
  "PolicyDigestReversibleSelfDevV1 \<equiv> ''c34ddf073aecaacc307f375d6f2e398798350d7a48c8d3c2e7c6d10248b394d7''"
abbreviation PolicyDigestIrreversibleEmailV1 :: string where
  "PolicyDigestIrreversibleEmailV1 \<equiv> ''d83c215443638ad0cfd95eb174de61e1f203414d8ce0631cb68f0dca106c6bbc''"
abbreviation PolicyDigestHumanRequiredV1 :: string where
  "PolicyDigestHumanRequiredV1 \<equiv> ''33f5dc442d7fd0d028b76a6792954add090dafcaff87cc2ff1a1829a08df9b96''"

definition must_put :: "policy_lib \<Rightarrow> string \<Rightarrow> string \<Rightarrow> Store \<Rightarrow> Store option" where
  "must_put lib raw want s = (case Store_Put lib s raw of (Inl _, _) \<Rightarrow> None | (Inr dg, s') \<Rightarrow> if dg \<noteq> want then None else Some s')"

definition MustReversibleSelfDevV1Store :: "policy_lib \<Rightarrow> string \<Rightarrow> Store option" where
  "MustReversibleSelfDevV1Store lib selfdev = must_put lib selfdev PolicyDigestReversibleSelfDevV1 NewStore"

definition MustEffectsPolicyStore :: "policy_lib \<Rightarrow> string \<Rightarrow> string \<Rightarrow> string \<Rightarrow> Store option" where
  "MustEffectsPolicyStore lib selfdev email human =
     Option.bind (MustReversibleSelfDevV1Store lib selfdev) (\<lambda>s.
     Option.bind (must_put lib email PolicyDigestIrreversibleEmailV1 s) (must_put lib human PolicyDigestHumanRequiredV1))"

subsection \<open>The reducer\<close>

abbreviation EffectClassReversible :: string where "EffectClassReversible \<equiv> ''reversible_computer_local''"
abbreviation EffectClassIrreversible :: string where "EffectClassIrreversible \<equiv> ''irreversible_external''"
abbreviation ActuatorTrustedOutbox :: string where "ActuatorTrustedOutbox \<equiv> ''trusted_outbox''"
abbreviation HumanSeatAbsent :: string where "HumanSeatAbsent \<equiv> ''absent''"
abbreviation HumanSeatRequired :: string where "HumanSeatRequired \<equiv> ''required''"
abbreviation HumanSeatOptional :: string where "HumanSeatOptional \<equiv> ''optional''"
abbreviation HumanSeatPresent :: string where "HumanSeatPresent \<equiv> ''present''"
abbreviation HumanSeatNotRequired :: string where "HumanSeatNotRequired \<equiv> ''not_required''"

definition Irreversible :: "EffectSubject \<Rightarrow> bool" where
  "Irreversible s \<longleftrightarrow> es_EffectClass s = EffectClassIrreversible \<or> trimSpace (es_Recipient s) \<noteq> [] \<or> trimSpace (es_PayloadDigest s) \<noteq> []
     \<or> es_Actuator s = ActuatorTrustedOutbox \<or> trimSpace (es_AcceptanceInbox s) \<noteq> [] \<or> 0 < es_ExternalSends s"

text \<open>A \<^verbatim>\<open>time.Duration\<close> counts nanoseconds in 64 bits, so a long window wraps.\<close>

definition minutes_ns :: "int \<Rightarrow> int" where
  "minutes_ns m = sint (of_int (m * 60000000000) :: 64 word)"

definition parseDecisionWindow :: "policy_lib \<Rightarrow> string \<Rightarrow> policy_error + int" where
  "parseDecisionWindow lib spec =
     (let spec = trimSpace spec in
      if spec = ''PT30M'' then Inr (minutes_ns 30)
      else if hasPrefix spec ''PT'' \<and> hasSuffix spec ''M''
      then (case lib_scan_minutes lib spec of Some m \<Rightarrow> if 0 < m then Inr (minutes_ns m) else Inl ErrWindow | None \<Rightarrow> Inl ErrWindow)
      else Inl ErrWindow)"

definition containsString :: "string slice \<Rightarrow> string \<Rightarrow> bool" where
  "containsString values want \<longleftrightarrow> want \<in> set (elems values)"

definition refuseBounds :: "Policy \<Rightarrow> EffectSubject \<Rightarrow> policy_error option" where
  "refuseBounds policy s =
     (if pb_ExternalSends (pl_Budget policy) = 0 \<and> 0 < es_ExternalSends s then Some ErrBounds
      else if 0 < pb_ExternalSends (pl_Budget policy) \<and> pb_ExternalSends (pl_Budget policy) < es_ExternalSends s then Some ErrBounds
      else if containsString (pl_ForbiddenCapabilities policy) ''outbox.send'' \<and> es_Actuator s = ActuatorTrustedOutbox then Some ErrBounds
      else if containsString (pl_InadmissibleEvidence policy) ''owner_recovery_checkpoint'' \<and> es_OwnerRecovery s then Some ErrOwnerRecovery
      else if pl_EffectClass policy = EffectClassIrreversible
        \<and> (trimSpace (es_Recipient s) = [] \<or> \<not> isSHA256 (es_PayloadDigest s) \<or> es_Actuator s \<noteq> ActuatorTrustedOutbox
            \<or> trimSpace (es_AcceptanceInbox s) = []) then Some ErrBounds
      else None)"

text \<open>A Go map filled in a loop: the last value written under a key is the one kept.\<close>

definition by_id :: "('a \<Rightarrow> string) \<Rightarrow> 'a list \<Rightarrow> string \<rightharpoonup> 'a" where
  "by_id key xs = map_of (rev (map (\<lambda>x. (key x, x)) xs))"

fun validate_seats :: "(string \<rightharpoonup> PolicySeat) \<Rightarrow> string list \<Rightarrow> Seat list \<Rightarrow> policy_error + string list" where
  "validate_seats policyIDs seen [] = Inr seen"
| "validate_seats policyIDs seen (seat # rest) =
     (if st_SeatID seat \<in> set seen then Inl ErrIndependenceFabricated
      else if st_Recused seat then Inl ErrSeatDropped
      else case policyIDs (st_SeatID seat) of None \<Rightarrow> Inl ErrMissingRequiredSeat
      | Some ps \<Rightarrow>
        if st_IndependenceDomain seat \<noteq> ps_IndependenceDomain ps \<or> st_Kind seat \<noteq> ps_Kind ps then Inl ErrIndependenceFabricated
        else if trimSpace (st_EligibilityProof seat) = [] then Inl ErrBallotAttestation
        else validate_seats policyIDs (st_SeatID seat # seen) rest)"

definition validateManifest :: "Policy \<Rightarrow> SeatManifest \<Rightarrow> policy_error option" where
  "validateManifest policy manifest =
     (if length (elems manifest) \<noteq> length (elems (pl_EligibleSeats policy)) then Some ErrMissingRequiredSeat
      else case validate_seats (by_id ps_SeatID (elems (pl_EligibleSeats policy))) [] (elems manifest) of Inl e \<Rightarrow> Some e
      | Inr seen \<Rightarrow> if \<forall>ps \<in> set (elems (pl_EligibleSeats policy)). ps_SeatID ps \<in> set seen then None else Some ErrMissingRequiredSeat)"

fun bump :: "string \<Rightarrow> (string \<times> int) list \<Rightarrow> (string \<times> int) list" where
  "bump k [] = [(k, 1)]"
| "bump k ((j, n) # rest) = (if j = k then (j, n + 1) # rest else (j, n) # bump k rest)"

definition count_of :: "(string \<times> int) list \<Rightarrow> string \<Rightarrow> int" where
  "count_of m k = (case map_of m k of None \<Rightarrow> 0 | Some n \<Rightarrow> n)"

record ballot_context =
  bc_policy :: Policy
  bc_policyDigest :: string
  bc_manifestDigest :: string
  bc_subjectDigest :: string
  bc_selectionDigest :: string
  bc_seatsByID :: "string \<rightharpoonup> Seat"
  bc_policySeatByID :: "string \<rightharpoonup> PolicySeat"
  bc_authorSigners :: "string \<Rightarrow> bool"

record tally =
  ta_seenBallot :: "string list"
  ta_signerDomain :: "string \<rightharpoonup> string"
  ta_accepts :: int
  ta_domainAccepts :: "(string \<times> int) list"
  ta_blockingDissent :: bool
  ta_humanPresent :: bool
  ta_requiredPresent :: "string list"

definition no_votes :: tally where
  "no_votes = \<lparr>ta_seenBallot = [], ta_signerDomain = Map.empty, ta_accepts = 0, ta_domainAccepts = [], ta_blockingDissent = False,
     ta_humanPresent = False, ta_requiredPresent = []\<rparr>"

text \<open>One ballot: the checks of the loop body in its order, then what the ballot adds.\<close>

definition admit_ballot :: "policy_lib \<Rightarrow> ballot_context \<Rightarrow> tally \<Rightarrow> BallotAttestation \<Rightarrow> policy_error + (Seat \<times> PolicySeat)" where
  "admit_ballot lib c t b =
     (if ba_BallotID b \<in> set (ta_seenBallot t) then Inl ErrBallotAttestation
      else case VerifyAttestation lib b of Some e \<Rightarrow> Inl e
      | None \<Rightarrow>
        if ba_PolicyDigest b \<noteq> bc_policyDigest c \<or> ba_SeatManifestDigest b \<noteq> bc_manifestDigest c
           \<or> ba_SubjectDigest b \<noteq> bc_subjectDigest c \<or> ba_PolicySelectionDigest b \<noteq> bc_selectionDigest c then Inl ErrBallotNotJoined
        else if ba_WindowID b \<noteq> bc_selectionDigest c then Inl ErrWindow
        else case bc_seatsByID c (ba_SeatID b) of None \<Rightarrow> Inl ErrMissingRequiredSeat
        | Some seat \<Rightarrow>
          if st_Recused seat then Inl ErrSeatDropped
          else case bc_policySeatByID c (ba_SeatID b) of None \<Rightarrow> Inl ErrMissingRequiredSeat
          | Some ps \<Rightarrow>
            if ba_IndependenceDomain b \<noteq> st_IndependenceDomain seat \<or> ba_IndependenceDomain b \<noteq> ps_IndependenceDomain ps
            then Inl ErrIndependenceFabricated
            else if ta_signerDomain t (ba_SignerProvenance b) \<notin> {None, Some (ba_IndependenceDomain b)} then Inl ErrIndependenceFabricated
            else if containsString (ps_RecusedFrom ps) (ba_IndependenceDomain b) then Inl ErrIndependenceFabricated
            else if bc_authorSigners c (ba_SignerProvenance b)
               \<and> (case bc_policySeatByID c ''cosuper-author'' of None \<Rightarrow> False
                  | Some author \<Rightarrow> containsString (ps_RecusedFrom author) (ba_IndependenceDomain b)) then Inl ErrIndependenceFabricated
            else Inr (seat, ps))"

definition count_ballot :: "ballot_context \<Rightarrow> tally \<Rightarrow> BallotAttestation \<Rightarrow> Seat \<Rightarrow> PolicySeat \<Rightarrow> tally" where
  "count_ballot c t b seat ps =
     (let counts = ps_CountsTowardQuorum ps; accept = counts \<and> ba_Vote b = VoteAccept in
      t\<lparr>ta_seenBallot := ba_BallotID b # ta_seenBallot t,
        ta_signerDomain := (ta_signerDomain t)(ba_SignerProvenance b \<mapsto> ba_IndependenceDomain b),
        ta_accepts := ta_accepts t + (if accept then 1 else 0),
        ta_domainAccepts := (if accept then bump (ba_IndependenceDomain b) (ta_domainAccepts t) else ta_domainAccepts t),
        ta_blockingDissent := ta_blockingDissent t
          \<or> counts \<and> ba_Vote b = VoteReject \<and> di_PolicyBlockingUnresolved (pl_Dissent (bc_policy c)) = ''refuse'',
        ta_humanPresent := ta_humanPresent t \<or> st_Kind seat = ''owner_human'' \<or> ps_Kind ps = ''owner_human'',
        ta_requiredPresent := (if counts then ba_SeatID b # ta_requiredPresent t else ta_requiredPresent t)\<rparr>)"

fun tally_ballots :: "policy_lib \<Rightarrow> ballot_context \<Rightarrow> tally \<Rightarrow> BallotAttestation list \<Rightarrow> policy_error + tally" where
  "tally_ballots lib c t [] = Inr t"
| "tally_ballots lib c t (b # rest) =
     (case admit_ballot lib c t b of Inl e \<Rightarrow> Inl e
      | Inr (seat, ps) \<Rightarrow> tally_ballots lib c (count_ballot c t b seat ps) rest)"

definition domain_rule :: "Policy \<Rightarrow> string \<Rightarrow> DomainQuorum" where
  "domain_rule policy d = (case map_of (elems (pq_PerDomain (pl_Quorum policy))) d of
     None \<Rightarrow> \<lparr>dq_AcceptMinimum = 0, dq_RequiredPresent = False\<rparr> | Some r \<Rightarrow> r)"

definition quorum_check :: "Policy \<Rightarrow> tally \<Rightarrow> policy_error option" where
  "quorum_check policy t =
     (if ta_blockingDissent t then Some ErrUnresolvedDissent
      else if \<exists>ps \<in> set (elems (pl_EligibleSeats policy)). dq_RequiredPresent (domain_rule policy (ps_IndependenceDomain ps))
         \<and> ps_CountsTowardQuorum ps \<and> ps_SeatID ps \<notin> set (ta_requiredPresent t) then Some ErrMissingRequiredSeat
      else if ta_accepts t < pq_GlobalAcceptMinimum (pl_Quorum policy) then Some ErrBelowQuorum
      else if \<exists>(d, rule) \<in> set (elems (pq_PerDomain (pl_Quorum policy))). count_of (ta_domainAccepts t) d < dq_AcceptMinimum rule
      then Some ErrBelowQuorum
      else None)"

definition human_state :: "Policy \<Rightarrow> bool \<Rightarrow> policy_error + string" where
  "human_state policy present =
     (if pl_HumanSeat policy = HumanSeatRequired then (if present then Inr HumanSeatPresent else Inl ErrHumanSeatAbsent)
      else if pl_HumanSeat policy = HumanSeatAbsent then (if present then Inl ErrBounds else Inr HumanSeatAbsent)
      else if pl_HumanSeat policy = HumanSeatOptional then Inr (if present then HumanSeatPresent else HumanSeatAbsent)
      else Inr HumanSeatNotRequired)"

text \<open>The checks up to the ballots: the policy the store serves, the bounds, the digests, the selection and the
  decision window.\<close>

record reduce_frame =
  rf_context :: ballot_context
  rf_startedAt :: int
  rf_expiresAt :: int

definition authorSigners :: "(string \<rightharpoonup> PolicySeat) \<Rightarrow> BallotAttestation list \<Rightarrow> string \<Rightarrow> bool" where
  "authorSigners policySeatByID ballots signer \<longleftrightarrow>
     (\<exists>b \<in> set ballots. ba_SignerProvenance b = signer
        \<and> (case policySeatByID (ba_SeatID b) of None \<Rightarrow> False | Some ps \<Rightarrow> ps_IndependenceDomain ps = ''authoring''))"

definition selectedDigest :: "policy_lib \<Rightarrow> ConsensusInput \<Rightarrow> policy_error + string" where
  "selectedDigest lib inp =
     (let dg = trimSpace (sr_PolicyDigest (ci_Selection inp)) in if dg = [] then Policy_Digest lib (ci_Policy inp) else Inr dg)"

definition check_selection :: "policy_lib \<Rightarrow> PolicySelectionReceipt \<Rightarrow> string \<Rightarrow> string \<Rightarrow> string \<Rightarrow> policy_error + string" where
  "check_selection lib sel policyDigest manifestDigest subjectDigest =
     (if sr_ReceiptKind sel \<noteq> ReceiptKindPolicySelection then Inl ErrMissingSelection
      else if sr_PolicyDigest sel \<noteq> policyDigest \<or> sr_SeatManifestDigest sel \<noteq> manifestDigest \<or> sr_SubjectDigest sel \<noteq> subjectDigest
      then Inl ErrSubjectMismatch
      else if \<not> isSHA256 (sr_SelectedAtHead sel) \<or> sr_SelectedSequence sel = 0 then Inl ErrSelectionAfterOutputs
      else case Selection_Digest lib sel of Inl e \<Rightarrow> Inl e
      | Inr selectionDigest \<Rightarrow>
        if sr_SelectionDigest sel \<noteq> [] \<and> sr_SelectionDigest sel \<noteq> selectionDigest then Inl ErrMissingSelection else Inr selectionDigest)"

definition check_policy :: "ConsensusInput \<Rightarrow> Policy \<Rightarrow> policy_error option" where
  "check_policy inp policy =
     (if pl_PolicyID policy = [] \<or> (pl_PolicyID (ci_Policy inp) \<noteq> [] \<and> pl_PolicyID (ci_Policy inp) \<noteq> pl_PolicyID policy) then Some ErrNoPolicy
      else if es_OwnerRecovery (ci_Subject inp) then Some ErrOwnerRecovery
      else if pl_EffectClass policy = EffectClassReversible \<and> Irreversible (ci_Subject inp) then Some ErrReversiblePolicyIrreversibleSubject
      else refuseBounds policy (ci_Subject inp))"

definition check_window :: "policy_lib \<Rightarrow> ConsensusInput \<Rightarrow> Policy \<Rightarrow> policy_error + (int \<times> int)" where
  "check_window lib inp policy =
     (case lib_parse_time lib (trimSpace (ci_Now inp)) of None \<Rightarrow> Inl ErrWindow
      | Some (now, utc) \<Rightarrow> if \<not> utc then Inl ErrWindow
        else case parseDecisionWindow lib (pt_DecisionWindow (pl_Timeout policy)) of Inl e \<Rightarrow> Inl e
        | Inr window \<Rightarrow> Inr (now - now mod 1000, now - now mod 1000 + window))"

definition reduce_prefix :: "policy_lib \<Rightarrow> Store \<Rightarrow> ConsensusInput \<Rightarrow> policy_error + reduce_frame" where
  "reduce_prefix lib store inp =
     (case selectedDigest lib inp of Inl e \<Rightarrow> Inl e
      | Inr policyDigest \<Rightarrow> case Store_Get lib store policyDigest of Inl e \<Rightarrow> Inl e
      | Inr policy \<Rightarrow> case check_policy inp policy of Some e \<Rightarrow> Inl e
      | None \<Rightarrow> case EffectSubject_Digest lib (ci_Subject inp) of Inl e \<Rightarrow> Inl e
      | Inr subjectDigest \<Rightarrow> case SeatManifest_Digest lib (ci_Manifest inp) of Inl e \<Rightarrow> Inl e
      | Inr manifestDigest \<Rightarrow> case validateManifest policy (ci_Manifest inp) of Some e \<Rightarrow> Inl e
      | None \<Rightarrow> case check_selection lib (ci_Selection inp) policyDigest manifestDigest subjectDigest of Inl e \<Rightarrow> Inl e
      | Inr selectionDigest \<Rightarrow> case check_window lib inp policy of Inl e \<Rightarrow> Inl e
      | Inr (startedAt, expiresAt) \<Rightarrow>
        let policySeatByID = by_id ps_SeatID (elems (pl_EligibleSeats policy)) in
        Inr \<lparr>rf_context = \<lparr>bc_policy = policy, bc_policyDigest = policyDigest, bc_manifestDigest = manifestDigest,
               bc_subjectDigest = subjectDigest, bc_selectionDigest = selectionDigest,
               bc_seatsByID = by_id st_SeatID (elems (ci_Manifest inp)), bc_policySeatByID = policySeatByID,
               bc_authorSigners = authorSigners policySeatByID (ci_Ballots inp)\<rparr>,
             rf_startedAt = startedAt, rf_expiresAt = expiresAt\<rparr>)"

definition consensus_receipt :: "policy_lib \<Rightarrow> ConsensusInput \<Rightarrow> reduce_frame \<Rightarrow> tally \<Rightarrow> string \<Rightarrow> QualifiedConsensusReceipt" where
  "consensus_receipt lib inp f t humanState =
     \<lparr>qc_ReceiptKind = ReceiptKindQualifiedConsensus, qc_PolicyID = pl_PolicyID (bc_policy (rf_context f)),
      qc_PolicyDigest = bc_policyDigest (rf_context f), qc_SubjectDigest = bc_subjectDigest (rf_context f),
      qc_EligibleSeatsDigest = bc_manifestDigest (rf_context f), qc_SelectionDigest = bc_selectionDigest (rf_context f),
      qc_Ballots = (if ci_Ballots inp = [] then None else Some (ci_Ballots inp)),
      qc_QuorumEvaluation = \<lparr>qe_GlobalAccepts = ta_accepts t, qe_DomainAccepts = Some (ta_domainAccepts t), qe_Met = True\<rparr>,
      qc_DissentDisposition = ''resolved_none_blocking'', qc_HumanSeatState = humanState,
      qc_Window = \<lparr>dw_StartedAt = lib_format_time lib (rf_startedAt f), dw_ExpiresAt = lib_format_time lib (rf_expiresAt f)\<rparr>,
      qc_ReducerVersion = ReducerVersionV1, qc_ReceiptDigest = []\<rparr>"

definition Consensus_Reduce :: "policy_lib \<Rightarrow> Store option \<Rightarrow> ConsensusInput \<Rightarrow> policy_error + QualifiedConsensusReceipt" where
  "Consensus_Reduce lib store inp =
     (case store of None \<Rightarrow> Inl ErrNoPolicy
      | Some store \<Rightarrow> case reduce_prefix lib store inp of Inl e \<Rightarrow> Inl e
      | Inr f \<Rightarrow> case tally_ballots lib (rf_context f) no_votes (ci_Ballots inp) of Inl e \<Rightarrow> Inl e
      | Inr t \<Rightarrow> case quorum_check (bc_policy (rf_context f)) t of Some e \<Rightarrow> Inl e
      | None \<Rightarrow> case human_state (bc_policy (rf_context f)) (ta_humanPresent t) of Inl e \<Rightarrow> Inl e
      | Inr humanState \<Rightarrow> Receipt_Seal lib (consensus_receipt lib inp f t humanState))"

definition Consensus_Verify :: "policy_lib \<Rightarrow> Store option \<Rightarrow> ConsensusInput \<Rightarrow> QualifiedConsensusReceipt \<Rightarrow> policy_error option" where
  "Consensus_Verify lib store inp receipt =
     (case Consensus_Reduce lib store inp of Inl e \<Rightarrow> Some e
      | Inr got \<Rightarrow> case VerifyDigest lib receipt of Some e \<Rightarrow> Some e
      | None \<Rightarrow> if qc_ReceiptDigest got \<noteq> qc_ReceiptDigest receipt then Some ErrInvalidReceipt
        else case EffectSubject_Digest lib (ci_Subject inp) of Inl e \<Rightarrow> Some e
        | Inr subjectDigest \<Rightarrow> if qc_SubjectDigest receipt \<noteq> subjectDigest then Some ErrSubjectMismatch else None)"

definition ReduceBundle :: "policy_lib \<Rightarrow> Store option \<Rightarrow> ConsensusBundle \<Rightarrow> policy_error + QualifiedConsensusReceipt" where
  "ReduceBundle lib store bundle =
     (case store of None \<Rightarrow> Inl ErrNoPolicy
      | Some s \<Rightarrow> case Store_Get lib s (trimSpace (sr_PolicyDigest (cb_Selection bundle))) of Inl e \<Rightarrow> Inl e
      | Inr policy \<Rightarrow> Consensus_Reduce lib (Some s) \<lparr>ci_Policy = policy, ci_Manifest = cb_Manifest bundle, ci_Subject = cb_Subject bundle,
          ci_Selection = cb_Selection bundle, ci_Ballots = cb_Ballots bundle, ci_Now = cb_Now bundle\<rparr>)"

abbreviation AuthorityPrefix :: string where "AuthorityPrefix \<equiv> ''qualified-consensus:''"

definition Consensus_AuthorityRef :: "QualifiedConsensusReceipt \<Rightarrow> string" where
  "Consensus_AuthorityRef r = AuthorityPrefix @ trimSpace (qc_ReceiptDigest r)"

definition ReceiptDigestFromAuthority :: "string \<Rightarrow> string option" where
  "ReceiptDigestFromAuthority ref =
     (let dg = trimPrefix (trimSpace ref) AuthorityPrefix in
      if dg = [] \<or> dg = trimSpace ref \<or> \<not> isSHA256 dg then None else Some dg)"

subsection \<open>Every value of the package prints\<close>

text \<open>Coercion always gives valid text, so canonical JSON never fails on these values: digests always exist.\<close>

lemma three_byte_decode:
  assumes "a < 16" "b < 64" "c < 64" "a = 0 \<longrightarrow> 32 \<le> b" "a = 13 \<longrightarrow> b < 32"
  shows "decode_rune ([224 + a, 128 + b, 128 + c] @ rest) = Some (a * 4096 + b * 64 + c, rest)"
  using assms by (auto simp: cont_def)

lemma four_byte_decode:
  assumes "a < 5" "b < 64" "c < 64" "d < 64" "a = 0 \<longrightarrow> 16 \<le> b" "a = 4 \<longrightarrow> b < 16"
  shows "decode_rune ([240 + a, 128 + b, 128 + c, 128 + d] @ rest) = Some (a * 262144 + b * 4096 + c * 64 + d, rest)"
  using assms by (auto simp: cont_def)

lemma decode_of_encode:
  assumes "scalar r"
  shows "decode_rune (encode_rune r @ rest) = Some (r, rest)"
proof -
  have q: "r div 262144 = r div 4096 div 64" "r div 4096 = r div 64 div 64" by (simp_all add: div_mult2_eq [symmetric])
  have e: "r = r div 64 * 64 + r mod 64" "r div 64 = r div 64 div 64 * 64 + r div 64 mod 64"
    "r div 64 div 64 = r div 64 div 64 div 64 * 64 + r div 64 div 64 mod 64" by simp_all
  have m: "r mod 64 < 64" "r div 64 mod 64 < 64" "r div 64 div 64 mod 64 < 64" by simp_all
  consider "r < 128" | "128 \<le> r" "r < 2048" | "2048 \<le> r" "r < 65536" | "65536 \<le> r" "r < 0x110000"
    using assms unfolding scalar_def by linarith
  then show ?thesis
  proof cases
    case 2
    then have "2 \<le> r div 64" "r div 64 < 32" by simp_all
    then show ?thesis using 2 m(1) by (simp add: encode_rune_def cont_def)
  next
    case 3
    have a: "r div 64 div 64 < 16" using 3 by simp
    have b: "r div 64 div 64 = 0 \<longrightarrow> 32 \<le> r div 64 mod 64" using 3(1) e m by linarith
    have c: "r div 64 div 64 = 13 \<longrightarrow> r div 64 mod 64 < 32"
    proof
      assume "r div 64 div 64 = 13"
      moreover from this have "r < 0xE000" using e m by linarith
      ultimately show "r div 64 mod 64 < 32" using e m assms unfolding scalar_def by linarith
    qed
    have s: "r div 64 div 64 * 4096 + r div 64 mod 64 * 64 + r mod 64 = r" using e by linarith
    have "encode_rune r = [224 + r div 64 div 64, 128 + r div 64 mod 64, 128 + r mod 64]" using 3 by (simp add: encode_rune_def q)
    then show ?thesis using three_byte_decode [OF a m(2,1) b c] s by simp
  next
    case 4
    have a: "r div 64 div 64 div 64 < 5" using 4 by simp
    have b: "r div 64 div 64 div 64 = 0 \<longrightarrow> 16 \<le> r div 64 div 64 mod 64" using 4(1) e m by linarith
    have c: "r div 64 div 64 div 64 = 4 \<longrightarrow> r div 64 div 64 mod 64 < 16" using 4(2) e m by linarith
    have s: "r div 64 div 64 div 64 * 262144 + r div 64 div 64 mod 64 * 4096 + r div 64 mod 64 * 64 + r mod 64 = r" using e by linarith
    have "encode_rune r = [240 + r div 64 div 64 div 64, 128 + r div 64 div 64 mod 64, 128 + r div 64 mod 64, 128 + r mod 64]"
      using 4 by (simp add: encode_rune_def q)
    then show ?thesis using four_byte_decode [OF a m(3,2,1) b c] s by simp
  qed (simp add: encode_rune_def)
qed

lemma valid_encoded: "list_all scalar rs \<Longrightarrow> valid_utf8 (concat (map encode_rune rs))"
proof (induction rs)
  case (Cons r rs)
  obtain b bs where e: "encode_rune r @ concat (map encode_rune rs) = b # bs" by (cases "encode_rune r") (auto simp: encode_rune_def split: if_splits)
  have "decode_rune (b # bs) = Some (r, concat (map encode_rune rs))"
    using decode_of_encode [of r "concat (map encode_rune rs)"] Cons.prems e by simp
  then show ?case using Cons e by (simp del: decode_rune.simps)
qed simp

lemma runes_scalar: "list_all scalar (runes bs)"
  by (induction bs rule: runes.induct) (auto simp: scalar_def simp del: decode_rune.simps dest: decode_encode split: option.splits)

lemma encode_rune_bytes: "scalar r \<Longrightarrow> \<forall>x \<in> set (encode_rune r). x < 256"
  by (auto simp: encode_rune_def scalar_def)

lemma coerce_is_valid [simp]: "ValidString (coerceUTF8 s)"
proof -
  let ?rs = "runes (byte_codes s)"
  have "\<forall>x \<in> set (concat (map encode_rune ?rs)). x < 256"
    using runes_scalar [of "byte_codes s"] encode_rune_bytes by (auto simp: list_all_iff)
  then have "map (of_char \<circ> char_of) (concat (map encode_rune ?rs)) = concat (map encode_rune ?rs)"
    by (intro map_idI) (auto simp: of_char_of)
  then have "byte_codes (coerceUTF8 s) = concat (map encode_rune ?rs)" by (simp add: coerceUTF8_def byte_codes_def)
  then show ?thesis using valid_encoded [OF runes_scalar, of "byte_codes s"] by (simp add: ValidString_def)
qed

lemma ascii_valid: "list_all (\<lambda>c. of_char c < (128 :: nat)) s \<Longrightarrow> ValidString s"
  by (induction s) (simp_all add: ValidString_def byte_codes_def)

lemma printable_text [simp]: "printable (JStr s)" "printable (JStrs ss)"
  by (simp_all add: JStr_def JStrs_def list_all_iff)

lemma printable_members: "printable (members_json ms) \<longleftrightarrow> list_all (\<lambda>(k, v). \<forall>j. v = Some j \<longrightarrow> ValidString k \<and> printable j) ms"
  by (auto simp: members_json_def list_all_iff split: option.splits)

lemma printable_slice: "(\<And>x. printable (f x)) \<Longrightarrow> printable (slice_json f s)"
  by (auto simp: slice_json_def list_all_iff split: option.splits)

lemma printable_map: "(\<And>x. printable (f x)) \<Longrightarrow> printable (map_json f s)"
  by (auto simp: map_json_def list_all_iff split: option.splits)

lemmas member_defs = always_def omit_str_def omit_int_def omit_bool_def str_def strs_def printable_slice printable_map ascii_valid

lemma printable_leaves [simp]: "printable (budget_json b)" "printable (contract_json d)" "printable (policy_seat_json s)"
    "printable (domain_json q)" "printable (Seat_json t)"
  unfolding budget_json_def contract_json_def policy_seat_json_def domain_json_def Seat_json_def printable_members
  by (simp_all add: member_defs)

lemma printable_nodes [simp]: "printable (quorum_json q)" "printable (SeatManifest_json m)" "printable (EffectSubject_json e)"
    "printable (Selection_json sel)" "printable (Ballot_json bal)"
  unfolding quorum_json_def SeatManifest_json_def EffectSubject_json_def Selection_json_def Ballot_json_def printable_members
  by (simp_all add: member_defs)

lemma printable_Policy [simp]: "printable (Policy_json p)"
  unfolding Policy_json_def printable_members by (simp add: member_defs printable_members)

lemma printable_Receipt [simp]: "printable (Receipt_json r)"
  unfolding Receipt_json_def printable_members by (simp add: member_defs printable_members)

definition canon :: "json \<Rightarrow> string" where
  "canon j = render (norm j)"

lemma CanonicalDigest_printable: "printable j \<Longrightarrow> CanonicalDigest lib j = Inr (lib_sha lib (canon j))"
  by (simp add: CanonicalDigest_def appendCanonical_ok canon_def)

lemma digests [simp]:
  "Policy_Digest lib p = Inr (lib_sha lib (canon (Policy_json p)))"
  "SeatManifest_Digest lib m = Inr (lib_sha lib (canon (SeatManifest_json m)))"
  "EffectSubject_Digest lib s = Inr (lib_sha lib (canon (EffectSubject_json s)))"
  "Selection_Digest lib sel = Inr (lib_sha lib (canon (Selection_json (sel\<lparr>sr_SelectionDigest := []\<rparr>))))"
  "ComputeAttestation lib b = Inr (lib_sha lib (AttestationPrefix @ canon (Ballot_json (b\<lparr>ba_Attestation := [], ba_BallotDigest := []\<rparr>))))"
  "Ballot_Digest lib b = Inr (lib_sha lib (canon (Ballot_json (b\<lparr>ba_BallotDigest := []\<rparr>))))"
  "Receipt_Digest lib r = Inr (lib_sha lib (canon (Receipt_json (r\<lparr>qc_ReceiptDigest := []\<rparr>))))"
  by (simp_all add: Policy_Digest_def SeatManifest_Digest_def EffectSubject_Digest_def Selection_Digest_def ComputeAttestation_def
      Ballot_Digest_def Receipt_Digest_def CanonicalDigest_printable appendCanonical_ok canon_def [symmetric])

subsection \<open>What consensus means\<close>

text \<open>The abstract specification: which ballots may be counted together, and when they carry the policy.\<close>

definition counting :: "ballot_context \<Rightarrow> BallotAttestation \<Rightarrow> bool" where
  "counting c b \<longleftrightarrow> (case bc_policySeatByID c (ba_SeatID b) of None \<Rightarrow> False | Some ps \<Rightarrow> ps_CountsTowardQuorum ps)"

definition accepting :: "ballot_context \<Rightarrow> BallotAttestation \<Rightarrow> bool" where
  "accepting c b \<longleftrightarrow> counting c b \<and> ba_Vote b = VoteAccept"

definition by_human :: "ballot_context \<Rightarrow> BallotAttestation \<Rightarrow> bool" where
  "by_human c b \<longleftrightarrow> (\<exists>seat. bc_seatsByID c (ba_SeatID b) = Some seat \<and> st_Kind seat = ''owner_human'')
     \<or> (\<exists>ps. bc_policySeatByID c (ba_SeatID b) = Some ps \<and> ps_Kind ps = ''owner_human'')"

definition joined :: "ballot_context \<Rightarrow> BallotAttestation \<Rightarrow> bool" where
  "joined c b \<longleftrightarrow> ba_PolicyDigest b = bc_policyDigest c \<and> ba_SeatManifestDigest b = bc_manifestDigest c
     \<and> ba_SubjectDigest b = bc_subjectDigest c \<and> ba_PolicySelectionDigest b = bc_selectionDigest c \<and> ba_WindowID b = bc_selectionDigest c"

definition barred_author :: "ballot_context \<Rightarrow> string \<Rightarrow> string \<Rightarrow> bool" where
  "barred_author c signer d \<longleftrightarrow> bc_authorSigners c signer
     \<and> (\<exists>author. bc_policySeatByID c ''cosuper-author'' = Some author \<and> containsString (ps_RecusedFrom author) d)"

definition seated :: "ballot_context \<Rightarrow> BallotAttestation \<Rightarrow> bool" where
  "seated c b \<longleftrightarrow> (\<exists>seat ps. bc_seatsByID c (ba_SeatID b) = Some seat \<and> bc_policySeatByID c (ba_SeatID b) = Some ps
     \<and> \<not> st_Recused seat \<and> ba_IndependenceDomain b = st_IndependenceDomain seat \<and> ba_IndependenceDomain b = ps_IndependenceDomain ps
     \<and> \<not> containsString (ps_RecusedFrom ps) (ba_IndependenceDomain b))"

definition ballot_ok :: "policy_lib \<Rightarrow> ballot_context \<Rightarrow> BallotAttestation \<Rightarrow> bool" where
  "ballot_ok lib c b \<longleftrightarrow> VerifyAttestation lib b = None \<and> joined c b \<and> seated c b
     \<and> \<not> barred_author c (ba_SignerProvenance b) (ba_IndependenceDomain b)"

definition admissible :: "policy_lib \<Rightarrow> ballot_context \<Rightarrow> BallotAttestation list \<Rightarrow> bool" where
  "admissible lib c bs \<longleftrightarrow> distinct (map ba_BallotID bs) \<and> (\<forall>b \<in> set bs. ballot_ok lib c b)
     \<and> (\<forall>b \<in> set bs. \<forall>b' \<in> set bs. ba_SignerProvenance b = ba_SignerProvenance b' \<longrightarrow> ba_IndependenceDomain b = ba_IndependenceDomain b')"

definition votes :: "(BallotAttestation \<Rightarrow> bool) \<Rightarrow> BallotAttestation list \<Rightarrow> int" where
  "votes P bs = int (length (filter P bs))"

definition carried :: "ballot_context \<Rightarrow> BallotAttestation list \<Rightarrow> bool" where
  "carried c bs \<longleftrightarrow> (let policy = bc_policy c in
     (di_PolicyBlockingUnresolved (pl_Dissent policy) = ''refuse'' \<longrightarrow> (\<forall>b \<in> set bs. counting c b \<longrightarrow> ba_Vote b \<noteq> VoteReject))
     \<and> (\<forall>ps \<in> set (elems (pl_EligibleSeats policy)). dq_RequiredPresent (domain_rule policy (ps_IndependenceDomain ps)) \<and> ps_CountsTowardQuorum ps
          \<longrightarrow> (\<exists>b \<in> set bs. counting c b \<and> ba_SeatID b = ps_SeatID ps))
     \<and> pq_GlobalAcceptMinimum (pl_Quorum policy) \<le> votes (accepting c) bs
     \<and> (\<forall>(d, rule) \<in> set (elems (pq_PerDomain (pl_Quorum policy))).
          dq_AcceptMinimum rule \<le> votes (\<lambda>b. accepting c b \<and> ba_IndependenceDomain b = d) bs)
     \<and> (pl_HumanSeat policy = HumanSeatRequired \<longrightarrow> (\<exists>b \<in> set bs. by_human c b))
     \<and> (pl_HumanSeat policy = HumanSeatAbsent \<longrightarrow> \<not> (\<exists>b \<in> set bs. by_human c b)))"

definition tally_of :: "ballot_context \<Rightarrow> BallotAttestation list \<Rightarrow> tally" where
  "tally_of c bs = \<lparr>ta_seenBallot = rev (map ba_BallotID bs),
     ta_signerDomain = map_of (rev (map (\<lambda>b. (ba_SignerProvenance b, ba_IndependenceDomain b)) bs)),
     ta_accepts = votes (accepting c) bs, ta_domainAccepts = fold bump (map ba_IndependenceDomain (filter (accepting c) bs)) [],
     ta_blockingDissent = (\<exists>b \<in> set bs. counting c b \<and> ba_Vote b = VoteReject \<and> di_PolicyBlockingUnresolved (pl_Dissent (bc_policy c)) = ''refuse''),
     ta_humanPresent = (\<exists>b \<in> set bs. by_human c b), ta_requiredPresent = rev (map ba_SeatID (filter (counting c) bs))\<rparr>"

lemma votes_simps [simp]: "votes P [] = 0" "votes P (bs @ [b]) = votes P bs + (if P b then 1 else 0)"
  by (simp_all add: votes_def)

lemma count_of_bump: "count_of (bump k m) d = count_of m d + (if d = k then 1 else 0)"
  by (induction k m rule: bump.induct) (auto simp: count_of_def split: option.splits)

lemma count_of_bumps: "count_of (fold bump ds m) d = count_of m d + int (length (filter (\<lambda>x. x = d) ds))"
  by (induction ds arbitrary: m) (auto simp: count_of_bump)

lemma domain_votes: "count_of (ta_domainAccepts (tally_of c bs)) d = votes (\<lambda>b. accepting c b \<and> ba_IndependenceDomain b = d) bs"
  by (simp add: tally_of_def count_of_bumps votes_def filter_map comp_def conj_commute) (simp add: count_of_def)

lemma admit_ballot_Inr: "admit_ballot lib c t b = Inr (seat, ps) \<longleftrightarrow>
    ba_BallotID b \<notin> set (ta_seenBallot t) \<and> ballot_ok lib c b \<and> ta_signerDomain t (ba_SignerProvenance b) \<in> {None, Some (ba_IndependenceDomain b)}
    \<and> bc_seatsByID c (ba_SeatID b) = Some seat \<and> bc_policySeatByID c (ba_SeatID b) = Some ps"
  unfolding admit_ballot_def ballot_ok_def joined_def seated_def barred_author_def
  by (auto split: option.splits if_splits)

lemma tally_snoc: "tally_ballots lib c t (bs @ [b]) =
    (case tally_ballots lib c t bs of Inl e \<Rightarrow> Inl e
     | Inr t' \<Rightarrow> (case admit_ballot lib c t' b of Inl e \<Rightarrow> Inl e | Inr (seat, ps) \<Rightarrow> Inr (count_ballot c t' b seat ps)))"
  by (induction bs arbitrary: t) (auto split: sum.splits prod.splits)

definition agree :: "BallotAttestation \<Rightarrow> BallotAttestation \<Rightarrow> bool" where
  "agree b b' \<longleftrightarrow> (ba_SignerProvenance b = ba_SignerProvenance b' \<longrightarrow> ba_IndependenceDomain b = ba_IndependenceDomain b')"

lemma agree_refl: "agree b b" and agree_sym: "agree b b' \<Longrightarrow> agree b' b"
  by (simp_all add: agree_def)

lemma admissible_agree: "admissible lib c bs \<longleftrightarrow> distinct (map ba_BallotID bs) \<and> (\<forall>b \<in> set bs. ballot_ok lib c b)
    \<and> (\<forall>b \<in> set bs. \<forall>b' \<in> set bs. agree b b')"
  by (simp only: admissible_def agree_def)

lemma admissible_snoc: "admissible lib c (bs @ [b]) \<longleftrightarrow> admissible lib c bs \<and> ba_BallotID b \<notin> set (map ba_BallotID bs) \<and> ballot_ok lib c b
    \<and> (\<forall>x \<in> set bs. agree x b)"
  unfolding admissible_agree by (auto intro: agree_refl agree_sym)

lemma signers_agree:
  assumes "\<forall>b \<in> set bs. \<forall>b' \<in> set bs. agree b b'"
  shows "map_of (rev (map (\<lambda>b. (ba_SignerProvenance b, ba_IndependenceDomain b)) bs)) (ba_SignerProvenance b)
      \<in> {None, Some (ba_IndependenceDomain b)} \<longleftrightarrow> (\<forall>x \<in> set bs. agree x b)"
proof (cases "map_of (rev (map (\<lambda>b. (ba_SignerProvenance b, ba_IndependenceDomain b)) bs)) (ba_SignerProvenance b)")
  case None
  then have "ba_SignerProvenance b \<notin> ba_SignerProvenance ` set bs" by (simp add: map_of_eq_None_iff image_image)
  then have "\<forall>x \<in> set bs. ba_SignerProvenance x \<noteq> ba_SignerProvenance b" by (metis imageI)
  then show ?thesis using None by (simp add: agree_def)
next
  case (Some d')
  obtain y where y: "y \<in> set bs" "ba_SignerProvenance y = ba_SignerProvenance b" "ba_IndependenceDomain y = d'"
    using map_of_SomeD [OF Some] by auto
  have "agree x y" if "x \<in> set bs" for x using assms that y(1) by blast
  then have "d' = ba_IndependenceDomain b \<longleftrightarrow> (\<forall>x \<in> set bs. agree x b)" using y by (auto simp: agree_def)
  then show ?thesis using Some by simp
qed

lemma count_ballot_tally:
  assumes "bc_seatsByID c (ba_SeatID b) = Some seat" "bc_policySeatByID c (ba_SeatID b) = Some ps"
  shows "count_ballot c (tally_of c bs) b seat ps = tally_of c (bs @ [b])"
  using assms by (auto simp: count_ballot_def tally_of_def Let_def accepting_def counting_def by_human_def)

lemma tally_ballots_Inr: "tally_ballots lib c no_votes bs = Inr t \<longleftrightarrow> admissible lib c bs \<and> t = tally_of c bs"
proof (induction bs arbitrary: t rule: rev_induct)
  case Nil
  then show ?case by (auto simp: no_votes_def admissible_def tally_of_def)
next
  case (snoc b bs)
  have step: "admit_ballot lib c (tally_of c bs) b = Inr (seat, ps) \<longleftrightarrow> admissible lib c (bs @ [b])
      \<and> bc_seatsByID c (ba_SeatID b) = Some seat \<and> bc_policySeatByID c (ba_SeatID b) = Some ps" if "admissible lib c bs" for seat ps
  proof -
    have "\<forall>b \<in> set bs. \<forall>b' \<in> set bs. agree b b'" using that unfolding admissible_agree by simp
    from signers_agree [OF this, of b] show ?thesis
      unfolding admit_ballot_Inr admissible_snoc using that by (simp add: tally_of_def)
  qed
  show ?case
  proof (cases "tally_ballots lib c no_votes bs")
    case (Inl e)
    then have "\<not> admissible lib c bs" using snoc.IH [of "tally_of c bs"] by simp
    then show ?thesis using Inl by (simp add: tally_snoc admissible_snoc)
  next
    case (Inr u)
    then have u: "admissible lib c bs" "u = tally_of c bs" using snoc.IH by simp_all
    show ?thesis
    proof (cases "admit_ballot lib c u b")
      case (Inl e)
      then have "\<not> admissible lib c (bs @ [b])"
        using step [OF u(1)] u(2) by (auto simp: admissible_snoc ballot_ok_def seated_def)
      then show ?thesis using Inl Inr by (simp add: tally_snoc)
    next
      case r: (Inr sp)
      obtain seat ps where sp: "sp = (seat, ps)" by (cases sp)
      have "admissible lib c (bs @ [b])" "count_ballot c u b seat ps = tally_of c (bs @ [b])"
        using step [OF u(1), of seat ps] r u(2) sp count_ballot_tally by simp_all
      then show ?thesis using Inr r sp by (auto simp: tally_snoc)
    qed
  qed
qed

lemma quorum_check_None: "quorum_check policy t = None \<longleftrightarrow> \<not> ta_blockingDissent t
    \<and> (\<forall>ps \<in> set (elems (pl_EligibleSeats policy)). dq_RequiredPresent (domain_rule policy (ps_IndependenceDomain ps)) \<and> ps_CountsTowardQuorum ps
         \<longrightarrow> ps_SeatID ps \<in> set (ta_requiredPresent t))
    \<and> pq_GlobalAcceptMinimum (pl_Quorum policy) \<le> ta_accepts t
    \<and> (\<forall>(d, rule) \<in> set (elems (pq_PerDomain (pl_Quorum policy))). dq_AcceptMinimum rule \<le> count_of (ta_domainAccepts t) d)"
  unfolding quorum_check_def by (auto simp: not_less) force+

lemma human_state_Inr: "(\<exists>h. human_state policy p = Inr h) \<longleftrightarrow>
    (pl_HumanSeat policy = HumanSeatRequired \<longrightarrow> p) \<and> (pl_HumanSeat policy = HumanSeatAbsent \<longrightarrow> \<not> p)"
  by (auto simp: human_state_def)

lemma carried_iff: "carried c bs \<longleftrightarrow> quorum_check (bc_policy c) (tally_of c bs) = None
    \<and> (\<exists>h. human_state (bc_policy c) (ta_humanPresent (tally_of c bs)) = Inr h)"
proof -
  have p: "s \<in> set (ta_requiredPresent (tally_of c bs)) \<longleftrightarrow> (\<exists>b \<in> set bs. counting c b \<and> ba_SeatID b = s)" for s
    by (auto simp: tally_of_def)
  have d: "\<not> ta_blockingDissent (tally_of c bs) \<longleftrightarrow> (di_PolicyBlockingUnresolved (pl_Dissent (bc_policy c)) = ''refuse''
      \<longrightarrow> (\<forall>b \<in> set bs. counting c b \<longrightarrow> ba_Vote b \<noteq> VoteReject))"
    by (auto simp: tally_of_def)
  have h: "ta_humanPresent (tally_of c bs) \<longleftrightarrow> (\<exists>b \<in> set bs. by_human c b)" "ta_accepts (tally_of c bs) = votes (accepting c) bs"
    by (simp_all add: tally_of_def)
  show ?thesis unfolding quorum_check_None human_state_Inr domain_votes carried_def Let_def p d h by (simp only: conj_assoc)
qed

lemma reduce_iff:
  assumes "reduce_prefix lib store inp = Inr f"
  shows "(\<exists>r. Consensus_Reduce lib (Some store) inp = Inr r)
    \<longleftrightarrow> admissible lib (rf_context f) (ci_Ballots inp) \<and> carried (rf_context f) (ci_Ballots inp)"
proof (cases "tally_ballots lib (rf_context f) no_votes (ci_Ballots inp)")
  case (Inl e)
  then have "\<not> admissible lib (rf_context f) (ci_Ballots inp)"
    using tally_ballots_Inr [of lib "rf_context f" "ci_Ballots inp" "tally_of (rf_context f) (ci_Ballots inp)"] by simp
  then show ?thesis using assms Inl by (simp add: Consensus_Reduce_def)
next
  case (Inr t)
  then have "admissible lib (rf_context f) (ci_Ballots inp)" "t = tally_of (rf_context f) (ci_Ballots inp)"
    unfolding tally_ballots_Inr by simp_all
  then show ?thesis using assms Inr
    by (auto simp: Consensus_Reduce_def carried_iff Receipt_Seal_def split: option.splits sum.splits)
qed

lemma sign_verifies:
  assumes "Ballot_Sign lib b = Inr b'" "isSHA256 (ba_EligibilityProofDigest b)" "trimSpace (ba_SignerProvenance b) \<noteq> []"
    "trimSpace (ba_WindowID b) \<noteq> []" "trimSpace (ba_BallotID b) \<noteq> []" "ba_Vote b \<in> {VoteAccept, VoteReject, VoteAbstain}"
  shows "VerifyAttestation lib b' = None"
  using assms by (auto simp: Ballot_Sign_def VerifyAttestation_def Let_def)

lemma sign_keeps:
  assumes "Ballot_Sign lib b = Inr b'"
  shows "ba_BallotID b' = ba_BallotID b" "ba_SeatID b' = ba_SeatID b" "ba_Vote b' = ba_Vote b" "ba_SignerProvenance b' = ba_SignerProvenance b"
    "ba_IndependenceDomain b' = ba_IndependenceDomain b" "joined c b' = joined c b" "seated c b' = seated c b"
  using assms by (auto simp: Ballot_Sign_def joined_def seated_def Let_def)

lemma verified_fields:
  assumes "VerifyAttestation lib b = None"
  shows "isSHA256 (ba_EligibilityProofDigest b)" "trimSpace (ba_SignerProvenance b) \<noteq> []" "trimSpace (ba_WindowID b) \<noteq> []"
    "trimSpace (ba_BallotID b) \<noteq> []" "ba_Vote b \<in> {VoteAccept, VoteReject, VoteAbstain}"
  using assms by (auto simp: VerifyAttestation_def split: if_splits)

lemma resigned_ok:
  assumes "ballot_ok lib c b" "Ballot_Sign lib (b\<lparr>ba_BallotID := i, ba_Vote := v\<rparr>) = Inr b'" "trimSpace i \<noteq> []"
    "v \<in> {VoteAccept, VoteReject, VoteAbstain}"
  shows "ballot_ok lib c b'"
proof -
  have v: "VerifyAttestation lib b = None" using assms(1) by (simp add: ballot_ok_def)
  have "VerifyAttestation lib b' = None"
    by (rule sign_verifies [OF assms(2)]) (use verified_fields [OF v] assms(3,4) in simp_all)
  then show ?thesis using assms(1) sign_keeps [OF assms(2)] by (simp add: ballot_ok_def joined_def seated_def)
qed

lemma reduce_prefix_ballots:
  assumes "(\<lambda>b. (ba_SeatID b, ba_SignerProvenance b)) ` set bs = (\<lambda>b. (ba_SeatID b, ba_SignerProvenance b)) ` set (ci_Ballots inp)"
  shows "reduce_prefix lib store (inp\<lparr>ci_Ballots := bs\<rparr>) = reduce_prefix lib store inp"
proof -
  have e: "authorSigners m bs s \<longleftrightarrow> (\<exists>p \<in> (\<lambda>b. (ba_SeatID b, ba_SignerProvenance b)) ` set bs. snd p = s
      \<and> (case m (fst p) of None \<Rightarrow> False | Some ps \<Rightarrow> ps_IndependenceDomain ps = ''authoring''))" for m bs s
    by (simp add: authorSigners_def)
  have a: "authorSigners m bs = authorSigners m (ci_Ballots inp)" for m unfolding fun_eq_iff e assms by (intro allI refl)
  have i: "ci_Manifest (inp\<lparr>ci_Ballots := bs\<rparr>) = ci_Manifest inp" "ci_Subject (inp\<lparr>ci_Ballots := bs\<rparr>) = ci_Subject inp"
      "ci_Selection (inp\<lparr>ci_Ballots := bs\<rparr>) = ci_Selection inp" "ci_Ballots (inp\<lparr>ci_Ballots := bs\<rparr>) = bs"
      "selectedDigest lib (inp\<lparr>ci_Ballots := bs\<rparr>) = selectedDigest lib inp"
      "check_policy (inp\<lparr>ci_Ballots := bs\<rparr>) p = check_policy inp p" "check_window lib (inp\<lparr>ci_Ballots := bs\<rparr>) p = check_window lib inp p" for p
    by (simp_all add: selectedDigest_def check_policy_def check_window_def Let_def)
  show ?thesis unfolding reduce_prefix_def i a by (rule refl)
qed

text \<open>Sealing writes the digest that checking expects.\<close>

lemma reduce_Inr:
  assumes "Consensus_Reduce lib (Some store) inp = Inr r"
  obtains f h where "reduce_prefix lib store inp = Inr f" "admissible lib (rf_context f) (ci_Ballots inp)" "carried (rf_context f) (ci_Ballots inp)"
    "human_state (bc_policy (rf_context f)) (\<exists>b \<in> set (ci_Ballots inp). by_human (rf_context f) b) = Inr h"
    "Receipt_Seal lib (consensus_receipt lib inp f (tally_of (rf_context f) (ci_Ballots inp)) h) = Inr r"
proof -
  obtain f where f: "reduce_prefix lib store inp = Inr f" using assms by (auto simp: Consensus_Reduce_def split: sum.splits)
  have a: "admissible lib (rf_context f) (ci_Ballots inp)" "carried (rf_context f) (ci_Ballots inp)" using reduce_iff [OF f] assms by auto
  have t: "tally_ballots lib (rf_context f) no_votes (ci_Ballots inp) = Inr (tally_of (rf_context f) (ci_Ballots inp))"
    using a(1) by (simp add: tally_ballots_Inr)
  have h: "ta_humanPresent (tally_of (rf_context f) (ci_Ballots inp)) \<longleftrightarrow> (\<exists>b \<in> set (ci_Ballots inp). by_human (rf_context f) b)"
    by (simp add: tally_of_def)
  show thesis using assms f t a that unfolding carried_iff
    by (auto simp: Consensus_Reduce_def h split: option.splits sum.splits)
qed

lemma prefix_Inr:
  assumes "reduce_prefix lib store inp = Inr f"
  shows "Store_Get lib store (bc_policyDigest (rf_context f)) = Inr (bc_policy (rf_context f))"
    "check_policy inp (bc_policy (rf_context f)) = None" "validateManifest (bc_policy (rf_context f)) (ci_Manifest inp) = None"
    "bc_subjectDigest (rf_context f) = lib_sha lib (canon (EffectSubject_json (ci_Subject inp)))"
    "bc_policyDigest (rf_context f) = sr_PolicyDigest (ci_Selection inp)"
  using assms unfolding reduce_prefix_def check_selection_def
  by (auto simp: Let_def split: sum.splits option.splits prod.splits if_splits)

lemma trimmed_edges:
  assumes "s \<noteq> []" "of_char (hd s) \<in> {33..<127 :: nat}" "of_char (last s) \<in> {33..<127 :: nat}"
  shows "trimmed s"
proof -
  have q: "hd q \<notin> {33..<127}" "last q \<notin> {33..<127}" "q \<noteq> []" if "q \<in> set space_seqs" for q using that by (auto simp: space_seqs_def)
  have "hd (byte_codes s) = of_char (hd s)" "hd (byte_codes (rev s)) = of_char (last s)"
    using assms(1) by (simp_all add: byte_codes_def hd_map hd_rev)
  then have "\<not> (\<exists>t. byte_codes s = q @ t)" "\<not> (\<exists>t. byte_codes (rev s) = rev q @ t)" if "q \<in> set space_seqs" for q
    using q [OF that] assms(2,3) by (auto simp: hd_append hd_rev)
  then show ?thesis by (auto simp: trimmed_def strip_space_None take_eq_prefix)
qed

lemma authority_roundtrip:
  assumes "isSHA256 (qc_ReceiptDigest r)"
  shows "ReceiptDigestFromAuthority (Consensus_AuthorityRef r) = Some (qc_ReceiptDigest r)"
proof -
  let ?d = "qc_ReceiptDigest r"
  have n: "?d \<noteq> []" using assms by (auto simp: isSHA256_def)
  have x: "of_char c \<in> {33..<127 :: nat}" if "isLowerHex c" for c
    using that by (auto simp: isLowerHex_def less_eq_char_def)
  have "isLowerHex (hd ?d)" "isLowerHex (last ?d)" using assms n by (auto simp: isSHA256_def list_all_iff)
  then have "trimmed ?d" by (intro trimmed_edges n x)
  moreover have "trimmed (AuthorityPrefix @ ?d)"
    by (rule trimmed_edges) (use x [OF \<open>isLowerHex (last ?d)\<close>] n in simp_all)
  ultimately show ?thesis
    using n assms trimPrefix_append [of AuthorityPrefix ?d] by (simp add: ReceiptDigestFromAuthority_def Consensus_AuthorityRef_def trimSpace_trimmed Let_def)
qed

subsection \<open>Properties\<close>

text \<open>C20: the reducer implements the specification. Once the checks on the policy, the manifest, the selection and the
  window have passed, it issues a receipt exactly if the ballots are admissible together and carry the policy.\<close>

theorem consensus_exactly_when_carried:
  assumes "reduce_prefix lib store inp = Inr f"
  shows "(\<exists>r. Consensus_Reduce lib (Some store) inp = Inr r)
    \<longleftrightarrow> admissible lib (rf_context f) (ci_Ballots inp) \<and> carried (rf_context f) (ci_Ballots inp)"
  by (rule reduce_iff [OF assms])

text \<open>C21: a receipt is bound to what it authorises. The policy it names is stored, selected and not revoked, the subject is the
  given one, is no owner recovery and is not irreversible under a reversible policy, every ballot is attested and cast for
  this selection, and no signer votes in two independence domains or, being an author, in a domain authors are recused from.\<close>

theorem consensus_receipt_sound:
  assumes "Consensus_Reduce lib (Some store) inp = Inr r"
  shows "\<exists>policy. Store_Get lib store (qc_PolicyDigest r) = Inr policy \<and> \<not> sto_revoked store (qc_PolicyDigest r)
    \<and> qc_PolicyDigest r = sr_PolicyDigest (ci_Selection inp) \<and> EffectSubject_Digest lib (ci_Subject inp) = Inr (qc_SubjectDigest r)
    \<and> \<not> es_OwnerRecovery (ci_Subject inp) \<and> (pl_EffectClass policy = EffectClassReversible \<longrightarrow> \<not> Irreversible (ci_Subject inp))
    \<and> (\<forall>b \<in> set (ci_Ballots inp). VerifyAttestation lib b = None \<and> ba_SubjectDigest b = qc_SubjectDigest r
         \<and> ba_PolicyDigest b = qc_PolicyDigest r \<and> ba_PolicySelectionDigest b = qc_SelectionDigest r)
    \<and> (\<forall>b \<in> set (ci_Ballots inp). \<forall>b' \<in> set (ci_Ballots inp).
         ba_SignerProvenance b = ba_SignerProvenance b' \<longrightarrow> ba_IndependenceDomain b = ba_IndependenceDomain b')
    \<and> pq_GlobalAcceptMinimum (pl_Quorum policy) \<le> qe_GlobalAccepts (qc_QuorumEvaluation r)"
proof -
  obtain f h where f: "reduce_prefix lib store inp = Inr f" "admissible lib (rf_context f) (ci_Ballots inp)" "carried (rf_context f) (ci_Ballots inp)"
    and s: "Receipt_Seal lib (consensus_receipt lib inp f (tally_of (rf_context f) (ci_Ballots inp)) h) = Inr r"
    using reduce_Inr [OF assms] by blast
  note p = prefix_Inr [OF f(1)]
  have r: "qc_PolicyDigest r = bc_policyDigest (rf_context f)" "qc_SubjectDigest r = bc_subjectDigest (rf_context f)"
      "qc_SelectionDigest r = bc_selectionDigest (rf_context f)" "qe_GlobalAccepts (qc_QuorumEvaluation r) = votes (accepting (rf_context f)) (ci_Ballots inp)"
    using s by (auto simp: Receipt_Seal_def consensus_receipt_def tally_of_def)
  have n: "\<not> sto_revoked store (qc_PolicyDigest r)" using p(1) unfolding r by (auto simp: Store_Get_def split: option.splits if_splits)
  have b: "\<forall>b \<in> set (ci_Ballots inp). VerifyAttestation lib b = None \<and> ba_SubjectDigest b = qc_SubjectDigest r
         \<and> ba_PolicyDigest b = qc_PolicyDigest r \<and> ba_PolicySelectionDigest b = qc_SelectionDigest r"
    using f(2) unfolding r by (simp add: admissible_def ballot_ok_def joined_def)
  have q: "\<not> es_OwnerRecovery (ci_Subject inp)"
      "pl_EffectClass (bc_policy (rf_context f)) = EffectClassReversible \<longrightarrow> \<not> Irreversible (ci_Subject inp)"
    using p(2) by (auto simp: check_policy_def split: if_splits)
  have g: "pq_GlobalAcceptMinimum (pl_Quorum (bc_policy (rf_context f))) \<le> qe_GlobalAccepts (qc_QuorumEvaluation r)"
    using f(3) unfolding r by (simp add: carried_def Let_def)
  have d: "EffectSubject_Digest lib (ci_Subject inp) = Inr (qc_SubjectDigest r)" unfolding r p(4) by simp
  show ?thesis
    by (intro exI [of _ "bc_policy (rf_context f)"] conjI p(1) [folded r(1)] n p(5) [folded r(1)] d q b g
        f(2) [unfolded admissible_def, THEN conjunct2, THEN conjunct2])
qed

lemma issued_verifies:
  assumes "Consensus_Reduce lib (Some store) inp = Inr r"
  shows "Consensus_Verify lib (Some store) inp r = None" "\<exists>t. qc_ReceiptDigest r = lib_sha lib t"
    "\<exists>dg policy. Store_Get lib store dg = Inr policy \<and> qc_PolicyID r = pl_PolicyID policy \<and> qc_PolicyDigest r = dg"
proof -
  obtain f h where f: "reduce_prefix lib store inp = Inr f"
    and s: "Receipt_Seal lib (consensus_receipt lib inp f (tally_of (rf_context f) (ci_Ballots inp)) h) = Inr r"
    using reduce_Inr [OF assms] by blast
  have r: "r = consensus_receipt lib inp f (tally_of (rf_context f) (ci_Ballots inp)) h\<lparr>qc_ReceiptDigest :=
      lib_sha lib (canon (Receipt_json (consensus_receipt lib inp f (tally_of (rf_context f) (ci_Ballots inp)) h)))\<rparr>"
    using s by (auto simp: Receipt_Seal_def consensus_receipt_def)
  have v: "VerifyDigest lib r = None" unfolding r by (simp add: VerifyDigest_def consensus_receipt_def)
  have "qc_SubjectDigest r = lib_sha lib (canon (EffectSubject_json (ci_Subject inp)))"
    using prefix_Inr(4) [OF f] unfolding r by (simp add: consensus_receipt_def)
  then show "Consensus_Verify lib (Some store) inp r = None" using assms v by (simp add: Consensus_Verify_def)
  show "\<exists>t. qc_ReceiptDigest r = lib_sha lib t" unfolding r by auto
  show "\<exists>dg policy. Store_Get lib store dg = Inr policy \<and> qc_PolicyID r = pl_PolicyID policy \<and> qc_PolicyDigest r = dg"
    using prefix_Inr(1) [OF f] unfolding r by (auto simp: consensus_receipt_def)
qed

text \<open>What the reducer issues verifies, and its authority reference names it: \<^verbatim>\<open>Verify\<close> accepts the receipt on the same
  input, and reading the reference gives the receipt's digest back.\<close>

theorem issued_consensus_verifies:
  assumes "Consensus_Reduce lib (Some store) inp = Inr r" "hashes (lib_sha lib)"
  shows "Consensus_Verify lib (Some store) inp r = None \<and> ReceiptDigestFromAuthority (Consensus_AuthorityRef r) = Some (qc_ReceiptDigest r)"
proof -
  have "isSHA256 (qc_ReceiptDigest r)" using issued_verifies(2) [OF assms(1)] assms(2) by (auto simp: hashes_def)
  then show ?thesis using issued_verifies(1) [OF assms(1)] authority_roundtrip by simp
qed

lemma carried_pair:
  assumes c: "carried c [b1, b2]" and v: "accepting c b1" "ba_Vote b2 = VoteAccept" and d: "ba_IndependenceDomain b2 = ba_IndependenceDomain b1"
    and s: "ba_SeatID x = ba_SeatID b1" "ba_Vote x = VoteAccept" "ba_IndependenceDomain x = ba_IndependenceDomain b1"
    and t: "ba_SeatID y = ba_SeatID b2" "ba_Vote y = VoteAbstain" "ba_IndependenceDomain y = ba_IndependenceDomain b2"
  shows "carried c [b1, x, y]"
proof -
  have k: "counting c x = counting c b1" "counting c y = counting c b2" "by_human c x = by_human c b1" "by_human c y = by_human c b2"
    using s t by (simp_all add: counting_def by_human_def)
  have "counting c b1" "ba_Vote b1 = VoteAccept" using v by (simp_all add: accepting_def)
  then have a: "accepting c x" "\<not> accepting c y" using k s(2) t(2) by (simp_all add: accepting_def)
  have "votes (\<lambda>b. accepting c b \<and> ba_IndependenceDomain b = e) [b1, b2] \<le> votes (\<lambda>b. accepting c b \<and> ba_IndependenceDomain b = e) [b1, x, y]" for e
    using a v d s(3) by (simp add: votes_def)
  then have q: "\<forall>(e, rule) \<in> S. dq_AcceptMinimum rule \<le> votes (\<lambda>b. accepting c b \<and> ba_IndependenceDomain b = e) [b1, x, y]"
    if "\<forall>(e, rule) \<in> S. dq_AcceptMinimum rule \<le> votes (\<lambda>b. accepting c b \<and> ba_IndependenceDomain b = e) [b1, b2]" for S
    using that order_trans by fastforce
  have g: "votes (accepting c) [b1, b2] \<le> votes (accepting c) [b1, x, y]" using a v by (simp add: votes_def)
  have e: "(\<exists>b \<in> set [b1, x, y]. counting c b \<and> ba_SeatID b = z) \<longleftrightarrow> (\<exists>b \<in> set [b1, b2]. counting c b \<and> ba_SeatID b = z)"
      "(\<exists>b \<in> set [b1, x, y]. by_human c b) \<longleftrightarrow> (\<exists>b \<in> set [b1, b2]. by_human c b)" for z
    using k s(1) t(1) by auto
  have n: "\<forall>b \<in> set [b1, x, y]. counting c b \<longrightarrow> ba_Vote b \<noteq> VoteReject" using v(1) s(2) t(2) by (simp add: accepting_def)
  note C = c [unfolded carried_def Let_def]
  show ?thesis unfolding carried_def Let_def e
    by (intro conjI impI n C [THEN conjunct2, THEN conjunct1] order_trans [OF C [THEN conjunct2, THEN conjunct2, THEN conjunct1] g]
        q [OF C [THEN conjunct2, THEN conjunct2, THEN conjunct2, THEN conjunct1]]
        C [THEN conjunct2, THEN conjunct2, THEN conjunct2, THEN conjunct2, THEN conjunct1, THEN mp]
        C [THEN conjunct2, THEN conjunct2, THEN conjunct2, THEN conjunct2, THEN conjunct2, THEN mp])
qed

text \<open>C22: ballots are told apart by their identifier, not by their seat. Wherever two seats of one domain carry a policy, the
  first seat alone does: a second accepting ballot of that seat, signed under a fresh identifier, makes up for the
  abstention of the other, although the shipped policies count abstentions against the quorum.\<close>

theorem one_seat_makes_the_quorum:
  assumes "Consensus_Reduce lib (Some store) (inp\<lparr>ci_Ballots := [b1, b2]\<rparr>) = Inr r"
    "ba_Vote b1 = VoteAccept" "ba_Vote b2 = VoteAccept" "ba_IndependenceDomain b2 = ba_IndependenceDomain b1"
    "\<exists>ps. by_id ps_SeatID (elems (pl_EligibleSeats policy)) (ba_SeatID b1) = Some ps \<and> ps_CountsTowardQuorum ps"
    "Store_Get lib store (qc_PolicyDigest r) = Inr policy"
    "trimSpace i \<noteq> []" "i \<notin> {ba_BallotID b1, ba_BallotID b2}"
    "Ballot_Sign lib (b1\<lparr>ba_BallotID := i\<rparr>) = Inr again" "Ballot_Sign lib (b2\<lparr>ba_Vote := VoteAbstain\<rparr>) = Inr abstention"
  shows "\<exists>r'. Consensus_Reduce lib (Some store) (inp\<lparr>ci_Ballots := [b1, again, abstention]\<rparr>) = Inr r'"
proof -
  obtain f h where f: "reduce_prefix lib store (inp\<lparr>ci_Ballots := [b1, b2]\<rparr>) = Inr f" "admissible lib (rf_context f) [b1, b2]"
      "carried (rf_context f) [b1, b2]"
    and s: "Receipt_Seal lib (consensus_receipt lib (inp\<lparr>ci_Ballots := [b1, b2]\<rparr>) f (tally_of (rf_context f) [b1, b2]) h) = Inr r"
    by (rule reduce_Inr [OF assms(1)], rule that) simp_all
  have pd: "qc_PolicyDigest r = bc_policyDigest (rf_context f)" using s by (auto simp: Receipt_Seal_def consensus_receipt_def)
  have p: "bc_policy (rf_context f) = policy" using prefix_Inr(1) [OF f(1)] assms(6) unfolding pd by simp
  have m: "bc_policySeatByID (rf_context f) = by_id ps_SeatID (elems (pl_EligibleSeats policy))"
    using f(1) p by (auto simp: reduce_prefix_def Let_def split: sum.splits option.splits prod.splits)
  note k = sign_keeps [OF assms(9)] sign_keeps [OF assms(10)]
  have ok: "ballot_ok lib (rf_context f) b1" "ballot_ok lib (rf_context f) b2" using f(2) by (simp_all add: admissible_def)
  have e: "b1\<lparr>ba_BallotID := i\<rparr> = b1\<lparr>ba_BallotID := i, ba_Vote := VoteAccept\<rparr>"
      "b2\<lparr>ba_Vote := VoteAbstain\<rparr> = b2\<lparr>ba_BallotID := ba_BallotID b2, ba_Vote := VoteAbstain\<rparr>"
    using assms(2) by simp_all
  have s1: "Ballot_Sign lib (b1\<lparr>ba_BallotID := i, ba_Vote := VoteAccept\<rparr>) = Inr again" unfolding e(1) [symmetric] by (rule assms(9))
  have s2: "Ballot_Sign lib (b2\<lparr>ba_BallotID := ba_BallotID b2, ba_Vote := VoteAbstain\<rparr>) = Inr abstention"
    unfolding e(2) [symmetric] by (rule assms(10))
  have ok1: "ballot_ok lib (rf_context f) again" by (rule resigned_ok [OF ok(1) s1 assms(7)]) simp
  have ok2: "ballot_ok lib (rf_context f) abstention"
    by (rule resigned_ok [OF ok(2) s2]) (use ok(2) verified_fields(4) in \<open>auto simp: ballot_ok_def\<close>)
  have "agree b1 b2" using f(2) by (simp add: admissible_agree)
  then have "\<forall>b \<in> {b1, again, abstention}. \<forall>b' \<in> {b1, again, abstention}. agree b b'" using k assms(4) by (simp add: agree_def)
  then have a: "admissible lib (rf_context f) [b1, again, abstention]"
    using f(2) ok ok1 ok2 assms(8) k(1,8) by (auto simp: admissible_agree)
  have "accepting (rf_context f) b1" using assms(2,5) by (auto simp: accepting_def counting_def m)
  then have c: "carried (rf_context f) [b1, again, abstention]"
    by (rule carried_pair [OF f(3)]) (use assms(2-4) k in simp_all)
  have "reduce_prefix lib store ((inp\<lparr>ci_Ballots := [b1, b2]\<rparr>)\<lparr>ci_Ballots := [b1, again, abstention]\<rparr>) = Inr f"
    using reduce_prefix_ballots [of "[b1, again, abstention]" "inp\<lparr>ci_Ballots := [b1, b2]\<rparr>" lib store] f(1) k by (simp add: insert_commute)
  then show ?thesis using reduce_iff a c by simp
qed

text \<open>Revoking a stored policy under the digest that storing it returned leaves it in force under its other digest: the store
  holds the file under the digest of its bytes and under the digest of its canonical form, and revokes one name at a time.\<close>

theorem revocation_misses_the_alias:
  assumes "Store_Put lib s raw = (Inr dg, s')" "ParsePolicy lib (trimSpace raw) = Inr policy" "Policy_Digest lib policy = Inr alias"
    "alias \<noteq> dg" "\<not> sto_revoked s alias"
  shows "Store_Get lib (Store_Revoke s' dg) dg = Inl ErrRevokedPolicy \<and> Store_Get lib (Store_Revoke s' dg) alias = Inr policy"
  using assms by (auto simp: Store_Put_def Store_Get_def Store_Revoke_def Let_def)

subsection \<open>Witnesses\<close>

text \<open>A policy with two verification seats, both required and both needed for the quorum.\<close>

definition wit_seat :: "string \<Rightarrow> PolicySeat" where
  "wit_seat i = \<lparr>ps_CountsTowardQuorum = True, ps_Eligibility = ''e'', ps_IndependenceDomain = ''v'', ps_Kind = ''k'', ps_Profile = ''p'',
     ps_RecusedFrom = Some [], ps_SeatID = i\<rparr>"

definition wit_policy :: Policy where
  "wit_policy = \<lparr>pl_PolicyID = ''p'', pl_Actuator = ''a'', pl_AdmissibleEvidence = None, pl_BlastRadius = None, pl_BlastRadiusOut = None,
     pl_Budget = \<lparr>pb_Currency = 0, pb_ExternalSends = 0, pb_PromotionsOfThisSubject = 1, pb_SendsOfThisSubject = 0\<rparr>,
     pl_Capabilities = None, pl_ConsequenceReceipt = None,
     pl_DispatchContract = \<lparr>dc_CrashWindow = [], dc_DispatchIdempotencyKey = [], dc_DispatchIntentReceipt = [], dc_ProviderOutcome = [],
       dc_RevocationCheckPoint = [], dc_UncertainOutcomeReconciliation = []\<rparr>,
     pl_Dissent = \<lparr>di_PolicyBlockingUnresolved = ''refuse'', di_RecordedDissentAllowed = True\<rparr>, pl_EffectClass = ''c'',
     pl_EligibleSeats = Some [wit_seat ''x'', wit_seat ''y''], pl_Expiry = [], pl_ForbiddenCapabilities = None, pl_HumanSeat = HumanSeatAbsent,
     pl_InadmissibleEvidence = None, pl_IndependenceDomains = None, pl_OwnerRevocation = True, pl_Privacy = [],
     pl_Quorum = \<lparr>pq_AbstentionCountsAgainstQuorum = True, pq_GlobalAcceptMinimum = 2,
       pq_PerDomain = Some [(''v'', \<lparr>dq_AcceptMinimum = 2, dq_RequiredPresent = True\<rparr>)], pq_Weighting = []\<rparr>,
     pl_Recovery = [], pl_Recusal = [], pl_Replacement = \<lparr>pr_Bench = None, pr_EmptyBenchOnRequiredSeatLoss = []\<rparr>, pl_Scope = [],
     pl_SubjectBinding = None, pl_Timeout = \<lparr>pt_Clock = [], pt_DecisionWindow = ''PT30M''\<rparr>\<rparr>"

definition wit_plib :: policy_lib where
  "wit_plib = \<lparr>lib_sha = wit_sha256, lib_parse_policy = (\<lambda>_. Some wit_policy), lib_parse_time = (\<lambda>_. Some (7, True)),
     lib_format_time = (\<lambda>_. ''t''), lib_scan_minutes = (\<lambda>_. None)\<rparr>"

abbreviation wit_dg :: string where "wit_dg \<equiv> replicate 64 (CHR ''a'')"

definition wit_pstore :: Store where
  "wit_pstore = \<lparr>sto_policies = [wit_dg \<mapsto> ''raw''], sto_revoked = (\<lambda>_. False)\<rparr>"

definition wit_ballot :: "string \<Rightarrow> string \<Rightarrow> string \<Rightarrow> BallotAttestation" where
  "wit_ballot i seat v = \<lparr>ba_BallotID = i, ba_SeatID = seat, ba_EligibilityProofDigest = wit_dg, ba_IndependenceDomain = ''v'', ba_PolicyDigest = wit_dg,
     ba_SeatManifestDigest = wit_dg, ba_SubjectDigest = wit_dg, ba_PolicySelectionDigest = wit_dg, ba_Vote = v, ba_WindowID = wit_dg,
     ba_SignerProvenance = seat, ba_Attestation = wit_dg, ba_BallotDigest = wit_dg\<rparr>"

definition wit_consensus :: "BallotAttestation list \<Rightarrow> ConsensusInput" where
  "wit_consensus bs = \<lparr>ci_Policy = wit_policy,
     ci_Manifest = Some (map (\<lambda>i. \<lparr>st_SeatID = i, st_IndependenceDomain = ''v'', st_Kind = ''k'', st_EligibilityProof = ''e'', st_Recused = False\<rparr>) [''x'', ''y'']),
     ci_Subject = \<lparr>es_ComputerID = ''c'', es_OperationID = ''o'', es_BundleDigest = [], es_DesiredEventHead = [], es_EffectiveEventHead = [],
       es_PendingTransitionRef = [], es_DesiredStateCommitment = [], es_EffectiveStateCommitment = [], es_Recipient = [], es_PayloadDigest = [],
       es_Actuator = [], es_AcceptanceInbox = [], es_OwnerRecovery = False, es_EffectClass = [], es_ExternalSends = 0\<rparr>,
     ci_Selection = \<lparr>sr_ReceiptKind = ReceiptKindPolicySelection, sr_PolicyDigest = wit_dg, sr_SeatManifestDigest = wit_dg, sr_SubjectDigest = wit_dg,
       sr_SelectedAtHead = wit_dg, sr_SelectedSequence = 1, sr_SelectionDigest = []\<rparr>,
     ci_Ballots = bs, ci_Now = ''n''\<rparr>"

lemma wit_policy_trims: "trimSpace ''p'' = ''p''" "trimSpace ''c'' = ''c''" "trimSpace ''e'' = ''e''" "trimSpace ''x'' = ''x''" "trimSpace ''y'' = ''y''"
    "trimSpace ''z'' = ''z''" "trimSpace ''n'' = ''n''" "trimSpace ''raw'' = ''raw''" "trimSpace ''PT30M'' = ''PT30M''" "trimSpace wit_dg = wit_dg"
  by code_simp+

lemma wit_isSHA256: "isSHA256 wit_dg"
  using wit_hashes by (simp add: hashes_def wit_sha256_def)

lemma wit_prefix: "\<exists>f. reduce_prefix wit_plib wit_pstore (wit_consensus bs) = Inr f \<and> bc_policy (rf_context f) = wit_policy
    \<and> bc_policyDigest (rf_context f) = wit_dg \<and> bc_manifestDigest (rf_context f) = wit_dg \<and> bc_subjectDigest (rf_context f) = wit_dg
    \<and> bc_selectionDigest (rf_context f) = wit_dg
    \<and> bc_seatsByID (rf_context f) = by_id st_SeatID (elems (ci_Manifest (wit_consensus bs)))
    \<and> bc_policySeatByID (rf_context f) = by_id ps_SeatID [wit_seat ''x'', wit_seat ''y'']"
proof -
  have p: "ParsePolicy wit_plib ''raw'' = Inr wit_policy" by (simp add: ParsePolicy_def wit_plib_def wit_policy_def wit_policy_trims)
  have g: "Store_Get wit_plib wit_pstore wit_dg = Inr wit_policy" by (simp add: Store_Get_def wit_pstore_def p)
  have c: "check_policy (wit_consensus bs) wit_policy = None"
    by (simp add: check_policy_def wit_consensus_def wit_policy_def refuseBounds_def containsString_def elems_def)
  have v: "validateManifest wit_policy (ci_Manifest (wit_consensus bs)) = None"
    by (simp add: validateManifest_def wit_consensus_def wit_policy_def elems_def by_id_def wit_seat_def wit_policy_trims)
  have w: "check_window wit_plib (wit_consensus bs) wit_policy = Inr (0, minutes_ns 30)"
    by (simp add: check_window_def wit_plib_def wit_policy_def wit_policy_trims parseDecisionWindow_def)
  have d: "selectedDigest wit_plib (wit_consensus bs) = Inr wit_dg" by (simp add: selectedDigest_def wit_consensus_def wit_policy_trims Let_def)
  have s: "check_selection wit_plib (ci_Selection (wit_consensus bs)) wit_dg wit_dg wit_dg = Inr wit_dg"
    by (simp add: check_selection_def wit_consensus_def wit_isSHA256 wit_plib_def wit_sha256_def)
  have h: "lib_sha wit_plib t = wit_dg" for t by (simp add: wit_plib_def wit_sha256_def)
  show ?thesis
    unfolding reduce_prefix_def d sum.case g c option.case digests h v s w prod.case Let_def
    by (simp add: wit_policy_def elems_def)
qed

lemma wit_ballot_ok:
  assumes "i \<in> {''x'', ''y'', ''z''}" "seat \<in> {''x'', ''y''}" "v \<in> {VoteAccept, VoteAbstain}"
  shows "VerifyAttestation wit_plib (wit_ballot i seat v) = None"
  using assms by (auto simp: VerifyAttestation_def wit_ballot_def wit_plib_def wit_sha256_def wit_isSHA256 wit_policy_trims)

lemma wit_reduce:
  shows "\<exists>r. Consensus_Reduce wit_plib (Some wit_pstore) (wit_consensus [wit_ballot ''x'' ''x'' VoteAccept, wit_ballot ''y'' ''y'' VoteAccept]) = Inr r
    \<and> qc_PolicyDigest r = wit_dg"
proof -
  let ?bs = "[wit_ballot ''x'' ''x'' VoteAccept, wit_ballot ''y'' ''y'' VoteAccept]"
  obtain f where f: "reduce_prefix wit_plib wit_pstore (wit_consensus ?bs) = Inr f" and c: "bc_policy (rf_context f) = wit_policy"
      "bc_policyDigest (rf_context f) = wit_dg" "bc_manifestDigest (rf_context f) = wit_dg" "bc_subjectDigest (rf_context f) = wit_dg"
      "bc_selectionDigest (rf_context f) = wit_dg" "bc_seatsByID (rf_context f) = by_id st_SeatID (elems (ci_Manifest (wit_consensus ?bs)))"
      "bc_policySeatByID (rf_context f) = by_id ps_SeatID [wit_seat ''x'', wit_seat ''y'']"
    using wit_prefix [of ?bs] by blast
  have ok: "VerifyAttestation wit_plib (wit_ballot ''x'' ''x'' VoteAccept) = None" "VerifyAttestation wit_plib (wit_ballot ''y'' ''y'' VoteAccept) = None"
    by (rule wit_ballot_ok; simp)+
  have "ballot_ok wit_plib (rf_context f) (wit_ballot ''x'' ''x'' VoteAccept)" "ballot_ok wit_plib (rf_context f) (wit_ballot ''y'' ''y'' VoteAccept)"
    unfolding ballot_ok_def using ok
    by (simp_all add: joined_def seated_def barred_author_def c wit_ballot_def by_id_def wit_consensus_def elems_def wit_seat_def containsString_def)
  then have a: "admissible wit_plib (rf_context f) ?bs" by (simp add: admissible_def wit_ballot_def)
  have "accepting (rf_context f) b" "\<not> by_human (rf_context f) b" if "b \<in> set ?bs" for b
    using that by (auto simp: accepting_def counting_def by_human_def c wit_ballot_def by_id_def wit_consensus_def elems_def wit_seat_def)
  then have "carried (rf_context f) ?bs"
    unfolding carried_def Let_def c
    by (simp add: wit_policy_def votes_def elems_def domain_rule_def wit_seat_def accepting_def) (simp add: wit_ballot_def)
  then obtain r where r: "Consensus_Reduce wit_plib (Some wit_pstore) (wit_consensus ?bs) = Inr r"
    using reduce_iff [OF f] a by (auto simp: wit_consensus_def)
  have "qc_PolicyDigest r = wit_dg"
    by (rule reduce_Inr [OF r]) (use f c in \<open>auto simp: Receipt_Seal_def consensus_receipt_def\<close>)
  then show ?thesis using r by blast
qed

theorem consensus_exactly_when_carried_witness:
  "\<exists>f. let bs = [wit_ballot ''x'' ''x'' VoteAccept, wit_ballot ''y'' ''y'' VoteAccept] in
     reduce_prefix wit_plib wit_pstore (wit_consensus bs) = Inr f \<and> admissible wit_plib (rf_context f) bs \<and> carried (rf_context f) bs"
proof -
  let ?bs = "[wit_ballot ''x'' ''x'' VoteAccept, wit_ballot ''y'' ''y'' VoteAccept]"
  obtain f where f: "reduce_prefix wit_plib wit_pstore (wit_consensus ?bs) = Inr f" using wit_prefix [of ?bs] by blast
  have b: "ci_Ballots (wit_consensus ?bs) = ?bs" by (simp add: wit_consensus_def)
  have "admissible wit_plib (rf_context f) ?bs \<and> carried (rf_context f) ?bs"
    using consensus_exactly_when_carried [OF f] wit_reduce unfolding b by blast
  then show ?thesis using f by (intro exI [of _ f]) (simp add: Let_def)
qed

theorem consensus_receipt_sound_witness:
  "\<exists>r policy. Consensus_Reduce wit_plib (Some wit_pstore) (wit_consensus [wit_ballot ''x'' ''x'' VoteAccept, wit_ballot ''y'' ''y'' VoteAccept]) = Inr r
     \<and> Store_Get wit_plib wit_pstore (qc_PolicyDigest r) = Inr policy"
  using wit_reduce consensus_receipt_sound by blast

theorem issued_consensus_verifies_witness:
  "\<exists>r. Consensus_Verify wit_plib (Some wit_pstore) (wit_consensus [wit_ballot ''x'' ''x'' VoteAccept, wit_ballot ''y'' ''y'' VoteAccept]) r = None"
proof -
  have "hashes (lib_sha wit_plib)" using wit_hashes by (simp add: wit_plib_def)
  then show ?thesis using wit_reduce issued_consensus_verifies by blast
qed

theorem one_seat_makes_the_quorum_witness:
  "\<exists>r. Consensus_Reduce wit_plib (Some wit_pstore)
     (wit_consensus [wit_ballot ''x'' ''x'' VoteAccept, wit_ballot ''z'' ''x'' VoteAccept, wit_ballot ''y'' ''y'' VoteAbstain]) = Inr r"
proof -
  let ?x = "wit_ballot ''x'' ''x'' VoteAccept" and ?y = "wit_ballot ''y'' ''y'' VoteAccept"
  have u: "(wit_consensus [])\<lparr>ci_Ballots := bs\<rparr> = wit_consensus bs" for bs by (simp add: wit_consensus_def)
  obtain r where r: "Consensus_Reduce wit_plib (Some wit_pstore) (wit_consensus [?x, ?y]) = Inr r" "qc_PolicyDigest r = wit_dg"
    using wit_reduce by blast
  have r1: "Consensus_Reduce wit_plib (Some wit_pstore) ((wit_consensus [])\<lparr>ci_Ballots := [?x, ?y]\<rparr>) = Inr r" unfolding u by (rule r(1))
  have s: "Ballot_Sign wit_plib (?x\<lparr>ba_BallotID := ''z''\<rparr>) = Inr (wit_ballot ''z'' ''x'' VoteAccept)"
    "Ballot_Sign wit_plib (?y\<lparr>ba_Vote := VoteAbstain\<rparr>) = Inr (wit_ballot ''y'' ''y'' VoteAbstain)"
    by (simp_all add: Ballot_Sign_def wit_plib_def wit_sha256_def wit_ballot_def)
  have g: "Store_Get wit_plib wit_pstore (qc_PolicyDigest r) = Inr wit_policy"
    unfolding r(2) by (simp add: Store_Get_def wit_pstore_def ParsePolicy_def wit_plib_def wit_policy_def wit_policy_trims)
  have q: "\<exists>ps. by_id ps_SeatID (elems (pl_EligibleSeats wit_policy)) (ba_SeatID ?x) = Some ps \<and> ps_CountsTowardQuorum ps"
    by (simp add: by_id_def elems_def wit_policy_def wit_seat_def wit_ballot_def)
  have "\<exists>r'. Consensus_Reduce wit_plib (Some wit_pstore)
      ((wit_consensus [])\<lparr>ci_Ballots := [?x, wit_ballot ''z'' ''x'' VoteAccept, wit_ballot ''y'' ''y'' VoteAbstain]\<rparr>) = Inr r'"
    by (rule one_seat_makes_the_quorum [OF r1 _ _ _ q g _ _ s]) (simp_all add: wit_ballot_def wit_policy_trims)
  then show ?thesis unfolding u .
qed

theorem revocation_misses_the_alias_witness:
  "\<exists>lib s' policy alias. Store_Put lib NewStore ''raw'' = (Inr ''file'', s') \<and> Store_Get lib (Store_Revoke s' ''file'') alias = Inr policy"
proof -
  let ?lib = "wit_plib\<lparr>lib_sha := (\<lambda>b. if b = ''raw'' then ''file'' else ''struct'')\<rparr>"
  have p: "ParsePolicy ?lib (trimSpace ''raw'') = Inr wit_policy" by (simp add: ParsePolicy_def wit_plib_def wit_policy_def wit_policy_trims)
  have n: "canon (Policy_json wit_policy) \<noteq> ''raw''" by (simp add: canon_def Policy_json_def members_json_def)
  then have d: "Policy_Digest ?lib wit_policy = Inr ''struct''" by simp
  obtain s' where s: "Store_Put ?lib NewStore ''raw'' = (Inr ''file'', s')"
    using p by (simp add: Store_Put_def Let_def wit_policy_trims)
  have "Store_Get ?lib (Store_Revoke s' ''file'') ''struct'' = Inr wit_policy"
    using revocation_misses_the_alias [OF s p d] by (simp add: NewStore_def)
  then show ?thesis using s by blast
qed

end
