(* ===== verification/Trusted_Outbox.thy ===== *)
theory Trusted_Outbox
  imports Decision_Policy
begin

text \<open>
  The trusted outbox (\<^verbatim>\<open>src/internal/trustedoutbox/outbox.go\<close>): sending an irreversible effect once a consensus receipt
  authorises it. \<^verbatim>\<open>Dispatch\<close> holds the mutex twice, to record the intent and to record the consequence, and calls the
  provider in between; the checks, the two critical sections, the arming check and the call are separate steps, so that calls
  can interleave and the fields that no mutex guards can change in between. The provider is a parameter: any answer of it is possible. The clock is a parameter, an error of Go is a string.
\<close>

subsection \<open>Values\<close>

datatype outbox_error = PolicyRefused policy_error | ErrModeOff | ErrNotArmed | ErrMissingIntent | ErrUnknownOutcome | ErrRejected
  | ErrRevokedBeforeDispatch | ErrPayloadMismatch | ErrNotIrreversible | ErrPartialSuccess

abbreviation ProviderAccepted :: string where "ProviderAccepted \<equiv> ''accepted''"
abbreviation ProviderRejected :: string where "ProviderRejected \<equiv> ''rejected''"
abbreviation ProviderUnknown :: string where "ProviderUnknown \<equiv> ''unknown''"
abbreviation ReceiptIntent :: string where "ReceiptIntent \<equiv> ''DispatchIntentReceipt''"
abbreviation ReceiptConsequence :: string where "ReceiptConsequence \<equiv> ''ConsequenceReceipt''"
abbreviation SelfDevelopmentModeOff :: string where "SelfDevelopmentModeOff \<equiv> ''off''"
abbreviation PolicyIDIrreversibleEmailV1 :: string where "PolicyIDIrreversibleEmailV1 \<equiv> ''irreversible-email-v1''"
abbreviation PolicyIDHumanRequiredV1 :: string where "PolicyIDHumanRequiredV1 \<equiv> ''human-required-v1''"

record Intent =
  in_ComputerID :: string
  in_OperationID :: string
  in_Recipient :: string
  in_Payload :: string
  in_PayloadDigest :: string
  in_AcceptanceInbox :: string
  in_Actuator :: string
  in_PolicyDigest :: string
  in_ReceiptDigest :: string
  in_IdempotencyKey :: string

record ProviderResult =
  pr_Outcome :: string
  pr_ProviderDeliveryID :: string
  pr_Err :: "string option"

record RecordingProvider =
  rp_Sends :: "Intent list"
  rp_Result :: ProviderResult

definition RecordingProvider_Send :: "RecordingProvider \<Rightarrow> Intent \<Rightarrow> (ProviderResult \<times> string option) \<times> RecordingProvider" where
  "RecordingProvider_Send p intent =
     (let res = rp_Result p;
          res = (if pr_Outcome res = [] then res\<lparr>pr_Outcome := ProviderAccepted, pr_ProviderDeliveryID :=
                    (if pr_ProviderDeliveryID res = [] then ''recording:'' @ in_IdempotencyKey intent else pr_ProviderDeliveryID res)\<rparr> else res)
      in ((res, pr_Err res), p\<lparr>rp_Sends := rp_Sends p @ [intent], rp_Result := res\<rparr>))"

record IntentReceipt =
  ir_ReceiptKind :: string
  ir_IdempotencyKey :: string
  ir_SubjectDigest :: string
  ir_PayloadDigest :: string
  ir_Recipient :: string
  ir_PolicyDigest :: string
  ir_ReceiptDigest :: string
  ir_RecordedAt :: string
  ir_Digest :: string

record ConsequenceReceipt =
  cr_ReceiptKind :: string
  cr_IdempotencyKey :: string
  cr_IntentDigest :: string
  cr_ProviderOutcome :: string
  cr_ProviderDeliveryID :: string
  cr_PayloadDigest :: string
  cr_Recipient :: string
  cr_AcceptanceInbox :: string
  cr_UncertainOutcomeReconciliation :: string
  cr_CrashWindow :: string
  cr_CompensationIntent :: string
  cr_Greened :: bool
  cr_RecordedAt :: string
  cr_Digest :: string

definition no_consequence :: ConsequenceReceipt where
  "no_consequence = \<lparr>cr_ReceiptKind = [], cr_IdempotencyKey = [], cr_IntentDigest = [], cr_ProviderOutcome = [], cr_ProviderDeliveryID = [],
     cr_PayloadDigest = [], cr_Recipient = [], cr_AcceptanceInbox = [], cr_UncertainOutcomeReconciliation = [], cr_CrashWindow = [],
     cr_CompensationIntent = [], cr_Greened = False, cr_RecordedAt = [], cr_Digest = []\<rparr>"

text \<open>\<^verbatim>\<open>Dispatch\<close> asks of the provider whether there is one and whether it is the recording one.\<close>

datatype provider_kind = NoProvider | RecordingKind | LiveKind

record Outbox =
  ob_Store :: "Store option"
  ob_Provider :: provider_kind
  ob_Armed :: bool
  ob_Revoked :: "string \<Rightarrow> bool"
  ob_intents :: "string \<rightharpoonup> IntentReceipt"
  ob_consequences :: "string \<rightharpoonup> ConsequenceReceipt"
  ob_acceptedOrphan :: "string \<rightharpoonup> ProviderResult"

definition New_Outbox :: "Store option \<Rightarrow> provider_kind \<Rightarrow> Outbox" where
  "New_Outbox store provider = \<lparr>ob_Store = store, ob_Provider = provider, ob_Armed = False, ob_Revoked = (\<lambda>_. False),
     ob_intents = Map.empty, ob_consequences = Map.empty, ob_acceptedOrphan = Map.empty\<rparr>"

record DispatchRequest =
  rq_Mode :: string
  rq_Input :: ConsensusInput
  rq_Receipt :: QualifiedConsensusReceipt
  rq_Payload :: string
  rq_Now :: string

subsection \<open>Digests\<close>

definition IntentReceipt_json :: "IntentReceipt \<Rightarrow> json" where
  "IntentReceipt_json r = members_json [(''receipt_kind'', str (ir_ReceiptKind r)), (''idempotency_key'', str (ir_IdempotencyKey r)),
     (''subject_digest'', str (ir_SubjectDigest r)), (''payload_digest'', str (ir_PayloadDigest r)), (''recipient'', str (ir_Recipient r)),
     (''policy_digest'', str (ir_PolicyDigest r)), (''consensus_receipt_digest'', str (ir_ReceiptDigest r)),
     (''recorded_at'', str (ir_RecordedAt r)), (''digest'', omit_str (ir_Digest r))]"

definition ConsequenceReceipt_json :: "ConsequenceReceipt \<Rightarrow> json" where
  "ConsequenceReceipt_json r = members_json [(''receipt_kind'', str (cr_ReceiptKind r)), (''idempotency_key'', str (cr_IdempotencyKey r)),
     (''intent_digest'', str (cr_IntentDigest r)), (''provider_outcome'', str (cr_ProviderOutcome r)),
     (''provider_delivery_id'', omit_str (cr_ProviderDeliveryID r)), (''payload_digest'', str (cr_PayloadDigest r)),
     (''recipient'', str (cr_Recipient r)), (''acceptance_inbox'', str (cr_AcceptanceInbox r)),
     (''uncertain_outcome_reconciliation'', omit_str (cr_UncertainOutcomeReconciliation r)), (''crash_window'', omit_str (cr_CrashWindow r)),
     (''compensation_intent_if_correction_required'', omit_str (cr_CompensationIntent r)), (''greened'', always (JBool (cr_Greened r))),
     (''recorded_at'', str (cr_RecordedAt r)), (''digest'', omit_str (cr_Digest r))]"

definition mustJSON :: "json \<Rightarrow> string" where
  "mustJSON j = (case appendCanonical j of Inl _ \<Rightarrow> ''{}'' | Inr body \<Rightarrow> body)"

definition seal_intent :: "policy_lib \<Rightarrow> IntentReceipt \<Rightarrow> IntentReceipt" where
  "seal_intent lib r = r\<lparr>ir_Digest := lib_sha lib (mustJSON (IntentReceipt_json (r\<lparr>ir_Digest := []\<rparr>)))\<rparr>"

definition seal_consequence :: "policy_lib \<Rightarrow> ConsequenceReceipt \<Rightarrow> ConsequenceReceipt" where
  "seal_consequence lib r = r\<lparr>cr_Digest := lib_sha lib (mustJSON (ConsequenceReceipt_json (r\<lparr>cr_Digest := []\<rparr>)))\<rparr>"

definition exactSubjectKey :: "policy_lib \<Rightarrow> EffectSubject \<Rightarrow> policy_error + string" where
  "exactSubjectKey lib s = (case EffectSubject_Digest lib s of Inl e \<Rightarrow> Inl e | Inr dg \<Rightarrow> Inr (''outbox:'' @ dg))"

subsection \<open>Dispatch\<close>

text \<open>The checks before the mutex is taken; what passes them is the key of the subject.\<close>

definition dispatch_check :: "policy_lib \<Rightarrow> Outbox \<Rightarrow> DispatchRequest \<Rightarrow> outbox_error + string" where
  "dispatch_check lib ob req =
     (if ob_Store ob = None then Inl (PolicyRefused ErrNoPolicy)
      else if trimSpace (rq_Mode req) = [] \<or> rq_Mode req = SelfDevelopmentModeOff then Inl ErrModeOff
      else case Consensus_Verify lib (ob_Store ob) (rq_Input req) (rq_Receipt req) of Some e \<Rightarrow> Inl (PolicyRefused e)
      | None \<Rightarrow>
        if qc_PolicyID (rq_Receipt req) \<noteq> PolicyIDIrreversibleEmailV1 \<and> qc_PolicyID (rq_Receipt req) \<noteq> PolicyIDHumanRequiredV1
        then Inl ErrNotIrreversible
        else if \<not> Irreversible (ci_Subject (rq_Input req)) then Inl ErrNotIrreversible
        else if lib_sha lib (rq_Payload req) \<noteq> es_PayloadDigest (ci_Subject (rq_Input req)) then Inl ErrPayloadMismatch
        else if ob_Revoked ob (qc_PolicyDigest (rq_Receipt req)) then Inl ErrRevokedBeforeDispatch
        else case exactSubjectKey lib (ci_Subject (rq_Input req)) of Inl e \<Rightarrow> Inl (PolicyRefused e) | Inr key \<Rightarrow> Inr key)"

definition dispatch_now :: "string \<Rightarrow> DispatchRequest \<Rightarrow> string" where
  "dispatch_now clock req = (if trimSpace (rq_Now req) = [] then clock else trimSpace (rq_Now req))"

definition new_intent :: "policy_lib \<Rightarrow> string \<Rightarrow> string \<Rightarrow> DispatchRequest \<Rightarrow> IntentReceipt" where
  "new_intent lib now key req =
     (let subject = ci_Subject (rq_Input req) in seal_intent lib
       \<lparr>ir_ReceiptKind = ReceiptIntent, ir_IdempotencyKey = key, ir_SubjectDigest = qc_SubjectDigest (rq_Receipt req),
        ir_PayloadDigest = es_PayloadDigest subject, ir_Recipient = es_Recipient subject, ir_PolicyDigest = qc_PolicyDigest (rq_Receipt req),
        ir_ReceiptDigest = qc_ReceiptDigest (rq_Receipt req), ir_RecordedAt = now, ir_Digest = []\<rparr>)"

text \<open>The first critical section: an existing consequence is returned, else the intent is recorded.\<close>

definition dispatch_record :: "policy_lib \<Rightarrow> string \<Rightarrow> string \<Rightarrow> DispatchRequest \<Rightarrow> Outbox \<Rightarrow> (ConsequenceReceipt + IntentReceipt) \<times> Outbox" where
  "dispatch_record lib now key req ob =
     (case ob_consequences ob key of Some existing \<Rightarrow> (Inl existing, ob)
      | None \<Rightarrow> let intent = new_intent lib now key req in (Inr intent, ob\<lparr>ob_intents := (ob_intents ob)(key \<mapsto> intent)\<rparr>))"

definition may_send :: "Outbox \<Rightarrow> bool" where
  "may_send ob \<longleftrightarrow> ob_Provider ob \<noteq> NoProvider \<and> (ob_Provider ob = RecordingKind \<or> ob_Armed ob)"

definition send_intent :: "string \<Rightarrow> DispatchRequest \<Rightarrow> Intent" where
  "send_intent key req =
     (let subject = ci_Subject (rq_Input req) in
      \<lparr>in_ComputerID = es_ComputerID subject, in_OperationID = es_OperationID subject, in_Recipient = es_Recipient subject,
       in_Payload = rq_Payload req, in_PayloadDigest = es_PayloadDigest subject, in_AcceptanceInbox = es_AcceptanceInbox subject,
       in_Actuator = es_Actuator subject, in_PolicyDigest = qc_PolicyDigest (rq_Receipt req),
       in_ReceiptDigest = qc_ReceiptDigest (rq_Receipt req), in_IdempotencyKey = key\<rparr>)"

definition settled :: "ProviderResult \<times> string option \<Rightarrow> ProviderResult" where
  "settled a = (case a of (res, sendErr) \<Rightarrow>
     let res = (if sendErr \<noteq> None \<and> pr_Outcome res = [] then res\<lparr>pr_Outcome := ProviderUnknown, pr_Err := sendErr\<rparr> else res)
     in if pr_Outcome res = [] then res\<lparr>pr_Outcome := ProviderUnknown\<rparr> else res)"

text \<open>The second critical section.\<close>

definition dispatch_settle :: "policy_lib \<Rightarrow> string \<Rightarrow> string \<Rightarrow> DispatchRequest \<Rightarrow> IntentReceipt \<Rightarrow> ProviderResult \<Rightarrow> Outbox
    \<Rightarrow> (ConsequenceReceipt \<times> outbox_error option) \<times> Outbox" where
  "dispatch_settle lib now key req intent result ob =
     (case ob_consequences ob key of Some existing \<Rightarrow> ((existing, None), ob)
      | None \<Rightarrow>
        if ob_intents ob key = None then ((no_consequence, Some ErrMissingIntent), ob)
        else let subject = ci_Subject (rq_Input req);
          cons = no_consequence\<lparr>cr_ReceiptKind := ReceiptConsequence, cr_IdempotencyKey := key, cr_IntentDigest := ir_Digest intent,
            cr_ProviderOutcome := pr_Outcome result, cr_ProviderDeliveryID := pr_ProviderDeliveryID result,
            cr_PayloadDigest := es_PayloadDigest subject, cr_Recipient := es_Recipient subject, cr_AcceptanceInbox := es_AcceptanceInbox subject,
            cr_CrashWindow := ''if process dies after provider acceptance and before consequence persistence, reconciliation must find or compensate the send'',
            cr_RecordedAt := now\<rparr> in
        if pr_Outcome result = ProviderAccepted then
          let cons = seal_consequence lib (cons\<lparr>cr_Greened := True\<rparr>) in
          ((cons, None), ob\<lparr>ob_consequences := (ob_consequences ob)(key \<mapsto> cons)\<rparr>)
        else if pr_Outcome result = ProviderRejected then
          let cons = seal_consequence lib (cons\<lparr>cr_CompensationIntent := ''none; provider rejected before delivery''\<rparr>) in
          ((cons, Some ErrRejected), ob\<lparr>ob_consequences := (ob_consequences ob)(key \<mapsto> cons)\<rparr>)
        else if pr_Outcome result = ProviderUnknown then
          let cons = seal_consequence lib (cons\<lparr>cr_UncertainOutcomeReconciliation := ''required''\<rparr>) in
          ((cons, Some ErrUnknownOutcome), ob\<lparr>ob_consequences := (ob_consequences ob)(key \<mapsto> cons),
             ob_acceptedOrphan := (ob_acceptedOrphan ob)(key \<mapsto> result)\<rparr>)
        else ((cons, Some ErrPartialSuccess), ob))"

text \<open>The whole call, for a provider whose state is \<open>p\<close> and whose method is \<open>send\<close>.\<close>

definition Dispatch :: "policy_lib \<Rightarrow> string \<Rightarrow> ('p \<Rightarrow> Intent \<Rightarrow> (ProviderResult \<times> string option) \<times> 'p) \<Rightarrow> DispatchRequest \<Rightarrow> Outbox \<times> 'p
    \<Rightarrow> (ConsequenceReceipt \<times> outbox_error option) \<times> Outbox \<times> 'p" where
  "Dispatch lib clock send req s = (case s of (ob, p) \<Rightarrow>
     (case dispatch_check lib ob req of Inl e \<Rightarrow> ((no_consequence, Some e), ob, p)
      | Inr key \<Rightarrow> let now = dispatch_now clock req in
        (case dispatch_record lib now key req ob of
           (Inl existing, ob) \<Rightarrow> ((existing, None), ob, p)
         | (Inr intent, ob) \<Rightarrow>
           if \<not> may_send ob then ((no_consequence, Some ErrNotArmed), ob, p)
           else case send p (send_intent key req) of (answer, p) \<Rightarrow>
             (case dispatch_settle lib now key req intent (settled answer) ob of (out, ob) \<Rightarrow> (out, ob, p)))))"

definition SimulateCrashAfterAccept :: "string \<Rightarrow> ProviderResult \<Rightarrow> Outbox \<Rightarrow> Outbox" where
  "SimulateCrashAfterAccept key result ob =
     ob\<lparr>ob_consequences := (ob_consequences ob)(key := None), ob_acceptedOrphan := (ob_acceptedOrphan ob)(key \<mapsto> result)\<rparr>"

definition Reconcile :: "policy_lib \<Rightarrow> string \<Rightarrow> string \<Rightarrow> Outbox \<Rightarrow> (ConsequenceReceipt \<times> outbox_error option) \<times> Outbox" where
  "Reconcile lib clock key ob =
     (case ob_consequences ob key of Some existing \<Rightarrow> ((existing, None), ob)
      | None \<Rightarrow> (case ob_intents ob key of None \<Rightarrow> ((no_consequence, Some ErrMissingIntent), ob)
      | Some intent \<Rightarrow>
        let cons = no_consequence\<lparr>cr_ReceiptKind := ReceiptConsequence, cr_IdempotencyKey := key, cr_IntentDigest := ir_Digest intent,
            cr_PayloadDigest := ir_PayloadDigest intent, cr_Recipient := ir_Recipient intent,
            cr_CrashWindow := ''reconciled after provider-accepted / persistence-missing window'', cr_RecordedAt := clock\<rparr>;
          uncertain = seal_consequence lib (cons\<lparr>cr_ProviderOutcome := ProviderUnknown, cr_UncertainOutcomeReconciliation := ''required'',
            cr_CompensationIntent := ''compensation_or_new_forward_action; restore does not unsend''\<rparr>) in
        (case ob_acceptedOrphan ob key of
           None \<Rightarrow> ((uncertain, Some ErrUnknownOutcome), ob\<lparr>ob_consequences := (ob_consequences ob)(key \<mapsto> uncertain)\<rparr>)
         | Some orphan \<Rightarrow>
           if pr_Outcome orphan \<noteq> ProviderAccepted
           then ((uncertain, Some ErrUnknownOutcome), ob\<lparr>ob_consequences := (ob_consequences ob)(key \<mapsto> uncertain)\<rparr>)
           else let cons = seal_consequence lib (cons\<lparr>cr_ProviderOutcome := ProviderAccepted,
                  cr_ProviderDeliveryID := pr_ProviderDeliveryID orphan, cr_Greened := True\<rparr>) in
             ((cons, None), ob\<lparr>ob_consequences := (ob_consequences ob)(key \<mapsto> cons)\<rparr>))))"

subsection \<open>Calls that interleave\<close>

datatype phase = Checked DispatchRequest string string | Recorded DispatchRequest string string IntentReceipt
  | Sending DispatchRequest string string IntentReceipt
  | Sent DispatchRequest string string IntentReceipt ProviderResult | Returned ConsequenceReceipt "outbox_error option"

record outbox_config =
  oc_box :: Outbox
  oc_threads :: "nat \<rightharpoonup> phase"
  oc_log :: "(Intent \<times> ProviderResult) list"
  oc_crashes :: "(string \<times> ProviderResult) list"

definition outbox_start :: "Outbox \<Rightarrow> outbox_config" where
  "outbox_start ob = \<lparr>oc_box = ob, oc_threads = Map.empty, oc_log = [], oc_crashes = []\<rparr>"

text \<open>One thread moves from one critical section to the next; the log holds what was sent and the outcome the provider gave. The
  exported fields are not guarded by the mutex: the policies of the store, the revocations, the provider and the arming can
  change between any two steps of a call (\<open>tune\<close>). The checks of one call read one state of them.\<close>

inductive outbox_step :: "policy_lib \<Rightarrow> outbox_config \<Rightarrow> outbox_config \<Rightarrow> bool" for lib where
  call: "\<lbrakk>oc_threads c t = None; dispatch_check lib (oc_box c) req = Inr key\<rbrakk>
    \<Longrightarrow> outbox_step lib c (c\<lparr>oc_threads := (oc_threads c)(t \<mapsto> Checked req (dispatch_now clock req) key)\<rparr>)"
| refuse: "\<lbrakk>oc_threads c t = None; dispatch_check lib (oc_box c) req = Inl e\<rbrakk>
    \<Longrightarrow> outbox_step lib c (c\<lparr>oc_threads := (oc_threads c)(t \<mapsto> Returned no_consequence (Some e))\<rparr>)"
| replayed: "\<lbrakk>oc_threads c t = Some (Checked req now key); dispatch_record lib now key req (oc_box c) = (Inl existing, ob)\<rbrakk>
    \<Longrightarrow> outbox_step lib c (c\<lparr>oc_threads := (oc_threads c)(t \<mapsto> Returned existing None), oc_box := ob\<rparr>)"
| recorded: "\<lbrakk>oc_threads c t = Some (Checked req now key); dispatch_record lib now key req (oc_box c) = (Inr intent, ob)\<rbrakk>
    \<Longrightarrow> outbox_step lib c (c\<lparr>oc_threads := (oc_threads c)(t \<mapsto> Recorded req now key intent), oc_box := ob\<rparr>)"
| armed: "\<lbrakk>oc_threads c t = Some (Recorded req now key intent); may_send (oc_box c)\<rbrakk>
    \<Longrightarrow> outbox_step lib c (c\<lparr>oc_threads := (oc_threads c)(t \<mapsto> Sending req now key intent)\<rparr>)"
| unarmed: "\<lbrakk>oc_threads c t = Some (Recorded req now key intent); \<not> may_send (oc_box c)\<rbrakk>
    \<Longrightarrow> outbox_step lib c (c\<lparr>oc_threads := (oc_threads c)(t \<mapsto> Returned no_consequence (Some ErrNotArmed))\<rparr>)"
| sent: "oc_threads c t = Some (Sending req now key intent)
    \<Longrightarrow> outbox_step lib c (c\<lparr>oc_threads := (oc_threads c)(t \<mapsto> Sent req now key intent (settled answer)),
          oc_log := oc_log c @ [(send_intent key req, settled answer)]\<rparr>)"
| settle: "\<lbrakk>oc_threads c t = Some (Sent req now key intent res); dispatch_settle lib now key req intent res (oc_box c) = ((cons, err), ob)\<rbrakk>
    \<Longrightarrow> outbox_step lib c (c\<lparr>oc_threads := (oc_threads c)(t \<mapsto> Returned cons err), oc_box := ob\<rparr>)"
| reconcile: "Reconcile lib clock key (oc_box c) = (out, ob) \<Longrightarrow> outbox_step lib c (c\<lparr>oc_box := ob\<rparr>)"
| crash: "outbox_step lib c (c\<lparr>oc_box := SimulateCrashAfterAccept key res (oc_box c), oc_crashes := (key, res) # oc_crashes c\<rparr>)"
| tune: "outbox_step lib c (c\<lparr>oc_box := (oc_box c)\<lparr>ob_Store := store, ob_Provider := provider, ob_Armed := arm, ob_Revoked := revoked\<rparr>\<rparr>)"

abbreviation outbox_reaches :: "policy_lib \<Rightarrow> outbox_config \<Rightarrow> outbox_config \<Rightarrow> bool" where
  "outbox_reaches lib \<equiv> (outbox_step lib)\<^sup>*\<^sup>*"

text \<open>What the steps keep: every greened consequence and every accepted orphan has its evidence, a report of the provider or a
  result handed to the crash hook, and every message sent and every call on its way was cleared at an earlier time.\<close>

definition provider_accepted :: "outbox_config \<Rightarrow> string \<Rightarrow> bool" where
  "provider_accepted c key \<longleftrightarrow> (\<exists>i res. (i, res) \<in> set (oc_log c) \<and> in_IdempotencyKey i = key \<and> pr_Outcome res = ProviderAccepted)"

definition hook_accepted :: "outbox_config \<Rightarrow> string \<Rightarrow> bool" where
  "hook_accepted c key \<longleftrightarrow> (\<exists>res. (key, res) \<in> set (oc_crashes c) \<and> pr_Outcome res = ProviderAccepted)"

definition greens_backed :: "outbox_config \<Rightarrow> bool" where
  "greens_backed c \<longleftrightarrow> (\<forall>key cons. ob_consequences (oc_box c) key = Some cons \<and> cr_Greened cons \<longrightarrow> provider_accepted c key \<or> hook_accepted c key)"

definition orphans_backed :: "outbox_config \<Rightarrow> bool" where
  "orphans_backed c \<longleftrightarrow> (\<forall>key res. ob_acceptedOrphan (oc_box c) key = Some res \<and> pr_Outcome res = ProviderAccepted \<longrightarrow> (key, res) \<in> set (oc_crashes c))"

definition cleared :: "policy_lib \<Rightarrow> Outbox \<Rightarrow> string \<Rightarrow> DispatchRequest \<Rightarrow> bool" where
  "cleared lib ob key req \<longleftrightarrow> dispatch_check lib ob req = Inr key"

text \<open>The checks passed on the way from \<open>s\<close> to \<open>c\<close>; after them the provider was there and armed.\<close>

definition cleared_before :: "policy_lib \<Rightarrow> outbox_config \<Rightarrow> outbox_config \<Rightarrow> string \<Rightarrow> DispatchRequest \<Rightarrow> bool" where
  "cleared_before lib s c key req \<longleftrightarrow> (\<exists>c0. outbox_reaches lib s c0 \<and> outbox_reaches lib c0 c \<and> cleared lib (oc_box c0) key req)"

definition armed_before :: "policy_lib \<Rightarrow> outbox_config \<Rightarrow> outbox_config \<Rightarrow> string \<Rightarrow> DispatchRequest \<Rightarrow> bool" where
  "armed_before lib s c key req \<longleftrightarrow> (\<exists>c1. cleared_before lib s c1 key req \<and> may_send (oc_box c1) \<and> outbox_reaches lib c1 c)"

fun phase_ok :: "policy_lib \<Rightarrow> outbox_config \<Rightarrow> outbox_config \<Rightarrow> phase \<Rightarrow> bool" where
  "phase_ok lib s c (Checked req now key) = cleared_before lib s c key req"
| "phase_ok lib s c (Recorded req now key intent) = cleared_before lib s c key req"
| "phase_ok lib s c (Sending req now key intent) = armed_before lib s c key req"
| "phase_ok lib s c (Sent req now key intent res) = (armed_before lib s c key req \<and> (send_intent key req, res) \<in> set (oc_log c))"
| "phase_ok lib s c (Returned cons err) = True"

definition threads_ok :: "policy_lib \<Rightarrow> outbox_config \<Rightarrow> outbox_config \<Rightarrow> bool" where
  "threads_ok lib s c \<longleftrightarrow> (\<forall>t ph. oc_threads c t = Some ph \<longrightarrow> phase_ok lib s c ph)"

definition sends_cleared :: "policy_lib \<Rightarrow> outbox_config \<Rightarrow> outbox_config \<Rightarrow> bool" where
  "sends_cleared lib s c \<longleftrightarrow> (\<forall>(i, res) \<in> set (oc_log c). \<exists>req key. i = send_intent key req \<and> armed_before lib s c key req)"

lemma cleared_now: "outbox_reaches lib s c \<Longrightarrow> outbox_step lib c d \<Longrightarrow> cleared lib (oc_box c) key req \<Longrightarrow> cleared_before lib s d key req"
  unfolding cleared_before_def by blast

lemma cleared_step: "cleared_before lib s c key req \<Longrightarrow> outbox_step lib c d \<Longrightarrow> cleared_before lib s d key req"
  unfolding cleared_before_def by (meson rtranclp.rtrancl_into_rtrancl)

lemma armed_now: "cleared_before lib s c key req \<Longrightarrow> may_send (oc_box c) \<Longrightarrow> outbox_step lib c d \<Longrightarrow> armed_before lib s d key req"
  unfolding armed_before_def by blast

lemma armed_step: "armed_before lib s c key req \<Longrightarrow> outbox_step lib c d \<Longrightarrow> armed_before lib s d key req"
  unfolding armed_before_def by (meson rtranclp.rtrancl_into_rtrancl)

definition same_policy :: "Outbox \<Rightarrow> Outbox \<Rightarrow> bool" where
  "same_policy ob ob' \<longleftrightarrow> ob_Store ob' = ob_Store ob \<and> ob_Revoked ob' = ob_Revoked ob \<and> ob_Provider ob' = ob_Provider ob \<and> ob_Armed ob' = ob_Armed ob"

lemma cleared_same: "same_policy ob ob' \<Longrightarrow> cleared lib ob' key req = cleared lib ob key req"
  by (simp add: cleared_def dispatch_check_def same_policy_def)

lemma record_cases:
  assumes "dispatch_record lib now key req ob = (out, ob')"
  shows "same_policy ob ob'" "ob_consequences ob' = ob_consequences ob" "ob_acceptedOrphan ob' = ob_acceptedOrphan ob"
    "ob_consequences ob key = None \<Longrightarrow> out = Inr (new_intent lib now key req) \<and> ob_intents ob' key \<noteq> None"
    "ob_consequences ob key = Some r \<Longrightarrow> out = Inl r \<and> ob' = ob"
  using assms by (auto simp: dispatch_record_def same_policy_def Let_def split: option.splits)

lemma settle_cases:
  assumes "dispatch_settle lib now key req intent res ob = (out, ob')"
  shows "same_policy ob ob'"
    "ob_consequences ob' k = Some r \<Longrightarrow> ob_consequences ob k = Some r \<or> k = key \<and> ob_consequences ob k = None \<and> cr_Greened r = (pr_Outcome res = ProviderAccepted)"
    "ob_acceptedOrphan ob' k = Some u \<Longrightarrow> ob_acceptedOrphan ob k = Some u \<or> pr_Outcome u = ProviderUnknown"
    "ob_consequences ob k = Some r \<Longrightarrow> ob_consequences ob' k = Some r"
    "ob_intents ob key \<noteq> None \<Longrightarrow> pr_Outcome res \<in> {ProviderAccepted, ProviderRejected, ProviderUnknown} \<Longrightarrow> ob_consequences ob' key \<noteq> None"
  using assms unfolding dispatch_settle_def
  by (auto simp: same_policy_def no_consequence_def seal_consequence_def Let_def split: option.splits if_splits)

lemma reconcile_effects:
  assumes "Reconcile lib clock key ob = (out, ob')"
  shows "same_policy ob ob'" "ob_acceptedOrphan ob' = ob_acceptedOrphan ob"
    "ob_consequences ob' k = Some r \<Longrightarrow> ob_consequences ob k = Some r
      \<or> k = key \<and> ob_consequences ob k = None \<and> (cr_Greened r \<longrightarrow> (\<exists>u. ob_acceptedOrphan ob k = Some u \<and> pr_Outcome u = ProviderAccepted))"
    "ob_consequences ob k = Some r \<Longrightarrow> ob_consequences ob' k = Some r"
    "cr_Greened (fst out) \<Longrightarrow> ob_consequences ob key = Some (fst out) \<or> (\<exists>u. ob_acceptedOrphan ob key = Some u \<and> pr_Outcome u = ProviderAccepted)"
  using assms unfolding Reconcile_def
  by (auto simp: same_policy_def no_consequence_def seal_consequence_def Let_def split: option.splits if_splits)

definition outbox_inv :: "policy_lib \<Rightarrow> outbox_config \<Rightarrow> outbox_config \<Rightarrow> bool" where
  "outbox_inv lib s c \<longleftrightarrow> greens_backed c \<and> orphans_backed c \<and> threads_ok lib s c \<and> sends_cleared lib s c"

lemmas outbox_inv_defs = outbox_inv_def greens_backed_def orphans_backed_def threads_ok_def sends_cleared_def

lemma same_policy_trans: "same_policy a b \<Longrightarrow> same_policy b c \<Longrightarrow> same_policy a c"
  by (simp add: same_policy_def)

lemma outbox_invI:
  assumes "outbox_inv lib s c" and st: "outbox_step lib c d"
    and l: "set (oc_log c) \<subseteq> set (oc_log d)" and m: "set (oc_crashes c) \<subseteq> set (oc_crashes d)"
    and g: "\<And>k r. ob_consequences (oc_box d) k = Some r \<Longrightarrow> cr_Greened r
      \<Longrightarrow> ob_consequences (oc_box c) k = Some r \<or> provider_accepted d k \<or> hook_accepted d k"
    and u: "\<And>k r. ob_acceptedOrphan (oc_box d) k = Some r \<Longrightarrow> pr_Outcome r = ProviderAccepted
      \<Longrightarrow> ob_acceptedOrphan (oc_box c) k = Some r \<or> (k, r) \<in> set (oc_crashes d)"
    and t: "\<And>t ph. oc_threads d t = Some ph \<Longrightarrow> oc_threads c t = Some ph \<or> phase_ok lib s d ph"
    and n: "\<And>i r. (i, r) \<in> set (oc_log d) \<Longrightarrow> (i, r) \<in> set (oc_log c) \<or> (\<exists>req key. i = send_intent key req \<and> armed_before lib s d key req)"
  shows "outbox_inv lib s d"
proof -
  have i: "greens_backed c" "orphans_backed c" "threads_ok lib s c" "sends_cleared lib s c" using assms(1) by (simp_all add: outbox_inv_def)
  have "phase_ok lib s d ph" if "phase_ok lib s c ph" for ph
    using that l cleared_step [OF _ st] armed_step [OF _ st] by (cases ph) auto
  then have "threads_ok lib s d" using i(3) t unfolding threads_ok_def by blast
  moreover have "greens_backed d"
    using i(1) g l m unfolding greens_backed_def provider_accepted_def hook_accepted_def by (meson subsetD)
  moreover have "orphans_backed d" using i(2) u m unfolding orphans_backed_def by blast
  moreover have "sends_cleared lib s d" using i(4) n armed_step [OF _ st] unfolding sends_cleared_def by blast
  ultimately show ?thesis by (simp add: outbox_inv_def)
qed

lemma inv_phase: "outbox_inv lib s c \<Longrightarrow> oc_threads c t = Some ph \<Longrightarrow> phase_ok lib s c ph"
  by (simp add: outbox_inv_def threads_ok_def)

lemma settle_backed:
  assumes "outbox_inv lib s c" "oc_threads c t = Some (Sent req now key intent res)"
    "dispatch_settle lib now key req intent res (oc_box c) = (out, ob)" "oc_log d = oc_log c" "oc_box d = ob"
  shows "ob_consequences (oc_box d) k = Some r \<Longrightarrow> cr_Greened r \<Longrightarrow> ob_consequences (oc_box c) k = Some r \<or> provider_accepted d k"
    and "ob_acceptedOrphan (oc_box d) k = Some v \<Longrightarrow> pr_Outcome v = ProviderAccepted \<Longrightarrow> ob_acceptedOrphan (oc_box c) k = Some v"
proof -
  have p: "(send_intent key req, res) \<in> set (oc_log d)" using inv_phase [OF assms(1,2)] assms(4) by simp
  have k: "in_IdempotencyKey (send_intent key req) = key" by (simp add: send_intent_def Let_def)
  note m = settle_cases [OF assms(3)]
  show "ob_consequences (oc_box c) k = Some r \<or> provider_accepted d k" if "ob_consequences (oc_box d) k = Some r" "cr_Greened r"
    using m(2) that p k assms(5) unfolding provider_accepted_def by metis
  show "ob_acceptedOrphan (oc_box c) k = Some v" if "ob_acceptedOrphan (oc_box d) k = Some v" "pr_Outcome v = ProviderAccepted"
    using m(3) that assms(5) by fastforce
qed

lemma reconcile_backed:
  assumes "outbox_inv lib s c" "Reconcile lib clock key (oc_box c) = (out, oc_box d)" "oc_crashes d = oc_crashes c"
  shows "ob_consequences (oc_box d) k = Some r \<Longrightarrow> cr_Greened r \<Longrightarrow> ob_consequences (oc_box c) k = Some r \<or> hook_accepted d k"
  using reconcile_effects(3) [OF assms(2)] assms(1,3) unfolding outbox_inv_def orphans_backed_def hook_accepted_def by metis

lemma outbox_step_inv:
  assumes st: "outbox_step lib c d" and inv: "outbox_inv lib s c" and r: "outbox_reaches lib s c"
  shows "outbox_inv lib s d"
  using st
proof (cases rule: outbox_step.cases)
  case (call t req key clock)
  have "cleared_before lib s d key req" using cleared_now [OF r st] call(3) by (simp add: cleared_def)
  then show ?thesis by (intro outbox_invI [OF inv st]) (auto simp: call(1) split: if_splits)
next
  case (refuse t req e)
  show ?thesis by (rule outbox_invI [OF inv st]) (auto simp: refuse(1) split: if_splits)
next
  case (replayed t req now key existing ob)
  show ?thesis by (rule outbox_invI [OF inv st]) (use record_cases [OF replayed(3)] in \<open>auto simp: replayed(1) split: if_splits\<close>)
next
  case (recorded t req now key intent ob)
  have "cleared_before lib s d key req" using inv_phase [OF inv recorded(2)] cleared_step [OF _ st] by simp
  then show ?thesis
    by (intro outbox_invI [OF inv st]) (use record_cases [OF recorded(3)] in \<open>auto simp: recorded(1) split: if_splits\<close>)
next
  case (armed t req now key intent)
  have "armed_before lib s d key req" using inv_phase [OF inv armed(2)] armed_now [OF _ armed(3) st] by simp
  then show ?thesis by (intro outbox_invI [OF inv st]) (auto simp: armed(1) split: if_splits)
next
  case (unarmed t req now key intent)
  show ?thesis by (rule outbox_invI [OF inv st]) (auto simp: unarmed(1) split: if_splits)
next
  case (sent t req now key intent answer)
  have "armed_before lib s d key req" using inv_phase [OF inv sent(2)] armed_step [OF _ st] by simp
  then show ?thesis by (intro outbox_invI [OF inv st]) (auto simp: sent(1) split: if_splits)
next
  case (settle t req now key intent res cons err ob)
  have "oc_log d = oc_log c" "oc_box d = ob" "oc_crashes d = oc_crashes c" by (simp_all add: settle(1))
  note b = settle_backed [OF inv settle(2,3) this(1,2)] and f = this
  show ?thesis by (rule outbox_invI [OF inv st]) (use b f in \<open>auto simp: settle(1) split: if_splits\<close>)
next
  case (reconcile clock key out ob)
  have f: "Reconcile lib clock key (oc_box c) = (out, oc_box d)" "oc_crashes d = oc_crashes c" "oc_log d = oc_log c" "oc_threads d = oc_threads c"
    using reconcile by simp_all
  show ?thesis
    by (rule outbox_invI [OF inv st]) (use reconcile_backed [OF inv f(1,2)] reconcile_effects(2) [OF f(1)] f(2-4) in auto)
next
  case (crash key res)
  show ?thesis by (rule outbox_invI [OF inv st]) (auto simp: crash(1) SimulateCrashAfterAccept_def split: if_splits)
next
  case (tune store provider arm revoked)
  show ?thesis by (rule outbox_invI [OF inv st]) (auto simp: tune(1))
qed

lemma outbox_reaches_inv:
  assumes "outbox_reaches lib (outbox_start ob) c" "ob_consequences ob = Map.empty" "ob_acceptedOrphan ob = Map.empty"
  shows "outbox_inv lib (outbox_start ob) c"
  using assms(1)
proof (induction rule: rtranclp_induct)
  case base
  show ?case using assms(2,3) by (simp add: outbox_inv_defs outbox_start_def)
next
  case (step c d)
  then show ?case using outbox_step_inv by blast
qed

lemma check_passed:
  assumes "dispatch_check lib ob req = Inr key" "i = send_intent key req"
  shows "\<exists>store. ob_Store ob = Some store \<and> Consensus_Verify lib (Some store) (rq_Input req) (rq_Receipt req) = None
    \<and> trimSpace (rq_Mode req) \<noteq> [] \<and> rq_Mode req \<noteq> SelfDevelopmentModeOff
    \<and> qc_PolicyID (rq_Receipt req) \<in> {PolicyIDIrreversibleEmailV1, PolicyIDHumanRequiredV1} \<and> Irreversible (ci_Subject (rq_Input req))
    \<and> lib_sha lib (in_Payload i) = in_PayloadDigest i \<and> \<not> ob_Revoked ob (in_PolicyDigest i)
    \<and> exactSubjectKey lib (ci_Subject (rq_Input req)) = Inr (in_IdempotencyKey i) \<and> i = send_intent (in_IdempotencyKey i) req"
  using assms by (auto simp: dispatch_check_def send_intent_def Let_def split: if_splits option.splits sum.splits)

text \<open>C23: whatever the calls, however they interleave and whatever is revoked, disarmed or replaced meanwhile, a message leaves only
  for a request that was cleared in an earlier state \<open>c0\<close>: there was a store and the receipt verified against it, the mode
  was on, the policy was one of the two for irreversible effects and was not revoked in the outbox, the subject was
  irreversible, the payload sent has the digest of the subject and the message carries the subject's key; and in a state \<open>c1\<close>
  after the check the provider was there and, unless it is the recording one, armed. A stored consequence is green only
  if the provider reported acceptance under its key, or if an accepted result was handed to the exported crash hook
  \<^verbatim>\<open>SimulateCrashAfterAccept\<close> under that key.\<close>

theorem outbox_sends_only_cleared_and_greens_only_accepted:
  assumes "outbox_reaches lib (outbox_start ob) c" "ob_consequences ob = Map.empty" "ob_acceptedOrphan ob = Map.empty"
  shows "(\<forall>(i, res) \<in> set (oc_log c). \<exists>c0 c1 req store. outbox_reaches lib (outbox_start ob) c0 \<and> outbox_reaches lib c0 c1 \<and> outbox_reaches lib c1 c
        \<and> ob_Store (oc_box c0) = Some store \<and> Consensus_Verify lib (Some store) (rq_Input req) (rq_Receipt req) = None
        \<and> trimSpace (rq_Mode req) \<noteq> [] \<and> rq_Mode req \<noteq> SelfDevelopmentModeOff
        \<and> qc_PolicyID (rq_Receipt req) \<in> {PolicyIDIrreversibleEmailV1, PolicyIDHumanRequiredV1} \<and> Irreversible (ci_Subject (rq_Input req))
        \<and> lib_sha lib (in_Payload i) = in_PayloadDigest i \<and> \<not> ob_Revoked (oc_box c0) (in_PolicyDigest i)
        \<and> exactSubjectKey lib (ci_Subject (rq_Input req)) = Inr (in_IdempotencyKey i) \<and> i = send_intent (in_IdempotencyKey i) req
        \<and> may_send (oc_box c1))
    \<and> (\<forall>key cons. ob_consequences (oc_box c) key = Some cons \<and> cr_Greened cons \<longrightarrow> provider_accepted c key \<or> hook_accepted c key)"
proof -
  note inv = outbox_reaches_inv [OF assms]
  have "\<exists>c0 c1 req key. outbox_reaches lib (outbox_start ob) c0 \<and> outbox_reaches lib c0 c1 \<and> outbox_reaches lib c1 c
      \<and> dispatch_check lib (oc_box c0) req = Inr key \<and> i = send_intent key req \<and> may_send (oc_box c1)" if "(i, res) \<in> set (oc_log c)" for i res
    using inv that unfolding outbox_inv_def sends_cleared_def armed_before_def cleared_before_def cleared_def by blast
  then have "\<forall>(i, res) \<in> set (oc_log c). \<exists>c0 c1 req key. outbox_reaches lib (outbox_start ob) c0 \<and> outbox_reaches lib c0 c1 \<and> outbox_reaches lib c1 c
      \<and> dispatch_check lib (oc_box c0) req = Inr key \<and> i = send_intent key req \<and> may_send (oc_box c1)" by blast
  then show ?thesis using inv unfolding outbox_inv_def greens_backed_def by (fast dest: check_passed)
qed

text \<open>Apart from the crash hook of the tests nothing records an accepted orphan, so reconciliation never turns an intent
  green: it returns a green consequence only where one is already stored.\<close>

theorem reconcile_recovers_nothing:
  assumes "outbox_reaches lib (outbox_start ob) c" "ob_consequences ob = Map.empty" "ob_acceptedOrphan ob = Map.empty" "oc_crashes c = []"
    "Reconcile lib clock key (oc_box c) = ((cons, err), ob')" "cr_Greened cons"
  shows "ob_consequences (oc_box c) key = Some cons"
  using reconcile_effects(5) [OF assms(5)] outbox_reaches_inv [OF assms(1-3)] assms(4,6)
  by (auto simp: outbox_inv_def orphans_backed_def)

subsection \<open>Calls one after the other\<close>

datatype outbox_call = DoDispatch DispatchRequest "ProviderResult \<times> string option" | DoReconcile string

text \<open>A dispatch call comes with the answer that the provider gives if it is asked; what is sent is logged.\<close>

fun run_call :: "policy_lib \<Rightarrow> string \<Rightarrow> outbox_call \<Rightarrow> Outbox \<times> Intent list \<Rightarrow> Outbox \<times> Intent list" where
  "run_call lib clock (DoDispatch req answer) s = snd (Dispatch lib clock (\<lambda>log i. (answer, log @ [i])) req s)"
| "run_call lib clock (DoReconcile key) (ob, log) = (snd (Reconcile lib clock key ob), log)"

fun recognised :: "outbox_call \<Rightarrow> bool" where
  "recognised (DoDispatch req answer) = (pr_Outcome (settled answer) \<in> {ProviderAccepted, ProviderRejected, ProviderUnknown})"
| "recognised (DoReconcile key) = True"

definition sent_once :: "Outbox \<times> Intent list \<Rightarrow> bool" where
  "sent_once s \<longleftrightarrow> (case s of (ob, log) \<Rightarrow> distinct (map in_IdempotencyKey log) \<and> (\<forall>i \<in> set log. ob_consequences ob (in_IdempotencyKey i) \<noteq> None))"

lemma send_intent_key [simp]: "in_IdempotencyKey (send_intent key req) = key"
  by (simp add: send_intent_def Let_def)

lemma run_call_sent_once:
  assumes "sent_once s" "recognised call"
  shows "sent_once (run_call lib clock call s)"
proof (cases call)
  case (DoReconcile key)
  obtain ob lg where s: "s = (ob, lg)" by (cases s)
  obtain out ob' where r: "Reconcile lib clock key ob = (out, ob')" by (cases "Reconcile lib clock key ob")
  have "ob_consequences ob' k \<noteq> None" if "ob_consequences ob k \<noteq> None" for k using reconcile_effects(4) [OF r] that by auto
  then show ?thesis using assms(1) by (auto simp: DoReconcile s r sent_once_def)
next
  case (DoDispatch req answer)
  obtain ob lg where s: "s = (ob, lg)" by (cases s)
  show ?thesis
  proof (cases "dispatch_check lib ob req")
    case (Inl e)
    then show ?thesis using assms(1) by (simp add: DoDispatch s Dispatch_def)
  next
    case (Inr key)
    let ?now = "dispatch_now clock req"
    obtain out ob1 where d: "dispatch_record lib ?now key req ob = (out, ob1)" by (cases "dispatch_record lib ?now key req ob")
    note rc = record_cases [OF d]
    show ?thesis
    proof (cases "ob_consequences ob key")
      case (Some existing)
      then show ?thesis using assms(1) Inr d rc(5) by (simp add: DoDispatch s Dispatch_def)
    next
      case None
      obtain fin ob2 where e: "dispatch_settle lib ?now key req (new_intent lib ?now key req) (settled answer) ob1 = (fin, ob2)"
        by (cases "dispatch_settle lib ?now key req (new_intent lib ?now key req) (settled answer) ob1")
      note sc = settle_cases [OF e]
      have o: "out = Inr (new_intent lib ?now key req)" "ob_intents ob1 key \<noteq> None" using rc(4) [OF None] by simp_all
      have k: "ob_consequences ob2 key \<noteq> None" using sc(5) o(2) assms(2) by (simp add: DoDispatch)
      have keep: "ob_consequences ob2 j \<noteq> None" if "ob_consequences ob j \<noteq> None" for j using sc(4) rc(2) that by auto
      have n: "key \<notin> in_IdempotencyKey ` set lg" using assms(1) None by (auto simp: s sent_once_def)
      show ?thesis
        using assms(1) n k keep rc(2) Inr d e o(1) by (auto simp: DoDispatch s Dispatch_def sent_once_def Let_def)
    qed
  qed
qed

lemma run_calls_sent_once: "sent_once s \<Longrightarrow> list_all recognised calls \<Longrightarrow> sent_once (fold (run_call lib clock) calls s)"
  by (induction calls arbitrary: s) (simp_all add: run_call_sent_once)

text \<open>C24: calls that do not overlap send each subject at most once, whatever the outbox held before and whatever the provider
  answered, as long as it answered one of the three outcomes of the contract (or none).\<close>

theorem sequential_dispatch_sends_once:
  assumes "list_all recognised calls"
  shows "distinct (map in_IdempotencyKey (snd (fold (run_call lib clock) calls (ob, []))))"
  using run_calls_sent_once [of "(ob, [])" calls lib clock] assms by (auto simp: sent_once_def split: prod.splits)

text \<open>A rejection is reported once. The call that meets it returns the receipt with an error; the same call made again returns
  the same receipt with no error, and sends nothing.\<close>

theorem retry_of_a_rejection_reports_no_error:
  assumes "Dispatch lib clock send req s = ((cons, Some ErrRejected), s')"
  shows "Dispatch lib clock send req s' = ((cons, None), s')"
proof -
  obtain ob p where s: "s = (ob, p)" by (cases s)
  obtain key where k: "dispatch_check lib ob req = Inr key"
    using assms unfolding s Dispatch_def by (auto simp: dispatch_check_def split: sum.splits option.splits if_splits)
  obtain out ob1 where d: "dispatch_record lib (dispatch_now clock req) key req ob = (out, ob1)"
    by (cases "dispatch_record lib (dispatch_now clock req) key req ob")
  obtain intent where o: "out = Inr intent" using assms k d unfolding s Dispatch_def by (cases out) (auto simp: Let_def)
  obtain answer p' where a: "send p (send_intent key req) = (answer, p')" by (cases "send p (send_intent key req)")
  obtain ob2 where e: "dispatch_settle lib (dispatch_now clock req) key req intent (settled answer) ob1 = ((cons, Some ErrRejected), ob2)" "s' = (ob2, p')"
    using assms k d o a unfolding s Dispatch_def by (auto simp: Let_def split: if_splits prod.splits)
  have c: "ob_consequences ob2 key = Some cons"
    using e(1) unfolding dispatch_settle_def by (auto simp: Let_def split: option.splits if_splits)
  have "same_policy ob ob2" using record_cases(1) [OF d] settle_cases(1) [OF e(1)] same_policy_trans by blast
  then have "dispatch_check lib ob2 req = Inr key" using k cleared_same [of ob ob2 lib key req] by (simp add: cleared_def)
  then show ?thesis using c unfolding e(2) by (simp add: Dispatch_def dispatch_record_def Let_def)
qed

text \<open>The first half of a run with two calls for one subject: both are past the first critical section and the arming check.\<close>

definition two_calls :: "Outbox \<Rightarrow> phase \<Rightarrow> phase \<Rightarrow> (Intent \<times> ProviderResult) list \<Rightarrow> outbox_config" where
  "two_calls b x y lg = \<lparr>oc_box = b, oc_threads = [0 \<mapsto> x, 1 \<mapsto> y], oc_log = lg, oc_crashes = []\<rparr>"

lemma two_calls_upd:
  "(two_calls b x y lg)\<lparr>oc_threads := (oc_threads (two_calls b x y lg))(0 \<mapsto> z)\<rparr> = two_calls b z y lg"
  "(two_calls b x y lg)\<lparr>oc_threads := (oc_threads (two_calls b x y lg))(1 \<mapsto> z)\<rparr> = two_calls b x z lg"
  "(two_calls b x y lg)\<lparr>oc_box := b'\<rparr> = two_calls b' x y lg" "(two_calls b x y lg)\<lparr>oc_log := lg'\<rparr> = two_calls b x y lg'"
  "oc_threads (two_calls b x y lg) 0 = Some x" "oc_threads (two_calls b x y lg) 1 = Some y" "oc_box (two_calls b x y lg) = b" "oc_log (two_calls b x y lg) = lg"
  by (simp_all add: two_calls_def fun_upd_twist)

lemma both_sending:
  assumes "dispatch_check lib ob req = Inr key" "ob_consequences ob key = None" "may_send ob"
  shows "outbox_reaches lib (outbox_start ob)
    (two_calls (ob\<lparr>ob_intents := (ob_intents ob)(key \<mapsto> new_intent lib (dispatch_now clock req) key req)\<rparr>)
      (Sending req (dispatch_now clock req) key (new_intent lib (dispatch_now clock req) key req))
      (Sending req (dispatch_now clock req) key (new_intent lib (dispatch_now clock req) key req)) [])"
proof -
  let ?n = "dispatch_now clock req"
  define I where "I = new_intent lib ?n key req"
  define box where "box = ob\<lparr>ob_intents := (ob_intents ob)(key \<mapsto> I)\<rparr>"
  let ?one = "(outbox_start ob)\<lparr>oc_threads := [0 \<mapsto> Checked req ?n key]\<rparr>"
  note upd = two_calls_upd
  have r: "dispatch_record lib ?n key req ob = (Inr I, box)" "dispatch_record lib ?n key req box = (Inr I, box)" "may_send box"
    using assms(2,3) by (simp_all add: dispatch_record_def box_def I_def Let_def may_send_def)
  have "outbox_step lib (outbox_start ob) ?one"
    using outbox_step.call [of "outbox_start ob" 0 lib req key clock] assms(1) by (simp add: outbox_start_def)
  moreover have "outbox_step lib ?one (two_calls ob (Checked req ?n key) (Checked req ?n key) [])"
    using outbox_step.call [of ?one 1 lib req key clock] assms(1) by (simp add: outbox_start_def two_calls_def)
  moreover have "outbox_step lib (two_calls ob (Checked req ?n key) (Checked req ?n key) []) (two_calls box (Recorded req ?n key I) (Checked req ?n key) [])"
    using outbox_step.recorded [of "two_calls ob (Checked req ?n key) (Checked req ?n key) []" 0 req ?n key lib I box] r by (simp only: upd simp_thms)
  moreover have "outbox_step lib (two_calls box (Recorded req ?n key I) (Checked req ?n key) []) (two_calls box (Recorded req ?n key I) (Recorded req ?n key I) [])"
    using outbox_step.recorded [of "two_calls box (Recorded req ?n key I) (Checked req ?n key) []" 1 req ?n key lib I box] r by (simp only: upd simp_thms)
  moreover have "outbox_step lib (two_calls box (Recorded req ?n key I) (Recorded req ?n key I) []) (two_calls box (Sending req ?n key I) (Recorded req ?n key I) [])"
    using outbox_step.armed [of "two_calls box (Recorded req ?n key I) (Recorded req ?n key I) []" 0 req ?n key I lib] r by (simp only: upd simp_thms)
  moreover have "outbox_step lib (two_calls box (Sending req ?n key I) (Recorded req ?n key I) []) (two_calls box (Sending req ?n key I) (Sending req ?n key I) [])"
    using outbox_step.armed [of "two_calls box (Sending req ?n key I) (Recorded req ?n key I) []" 1 req ?n key I lib] r by (simp only: upd simp_thms)
  ultimately show ?thesis unfolding box_def I_def by (meson r_into_rtranclp rtranclp_trans)
qed

lemma two_sends:
  assumes "dispatch_check lib ob req = Inr key" "ob_consequences ob key = None" "may_send ob" "pr_Outcome (settled answer) = ProviderAccepted"
  shows "\<exists>c cons. outbox_reaches lib (outbox_start ob) c \<and> oc_log c = [(send_intent key req, settled answer), (send_intent key req, settled answer)]
    \<and> ob_consequences (oc_box c) key = Some cons \<and> oc_threads c = [0 \<mapsto> Returned cons None, 1 \<mapsto> Returned cons None]
    \<and> cr_Greened cons \<and> oc_crashes c = []"
proof -
  let ?n = "dispatch_now clock req" and ?m = "(send_intent key req, settled answer)"
  define I where "I = new_intent lib ?n key req"
  define box where "box = ob\<lparr>ob_intents := (ob_intents ob)(key \<mapsto> I)\<rparr>"
  let ?S = "Sending req ?n key I" and ?T = "Sent req ?n key I (settled answer)"
  note upd = two_calls_upd
  obtain cons ob2 where e: "dispatch_settle lib ?n key req I (settled answer) box = ((cons, None), ob2)" "ob_consequences ob2 key = Some cons" "cr_Greened cons"
    using assms(2,4) by (auto simp: dispatch_settle_def box_def seal_consequence_def Let_def)
  have e': "dispatch_settle lib ?n key req I (settled answer) ob2 = ((cons, None), ob2)" using e(2) by (simp add: dispatch_settle_def)
  have "outbox_reaches lib (outbox_start ob) (two_calls box ?S ?S [])" using both_sending [OF assms(1-3)] by (simp only: box_def I_def)
  moreover have "outbox_step lib (two_calls box ?S ?S []) (two_calls box ?T ?S [?m])"
    using outbox_step.sent [of "two_calls box ?S ?S []" 0 req ?n key I lib answer] by (simp only: upd simp_thms append_Nil)
  moreover have "outbox_step lib (two_calls box ?T ?S [?m]) (two_calls box ?T ?T [?m, ?m])"
    using outbox_step.sent [of "two_calls box ?T ?S [?m]" 1 req ?n key I lib answer] by (simp only: upd simp_thms append_Cons append_Nil)
  moreover have "outbox_step lib (two_calls box ?T ?T [?m, ?m]) (two_calls ob2 (Returned cons None) ?T [?m, ?m])"
    using outbox_step.settle [of "two_calls box ?T ?T [?m, ?m]" 0 req ?n key I "settled answer" lib cons None ob2] e(1) by (simp only: upd simp_thms)
  moreover have "outbox_step lib (two_calls ob2 (Returned cons None) ?T [?m, ?m]) (two_calls ob2 (Returned cons None) (Returned cons None) [?m, ?m])"
    using outbox_step.settle [of "two_calls ob2 (Returned cons None) ?T [?m, ?m]" 1 req ?n key I "settled answer" lib cons None ob2] e' by (simp only: upd simp_thms)
  ultimately have "outbox_reaches lib (outbox_start ob) (two_calls ob2 (Returned cons None) (Returned cons None) [?m, ?m])"
    by (meson r_into_rtranclp rtranclp_trans)
  then show ?thesis
    using e(2,3) by (intro exI [of _ "two_calls ob2 (Returned cons None) (Returned cons None) [?m, ?m]"] exI [of _ cons]) (simp add: two_calls_def)
qed

text \<open>A revocation that comes after the checks of a call is not seen by it: the outbox's revocation table is read once, before the
  intent is recorded, and the message leaves although the policy is revoked by then.\<close>

theorem revocation_after_check_still_sends:
  assumes "dispatch_check lib ob req = Inr key" "ob_consequences ob key = None" "may_send ob"
  shows "\<exists>c d. outbox_reaches lib (outbox_start ob) c \<and> oc_log c = [] \<and> ob_Revoked (oc_box c) (qc_PolicyDigest (rq_Receipt req))
    \<and> outbox_reaches lib c d \<and> oc_log d = [(send_intent key req, settled answer)]"
proof -
  let ?n = "dispatch_now clock req"
  define I where "I = new_intent lib ?n key req"
  define box where "box = ob\<lparr>ob_intents := (ob_intents ob)(key \<mapsto> I)\<rparr>"
  let ?S = "Sending req ?n key I" and ?box = "box\<lparr>ob_Store := ob_Store box, ob_Provider := ob_Provider box, ob_Armed := ob_Armed box, ob_Revoked := (\<lambda>_. True)\<rparr>"
  note upd = two_calls_upd
  have "outbox_reaches lib (outbox_start ob) (two_calls box ?S ?S [])" using both_sending [OF assms] by (simp only: box_def I_def)
  moreover have "outbox_step lib (two_calls box ?S ?S []) (two_calls ?box ?S ?S [])"
    using outbox_step.tune [of lib "two_calls box ?S ?S []"] by (simp only: upd)
  moreover have "outbox_step lib (two_calls ?box ?S ?S []) (two_calls ?box (Sent req ?n key I (settled answer)) ?S [(send_intent key req, settled answer)])"
    using outbox_step.sent [of "two_calls ?box ?S ?S []" 0 req ?n key I lib answer] by (simp only: upd simp_thms append_Nil)
  ultimately show ?thesis
    by (intro exI [of _ "two_calls ?box ?S ?S []"] exI [of _ "two_calls ?box (Sent req ?n key I (settled answer)) ?S [(send_intent key req, settled answer)]"])
      (auto simp: two_calls_def)
qed

text \<open>C25: calls that overlap can send twice. The intent that the first critical section records is not looked at before the
  provider is called, so two calls for one cleared subject both send it; the policy's contract says that retries do not
  double-send. Both then return the one consequence that is stored.\<close>

theorem overlapping_dispatches_send_twice:
  assumes "dispatch_check lib ob req = Inr key" "ob_consequences ob key = None" "may_send ob" "pr_Outcome (settled answer) = ProviderAccepted"
  shows "\<exists>c cons. outbox_reaches lib (outbox_start ob) c \<and> oc_log c = [(send_intent key req, settled answer), (send_intent key req, settled answer)]
    \<and> ob_consequences (oc_box c) key = Some cons \<and> oc_threads c = [0 \<mapsto> Returned cons None, 1 \<mapsto> Returned cons None]"
  using two_sends [OF assms] by blast

subsection \<open>Witnesses\<close>

text \<open>An email policy with no seats, so that the receipt needs no ballots.\<close>

definition wit_email_policy :: Policy where
  "wit_email_policy = wit_policy\<lparr>pl_PolicyID := PolicyIDIrreversibleEmailV1, pl_EligibleSeats := None, pl_HumanSeat := HumanSeatOptional,
     pl_Quorum := \<lparr>pq_AbstentionCountsAgainstQuorum = True, pq_GlobalAcceptMinimum = 0, pq_PerDomain = None, pq_Weighting = []\<rparr>\<rparr>"

definition wit_email_lib :: policy_lib where
  "wit_email_lib = wit_plib\<lparr>lib_parse_policy := (\<lambda>_. Some wit_email_policy)\<rparr>"

definition wit_email_input :: ConsensusInput where
  "wit_email_input = (wit_consensus [])\<lparr>ci_Policy := wit_email_policy, ci_Manifest := None,
     ci_Subject := ci_Subject (wit_consensus [])\<lparr>es_PayloadDigest := wit_dg\<rparr>\<rparr>"

definition wit_outbox :: Outbox where
  "wit_outbox = New_Outbox (Some wit_pstore) RecordingKind"

lemma wit_email_trims: "trimSpace PolicyIDIrreversibleEmailV1 = PolicyIDIrreversibleEmailV1"
  by code_simp

lemma wit_email_reduce: "\<exists>r. Consensus_Reduce wit_email_lib (Some wit_pstore) wit_email_input = Inr r"
proof -
  have h: "lib_sha wit_email_lib t = wit_dg" for t by (simp add: wit_email_lib_def wit_plib_def wit_sha256_def)
  have g: "Store_Get wit_email_lib wit_pstore wit_dg = Inr wit_email_policy"
    by (simp add: Store_Get_def wit_pstore_def ParsePolicy_def wit_email_lib_def wit_plib_def wit_email_policy_def wit_policy_def wit_policy_trims wit_email_trims)
  have c: "check_policy wit_email_input wit_email_policy = None"
    by (simp add: check_policy_def wit_email_input_def wit_email_policy_def wit_consensus_def wit_policy_def refuseBounds_def containsString_def elems_def)
  have v: "validateManifest wit_email_policy (ci_Manifest wit_email_input) = None"
    by (simp add: validateManifest_def wit_email_input_def wit_email_policy_def elems_def)
  have w: "check_window wit_email_lib wit_email_input wit_email_policy = Inr (0, minutes_ns 30)"
    by (simp add: check_window_def wit_email_lib_def wit_plib_def wit_email_policy_def wit_policy_def wit_policy_trims parseDecisionWindow_def)
  have d: "selectedDigest wit_email_lib wit_email_input = Inr wit_dg"
    by (simp add: selectedDigest_def wit_email_input_def wit_consensus_def wit_policy_trims Let_def)
  have s: "check_selection wit_email_lib (ci_Selection wit_email_input) wit_dg wit_dg wit_dg = Inr wit_dg"
    by (simp add: check_selection_def wit_email_input_def wit_consensus_def wit_isSHA256 wit_email_lib_def wit_plib_def wit_sha256_def)
  obtain f where f: "reduce_prefix wit_email_lib wit_pstore wit_email_input = Inr f" "bc_policy (rf_context f) = wit_email_policy"
    unfolding reduce_prefix_def d sum.case g c option.case digests h v s w prod.case Let_def by auto
  have b: "ci_Ballots wit_email_input = []" by (simp add: wit_email_input_def wit_consensus_def)
  have "admissible wit_email_lib (rf_context f) [] \<and> carried (rf_context f) []"
    by (simp add: admissible_def carried_def f(2) wit_email_policy_def elems_def)
  then show ?thesis using reduce_iff [OF f(1)] unfolding b by simp
qed

definition wit_email_request :: "QualifiedConsensusReceipt \<Rightarrow> DispatchRequest" where
  "wit_email_request r = \<lparr>rq_Mode = ''p'', rq_Input = wit_email_input, rq_Receipt = r, rq_Payload = ''hi'', rq_Now = ''n''\<rparr>"

definition wit_key :: string where
  "wit_key = ''outbox:'' @ wit_dg"

lemma wit_cleared: "\<exists>req. dispatch_check wit_email_lib wit_outbox req = Inr wit_key"
proof -
  obtain r where r: "Consensus_Reduce wit_email_lib (Some wit_pstore) wit_email_input = Inr r" using wit_email_reduce by blast
  have v: "Consensus_Verify wit_email_lib (Some wit_pstore) wit_email_input r = None" by (rule issued_verifies(1) [OF r])
  obtain dg policy where p: "Store_Get wit_email_lib wit_pstore dg = Inr policy" "qc_PolicyID r = pl_PolicyID policy"
    using issued_verifies(3) [OF r] by blast
  have "policy = wit_email_policy"
    using p(1) by (auto simp: Store_Get_def ParsePolicy_def wit_email_lib_def split: option.splits if_splits)
  then have i: "qc_PolicyID r = PolicyIDIrreversibleEmailV1" using p(2) by (simp add: wit_email_policy_def)
  have "Irreversible (ci_Subject wit_email_input)" by (simp add: Irreversible_def wit_email_input_def wit_policy_trims)
  then have "dispatch_check wit_email_lib wit_outbox (wit_email_request r) = Inr wit_key"
    using v i by (simp add: dispatch_check_def wit_outbox_def New_Outbox_def wit_email_request_def wit_policy_trims exactSubjectKey_def wit_key_def)
      (simp add: wit_email_lib_def wit_plib_def wit_sha256_def wit_email_input_def)
  then show ?thesis by blast
qed

definition wit_answer :: "string \<Rightarrow> ProviderResult \<times> string option" where
  "wit_answer outcome = (\<lparr>pr_Outcome = outcome, pr_ProviderDeliveryID = ''d'', pr_Err = None\<rparr>, None)"

lemma wit_outbox_ready: "may_send wit_outbox" "ob_consequences wit_outbox = Map.empty" "ob_acceptedOrphan wit_outbox = Map.empty"
    "settled (wit_answer ProviderAccepted) = fst (wit_answer ProviderAccepted)" "pr_Outcome (fst (wit_answer v)) = v"
  by (simp_all add: wit_outbox_def New_Outbox_def may_send_def settled_def wit_answer_def)

lemma wit_two_sends:
  "\<exists>c cons. outbox_reaches wit_email_lib (outbox_start wit_outbox) c \<and> length (oc_log c) = 2
     \<and> ob_consequences (oc_box c) wit_key = Some cons \<and> cr_Greened cons \<and> oc_crashes c = []"
proof -
  obtain req where "dispatch_check wit_email_lib wit_outbox req = Inr wit_key" using wit_cleared by blast
  from two_sends [OF this _ wit_outbox_ready(1), of "wit_answer ProviderAccepted"] show ?thesis by (auto simp: wit_outbox_ready)
qed

theorem outbox_sends_only_cleared_and_greens_only_accepted_witness:
  "\<exists>c cons. outbox_reaches wit_email_lib (outbox_start wit_outbox) c \<and> length (oc_log c) = 2
     \<and> ob_consequences (oc_box c) wit_key = Some cons \<and> cr_Greened cons \<and> provider_accepted c wit_key
     \<and> (\<forall>(i, res) \<in> set (oc_log c). lib_sha wit_email_lib (in_Payload i) = in_PayloadDigest i)"
proof -
  obtain c cons where c: "outbox_reaches wit_email_lib (outbox_start wit_outbox) c" "length (oc_log c) = 2"
      "ob_consequences (oc_box c) wit_key = Some cons" "cr_Greened cons" "oc_crashes c = []" using wit_two_sends by blast
  note p = outbox_sends_only_cleared_and_greens_only_accepted [OF c(1) wit_outbox_ready(2,3)]
  have "provider_accepted c wit_key" using p c(3-5) by (auto simp: hook_accepted_def)
  moreover have "\<forall>(i, res) \<in> set (oc_log c). lib_sha wit_email_lib (in_Payload i) = in_PayloadDigest i" using p by fast
  ultimately show ?thesis using c by blast
qed

theorem reconcile_recovers_nothing_witness:
  "\<exists>c cons. outbox_reaches wit_email_lib (outbox_start wit_outbox) c \<and> cr_Greened cons
     \<and> Reconcile wit_email_lib ''t'' wit_key (oc_box c) = ((cons, None), oc_box c)
     \<and> ob_consequences (oc_box c) wit_key = Some cons"
proof -
  obtain c cons where c: "outbox_reaches wit_email_lib (outbox_start wit_outbox) c" "oc_crashes c = []"
      "ob_consequences (oc_box c) wit_key = Some cons" "cr_Greened cons" using wit_two_sends by blast
  have r: "Reconcile wit_email_lib ''t'' wit_key (oc_box c) = ((cons, None), oc_box c)" using c(3) by (simp add: Reconcile_def)
  show ?thesis using reconcile_recovers_nothing [OF c(1) wit_outbox_ready(2,3) c(2) r c(4)] c(1,4) r by blast
qed

theorem overlapping_dispatches_send_twice_witness:
  "\<exists>req c. outbox_reaches wit_email_lib (outbox_start wit_outbox) c
     \<and> map fst (oc_log c) = [send_intent wit_key req, send_intent wit_key req]"
proof -
  obtain req where "dispatch_check wit_email_lib wit_outbox req = Inr wit_key" using wit_cleared by blast
  then obtain c where "outbox_reaches wit_email_lib (outbox_start wit_outbox) c"
      "oc_log c = [(send_intent wit_key req, settled (wit_answer ProviderAccepted)), (send_intent wit_key req, settled (wit_answer ProviderAccepted))]"
    using overlapping_dispatches_send_twice [of wit_email_lib wit_outbox req wit_key "wit_answer ProviderAccepted"]
    unfolding wit_outbox_ready by (auto simp only: simp_thms wit_outbox_ready)
  then show ?thesis by (intro exI [of _ req] exI [of _ c] conjI) simp_all
qed

theorem sequential_dispatch_sends_once_witness:
  "\<exists>req. dispatch_check wit_email_lib wit_outbox req = Inr wit_key \<and> distinct (map in_IdempotencyKey
     (snd (fold (run_call wit_email_lib ''t'') [DoDispatch req (wit_answer ProviderAccepted), DoDispatch req (wit_answer ProviderRejected)] (wit_outbox, []))))"
proof -
  obtain req where req: "dispatch_check wit_email_lib wit_outbox req = Inr wit_key" using wit_cleared by blast
  have "list_all recognised [DoDispatch req (wit_answer ProviderAccepted), DoDispatch req (wit_answer ProviderRejected)]"
    by (simp add: settled_def wit_answer_def)
  from sequential_dispatch_sends_once [OF this] show ?thesis by (intro exI [of _ req] conjI req)
qed

theorem retry_of_a_rejection_reports_no_error_witness:
  "\<exists>req s cons. Dispatch wit_email_lib ''t'' (\<lambda>n i. (wit_answer ProviderRejected, Suc n)) req s = ((cons, None), s) \<and> snd s = 1"
proof -
  let ?send = "\<lambda>n i. (wit_answer ProviderRejected, Suc n)"
  obtain req where req: "dispatch_check wit_email_lib wit_outbox req = Inr wit_key" using wit_cleared by blast
  have m: "may_send (wit_outbox\<lparr>ob_intents := x\<rparr>)" for x using wit_outbox_ready(1) by (simp add: may_send_def)
  obtain cons ob where d: "Dispatch wit_email_lib ''t'' ?send req (wit_outbox, 0) = ((cons, Some ErrRejected), (ob, 1))"
    using req m by (auto simp: Dispatch_def dispatch_record_def dispatch_settle_def wit_outbox_ready settled_def wit_answer_def Let_def)
  show ?thesis using retry_of_a_rejection_reports_no_error [OF d] by fastforce
qed

end
