(* ===== verification/Selfdev_Mode.thy ===== *)
theory Selfdev_Mode
  imports Receipt_Storage Decision_Policy
begin

text \<open>
  The self-development mode of a computer (\<^verbatim>\<open>src/internal/platform/self_development_modes.go\<close>): what its agents may do to it, kept as
  one row per computer and changed by compare-and-swap on its generation, with a signed receipt. A one-shot mode names the exact
  transition it allows and expires. The table is the state; each statement can fail, and a commit can fail with or
  without having taken effect. \<^verbatim>\<open>Get\<close> reads outside the lock and may itself set an expired mode to off: what other calls do to the
  table in between is an argument. The clock is a sequence of readings in nanoseconds, \<open>ml_column_time\<close> is what a
  \<^verbatim>\<open>DATETIME(6)\<close> column gives back.
\<close>

subsection \<open>Values\<close>

abbreviation ModeOff :: string where "ModeOff \<equiv> ''off''"
abbreviation ModeAuditOnly :: string where "ModeAuditOnly \<equiv> ''audit_only''"
abbreviation ModeProposeOnly :: string where "ModeProposeOnly \<equiv> ''propose_only''"
abbreviation ModeAcceptOnce :: string where "ModeAcceptOnce \<equiv> ''accept_once''"
abbreviation ModeQualifiedConsensus :: string where "ModeQualifiedConsensus \<equiv> ''qualified_consensus''"

record SelfDevelopmentMode =
  sm_ComputerID :: string
  sm_Mode :: string
  sm_Generation :: uint64
  sm_OperationID :: string
  sm_BundleDigest :: string
  sm_ExpectedDesiredEventHead :: string
  sm_ExpectedEffectiveEventHead :: string
  sm_ExpectedPendingTransitionRef :: string
  sm_ExpectedDesiredStateCommitment :: string
  sm_ExpectedEffectiveStateCommitment :: string
  sm_ExpiresAt :: string
  sm_PolicyDigest :: string
  sm_ConsensusReceiptDigest :: string
  sm_Receipt :: "Receipt option"

record SetModeRequest =
  mq_Mode :: string
  mq_ExpectedGeneration :: uint64
  mq_OperationID :: string
  mq_BundleDigest :: string
  mq_ExpectedDesiredEventHead :: string
  mq_ExpectedEffectiveEventHead :: string
  mq_ExpectedPendingTransitionRef :: "string option"
  mq_ExpectedDesiredStateCommitment :: string
  mq_ExpectedEffectiveStateCommitment :: string
  mq_ExpiresAt :: string
  mq_PolicyDigest :: string
  mq_ConsensusReceiptDigest :: string
  mq_IdempotencyKey :: string

text \<open>A row; a \<^verbatim>\<open>NULL\<close> text is read as the empty one.\<close>

record mode_row =
  mr_mode :: string
  mr_generation :: uint64
  mr_operation :: string
  mr_bundle :: string
  mr_desired :: string
  mr_effective :: string
  mr_pending :: string
  mr_desired_state :: string
  mr_effective_state :: string
  mr_expires :: "int option"
  mr_last_key :: string
  mr_last_commitment :: string
  mr_receipt :: json
  mr_receipt_digest :: string

type_synonym mode_table = "string \<rightharpoonup> mode_row"

datatype mode_stmt = ReadMode | BeginMode | ReadModeTx | WriteMode | CountMode | CommitMode | CommitModeLost | CommitModeDolt | RereadMode

datatype mode_error = ModeConflict | ModeIncomplete | ModeForbidden | ModeBindings | ModeExpiry | ModeUnknown | ModeCanon canon_error
  | ModeReadFailed | ModeBeginFailed | ModeDecodeFailed | ModeSigning receipt_error | ModeWriteFailed | ModeCommitFailed | ModeDoltFailed
  | ModeDurableExpiry | ModePersistExpiry mode_error | ModeReconciliation

record mode_lib =
  ml_crypto :: Crypto
  ml_key :: SigningKey
  ml_parse_time :: "string \<Rightarrow> (int \<times> bool) option"
  ml_format_time :: "int \<Rightarrow> string"
  ml_column_time :: "int \<Rightarrow> int"

abbreviation ml_sha :: "mode_lib \<Rightarrow> hashing" where
  "ml_sha lib \<equiv> cr_sha (ml_crypto lib)"

subsection \<open>Operations\<close>

definition NewSelfDevelopmentModeCAS :: "SigningKey \<Rightarrow> bool" where
  "NewSelfDevelopmentModeCAS key \<longleftrightarrow> SignerDomain (sk_Ref key) = ''platform-control'' \<and> KeyID (sk_Ref key) \<noteq> [] \<and> PrivateKey key \<noteq> []"

definition mode_request_json :: "string \<Rightarrow> SetModeRequest \<Rightarrow> json" where
  "mode_request_json computerID q = members_json [(''computer_id'', str computerID), (''mode'', str (mq_Mode q)),
     (''expected_generation'', always (JUint (mq_ExpectedGeneration q))), (''operation_id'', omit_str (mq_OperationID q)),
     (''bundle_digest'', omit_str (mq_BundleDigest q)), (''expected_desired_event_head'', omit_str (mq_ExpectedDesiredEventHead q)),
     (''expected_effective_event_head'', omit_str (mq_ExpectedEffectiveEventHead q)),
     (''expected_pending_transition_ref'', map_option JStr (mq_ExpectedPendingTransitionRef q)),
     (''expected_desired_state_commitment'', omit_str (mq_ExpectedDesiredStateCommitment q)),
     (''expected_effective_state_commitment'', omit_str (mq_ExpectedEffectiveStateCommitment q)),
     (''expires_at'', omit_str (mq_ExpiresAt q)), (''policy_digest'', omit_str (mq_PolicyDigest q)),
     (''consensus_receipt_digest'', omit_str (mq_ConsensusReceiptDigest q)), (''idempotency_key'', str (mq_IdempotencyKey q))]"

definition selfDevelopmentModeRequestCommitment :: "mode_lib \<Rightarrow> string \<Rightarrow> SetModeRequest \<Rightarrow> mode_error + string" where
  "selfDevelopmentModeRequestCommitment lib computerID q =
     (case appendCanonical (mode_request_json computerID q) of Inl e \<Rightarrow> Inl (ModeCanon e) | Inr body \<Rightarrow> Inr (ml_sha lib body))"

definition plain_mode :: "string \<Rightarrow> string \<Rightarrow> SelfDevelopmentMode" where
  "plain_mode computerID mode = \<lparr>sm_ComputerID = computerID, sm_Mode = mode, sm_Generation = 0, sm_OperationID = [], sm_BundleDigest = [],
     sm_ExpectedDesiredEventHead = [], sm_ExpectedEffectiveEventHead = [], sm_ExpectedPendingTransitionRef = [],
     sm_ExpectedDesiredStateCommitment = [], sm_ExpectedEffectiveStateCommitment = [], sm_ExpiresAt = [], sm_PolicyDigest = [],
     sm_ConsensusReceiptDigest = [], sm_Receipt = None\<rparr>"

definition receipt_field :: "Receipt \<Rightarrow> string \<Rightarrow> string" where
  "receipt_field r name = (case map_of (KindFields r) name of Some (DStr s) \<Rightarrow> s | _ \<Rightarrow> [])"

definition hydrateSelfDevelopmentModeBindings :: "SelfDevelopmentMode \<Rightarrow> SelfDevelopmentMode" where
  "hydrateSelfDevelopmentModeBindings m =
     (case sm_Receipt m of None \<Rightarrow> m
      | Some r \<Rightarrow>
        let m = (if sm_PolicyDigest m = [] then m\<lparr>sm_PolicyDigest := receipt_field r ''policy_digest''\<rparr> else m) in
        if sm_ConsensusReceiptDigest m = [] then m\<lparr>sm_ConsensusReceiptDigest := receipt_field r ''consensus_receipt_digest''\<rparr> else m)"

definition row_mode :: "mode_lib \<Rightarrow> string \<Rightarrow> mode_row \<Rightarrow> Receipt \<Rightarrow> SelfDevelopmentMode" where
  "row_mode lib computerID row r = \<lparr>sm_ComputerID = computerID, sm_Mode = mr_mode row, sm_Generation = mr_generation row,
     sm_OperationID = mr_operation row, sm_BundleDigest = mr_bundle row, sm_ExpectedDesiredEventHead = mr_desired row,
     sm_ExpectedEffectiveEventHead = mr_effective row, sm_ExpectedPendingTransitionRef = mr_pending row,
     sm_ExpectedDesiredStateCommitment = mr_desired_state row, sm_ExpectedEffectiveStateCommitment = mr_effective_state row,
     sm_ExpiresAt = (case mr_expires row of None \<Rightarrow> [] | Some e \<Rightarrow> ml_format_time lib e), sm_PolicyDigest = [],
     sm_ConsensusReceiptDigest = [], sm_Receipt = Some r\<rparr>"

definition readSelfDevelopmentMode :: "mode_lib \<Rightarrow> bool \<Rightarrow> mode_table \<Rightarrow> string \<Rightarrow> mode_error + SelfDevelopmentMode option" where
  "readSelfDevelopmentMode lib ok t computerID =
     (if \<not> ok then Inl ModeReadFailed
      else case t computerID of None \<Rightarrow> Inr None
      | Some row \<Rightarrow> (case Receipt_UnmarshalJSON (mr_receipt row) of Inl _ \<Rightarrow> Inl ModeDecodeFailed
         | Inr r \<Rightarrow> Inr (Some (hydrateSelfDevelopmentModeBindings (row_mode lib computerID row r)))))"

definition exact_bindings :: "SetModeRequest \<Rightarrow> bool" where
  "exact_bindings q \<longleftrightarrow> mq_ExpectedPendingTransitionRef q \<noteq> None \<and> trimSpace (mq_OperationID q) \<noteq> []
     \<and> list_all isSHA256 [mq_BundleDigest q, mq_ExpectedDesiredEventHead q, mq_ExpectedEffectiveEventHead q,
          mq_ExpectedDesiredStateCommitment q, mq_ExpectedEffectiveStateCommitment q]"

definition future_expiry :: "mode_lib \<Rightarrow> string \<Rightarrow> int \<Rightarrow> int option" where
  "future_expiry lib text now =
     (case ml_parse_time lib text of None \<Rightarrow> None
      | Some (e, utc) \<Rightarrow> if \<not> utc \<or> ml_format_time lib e \<noteq> text \<or> \<not> now < e then None else Some e)"

definition bound_mode :: "SelfDevelopmentMode \<Rightarrow> SetModeRequest \<Rightarrow> SelfDevelopmentMode" where
  "bound_mode m q = m\<lparr>sm_OperationID := mq_OperationID q, sm_BundleDigest := mq_BundleDigest q,
     sm_ExpectedDesiredEventHead := mq_ExpectedDesiredEventHead q, sm_ExpectedEffectiveEventHead := mq_ExpectedEffectiveEventHead q,
     sm_ExpectedPendingTransitionRef := (case mq_ExpectedPendingTransitionRef q of None \<Rightarrow> [] | Some s \<Rightarrow> trimSpace s),
     sm_ExpectedDesiredStateCommitment := mq_ExpectedDesiredStateCommitment q,
     sm_ExpectedEffectiveStateCommitment := mq_ExpectedEffectiveStateCommitment q, sm_ExpiresAt := mq_ExpiresAt q\<rparr>"

definition validateSelfDevelopmentModeTransition ::
  "mode_lib \<Rightarrow> SelfDevelopmentMode \<Rightarrow> SetModeRequest \<Rightarrow> int \<Rightarrow> mode_error + (SelfDevelopmentMode \<times> int option)" where
  "validateSelfDevelopmentModeTransition lib current q now =
     (let nxt = plain_mode (sm_ComputerID current) (mq_Mode q) in
      if mq_Mode q \<in> {ModeOff, ModeAuditOnly, ModeProposeOnly} then
        (if mq_ExpectedPendingTransitionRef q \<noteq> None then Inl ModeForbidden
         else if list_ex (\<lambda>v. trimSpace v \<noteq> []) [mq_OperationID q, mq_BundleDigest q, mq_ExpectedDesiredEventHead q,
             mq_ExpectedEffectiveEventHead q, mq_ExpectedDesiredStateCommitment q, mq_ExpectedEffectiveStateCommitment q, mq_ExpiresAt q]
         then Inl ModeForbidden
         else if trimSpace (mq_PolicyDigest q) \<noteq> [] \<or> trimSpace (mq_ConsensusReceiptDigest q) \<noteq> [] then Inl ModeForbidden
         else Inr (nxt, None))
      else if mq_Mode q = ModeAcceptOnce then
        (if trimSpace (mq_PolicyDigest q) \<noteq> [] \<or> trimSpace (mq_ConsensusReceiptDigest q) \<noteq> [] then Inl ModeForbidden
         else if \<not> exact_bindings q then Inl ModeBindings
         else case future_expiry lib (mq_ExpiresAt q) now of None \<Rightarrow> Inl ModeExpiry
         | Some e \<Rightarrow> Inr (bound_mode nxt q, Some e))
      else if mq_Mode q = ModeQualifiedConsensus then
        (if \<not> exact_bindings q \<or> \<not> isSHA256 (mq_PolicyDigest q) \<or> \<not> isSHA256 (mq_ConsensusReceiptDigest q) then Inl ModeBindings
         else case future_expiry lib (mq_ExpiresAt q) now of None \<Rightarrow> Inl ModeExpiry
         | Some e \<Rightarrow> Inr ((bound_mode nxt q)\<lparr>sm_PolicyDigest := mq_PolicyDigest q, sm_ConsensusReceiptDigest := mq_ConsensusReceiptDigest q\<rparr>, Some e))
      else Inl ModeUnknown)"

definition mode_fields :: "SelfDevelopmentMode \<Rightarrow> SelfDevelopmentMode \<Rightarrow> string \<Rightarrow> string \<Rightarrow> (string \<times> dyn) list" where
  "mode_fields cur nxt key commitment = [
     (''computer_id'', DStr (sm_ComputerID nxt)), (''old_mode'', DStr (sm_Mode cur)), (''new_mode'', DStr (sm_Mode nxt)),
     (''old_generation'', DUint (sm_Generation cur)), (''committed_generation'', DUint (sm_Generation nxt)),
     (''operation_id'', DStr (sm_OperationID nxt)), (''base_event_head'', DStr (sm_ExpectedDesiredEventHead nxt)),
     (''expected_desired_event_head'', DStr (sm_ExpectedDesiredEventHead nxt)),
     (''expected_effective_event_head'', DStr (sm_ExpectedEffectiveEventHead nxt)),
     (''expected_pending_transition_ref'', DStr (sm_ExpectedPendingTransitionRef nxt)),
     (''expected_desired_state_commitment'', DStr (sm_ExpectedDesiredStateCommitment nxt)),
     (''expected_effective_state_commitment'', DStr (sm_ExpectedEffectiveStateCommitment nxt)),
     (''bundle_digest'', DStr (sm_BundleDigest nxt)), (''expires_at'', DStr (sm_ExpiresAt nxt)),
     (''policy_digest'', DStr (sm_PolicyDigest nxt)), (''consensus_receipt_digest'', DStr (sm_ConsensusReceiptDigest nxt)),
     (''consumed_operation_id'', DStr (sm_OperationID cur)), (''consumed_bundle_digest'', DStr (sm_BundleDigest cur)),
     (''consumed_desired_event_head'', DStr (sm_ExpectedDesiredEventHead cur)),
     (''consumed_effective_event_head'', DStr (sm_ExpectedEffectiveEventHead cur)),
     (''consumed_pending_transition_ref'', DStr (sm_ExpectedPendingTransitionRef cur)), (''consumed_expires_at'', DStr (sm_ExpiresAt cur)),
     (''consumed_desired_state_commitment'', DStr (sm_ExpectedDesiredStateCommitment cur)),
     (''consumed_effective_state_commitment'', DStr (sm_ExpectedEffectiveStateCommitment cur)),
     (''consumed_policy_digest'', DStr (sm_PolicyDigest cur)), (''consumed_consensus_receipt_digest'', DStr (sm_ConsensusReceiptDigest cur)),
     (''idempotency_key'', DStr key), (''request_commitment'', DStr commitment)]"

definition mode_row_of :: "mode_lib \<Rightarrow> SelfDevelopmentMode \<Rightarrow> int option \<Rightarrow> string \<Rightarrow> string \<Rightarrow> json \<Rightarrow> string \<Rightarrow> mode_row" where
  "mode_row_of lib nxt expiry key commitment doc body = \<lparr>mr_mode = sm_Mode nxt, mr_generation = sm_Generation nxt, mr_operation = sm_OperationID nxt,
     mr_bundle = sm_BundleDigest nxt, mr_desired = sm_ExpectedDesiredEventHead nxt, mr_effective = sm_ExpectedEffectiveEventHead nxt,
     mr_pending = sm_ExpectedPendingTransitionRef nxt, mr_desired_state = sm_ExpectedDesiredStateCommitment nxt,
     mr_effective_state = sm_ExpectedEffectiveStateCommitment nxt, mr_expires = map_option (ml_column_time lib) expiry,
     mr_last_key = key, mr_last_commitment = commitment, mr_receipt = doc, mr_receipt_digest = ml_sha lib body\<rparr>"

text \<open>The transaction up to the commit: the stored answer of a repeated request, or the new mode and the table to commit. An update whose
  affected rows cannot be counted is reported as a conflict; the row read for update cannot be missed.\<close>

definition set_transaction :: "mode_lib \<Rightarrow> (mode_stmt \<Rightarrow> bool) \<Rightarrow> string \<Rightarrow> (nat \<Rightarrow> int) \<Rightarrow> mode_table \<Rightarrow> string \<Rightarrow> SetModeRequest \<Rightarrow> string
    \<Rightarrow> mode_error + (SelfDevelopmentMode \<times> mode_table option)" where
  "set_transaction lib ok uuid clock t computerID q commitment =
     (case readSelfDevelopmentMode lib (ok ReadModeTx) t computerID of Inl e \<Rightarrow> Inl e
      | Inr found \<Rightarrow>
        let repeated = (case found of None \<Rightarrow> None | Some m \<Rightarrow> (case sm_Receipt m of None \<Rightarrow> None | Some r \<Rightarrow>
              if map_of (KindFields r) ''idempotency_key'' = Some (DStr (mq_IdempotencyKey q)) then Some (m, r) else None)) in
        (case repeated of Some (m, r) \<Rightarrow>
            if map_of (KindFields r) ''request_commitment'' \<noteq> Some (DStr commitment) then Inl ModeConflict else Inr (m, None)
         | None \<Rightarrow>
          let cur = (case found of None \<Rightarrow> plain_mode computerID ModeOff | Some m \<Rightarrow> m) in
          if sm_Generation cur \<noteq> mq_ExpectedGeneration q then Inl ModeConflict
          else case validateSelfDevelopmentModeTransition lib cur q (clock 0) of Inl e \<Rightarrow> Inl e
          | Inr (nxt, expiry) \<Rightarrow>
            let nxt = nxt\<lparr>sm_Generation := sm_Generation cur + 1\<rparr>; now = clock 1 - clock 1 mod 1000 in
            (case NewSignedReceipt (ml_crypto lib) uuid ''ModeReceipt'' ''corpusd'' (mode_fields cur nxt (mq_IdempotencyKey q) commitment)
                 [ml_key lib] (ml_format_time lib now) of Inl e \<Rightarrow> Inl (ModeSigning e)
             | Inr receipt \<Rightarrow> (case Receipt_values True receipt of Inl e \<Rightarrow> Inl (ModeSigning e)
             | Inr doc \<Rightarrow> (case Receipt_CanonicalBytes receipt of Inl e \<Rightarrow> Inl (ModeSigning e)
             | Inr body \<Rightarrow>
               if \<not> ok WriteMode then Inl ModeWriteFailed
               else if found \<noteq> None \<and> \<not> ok CountMode then Inl ModeConflict
               else Inr (nxt\<lparr>sm_Receipt := Some receipt\<rparr>,
                 Some (t(computerID \<mapsto> mode_row_of lib nxt expiry (mq_IdempotencyKey q) commitment doc body))))))))"

definition Set_Mode :: "mode_lib \<Rightarrow> (mode_stmt \<Rightarrow> bool) \<Rightarrow> string \<Rightarrow> (nat \<Rightarrow> int) \<Rightarrow> mode_table \<Rightarrow> string \<Rightarrow> SetModeRequest
    \<Rightarrow> (mode_error + SelfDevelopmentMode) \<times> mode_table" where
  "Set_Mode lib ok uuid clock t computerID q =
     (let computerID = trimSpace computerID;
          q = q\<lparr>mq_Mode := trimSpace (mq_Mode q), mq_IdempotencyKey := trimSpace (mq_IdempotencyKey q)\<rparr> in
      if computerID = [] \<or> mq_IdempotencyKey q = [] then (Inl ModeIncomplete, t)
      else case selfDevelopmentModeRequestCommitment lib computerID q of Inl e \<Rightarrow> (Inl e, t)
      | Inr commitment \<Rightarrow>
        if \<not> ok BeginMode then (Inl ModeBeginFailed, t)
        else case set_transaction lib ok uuid clock t computerID q commitment of Inl e \<Rightarrow> (Inl e, t)
        | Inr (m, None) \<Rightarrow> (Inr m, t)
        | Inr (m, Some t') \<Rightarrow>
          if \<not> ok CommitMode then (Inl ModeCommitFailed, t)
          else if \<not> ok CommitModeLost then (Inl ModeCommitFailed, t')
          else if \<not> ok CommitModeDolt then (Inl ModeDoltFailed, t')
          else (Inr m, t'))"

definition one_shot :: "string \<Rightarrow> bool" where
  "one_shot mode \<longleftrightarrow> mode = ModeAcceptOnce \<or> mode = ModeQualifiedConsensus"

definition expiry_request :: "string \<Rightarrow> uint64 \<Rightarrow> SetModeRequest" where
  "expiry_request computerID g = \<lparr>mq_Mode = ModeOff, mq_ExpectedGeneration = g, mq_OperationID = [], mq_BundleDigest = [],
     mq_ExpectedDesiredEventHead = [], mq_ExpectedEffectiveEventHead = [], mq_ExpectedPendingTransitionRef = None,
     mq_ExpectedDesiredStateCommitment = [], mq_ExpectedEffectiveStateCommitment = [], mq_ExpiresAt = [], mq_PolicyDigest = [],
     mq_ConsensusReceiptDigest = [], mq_IdempotencyKey = ''selfdev-mode-expiry-v1:'' @ computerID @ '':'' @ digits (unat g)\<rparr>"

definition Get_Mode :: "mode_lib \<Rightarrow> (mode_stmt \<Rightarrow> bool) \<Rightarrow> string \<Rightarrow> (nat \<Rightarrow> int) \<Rightarrow> (mode_table \<Rightarrow> mode_table) \<Rightarrow> (mode_table \<Rightarrow> mode_table)
    \<Rightarrow> mode_table \<Rightarrow> string \<Rightarrow> (mode_error + SelfDevelopmentMode) \<times> mode_table" where
  "Get_Mode lib ok uuid clock before between t computerID =
     (let computerID = trimSpace computerID in
      if computerID = [] then (Inl ModeIncomplete, t)
      else case readSelfDevelopmentMode lib (ok ReadMode) t computerID of Inl e \<Rightarrow> (Inl e, t)
      | Inr None \<Rightarrow> (Inr (plain_mode computerID ModeOff), t)
      | Inr (Some m) \<Rightarrow>
        let mode = hydrateSelfDevelopmentModeBindings m in
        if \<not> one_shot (sm_Mode mode) then (Inr mode, t)
        else case ml_parse_time lib (sm_ExpiresAt mode) of None \<Rightarrow> (Inl ModeDurableExpiry, t)
        | Some (e, _) \<Rightarrow>
          if clock 0 < e then (Inr mode, t)
          else case Set_Mode lib ok uuid (\<lambda>i. clock (i + 1)) (before t) computerID (expiry_request computerID (sm_Generation mode)) of
            (Inr expired, t1) \<Rightarrow> (Inr expired, t1)
          | (Inl err, t1) \<Rightarrow>
            if err \<noteq> ModeConflict then (Inl (ModePersistExpiry err), t1)
            else let t2 = between t1 in
              (case readSelfDevelopmentMode lib (ok RereadMode) t2 computerID of Inl e \<Rightarrow> (Inl e, t2)
               | Inr None \<Rightarrow> (Inr (plain_mode computerID ModeOff), t2)
               | Inr (Some current) \<Rightarrow>
                 if one_shot (sm_Mode current) then
                   (case ml_parse_time lib (sm_ExpiresAt current) of None \<Rightarrow> (Inl ModeReconciliation, t2)
                    | Some (e, _) \<Rightarrow> if \<not> clock 3 < e then (Inl ModeReconciliation, t2) else (Inr current, t2))
                 else (Inr current, t2)))"

subsection \<open>What a call does\<close>

lemma printable_mode_request [simp]: "printable (mode_request_json c q)"
  unfolding mode_request_json_def printable_members by (auto simp: member_defs)

lemma commitment_eq [simp]: "selfDevelopmentModeRequestCommitment lib c q = Inr (ml_sha lib (canon (mode_request_json c q)))"
  by (simp add: selfDevelopmentModeRequestCommitment_def appendCanonical_ok canon_def)

lemma hydrate_simps [simp]:
  "sm_Mode (hydrateSelfDevelopmentModeBindings m) = sm_Mode m" "sm_Generation (hydrateSelfDevelopmentModeBindings m) = sm_Generation m"
  "sm_ExpiresAt (hydrateSelfDevelopmentModeBindings m) = sm_ExpiresAt m" "sm_Receipt (hydrateSelfDevelopmentModeBindings m) = sm_Receipt m"
  "sm_ComputerID (hydrateSelfDevelopmentModeBindings m) = sm_ComputerID m" "sm_OperationID (hydrateSelfDevelopmentModeBindings m) = sm_OperationID m"
  by (simp_all add: hydrateSelfDevelopmentModeBindings_def Let_def split: option.splits)

lemma row_mode_simps [simp]:
  "sm_Mode (row_mode lib c row r) = mr_mode row" "sm_Generation (row_mode lib c row r) = mr_generation row"
  "sm_Receipt (row_mode lib c row r) = Some r" "sm_ComputerID (row_mode lib c row r) = c" "sm_OperationID (row_mode lib c row r) = mr_operation row"
  by (simp_all add: row_mode_def)

lemma read_Inr:
  assumes "readSelfDevelopmentMode lib ok t c = Inr found"
  shows "case found of None \<Rightarrow> t c = None
    | Some m \<Rightarrow> \<exists>row r. t c = Some row \<and> Receipt_UnmarshalJSON (mr_receipt row) = Inr r \<and> m = hydrateSelfDevelopmentModeBindings (row_mode lib c row r)"
  using assms by (auto simp: readSelfDevelopmentMode_def split: if_splits option.splits sum.splits)

definition row_generation :: "mode_table \<Rightarrow> string \<Rightarrow> uint64" where
  "row_generation t c = (case t c of None \<Rightarrow> 0 | Some row \<Rightarrow> mr_generation row)"

definition trimmed_request :: "SetModeRequest \<Rightarrow> SetModeRequest" where
  "trimmed_request q = q\<lparr>mq_Mode := trimSpace (mq_Mode q), mq_IdempotencyKey := trimSpace (mq_IdempotencyKey q)\<rparr>"

text \<open>A row as a call writes it: the request, the mode it asked for, and the receipt issued for it.\<close>

definition writes :: "mode_lib \<Rightarrow> string \<Rightarrow> string \<Rightarrow> SetModeRequest \<Rightarrow> uint64 \<Rightarrow> mode_row \<Rightarrow> bool" where
  "writes lib uuid c q g row \<longleftrightarrow> (\<exists>cur nxt expiry now at receipt doc body commitment.
     validateSelfDevelopmentModeTransition lib cur q now = Inr (nxt, expiry) \<and> sm_ComputerID cur = c
     \<and> commitment = ml_sha lib (canon (mode_request_json c q))
     \<and> NewSignedReceipt (ml_crypto lib) uuid ''ModeReceipt'' ''corpusd'' (mode_fields cur (nxt\<lparr>sm_Generation := g + 1\<rparr>) (mq_IdempotencyKey q) commitment)
          [ml_key lib] (ml_format_time lib at) = Inr receipt
     \<and> Receipt_values True receipt = Inr doc
     \<and> row = mode_row_of lib (nxt\<lparr>sm_Generation := g + 1\<rparr>) expiry (mq_IdempotencyKey q) commitment doc body)"

lemma transaction_writes:
  assumes "set_transaction lib ok uuid clock t c q (ml_sha lib (canon (mode_request_json c q))) = Inr (m, Some t')"
  shows "\<exists>row. t' = t(c \<mapsto> row) \<and> writes lib uuid c q (row_generation t c) row \<and> mq_ExpectedGeneration q = row_generation t c
    \<and> sm_Generation m = row_generation t c + 1"
proof -
  obtain found where f: "readSelfDevelopmentMode lib (ok ReadModeTx) t c = Inr found"
    using assms by (auto simp: set_transaction_def split: sum.splits)
  define cur where "cur = (case found of None \<Rightarrow> plain_mode c ModeOff | Some m \<Rightarrow> m)"
  have g: "sm_Generation cur = row_generation t c" "sm_ComputerID cur = c"
    using read_Inr [OF f] by (auto simp: cur_def row_generation_def plain_mode_def split: option.splits)
  have "\<exists>nxt expiry receipt doc body. validateSelfDevelopmentModeTransition lib cur q (clock 0) = Inr (nxt, expiry)
      \<and> sm_Generation cur = mq_ExpectedGeneration q
      \<and> NewSignedReceipt (ml_crypto lib) uuid ''ModeReceipt'' ''corpusd'' (mode_fields cur (nxt\<lparr>sm_Generation := sm_Generation cur + 1\<rparr>)
          (mq_IdempotencyKey q) (ml_sha lib (canon (mode_request_json c q)))) [ml_key lib] (ml_format_time lib (clock 1 - clock 1 mod 1000)) = Inr receipt
      \<and> Receipt_values True receipt = Inr doc \<and> m = nxt\<lparr>sm_Generation := sm_Generation cur + 1, sm_Receipt := Some receipt\<rparr>
      \<and> t' = t(c \<mapsto> mode_row_of lib (nxt\<lparr>sm_Generation := sm_Generation cur + 1\<rparr>) expiry (mq_IdempotencyKey q)
          (ml_sha lib (canon (mode_request_json c q))) doc body)"
    using assms unfolding set_transaction_def f sum.case Let_def cur_def [symmetric]
    by (auto split: option.splits sum.splits prod.splits if_splits)
  then show ?thesis unfolding writes_def g using g(2) by fastforce
qed

lemma set_effect:
  assumes "Set_Mode lib ok uuid clock t c q = (res, t')"
  shows "t' = t \<or> (\<exists>row. t' = t(trimSpace c \<mapsto> row) \<and> writes lib uuid (trimSpace c) (trimmed_request q) (row_generation t (trimSpace c)) row
      \<and> mq_ExpectedGeneration q = row_generation t (trimSpace c)
      \<and> (\<forall>m. res = Inr m \<longrightarrow> sm_Generation m = row_generation t (trimSpace c) + 1))"
proof (cases "t' = t")
  case False
  then obtain m where "set_transaction lib ok uuid clock t (trimSpace c) (trimmed_request q)
      (ml_sha lib (canon (mode_request_json (trimSpace c) (trimmed_request q)))) = Inr (m, Some t')" "res = Inr m \<or> (\<exists>e. res = Inl e)"
    using assms unfolding Set_Mode_def Let_def trimmed_request_def [symmetric]
    by (auto split: sum.splits option.splits prod.splits if_splits)
  then show ?thesis using transaction_writes by (fastforce simp: trimmed_request_def)
qed simp

text \<open>What is relied on of texts: digests, signatures and printed times are valid text, and the signing key is complete.\<close>

definition mode_env_ok :: "mode_lib \<Rightarrow> bool" where
  "mode_env_ok lib \<longleftrightarrow> crypto_text_ok (ml_crypto lib) \<and> key_ok (ml_key lib) \<and> (\<forall>e. ValidString (ml_format_time lib e))"

definition bound_row :: "mode_row \<Rightarrow> bool" where
  "bound_row row \<longleftrightarrow> (if one_shot (mr_mode row)
     then list_all isSHA256 [mr_bundle row, mr_desired row, mr_effective row, mr_desired_state row, mr_effective_state row]
       \<and> trimSpace (mr_operation row) \<noteq> [] \<and> mr_expires row \<noteq> None
     else mr_mode row \<in> {ModeOff, ModeAuditOnly, ModeProposeOnly} \<and> mr_expires row = None
       \<and> list_all (\<lambda>s. s = []) [mr_operation row, mr_bundle row, mr_desired row, mr_effective row, mr_pending row, mr_desired_state row, mr_effective_state row])"

lemma validate_Inr:
  assumes "validateSelfDevelopmentModeTransition lib cur q now = Inr (nxt, expiry)"
  shows "sm_Mode nxt = mq_Mode q" "sm_ComputerID nxt = sm_ComputerID cur" "one_shot (mq_Mode q) \<longleftrightarrow> expiry \<noteq> None"
    "mq_Mode q \<in> {ModeOff, ModeAuditOnly, ModeProposeOnly, ModeAcceptOnce, ModeQualifiedConsensus}"
    "\<not> one_shot (mq_Mode q) \<Longrightarrow> nxt = plain_mode (sm_ComputerID cur) (mq_Mode q)"
    "one_shot (mq_Mode q) \<Longrightarrow> exact_bindings q \<and> (\<exists>e. expiry = Some e \<and> now < e) \<and> sm_OperationID nxt = mq_OperationID q \<and> sm_BundleDigest nxt = mq_BundleDigest q
       \<and> sm_ExpectedDesiredEventHead nxt = mq_ExpectedDesiredEventHead q \<and> sm_ExpectedEffectiveEventHead nxt = mq_ExpectedEffectiveEventHead q
       \<and> sm_ExpectedDesiredStateCommitment nxt = mq_ExpectedDesiredStateCommitment q
       \<and> sm_ExpectedEffectiveStateCommitment nxt = mq_ExpectedEffectiveStateCommitment q"
  using assms unfolding validateSelfDevelopmentModeTransition_def Let_def one_shot_def
  by (auto simp: plain_mode_def bound_mode_def future_expiry_def split: if_splits option.splits prod.splits)

lemma writes_bound: "writes lib uuid c q g row \<Longrightarrow> bound_row row \<and> mr_mode row = mq_Mode q \<and> mr_generation row = g + 1"
proof -
  assume "writes lib uuid c q g row"
  then obtain cur nxt expiry now doc body commitment where v: "validateSelfDevelopmentModeTransition lib cur q now = Inr (nxt, expiry)"
    and r: "row = mode_row_of lib (nxt\<lparr>sm_Generation := g + 1\<rparr>) expiry (mq_IdempotencyKey q) commitment doc body"
    unfolding writes_def by blast
  note w = validate_Inr [OF v]
  show ?thesis
  proof (cases "one_shot (mq_Mode q)")
    case True
    then show ?thesis using w(1,3) w(6) [OF True] unfolding r by (simp add: bound_row_def mode_row_of_def exact_bindings_def)
  next
    case False
    then show ?thesis using w(3,4) w(5) [OF False] unfolding r
      by (auto simp: bound_row_def mode_row_of_def plain_mode_def one_shot_def)
  qed
qed

lemma writes_receipt:
  assumes "writes lib uuid c q g row" "mode_env_ok lib" "ValidString uuid"
  shows "\<exists>r. Receipt_UnmarshalJSON (mr_receipt row) = Inr r
    \<and> map_of (KindFields r) ''request_commitment'' = Some (DStr (ml_sha lib (canon (mode_request_json c q))))
    \<and> map_of (KindFields r) ''idempotency_key'' = Some (DStr (coerceUTF8 (mq_IdempotencyKey q)))"
proof -
  obtain cur nxt expiry now at receipt doc body commitment where
    n: "NewSignedReceipt (ml_crypto lib) uuid ''ModeReceipt'' ''corpusd'' (mode_fields cur nxt (mq_IdempotencyKey q) commitment)
          [ml_key lib] (ml_format_time lib at) = Inr receipt"
    and d: "Receipt_values True receipt = Inr doc" and r: "mr_receipt row = doc" and c: "commitment = ml_sha lib (canon (mode_request_json c q))"
    using assms(1) unfolding writes_def by (force simp: mode_row_of_def)
  have valid: "ValidString ''ModeReceipt''" "ValidString ''corpusd''" by (simp_all add: ascii_valid)
  have "receipt_text_ok receipt"
    using NewSignedReceipt_Inr [OF n] assms(2,3) valid
    by (auto simp: receipt_text_ok_def mode_env_ok_def crypto_text_ok_def hashes_def key_ok_def signer_text_ok_def)
  then have u: "Receipt_UnmarshalJSON doc = Inr (stored_form receipt)" by (rule decode_stored [OF d])
  have s: "isSHA256 commitment" using assms(2) unfolding c by (simp add: mode_env_ok_def crypto_text_ok_def hashes_def)
  have kf: "KindFields receipt = mode_fields cur nxt (mq_IdempotencyKey q) commitment" using NewSignedReceipt_Inr [OF n] by blast
  have "map_of (KindFields (stored_form receipt)) ''request_commitment'' = Some (DStr commitment)"
    "map_of (KindFields (stored_form receipt)) ''idempotency_key'' = Some (DStr (coerceUTF8 (mq_IdempotencyKey q)))"
    using s by (simp_all add: stored_form_def map_of_stored kf mode_fields_def JStr_def coerce_valid)
  then show ?thesis using u r c by auto
qed

subsection \<open>Reachable tables\<close>

record mode_call =
  mc_ok :: "mode_stmt \<Rightarrow> bool"
  mc_uuid :: string
  mc_clock :: "nat \<Rightarrow> int"
  mc_computer :: string
  mc_request :: SetModeRequest

definition mode_call :: "mode_lib \<Rightarrow> mode_table \<Rightarrow> mode_call \<Rightarrow> mode_table" where
  "mode_call lib t k = snd (Set_Mode lib (mc_ok k) (mc_uuid k) (mc_clock k) t (mc_computer k) (mc_request k))"

text \<open>How often the calls of a run changed the row of a computer.\<close>

fun changes :: "mode_lib \<Rightarrow> mode_table \<Rightarrow> mode_call list \<Rightarrow> string \<Rightarrow> nat" where
  "changes lib t [] c = 0"
| "changes lib t (k # ks) c = (if mode_call lib t k c = t c then 0 else 1) + changes lib (mode_call lib t k) ks c"

lemma call_row:
  "mode_call lib t k c = t c \<or> (c = trimSpace (mc_computer k) \<and> (\<exists>row. mode_call lib t k c = Some row
     \<and> writes lib (mc_uuid k) c (trimmed_request (mc_request k)) (row_generation t c) row
     \<and> mq_ExpectedGeneration (mc_request k) = row_generation t c))"
proof -
  obtain res t' where s: "Set_Mode lib (mc_ok k) (mc_uuid k) (mc_clock k) t (mc_computer k) (mc_request k) = (res, t')"
    by (cases "Set_Mode lib (mc_ok k) (mc_uuid k) (mc_clock k) t (mc_computer k) (mc_request k)")
  have e: "mode_call lib t k = t'" by (simp add: mode_call_def s)
  show ?thesis using set_effect [OF s] unfolding e by (auto split: if_splits)
qed

lemma call_generation: "row_generation (mode_call lib t k) c = row_generation t c + (if mode_call lib t k c = t c then 0 else 1)"
  using call_row [of lib t k c] writes_bound by (auto simp: row_generation_def)

lemma run_generation: "row_generation (foldl (mode_call lib) t ks) c = row_generation t c + of_nat (changes lib t ks c)"
  by (induction ks arbitrary: t) (simp_all add: call_generation)

definition rows_bound :: "mode_table \<Rightarrow> bool" where
  "rows_bound t \<longleftrightarrow> (\<forall>c row. t c = Some row \<longrightarrow> bound_row row)"

lemma call_bound: "rows_bound t \<Longrightarrow> rows_bound (mode_call lib t k)"
  unfolding rows_bound_def
proof (intro allI impI)
  fix c row assume t: "\<forall>c row. t c = Some row \<longrightarrow> bound_row row" "mode_call lib t k c = Some row"
  show "bound_row row" using call_row [of lib t k c] t writes_bound by (metis option.inject)
qed

lemma run_bound: "rows_bound t \<Longrightarrow> rows_bound (foldl (mode_call lib) t ks)"
  by (induction ks arbitrary: t) (simp_all add: call_bound)

text \<open>C26: whatever calls are made and whatever fails, the generation of a computer counts the changes of its mode, each change
  having named the generation it replaced; a stored one-shot mode names an operation, a bundle, both heads, both
  commitments and an expiry, and any other mode binds nothing.\<close>

theorem mode_generation_counts_changes:
  "row_generation (foldl (mode_call lib) Map.empty ks) c = of_nat (changes lib Map.empty ks c)
    \<and> (\<forall>row. foldl (mode_call lib) Map.empty ks c = Some row \<longrightarrow> bound_row row)
    \<and> (mode_call lib (foldl (mode_call lib) Map.empty ks) k c \<noteq> foldl (mode_call lib) Map.empty ks c
        \<longrightarrow> mq_ExpectedGeneration (mc_request k) = of_nat (changes lib Map.empty ks c))"
proof -
  have g: "row_generation (foldl (mode_call lib) Map.empty ks) c = of_nat (changes lib Map.empty ks c)"
    unfolding run_generation by (simp add: row_generation_def)
  have "rows_bound (foldl (mode_call lib) Map.empty ks)" by (rule run_bound) (simp add: rows_bound_def)
  then show ?thesis using g call_row [of lib "foldl (mode_call lib) Map.empty ks" k c] by (auto simp: rows_bound_def)
qed

subsection \<open>Requests and their commitments\<close>

lemma members_keys: "distinct (map fst ms) \<Longrightarrow> distinct (map fst (concat (map (\<lambda>(k, v). case v of None \<Rightarrow> [] | Some j \<Rightarrow> [(k, j)]) ms)))"
proof (induction ms)
  case (Cons m ms)
  let ?rest = "concat (map (\<lambda>(k, v). case v of None \<Rightarrow> [] | Some j \<Rightarrow> [(k, j)]) ms)"
  obtain k v where m: "m = (k, v)" by (cases m)
  have "set (map fst ?rest) \<subseteq> set (map fst ms)" by (force split: option.splits)
  moreover have "k \<notin> set (map fst ms)" using Cons.prems m by simp
  ultimately have "k \<notin> set (map fst ?rest)" by blast
  moreover have "distinct (map fst ?rest)" using Cons by simp
  ultimately show ?case unfolding m by (cases v) (simp_all del: set_map)
qed simp

lemma keys_ok_members:
  assumes "distinct (map fst ms)" "list_all (\<lambda>(k, v). \<forall>j. v = Some j \<longrightarrow> map_keys_ok j) ms"
  shows "map_keys_ok (members_json ms)"
  using members_keys [OF assms(1)] assms(2) by (auto simp: members_json_def list_all_iff split: option.splits)

lemma keys_ok_mode_request: "map_keys_ok (mode_request_json c q)"
  unfolding mode_request_json_def by (rule keys_ok_members) (auto simp: member_defs)

lemma request_text_mode:
  assumes "canon (mode_request_json c q) = canon (mode_request_json d q')"
  shows "coerceUTF8 (mq_Mode q) = coerceUTF8 (mq_Mode q')"
proof -
  have "same_value (mode_request_json c q) (mode_request_json d q')"
    using canonical_bytes_eq [OF keys_ok_mode_request keys_ok_mode_request appendCanonical_ok [OF printable_mode_request] appendCanonical_ok [OF printable_mode_request], of c q d q']
      assms by (simp add: canon_def)
  then show ?thesis by (simp add: mode_request_json_def members_json_def member_defs)
qed

definition mode_inv :: "mode_lib \<Rightarrow> SetModeRequest set \<Rightarrow> mode_table \<Rightarrow> bool" where
  "mode_inv lib Q t \<longleftrightarrow> (\<forall>c row. t c = Some row \<longrightarrow> (\<exists>uuid q g. ValidString uuid \<and> q \<in> Q \<and> writes lib uuid c q g row))"

definition requests :: "mode_call list \<Rightarrow> SetModeRequest set" where
  "requests ks = (\<lambda>k. trimmed_request (mc_request k)) ` set ks"

lemma call_inv: "mode_inv lib Q t \<Longrightarrow> ValidString (mc_uuid k) \<Longrightarrow> trimmed_request (mc_request k) \<in> Q \<Longrightarrow> mode_inv lib Q (mode_call lib t k)"
  unfolding mode_inv_def
proof (intro allI impI)
  fix c row
  assume h: "\<forall>c row. t c = Some row \<longrightarrow> (\<exists>uuid q g. ValidString uuid \<and> q \<in> Q \<and> writes lib uuid c q g row)" "ValidString (mc_uuid k)"
    "trimmed_request (mc_request k) \<in> Q" "mode_call lib t k c = Some row"
  show "\<exists>uuid q g. ValidString uuid \<and> q \<in> Q \<and> writes lib uuid c q g row"
    using call_row [of lib t k c] h by (metis option.inject)
qed

lemma mode_run_inv: "mode_inv lib Q t \<Longrightarrow> list_all (\<lambda>k. ValidString (mc_uuid k)) ks \<Longrightarrow> requests ks \<subseteq> Q \<Longrightarrow> mode_inv lib Q (foldl (mode_call lib) t ks)"
  by (induction ks arbitrary: t) (simp_all add: call_inv requests_def)

lemma writes_mode: "writes lib uuid c q g row \<Longrightarrow> mq_Mode q \<in> {ModeOff, ModeAuditOnly, ModeProposeOnly, ModeAcceptOnce, ModeQualifiedConsensus}"
  unfolding writes_def using validate_Inr(4) by blast

lemma coerce_mode: "m \<in> {ModeOff, ModeAuditOnly, ModeProposeOnly, ModeAcceptOnce, ModeQualifiedConsensus} \<Longrightarrow> coerceUTF8 m = m"
  by (rule coerce_valid) (auto simp: ascii_valid)

text \<open>A call answered from the table found its own request there, unless two requests have the same digest.\<close>

lemma replayed_request:
  assumes "set_transaction lib ok uuid clock t c q (ml_sha lib (canon (mode_request_json c q))) = Inr (m, None)" "mode_inv lib Q t" "mode_env_ok lib"
  shows "\<exists>q0 \<in> Q. sm_Mode m = mq_Mode q0 \<and> coerceUTF8 (mq_Mode q0) = mq_Mode q0 \<and> ml_sha lib (canon (mode_request_json c q0)) = ml_sha lib (canon (mode_request_json c q))"
proof -
  obtain m' r where f: "readSelfDevelopmentMode lib (ok ReadModeTx) t c = Inr (Some m')" and r: "sm_Receipt m' = Some r" and m: "m = m'"
    and k: "map_of (KindFields r) ''request_commitment'' = Some (DStr (ml_sha lib (canon (mode_request_json c q))))"
    using assms(1) unfolding set_transaction_def Let_def by (auto split: sum.splits option.splits if_splits prod.splits)
  obtain row r' where row: "t c = Some row" "Receipt_UnmarshalJSON (mr_receipt row) = Inr r'" "m' = hydrateSelfDevelopmentModeBindings (row_mode lib c row r')"
    using read_Inr [OF f] by auto
  have r': "r' = r" using r row(3) by simp
  obtain u q0 g where w: "ValidString u" "writes lib u c q0 g row" "q0 \<in> Q" using assms(2) row(1) unfolding mode_inv_def by blast
  have "ml_sha lib (canon (mode_request_json c q0)) = ml_sha lib (canon (mode_request_json c q))"
    using writes_receipt [OF w(2) assms(3) w(1)] row(2) k r' by auto
  moreover have "sm_Mode m = mq_Mode q0" using row(3) m writes_bound [OF w(2)] by simp
  ultimately show ?thesis using coerce_mode [OF writes_mode [OF w(2)]] w(3) by blast
qed

text \<open>No request made so far has the digest of the request that ends an expired mode, without being it.\<close>

definition expiry_digest_free :: "mode_lib \<Rightarrow> string \<Rightarrow> SetModeRequest set \<Rightarrow> bool" where
  "expiry_digest_free lib c Q \<longleftrightarrow> (\<forall>q \<in> Q. \<forall>g. let e = trimmed_request (expiry_request c g) in
     ml_sha lib (canon (mode_request_json c q)) = ml_sha lib (canon (mode_request_json c e)) \<longrightarrow> canon (mode_request_json c q) = canon (mode_request_json c e))"

lemma expiry_off: "mq_Mode (trimmed_request (expiry_request c g)) = ModeOff"
proof -
  have "trimSpace ModeOff = ModeOff" by code_simp
  then show ?thesis by (simp add: trimmed_request_def expiry_request_def)
qed

lemma expiry_sets_off:
  assumes "Set_Mode lib ok uuid clock t c (expiry_request c g) = (Inr m, t')" "mode_inv lib Q t" "mode_env_ok lib" "expiry_digest_free lib c Q"
    "trimSpace c = c"
  shows "sm_Mode m = ModeOff"
proof -
  let ?q = "trimmed_request (expiry_request c g)"
  obtain tt where s: "set_transaction lib ok uuid clock t c ?q (ml_sha lib (canon (mode_request_json c ?q))) = Inr (m, tt)"
    using assms(1,5) unfolding Set_Mode_def Let_def trimmed_request_def [symmetric] by (auto split: sum.splits option.splits prod.splits if_splits)
  show ?thesis
  proof (cases tt)
    case None
    obtain q0 where q0: "q0 \<in> Q" "sm_Mode m = mq_Mode q0" "coerceUTF8 (mq_Mode q0) = mq_Mode q0"
        "ml_sha lib (canon (mode_request_json c q0)) = ml_sha lib (canon (mode_request_json c ?q))"
      using replayed_request [OF s [unfolded None] assms(2,3)] by blast
    then have "canon (mode_request_json c q0) = canon (mode_request_json c ?q)" using assms(4) unfolding expiry_digest_free_def Let_def by blast
    then have "coerceUTF8 (mq_Mode q0) = coerceUTF8 (mq_Mode ?q)" by (rule request_text_mode)
    then show ?thesis using q0(2,3) coerce_mode [of ModeOff] expiry_off by simp
  next
    case (Some t1)
    have "sm_Mode m = mq_Mode ?q"
      using s [unfolded Some] unfolding set_transaction_def Let_def
      by (auto split: sum.splits option.splits if_splits prod.splits dest: validate_Inr(1))
    then show ?thesis by (simp add: expiry_off)
  qed
qed

text \<open>C27: an expired one-shot mode is never served. Whatever calls were made before, and whatever other calls do between the steps of a
  \<^verbatim>\<open>Get\<close>, a one-shot mode that \<^verbatim>\<open>Get\<close> returns had not expired at a reading of the clock during the call, provided that
  no request of those calls has the digest of an expiry request.\<close>

theorem expired_mode_never_served:
  assumes "mode_env_ok lib" "list_all (\<lambda>k. ValidString (mc_uuid k)) (ks0 @ ks1)" "expiry_digest_free lib (trimSpace c) (requests (ks0 @ ks1))"
    "Get_Mode lib ok uuid clock (\<lambda>t. foldl (mode_call lib) t ks1) between (foldl (mode_call lib) Map.empty ks0) c = (Inr m, t')"
    "one_shot (sm_Mode m)"
  shows "\<exists>e u i. ml_parse_time lib (sm_ExpiresAt m) = Some (e, u) \<and> i \<le> 3 \<and> clock i < e"
proof -
  have "mode_inv lib (requests (ks0 @ ks1)) Map.empty" by (simp add: mode_inv_def)
  then have inv: "mode_inv lib (requests (ks0 @ ks1)) (foldl (mode_call lib) (foldl (mode_call lib) Map.empty ks0) ks1)"
    using assms(2) by (intro mode_run_inv) (auto simp: requests_def)
  have no: "\<not> one_shot ModeOff" by (simp add: one_shot_def)
  have "sm_Mode m \<noteq> ModeOff" using assms(5) no by auto
  then have n: "Set_Mode lib ok uuid (\<lambda>i. clock (i + 1)) (foldl (mode_call lib) (foldl (mode_call lib) Map.empty ks0) ks1) (trimSpace c)
      (expiry_request (trimSpace c) g) \<noteq> (Inr m, t1)" for g t1
    using expiry_sets_off [OF _ inv assms(1,3)] by auto
  have "(\<exists>e u. ml_parse_time lib (sm_ExpiresAt m) = Some (e, u) \<and> clock 0 < e) \<or> (\<exists>e u. ml_parse_time lib (sm_ExpiresAt m) = Some (e, u) \<and> clock 3 < e)"
    using assms(4,5) no n unfolding Get_Mode_def Let_def
    by (auto simp: plain_mode_def split: if_splits sum.splits option.splits prod.splits)
  then show ?thesis by (metis le0 order_refl)
qed

text \<open>C28: a change of mode can be retried. If a call changed the table, whether it answered or failed after its commit, the same request
  repeated directly returns the stored mode with the generation the first call gave it, and changes nothing.\<close>

theorem mode_change_can_be_retried:
  assumes "mode_env_ok lib" "ValidString uuid" "ValidString (trimSpace (mq_IdempotencyKey q))"
    "Set_Mode lib ok uuid clock t c q = (res, t')" "t' \<noteq> t" "ok' BeginMode" "ok' ReadModeTx"
  shows "\<exists>m. Set_Mode lib ok' uuid' clock' t' c q = (Inr m, t') \<and> sm_Mode m = trimSpace (mq_Mode q)
    \<and> sm_Generation m = mq_ExpectedGeneration q + 1 \<and> (\<forall>m0. res = Inr m0 \<longrightarrow> sm_Generation m0 = sm_Generation m)"
proof -
  let ?c = "trimSpace c" and ?q = "trimmed_request q"
  obtain row where t': "t' = t(?c \<mapsto> row)" and w: "writes lib uuid ?c ?q (row_generation t ?c) row"
      and g: "mq_ExpectedGeneration q = row_generation t ?c" "\<forall>m. res = Inr m \<longrightarrow> sm_Generation m = row_generation t ?c + 1"
    using set_effect [OF assms(4)] assms(5) by blast
  obtain r where r: "Receipt_UnmarshalJSON (mr_receipt row) = Inr r"
      "map_of (KindFields r) ''request_commitment'' = Some (DStr (ml_sha lib (canon (mode_request_json ?c ?q))))"
      "map_of (KindFields r) ''idempotency_key'' = Some (DStr (coerceUTF8 (mq_IdempotencyKey ?q)))"
    using writes_receipt [OF w assms(1,2)] by blast
  have k: "coerceUTF8 (mq_IdempotencyKey ?q) = mq_IdempotencyKey ?q" using assms(3) by (simp add: trimmed_request_def coerce_valid)
  have n: "?c \<noteq> [] \<and> mq_IdempotencyKey ?q \<noteq> []"
    using assms(4,5) unfolding Set_Mode_def Let_def trimmed_request_def [symmetric] by (auto split: if_splits)
  let ?m = "hydrateSelfDevelopmentModeBindings (row_mode lib ?c row r)"
  have read: "readSelfDevelopmentMode lib (ok' ReadModeTx) t' ?c = Inr (Some ?m)"
    using assms(7) r(1) by (simp add: readSelfDevelopmentMode_def t')
  have "set_transaction lib ok' uuid' clock' t' ?c ?q (ml_sha lib (canon (mode_request_json ?c ?q))) = Inr (?m, None)"
    unfolding set_transaction_def read using r(2,3) k by simp
  then have "Set_Mode lib ok' uuid' clock' t' c q = (Inr ?m, t')"
    unfolding Set_Mode_def Let_def trimmed_request_def [symmetric] using n assms(6) by simp
  moreover have "sm_Mode ?m = trimSpace (mq_Mode q)" "sm_Generation ?m = mq_ExpectedGeneration q + 1"
    using writes_bound [OF w] g(1) by (simp_all add: trimmed_request_def)
  ultimately show ?thesis using g by (intro exI [of _ ?m]) simp
qed

subsection \<open>Witnesses\<close>

lemma mode_receipt_issues:
  assumes "key_ok key"
  shows "\<exists>r doc body. NewSignedReceipt cr uuid ''ModeReceipt'' ''corpusd'' (mode_fields cur nxt k com) [key] at = Inr r
    \<and> Receipt_values True r = Inr doc \<and> Receipt_CanonicalBytes r = Inr body"
proof -
  have none: "find (\<lambda>n. n \<in> fst ` set (mode_fields cur nxt k com)) reserved_fields = None"
    by (simp add: find_None_iff reserved_fields_def mode_fields_def)
  have p: "list_all (\<lambda>(k, v). ValidString k \<and> printable v) (map (\<lambda>(k, v). (k, dyn_json v)) (mode_fields cur nxt k com))"
    by (simp add: mode_fields_def ascii_valid)
  have s: "printable (signer_json x)" "printable (signature_json y)" for x y
    by (simp_all add: signer_json_def signature_json_def printable_struct ascii_valid)
  have j: "\<exists>j. Receipt_values att r = Inr j \<and> printable j" if "KindFields r = mode_fields cur nxt k com" for att r
    using none p that by (auto simp: Receipt_values_def s ascii_valid list_all_iff)
  then have b: "\<exists>body. canonical_values att r = Inr body" if "KindFields r = mode_fields cur nxt k com" for att r
    using j [OF that, of att] appendCanonical_ok by (fastforce simp: canonical_values_def simp del: appendCanonical.simps)
  have f: "find (\<lambda>i. length (PrivateKey ([key] ! i)) \<noteq> 64 \<or> SignerDomain (sk_Ref ([key] ! i)) = [] \<or> KeyID (sk_Ref ([key] ! i)) = []) [0..<length [key]] = None"
    using assms by (simp add: find_None_iff key_ok_def)
  let ?r0 = "\<lparr>ReceiptVersion = 1, ReceiptKind = ''ModeReceipt'', ReceiptID = uuid, Issuer = ''corpusd'', IssuedAt = at,
      RequiredSigners = map sk_Ref [key], CanonicalPayloadSHA256 = [], SignatureSet = [], KindFields = mode_fields cur nxt k com\<rparr>"
  obtain payload where "canonicalPayload ?r0 = Inr payload" using b [of ?r0 False] by auto
  then have "\<exists>r. NewSignedReceipt cr uuid ''ModeReceipt'' ''corpusd'' (mode_fields cur nxt k com) [key] at = Inr r"
    unfolding NewSignedReceipt_def Let_def f option.case by simp
  then obtain r where r: "NewSignedReceipt cr uuid ''ModeReceipt'' ''corpusd'' (mode_fields cur nxt k com) [key] at = Inr r" by blast
  have "KindFields r = mode_fields cur nxt k com" using NewSignedReceipt_Inr [OF r] by blast
  then show ?thesis using r j b unfolding Receipt_CanonicalBytes_def by blast
qed

definition wit_mode_request :: SetModeRequest where
  "wit_mode_request = \<lparr>mq_Mode = ModeAcceptOnce, mq_ExpectedGeneration = 0, mq_OperationID = ''p'', mq_BundleDigest = wit_dg,
     mq_ExpectedDesiredEventHead = wit_dg, mq_ExpectedEffectiveEventHead = wit_dg, mq_ExpectedPendingTransitionRef = Some [],
     mq_ExpectedDesiredStateCommitment = wit_dg, mq_ExpectedEffectiveStateCommitment = wit_dg, mq_ExpiresAt = ''t'', mq_PolicyDigest = [],
     mq_ConsensusReceiptDigest = [], mq_IdempotencyKey = ''x''\<rparr>"

definition wit_mode_lib :: mode_lib where
  "wit_mode_lib = \<lparr>ml_crypto = wit_scheme_text\<lparr>cr_sha := (\<lambda>b. if b = canon (mode_request_json ''c'' wit_mode_request) then wit_dg else replicate 64 (CHR ''b''))\<rparr>,
     ml_key = \<lparr>sk_Ref = \<lparr>SignerDomain = ''platform-control'', KeyID = ''k''\<rparr>, PrivateKey = wit_dg\<rparr>,
     ml_parse_time = (\<lambda>_. Some (5, True)), ml_format_time = (\<lambda>_. ''t''), ml_column_time = (\<lambda>e. e)\<rparr>"

definition wit_mode_call :: mode_call where
  "wit_mode_call = \<lparr>mc_ok = (\<lambda>_. True), mc_uuid = ''u'', mc_clock = (\<lambda>_. 0), mc_computer = ''c'', mc_request = wit_mode_request\<rparr>"

lemma wit_mode_env: "mode_env_ok wit_mode_lib" "key_ok (ml_key wit_mode_lib)" "ValidString ''u''" "ValidString ''x''"
proof -
  have "isSHA256 (replicate 64 (CHR ''b''))" by (simp add: isSHA256_def list_all_iff isLowerHex_def less_eq_char_def)
  then have "crypto_text_ok (ml_crypto wit_mode_lib)"
    using wit_scheme_text_ok(2) wit_isSHA256 by (auto simp: crypto_text_ok_def hashes_def wit_mode_lib_def)
  moreover show "key_ok (ml_key wit_mode_lib)" by (simp add: key_ok_def wit_mode_lib_def ascii_valid)
  ultimately show "mode_env_ok wit_mode_lib" by (simp add: mode_env_ok_def wit_mode_lib_def ascii_valid)
  show "ValidString ''u''" "ValidString ''x''" by (simp_all add: ascii_valid)
qed

lemma wit_trimmed_request: "trimmed_request wit_mode_request = wit_mode_request" "trimSpace ModeAcceptOnce = ModeAcceptOnce"
proof -
  show "trimSpace ModeAcceptOnce = ModeAcceptOnce" by code_simp
  then show "trimmed_request wit_mode_request = wit_mode_request" by (simp add: trimmed_request_def wit_mode_request_def wit_policy_trims)
qed

lemma wit_mode_set:
  "\<exists>m row. Set_Mode wit_mode_lib (\<lambda>_. True) ''u'' (\<lambda>_. 0) Map.empty ''c'' wit_mode_request = (Inr m, [''c'' \<mapsto> row])"
proof -
  let ?cur = "plain_mode ''c'' ModeOff" and ?q = wit_mode_request
  have x: "exact_bindings ?q" by (simp add: exact_bindings_def wit_mode_request_def wit_policy_trims wit_isSHA256)
  have v: "validateSelfDevelopmentModeTransition wit_mode_lib ?cur ?q 0 = Inr (bound_mode (plain_mode ''c'' ModeAcceptOnce) ?q, Some 5)"
    using x unfolding validateSelfDevelopmentModeTransition_def Let_def
    by (simp add: wit_mode_request_def future_expiry_def wit_mode_lib_def plain_mode_def)
  let ?n = "(bound_mode (plain_mode ''c'' ModeAcceptOnce) ?q)\<lparr>sm_Generation := sm_Generation ?cur + 1\<rparr>"
  obtain r doc body where r: "NewSignedReceipt (ml_crypto wit_mode_lib) ''u'' ''ModeReceipt'' ''corpusd''
      (mode_fields ?cur ?n (mq_IdempotencyKey ?q) (ml_sha wit_mode_lib (canon (mode_request_json ''c'' ?q)))) [ml_key wit_mode_lib] (ml_format_time wit_mode_lib 0) = Inr r"
      "Receipt_values True r = Inr doc" "Receipt_CanonicalBytes r = Inr body"
    using mode_receipt_issues [OF wit_mode_env(2)] by blast
  have g: "sm_Generation ?cur = mq_ExpectedGeneration ?q" by (simp add: plain_mode_def wit_mode_request_def)
  have "set_transaction wit_mode_lib (\<lambda>_. True) ''u'' (\<lambda>_. 0) Map.empty ''c'' ?q (ml_sha wit_mode_lib (canon (mode_request_json ''c'' ?q)))
      = Inr (?n\<lparr>sm_Receipt := Some r\<rparr>, Some [''c'' \<mapsto> mode_row_of wit_mode_lib ?n (Some 5) (mq_IdempotencyKey ?q)
          (ml_sha wit_mode_lib (canon (mode_request_json ''c'' ?q))) doc body])"
    unfolding set_transaction_def readSelfDevelopmentMode_def using g v r by (simp add: Let_def)
  then show ?thesis
    unfolding Set_Mode_def Let_def trimmed_request_def [symmetric] wit_trimmed_request wit_policy_trims commitment_eq
    by (auto simp: wit_mode_request_def [THEN arg_cong, of mq_IdempotencyKey])
qed

lemma wit_mode_row:
  "\<exists>row r. foldl (mode_call wit_mode_lib) Map.empty [wit_mode_call] = [''c'' \<mapsto> row] \<and> mr_mode row = ModeAcceptOnce \<and> mr_generation row = 1
     \<and> Receipt_UnmarshalJSON (mr_receipt row) = Inr r"
proof -
  obtain m row where s: "Set_Mode wit_mode_lib (\<lambda>_. True) ''u'' (\<lambda>_. 0) Map.empty ''c'' wit_mode_request = (Inr m, [''c'' \<mapsto> row])"
    using wit_mode_set by blast
  have e: "[''c'' \<mapsto> row] \<noteq> Map.empty" by simp
  then have w: "writes wit_mode_lib ''u'' ''c'' wit_mode_request 0 row"
    using set_effect [OF s] unfolding wit_policy_trims wit_trimmed_request by (auto simp: row_generation_def fun_eq_iff split: if_splits)
  have "foldl (mode_call wit_mode_lib) Map.empty [wit_mode_call] = [''c'' \<mapsto> row]" using s by (simp add: mode_call_def wit_mode_call_def)
  moreover have "mr_mode row = ModeAcceptOnce" "mr_generation row = 1" using writes_bound [OF w] by (simp_all add: wit_mode_request_def)
  ultimately show ?thesis using writes_receipt [OF w wit_mode_env(1,3)] by blast
qed

theorem mode_generation_counts_changes_witness:
  "changes wit_mode_lib Map.empty [wit_mode_call] ''c'' = 1 \<and> row_generation (foldl (mode_call wit_mode_lib) Map.empty [wit_mode_call]) ''c'' = 1"
proof -
  obtain row where r: "foldl (mode_call wit_mode_lib) Map.empty [wit_mode_call] = [''c'' \<mapsto> row]" using wit_mode_row by blast
  then have c: "changes wit_mode_lib Map.empty [wit_mode_call] ''c'' = 1" by simp
  then show ?thesis using mode_generation_counts_changes [of wit_mode_lib "[wit_mode_call]" "''c''"] by simp
qed

theorem mode_change_can_be_retried_witness:
  "\<exists>m m' t. Set_Mode wit_mode_lib (\<lambda>_. True) ''u'' (\<lambda>_. 0) Map.empty ''c'' wit_mode_request = (Inr m, t)
     \<and> Set_Mode wit_mode_lib (\<lambda>_. True) ''w'' (\<lambda>_. 9) t ''c'' wit_mode_request = (Inr m', t) \<and> sm_Generation m' = 1"
proof -
  obtain m row where s: "Set_Mode wit_mode_lib (\<lambda>_. True) ''u'' (\<lambda>_. 0) Map.empty ''c'' wit_mode_request = (Inr m, [''c'' \<mapsto> row])"
    using wit_mode_set by blast
  have k: "ValidString (trimSpace (mq_IdempotencyKey wit_mode_request))" using wit_mode_env(4) by (simp add: wit_mode_request_def wit_policy_trims)
  have "\<exists>m'. Set_Mode wit_mode_lib (\<lambda>_. True) ''w'' (\<lambda>_. 9) [''c'' \<mapsto> row] ''c'' wit_mode_request = (Inr m', [''c'' \<mapsto> row])
      \<and> sm_Mode m' = trimSpace (mq_Mode wit_mode_request) \<and> sm_Generation m' = mq_ExpectedGeneration wit_mode_request + 1
      \<and> (\<forall>m0. (Inr m :: mode_error + SelfDevelopmentMode) = Inr m0 \<longrightarrow> sm_Generation m0 = sm_Generation m')"
    by (rule mode_change_can_be_retried [OF wit_mode_env(1,3) k s]) simp_all
  then obtain m' where "Set_Mode wit_mode_lib (\<lambda>_. True) ''w'' (\<lambda>_. 9) [''c'' \<mapsto> row] ''c'' wit_mode_request = (Inr m', [''c'' \<mapsto> row])"
      "sm_Generation m' = mq_ExpectedGeneration wit_mode_request + 1" by blast
  then show ?thesis using s by (intro exI [of _ m] exI [of _ m'] exI [of _ "[''c'' \<mapsto> row]"]) (simp add: wit_mode_request_def)
qed

lemma wit_digest_free: "expiry_digest_free wit_mode_lib ''c'' (requests [wit_mode_call])"
proof -
  have "canon (mode_request_json ''c'' (trimmed_request (expiry_request ''c'' g))) \<noteq> canon (mode_request_json ''c'' wit_mode_request)" for g
  proof
    assume "canon (mode_request_json ''c'' (trimmed_request (expiry_request ''c'' g))) = canon (mode_request_json ''c'' wit_mode_request)"
    from request_text_mode [OF this [symmetric]] show False
      unfolding expiry_off by (simp add: wit_mode_request_def coerce_mode)
  qed
  then show ?thesis
    by (auto simp: expiry_digest_free_def requests_def wit_mode_call_def wit_trimmed_request Let_def wit_mode_lib_def split: if_splits)
qed

theorem expired_mode_never_served_witness:
  "\<exists>m t e u i. Get_Mode wit_mode_lib (\<lambda>_. True) ''u'' (\<lambda>_. 0) (\<lambda>t. t) (\<lambda>t. t) (foldl (mode_call wit_mode_lib) Map.empty [wit_mode_call]) ''c'' = (Inr m, t)
     \<and> one_shot (sm_Mode m) \<and> ml_parse_time wit_mode_lib (sm_ExpiresAt m) = Some (e, u) \<and> i \<le> (3 :: nat) \<and> 0 < e"
proof -
  obtain row r where r: "foldl (mode_call wit_mode_lib) Map.empty [wit_mode_call] = [''c'' \<mapsto> row]" "mr_mode row = ModeAcceptOnce"
      "Receipt_UnmarshalJSON (mr_receipt row) = Inr r" using wit_mode_row by blast
  let ?h = "hydrateSelfDevelopmentModeBindings" and ?t = "[''c'' \<mapsto> row]"
  let ?m = "?h (?h (row_mode wit_mode_lib ''c'' row r))"
  have o: "one_shot (sm_Mode ?m)" using r(2) by (simp add: one_shot_def)
  have p: "ml_parse_time wit_mode_lib x = Some (5, True)" for x by (simp add: wit_mode_lib_def)
  have rd: "readSelfDevelopmentMode wit_mode_lib True ?t ''c'' = Inr (Some (?h (row_mode wit_mode_lib ''c'' row r)))"
    using r(3) by (simp add: readSelfDevelopmentMode_def)
  have "Get_Mode wit_mode_lib (\<lambda>_. True) ''u'' (\<lambda>_. 0) (\<lambda>t. t) (\<lambda>t. t) ?t ''c'' = (Inr ?m, ?t)"
    unfolding Get_Mode_def Let_def wit_policy_trims rd p using o by simp
  then have g: "Get_Mode wit_mode_lib (\<lambda>_. True) ''u'' (\<lambda>_. 0) (\<lambda>t. foldl (mode_call wit_mode_lib) t []) (\<lambda>t. t)
      (foldl (mode_call wit_mode_lib) Map.empty [wit_mode_call]) ''c'' = (Inr ?m, ?t)" unfolding r(1) by simp
  have u: "list_all (\<lambda>k. ValidString (mc_uuid k)) ([wit_mode_call] @ [])" using wit_mode_env(3) by (simp add: wit_mode_call_def)
  have f: "expiry_digest_free wit_mode_lib (trimSpace ''c'') (requests ([wit_mode_call] @ []))" using wit_digest_free by (simp add: wit_policy_trims)
  have "\<exists>e u i. ml_parse_time wit_mode_lib (sm_ExpiresAt ?m) = Some (e, u) \<and> i \<le> (3 :: nat) \<and> 0 < e"
    using expired_mode_never_served [OF wit_mode_env(1) u f g o] .
  then show ?thesis using g o by (intro exI [of _ ?m] exI [of _ ?t]) simp
qed

end
