(* ===== verification/Control_Keys.thy ===== *)
theory Control_Keys
  imports Receipt_Storage
begin

text \<open>
  The history of control keys (\<^verbatim>\<open>src/internal/platform/control_keys.go\<close>) and the resolver the platform verifies receipts with
  (\<^verbatim>\<open>event_runtime.go\<close>). A row binds a signer domain, a computer (or none) and a key identifier to a public key, moves from pending
  to active to revoked, and carries the cutoffs from which the key is not valid any more. The table is the state. Each statement can fail;
  an autocommitted write can fail with or without effect. \<open>kl_column_time\<close> is what a \<^verbatim>\<open>DATETIME(6)\<close> column gives back, \<open>kl_time\<close>
  the instant of the text of a receipt's time, in nanoseconds.
\<close>

subsection \<open>Values\<close>

abbreviation KeyPending :: string where "KeyPending \<equiv> ''pending''"
abbreviation KeyActive :: string where "KeyActive \<equiv> ''active''"
abbreviation KeyRevoked :: string where "KeyRevoked \<equiv> ''revoked''"

record ControlKey =
  ck_SignerDomain :: string
  ck_ComputerID :: string
  ck_KeyID :: string
  ck_PublicKey :: string
  ck_Status :: string
  ck_ActivationSequence :: "uint64 option"
  ck_ActivationTime :: "int option"
  ck_FirstInvalidSequence :: "uint64 option"
  ck_FirstInvalidTime :: "int option"
  ck_ReplacementKeyID :: string
  ck_AuthorizingReceipt :: Receipt

text \<open>A row beside its primary key; a \<^verbatim>\<open>NULL\<close> replacement is read as the empty text.\<close>

record key_row =
  kr_public_key :: string
  kr_status :: string
  kr_activation_sequence :: "uint64 option"
  kr_activation_time :: "int option"
  kr_invalid_sequence :: "uint64 option"
  kr_invalid_time :: "int option"
  kr_replacement :: string
  kr_receipt :: json
  kr_receipt_digest :: string

type_synonym key_name = "string \<times> string \<times> string"
type_synonym key_table = "key_name \<rightharpoonup> key_row"

datatype key_stmt = ReadKey | ReadGlobalKey | WriteKey | WriteKeyLost | CountKey | CommitKeyDolt

datatype key_error = KeyNotFound | InvalidKey | InvalidKeyStatus | KeyReceipt receipt_error | KeyReceiptMissing | KeyWriteFailed | KeyDoltFailed
  | ActivationIncomplete | ActivationConflict | RevocationIncomplete | RevocationConflict | KeyReadFailed | KeyScanFailed | CorruptPublicKey
  | KeyDecodeFailed | KeyNotActive | PredatesSequence | PredatesTime | InvalidAtSequence | InvalidAtTime

record key_lib =
  kl_sha :: hashing
  kl_time :: "string \<Rightarrow> int"
  kl_column_time :: "int \<Rightarrow> int"

text \<open>The zero time of Go, the first of January of year 1, in nanoseconds of the Unix epoch.\<close>

definition zero_time :: int where
  "zero_time = - 62135596800 * 1000000000"

subsection \<open>The history\<close>

definition key_insert_row :: "key_lib \<Rightarrow> ControlKey \<Rightarrow> json \<Rightarrow> string \<Rightarrow> key_row" where
  "key_insert_row lib key doc body = \<lparr>kr_public_key = ck_PublicKey key, kr_status = ck_Status key,
     kr_activation_sequence = ck_ActivationSequence key, kr_activation_time = map_option (kl_column_time lib) (ck_ActivationTime key),
     kr_invalid_sequence = ck_FirstInvalidSequence key, kr_invalid_time = map_option (kl_column_time lib) (ck_FirstInvalidTime key),
     kr_replacement = ck_ReplacementKeyID key, kr_receipt = doc, kr_receipt_digest = kl_sha lib body\<rparr>"

definition insertControlKey :: "key_lib \<Rightarrow> (key_stmt \<Rightarrow> bool) \<Rightarrow> key_table \<Rightarrow> ControlKey \<Rightarrow> key_error option \<times> key_table" where
  "insertControlKey lib ok t key =
     (if ck_SignerDomain key = [] \<or> ck_KeyID key = [] \<or> length (ck_PublicKey key) \<noteq> 32 then (Some InvalidKey, t)
      else if ck_Status key \<noteq> KeyPending \<and> ck_Status key \<noteq> KeyActive \<and> ck_Status key \<noteq> KeyRevoked then (Some InvalidKeyStatus, t)
      else case Receipt_values True (ck_AuthorizingReceipt key) of Inl e \<Rightarrow> (Some (KeyReceipt e), t)
      | Inr doc \<Rightarrow> (case Receipt_CanonicalBytes (ck_AuthorizingReceipt key) of Inl e \<Rightarrow> (Some (KeyReceipt e), t)
      | Inr body \<Rightarrow>
        if ReceiptID (ck_AuthorizingReceipt key) = [] then (Some KeyReceiptMissing, t)
        else let name = (ck_SignerDomain key, ck_ComputerID key, ck_KeyID key); t' = t(name \<mapsto> key_insert_row lib key doc body) in
          if \<not> ok WriteKey \<or> t name \<noteq> None then (Some KeyWriteFailed, t)
          else if \<not> ok WriteKeyLost then (Some KeyWriteFailed, t')
          else if \<not> ok CommitKeyDolt then (Some KeyDoltFailed, t')
          else (None, t')))"

text \<open>An update guarded by the status of the row: what the statement changes, what \<^verbatim>\<open>RowsAffected\<close> says and the commit that follows.\<close>

definition guarded_update :: "(key_stmt \<Rightarrow> bool) \<Rightarrow> key_error \<Rightarrow> string \<Rightarrow> (key_row \<Rightarrow> key_row) \<Rightarrow> key_table \<Rightarrow> key_name
    \<Rightarrow> key_error option \<times> key_table" where
  "guarded_update ok conflict status change t name =
     (let hit = (case t name of Some row \<Rightarrow> if kr_status row = status then Some row else None | None \<Rightarrow> None);
          t' = (case hit of Some row \<Rightarrow> t(name \<mapsto> change row) | None \<Rightarrow> t) in
      if \<not> ok WriteKey then (Some KeyWriteFailed, t)
      else if \<not> ok WriteKeyLost then (Some KeyWriteFailed, t')
      else if \<not> ok CountKey \<or> hit = None then (Some conflict, t')
      else if \<not> ok CommitKeyDolt then (Some KeyDoltFailed, t')
      else (None, t'))"

definition activate_row :: "key_lib \<Rightarrow> uint64 \<Rightarrow> int \<Rightarrow> key_row \<Rightarrow> key_row" where
  "activate_row lib sq at row = row\<lparr>kr_status := KeyActive, kr_activation_sequence := Some sq, kr_activation_time := Some (kl_column_time lib at)\<rparr>"

definition activateControlKey :: "key_lib \<Rightarrow> (key_stmt \<Rightarrow> bool) \<Rightarrow> key_table \<Rightarrow> key_name \<Rightarrow> uint64 \<Rightarrow> int \<Rightarrow> key_error option \<times> key_table" where
  "activateControlKey lib ok t name sq at =
     (if sq = 0 \<or> at = zero_time then (Some ActivationIncomplete, t)
      else guarded_update ok ActivationConflict KeyPending (activate_row lib sq at) t name)"

definition revoke_row :: "key_lib \<Rightarrow> string \<Rightarrow> uint64 \<Rightarrow> int \<Rightarrow> key_row \<Rightarrow> key_row" where
  "revoke_row lib replacement sq at row = row\<lparr>kr_status := KeyRevoked, kr_invalid_sequence := Some sq,
     kr_invalid_time := Some (kl_column_time lib at), kr_replacement := replacement\<rparr>"

definition revokeControlKey :: "key_lib \<Rightarrow> (key_stmt \<Rightarrow> bool) \<Rightarrow> key_table \<Rightarrow> key_name \<Rightarrow> string \<Rightarrow> uint64 \<Rightarrow> int \<Rightarrow> key_error option \<times> key_table" where
  "revokeControlKey lib ok t name replacement sq at =
     (if replacement = [] \<or> sq = 0 \<or> at = zero_time then (Some RevocationIncomplete, t)
      else guarded_update ok RevocationConflict KeyActive (revoke_row lib replacement sq at) t name)"

text \<open>The sequence columns are unsigned but scanned into a signed 64-bit integer, which refuses the upper half.\<close>

definition scans :: "uint64 option \<Rightarrow> bool" where
  "scans v \<longleftrightarrow> (case v of None \<Rightarrow> True | Some s \<Rightarrow> unat s < 2 ^ 63)"

definition Store_ControlKey :: "bool \<Rightarrow> key_table \<Rightarrow> key_name \<Rightarrow> key_error + ControlKey" where
  "Store_ControlKey ok t name =
     (if \<not> ok then Inl KeyReadFailed
      else case t name of None \<Rightarrow> Inl KeyNotFound
      | Some row \<Rightarrow>
        if \<not> scans (kr_activation_sequence row) \<or> \<not> scans (kr_invalid_sequence row) then Inl KeyScanFailed
        else if length (kr_public_key row) \<noteq> 32 then Inl CorruptPublicKey
        else (case Receipt_UnmarshalJSON (kr_receipt row) of Inl _ \<Rightarrow> Inl KeyDecodeFailed
          | Inr r \<Rightarrow> Inr \<lparr>ck_SignerDomain = fst name, ck_ComputerID = fst (snd name), ck_KeyID = snd (snd name),
              ck_PublicKey = kr_public_key row, ck_Status = kr_status row, ck_ActivationSequence = kr_activation_sequence row,
              ck_ActivationTime = kr_activation_time row, ck_FirstInvalidSequence = kr_invalid_sequence row,
              ck_FirstInvalidTime = kr_invalid_time row, ck_ReplacementKeyID = kr_replacement row, ck_AuthorizingReceipt = r\<rparr>))"

subsection \<open>Resolvers\<close>

text \<open>The position of a receipt against the validity window of a key.\<close>

definition window_check :: "ControlKey \<Rightarrow> uint64 \<Rightarrow> int \<Rightarrow> key_error + string" where
  "window_check key sq issuedAt =
     (if ck_Status key \<noteq> KeyActive \<and> ck_Status key \<noteq> KeyRevoked then Inl KeyNotActive
      else if (case ck_ActivationSequence key of Some a \<Rightarrow> 0 < sq \<and> sq < a | None \<Rightarrow> False) then Inl PredatesSequence
      else if (case ck_ActivationTime key of Some a \<Rightarrow> issuedAt < a | None \<Rightarrow> False) then Inl PredatesTime
      else if (case ck_FirstInvalidSequence key of Some i \<Rightarrow> i \<le> sq | None \<Rightarrow> False) then Inl InvalidAtSequence
      else if (case ck_FirstInvalidTime key of Some i \<Rightarrow> \<not> issuedAt < i | None \<Rightarrow> False) then Inl InvalidAtTime
      else Inr (ck_PublicKey key))"

definition ControlKeyResolver :: "(key_stmt \<Rightarrow> bool) \<Rightarrow> key_table \<Rightarrow> string \<Rightarrow> string \<Rightarrow> string \<Rightarrow> uint64 \<Rightarrow> int \<Rightarrow> key_error + string" where
  "ControlKeyResolver ok t domain computerID keyID sq issuedAt =
     (let own = Store_ControlKey (ok ReadKey) t (domain, computerID, keyID);
          found = (if own = Inl KeyNotFound \<and> computerID \<noteq> [] then Store_ControlKey (ok ReadGlobalKey) t (domain, [], keyID) else own) in
      case found of Inl e \<Rightarrow> Inl e | Inr key \<Rightarrow> window_check key sq issuedAt)"

record bootstrapControlKeyResolver =
  br_domain :: string
  br_keyID :: string
  br_publicKey :: string

definition Bootstrap_ResolveReceiptKey :: "bootstrapControlKeyResolver \<Rightarrow> (key_stmt \<Rightarrow> bool) \<Rightarrow> key_table \<Rightarrow> string \<Rightarrow> string \<Rightarrow> string \<Rightarrow> uint64 \<Rightarrow> int
    \<Rightarrow> key_error + string" where
  "Bootstrap_ResolveReceiptKey br ok t domain computerID keyID sq issuedAt =
     (case ControlKeyResolver ok t domain computerID keyID sq issuedAt of Inr key \<Rightarrow> Inr key
      | Inl e \<Rightarrow> if e \<noteq> KeyNotFound \<or> domain \<noteq> br_domain br \<or> keyID \<noteq> br_keyID br then Inl e else Inr (br_publicKey br))"

text \<open>The resolvers as receipt verification calls them: the time is the parsed one, an error is no key.\<close>

definition as_key_resolver :: "key_lib \<Rightarrow> (string \<Rightarrow> string \<Rightarrow> string \<Rightarrow> uint64 \<Rightarrow> int \<Rightarrow> key_error + string) \<Rightarrow> key_resolver" where
  "as_key_resolver lib f = (\<lambda>domain computerID keyID sq at. case f domain computerID keyID sq (kl_time lib at) of Inl _ \<Rightarrow> None | Inr key \<Rightarrow> Some key)"

text \<open>The resolver the platform gives to receipt verification, with the failures of the reads for each signer.\<close>

definition platform_resolver :: "key_lib \<Rightarrow> bootstrapControlKeyResolver \<Rightarrow> (key_name \<Rightarrow> key_stmt \<Rightarrow> bool) \<Rightarrow> key_table \<Rightarrow> key_resolver" where
  "platform_resolver lib br ok t =
     as_key_resolver lib (\<lambda>domain computerID keyID. Bootstrap_ResolveReceiptKey br (ok (domain, computerID, keyID)) t domain computerID keyID)"

subsection \<open>What a resolver answers\<close>

definition row_for :: "key_table \<Rightarrow> string \<Rightarrow> string \<Rightarrow> string \<Rightarrow> key_row option" where
  "row_for t domain computerID keyID = (case t (domain, computerID, keyID) of Some row \<Rightarrow> Some row | None \<Rightarrow> t (domain, [], keyID))"

definition readable :: "key_row \<Rightarrow> bool" where
  "readable row \<longleftrightarrow> scans (kr_activation_sequence row) \<and> scans (kr_invalid_sequence row) \<and> length (kr_public_key row) = 32
     \<and> \<not> isl (Receipt_UnmarshalJSON (kr_receipt row))"

definition in_window :: "key_row \<Rightarrow> uint64 \<Rightarrow> int \<Rightarrow> bool" where
  "in_window row sq at \<longleftrightarrow>
     (case kr_activation_sequence row of Some a \<Rightarrow> sq = 0 \<or> a \<le> sq | None \<Rightarrow> True)
     \<and> (case kr_activation_time row of Some a \<Rightarrow> a \<le> at | None \<Rightarrow> True)
     \<and> (case kr_invalid_sequence row of Some i \<Rightarrow> sq < i | None \<Rightarrow> True)
     \<and> (case kr_invalid_time row of Some i \<Rightarrow> at < i | None \<Rightarrow> True)"

text \<open>The row serves a receipt at this position.\<close>

definition serves :: "key_row \<Rightarrow> uint64 \<Rightarrow> int \<Rightarrow> bool" where
  "serves row sq at \<longleftrightarrow> readable row \<and> kr_status row \<in> {KeyActive, KeyRevoked} \<and> in_window row sq at"

definition shows_row :: "ControlKey \<Rightarrow> key_row \<Rightarrow> bool" where
  "shows_row key row \<longleftrightarrow> readable row \<and> ck_PublicKey key = kr_public_key row
     \<and> ck_Status key = kr_status row \<and> ck_ActivationSequence key = kr_activation_sequence row \<and> ck_ActivationTime key = kr_activation_time row
     \<and> ck_FirstInvalidSequence key = kr_invalid_sequence row \<and> ck_FirstInvalidTime key = kr_invalid_time row"

lemma read_key_not_found: "Store_ControlKey ok t name = Inl KeyNotFound \<longleftrightarrow> ok \<and> t name = None"
  by (auto simp: Store_ControlKey_def split: if_splits option.splits sum.splits)

lemma read_key_Inr: "Store_ControlKey ok t name = Inr key \<Longrightarrow> \<exists>row. t name = Some row \<and> shows_row key row"
  by (auto simp: Store_ControlKey_def readable_def shows_row_def isl_def split: if_splits option.splits sum.splits)

lemma read_key_readable: "t name = Some row \<Longrightarrow> readable row \<Longrightarrow> \<exists>key. Store_ControlKey True t name = Inr key \<and> shows_row key row"
  by (auto simp: Store_ControlKey_def readable_def shows_row_def isl_def split: sum.splits)

lemma window_check_serves:
  assumes "shows_row key row"
  shows "window_check key sq at = Inr p \<longleftrightarrow> serves row sq at \<and> p = kr_public_key row"
    and "window_check key sq at \<noteq> Inl KeyNotFound"
  using assms by (auto simp: shows_row_def window_check_def serves_def in_window_def word_gt_0 split: option.splits if_splits)

text \<open>The two reads of a resolution together.\<close>

definition read_for :: "(key_stmt \<Rightarrow> bool) \<Rightarrow> key_table \<Rightarrow> string \<Rightarrow> string \<Rightarrow> string \<Rightarrow> key_error + ControlKey" where
  "read_for ok t d c k = (if Store_ControlKey (ok ReadKey) t (d, c, k) = Inl KeyNotFound \<and> c \<noteq> []
     then Store_ControlKey (ok ReadGlobalKey) t (d, [], k) else Store_ControlKey (ok ReadKey) t (d, c, k))"

lemma resolver_reads: "ControlKeyResolver ok t d c k sq at = (case read_for ok t d c k of Inl e \<Rightarrow> Inl e | Inr key \<Rightarrow> window_check key sq at)"
  by (simp add: ControlKeyResolver_def read_for_def Let_def)

lemma read_for_Inr: "read_for ok t d c k = Inr key \<Longrightarrow> \<exists>row. row_for t d c k = Some row \<and> shows_row key row"
  by (cases "t (d, c, k)") (auto simp: read_for_def row_for_def read_key_not_found dest!: read_key_Inr split: if_splits)

lemma read_for_not_found: "read_for ok t d c k = Inl KeyNotFound \<Longrightarrow> row_for t d c k = None"
  by (cases "t (d, c, k)") (auto simp: read_for_def row_for_def read_key_not_found split: if_splits)

lemma read_for_row:
  assumes "row_for t d c k = Some row" "readable row"
  shows "\<exists>key. read_for (\<lambda>_. True) t d c k = Inr key \<and> shows_row key row"
proof (cases "t (d, c, k)")
  case None
  then have "t (d, [], k) = Some row" "c \<noteq> []" using assms(1) by (auto simp: row_for_def)
  then show ?thesis using None assms(2) read_key_readable by (simp add: read_for_def read_key_not_found)
next
  case (Some row')
  then show ?thesis using assms read_key_readable by (simp add: read_for_def read_key_not_found row_for_def)
qed

lemma read_for_none: "row_for t d c k = None \<Longrightarrow> read_for (\<lambda>_. True) t d c k = Inl KeyNotFound"
  by (auto simp: read_for_def row_for_def read_key_not_found split: option.splits)

lemma resolved_key: "ControlKeyResolver ok t d c k sq at = Inr p \<Longrightarrow> \<exists>row. row_for t d c k = Some row \<and> serves row sq at \<and> p = kr_public_key row"
  using read_for_Inr window_check_serves(1) by (fastforce simp: resolver_reads split: sum.splits)

lemma key_resolves: "row_for t d c k = Some row \<Longrightarrow> serves row sq at \<Longrightarrow> ControlKeyResolver (\<lambda>_. True) t d c k sq at = Inr (kr_public_key row)"
  using read_for_row [of t d c k row] window_check_serves(1) [of _ row sq at] by (auto simp: resolver_reads serves_def)

lemma key_not_found: "ControlKeyResolver ok t d c k sq at = Inl KeyNotFound \<Longrightarrow> row_for t d c k = None"
  using read_for_not_found [of ok t d c k] read_for_Inr [of ok t d c k] window_check_serves(2) by (fastforce simp: resolver_reads split: sum.splits)

lemma key_not_found_reads: "row_for t d c k = None \<Longrightarrow> ControlKeyResolver (\<lambda>_. True) t d c k sq at = Inl KeyNotFound"
  by (simp add: resolver_reads read_for_none)

text \<open>The keys the platform trusts for a signer at a position: the one of the history, or the current signer where the history is silent.\<close>

definition key_trusted :: "key_lib \<Rightarrow> bootstrapControlKeyResolver \<Rightarrow> key_table \<Rightarrow> string \<Rightarrow> string \<Rightarrow> string \<Rightarrow> uint64 \<Rightarrow> string \<Rightarrow> string \<Rightarrow> bool" where
  "key_trusted lib br t d c k sq at p \<longleftrightarrow>
     (case row_for t d c k of Some row \<Rightarrow> serves row sq (kl_time lib at) \<and> p = kr_public_key row
      | None \<Rightarrow> d = br_domain br \<and> k = br_keyID br \<and> p = br_publicKey br)"

lemma platform_resolver_trusted: "platform_resolver lib br ok t d c k sq at = Some p \<Longrightarrow> key_trusted lib br t d c k sq at p"
  by (auto simp: platform_resolver_def as_key_resolver_def Bootstrap_ResolveReceiptKey_def key_trusted_def
      dest!: resolved_key key_not_found split: sum.splits if_splits)

lemma platform_resolver_answers: "key_trusted lib br t d c k sq at p \<Longrightarrow> platform_resolver lib br (\<lambda>_ _. True) t d c k sq at = Some p"
  by (auto simp: platform_resolver_def as_key_resolver_def Bootstrap_ResolveReceiptKey_def key_trusted_def key_resolves key_not_found_reads
      split: option.splits)

subsection \<open>Receipts under a key authority\<close>

text \<open>What receipt verification relies on of a resolver: the keys it hands out are trusted. A verified receipt then carries, for every required
  signer, a signature that verifies under a key trusted for that signer at the position of the receipt.\<close>

definition receipt_computer :: "Receipt \<Rightarrow> string" where
  "receipt_computer r = (case map_of (KindFields r) ''computer_id'' of Some (DStr s) \<Rightarrow> s | _ \<Rightarrow> [])"

lemma verified_signers:
  assumes "verify_signers cr resolve m i seen actual required = None" "q \<in> set required"
  shows "\<exists>p s. resolve q = Some p \<and> \<lparr>sig_Signer = q, sig_Text = s\<rparr> \<in> set actual \<and> cr_verify cr p m s"
  using assms
proof (induction cr resolve m i seen actual required rule: verify_signers.induct)
  case (2 cr resolve m i seen a actual q' required)
  from "2.prems"(1) obtain pub where p: "resolve q' = Some pub" "cr_verify cr pub m (sig_Text a)" "sig_Signer a = q'"
      and n: "verify_signers cr resolve m (Suc i) (q' # seen) actual required = None"
    by (auto split: if_splits option.splits)
  have a: "a = \<lparr>sig_Signer = q', sig_Text = sig_Text a\<rparr>" using p(3) by (cases a) simp
  show ?case
  proof (cases "q = q'")
    case True
    then show ?thesis using p a by (intro exI [of _ pub] exI [of _ "sig_Text a"]) simp
  next
    case False
    then have "q \<in> set required" using "2.prems"(2) by simp
    then have "\<exists>p s. resolve q = Some p \<and> \<lparr>sig_Signer = q, sig_Text = s\<rparr> \<in> set actual \<and> cr_verify cr p m s"
      using "2.prems"(1) n p by (intro "2.IH") (auto split: if_splits option.splits)
    then show ?thesis by auto
  qed
qed simp_all

lemma verified_parts:
  assumes "Receipt_Verify uuid7 cr (Some resolve) r = None"
  shows "\<exists>payload sq. canonicalPayload r = Inr payload \<and> receiptSequence (map_of (KindFields r) ''sequence'') = Inr sq
    \<and> verify_signers cr (\<lambda>q. resolve (SignerDomain q) (receipt_computer r) (KeyID q) sq (IssuedAt r))
        (receiptSignaturePreimage (cr_sha cr payload)) 0 [] (SignatureSet r) (RequiredSigners r) = None"
  using assms unfolding Receipt_Verify_def receipt_computer_def Let_def by (auto split: if_splits sum.splits)

lemma verify_signers_cong:
  "\<forall>q \<in> set required. resolve q = resolve' q \<Longrightarrow> verify_signers cr resolve m i seen actual required = verify_signers cr resolve' m i seen actual required"
  by (induction cr resolve m i seen actual required rule: verify_signers.induct) (auto split: option.splits)

lemma Receipt_Verify_cong:
  assumes "\<And>sq q. receiptSequence (map_of (KindFields r) ''sequence'') = Inr sq \<Longrightarrow> q \<in> set (RequiredSigners r) \<Longrightarrow>
      resolve (SignerDomain q) (receipt_computer r) (KeyID q) sq (IssuedAt r) = resolve' (SignerDomain q) (receipt_computer r) (KeyID q) sq (IssuedAt r)"
  shows "Receipt_Verify uuid7 cr (Some resolve) r = Receipt_Verify uuid7 cr (Some resolve') r"
proof -
  have "verify_signers cr (\<lambda>q. resolve (SignerDomain q) (receipt_computer r) (KeyID q) sq (IssuedAt r)) m 0 [] (SignatureSet r) (RequiredSigners r)
      = verify_signers cr (\<lambda>q. resolve' (SignerDomain q) (receipt_computer r) (KeyID q) sq (IssuedAt r)) m 0 [] (SignatureSet r) (RequiredSigners r)"
    if "receiptSequence (map_of (KindFields r) ''sequence'') = Inr sq" for sq m
    by (rule verify_signers_cong) (simp add: assms that)
  then show ?thesis unfolding Receipt_Verify_def receipt_computer_def [symmetric] Let_def by (auto split: sum.splits)
qed

locale key_authority =
  fixes resolve :: key_resolver and trusted :: "string \<Rightarrow> string \<Rightarrow> string \<Rightarrow> uint64 \<Rightarrow> string \<Rightarrow> string \<Rightarrow> bool"
  assumes resolved_trusted: "resolve d c k sq at = Some p \<Longrightarrow> trusted d c k sq at p"
begin

lemma verified_under_trusted_key:
  assumes "Receipt_Verify uuid7 cr (Some resolve) r = None" "q \<in> set (RequiredSigners r)"
  shows "\<exists>payload sq p s. canonicalPayload r = Inr payload \<and> receiptSequence (map_of (KindFields r) ''sequence'') = Inr sq
    \<and> trusted (SignerDomain q) (receipt_computer r) (KeyID q) sq (IssuedAt r) p
    \<and> \<lparr>sig_Signer = q, sig_Text = s\<rparr> \<in> set (SignatureSet r) \<and> cr_verify cr p (receiptSignaturePreimage (cr_sha cr payload)) s"
proof -
  obtain payload sq where v: "canonicalPayload r = Inr payload" "receiptSequence (map_of (KindFields r) ''sequence'') = Inr sq"
      "verify_signers cr (\<lambda>q. resolve (SignerDomain q) (receipt_computer r) (KeyID q) sq (IssuedAt r))
        (receiptSignaturePreimage (cr_sha cr payload)) 0 [] (SignatureSet r) (RequiredSigners r) = None"
    using verified_parts [OF assms(1)] by blast
  show ?thesis using verified_signers [OF v(3) assms(2)] v(1,2) resolved_trusted by blast
qed

end

interpretation platform: key_authority "platform_resolver lib br ok t" "key_trusted lib br t" for lib br ok t
  by unfold_locales (rule platform_resolver_trusted)

subsection \<open>Histories of the key table\<close>

datatype key_op = InsertKey "key_stmt \<Rightarrow> bool" ControlKey
  | ActivateKey "key_stmt \<Rightarrow> bool" key_name uint64 int
  | RevokeKey "key_stmt \<Rightarrow> bool" key_name string uint64 int

fun key_call :: "key_lib \<Rightarrow> key_table \<Rightarrow> key_op \<Rightarrow> key_table" where
  "key_call lib t (InsertKey ok key) = snd (insertControlKey lib ok t key)"
| "key_call lib t (ActivateKey ok name sq at) = snd (activateControlKey lib ok t name sq at)"
| "key_call lib t (RevokeKey ok name replacement sq at) = snd (revokeControlKey lib ok t name replacement sq at)"

lemma insert_effect:
  "snd (insertControlKey lib ok t key) = t \<or> (\<exists>doc body. t (ck_SignerDomain key, ck_ComputerID key, ck_KeyID key) = None
     \<and> snd (insertControlKey lib ok t key) = t((ck_SignerDomain key, ck_ComputerID key, ck_KeyID key) \<mapsto> key_insert_row lib key doc body)
     \<and> ck_Status key \<in> {KeyPending, KeyActive, KeyRevoked} \<and> length (ck_PublicKey key) = 32)"
  by (auto simp: insertControlKey_def Let_def split: sum.splits)

lemma update_effect:
  "snd (guarded_update ok e status change t name) = t
     \<or> (\<exists>row. t name = Some row \<and> kr_status row = status \<and> snd (guarded_update ok e status change t name) = t(name \<mapsto> change row))"
  by (auto simp: guarded_update_def Let_def split: option.splits)

lemma update_succeeded:
  "guarded_update ok e status change t name = (None, t') \<Longrightarrow> \<exists>row. t name = Some row \<and> kr_status row = status \<and> t' = t(name \<mapsto> change row)"
  by (auto simp: guarded_update_def Let_def split: option.splits if_splits)



lemma call_effect:
  "key_call lib t k name = t name
   \<or> (t name = None \<and> (\<exists>ok key doc body. k = InsertKey ok key \<and> name = (ck_SignerDomain key, ck_ComputerID key, ck_KeyID key)
        \<and> key_call lib t k name = Some (key_insert_row lib key doc body) \<and> ck_Status key \<in> {KeyPending, KeyActive, KeyRevoked} \<and> length (ck_PublicKey key) = 32))
   \<or> (\<exists>row ok sq at. t name = Some row \<and> kr_status row = KeyPending \<and> k = ActivateKey ok name sq at \<and> key_call lib t k name = Some (activate_row lib sq at row))
   \<or> (\<exists>row ok rep sq at. t name = Some row \<and> kr_status row = KeyActive \<and> k = RevokeKey ok name rep sq at \<and> key_call lib t k name = Some (revoke_row lib rep sq at row))"
proof (cases k)
  case (InsertKey ok key)
  let ?n = "(ck_SignerDomain key, ck_ComputerID key, ck_KeyID key)"
  have k: "key_call lib t k = snd (insertControlKey lib ok t key)" using InsertKey by simp
  consider "key_call lib t k = t" | doc body where "t ?n = None" "key_call lib t k = t(?n \<mapsto> key_insert_row lib key doc body)"
      "ck_Status key \<in> {KeyPending, KeyActive, KeyRevoked}" "length (ck_PublicKey key) = 32"
    using insert_effect [of lib ok t key] unfolding k by blast
  then show ?thesis
  proof cases
    case 2
    then show ?thesis using InsertKey by (cases "name = ?n") auto
  qed simp
next
  case (ActivateKey ok n sq at)
  then show ?thesis using update_effect [of ok ActivationConflict KeyPending "activate_row lib sq at" t n]
    by (cases "n = name") (auto simp: activateControlKey_def)
next
  case (RevokeKey ok n rep sq at)
  then show ?thesis using update_effect [of ok RevocationConflict KeyActive "revoke_row lib rep sq at" t n]
    by (cases "n = name") (auto simp: revokeControlKey_def)
qed

text \<open>The ways a row may have moved: activated, activated and revoked, or revoked.\<close>

definition moves :: "key_lib \<Rightarrow> key_row \<Rightarrow> key_row \<Rightarrow> bool" where
  "moves lib row row' \<longleftrightarrow> row' = row
     \<or> kr_status row = KeyPending \<and> (\<exists>sq at. row' = activate_row lib sq at row)
     \<or> kr_status row = KeyPending \<and> (\<exists>sq at rep cutS cutT. row' = revoke_row lib rep cutS cutT (activate_row lib sq at row))
     \<or> kr_status row = KeyActive \<and> (\<exists>rep cutS cutT. row' = revoke_row lib rep cutS cutT row)"

lemma status_simps [simp]:
  "kr_status (activate_row lib sq at row) = KeyActive" "kr_status (revoke_row lib rep cutS cutT row) = KeyRevoked"
  by (simp_all add: activate_row_def revoke_row_def)

lemma moves_refl: "moves lib row row"
  by (simp add: moves_def)

lemma moves_activate: "moves lib row0 row \<Longrightarrow> kr_status row = KeyPending \<Longrightarrow> moves lib row0 (activate_row lib sq at row)"
  unfolding moves_def by auto

lemma moves_revoke: "moves lib row0 row \<Longrightarrow> kr_status row = KeyActive \<Longrightarrow> moves lib row0 (revoke_row lib rep cutS cutT row)"
  unfolding moves_def by (elim disjE) (simp; blast | force)+

lemma moves_call: "t name = Some row \<Longrightarrow> moves lib row0 row \<Longrightarrow> \<exists>row'. key_call lib t k name = Some row' \<and> moves lib row0 row'"
  using call_effect [of lib t k name] moves_activate [of lib row0 row] moves_revoke [of lib row0 row] by fastforce

lemma moves_run: "t name = Some row \<Longrightarrow> moves lib row0 row \<Longrightarrow> \<exists>row'. foldl (key_call lib) t ks name = Some row' \<and> moves lib row0 row'"
proof (induction ks arbitrary: t row)
  case (Cons k ks)
  then show ?case using moves_call [of t name row lib row0 k] by auto
qed simp

lemma revoked_stays: "t name = Some row \<Longrightarrow> kr_status row = KeyRevoked \<Longrightarrow> foldl (key_call lib) t ks name = Some row"
  using moves_run [of t name row lib row ks] moves_refl [of lib row] unfolding moves_def by auto

text \<open>The history of a key moves one way. Whatever calls are made and whatever fails, a stored row keeps its public key and the receipt that
  authorized it, is activated at most once and then revoked at most once, each with the position the call gave, and is left alone
  after its revocation.\<close>

theorem key_history_moves_forward:
  assumes "t name = Some row"
  shows "\<exists>row'. foldl (key_call lib) t ks name = Some row' \<and> kr_public_key row' = kr_public_key row \<and> kr_receipt row' = kr_receipt row
    \<and> moves lib row row' \<and> (kr_status row = KeyRevoked \<longrightarrow> row' = row)"
proof -
  obtain row' where r: "foldl (key_call lib) t ks name = Some row'" "moves lib row row'"
    using moves_run [of t name row lib row ks] assms moves_refl by blast
  have "kr_public_key row' = kr_public_key row \<and> kr_receipt row' = kr_receipt row"
    using r(2) by (auto simp: moves_def activate_row_def revoke_row_def)
  moreover have "kr_status row = KeyRevoked \<Longrightarrow> row' = row" using r(2) by (auto simp: moves_def)
  ultimately show ?thesis using r by blast
qed

lemma revoke_active:
  "t name = Some row \<Longrightarrow> kr_status row = KeyActive \<Longrightarrow> rep \<noteq> [] \<Longrightarrow> cutS \<noteq> 0 \<Longrightarrow> cutT \<noteq> zero_time
    \<Longrightarrow> revokeControlKey lib (\<lambda>_. True) t name rep cutS cutT = (None, t(name \<mapsto> revoke_row lib rep cutS cutT row))"
  by (simp add: revokeControlKey_def guarded_update_def)

lemma revoke_succeeded:
  "revokeControlKey lib ok t name rep cutS cutT = (None, t') \<Longrightarrow> \<exists>row. t' name = Some (revoke_row lib rep cutS cutT row)"
  by (auto simp: revokeControlKey_def dest!: update_succeeded split: if_splits)

text \<open>C29: a revoked row signs nothing any more. Once the revocation of a key was reported done, for the computer of the receipt or for all
  computers (the empty computer), whatever calls follow and whatever fails, a receipt that requires this signer verifies only if it
  lies before both cutoffs, also through the resolver that falls back on the current platform signer. The one exception is a key
  revoked for all computers that has a row for the receipt's own computer, there before or registered later: that row then decides.\<close>

theorem revoked_key_verifies_nothing_later:
  assumes "revokeControlKey lib ok0 t (d, c0, k) rep cutS cutT = (None, t1)" "c0 = receipt_computer r \<or> c0 = []"
    "Receipt_Verify uuid7 cr (Some (platform_resolver lib br ok (foldl (key_call lib) t1 ks))) r = None"
    "\<lparr>SignerDomain = d, KeyID = k\<rparr> \<in> set (RequiredSigners r)"
  shows "\<exists>sq. receiptSequence (map_of (KindFields r) ''sequence'') = Inr sq
    \<and> (sq < cutS \<and> unat cutS < 2 ^ 63 \<and> kl_time lib (IssuedAt r) < kl_column_time lib cutT
      \<or> c0 = [] \<and> receipt_computer r \<noteq> [] \<and> (\<exists>own. foldl (key_call lib) t1 ks (d, receipt_computer r, k) = Some own \<and> serves own sq (kl_time lib (IssuedAt r))))"
proof -
  let ?t = "foldl (key_call lib) t1 ks" and ?c = "receipt_computer r"
  obtain row where "t1 (d, c0, k) = Some (revoke_row lib rep cutS cutT row)" using revoke_succeeded [OF assms(1)] by blast
  then have t: "?t (d, c0, k) = Some (revoke_row lib rep cutS cutT row)" using revoked_stays [of t1 "(d, c0, k)" _ lib ks] by simp
  obtain sq p where q: "receiptSequence (map_of (KindFields r) ''sequence'') = Inr sq" "key_trusted lib br ?t d ?c k sq (IssuedAt r) p"
    using platform.verified_under_trusted_key [OF assms(3,4)] by auto
  have cut: "sq < cutS \<and> unat cutS < 2 ^ 63 \<and> kl_time lib (IssuedAt r) < kl_column_time lib cutT"
    if "serves (revoke_row lib rep cutS cutT row) sq (kl_time lib (IssuedAt r))"
    using that by (auto simp: serves_def readable_def in_window_def scans_def revoke_row_def)
  show ?thesis
  proof (cases "row_for ?t d ?c k = Some (revoke_row lib rep cutS cutT row)")
    case True
    then show ?thesis using q cut unfolding key_trusted_def by simp
  next
    case False
    then have "c0 = []" "?c \<noteq> []" using t assms(2) by (auto simp: row_for_def)
    moreover obtain own where "?t (d, ?c, k) = Some own" using False t \<open>c0 = []\<close> by (auto simp: row_for_def split: option.splits)
    ultimately show ?thesis using q by (auto simp: key_trusted_def row_for_def)
  qed
qed

text \<open>The exception is open to a registration after the revocation: a key revoked for all computers can be inserted again under the same
  name for one of them, with the same public key, and is then served at every position.\<close>

theorem revoked_global_key_registered_again:
  assumes "revokeControlKey lib ok t (ck_SignerDomain key, [], ck_KeyID key) rep cutS cutT = (None, t1)"
    "insertControlKey lib (\<lambda>_. True) t1 key = (None, t2)" "ck_Status key = KeyActive" "receipt_text_ok (ck_AuthorizingReceipt key)"
    "ck_ActivationSequence key = None" "ck_ActivationTime key = None" "ck_FirstInvalidSequence key = None" "ck_FirstInvalidTime key = None"
  shows "ck_ComputerID key \<noteq> [] \<and> ControlKeyResolver (\<lambda>_. True) t2 (ck_SignerDomain key) (ck_ComputerID key) (ck_KeyID key) sq at = Inr (ck_PublicKey key)"
proof -
  obtain doc body where v: "Receipt_values True (ck_AuthorizingReceipt key) = Inr doc" "length (ck_PublicKey key) = 32"
      "t1 (ck_SignerDomain key, ck_ComputerID key, ck_KeyID key) = None"
      "t2 = t1((ck_SignerDomain key, ck_ComputerID key, ck_KeyID key) \<mapsto> key_insert_row lib key doc body)"
    using assms(2) by (auto simp: insertControlKey_def Let_def split: sum.splits if_splits)
  have "serves (key_insert_row lib key doc body) sq at"
    using v(2) decode_stored [OF v(1) assms(4)] assms(3,5-8)
    by (simp add: serves_def readable_def in_window_def scans_def key_insert_row_def)
  then have "ControlKeyResolver (\<lambda>_. True) t2 (ck_SignerDomain key) (ck_ComputerID key) (ck_KeyID key) sq at = Inr (kr_public_key (key_insert_row lib key doc body))"
    using v(4) by (intro key_resolves) (simp_all add: row_for_def)
  moreover have "ck_ComputerID key \<noteq> []" using revoke_succeeded [OF assms(1)] v(3) by auto
  ultimately show ?thesis by (simp add: key_insert_row_def)
qed

text \<open>What keeps a receipt: revocations of its signers cut off after it, at a sequence that can be read back, and none of its signers is
  registered anew.\<close>

definition spares :: "key_lib \<Rightarrow> Receipt \<Rightarrow> uint64 \<Rightarrow> key_op \<Rightarrow> bool" where
  "spares lib r sq k = (case k of
       InsertKey ok key \<Rightarrow> \<lparr>SignerDomain = ck_SignerDomain key, KeyID = ck_KeyID key\<rparr> \<notin> set (RequiredSigners r)
     | ActivateKey ok name s at \<Rightarrow> True
     | RevokeKey ok name rep cutS cutT \<Rightarrow> \<lparr>SignerDomain = fst name, KeyID = snd (snd name)\<rparr> \<in> set (RequiredSigners r)
         \<longrightarrow> sq < cutS \<and> unat cutS < 2 ^ 63 \<and> kl_time lib (IssuedAt r) < kl_column_time lib cutT)"

lemma spared_row:
  assumes "spares lib r sq op" "q \<in> set (RequiredSigners r)" "snd (snd name) = KeyID q" "fst name = SignerDomain q"
    "t name = Some row" "serves row sq (kl_time lib (IssuedAt r))"
  shows "\<exists>row'. key_call lib t op name = Some row' \<and> serves row' sq (kl_time lib (IssuedAt r)) \<and> kr_public_key row' = kr_public_key row"
proof -
  have q: "\<lparr>SignerDomain = fst name, KeyID = snd (snd name)\<rparr> = q" using assms(3,4) by simp
  consider "key_call lib t op name = t name"
    | ok rep cutS cutT where "op = RevokeKey ok name rep cutS cutT" "key_call lib t op name = Some (revoke_row lib rep cutS cutT row)"
    using call_effect [of lib t op name] assms(5,6) by (auto simp: serves_def)
  then show ?thesis
  proof cases
    case 2
    then have "sq < cutS" "unat cutS < 2 ^ 63" "kl_time lib (IssuedAt r) < kl_column_time lib cutT"
      using assms(1,2) by (simp_all add: spares_def q)
    then have "serves (revoke_row lib rep cutS cutT row) sq (kl_time lib (IssuedAt r))"
      using assms(6) by (auto simp: serves_def readable_def in_window_def scans_def revoke_row_def)
    then show ?thesis using 2(2) by (simp add: revoke_row_def)
  qed (use assms(5,6) in simp)
qed

lemma spared_none:
  assumes "spares lib r sq op" "q \<in> set (RequiredSigners r)" "t (SignerDomain q, c, KeyID q) = None"
  shows "key_call lib t op (SignerDomain q, c, KeyID q) = None"
proof -
  have "SignerDomain q = ck_SignerDomain key \<Longrightarrow> KeyID q = ck_KeyID key \<Longrightarrow> \<lparr>SignerDomain = ck_SignerDomain key, KeyID = ck_KeyID key\<rparr> = q" for key
    by (cases q) simp
  then show ?thesis using call_effect [of lib t op "(SignerDomain q, c, KeyID q)"] assms by (fastforce simp: spares_def)
qed

lemma spared_trust:
  assumes "spares lib r sq op" "q \<in> set (RequiredSigners r)" "key_trusted lib br t (SignerDomain q) c (KeyID q) sq (IssuedAt r) p"
  shows "key_trusted lib br (key_call lib t op) (SignerDomain q) c (KeyID q) sq (IssuedAt r) p"
proof (cases "row_for t (SignerDomain q) c (KeyID q)")
  case None
  then have "row_for (key_call lib t op) (SignerDomain q) c (KeyID q) = None"
    using spared_none [OF assms(1,2)] by (auto simp: row_for_def split: option.splits)
  then show ?thesis using assms(3) None by (simp add: key_trusted_def)
next
  case (Some row)
  then have s: "serves row sq (kl_time lib (IssuedAt r))" "p = kr_public_key row" using assms(3) by (simp_all add: key_trusted_def)
  have "\<exists>row'. row_for (key_call lib t op) (SignerDomain q) c (KeyID q) = Some row' \<and> serves row' sq (kl_time lib (IssuedAt r))
      \<and> kr_public_key row' = kr_public_key row"
  proof (cases "t (SignerDomain q, c, KeyID q)")
    case None
    then have "t (SignerDomain q, [], KeyID q) = Some row" using Some by (simp add: row_for_def)
    then show ?thesis using spared_row [OF assms(1,2), of "(SignerDomain q, [], KeyID q)" t row] s(1) spared_none [of lib r sq op q t c] assms(1,2) None
      by (simp add: row_for_def)
  next
    case (Some row0)
    then have "row0 = row" using \<open>row_for t (SignerDomain q) c (KeyID q) = Some row\<close> by (simp add: row_for_def)
    then show ?thesis using spared_row [OF assms(1,2), of "(SignerDomain q, c, KeyID q)" t row] s(1) Some by (auto simp: row_for_def)
  qed
  then show ?thesis using s(2) by (auto simp: key_trusted_def)
qed

lemma spared_trust_run:
  "list_all (spares lib r sq) ks \<Longrightarrow> q \<in> set (RequiredSigners r) \<Longrightarrow> key_trusted lib br t (SignerDomain q) c (KeyID q) sq (IssuedAt r) p
    \<Longrightarrow> key_trusted lib br (foldl (key_call lib) t ks) (SignerDomain q) c (KeyID q) sq (IssuedAt r) p"
  by (induction ks arbitrary: t) (simp_all add: spared_trust)

lemma verify_keeps:
  assumes "Receipt_Verify uuid7 cr (Some (platform_resolver lib br ok t)) r = None"
    "\<And>sq. receiptSequence (map_of (KindFields r) ''sequence'') = Inr sq \<Longrightarrow> list_all (spares lib r sq) ks"
  shows "Receipt_Verify uuid7 cr (Some (platform_resolver lib br (\<lambda>_ _. True) (foldl (key_call lib) t ks))) r = None"
proof -
  have "Receipt_Verify uuid7 cr (Some (platform_resolver lib br ok t)) r
      = Receipt_Verify uuid7 cr (Some (platform_resolver lib br (\<lambda>_ _. True) (foldl (key_call lib) t ks))) r"
  proof (rule Receipt_Verify_cong)
    fix sq q assume s: "receiptSequence (map_of (KindFields r) ''sequence'') = Inr sq" and q: "q \<in> set (RequiredSigners r)"
    obtain payload sq' where v: "receiptSequence (map_of (KindFields r) ''sequence'') = Inr sq'"
        "verify_signers cr (\<lambda>q. platform_resolver lib br ok t (SignerDomain q) (receipt_computer r) (KeyID q) sq' (IssuedAt r))
          (receiptSignaturePreimage (cr_sha cr payload)) 0 [] (SignatureSet r) (RequiredSigners r) = None"
      using verified_parts [OF assms(1)] by blast
    then have "sq' = sq" using s by simp
    then obtain p where p: "platform_resolver lib br ok t (SignerDomain q) (receipt_computer r) (KeyID q) sq (IssuedAt r) = Some p"
      using verified_signers [OF v(2) q] by blast
    then show "platform_resolver lib br ok t (SignerDomain q) (receipt_computer r) (KeyID q) sq (IssuedAt r)
        = platform_resolver lib br (\<lambda>_ _. True) (foldl (key_call lib) t ks) (SignerDomain q) (receipt_computer r) (KeyID q) sq (IssuedAt r)"
      using platform_resolver_answers [OF spared_trust_run [OF assms(2) [OF s] q platform_resolver_trusted [OF p]]] by simp
  qed
  then show ?thesis using assms(1) by simp
qed

text \<open>C30: key rotation keeps earlier receipts. A receipt that verified still verifies after any further calls on the key history, if its signers are
  revoked only from positions after it and are not registered anew.\<close>

theorem rotation_keeps_earlier_receipts:
  assumes "Receipt_Verify uuid7 cr (Some (platform_resolver lib br ok t)) r = None"
    "receiptSequence (map_of (KindFields r) ''sequence'') = Inr sq" "list_all (spares lib r sq) ks"
  shows "Receipt_Verify uuid7 cr (Some (platform_resolver lib br (\<lambda>_ _. True) (foldl (key_call lib) t ks))) r = None"
  using verify_keeps [OF assms(1)] assms(2,3) by simp

text \<open>A row inserted as revoked without cutoffs serves every receipt from its activation on.\<close>

lemma revoked_without_cutoff_serves:
  "readable row \<Longrightarrow> kr_status row = KeyRevoked \<Longrightarrow> kr_invalid_sequence row = None \<Longrightarrow> kr_invalid_time row = None
    \<Longrightarrow> kr_activation_sequence row = None \<Longrightarrow> kr_activation_time row = None \<Longrightarrow> serves row sq at"
  by (simp add: serves_def in_window_def)

subsection \<open>Witnesses\<close>

definition wit_key_crypto :: Crypto where
  "wit_key_crypto = wit_crypto\<lparr>cr_sign := (\<lambda>k m. take 32 k @ m)\<rparr>"

definition wit_key_lib :: key_lib where
  "wit_key_lib = \<lparr>kl_sha = wit_sha256, kl_time = (\<lambda>_. 3), kl_column_time = (\<lambda>e. e)\<rparr>"

definition wit_bootstrap :: bootstrapControlKeyResolver where
  "wit_bootstrap = \<lparr>br_domain = ''platform-control'', br_keyID = ''other'', br_publicKey = []\<rparr>"

definition wit_key_row :: key_row where
  "wit_key_row = \<lparr>kr_public_key = replicate 32 (CHR ''p''), kr_status = KeyActive, kr_activation_sequence = Some 1, kr_activation_time = Some 1,
     kr_invalid_sequence = None, kr_invalid_time = None, kr_replacement = [],
     kr_receipt = JObject [(''receipt_version'', JNull), (''receipt_kind'', JString ''R''), (''receipt_id'', JString ''u''), (''issuer'', JString ''i''),
       (''issued_at'', JString ''t''), (''required_signers'', JNull), (''canonical_payload_sha256'', JString ''d''), (''signature_set'', JNull)],
     kr_receipt_digest = ''d''\<rparr>"

abbreviation wit_key_name :: key_name where
  "wit_key_name \<equiv> (''platform-control'', ''c'', ''k'')"

abbreviation wit_revoke :: key_op where
  "wit_revoke \<equiv> RevokeKey (\<lambda>_. True) wit_key_name ''k2'' 5 9"

lemma wit_key_decodes: "\<not> isl (Receipt_UnmarshalJSON (kr_receipt wit_key_row))"
  by (simp add: wit_key_row_def Receipt_UnmarshalJSON_def decode_members_def decode_member_def)

lemma wit_key_serves: "serves wit_key_row 1 3"
  using wit_key_decodes by (simp add: serves_def readable_def in_window_def scans_def) (simp add: wit_key_row_def)

lemma wit_key_revoked: "revokeControlKey wit_key_lib (\<lambda>_. True) [wit_key_name \<mapsto> wit_key_row] wit_key_name ''k2'' 5 9
    = (None, key_call wit_key_lib [wit_key_name \<mapsto> wit_key_row] wit_revoke)"
proof -
  let ?t = "[wit_key_name \<mapsto> wit_key_row]"
  have "?t wit_key_name = Some wit_key_row" "kr_status wit_key_row = KeyActive" by (simp_all add: wit_key_row_def)
  then have "revokeControlKey wit_key_lib (\<lambda>_. True) ?t wit_key_name ''k2'' 5 9 = (None, ?t(wit_key_name \<mapsto> revoke_row wit_key_lib ''k2'' 5 9 wit_key_row))"
    by (rule revoke_active) (simp_all add: zero_time_def)
  then show ?thesis by (simp only: key_call.simps snd_conv)
qed

lemma wit_key_receipt:
  "\<exists>r. Receipt_Verify wit_uuid7 wit_key_crypto (Some (platform_resolver wit_key_lib wit_bootstrap (\<lambda>_ _. True) [wit_key_name \<mapsto> wit_key_row])) r = None
    \<and> receiptSequence (map_of (KindFields r) ''sequence'') = Inr 1 \<and> receipt_computer r = ''c''
    \<and> RequiredSigners r = [\<lparr>SignerDomain = ''platform-control'', KeyID = ''k''\<rparr>]"
proof -
  obtain r where r: "NewSignedReceipt wit_key_crypto ''u'' ''EventHeadReceipt'' ''corpusd'' (head_receipt_fields wit_cas_request) [wit_key] wit_time = Inr r"
    using issue_succeeds [OF wit_issue_args(1-4)] by blast
  have s: "scheme_ok wit_key_crypto (take 32)" by (simp add: scheme_ok_def wit_key_crypto_def wit_crypto_def)
  have "key_trusted wit_key_lib wit_bootstrap [wit_key_name \<mapsto> wit_key_row] ''platform-control'' ''c'' ''k'' 1 wit_time (replicate 32 (CHR ''p''))"
    using wit_key_serves by (simp add: key_trusted_def row_for_def wit_key_lib_def wit_key_row_def)
  from platform_resolver_answers [OF this]
  have p: "platform_resolver wit_key_lib wit_bootstrap (\<lambda>_ _. True) [wit_key_name \<mapsto> wit_key_row] ''platform-control'' ''c'' ''k'' 1 wit_time
      = Some (take 32 (PrivateKey wit_key))" by (simp add: wit_key_def)
  have "Receipt_Verify wit_uuid7 wit_key_crypto (Some (platform_resolver wit_key_lib wit_bootstrap (\<lambda>_ _. True) [wit_key_name \<mapsto> wit_key_row])) r = None"
    by (rule signed_receipt_verify_ok [where c = "''c''" and sq = 1, OF r s _ wit_issue_args(5)])
      (use p in \<open>simp_all add: wit_uuid7_def head_receipt_fields_def wit_cas_request_def wit_genesis_def wit_key_def\<close>)
  moreover have "KindFields r = head_receipt_fields wit_cas_request" "RequiredSigners r = [sk_Ref wit_key]"
    using NewSignedReceipt_Inr [OF r] by auto
  ultimately show ?thesis
    by (intro exI [of _ r]) (simp add: receipt_computer_def head_receipt_fields_def wit_cas_request_def wit_genesis_def wit_key_def)
qed

lemma wit_spares: "spares wit_key_lib r 1 wit_revoke"
  by (simp add: spares_def wit_key_lib_def)

theorem key_history_moves_forward_witness:
  "\<exists>row'. foldl (key_call wit_key_lib) [wit_key_name \<mapsto> wit_key_row] [wit_revoke] wit_key_name = Some row' \<and> kr_public_key row' = replicate 32 (CHR ''p'')
    \<and> moves wit_key_lib wit_key_row row'"
proof -
  have "[wit_key_name \<mapsto> wit_key_row] wit_key_name = Some wit_key_row" by simp
  from key_history_moves_forward [where t = "[wit_key_name \<mapsto> wit_key_row]" and lib = wit_key_lib and ks = "[wit_revoke]", OF this]
  show ?thesis by (auto simp: wit_key_row_def)
qed

theorem rotation_keeps_earlier_receipts_witness:
  "\<exists>r. Receipt_Verify wit_uuid7 wit_key_crypto (Some (platform_resolver wit_key_lib wit_bootstrap (\<lambda>_ _. True)
      (foldl (key_call wit_key_lib) [wit_key_name \<mapsto> wit_key_row] [wit_revoke]))) r = None"
proof -
  obtain r where r: "Receipt_Verify wit_uuid7 wit_key_crypto (Some (platform_resolver wit_key_lib wit_bootstrap (\<lambda>_ _. True) [wit_key_name \<mapsto> wit_key_row])) r = None"
      "receiptSequence (map_of (KindFields r) ''sequence'') = Inr 1" using wit_key_receipt by blast
  have "list_all (spares wit_key_lib r 1) [wit_revoke]" using wit_spares by simp
  then show ?thesis using rotation_keeps_earlier_receipts [OF r] by blast
qed

theorem revoked_key_verifies_nothing_later_witness:
  "\<exists>r sq. receiptSequence (map_of (KindFields r) ''sequence'') = Inr sq \<and> sq < 5
    \<and> Receipt_Verify wit_uuid7 wit_key_crypto (Some (platform_resolver wit_key_lib wit_bootstrap (\<lambda>_ _. True)
        (key_call wit_key_lib [wit_key_name \<mapsto> wit_key_row] wit_revoke))) r = None"
proof -
  obtain r where r: "Receipt_Verify wit_uuid7 wit_key_crypto (Some (platform_resolver wit_key_lib wit_bootstrap (\<lambda>_ _. True) [wit_key_name \<mapsto> wit_key_row])) r = None"
      "receiptSequence (map_of (KindFields r) ''sequence'') = Inr 1" "receipt_computer r = ''c''"
      "RequiredSigners r = [\<lparr>SignerDomain = ''platform-control'', KeyID = ''k''\<rparr>]" using wit_key_receipt by blast
  have k: "Receipt_Verify wit_uuid7 wit_key_crypto (Some (platform_resolver wit_key_lib wit_bootstrap (\<lambda>_ _. True)
      (key_call wit_key_lib [wit_key_name \<mapsto> wit_key_row] wit_revoke))) r = None"
    using verify_keeps [OF r(1), of "[wit_revoke]"] r(2) wit_spares by simp
  have n: "(''platform-control'', receipt_computer r, ''k'') = wit_key_name" using r(3) by simp
  have "\<exists>sq. receiptSequence (map_of (KindFields r) ''sequence'') = Inr sq
      \<and> (sq < 5 \<and> unat (5 :: uint64) < 2 ^ 63 \<and> kl_time wit_key_lib (IssuedAt r) < kl_column_time wit_key_lib 9 \<or> receipt_computer r = [] \<and> receipt_computer r \<noteq> []
        \<and> (\<exists>own. foldl (key_call wit_key_lib) (key_call wit_key_lib [wit_key_name \<mapsto> wit_key_row] wit_revoke) [] (''platform-control'', receipt_computer r, ''k'') = Some own
          \<and> serves own sq (kl_time wit_key_lib (IssuedAt r))))"
    by (rule revoked_key_verifies_nothing_later [where ks = "[]" and k = "''k''" and d = "''platform-control''" and ?c0.0 = "receipt_computer r"])
      (use wit_key_revoked r(4) k n in simp_all)
  then show ?thesis using k by blast
qed

end
