(* ===== verification/Spec2Isabelle.thy ===== *)
theory Spec2Isabelle
  imports Base_Planner Base_Journal Solitaire Appender_Replay Actor_Coalescer Actor_Progress Route_SQL Trusted_Outbox Selfdev_Mode Control_Keys
begin

text \<open>
  \<^bold>\<open>Choir: event tapes, their projections, sync and the deterministic services around them.\<close>

  Choir gives every user a computer whose state is a tape of semantic events. The platform owns the head of
  the tape and admits a new event by compare-and-swap; the guest inside the computer prepares an event, asks
  the platform to swap, and finalizes its own projection; a lost projection is reconstructed from the durable
  chain. Beside it, Choir Base synchronises files between devices from a hash-chained journal of item events,
  and small services (the solitaire game) keep their state in the same SQL stores. This development models
  those parts of the Go code under \<^verbatim>\<open>src/internal\<close> as functions and proves what makes them correct.

  \<^bold>\<open>Conventions\<close> (theory Prelude). A Go string is a list of bytes, a Go map a map together with an explicit
  iteration order wherever the order can be observed, a fallible function returns a sum with the error on the
  left, and a method that changes its receiver returns the new value. A time is an integer instant. A uint64
  is a 64 word, an int that can overflow is kept in range by explicit wrap-around. SQL tables are lists of
  rows or maps; statements that can fail take a fault oracle, so that every error path of the code is a branch
  of the model. Parameters stand for code that is not in the repository, with what the code relies on as
  named hypotheses: SHA-256 (values are digests, and where stated no collision occurs among the bytes
  concerned), UUIDv7 recognition, the JSON decoders of the standard library, the signature scheme (what
  is signed verifies under the public key), the artifact pinner and the payload cipher. One part of the
  repository is left abstract in the same way: the table writers of a projection batch (\<^verbatim>\<open>store/project.go\<close>) are an
  arbitrary function of the tables and the batch that may refuse, so that the theorems hold for every writer. The Prelude also holds the interfaces the components share: \<^verbatim>\<open>fold_step\<close>
  (an invariant of a step is an invariant of the fold), \<^verbatim>\<open>keyed_fold_step\<close> (a fold whose view at a key
  depends on the events of that key only) and \<^verbatim>\<open>guarded_step\<close> (a partial step).

  \<^bold>\<open>Choir Base\<close>
  \<^item> Base_Model (\<^verbatim>\<open>base/model/types.go\<close>): identifiers, items, versions, blobs, events and their Valid methods.
  \<^item> Base_Tree (\<^verbatim>\<open>base/tree/tree.go\<close>): a snapshot is derived from events in cursor order. Snapshots are
    well-formed, do not depend on arrival order, and the last event of an item decides it.
  \<^item> Base_Planner (\<^verbatim>\<open>base/planner/planner.go\<close>): the three-way reconciliation of a local, a remote and a
    synced tree. No change of either side is overwritten; the decision on one item is quiet exactly on agreement; the
    actions do not depend on the visiting order; exchanging the sides mirrors the plan, path collisions included where no
    two items of a side share a place. Two such items collide even between equal trees.
  \<^item> Base_Journal (\<^verbatim>\<open>base/journal/journal.go\<close>, \<^verbatim>\<open>sqlite.go\<close>): the in-memory and the SQLite journal behind
    one interface (\<^verbatim>\<open>event_journal\<close>); the SQLite append refines the in-memory one, appends keep the hash chain
    verifying, and the chain is tamper evident.
  \<^item> This theory composes them: a device that holds the journal's events has no action and no item conflict, and an empty
    plan exactly where no two live items share a place.

  \<^bold>\<open>The event tape\<close>
  \<^item> Canonical_JSON (\<^verbatim>\<open>computerevent/canonical.go\<close>): the printer whose bytes are hashed and signed; it is
    injective up to member order.
  \<^item> Computer_Event (\<^verbatim>\<open>computerevent/event.go\<close>, \<^verbatim>\<open>artifact_ref.go\<close>, \<^verbatim>\<open>request.go\<close>, \<^verbatim>\<open>reducer.go\<close>): events,
    request commitments and the head reducer. Replayed heads satisfy the head invariant, the effective state
    moves only where an event binds it, to the commitment the event names, and a head determines its tape.
  \<^item> Event_Receipt and Receipt_Storage (\<^verbatim>\<open>computerevent/receipt.go\<close>, \<^verbatim>\<open>event_receipt.go\<close>): signed receipts as
    issued, verified, stored and read back.
  \<^item> Event_CAS (\<^verbatim>\<open>platform/computer_events.go\<close>): the platform's compare-and-swap. Its history replays to its
    head after any calls and any failures, no update is lost, and a retry returns the first receipt.
  \<^item> Event_Replay (\<^verbatim>\<open>platform/event_replay.go\<close>): pages of the durable chain carry the recorded requests.
  \<^item> Event_Projection (\<^verbatim>\<open>store/computer_events.go\<close>, \<^verbatim>\<open>computerevent/projection_batch.go\<close>): the guest's index of
    prepared and finalized events and its heads. Both authorities are instances of \<^verbatim>\<open>forward_heads\<close>.
  \<^item> Event_Appender, Appender_Recovery and Appender_Replay (\<^verbatim>\<open>computerevent/appender.go\<close>,
    \<^verbatim>\<open>payload_resolver.go\<close>): the guest appender over a world of both databases, with a fault for every remote
    call: what an interrupted append leaves, what recovery makes of it, that reconstruction returns, and that
    it catches up exactly where the recorded batches project. The reconstruction loop has fuel \<open>2 ^ 64\<close>: every round but the last raises the uint64 cursor,
    so the fuel is never used up (theorem \<^verbatim>\<open>reconstruct_returns\<close>).
  \<^item> Control_Keys (\<^verbatim>\<open>platform/control_keys.go\<close>, \<^verbatim>\<open>event_runtime.go\<close>): the history of control keys and the resolvers that receipt
    verification asks for keys, behind the interface \<^verbatim>\<open>key_authority\<close>. A key moves from pending to active to revoked only, a
    revoked row verifies nothing from its cutoffs on (a key revoked for all computers can come back for one of them), and
    rotation keeps earlier receipts verifying.

  \<^bold>\<open>Services\<close>
  \<^item> Solitaire (\<^verbatim>\<open>solitaire/card.go\<close>, \<^verbatim>\<open>engine.go\<close>, \<^verbatim>\<open>store.go\<close>, \<^verbatim>\<open>handler.go\<close>): the deal, the moves, the store and
    the HTTP router; the cards are conserved, the layout is kept, owners are isolated.

  \<^bold>\<open>Actors\<close>
  \<^item> Actor_Log (\<^verbatim>\<open>actor/log_sqlite.go\<close>): the durable update log and the mailbox migrations. The Go interface \<^verbatim>\<open>Log\<close> is the
    locale \<^verbatim>\<open>durable_log\<close>, interpreted on the SQLite tables; processed updates stay processed, rebinding converges.
  \<^item> Actor_Coalescer (\<^verbatim>\<open>actor/coalesce.go\<close>): one wake per batch of settled children, none lost.
  \<^item> Actor_Runtime (\<^verbatim>\<open>actor/actor.go\<close>): senders, sweeps, evictions and the loop of every activation as labelled steps that
    interleave; each critical section, log statement, channel operation and handler call is one step, and the position
    of an activation in the loop is part of its state. Two history fields record the handled updates and the agents
    whose wake-up lapsed. Actor_Delivery proves the invariant of all reachable states, Actor_Progress that an
    activation left to run settles what it attends to: no wake-up is lost, a sweep recovers the rest, and where
    the code does leave an update behind (a handler error in the drain after the start-up replay).

  \<^bold>\<open>Versions and routes\<close>
  \<^item> Computer_Version (\<^verbatim>\<open>computerversion/types.go\<close>, \<^verbatim>\<open>equivalence.go\<close>): versions, capability manifests and observations, and
    the checker of equivalence claims, which authorizes exactly the true ones.
  \<^item> Input_Catalog (\<^verbatim>\<open>computerversion/input_resolver.go\<close>): code closures and artifact programs by content address, and the
    catalog that pins them; a reference names one declaration, and what is pinned stays.
  \<^item> Route_Ledger (\<^verbatim>\<open>routeledger/ledger.go\<close>) and Route_SQL (\<^verbatim>\<open>routeledger/sql_ledger.go\<close>): which version each computer is
    routed to, with the receipts and the evidence that authorize it. Route_Lineage states the contract of the Go
    interface \<^verbatim>\<open>Ledger\<close> as the locale \<^verbatim>\<open>route_ledger\<close>, interpreted on both ledgers: each slot has an unbroken chain
    of receipts and receipts are append-only. The SQL ledger refines the in-memory one and repeating a
    transition changes nothing, also after a lost commit. Go_Strings holds the facts on trimming and splitting they share.

  \<^bold>\<open>Decisions and effects\<close>
  \<^item> Decision_Policy (\<^verbatim>\<open>decisionpolicy/types.go\<close>, \<^verbatim>\<open>digest.go\<close>, \<^verbatim>\<open>reduce.go\<close>): policies with seats and quorums, attested
    ballots and the reducer that turns them into a consensus receipt. What consensus means is the specification
    \<open>admissible\<close> and \<open>carried\<close>; the reducer issues a receipt exactly then. One seat can vote twice, and revoking a
    policy under one of its two digests leaves the other.
  \<^item> Trusted_Outbox (\<^verbatim>\<open>trustedoutbox/outbox.go\<close>): dispatch of an irreversible effect under a consensus receipt, with its checks,
    its two critical sections, the arming check and the provider call as separate steps, between which the unguarded fields can
    change. Only requests cleared before are sent and only accepted ones turn green (the crash hook apart) under every
    interleaving; calls one after the other send once, overlapping ones can send twice.
  \<^item> Selfdev_Mode (\<^verbatim>\<open>platform/self_development_modes.go\<close>): the mode row of a computer, changed by compare-and-swap on its
    generation under a signed receipt. The generation counts the changes, one-shot modes are completely bound, a change can be
    repeated, and \<^verbatim>\<open>Get\<close> never serves a one-shot mode that has expired; what other calls do while it runs unlocked is an argument.

  \<^bold>\<open>Not modelled\<close>. Telemetry (progress counters, observers, log lines); durations (a wait of the actor runtime ends at any time); the HTTP glue around the modelled
  services; connection handling (open, close, pragmas); randomness (identifiers, shuffles and times are
  arguments). Calls on one database are serialized as its transactions serialize them; changes of the
  platform while a single reconstruction reads its pages are left out, as is a second appender running between the
  steps of an append. The other packages of the repository (the agent runtime over model providers, the
  general SQL store, machine control, mail and web front ends, source ingestion) are bound to external
  services and the operating system and are not part of the development.
\<close>

section \<open>Journal, tree and planner together\<close>

lemma tree_ok_not_corrupt: "tree_ok t \<Longrightarrow> \<not> corrupt t i"
  by (auto simp: tree_ok_def entry_ok_def corrupt_def present_def isDeleted_def getz_def
      split: option.splits dest!: spec [of _ i])

lemma conflict_reason_not_corrupt: "conflict_reason rI lI sI rV lV sV \<noteq> corrupt_reason a b"
  by (simp add: conflict_reason_def corrupt_reason_def Let_def)

lemma planItem_reason_not_corrupt:
  assumes "c \<in> set (snd (planItem i r l s))" "\<not> corrupt r i" "\<not> corrupt l i"
  shows "c_Reason c \<noteq> corrupt_reason a b"
proof -
  have "c_Reason c \<in> {conflict_reason (item_of r i) (item_of l i) (item_of s i) (ver_of r i) (ver_of l i) (ver_of s i),
      ''modify/delete: local modified, remote deleted'', ''modify/delete: remote modified, local deleted'',
      ''add/add: both sides created the same item with different content or location''}"
    using assms by (simp add: planItem_cases reconcile_cases mk_conflict_def split: if_splits)
  then show ?thesis
    using conflict_reason_not_corrupt by (elim insertE emptyE) (simp_all add: corrupt_reason_def)
qed

lemma planItem_same: "\<not> corrupt t i \<Longrightarrow> planItem i t t synced = ([], [])"
  by (simp add: planItem_cases reconcile_cases locationsEqual_def)

text \<open>The planner never meets a corrupt side on trees that come from a journal: whatever events the
  two sides derived their snapshots from, at whatever cursors, no conflict blames a missing version
  record.\<close>

theorem derived_trees_never_corrupt:
  "corrupt_reason a b \<notin> c_Reason ` set (snd (planItem i (DeriveUpTo u rs n) (DeriveUpTo u ls m) synced))"
  using planItem_reason_not_corrupt [of _ i "DeriveUpTo u rs n" "DeriveUpTo u ls m" synced a b]
    tree_ok_not_corrupt [OF DeriveUpTo_ok] by (metis (no_types) imageE)

lemma sq_read_seqs: "sq_inv j \<Longrightarrow> distinct (map e_CursorSeq (Events (sq_read j)))"
  by (simp add: sq.read_rows Events_def comp_def sq_inv_def rows_ok_def strict_sorted_iff)

lemma Plan_same:
  assumes "tree_ok t"
  shows "Plan ids lids rids t t synced = ([], []) \<longleftrightarrow> pathCollisions lids rids t t = []"
proof -
  have "planItem k t t synced = ([], [])" for k using planItem_same [OF tree_ok_not_corrupt [OF assms]] .
  then have "set (fst (Plan ids lids rids t t synced)) = {}" "set (snd (Plan ids lids rids t t synced)) = set (pathCollisions lids rids t t)"
    by (simp_all add: set_Plan_actions set_Plan_conflicts)
  then show ?thesis by (simp add: prod_eq_iff) (metis set_empty)
qed

text \<open>C38: a device that holds the events of the server's journal, in whatever order they arrived, has the server's tree, and
  the planner has nothing to do for it where that tree has no two live items at one place: no action and no conflict, whatever
  the ancestor. There is never an action and never a conflict of one item. But where two live items share a place, the
  collision pass reports a conflict although both sides agree: the plan is empty exactly where no two do.\<close>

theorem synced_replica_plans_nothing:
  assumes "sq_inv j" "mset es = mset (Events (sq_read j))"
  shows "Derive u es = Derive u (Events (sq_read j))
    \<and> planItem i (Derive u (Events (sq_read j))) (Derive u es) synced = ([], [])
    \<and> fst (Plan ids lids rids (Derive u (Events (sq_read j))) (Derive u es) synced) = []
    \<and> (one_per_place (Derive u es) \<longrightarrow> Plan ids lids rids (Derive u (Events (sq_read j))) (Derive u es) synced = ([], []))
    \<and> (enumerates lids (dom (Items (Derive u es))) \<and> enumerates rids (dom (Items (Derive u es))) \<and> [] \<notin> dom (Items (Derive u es))
        \<and> \<not> one_per_place (Derive u es) \<longrightarrow> snd (Plan ids lids rids (Derive u (Events (sq_read j))) (Derive u es) synced) \<noteq> [])"
proof -
  have d: "distinct (map e_CursorSeq es)"
    using sq_read_seqs [OF assms(1)] assms(2) by (metis mset_eq_imp_distinct_iff mset_map)
  have eq: "Derive u es = Derive u (Events (sq_read j))"
    using go_sort_perm [OF assms(2) d]
    by (simp add: Derive_eq)
  define t where "t = Derive u es"
  have ok: "tree_ok t" unfolding t_def by (rule Derive_ok)
  have quiet: "planItem k t t synced = ([], [])" for k using planItem_same [OF tree_ok_not_corrupt [OF ok]] .
  have acts: "fst (Plan ids lids rids t t synced) = []" using set_Plan_actions [of ids lids rids t t synced] by (simp add: quiet)
  note same = Plan_same [OF ok, of ids lids rids synced]
  have "one_per_place t \<longrightarrow> Plan ids lids rids t t synced = ([], [])" using same one_per_place_quiet by blast
  moreover have "enumerates lids (dom (Items t)) \<and> enumerates rids (dom (Items t)) \<and> [] \<notin> dom (Items t) \<and> \<not> one_per_place t
      \<longrightarrow> snd (Plan ids lids rids t t synced) \<noteq> []"
    using same acts pathCollisions_same [of lids t rids] by (metis prod.collapse)
  ultimately show ?thesis unfolding eq [symmetric] t_def [symmetric] using quiet acts by blast
qed

theorem synced_replica_plans_nothing_witness:
  "\<exists>j. SQLiteJournal_Append (\<lambda>_. False) wit_sha wit_marshal NewSQLiteJournal (wit_jevent ''a'' ''k'' [] 0)
      = Inr (wit_entry ''a'' ''k'' 1, j)
    \<and> Plan [''base_item_k''] [''base_item_k''] [''base_item_k''] (Derive wit_unmarshal (Events (sq_read j)))
        (Derive wit_unmarshal (Events (sq_read j))) NewTree = ([], [])"
proof -
  let ?j = "\<lparr>journal_events = [wit_entry ''a'' ''k'' 1], device_cursors = Map.empty\<rparr>"
  let ?t = "Derive wit_unmarshal (Events (sq_read ?j))"
  have ev: "Events (sq_read ?j) = [wit_jevent ''a'' ''k'' [] 1]" by (simp add: Events_def sq_read_def SQLiteJournal_Entries_def scanEntries_def wit_entry_def go_sort_def)
  have "i = ''base_item_k''" if "present ?t i" for i
  proof (rule ccontr)
    assume "i \<noteq> ''base_item_k''"
    then have "filter (\<lambda>e. e_ItemID e = i) (Events (sq_read ?j)) = []" unfolding ev by (simp add: wit_jevent_def)
    then have "Items ?t i = None"
      using derive_item_local [of wit_unmarshal "Events (sq_read ?j)" _ i] by (simp add: Derive_def DeriveUpTo_def NewTree_def go_sort_def)
    then show False using that by (simp add: present_def)
  qed
  then have "one_per_place ?t" unfolding one_per_place_def at_loc_def by blast
  then show ?thesis
    using synced_replica_plans_nothing [OF sq.append_inv [OF sq_inv_New wit_sq_append] refl,
      of wit_unmarshal "''base_item_k''" NewTree "[''base_item_k'']" "[''base_item_k'']" "[''base_item_k'']"] wit_sq_append by blast
qed

end
